(* ===== verification/Prelude.thy ===== *)
theory Prelude
  imports Main "HOL-Library.Word" "HOL-Library.Monad_Syntax"
begin

text \<open>
  What the components share: the names of the machine types, the convention for behaviour the
  C++ standard leaves undefined, byte-wise views of memory, and generic lemmas on lists and words.

  \<^item> A function whose C++ body can read or write outside its memory, divide by zero or dereference
    an empty optional returns an \<open>option\<close>: \<open>None\<close> is undefined behaviour, \<open>Some\<close> the value the
    code computes. Theorems that a routine is memory safe say that its result is \<open>Some\<close>.
  \<^item> \<open>tl::expected<T, E>\<close> is the sum \<open>E + T\<close>: \<open>Inl\<close> the error, \<open>Inr\<close> the value.
  \<^item> \<open>RAV_ASSERT\<close> only logs in the default configuration (\<open>RAV_THROW_EXCEPTION_ON_ASSERT\<close> and
    \<open>RAV_ABORT_ON_ASSERT\<close> are 0 in core/assert.hpp), so a failed assertion continues with the
    next statement.
\<close>

type_synonym byte = "8 word"
type_synonym u16 = "16 word"
type_synonym u32 = "32 word"
type_synonym u48 = "48 word"
type_synonym u64 = "64 word"

named_theorems codec_simps \<open>equations that evaluate byte codecs\<close>
named_theorems inv_intros \<open>preservation lemmas of the component invariants\<close>

section \<open>Views of memory\<close>

text \<open>An element read through a view (\<open>data[i]\<close>), and a block of \<open>n\<close> bytes (\<open>memcpy\<close>).\<close>

definition read_at :: "'a list \<Rightarrow> nat \<Rightarrow> 'a option" where
  "read_at d i = (if i < length d then Some (d ! i) else None)"

definition read_block :: "'a list \<Rightarrow> nat \<Rightarrow> nat \<Rightarrow> 'a list option" where
  "read_block d off n = (if off + n \<le> length d then Some (take n (drop off d)) else None)"

text \<open>\<open>memcpy\<close> of \<open>src\<close> into \<open>dst + off\<close>.\<close>

definition write_block :: "'a list \<Rightarrow> nat \<Rightarrow> 'a list \<Rightarrow> 'a list option" where
  "write_block dst off src =
     (if off + length src \<le> length dst
      then Some (take off dst @ src @ drop (off + length src) dst) else None)"

lemma read_at_Some [simp]: "i < length d \<Longrightarrow> read_at d i = Some (d ! i)"
  by (simp add: read_at_def)

lemma read_at_None [simp]: "length d \<le> i \<Longrightarrow> read_at d i = None"
  by (simp add: read_at_def)

lemma read_block_Some [simp]: "off + n \<le> length d \<Longrightarrow> read_block d off n = Some (take n (drop off d))"
  by (simp add: read_block_def)

lemma read_block_None [simp]: "length d < off + n \<Longrightarrow> read_block d off n = None"
  by (simp add: read_block_def)

lemma write_block_Some [simp]:
  "off + length src \<le> length dst \<Longrightarrow>
   write_block dst off src = Some (take off dst @ src @ drop (off + length src) dst)"
  by (simp add: write_block_def)

lemma length_write_block: "write_block dst off src = Some dst' \<Longrightarrow> length dst' = length dst"
  by (auto simp: write_block_def split: if_splits)

lemma nth_write_block:
  assumes "write_block dst off src = Some dst'" and "i < length dst"
  shows "dst' ! i = (if off \<le> i \<and> i < off + length src then src ! (i - off) else dst ! i)"
  using assms by (auto simp: write_block_def nth_append min_def split: if_splits)

lemma length_read_block: "read_block d off n = Some bs \<Longrightarrow> length bs = n"
  by (auto simp: read_block_def split: if_splits)

lemma nth_read_block:
  "read_block d off n = Some bs \<Longrightarrow> i < n \<Longrightarrow> bs ! i = d ! (off + i)"
  by (auto simp: read_block_def split: if_splits)

section \<open>Option bind\<close>

lemma bind_Some_iff:
  "Option.bind m f = Some y \<longleftrightarrow> (\<exists>x. m = Some x \<and> f x = Some y)"
  by (cases m) auto

lemma bind_None_iff:
  "Option.bind m f = None \<longleftrightarrow> m = None \<or> (\<exists>x. m = Some x \<and> f x = None)"
  by (cases m) auto

section \<open>Lists\<close>

lemma take_eq_nth: "n \<le> length xs \<Longrightarrow> take n xs = map ((!) xs) [0..<n]"
  by (rule nth_equalityI) auto

lemma list_eq_nth_iff:
  "xs = ys \<longleftrightarrow> length xs = length ys \<and> (\<forall>i < length xs. xs ! i = ys ! i)"
  by (auto intro: nth_equalityI)

lemma fold_max_ge: "(x :: nat) \<le> fold max xs x"
  by (induction xs arbitrary: x) (auto intro: order_trans [OF max.cobounded2])

lemma div_less_iff: "0 < (b :: int) \<Longrightarrow> h div b < a \<longleftrightarrow> h < a * b"
proof
  assume b: "0 < b" and "h div b < a"
  then have "(h div b + 1) * b \<le> a * b" by (intro mult_right_mono) simp_all
  moreover have "h < h div b * b + b"
    using div_mult_mod_eq [of h b] pos_mod_bound [OF b, of h] by linarith
  ultimately show "h < a * b" by (simp add: distrib_right)
next
  assume b: "0 < b" and h: "h < a * b"
  show "h div b < a"
  proof (rule ccontr)
    assume "\<not> h div b < a"
    then have "a * b \<le> h div b * b" using b by (intro mult_right_mono) simp_all
    moreover have "h div b * b \<le> h"
      using div_mult_mod_eq [of h b] pos_mod_sign [OF b, of h] by linarith
    ultimately show False using h by simp
  qed
qed

section \<open>Words\<close>

lemma unat_bound: "unat (w :: 'a::len word) < 2 ^ LENGTH('a)"
  by (rule unsigned_less)

lemma unat_plus_if:
  "unat ((a :: 'a::len word) + b) = (unat a + unat b) mod 2 ^ LENGTH('a)"
  by (simp add: unat_word_ariths)

lemma unat_minus_le: "b \<le> a \<Longrightarrow> unat ((a :: 'a::len word) - b) = unat a - unat b"
  by (rule unat_sub)

lemma unat_add_no_wrap:
  "unat (a :: 'a::len word) + unat b < 2 ^ LENGTH('a) \<Longrightarrow> unat (a + b) = unat a + unat b"
  by (simp add: unat_word_ariths)

lemma unat_of_nat_small:
  "n < 2 ^ LENGTH('a) \<Longrightarrow> unat (of_nat n :: 'a::len word) = n"
  by (simp add: unat_of_nat take_bit_nat_eq_self)

lemma unat_uminus:
  "unat (- w :: 'a::len word) = (if w = 0 then 0 else 2 ^ LENGTH('a) - unat w)"
  using unat_sub_if' [of "0 :: 'a word" w] by (simp add: unat_0_iff)

lemma sint_eq_uint_small:
  assumes "unat (w :: 'a::len word) < 2 ^ (LENGTH('a) - 1)"
  shows "sint w = int (unat w)"
proof -
  from assms have "int (unat w) < int (2 ^ (LENGTH('a) - 1))" by (simp only: of_nat_less_iff)
  then have "uint w < 2 ^ (LENGTH('a) - 1)" by simp
  moreover have "- (2 ^ (LENGTH('a) - 1)) \<le> uint w"
    by (rule order_trans [of _ 0]) simp_all
  ultimately have "signed_take_bit (LENGTH('a) - 1) (uint w) = uint w"
    by (simp add: signed_take_bit_int_eq_self)
  then show ?thesis by (simp add: sint_uint)
qed

lemma sint_uminus_small:
  assumes "unat (w :: 'a::len word) < 2 ^ (LENGTH('a) - 1)"
  shows "sint (- w) = - sint w"
proof -
  have "0 \<le> sint w" and "sint w < 2 ^ (LENGTH('a) - 1)"
    using assms sint_lt [of w] by (simp_all add: sint_eq_uint_small)
  then show ?thesis
    by (simp add: sint_word_minus signed_take_bit_int_eq_self)
qed

end
