(* ===== verification/Byte_Order.thy ===== *)
theory Byte_Order
  imports Prelude
begin

text \<open>
  include/ravennakit/core/byte_order.hpp on a little-endian host (\<open>RAV_LITTLE_ENDIAN\<close> = 1, the only
  tested configuration): the in-memory representation of an integer, the byte swaps in place and by
  value, and the reads and writes in native, big- and little-endian order. The lemmas show that the
  swap loops are list reversal, that big-endian reads are the positional value of the bytes, and
  that every write/read pair is a round trip. A locale states what the codecs rely on.
\<close>

section \<open>Memory representation of an integer\<close>

fun le_bytes :: "nat \<Rightarrow> nat \<Rightarrow> byte list" where
  "le_bytes 0 v = []"
| "le_bytes (Suc n) v = of_nat (v mod 256) # le_bytes n (v div 256)"

fun le_value :: "byte list \<Rightarrow> nat" where
  "le_value [] = 0"
| "le_value (b # bs) = unat b + 256 * le_value bs"

definition word_size_bytes :: "'a::len word \<Rightarrow> nat" where
  "word_size_bytes w = LENGTH('a) div 8"

definition word_to_mem :: "'a::len word \<Rightarrow> byte list" where
  "word_to_mem w = le_bytes (LENGTH('a) div 8) (unat w)"

definition mem_to_word :: "byte list \<Rightarrow> 'a::len word" where
  "mem_to_word bs = of_nat (le_value bs)"

lemma length_le_bytes [simp]: "length (le_bytes n v) = n"
  by (induction n arbitrary: v) auto

lemma le_value_le_bytes: "le_value (le_bytes n v) = v mod 256 ^ n"
proof (induction n arbitrary: v)
  case 0
  then show ?case by simp
next
  case (Suc n)
  have "unat (of_nat (v mod 256) :: byte) = v mod 256"
    by (rule unat_of_nat_small) simp
  with Suc show ?case
    by (simp add: mod_mult2_eq)
qed

lemma le_value_bound: "le_value bs < 256 ^ length bs"
proof (induction bs)
  case Nil
  then show ?case by simp
next
  case (Cons b bs)
  have "unat b < 256" using unat_bound [of b] by simp
  then have "unat b + 256 * le_value bs < 256 * Suc (le_value bs)" by simp
  also have "\<dots> \<le> 256 * 256 ^ length bs"
    by (rule mult_le_mono2) (use Cons in simp)
  finally show ?case by simp
qed

lemma le_bytes_le_value: "le_bytes (length bs) (le_value bs) = bs"
proof (induction bs)
  case Nil
  then show ?case by simp
next
  case (Cons b bs)
  have b: "unat b < 256" using unat_bound [of b] by simp
  then have "(unat b + 256 * le_value bs) mod 256 = unat b"
    and "(unat b + 256 * le_value bs) div 256 = le_value bs" by simp_all
  with Cons show ?case by simp
qed

lemma length_word_to_mem [simp]: "length (word_to_mem (w :: 'a::len word)) = LENGTH('a) div 8"
  by (simp add: word_to_mem_def)

lemma power_256: "(256 :: nat) ^ n = 2 ^ (8 * n)"
  by (simp add: power_mult)

lemma mem_to_word_to_mem:
  assumes "8 dvd LENGTH('a::len)"
  shows "mem_to_word (word_to_mem w) = (w :: 'a word)"
proof -
  have "(256 :: nat) ^ (LENGTH('a) div 8) = 2 ^ LENGTH('a)"
    using assms by (simp add: power_256)
  then show ?thesis
    using unat_bound [of w] by (simp add: mem_to_word_def word_to_mem_def le_value_le_bytes)
qed

lemma word_to_mem_to_word:
  assumes "length bs = LENGTH('a::len) div 8" and "8 dvd LENGTH('a)"
  shows "word_to_mem (mem_to_word bs :: 'a word) = bs"
proof -
  have "le_value bs < 2 ^ LENGTH('a)"
    using le_value_bound [of bs] assms by (simp add: power_256)
  then show ?thesis
    using le_bytes_le_value [of bs] assms
    by (simp add: mem_to_word_def word_to_mem_def unat_of_nat_small)
qed

section \<open>Swaps in place\<close>

definition swap_at :: "nat \<Rightarrow> nat \<Rightarrow> 'a list \<Rightarrow> 'a list" where
  "swap_at i j d = d[i := d ! j, j := d ! i]"

text \<open>\<open>for (i = 0; i < n / 2; ++i) std::swap(data[base + i], data[base + n - i - 1])\<close>\<close>

definition swap_seg :: "nat \<Rightarrow> nat \<Rightarrow> 'a list \<Rightarrow> 'a list" where
  "swap_seg base n d = fold (\<lambda>i. swap_at (base + i) (base + n - i - 1)) [0..<n div 2] d"

text \<open>\<open>swap_bytes(data, size)\<close>; the empty list stands for the null pointer.\<close>

definition swap_bytes_mem :: "'a list \<Rightarrow> nat \<Rightarrow> 'a list option" where
  "swap_bytes_mem d sz =
     (if d = [] \<or> sz = 0 then Some d
      else if length d < sz then None
      else Some (swap_seg 0 sz d))"

text \<open>\<open>swap_bytes(data, size, stride)\<close>: the outer loop advances by \<open>stride\<close>.\<close>

function swap_stride_loop :: "'a list \<Rightarrow> nat \<Rightarrow> nat \<Rightarrow> nat \<Rightarrow> 'a list option" where
  "swap_stride_loop d i sz stride =
     (if i < sz \<and> 0 < stride
      then if length d < i + stride then None
           else swap_stride_loop (swap_seg i stride d) (i + stride) sz stride
      else Some d)"
  by pat_completeness auto
termination
  by (relation "measure (\<lambda>(d, i, sz, stride). sz - i)") auto

declare swap_stride_loop.simps [simp del]

definition swap_bytes_stride :: "'a list \<Rightarrow> nat \<Rightarrow> nat \<Rightarrow> 'a list option" where
  "swap_bytes_stride d sz stride =
     (if d = [] \<or> sz = 0 \<or> stride \<le> 1 then Some d else swap_stride_loop d 0 sz stride)"

lemma length_swap_at [simp]: "length (swap_at i j d) = length d"
  by (simp add: swap_at_def)

lemma nth_swap_at:
  "i < length d \<Longrightarrow> j < length d \<Longrightarrow>
   swap_at i j d ! k = (if k = i then d ! j else if k = j then d ! i else d ! k)"
  by (auto simp: swap_at_def nth_list_update)

lemma length_fold_swap [simp]:
  "length (fold (\<lambda>i. swap_at (f i) (g i)) is d) = length d"
  by (induction "is" arbitrary: d) auto

lemma length_swap_seg [simp]: "length (swap_seg base n d) = length d"
  by (simp add: swap_seg_def)

lemma nth_fold_swap:
  assumes "k \<le> n div 2" and "base + n \<le> length d"
  shows "fold (\<lambda>i. swap_at (base + i) (base + n - i - 1)) [0..<k] d ! j =
    (if base \<le> j \<and> j < base + k \<or> base + n - k \<le> j \<and> j < base + n
     then d ! (base + n - 1 - (j - base)) else d ! j)"
  using assms(1)
proof (induction k arbitrary: j)
  case 0
  then show ?case by auto
next
  case (Suc k)
  let ?d = "fold (\<lambda>i. swap_at (base + i) (base + n - i - 1)) [0..<k] d"
  from Suc.prems have k: "2 * k + 1 < n" "k \<le> n div 2" by auto
  have IH: "?d ! m = (if base \<le> m \<and> m < base + k \<or> base + n - k \<le> m \<and> m < base + n
     then d ! (base + n - 1 - (m - base)) else d ! m)" for m
    by (rule Suc.IH) (use k in simp)
  have "fold (\<lambda>i. swap_at (base + i) (base + n - i - 1)) [0..<Suc k] d ! j
      = swap_at (base + k) (base + n - k - 1) ?d ! j" by simp
  also have "\<dots> = (if j = base + k then ?d ! (base + n - k - 1)
      else if j = base + n - k - 1 then ?d ! (base + k) else ?d ! j)"
    using k assms(2) by (intro nth_swap_at) simp_all
  also have "\<dots> = (if base \<le> j \<and> j < base + Suc k \<or> base + n - Suc k \<le> j \<and> j < base + n
     then d ! (base + n - 1 - (j - base)) else d ! j)"
    unfolding IH using k by (auto intro!: arg_cong [where f = "(!) d"])
  finally show ?case .
qed

lemma nth_swap_seg:
  assumes "base + n \<le> length d"
  shows "swap_seg base n d ! j =
    (if base \<le> j \<and> j < base + n then d ! (base + n - 1 - (j - base)) else d ! j)"
proof -
  have mid: "base + n - 1 - (j - base) = j" if "base + n div 2 \<le> j" "j < base + n - n div 2"
    using that by linarith
  show ?thesis
    unfolding swap_seg_def nth_fold_swap [OF order_refl assms]
    using mid by (auto simp del: diff_diff_left)
qed

lemma swap_seg_eq_rev:
  assumes "base + n \<le> length d"
  shows "swap_seg base n d = take base d @ rev (take n (drop base d)) @ drop (base + n) d"
    (is "_ = ?rhs")
proof (rule nth_equalityI)
  show "length (swap_seg base n d) = length ?rhs"
    using assms by simp
next
  fix j assume "j < length (swap_seg base n d)"
  then have j: "j < length d" by simp
  have "rev (take n (drop base d)) ! (j - base) = d ! (base + n - 1 - (j - base))"
    if "base \<le> j" "j < base + n"
  proof -
    have "n - Suc (j - base) < n" and "base + (n - Suc (j - base)) = base + n - 1 - (j - base)"
      using that by linarith+
    then show ?thesis using that assms by (simp add: rev_nth)
  qed
  then show "swap_seg base n d ! j = ?rhs ! j"
    using assms j by (auto simp: nth_swap_seg nth_append min_def)
qed

lemma swap_bytes_mem_rev: "swap_bytes_mem d (length d) = Some (rev d)"
  by (simp add: swap_bytes_mem_def swap_seg_eq_rev)

lemma swap_stride_loop_rev:
  "stride * n = length d - i \<Longrightarrow> i \<le> length d \<Longrightarrow> 0 < stride \<Longrightarrow>
   swap_stride_loop d i (length d) stride =
     Some (take i d @ concat (map (\<lambda>k. rev (take stride (drop (i + k * stride) d))) [0..<n]))"
proof (induction n arbitrary: d i)
  case 0
  then show ?case by (simp add: swap_stride_loop.simps)
next
  case (Suc n)
  from Suc.prems(1) have "stride + stride * n = length d - i" by simp
  then have "stride \<le> length d - i" by (metis le_add1)
  with Suc.prems(2,3) have i: "i + stride \<le> length d" "i < length d"
    by arith+
  let ?d = "swap_seg i stride d"
  have d: "?d = take i d @ rev (take stride (drop i d)) @ drop (i + stride) d"
    using i by (simp add: swap_seg_eq_rev)
  have take: "take (i + stride) ?d = take i d @ rev (take stride (drop i d))"
    using i by (simp add: d min_def) arith
  have drop: "drop (i + stride + k) ?d = drop (i + stride + k) d" for k
    using i by (simp add: d ac_simps)
  have "swap_stride_loop d i (length d) stride = swap_stride_loop ?d (i + stride) (length ?d) stride"
    using i Suc.prems by (subst swap_stride_loop.simps) simp
  also have "\<dots> = Some (take (i + stride) ?d @
      concat (map (\<lambda>k. rev (take stride (drop (i + stride + k * stride) ?d))) [0..<n]))"
    by (rule Suc.IH) (use Suc.prems i in simp_all)
  also have "\<dots> = Some (take i d @ concat (map (\<lambda>k. rev (take stride (drop (i + k * stride) d))) [0..<Suc n]))"
    unfolding take drop
    by (simp only: upt_conv_Cons map_Suc_upt [symmetric] zero_less_Suc)
       (simp add: add.assoc comp_def)
  finally show ?case .
qed

text \<open>Swapping a buffer of whole frames reverses each frame and never leaves the buffer.\<close>

lemma swap_bytes_stride_frames:
  assumes "length d = n * stride" and "2 \<le> stride"
  shows "swap_bytes_stride d (length d) stride =
    Some (concat (map (\<lambda>k. rev (take stride (drop (k * stride) d))) [0..<n]))"
proof (cases "n = 0")
  case True
  with assms show ?thesis by (simp add: swap_bytes_stride_def)
next
  case False
  with assms show ?thesis
    using swap_stride_loop_rev [of stride n d 0] by (simp add: swap_bytes_stride_def mult.commute)
qed

section \<open>Swaps by value\<close>

definition little_endian :: bool where
  "little_endian = True"

definition bswap :: "'a::len word \<Rightarrow> 'a word" where
  "bswap w = mem_to_word (rev (word_to_mem w))"

definition swap_bytes_val :: "'a::len word \<Rightarrow> 'a word" where
  "swap_bytes_val w =
     (let sz = LENGTH('a) div 8 in
      if sz = 1 then w
      else if sz = 2 \<or> sz = 4 \<or> sz = 8 then bswap w
      else (case swap_bytes_mem (word_to_mem w) sz of None \<Rightarrow> w | Some bs \<Rightarrow> mem_to_word bs))"

definition swap_if_le :: "'a::len word \<Rightarrow> 'a word" where
  "swap_if_le w = (if little_endian then swap_bytes_val w else w)"

definition swap_if_be :: "'a::len word \<Rightarrow> 'a word" where
  "swap_if_be w = (if \<not> little_endian then swap_bytes_val w else w)"

lemma swap_bytes_val_rev:
  assumes "8 dvd LENGTH('a::len)"
  shows "swap_bytes_val (w :: 'a word) = mem_to_word (rev (word_to_mem w))"
proof (cases "LENGTH('a) div 8 = 1")
  case True
  then have "length (word_to_mem w) = 1" by simp
  then have "rev (word_to_mem w) = word_to_mem w"
    by (cases "word_to_mem w") simp_all
  with True show ?thesis
    using assms by (simp add: swap_bytes_val_def mem_to_word_to_mem)
next
  case False
  then show ?thesis
    using swap_bytes_mem_rev [of "word_to_mem w"]
    by (auto simp: swap_bytes_val_def Let_def bswap_def)
qed

lemma swap_bytes_val_involution:
  assumes "8 dvd LENGTH('a::len)"
  shows "swap_bytes_val (swap_bytes_val w) = (w :: 'a word)"
  using assms by (simp add: swap_bytes_val_rev word_to_mem_to_word mem_to_word_to_mem)

section \<open>Reads and writes\<close>

definition read_ne :: "byte list \<Rightarrow> nat \<Rightarrow> 'a::len word option" where
  "read_ne d off = map_option mem_to_word (read_block d off (LENGTH('a) div 8))"

definition read_be :: "byte list \<Rightarrow> nat \<Rightarrow> 'a::len word option" where
  "read_be d off = map_option swap_if_le (read_ne d off)"

definition read_le :: "byte list \<Rightarrow> nat \<Rightarrow> 'a::len word option" where
  "read_le d off = map_option swap_if_be (read_ne d off)"

definition write_ne :: "byte list \<Rightarrow> nat \<Rightarrow> 'a::len word \<Rightarrow> byte list option" where
  "write_ne dst off w = write_block dst off (word_to_mem w)"

definition write_be :: "byte list \<Rightarrow> nat \<Rightarrow> 'a::len word \<Rightarrow> byte list option" where
  "write_be dst off w = write_ne dst off (swap_if_le w)"

definition write_le :: "byte list \<Rightarrow> nat \<Rightarrow> 'a::len word \<Rightarrow> byte list option" where
  "write_le dst off w = write_ne dst off (swap_if_be w)"

text \<open>The bytes of a big-endian value, and the value of such bytes.\<close>

definition enc_be :: "'a::len word \<Rightarrow> byte list" where
  "enc_be w = word_to_mem (swap_if_le w)"

definition dec_be :: "byte list \<Rightarrow> 'a::len word" where
  "dec_be bs = swap_if_le (mem_to_word bs)"

lemma read_be_block: "read_be d off = map_option (dec_be :: _ \<Rightarrow> 'a::len word) (read_block d off (LENGTH('a) div 8))"
  by (simp add: read_be_def read_ne_def dec_be_def [abs_def] option.map_comp comp_def)

lemma write_be_block: "write_be dst off w = write_block dst off (enc_be w)"
  by (simp add: write_be_def write_ne_def enc_be_def)

lemma length_enc_be [simp]: "length (enc_be (w :: 'a::len word)) = LENGTH('a) div 8"
  by (simp add: enc_be_def)

lemma swap_if_le_rev:
  "8 dvd LENGTH('a::len) \<Longrightarrow> swap_if_le (w :: 'a word) = mem_to_word (rev (word_to_mem w))"
  by (simp add: swap_if_le_def little_endian_def swap_bytes_val_rev)

lemma enc_be_rev: "8 dvd LENGTH('a::len) \<Longrightarrow> enc_be (w :: 'a word) = rev (word_to_mem w)"
  by (simp add: enc_be_def swap_if_le_rev word_to_mem_to_word)

lemma dec_be_rev:
  assumes "8 dvd LENGTH('a::len)" and "length bs = LENGTH('a) div 8"
  shows "dec_be bs = (mem_to_word (rev bs) :: 'a word)"
  using assms by (simp add: dec_be_def swap_if_le_rev word_to_mem_to_word)

lemma dec_enc_be: "8 dvd LENGTH('a::len) \<Longrightarrow> dec_be (enc_be w) = (w :: 'a word)"
  by (simp add: dec_be_rev enc_be_rev mem_to_word_to_mem)

lemma enc_dec_be:
  "8 dvd LENGTH('a::len) \<Longrightarrow> length bs = LENGTH('a) div 8 \<Longrightarrow> enc_be (dec_be bs :: 'a word) = bs"
  by (simp add: dec_be_rev enc_be_rev word_to_mem_to_word)

section \<open>Reading what was written\<close>

lemma enc_be_byte [simp]: "enc_be (b :: byte) = [b]"
  using unat_bound [of b] by (simp add: enc_be_rev word_to_mem_def)

lemma enc_be_u16:
  "enc_be (w :: u16) = [ucast (drop_bit 8 w), ucast w]"
proof -
  have "word_to_mem w = [of_nat (unat w mod 256), of_nat (unat w div 256 mod 256)]"
    by (simp add: word_to_mem_def numeral_2_eq_2)
  moreover have "(of_nat (unat w mod 256) :: byte) = ucast w"
    by (rule word_unat_eq_iff [THEN iffD2])
       (simp add: unsigned_ucast_eq unat_of_nat take_bit_eq_mod)
  moreover have "(of_nat (unat w div 256 mod 256) :: byte) = ucast (drop_bit 8 w)"
    by (rule word_unat_eq_iff [THEN iffD2])
       (simp add: unsigned_ucast_eq unat_of_nat take_bit_eq_mod unsigned_drop_bit_eq drop_bit_eq_div unat_div)
  ultimately show ?thesis by (simp add: enc_be_rev)
qed

lemma read_be_enc:
  "8 dvd LENGTH('a::len) \<Longrightarrow> read_be (enc_be (w :: 'a word) @ rest) 0 = Some w"
  by (simp add: read_be_block read_block_def dec_enc_be)

lemma read_be_skip:
  "length pre \<le> off \<Longrightarrow> read_be (pre @ rest) off = read_be rest (off - length pre)"
  by (auto simp: read_be_block read_block_def le_iff_add add.assoc)

lemma read_be_drop: "off \<le> length d \<Longrightarrow> read_be (drop off d) k = read_be d (off + k)"
  by (auto simp: read_be_block read_block_def add.commute)

lemma read_be_here [codec_simps]:
  "length pre = off \<Longrightarrow> 8 dvd LENGTH('a::len) \<Longrightarrow> read_be (pre @ enc_be (w :: 'a word) @ rest) off = Some w"
  by (simp add: read_be_skip read_be_enc)

lemma read_be_at:
  "d = pre @ enc_be (w :: 'a word) @ rest \<Longrightarrow> length pre = off \<Longrightarrow> 8 dvd LENGTH('a::len) \<Longrightarrow> read_be d off = Some w"
  by (simp add: read_be_here)

lemma read_be_defined: "off + LENGTH('a) div 8 \<le> length d \<Longrightarrow> \<exists>w. read_be d off = Some (w :: 'a::len word)"
  by (simp add: read_be_block read_block_def)

section \<open>The interface of a fixed-width field\<close>

text \<open>
  What the wire formats rely on: encoding and decoding of a field are inverse and of fixed width.
\<close>

locale field_codec =
  fixes width :: nat
    and enc :: "'v \<Rightarrow> byte list"
    and dec :: "byte list \<Rightarrow> 'v"
  assumes enc_length: "length (enc v) = width"
    and dec_enc: "dec (enc v) = v"
    and enc_dec: "length bs = width \<Longrightarrow> enc (dec bs) = bs"
begin

definition read_field :: "byte list \<Rightarrow> nat \<Rightarrow> 'v option" where
  "read_field d off = map_option dec (read_block d off width)"

lemma read_field_here: "read_field (enc v @ rest) 0 = Some v"
  by (simp add: read_field_def read_block_def enc_length dec_enc)

lemma read_field_skip: "length pre \<le> off \<Longrightarrow> read_field (pre @ rest) off = read_field rest (off - length pre)"
  by (auto simp: read_field_def read_block_def le_iff_add add.assoc)

lemma read_field_defined: "(\<exists>v. read_field d off = Some v) \<longleftrightarrow> off + width \<le> length d"
  by (simp add: read_field_def read_block_def)

lemma read_written:
  assumes "write_block dst off (enc v) = Some dst'"
  shows "read_field dst' off = Some v"
  using assms by (auto simp: read_field_def write_block_def read_block_def enc_length dec_enc split: if_splits)

lemma read_disjoint:
  assumes "write_block dst off src = Some dst'"
    and "off' + width \<le> off \<or> off + length src \<le> off'"
  shows "read_field dst' off' = read_field dst off'"
proof -
  have len: "length dst' = length dst" using assms(1) by (rule length_write_block)
  have same: "take width (drop off' dst') = take width (drop off' dst)" if "off' + width \<le> length dst"
  proof (rule nth_equalityI)
    show "length (take width (drop off' dst')) = length (take width (drop off' dst))"
      using len by simp
  next
    fix i assume "i < length (take width (drop off' dst'))"
    then have i: "i < width" by simp
    then have "dst' ! (off' + i) = dst ! (off' + i)"
      using nth_write_block [OF assms(1), of "off' + i"] assms(2) that by auto
    moreover have "off' \<le> length dst'" "off' \<le> length dst"
      using that len by simp_all
    ultimately show "take width (drop off' dst') ! i = take width (drop off' dst) ! i"
      by (simp only: nth_take [OF i] nth_drop)
  qed
  show ?thesis
  proof (cases "off' + width \<le> length dst")
    case True
    then show ?thesis by (simp only: read_field_def read_block_def len same [OF True] if_True)
  next
    case False
    then show ?thesis by (simp only: read_field_def read_block_def len if_False)
  qed
qed

lemma enc_inject: "enc v = enc w \<longleftrightarrow> v = w"
  by (metis dec_enc)

end

interpretation be8: field_codec 1 "enc_be :: byte \<Rightarrow> byte list" dec_be
  by unfold_locales (simp_all add: dec_enc_be enc_dec_be del: enc_be_byte)

interpretation be16: field_codec 2 "enc_be :: u16 \<Rightarrow> byte list" dec_be
  by unfold_locales (simp_all add: dec_enc_be enc_dec_be)

interpretation be32: field_codec 4 "enc_be :: u32 \<Rightarrow> byte list" dec_be
  by unfold_locales (simp_all add: dec_enc_be enc_dec_be)

interpretation be48: field_codec 6 "enc_be :: u48 \<Rightarrow> byte list" dec_be
  by unfold_locales (simp_all add: dec_enc_be enc_dec_be)

interpretation be64: field_codec 8 "enc_be :: u64 \<Rightarrow> byte list" dec_be
  by unfold_locales (simp_all add: dec_enc_be enc_dec_be)

end
