(* ===== verification/Wrapping.thy ===== *)
theory Wrapping
  imports Byte_Order "HOL-Library.Signed_Division"
begin

text \<open>
  The integer types of core/util/wrapping_uint.hpp, core/types/safe_int.hpp, core/types/uint48.hpp,
  core/types/int24.hpp and core/math/range.hpp. A \<open>WrappingUint<T>\<close> is the word it stores. The
  lemmas show that inside a window of half the number range the wrapping order is the order of the
  unwrapped numbers, that \<open>update\<close> tracks the newest number of a reordered and lossy sequence, and
  that the checked arithmetic of \<open>SafeInt\<close> is exact.
\<close>

section \<open>WrappingUint\<close>

definition is_older_than :: "'a::len word \<Rightarrow> 'a word \<Rightarrow> bool" where
  "is_older_than a b \<longleftrightarrow> a \<noteq> b \<and> unat (b - a) < (2 ^ LENGTH('a) - 1) div 2 + 1"

definition wrapping_update :: "'a::len word \<Rightarrow> 'a word \<Rightarrow> 'a word option \<times> 'a word" where
  "wrapping_update cur v =
     (if is_older_than v cur then (None, cur) else (Some (v - cur), v))"

definition wrapping_add :: "'a::len word \<Rightarrow> 'a word \<Rightarrow> 'a word" where
  "wrapping_add cur v = cur + v"

definition wrapping_sub :: "'a::len word \<Rightarrow> 'a word \<Rightarrow> 'a word" where
  "wrapping_sub cur v = cur - v"

definition wrapping_lt :: "'a::len word \<Rightarrow> 'a word \<Rightarrow> bool" where
  "wrapping_lt lhs rhs = is_older_than lhs rhs"

definition wrapping_le :: "'a::len word \<Rightarrow> 'a word \<Rightarrow> bool" where
  "wrapping_le lhs rhs \<longleftrightarrow> wrapping_lt lhs rhs \<or> lhs = rhs"

definition wrapping_gt :: "'a::len word \<Rightarrow> 'a word \<Rightarrow> bool" where
  "wrapping_gt lhs rhs \<longleftrightarrow> \<not> wrapping_le lhs rhs"

definition wrapping_ge :: "'a::len word \<Rightarrow> 'a word \<Rightarrow> bool" where
  "wrapping_ge lhs rhs \<longleftrightarrow> wrapping_gt lhs rhs \<or> lhs = rhs"

definition wrapping_diff :: "'a::len word \<Rightarrow> 'a word \<Rightarrow> int" where
  "wrapping_diff cur other =
     (if is_older_than other cur then sint (cur - other) * (- 1) else sint (other - cur))"

lemma half_range: "(2 ^ LENGTH('a::len) - 1) div 2 + 1 = (2 :: nat) ^ (LENGTH('a) - 1)"
proof -
  obtain k where k: "LENGTH('a) = Suc k" by (cases "LENGTH('a)") simp_all
  have "(2 * m - 1) div 2 + 1 = m" if "0 < m" for m :: nat
    using that by arith
  from this [of "2 ^ k"] show ?thesis by (simp add: k)
qed

lemma is_older_than_iff:
  "is_older_than (a :: 'a::len word) b \<longleftrightarrow> a \<noteq> b \<and> unat (b - a) < 2 ^ (LENGTH('a) - 1)"
  unfolding is_older_than_def half_range ..

lemma unat_diff_of_nat:
  assumes "x \<le> y" and "y - x < 2 ^ LENGTH('a::len)"
  shows "unat (of_nat y - of_nat x :: 'a word) = y - x"
proof -
  have "of_nat y - of_nat x = (of_nat (y - x) :: 'a word)"
    using assms(1) by simp
  with assms(2) show ?thesis by (simp add: unat_of_nat_small)
qed

lemma unat_diff_of_nat_back:
  assumes "x < y" and "y - x < 2 ^ LENGTH('a::len)"
  shows "unat (of_nat x - of_nat y :: 'a word) = 2 ^ LENGTH('a) - (y - x)"
proof -
  have u: "unat (of_nat y - of_nat x :: 'a word) = y - x"
    using assms by (intro unat_diff_of_nat) simp_all
  then have nz: "of_nat y - of_nat x \<noteq> (0 :: 'a word)"
    using assms(1) by (metis unat_0 zero_less_diff less_irrefl)
  have "of_nat x - of_nat y = - (of_nat y - of_nat x :: 'a word)" by simp
  then show ?thesis using u nz by (simp only: unat_uminus if_False)
qed

lemma older_of_nat:
  assumes "x < y + 2 ^ (LENGTH('a::len) - 1)" and "y < x + 2 ^ (LENGTH('a) - 1)"
  shows "is_older_than (of_nat x :: 'a word) (of_nat y) \<longleftrightarrow> x < y"
proof -
  have len: "(2 :: nat) ^ LENGTH('a) = 2 * 2 ^ (LENGTH('a) - 1)"
    by (simp flip: power_Suc)
  consider "x < y" | "x = y" | "y < x" by linarith
  then show ?thesis
  proof cases
    case 1
    then have "y - x < 2 ^ (LENGTH('a) - 1)" "y - x < 2 ^ LENGTH('a)"
      using assms(2) len by linarith+
    with 1 have "unat (of_nat y - of_nat x :: 'a word) = y - x"
      by (intro unat_diff_of_nat) simp_all
    with 1 \<open>y - x < 2 ^ (LENGTH('a) - 1)\<close> show ?thesis
      by (auto simp: is_older_than_iff)
  next
    case 2
    then show ?thesis by (simp add: is_older_than_iff)
  next
    case 3
    then have "x - y < 2 ^ (LENGTH('a) - 1)" "x - y < 2 ^ LENGTH('a)"
      using assms(1) len by linarith+
    with 3 have "unat (of_nat y - of_nat x :: 'a word) = 2 ^ LENGTH('a) - (x - y)"
      by (intro unat_diff_of_nat_back) simp_all
    with 3 \<open>x - y < 2 ^ (LENGTH('a) - 1)\<close> len show ?thesis
      by (auto simp: is_older_than_iff)
  qed
qed

text \<open>Exactly half the range apart, neither number is older, and each is \<open>>\<close> the other.\<close>

lemma wrapping_gt_both:
  "wrapping_gt a b \<and> wrapping_gt b a \<longleftrightarrow> unat (a - b :: 'a::len word) = 2 ^ (LENGTH('a) - 1)"
proof -
  have len: "(2 :: nat) ^ LENGTH('a) = 2 * 2 ^ (LENGTH('a) - 1)"
    by (simp flip: power_Suc)
  have "b - a = - (a - b)" by simp
  then have ba: "unat (b - a) = (if a - b = 0 then 0 else 2 ^ LENGTH('a) - unat (a - b))"
    by (simp only: unat_uminus)
  show ?thesis
    unfolding wrapping_gt_def wrapping_le_def wrapping_lt_def is_older_than_iff ba
    using len unat_bound [of "a - b"] by auto
qed

lemma wrapping_diff_sint: "wrapping_diff a b = sint (b - a :: 'a::len word)"
proof (cases "is_older_than b a")
  case True
  then have "unat (a - b) < 2 ^ (LENGTH('a) - 1)"
    by (simp add: is_older_than_iff)
  then have "sint (- (a - b)) = - sint (a - b)"
    by (rule sint_uminus_small)
  with True show ?thesis by (simp add: wrapping_diff_def)
next
  case False
  then show ?thesis by (simp add: wrapping_diff_def)
qed

lemma wrapping_diff_of_nat:
  assumes "x < y + 2 ^ (LENGTH('a::len) - 1)" and "y < x + 2 ^ (LENGTH('a) - 1)"
  shows "wrapping_diff (of_nat x :: 'a word) (of_nat y) = int y - int x"
proof -
  have len: "(2 :: nat) ^ LENGTH('a) = 2 * 2 ^ (LENGTH('a) - 1)"
    by (simp flip: power_Suc)
  have fwd: "sint (of_nat n - of_nat m :: 'a word) = int n - int m"
    if "m \<le> n" "n < m + 2 ^ (LENGTH('a) - 1)" for m n
  proof -
    have "n - m < 2 ^ (LENGTH('a) - 1)" "n - m < 2 ^ LENGTH('a)"
      using that len by linarith+
    then have "unat (of_nat n - of_nat m :: 'a word) = n - m"
      using that by (intro unat_diff_of_nat) simp_all
    moreover from this have "sint (of_nat n - of_nat m :: 'a word) = int (unat (of_nat n - of_nat m :: 'a word))"
      using \<open>n - m < 2 ^ (LENGTH('a) - 1)\<close> by (intro sint_eq_uint_small) simp
    ultimately show ?thesis using that by simp
  qed
  show ?thesis
  proof (cases "x \<le> y")
    case True
    with assms fwd [of x y] show ?thesis by (simp add: wrapping_diff_sint)
  next
    case False
    then have "is_older_than (of_nat y :: 'a word) (of_nat x)"
      using assms by (simp add: older_of_nat)
    with False assms fwd [of y x] show ?thesis by (simp add: wrapping_diff_def)
  qed
qed

subsection \<open>The order interface\<close>

text \<open>
  What users of sequence numbers and timestamps rely on: inside a window of \<open>half\<close>, \<open>older\<close> on the
  wire values is the order of the unwrapped numbers, and the distance of two wire values is theirs.
\<close>

locale serial_order =
  fixes half :: nat
    and wire :: "nat \<Rightarrow> 'w"
    and older :: "'w \<Rightarrow> 'w \<Rightarrow> bool"
    and dist :: "'w \<Rightarrow> 'w \<Rightarrow> nat"
  assumes older_iff: "x < y + half \<Longrightarrow> y < x + half \<Longrightarrow> older (wire x) (wire y) \<longleftrightarrow> x < y"
    and dist_eq: "x \<le> y \<Longrightarrow> y < x + half \<Longrightarrow> dist (wire x) (wire y) = y - x"
begin

text \<open>Keeping the newest number: the wire value kept is that of the true maximum.\<close>

fun newest :: "'w \<Rightarrow> 'w list \<Rightarrow> 'w" where
  "newest cur [] = cur"
| "newest cur (v # vs) = newest (if older v cur then cur else v) vs"

text \<open>The steps added up: the distance travelled by the maximum.\<close>

fun travelled :: "'w \<Rightarrow> 'w list \<Rightarrow> nat" where
  "travelled cur [] = 0"
| "travelled cur (v # vs) =
     (if older v cur then travelled cur vs else dist cur v + travelled v vs)"

fun within_window :: "nat \<Rightarrow> nat list \<Rightarrow> bool" where
  "within_window m [] \<longleftrightarrow> True"
| "within_window m (x # xs) \<longleftrightarrow> x < m + half \<and> m < x + half \<and> within_window (max m x) xs"

lemma newest_max: "within_window m xs \<Longrightarrow> newest (wire m) (map wire xs) = wire (fold max xs m)"
  by (induction xs arbitrary: m) (auto simp: older_iff max_def)

lemma travelled_max:
  "within_window m xs \<Longrightarrow> m + travelled (wire m) (map wire xs) = fold max xs m"
proof (induction xs arbitrary: m)
  case Nil
  then show ?case by simp
next
  case (Cons x xs)
  show ?case
  proof (cases "x < m")
    case True
    with Cons show ?thesis by (simp add: older_iff max_def)
  next
    case False
    with Cons.prems have "x + travelled (wire x) (map wire xs) = fold max xs x"
      by (intro Cons.IH) (simp add: max_def)
    with False Cons.prems show ?thesis
      by (simp add: older_iff dist_eq max_absorb2)
  qed
qed

end

lemma serial_order_word:
  "serial_order (2 ^ (LENGTH('a::len) - 1)) (of_nat :: nat \<Rightarrow> 'a word) is_older_than
     (\<lambda>a b. unat (b - a))"
proof
  fix x y :: nat
  assume "x < y + 2 ^ (LENGTH('a) - 1)" "y < x + 2 ^ (LENGTH('a) - 1)"
  then show "is_older_than (of_nat x :: 'a word) (of_nat y) \<longleftrightarrow> x < y" by (rule older_of_nat)
next
  fix x y :: nat
  assume le: "x \<le> y" and lt: "y < x + 2 ^ (LENGTH('a) - 1)"
  have "(2 :: nat) ^ (LENGTH('a) - 1) \<le> 2 ^ LENGTH('a)" by (simp add: power_increasing)
  with le lt have "y - x < 2 ^ LENGTH('a)" by linarith
  with le show "unat (of_nat y - of_nat x :: 'a word) = y - x" by (rule unat_diff_of_nat)
qed

interpretation seq16: serial_order "2 ^ 15" "of_nat :: nat \<Rightarrow> u16" is_older_than "\<lambda>a b. unat (b - a)"
  using serial_order_word [where 'a = 16] by simp

interpretation ts32: serial_order "2 ^ 31" "of_nat :: nat \<Rightarrow> u32" is_older_than "\<lambda>a b. unat (b - a)"
  using serial_order_word [where 'a = 32] by simp

text \<open>A run of \<open>update\<close> calls: the steps reported, added up, and the number kept.\<close>

fun wrapping_track :: "'a::len word \<Rightarrow> nat \<Rightarrow> 'a word list \<Rightarrow> nat \<times> 'a word" where
  "wrapping_track cur acc [] = (acc, cur)"
| "wrapping_track cur acc (v # vs) =
     (case wrapping_update cur v of
        (None, cur') \<Rightarrow> wrapping_track cur' acc vs
      | (Some d, cur') \<Rightarrow> wrapping_track cur' (acc + unat d) vs)"

lemma wrapping_track_seq16:
  "wrapping_track cur acc vs = (acc + seq16.travelled cur vs, seq16.newest cur (vs :: u16 list))"
  by (induction vs arbitrary: cur acc) (simp_all add: wrapping_update_def)

lemma wrapping_track_ts32:
  "wrapping_track cur acc vs = (acc + ts32.travelled cur vs, ts32.newest cur (vs :: u32 list))"
  by (induction vs arbitrary: cur acc) (simp_all add: wrapping_update_def)

section \<open>SafeInt\<close>

text \<open>\<open>T\<close> is given by its limits, \<open>lo\<close> and \<open>hi\<close>; C++ division truncates (\<open>sdiv\<close>).\<close>

datatype safe_int_error = Overflow | Underflow | Div_By_Zero

definition safe_add :: "int \<Rightarrow> int \<Rightarrow> int \<Rightarrow> int \<Rightarrow> safe_int_error + int" where
  "safe_add lo hi a b =
     (if b > 0 \<and> a > hi - b then Inl Overflow
      else if b < 0 \<and> a < lo - b then Inl Underflow
      else Inr (a + b))"

definition safe_sub :: "int \<Rightarrow> int \<Rightarrow> int \<Rightarrow> int \<Rightarrow> safe_int_error + int" where
  "safe_sub lo hi a b =
     (if b < 0 \<and> a > hi + b then Inl Overflow
      else if b > 0 \<and> a < lo + b then Inl Underflow
      else Inr (a - b))"

definition safe_mul :: "int \<Rightarrow> int \<Rightarrow> int \<Rightarrow> int \<Rightarrow> safe_int_error + int" where
  "safe_mul lo hi a b =
     (if a = 0 \<or> b = 0 then Inr 0
      else if a > 0 then
        (if b > 0 then (if a > hi sdiv b then Inl Overflow else Inr (a * b))
         else (if b < lo sdiv a then Inl Underflow else Inr (a * b)))
      else
        (if b > 0 then (if a < lo sdiv b then Inl Underflow else Inr (a * b))
         else (if a < hi sdiv b then Inl Overflow else Inr (a * b))))"

definition safe_div :: "int \<Rightarrow> int \<Rightarrow> int \<Rightarrow> int \<Rightarrow> safe_int_error + int" where
  "safe_div lo hi a b =
     (if b = 0 then Inl Div_By_Zero
      else if lo < 0 \<and> a = lo \<and> b = - 1 then Inl Overflow
      else Inr (a sdiv b))"

text \<open>The operators on a \<open>SafeInt\<close> keep an error.\<close>

definition safe_step ::
  "(int \<Rightarrow> int \<Rightarrow> safe_int_error + int) \<Rightarrow> safe_int_error + int \<Rightarrow> int \<Rightarrow> safe_int_error + int" where
  "safe_step f v b = (case v of Inl e \<Rightarrow> Inl e | Inr a \<Rightarrow> f a b)"

text \<open>The exact contract: the value when it fits, else the side it leaves the range on.\<close>

definition checked :: "int \<Rightarrow> int \<Rightarrow> int \<Rightarrow> safe_int_error + int" where
  "checked lo hi r = (if r > hi then Inl Overflow else if r < lo then Inl Underflow else Inr r)"

lemma safe_add_exact:
  "lo \<le> a \<Longrightarrow> a \<le> hi \<Longrightarrow> lo \<le> 0 \<Longrightarrow> 0 \<le> hi \<Longrightarrow> safe_add lo hi a b = checked lo hi (a + b)"
  by (auto simp: safe_add_def checked_def)

lemma safe_sub_exact:
  "lo \<le> a \<Longrightarrow> a \<le> hi \<Longrightarrow> lo \<le> 0 \<Longrightarrow> 0 \<le> hi \<Longrightarrow> safe_sub lo hi a b = checked lo hi (a - b)"
  by (auto simp: safe_sub_def checked_def)

lemma sdiv_pos: "0 \<le> h \<Longrightarrow> 0 < b \<Longrightarrow> h sdiv b = h div b"
  for h b :: int
  by (cases "h = 0") (simp_all add: signed_divide_int_def)

lemma sdiv_neg_left: "h \<le> 0 \<Longrightarrow> 0 < b \<Longrightarrow> h sdiv b = - ((- h) div b)"
  for h b :: int
  by (cases "h = 0") (simp_all add: signed_divide_int_def)

lemma sdiv_neg_right: "0 \<le> h \<Longrightarrow> b < 0 \<Longrightarrow> h sdiv b = - (h div (- b))"
  for h b :: int
  by (cases "h = 0") (simp_all add: signed_divide_int_def)

lemma neg_less_minus: "(a :: int) < - c \<longleftrightarrow> c < - a"
  by auto

lemma safe_mul_exact:
  assumes "lo \<le> 0" and "0 \<le> hi"
  shows "safe_mul lo hi a b = checked lo hi (a * b)"
proof -
  consider "a = 0 \<or> b = 0" | "a > 0" "b > 0" | "a > 0" "b < 0" | "a < 0" "b > 0" | "a < 0" "b < 0"
    by linarith
  then show ?thesis
  proof cases
    case 1
    with assms show ?thesis by (auto simp: safe_mul_def checked_def)
  next
    case 2
    then have "lo \<le> a * b" using assms(1) by (metis less_imp_le mult_pos_pos order_trans)
    with 2 assms show ?thesis by (simp add: safe_mul_def checked_def sdiv_pos div_less_iff)
  next
    case 3
    then have "a * b \<le> hi" using assms(2) by (metis less_imp_le mult_pos_neg order_trans)
    moreover have "b < lo sdiv a \<longleftrightarrow> a * b < lo"
    proof -
      have "b < lo sdiv a \<longleftrightarrow> (- lo) div a < - b"
        using 3 assms(1) by (simp only: sdiv_neg_left neg_less_minus)
      also have "\<dots> \<longleftrightarrow> - lo < - b * a" using 3 by (simp only: div_less_iff)
      finally show ?thesis by (simp add: mult.commute)
    qed
    ultimately show ?thesis using 3 by (simp add: safe_mul_def checked_def)
  next
    case 4
    then have "a * b \<le> hi" using assms(2) by (metis less_imp_le mult_neg_pos order_trans)
    moreover have "a < lo sdiv b \<longleftrightarrow> a * b < lo"
    proof -
      have "a < lo sdiv b \<longleftrightarrow> (- lo) div b < - a"
        using 4 assms(1) by (simp only: sdiv_neg_left neg_less_minus)
      also have "\<dots> \<longleftrightarrow> - lo < - a * b" using 4 by (simp only: div_less_iff)
      finally show ?thesis by simp
    qed
    ultimately show ?thesis using 4 by (simp add: safe_mul_def checked_def)
  next
    case 5
    then have "lo \<le> a * b" using assms(1) by (metis less_imp_le mult_neg_neg order_trans)
    moreover have "a < hi sdiv b \<longleftrightarrow> hi < a * b"
    proof -
      have "a < hi sdiv b \<longleftrightarrow> hi div (- b) < - a"
        using 5 assms(2) by (simp only: sdiv_neg_right neg_less_minus)
      also have "\<dots> \<longleftrightarrow> hi < - a * - b" using 5 by (simp only: div_less_iff neg_0_less_iff_less)
      finally show ?thesis by simp
    qed
    ultimately show ?thesis using 5 by (simp add: safe_mul_def checked_def)
  qed
qed

text \<open>Division of two's complement numbers leaves the range only for the least one by -1.\<close>

lemma safe_div_range:
  assumes "lo = - hi - 1" and "0 \<le> hi" and "lo \<le> a" and "a \<le> hi" and "b \<noteq> 0"
  shows "safe_div lo hi a b = checked lo hi (a sdiv b)"
proof -
  have mag: "\<bar>a sdiv b\<bar> = \<bar>a\<bar> div \<bar>b\<bar>"
  proof -
    have "0 \<le> \<bar>a\<bar> div \<bar>b\<bar>" using assms(5) by (simp add: pos_imp_zdiv_nonneg_iff)
    then show ?thesis using assms(5) by (cases "a = 0") (auto simp: signed_divide_int_def sgn_if)
  qed
  show ?thesis
  proof (cases "\<bar>b\<bar> = 1")
    case True
    then have "b = 1 \<or> b = - 1" by linarith
    with assms show ?thesis by (auto simp: safe_div_def checked_def)
  next
    case False
    with assms(5) have "2 \<le> \<bar>b\<bar>" by linarith
    then have "\<bar>a\<bar> div \<bar>b\<bar> \<le> \<bar>a\<bar> div 2" by (intro zdiv_mono2) simp_all
    moreover have "\<bar>a\<bar> \<le> hi + 1" using assms by linarith
    ultimately have "\<bar>a sdiv b\<bar> \<le> (hi + 1) div 2"
      using mag zdiv_mono1 [of "\<bar>a\<bar>" "hi + 1" 2] by linarith
    then have "\<bar>a sdiv b\<bar> \<le> hi \<or> hi = 0"
      using assms(2) by linarith
    moreover have "hi = 0 \<Longrightarrow> \<bar>a sdiv b\<bar> = 0"
      using \<open>\<bar>a sdiv b\<bar> \<le> (hi + 1) div 2\<close> by simp
    ultimately have "\<bar>a sdiv b\<bar> \<le> hi" using assms(2) by auto
    with False assms show ?thesis by (auto simp: safe_div_def checked_def)
  qed
qed

section \<open>uint48_t, int24_t and Range\<close>

definition uint48_of_u64 :: "u64 \<Rightarrow> u48" where
  "uint48_of_u64 value = mem_to_word (take 6 (word_to_mem value))"

definition uint48_to_uint64 :: "u48 \<Rightarrow> u64" where
  "uint48_to_uint64 v = mem_to_word (word_to_mem v @ [0, 0])"

definition int24_of_int32 :: "u32 \<Rightarrow> 24 word" where
  "int24_of_int32 value =
     (let v = max (- 0x800000) (min 0x7fffff (sint value))
      in mem_to_word (take 3 (word_to_mem (word_of_int v :: u32))))"

definition int24_to_int32 :: "24 word \<Rightarrow> u32" where
  "int24_to_int32 v = signed_drop_bit 8 (push_bit 8 (mem_to_word (word_to_mem v @ [0])))"

definition range_contains :: "int \<Rightarrow> int \<Rightarrow> int \<Rightarrow> bool" where
  "range_contains lo hi v \<longleftrightarrow> lo \<le> v \<and> v \<le> hi"

lemma le_value_append: "le_value (xs @ ys) = le_value xs + 256 ^ length xs * le_value ys"
  by (induction xs) (simp_all add: algebra_simps)

lemma le_bytes_take: "k \<le> n \<Longrightarrow> take k (le_bytes n v) = le_bytes k v"
proof (induction n arbitrary: k v)
  case 0
  then show ?case by simp
next
  case (Suc n)
  then show ?case by (cases k) simp_all
qed

lemma unat_uint48_of_u64: "unat (uint48_of_u64 v) = unat v mod 2 ^ 48"
  by (simp add: uint48_of_u64_def word_to_mem_def le_bytes_take mem_to_word_def le_value_le_bytes
      unat_of_nat take_bit_eq_mod)

lemma unat_uint48_to_uint64: "unat (uint48_to_uint64 v) = unat v"
proof -
  have "unat v < 2 ^ 48" using unat_bound [of v] by simp
  then show ?thesis
    by (simp add: uint48_to_uint64_def word_to_mem_def mem_to_word_def le_value_append
        le_value_le_bytes unsigned_ucast_eq take_bit_nat_eq_self)
qed

lemma sign_extend_24:
  assumes "- (2 ^ 23) \<le> k" and "k < 2 ^ 23"
  shows "sint (signed_drop_bit 8 (push_bit 8 (word_of_int (k mod 2 ^ 24) :: u32)) :: u32) = k"
proof -
  have "k mod 2 ^ 24 * 256 mod 2 ^ 32 = 256 * k mod 2 ^ 32"
    using mod_mult_mult1 [of 256 k "2 ^ 24"] by (simp add: mult.commute)
  then have wrap: "(word_of_int (k mod 2 ^ 24 * 256) :: u32) = word_of_int (256 * k)"
    by (simp only: word_of_int_eq_iff take_bit_eq_mod) simp
  have "push_bit 8 (word_of_int (k mod 2 ^ 24) :: u32) = word_of_int (k mod 2 ^ 24) * of_int 256"
    by (simp add: push_bit_eq_mult)
  also have "\<dots> = word_of_int (256 * k)"
    by (simp only: of_int_mult [symmetric] wrap)
  finally have "push_bit 8 (word_of_int (k mod 2 ^ 24) :: u32) = word_of_int (256 * k)" .
  moreover have "sint (word_of_int (256 * k) :: u32) = 256 * k"
  proof -
    have "- (2 ^ 31) \<le> 256 * k" "256 * k < 2 ^ 31" using assms by simp_all
    then have "signed_take_bit 31 (256 * k) = 256 * k" by (rule signed_take_bit_int_eq_self)
    then show ?thesis using sint_sbintrunc' [where 'a = 32, of "256 * k"] by simp
  qed
  ultimately show ?thesis
    by (simp only: sint_signed_drop_bit_eq drop_bit_eq_div) simp
qed

lemma unat_uint_mod: "int (unat (w :: 'a::len word) mod m) = uint w mod int m"
  by (simp add: zmod_int)

text \<open>A 24-bit sample keeps every value of its range and clamps the others.\<close>

lemma int24_clamp:
  "sint (int24_to_int32 (int24_of_int32 v)) = max (- 0x800000) (min 0x7fffff (sint v))"
proof -
  define c where "c = max (- 0x800000) (min 0x7fffff (sint v))"
  define w :: u32 where "w = word_of_int c"
  have u24: "unat (int24_of_int32 v) = unat w mod 2 ^ 24"
    unfolding int24_of_int32_def Let_def c_def [symmetric] w_def [symmetric]
    by (simp add: word_to_mem_def le_bytes_take mem_to_word_def le_value_le_bytes
        unat_of_nat take_bit_eq_mod)
  have "mem_to_word (word_to_mem (int24_of_int32 v) @ [0]) = (of_nat (unat w mod 2 ^ 24) :: u32)"
    using u24 by (simp add: mem_to_word_def word_to_mem_def le_value_append le_value_le_bytes)
  also have "\<dots> = word_of_int (int (unat w mod 2 ^ 24))"
    by simp
  also have "int (unat w mod 2 ^ 24) = c mod 2 ^ 24"
    by (simp add: unat_uint_mod w_def uint_word_of_int mod_mod_cancel)
  finally have mem: "mem_to_word (word_to_mem (int24_of_int32 v) @ [0]) = (word_of_int (c mod 2 ^ 24) :: u32)" .
  have "sint (int24_to_int32 (int24_of_int32 v)) = c"
    unfolding int24_to_int32_def mem by (rule sign_extend_24) (simp_all add: c_def)
  then show ?thesis by (simp add: c_def)
qed

end
