(* ===== verification/Fifo.thy ===== *)
theory Fifo
  imports Wrapping
begin

text \<open>
  core/containers/detail/fifo.hpp, src/core/detail/fifo.cpp (\<open>Fifo::Position\<close>, \<open>Fifo::Single\<close>) and
  core/containers/fifo_buffer.hpp (\<open>FifoBuffer<T, Fifo::Single>\<close>). Timestamps, positions and
  capacities are \<open>size_t\<close> words. The contents of a buffer is the list between the two timestamps;
  the operations refine a bounded queue, stated as the locale \<open>bounded_queue\<close>.
\<close>

section \<open>Fifo::Position\<close>

record position =
  index1 :: u64
  size1 :: u64
  size2 :: u64

text \<open>\<open>timestamp % capacity\<close> is undefined for capacity 0; the assertion on the element count only logs.\<close>

definition position_update :: "u64 \<Rightarrow> u64 \<Rightarrow> u64 \<Rightarrow> position option" where
  "position_update timestamp cap n =
     (if cap = 0 then None
      else let i = timestamp mod cap in
        if i + n > cap
        then Some \<lparr>index1 = i, size1 = cap - i, size2 = n - (cap - i)\<rparr>
        else Some \<lparr>index1 = i, size1 = n, size2 = 0\<rparr>)"

section \<open>Fifo::Single\<close>

record fifo =
  read_ts :: u64
  write_ts :: u64
  capacity :: u64

definition fifo_init :: fifo where
  "fifo_init = \<lparr>read_ts = 0, write_ts = 0, capacity = 0\<rparr>"

text \<open>A lock is invalid (\<open>None\<close>) or carries the position; \<open>commit\<close> is the closure it runs.\<close>

type_synonym lock = "position option"

definition prepare_for_write :: "fifo \<Rightarrow> u64 \<Rightarrow> lock option" where
  "prepare_for_write f n =
     (if write_ts f - read_ts f + n > capacity f then Some None
      else map_option Some (position_update (write_ts f) (capacity f) n))"

definition commit_write :: "fifo \<Rightarrow> u64 \<Rightarrow> fifo" where
  "commit_write f n = f\<lparr>write_ts := write_ts f + n\<rparr>"

definition prepare_for_read :: "fifo \<Rightarrow> u64 \<Rightarrow> lock option" where
  "prepare_for_read f n =
     (if write_ts f - read_ts f < n then Some None
      else map_option Some (position_update (read_ts f) (capacity f) n))"

definition commit_read :: "fifo \<Rightarrow> u64 \<Rightarrow> fifo" where
  "commit_read f n = f\<lparr>read_ts := read_ts f + n\<rparr>"

definition fifo_size :: "fifo \<Rightarrow> u64" where
  "fifo_size f = write_ts f - read_ts f"

definition fifo_reset :: "fifo \<Rightarrow> fifo" where
  "fifo_reset f = f\<lparr>read_ts := 0, write_ts := 0\<rparr>"

definition fifo_resize :: "fifo \<Rightarrow> u64 \<Rightarrow> fifo" where
  "fifo_resize f cap = (fifo_reset f)\<lparr>capacity := cap\<rparr>"

section \<open>FifoBuffer\<close>

record 'a fifo_buffer =
  buffer :: "'a list"
  fifo_of :: fifo

definition fifo_buffer_init :: "'a fifo_buffer" where
  "fifo_buffer_init = \<lparr>buffer = [], fifo_of = fifo_init\<rparr>"

definition store_at :: "'a list \<Rightarrow> nat \<Rightarrow> 'a \<Rightarrow> 'a list option" where
  "store_at b i v = (if i < length b then Some (b[i := v]) else None)"

definition push :: "'a fifo_buffer \<Rightarrow> 'a \<Rightarrow> (bool \<times> 'a fifo_buffer) option" where
  "push q v = do {
     lk \<leftarrow> prepare_for_write (fifo_of q) 1;
     case lk of
       None \<Rightarrow> Some (False, q)
     | Some p \<Rightarrow> do {
         b \<leftarrow> store_at (buffer q) (if size1 p > 0 then unat (index1 p) else 0) v;
         Some (True, q\<lparr>buffer := b, fifo_of := commit_write (fifo_of q) 1\<rparr>)
       }
   }"

definition pop :: "'a fifo_buffer \<Rightarrow> ('a option \<times> 'a fifo_buffer) option" where
  "pop q = do {
     lk \<leftarrow> prepare_for_read (fifo_of q) 1;
     case lk of
       None \<Rightarrow> Some (None, q)
     | Some p \<Rightarrow> do {
         v \<leftarrow> read_at (buffer q) (if size1 p > 0 then unat (index1 p) else 0);
         Some (Some v, q\<lparr>fifo_of := commit_read (fifo_of q) 1\<rparr>)
       }
   }"

definition pop_all :: "'a fifo_buffer \<Rightarrow> 'a fifo_buffer option" where
  "pop_all q = do {
     lk \<leftarrow> prepare_for_read (fifo_of q) (fifo_size (fifo_of q));
     case lk of
       None \<Rightarrow> Some q
     | Some p \<Rightarrow> Some (q\<lparr>fifo_of := commit_read (fifo_of q) (fifo_size (fifo_of q))\<rparr>)
   }"

text \<open>\<open>write\<close> copies \<open>n\<close> elements of \<open>src\<close> in one or two blocks; \<open>read\<close> returns what it copies out.\<close>

definition write_buf :: "'a fifo_buffer \<Rightarrow> 'a list \<Rightarrow> u64 \<Rightarrow> (bool \<times> 'a fifo_buffer) option" where
  "write_buf q src n = do {
     lk \<leftarrow> prepare_for_write (fifo_of q) n;
     case lk of
       None \<Rightarrow> Some (False, q)
     | Some p \<Rightarrow> do {
         part1 \<leftarrow> read_block src 0 (unat (size1 p));
         b1 \<leftarrow> write_block (buffer q) (unat (index1 p)) part1;
         b2 \<leftarrow> (if size2 p > 0
                 then do { part2 \<leftarrow> read_block src (unat (size1 p)) (unat (size2 p));
                           write_block b1 0 part2 }
                 else Some b1);
         Some (True, q\<lparr>buffer := b2, fifo_of := commit_write (fifo_of q) n\<rparr>)
       }
   }"

definition read_buf :: "'a fifo_buffer \<Rightarrow> u64 \<Rightarrow> ('a list option \<times> 'a fifo_buffer) option" where
  "read_buf q n = do {
     lk \<leftarrow> prepare_for_read (fifo_of q) n;
     case lk of
       None \<Rightarrow> Some (None, q)
     | Some p \<Rightarrow> do {
         part1 \<leftarrow> read_block (buffer q) (unat (index1 p)) (unat (size1 p));
         part2 \<leftarrow> (if size2 p > 0 then read_block (buffer q) 0 (unat (size2 p)) else Some []);
         Some (Some (part1 @ part2), q\<lparr>fifo_of := commit_read (fifo_of q) n\<rparr>)
       }
   }"

text \<open>\<open>std::vector::resize\<close> truncates or appends value-initialised elements (\<open>dflt\<close>).\<close>

definition resize_buf :: "'a \<Rightarrow> 'a fifo_buffer \<Rightarrow> u64 \<Rightarrow> 'a fifo_buffer" where
  "resize_buf dflt q n =
     q\<lparr>buffer := take (unat n) (buffer q) @ replicate (unat n - length (buffer q)) dflt,
       fifo_of := fifo_resize (fifo_of q) n\<rparr>"

definition reset_buf :: "'a fifo_buffer \<Rightarrow> 'a fifo_buffer" where
  "reset_buf q = q\<lparr>buffer := [], fifo_of := fifo_reset (fifo_of q)\<rparr>"

section \<open>Invariant and contents\<close>

definition fifo_ok :: "fifo \<Rightarrow> bool" where
  "fifo_ok f \<longleftrightarrow> 0 < unat (capacity f) \<and> unat (capacity f) < 2 ^ 63 \<and>
     unat (read_ts f) \<le> unat (write_ts f) \<and>
     unat (write_ts f) - unat (read_ts f) \<le> unat (capacity f)"

definition buf_ok :: "'a fifo_buffer \<Rightarrow> bool" where
  "buf_ok q \<longleftrightarrow> fifo_ok (fifo_of q) \<and> length (buffer q) = unat (capacity (fifo_of q))"

text \<open>The cell of a timestamp, and the elements between two timestamps.\<close>

definition ring_slice :: "'a list \<Rightarrow> nat \<Rightarrow> nat \<Rightarrow> 'a list" where
  "ring_slice b t n = map (\<lambda>k. b ! ((t + k) mod length b)) [0..<n]"

definition contents :: "'a fifo_buffer \<Rightarrow> 'a list" where
  "contents q = ring_slice (buffer q) (unat (read_ts (fifo_of q)))
     (unat (write_ts (fifo_of q)) - unat (read_ts (fifo_of q)))"

text \<open>How many elements can still be written before the 64-bit producer timestamp wraps.\<close>

definition ticks_left :: "'a fifo_buffer \<Rightarrow> nat" where
  "ticks_left q = 2 ^ 64 - 1 - unat (write_ts (fifo_of q))"

lemma length_ring_slice [simp]: "length (ring_slice b t n) = n"
  by (simp add: ring_slice_def)

lemma nth_ring_slice [simp]: "k < n \<Longrightarrow> ring_slice b t n ! k = b ! ((t + k) mod length b)"
  by (simp add: ring_slice_def)

lemma ring_slice_Suc: "ring_slice b t (Suc n) = b ! (t mod length b) # ring_slice b (Suc t) n"
  by (rule nth_equalityI) (auto simp: nth_Cons split: nat.splits)

lemma ring_slice_append: "ring_slice b t (m + n) = ring_slice b t m @ ring_slice b (t + m) n"
  by (rule nth_equalityI) (auto simp: nth_append add.assoc)

lemma ring_slice_cong:
  "length b = length b' \<Longrightarrow>
   (\<And>k. k < n \<Longrightarrow> b ! ((t + k) mod length b) = b' ! ((t + k) mod length b)) \<Longrightarrow>
   ring_slice b t n = ring_slice b' t n"
  by (rule nth_equalityI) auto

section \<open>Positions\<close>

lemma position_update_eq:
  assumes "0 < unat cap" and "unat cap < 2 ^ 63" and "unat n \<le> unat cap"
  obtains p where "position_update ts cap n = Some p"
    and "unat (index1 p) = unat ts mod unat cap"
    and "unat (size1 p) = min (unat n) (unat cap - unat ts mod unat cap)"
    and "unat (size2 p) = unat n - unat (size1 p)"
proof -
  let ?i = "ts mod cap"
  have i: "unat ?i = unat ts mod unat cap" by (rule unat_mod_distrib)
  have lt: "unat ?i < unat cap" using assms(1) by (simp add: i)
  have nz: "cap \<noteq> 0" using assms(1) by auto
  have sum: "unat (?i + n) = unat ?i + unat n"
    by (rule unat_add_no_wrap) (use lt assms in simp)
  have room: "unat (cap - ?i) = unat cap - unat ?i"
    by (rule unat_minus_le) (use lt in \<open>simp add: word_le_nat_alt\<close>)
  show thesis
  proof (cases "?i + n > cap")
    case True
    then have gt: "unat cap < unat ?i + unat n" by (simp add: word_less_nat_alt sum)
    then have "unat (n - (cap - ?i)) = unat n - (unat cap - unat ?i)"
      using lt assms room unat_minus_le [of "cap - ?i" n] by (simp add: word_le_nat_alt)
    moreover have "\<not> unat n \<le> unat cap - unat ts mod unat cap"
      using gt lt i by linarith
    ultimately show thesis using True nz gt room i
      by (intro that [of "\<lparr>index1 = ?i, size1 = cap - ?i, size2 = n - (cap - ?i)\<rparr>"])
         (simp_all add: position_update_def Let_def min_def)
  next
    case False
    then have "unat n \<le> unat cap - unat ts mod unat cap"
      using i by (simp add: word_less_nat_alt sum)
    with False nz i lt show thesis
      by (intro that [of "\<lparr>index1 = ?i, size1 = n, size2 = 0\<rparr>"])
         (simp_all add: position_update_def Let_def min_def)
  qed
qed

lemma fifo_size_ok: "fifo_ok f \<Longrightarrow> unat (write_ts f - read_ts f) = unat (write_ts f) - unat (read_ts f)"
  by (rule unat_minus_le) (simp add: fifo_ok_def word_le_nat_alt)

lemma write_refused_iff:
  assumes "fifo_ok f" and "unat n < 2 ^ 63"
  shows "write_ts f - read_ts f + n > capacity f \<longleftrightarrow>
    unat (capacity f) < unat (write_ts f) - unat (read_ts f) + unat n"
proof -
  have "unat (write_ts f - read_ts f + n) = unat (write_ts f) - unat (read_ts f) + unat n"
    using assms by (subst unat_add_no_wrap) (simp_all add: fifo_size_ok, auto simp: fifo_ok_def)
  then show ?thesis by (simp add: word_less_nat_alt)
qed

lemma read_refused_iff:
  "fifo_ok f \<Longrightarrow> write_ts f - read_ts f < n \<longleftrightarrow> unat (write_ts f) - unat (read_ts f) < unat n"
  by (simp add: word_less_nat_alt fifo_size_ok)

lemma store_at_length [simp]: "i < length b \<Longrightarrow> store_at b i v = Some (b[i := v])"
  by (simp add: store_at_def)

lemma mod_eq_window_le:
  assumes "(t + k) mod c = (t + m) mod c" and "k \<le> m" and "m < (c :: nat)"
  shows "k = m"
proof -
  have "c dvd (t + m) - (t + k)"
    using assms(1,2) mod_eq_dvd_iff_nat [of "t + k" "t + m" c] by simp
  then have "c dvd m - k" by simp
  moreover have "m - k < c" using assms(3) by simp
  ultimately show ?thesis using assms(2) by (auto dest: nat_dvd_not_less [rotated])
qed

lemma mod_eq_window:
  "(t + k) mod c = (t + m) mod c \<Longrightarrow> k < (c :: nat) \<Longrightarrow> m < c \<Longrightarrow> k = m"
  by (metis mod_eq_window_le nat_le_linear)

text \<open>A cell of the window moved by less than the length of the ring lies outside it.\<close>

lemma ring_slice_update:
  assumes "n \<le> m" and "m < length b"
  shows "ring_slice (b[(t + m) mod length b := v]) t n = ring_slice b t n"
proof (rule ring_slice_cong)
  fix k assume "k < n"
  then have "(t + k) mod length b \<noteq> (t + m) mod length b"
    using assms mod_eq_window [of t k "length b" m] by auto
  then show "b[(t + m) mod length b := v] ! ((t + k) mod length (b[(t + m) mod length b := v]))
      = b ! ((t + k) mod length (b[(t + m) mod length b := v]))"
    by simp
qed simp

section \<open>Copies in two blocks\<close>

lemma ring_split:
  assumes "0 < c" and "s = min n (c - t mod c)" and "n \<le> (c :: nat)"
  shows "t mod c + s \<le> c" and "s \<le> n" and "n - s \<le> t mod c"
    and "s < n \<Longrightarrow> (t + s) mod c = 0"
    and "k < s \<Longrightarrow> (t + k) mod c = t mod c + k"
    and "s < n \<Longrightarrow> s \<le> k \<Longrightarrow> k < n \<Longrightarrow> (t + k) mod c = k - s"
proof -
  have i: "t mod c < c" using assms(1) by simp
  show sum: "t mod c + s \<le> c" and "s \<le> n" and "n - s \<le> t mod c"
    using assms i by (auto simp: min_def)
  show wrap: "(t + s) mod c = 0" if "s < n"
  proof -
    have "t mod c + s = c" using that assms(2) i by (auto simp: min_def split: if_splits)
    then show ?thesis by (metis mod_add_left_eq mod_self)
  qed
  show "(t + k) mod c = t mod c + k" if "k < s"
  proof -
    have "t mod c + k < c" using that sum by simp
    then show ?thesis by (metis mod_add_left_eq mod_less)
  qed
  show "(t + k) mod c = k - s" if "s < n" "s \<le> k" "k < n"
  proof -
    have "t + k = (t + s) + (k - s)" using that by simp
    then have "(t + k) mod c = (k - s) mod c"
      using wrap [OF that(1)] by (metis add_0 mod_add_left_eq)
    then show ?thesis using that assms(3) by simp
  qed
qed

lemma ring_copy_out:
  assumes "0 < length b" and "n \<le> length b" and "s = min n (length b - t mod length b)"
  shows "read_block b (t mod length b) s = Some (ring_slice b t s)"
    and "read_block b 0 (n - s) = Some (ring_slice b (t + s) (n - s))"
proof -
  note split = ring_split [OF assms(1,3,2)]
  show "read_block b (t mod length b) s = Some (ring_slice b t s)"
  proof -
    have "take s (drop (t mod length b) b) = ring_slice b t s"
    proof (rule nth_equalityI)
      fix k assume "k < length (take s (drop (t mod length b) b))"
      then have "k < s" by simp
      from split(5) [OF this] this
      show "take s (drop (t mod length b) b) ! k = ring_slice b t s ! k"
        using split(1) by simp
    qed (use split(1) in simp)
    then show ?thesis using split(1) by simp
  qed
  have "take (n - s) b = ring_slice b (t + s) (n - s)"
  proof (rule nth_equalityI)
    fix k assume "k < length (take (n - s) b)"
    then have "s < n" "s \<le> s + k" "s + k < n" by auto
    from split(6) [OF this] show "take (n - s) b ! k = ring_slice b (t + s) (n - s) ! k"
      using \<open>s + k < n\<close> by (simp add: add.assoc)
  qed (use assms(2) in simp)
  then show "read_block b 0 (n - s) = Some (ring_slice b (t + s) (n - s))"
    using assms(2) by simp
qed

lemma ring_copy_in:
  assumes "0 < length b" and "n \<le> length b" and "s = min n (length b - t mod length b)"
    and src: "length src = n"
    and b1: "write_block b (t mod length b) (take s src) = Some b1"
    and b2: "write_block b1 0 (drop s src) = Some b2"
  shows "length b2 = length b" and "ring_slice b2 t n = src"
    and "n \<le> m \<Longrightarrow> m < length b \<Longrightarrow> b2 ! ((t + m) mod length b) = b ! ((t + m) mod length b)"
proof -
  note split = ring_split [OF assms(1,3,2)]
  have l1: "length b1 = length b" using b1 by (rule length_write_block)
  have l2: "length b2 = length b" using length_write_block [OF b2] l1 by simp
  show "length b2 = length b" by (rule l2)
  have nth: "b2 ! j = (if j < n - s then src ! (s + j)
      else if t mod length b \<le> j \<and> j < t mod length b + s then src ! (j - t mod length b)
      else b ! j)" if "j < length b" for j
    using nth_write_block [OF b2, of j] nth_write_block [OF b1, of j] that l1 src split(2) by auto
  show "ring_slice b2 t n = src"
  proof (rule nth_equalityI)
    fix k assume "k < length (ring_slice b2 t n)"
    then have k: "k < n" by simp
    show "ring_slice b2 t n ! k = src ! k"
    proof (cases "k < s")
      case True
      then have "t mod length b + k < length b" "\<not> t mod length b + k < n - s"
        using split(1,3) by linarith+
      with True k split(5) show ?thesis by (simp add: l2 nth)
    next
      case False
      then have sn: "s < n" and e: "s + (k - s) = k" and lt: "k - s < n - s" "k - s < length b"
        using k assms(2) by simp_all
      have "(t + k) mod length b = k - s" using False k by (intro split(6) [OF sn]) simp_all
      then have "ring_slice b2 t n ! k = b2 ! (k - s)" using k by (simp add: l2)
      also have "\<dots> = src ! (s + (k - s))" by (simp only: nth [OF lt(2)] if_P [OF lt(1)])
      finally show ?thesis by (simp only: e)
    qed
  qed (simp add: src)
  show "b2 ! ((t + m) mod length b) = b ! ((t + m) mod length b)" if "n \<le> m" "m < length b"
  proof -
    have ne: "(t + m) mod length b \<noteq> (t + k) mod length b" if "k < n" for k
      using mod_eq_window [of t m "length b" k] that \<open>n \<le> m\<close> \<open>m < length b\<close> by auto
    have "\<not> (t + m) mod length b < n - s"
    proof
      assume "(t + m) mod length b < n - s"
      then have lt: "s + (t + m) mod length b < n" by linarith
      then have "s < n" by linarith
      from split(6) [OF this _ lt] ne [OF lt] show False by simp
    qed
    moreover have "\<not> (t mod length b \<le> (t + m) mod length b \<and> (t + m) mod length b < t mod length b + s)"
    proof
      assume a: "t mod length b \<le> (t + m) mod length b \<and> (t + m) mod length b < t mod length b + s"
      then have "(t + m) mod length b - t mod length b < s" by linarith
      from split(5) [OF this] ne [of "(t + m) mod length b - t mod length b"] this a split(2)
      show False by (metis le_add_diff_inverse order_less_le_trans)
    qed
    moreover have "(t + m) mod length b < length b" using assms(1) by simp
    ultimately show ?thesis by (simp only: nth if_False)
  qed
qed

section \<open>Push and pop\<close>

lemma push_full:
  assumes "buf_ok q" and "length (contents q) = unat (capacity (fifo_of q))"
  shows "push q v = Some (False, q)"
proof -
  have ok: "fifo_ok (fifo_of q)" using assms(1) by (simp add: buf_ok_def)
  then have "write_ts (fifo_of q) - read_ts (fifo_of q) + 1 > capacity (fifo_of q)"
    using assms(2) by (subst write_refused_iff) (auto simp: contents_def fifo_ok_def)
  then show ?thesis by (simp add: push_def prepare_for_write_def)
qed

lemma push_room:
  assumes ok: "buf_ok q" and room: "length (contents q) < unat (capacity (fifo_of q))"
    and ticks: "0 < ticks_left q"
  obtains q' where "push q v = Some (True, q')" and "buf_ok q'" and "contents q' = contents q @ [v]"
    and "capacity (fifo_of q') = capacity (fifo_of q)" and "ticks_left q' = ticks_left q - 1"
proof -
  let ?f = "fifo_of q"
  let ?W = "unat (write_ts ?f)" and ?R = "unat (read_ts ?f)" and ?C = "unat (capacity ?f)"
  have f: "fifo_ok ?f" and len: "length (buffer q) = ?C"
    using ok by (simp_all add: buf_ok_def)
  then have C: "0 < ?C" "?C < 2 ^ 63" "?R \<le> ?W" by (simp_all add: fifo_ok_def)
  have lt: "?W - ?R < ?C" using room by (simp add: contents_def)
  obtain p where p: "position_update (write_ts ?f) (capacity ?f) 1 = Some p"
    "unat (index1 p) = ?W mod ?C" "unat (size1 p) = min (unat (1 :: u64)) (?C - ?W mod ?C)"
    using C by (rule_tac position_update_eq [of "capacity ?f" 1 "write_ts ?f"]) auto
  have i: "?W mod ?C < ?C" using C by simp
  have "size1 p \<noteq> 0" using p(3) i by (auto simp flip: unat_0_iff)
  then have s1: "size1 p > 0" by (simp add: word_neq_0_conv)
  have go: "\<not> write_ts ?f - read_ts ?f + 1 > capacity ?f"
    using f lt C by (subst write_refused_iff) auto
  let ?q' = "q\<lparr>buffer := (buffer q)[?W mod ?C := v], fifo_of := commit_write ?f 1\<rparr>"
  have W': "unat (write_ts ?f + 1) = ?W + 1"
    using ticks by (subst unat_add_no_wrap) (auto simp: ticks_left_def)
  have "push q v = Some (True, ?q')"
    using go p s1 i len by (simp add: push_def prepare_for_write_def)
  moreover have "buf_ok ?q'"
    using f lt len C W' by (auto simp: buf_ok_def fifo_ok_def commit_write_def)
  moreover have "contents ?q' = contents q @ [v]"
  proof -
    have "?R + (?W - ?R) = ?W" using C by simp
    then have upd: "ring_slice ((buffer q)[?W mod ?C := v]) ?R (?W - ?R) = ring_slice (buffer q) ?R (?W - ?R)"
      using ring_slice_update [of "?W - ?R" "?W - ?R" "buffer q" ?R v] lt len by simp
    have "?W + 1 - ?R = (?W - ?R) + 1" using C by simp
    then have "contents ?q' = ring_slice ((buffer q)[?W mod ?C := v]) ?R ((?W - ?R) + 1)"
      using W' by (simp add: contents_def commit_write_def)
    also have "\<dots> = ring_slice ((buffer q)[?W mod ?C := v]) ?R (?W - ?R)
        @ ring_slice ((buffer q)[?W mod ?C := v]) ?W 1"
      using C by (simp only: ring_slice_append) simp
    also have "\<dots> = contents q @ [v]"
      using upd i len by (simp add: contents_def ring_slice_def)
    finally show ?thesis .
  qed
  moreover have "ticks_left ?q' = ticks_left q - 1"
    using W' by (simp add: ticks_left_def commit_write_def)
  ultimately show thesis
    by (intro that [of ?q']) (simp_all add: commit_write_def)
qed


lemma commit_read_drop:
  assumes ok: "buf_ok q" and n: "unat n \<le> length (contents q)"
  defines "q' \<equiv> q\<lparr>fifo_of := commit_read (fifo_of q) n\<rparr>"
  shows "buf_ok q'" and "contents q' = drop (unat n) (contents q)"
    and "capacity (fifo_of q') = capacity (fifo_of q)" and "ticks_left q' = ticks_left q"
proof -
  let ?f = "fifo_of q"
  let ?W = "unat (write_ts ?f)" and ?R = "unat (read_ts ?f)"
  have f: "fifo_ok ?f" and RW: "?R \<le> ?W" and n': "unat n \<le> ?W - ?R"
    using ok n by (simp_all add: buf_ok_def fifo_ok_def contents_def)
  have R': "unat (read_ts ?f + n) = ?R + unat n"
    using RW n' unat_bound [of "write_ts ?f"] by (intro unat_add_no_wrap) simp
  show "buf_ok q'"
    using ok RW n' R' by (auto simp: q'_def buf_ok_def fifo_ok_def commit_read_def)
  have "contents q = ring_slice (buffer q) ?R (unat n + (?W - ?R - unat n))"
    using n' unfolding contents_def by (simp only: le_add_diff_inverse)
  then have "contents q = ring_slice (buffer q) ?R (unat n)
      @ ring_slice (buffer q) (?R + unat n) (?W - ?R - unat n)"
    by (simp only: ring_slice_append)
  then have "drop (unat n) (contents q) = ring_slice (buffer q) (?R + unat n) (?W - ?R - unat n)"
    by simp
  then show "contents q' = drop (unat n) (contents q)"
    by (simp add: q'_def contents_def commit_read_def R')
  show "capacity (fifo_of q') = capacity (fifo_of q)" and "ticks_left q' = ticks_left q"
    by (simp_all add: q'_def commit_read_def ticks_left_def)
qed

lemma buf_okD:
  assumes "buf_ok q"
  shows "length (contents q) \<le> length (buffer q)" and "0 < length (buffer q)"
    and "length (buffer q) < 2 ^ 63" and "fifo_ok (fifo_of q)"
    and "unat (capacity (fifo_of q)) = length (buffer q)"
    and "length (contents q) = unat (write_ts (fifo_of q)) - unat (read_ts (fifo_of q))"
  using assms by (simp_all add: buf_ok_def fifo_ok_def contents_def)

lemma pop_empty: "buf_ok q \<Longrightarrow> contents q = [] \<Longrightarrow> pop q = Some (None, q)"
  using buf_okD(4,6) [of q] read_refused_iff [of "fifo_of q" 1]
  by (simp add: pop_def prepare_for_read_def)

lemma read_position:
  assumes "buf_ok q" and "unat n \<le> unat (capacity (fifo_of q))"
  obtains p where "position_update (read_ts (fifo_of q)) (capacity (fifo_of q)) n = Some p"
    and "unat (index1 p) = unat (read_ts (fifo_of q)) mod length (buffer q)"
    and "unat (size1 p) = min (unat n) (length (buffer q) - unat (read_ts (fifo_of q)) mod length (buffer q))"
    and "unat (size2 p) = unat n - unat (size1 p)"
  using assms position_update_eq [of "capacity (fifo_of q)" n "read_ts (fifo_of q)"]
  by (metis buf_ok_def fifo_ok_def)

lemma write_position:
  assumes "buf_ok q" and "unat n \<le> unat (capacity (fifo_of q))"
  obtains p where "position_update (write_ts (fifo_of q)) (capacity (fifo_of q)) n = Some p"
    and "unat (index1 p) = unat (write_ts (fifo_of q)) mod length (buffer q)"
    and "unat (size1 p) = min (unat n) (length (buffer q) - unat (write_ts (fifo_of q)) mod length (buffer q))"
    and "unat (size2 p) = unat n - unat (size1 p)"
  using assms position_update_eq [of "capacity (fifo_of q)" n "write_ts (fifo_of q)"]
  by (metis buf_ok_def fifo_ok_def)

lemma pop_cons:
  assumes ok: "buf_ok q" and c: "contents q = x # xs"
  obtains q' where "pop q = Some (Some x, q')" and "buf_ok q'" and "contents q' = xs"
    and "capacity (fifo_of q') = capacity (fifo_of q)" and "ticks_left q' = ticks_left q"
proof -
  let ?f = "fifo_of q" and ?l = "length (buffer q)"
  note len = buf_okD [OF ok]
  have n: "unat (1 :: u64) \<le> length (contents q)" using c by simp
  obtain p where p: "position_update (read_ts ?f) (capacity ?f) 1 = Some p"
    "unat (index1 p) = unat (read_ts ?f) mod ?l"
    "unat (size1 p) = min (unat (1 :: u64)) (?l - unat (read_ts ?f) mod ?l)"
    using ok len n by (rule_tac read_position [of q 1]) auto
  have i: "unat (read_ts ?f) mod ?l < ?l" using len by simp
  have "size1 p \<noteq> 0" using p(3) i by (auto simp flip: unat_0_iff)
  then have s1: "size1 p > 0" by (simp add: word_neq_0_conv)
  have "contents q ! 0 = buffer q ! (unat (read_ts ?f) mod ?l)"
    using n len(6) by (simp add: contents_def)
  then have x: "buffer q ! (unat (read_ts ?f) mod ?l) = x" using c by simp
  have "\<not> write_ts ?f - read_ts ?f < 1"
    using len(4,6) n by (subst read_refused_iff) simp_all
  then have "pop q = Some (Some x, q\<lparr>fifo_of := commit_read ?f 1\<rparr>)"
    using p s1 i x by (simp add: pop_def prepare_for_read_def)
  with commit_read_drop [OF ok n] c show thesis
    by (intro that [of "q\<lparr>fifo_of := commit_read ?f 1\<rparr>"]) simp_all
qed

lemma pop_all_empties:
  assumes ok: "buf_ok q"
  obtains q' where "pop_all q = Some q'" and "buf_ok q'" and "contents q' = []"
    and "capacity (fifo_of q') = capacity (fifo_of q)"
proof -
  let ?n = "fifo_size (fifo_of q)"
  note len = buf_okD [OF ok]
  have n: "unat ?n = length (contents q)"
    using len(4,6) by (simp add: fifo_size_def fifo_size_ok)
  obtain p where "position_update (read_ts (fifo_of q)) (capacity (fifo_of q)) ?n = Some p"
    using n len by (rule_tac read_position [OF ok, of ?n]) auto
  then have "pop_all q = Some (q\<lparr>fifo_of := commit_read (fifo_of q) ?n\<rparr>)"
    by (simp add: pop_all_def prepare_for_read_def) (simp add: fifo_size_def)
  with commit_read_drop [OF ok, of ?n] n show thesis
    by (intro that [of "q\<lparr>fifo_of := commit_read (fifo_of q) ?n\<rparr>"]) simp_all
qed

section \<open>Block reads and writes\<close>

lemma read_buf_short:
  "buf_ok q \<Longrightarrow> length (contents q) < unat n \<Longrightarrow> read_buf q n = Some (None, q)"
  using buf_okD(6) [of q]
  by (simp add: read_buf_def prepare_for_read_def read_refused_iff buf_okD(4))

lemma read_buf_front:
  assumes ok: "buf_ok q" and n: "unat n \<le> length (contents q)"
  obtains q' where "read_buf q n = Some (Some (take (unat n) (contents q)), q')" and "buf_ok q'"
    and "contents q' = drop (unat n) (contents q)"
    and "capacity (fifo_of q') = capacity (fifo_of q)"
proof -
  let ?f = "fifo_of q" and ?l = "length (buffer q)" and ?t = "unat (read_ts (fifo_of q))"
  note len = buf_okD [OF ok]
  obtain p where p: "position_update (read_ts ?f) (capacity ?f) n = Some p"
    "unat (index1 p) = ?t mod ?l" "unat (size1 p) = min (unat n) (?l - ?t mod ?l)"
    "unat (size2 p) = unat n - unat (size1 p)"
    using len n by (rule_tac read_position [OF ok, of n]) auto
  have nl: "unat n \<le> ?l" using n len by linarith
  note copy = ring_copy_out [OF len(2) nl p(3)]
  have s: "unat (size1 p) \<le> unat n" using p(3) by simp
  have wrapped: "(if size2 p > 0 then read_block (buffer q) 0 (unat (size2 p)) else Some [])
      = Some (ring_slice (buffer q) (?t + unat (size1 p)) (unat n - unat (size1 p)))"
    using copy(2) p(4) by (cases "size2 p = 0") (auto simp: word_neq_0_conv ring_slice_def)
  have "take (unat n) (contents q) = ring_slice (buffer q) ?t (unat n)"
    using n by (simp add: contents_def ring_slice_def take_map)
  also have "\<dots> = ring_slice (buffer q) ?t (unat (size1 p) + (unat n - unat (size1 p)))"
    using s by simp
  finally have parts: "take (unat n) (contents q) = ring_slice (buffer q) ?t (unat (size1 p))
      @ ring_slice (buffer q) (?t + unat (size1 p)) (unat n - unat (size1 p))"
    by (simp only: ring_slice_append)
  have "\<not> write_ts ?f - read_ts ?f < n"
    using n len by (subst read_refused_iff) simp_all
  then have "read_buf q n = Some (Some (take (unat n) (contents q)), q\<lparr>fifo_of := commit_read ?f n\<rparr>)"
    using p(1) p(2) copy(1) wrapped unfolding parts by (simp add: read_buf_def prepare_for_read_def)
  with commit_read_drop [OF ok n] show thesis
    by (intro that [of "q\<lparr>fifo_of := commit_read ?f n\<rparr>"]) simp_all
qed

lemma write_buf_refused:
  assumes ok: "buf_ok q" and n: "unat n < 2 ^ 63"
    and full: "length (buffer q) < length (contents q) + unat n"
  shows "write_buf q src n = Some (False, q)"
  using buf_okD [OF ok] write_refused_iff [of "fifo_of q" n] n full
  by (simp add: write_buf_def prepare_for_write_def)

lemma write_buf_room:
  assumes ok: "buf_ok q" and src: "length src = unat n"
    and room: "length (contents q) + unat n \<le> length (buffer q)" and ticks: "unat n \<le> ticks_left q"
  obtains q' where "write_buf q src n = Some (True, q')" and "buf_ok q'"
    and "contents q' = contents q @ src" and "capacity (fifo_of q') = capacity (fifo_of q)"
proof -
  let ?f = "fifo_of q" and ?l = "length (buffer q)"
  let ?W = "unat (write_ts ?f)" and ?R = "unat (read_ts ?f)" and ?s = "min (unat n) (length (buffer q) - unat (write_ts (fifo_of q)) mod length (buffer q))"
  note len = buf_okD [OF ok]
  have nl: "unat n \<le> ?l" using room by linarith
  obtain p where p: "position_update (write_ts ?f) (capacity ?f) n = Some p"
    "unat (index1 p) = ?W mod ?l" "unat (size1 p) = ?s" "unat (size2 p) = unat n - unat (size1 p)"
    using nl len by (rule_tac write_position [OF ok, of n]) auto
  note split = ring_split [OF len(2) refl nl, of ?W]
  obtain b1 where b1: "write_block (buffer q) (?W mod ?l) (take ?s src) = Some b1"
    using split(1) src by (simp add: write_block_def)
  have l1: "length b1 = ?l" using b1 by (rule length_write_block)
  obtain b2 where b2: "write_block b1 0 (drop ?s src) = Some b2"
  proof (rule that)
    have "length (drop ?s src) \<le> length b1" using nl src l1 by simp
    then show "write_block b1 0 (drop ?s src) = Some (drop ?s src @ drop (length (drop ?s src)) b1)"
      by (simp add: write_block_def)
  qed
  note copy = ring_copy_in [OF len(2) nl refl src b1 b2]
  have second: "(if size2 p > 0
      then do { part2 \<leftarrow> read_block src (unat (size1 p)) (unat (size2 p)); write_block b1 0 part2 }
      else Some b1) = Some b2"
  proof (cases "size2 p = 0")
    case True
    then have "unat n \<le> ?s" using p(3,4) by simp
    then have "drop ?s src = []" using src by simp
    with b2 show ?thesis using True by simp
  next
    case False
    have "read_block src (unat (size1 p)) (unat (size2 p)) = Some (drop ?s src)"
      using p(3,4) split(2) src by simp
    with b2 show ?thesis using False by (simp add: word_neq_0_conv)
  qed
  have go: "\<not> write_ts ?f - read_ts ?f + n > capacity ?f"
    using room len nl by (subst write_refused_iff) simp_all
  let ?q' = "q\<lparr>buffer := b2, fifo_of := commit_write ?f n\<rparr>"
  have W': "unat (write_ts ?f + n) = ?W + unat n"
    using ticks unat_bound [of "write_ts ?f"] by (intro unat_add_no_wrap) (simp add: ticks_left_def)
  have RW: "?R \<le> ?W" using len(4) by (simp add: fifo_ok_def)
  have first: "read_block src 0 (unat (size1 p)) = Some (take ?s src)"
    using p(3) src by simp
  have run: "write_buf q src n = Some (True, ?q')"
    using go p(1,2) first b1 second by (simp add: write_buf_def prepare_for_write_def)
  have inv: "buf_ok ?q'"
    using ok len RW W' room copy(1) by (auto simp: buf_ok_def fifo_ok_def commit_write_def)
  have keep: "ring_slice b2 ?R (?W - ?R) = contents q"
    unfolding contents_def
  proof (rule ring_slice_cong)
    fix k assume k: "k < ?W - ?R"
    \<comment> \<open>the old cells are those of the window after the new ones, one turn of the ring later\<close>
    have ge: "unat n \<le> ?l - (?W - ?R) + k" and lt: "?l - (?W - ?R) + k < ?l"
      using room len(6) k by linarith+
    have "?W + (?l - (?W - ?R) + k) = ?R + k + ?l" using room len(6) RW by linarith
    then have "(?W + (?l - (?W - ?R) + k)) mod ?l = (?R + k) mod ?l" by (simp only: mod_add_self2)
    with copy(3) [OF ge lt] show "b2 ! ((?R + k) mod length b2) = buffer q ! ((?R + k) mod length b2)"
      by (simp add: copy(1))
  qed (rule copy(1))
  have "?W + unat n - ?R = (?W - ?R) + unat n" and "?R + (?W - ?R) = ?W" using RW by simp_all
  then have "contents ?q' = ring_slice b2 ?R (?W - ?R) @ ring_slice b2 ?W (unat n)"
    using W' ring_slice_append [of b2 ?R "?W - ?R" "unat n"]
    by (simp add: contents_def commit_write_def)
  then have "contents ?q' = contents q @ src" by (simp only: keep copy(2))
  with run inv show thesis by (intro that [of ?q']) (simp_all add: commit_write_def)
qed

section \<open>The bounded queue\<close>

text \<open>What a client of a queue relies on. \<open>ticks\<close> bounds the pushes still guaranteed.\<close>

datatype 'a queue_op = Push 'a | Pop

text \<open>A client: a sequence of operations, collecting the values accepted and the values popped.\<close>

fun run_queue ::
  "('q \<Rightarrow> 'a \<Rightarrow> (bool \<times> 'q) option) \<Rightarrow> ('q \<Rightarrow> ('a option \<times> 'q) option) \<Rightarrow>
   'a queue_op list \<Rightarrow> 'q \<Rightarrow> ('a list \<times> 'a list \<times> 'q) option" where
  "run_queue psh pp [] q = Some ([], [], q)"
| "run_queue psh pp (Push v # ops) q = do {
     (ok, q1) \<leftarrow> psh q v;
     (ins, outs, q2) \<leftarrow> run_queue psh pp ops q1;
     Some (if ok then v # ins else ins, outs, q2) }"
| "run_queue psh pp (Pop # ops) q = do {
     (r, q1) \<leftarrow> pp q;
     (ins, outs, q2) \<leftarrow> run_queue psh pp ops q1;
     Some (ins, (case r of None \<Rightarrow> outs | Some v \<Rightarrow> v # outs), q2) }"

locale bounded_queue =
  fixes psh :: "'q \<Rightarrow> 'a \<Rightarrow> (bool \<times> 'q) option"
    and pp :: "'q \<Rightarrow> ('a option \<times> 'q) option"
    and view :: "'q \<Rightarrow> 'a list"
    and room :: "'q \<Rightarrow> nat"
    and inv :: "'q \<Rightarrow> bool"
    and ticks :: "'q \<Rightarrow> nat"
  assumes bound: "inv q \<Longrightarrow> length (view q) \<le> room q"
    and full: "inv q \<Longrightarrow> length (view q) = room q \<Longrightarrow> psh q v = Some (False, q)"
    and accept: "inv q \<Longrightarrow> length (view q) < room q \<Longrightarrow> 0 < ticks q \<Longrightarrow>
      \<exists>q'. psh q v = Some (True, q') \<and> inv q' \<and> view q' = view q @ [v] \<and> room q' = room q
        \<and> ticks q' = ticks q - 1"
    and empty: "inv q \<Longrightarrow> view q = [] \<Longrightarrow> pp q = Some (None, q)"
    and front: "inv q \<Longrightarrow> view q = x # xs \<Longrightarrow>
      \<exists>q'. pp q = Some (Some x, q') \<and> inv q' \<and> view q' = xs \<and> room q' = room q \<and> ticks q' = ticks q"
begin

lemma push_total:
  assumes "inv q" and "0 < ticks q"
  obtains ok q' where "psh q v = Some (ok, q')" and "inv q'" and "room q' = room q"
    and "ticks q - 1 \<le> ticks q'" and "view q' = (if ok then view q @ [v] else view q)"
proof (cases "length (view q) = room q")
  case True
  then show thesis using full [OF assms(1), of v] assms that [of False q] by simp
next
  case False
  then have "length (view q) < room q" using bound [OF assms(1)] by simp
  from accept [OF assms(1) this assms(2), of v] that show thesis by auto
qed

lemma pop_total:
  assumes "inv q"
  obtains r q' where "pp q = Some (r, q')" and "inv q'" and "room q' = room q" and "ticks q' = ticks q"
    and "view q = (case r of None \<Rightarrow> view q' | Some v \<Rightarrow> v # view q')"
proof (cases "view q")
  case Nil
  then show thesis using empty [OF assms] assms that [of None q] by simp
next
  case (Cons x xs)
  from front [OF assms this] that [of "Some x"] Cons show thesis by auto
qed

text \<open>First in, first out, nothing lost and nothing invented, on every sequence of operations.\<close>

lemma run_fifo:
  assumes "inv q" and "length ops \<le> ticks q"
  shows "\<exists>ins outs q'. run_queue psh pp ops q = Some (ins, outs, q') \<and> inv q' \<and> room q' = room q
    \<and> view q @ ins = outs @ view q'"
  using assms
proof (induction ops arbitrary: q)
  case Nil
  then show ?case by simp
next
  case (Cons op ops)
  show ?case
  proof (cases op)
    case (Push v)
    obtain ok q1 where q1: "psh q v = Some (ok, q1)" "inv q1" "room q1 = room q"
      "ticks q - 1 \<le> ticks q1" "view q1 = (if ok then view q @ [v] else view q)"
      using Cons.prems by (rule_tac push_total [of q v]) auto
    moreover from q1 Cons.prems have "length ops \<le> ticks q1" by simp
    ultimately obtain ins outs q2 where "run_queue psh pp ops q1 = Some (ins, outs, q2)"
      "inv q2" "room q2 = room q" "view q1 @ ins = outs @ view q2"
      using Cons.IH [of q1] by auto
    with q1 Push show ?thesis by (cases ok) auto
  next
    case Pop
    obtain r q1 where q1: "pp q = Some (r, q1)" "inv q1" "room q1 = room q" "ticks q1 = ticks q"
      "view q = (case r of None \<Rightarrow> view q1 | Some v \<Rightarrow> v # view q1)"
      using Cons.prems by (rule_tac pop_total [of q]) auto
    with Cons.prems Cons.IH [of q1] Pop show ?thesis by (cases r) auto
  qed
qed

end

interpretation fbq: bounded_queue push pop contents "\<lambda>q. length (buffer q)" buf_ok ticks_left
proof unfold_locales
  fix q :: "'a fifo_buffer" and v :: 'a
  assume ok: "buf_ok q" and lt: "length (contents q) < length (buffer q)" and t: "0 < ticks_left q"
  then have "length (contents q) < unat (capacity (fifo_of q))" by (simp add: buf_okD)
  from push_room [OF ok this t, of v] obtain q' where
    "push q v = Some (True, q')" "buf_ok q'" "contents q' = contents q @ [v]"
    "capacity (fifo_of q') = capacity (fifo_of q)" "ticks_left q' = ticks_left q - 1" .
  then show "\<exists>q'. push q v = Some (True, q') \<and> buf_ok q' \<and> contents q' = contents q @ [v]
      \<and> length (buffer q') = length (buffer q) \<and> ticks_left q' = ticks_left q - 1"
    using ok by (auto simp: buf_ok_def)
next
  fix q :: "'a fifo_buffer" and x xs
  assume ok: "buf_ok q" and c: "contents q = x # xs"
  from pop_cons [OF ok c] show "\<exists>q'. pop q = Some (Some x, q') \<and> buf_ok q' \<and> contents q' = xs
      \<and> length (buffer q') = length (buffer q) \<and> ticks_left q' = ticks_left q"
    using ok by (metis buf_okD(5))
qed (simp_all add: buf_okD(1) buf_okD(5) push_full pop_empty)

section \<open>Resize and reset\<close>

lemma resize_buf_ok:
  assumes "0 < unat n" and "unat n < 2 ^ 63"
  shows "buf_ok (resize_buf dflt q n)" and "contents (resize_buf dflt q n) = []"
    and "ticks_left (resize_buf dflt q n) = 2 ^ 64 - 1"
    and "length (buffer (resize_buf dflt q n)) = unat n"
  using assms
  by (simp_all add: resize_buf_def buf_ok_def fifo_ok_def fifo_resize_def fifo_reset_def
      contents_def ring_slice_def ticks_left_def)

text \<open>\<open>reset\<close> empties the vector but leaves the capacity: the next push stores outside it.\<close>

lemma push_after_reset:
  "0 < capacity (fifo_of q) \<Longrightarrow> push (reset_buf q) v = None"
  by (cases "capacity (fifo_of q) = 0")
     (auto simp: push_def reset_buf_def prepare_for_write_def fifo_reset_def position_update_def
       store_at_def Let_def)

section \<open>Properties\<close>

text \<open>
  C19: on a buffer whose vector has the size of the fifo, any sequence of pushes and
  pops (shorter than the distance to the wrap of the 64-bit timestamp) runs without an access outside
  the vector, keeps that invariant, and returns the elements in the order they were accepted: what was
  in the buffer followed by what was accepted is what was popped followed by what is left.
\<close>

theorem fifo_buffer_fifo:
  assumes "buf_ok q" and "length ops \<le> ticks_left q"
  shows "\<exists>ins outs q'. run_queue push pop ops q = Some (ins, outs, q') \<and> buf_ok q' \<and>
    length (buffer q') = length (buffer q) \<and> contents q @ ins = outs @ contents q'"
  by (rule fbq.run_fifo [OF assms])

theorem fifo_buffer_fifo_witness:
  "\<exists>ins outs q'. run_queue push pop [Push 1, Push 2, Pop, Push 3, Push 4, Pop]
      (resize_buf (0 :: nat) fifo_buffer_init 2) = Some (ins, outs, q') \<and> buf_ok q' \<and>
    length (buffer q') = 2 \<and>
    contents (resize_buf (0 :: nat) fifo_buffer_init 2) @ ins = outs @ contents q'"
  using fifo_buffer_fifo [of "resize_buf (0 :: nat) fifo_buffer_init 2"
      "[Push 1, Push 2, Pop, Push 3, Push 4, Pop]"]
    resize_buf_ok [of 2 "0 :: nat" fifo_buffer_init] by (simp del: run_queue.simps)

text \<open>
  \<open>write\<close> copies the block behind the contents, wrapping at the end of the
  vector in at most two parts, exactly when the free space suffices; otherwise nothing changes.
\<close>

theorem fifo_buffer_write:
  assumes "buf_ok q" and "length src = unat n" and "unat n < 2 ^ 63" and "unat n \<le> ticks_left q"
  shows "\<exists>q'. write_buf q src n = Some (length (contents q) + unat n \<le> length (buffer q), q') \<and> buf_ok q' \<and>
    contents q' = (if length (contents q) + unat n \<le> length (buffer q) then contents q @ src else contents q)"
proof (cases "length (contents q) + unat n \<le> length (buffer q)")
  case True
  from write_buf_room [OF assms(1,2) True assms(4)] obtain q' where
    "write_buf q src n = Some (True, q')" "buf_ok q'" "contents q' = contents q @ src" .
  then show ?thesis using True by simp
next
  case False
  then have "write_buf q src n = Some (False, q)"
    by (intro write_buf_refused assms) simp
  then show ?thesis using False assms(1) by simp
qed

theorem fifo_buffer_write_witness:
  "\<exists>q'. write_buf (resize_buf (0 :: nat) fifo_buffer_init 4) [7, 8, 9] 3 = Some (True, q') \<and> buf_ok q' \<and>
    contents q' = [7, 8, 9]"
  using fifo_buffer_write [of "resize_buf (0 :: nat) fifo_buffer_init 4" "[7, 8, 9]" 3]
    resize_buf_ok [of 4 "0 :: nat" fifo_buffer_init] by simp

text \<open>
  \<open>read\<close> returns the oldest \<open>n\<close> elements and removes them when there are
  that many; otherwise it reads nothing and the buffer is unchanged.
\<close>

theorem fifo_buffer_read:
  assumes "buf_ok q"
  shows "\<exists>q'. read_buf q n =
      Some (if unat n \<le> length (contents q) then Some (take (unat n) (contents q)) else None, q') \<and>
    buf_ok q' \<and> contents q' = (if unat n \<le> length (contents q) then drop (unat n) (contents q) else contents q)"
proof (cases "unat n \<le> length (contents q)")
  case True
  from read_buf_front [OF assms True] obtain q' where
    "read_buf q n = Some (Some (take (unat n) (contents q)), q')" "buf_ok q'"
    "contents q' = drop (unat n) (contents q)" .
  then show ?thesis using True by simp
next
  case False
  then show ?thesis using read_buf_short [OF assms, of n] assms by simp
qed

theorem fifo_buffer_read_witness:
  "\<exists>q'. read_buf \<lparr>buffer = [7, 8, 9 :: nat], fifo_of = \<lparr>read_ts = 2, write_ts = 4, capacity = 3\<rparr>\<rparr> 2
      = Some (Some [9, 7], q') \<and> buf_ok q' \<and> contents q' = []"
proof -
  let ?q = "\<lparr>buffer = [7, 8, 9 :: nat], fifo_of = \<lparr>read_ts = 2, write_ts = 4, capacity = 3\<rparr>\<rparr>"
  have "buf_ok ?q" by (simp add: buf_ok_def fifo_ok_def)
  moreover have "contents ?q = [9, 7]"
    by code_simp
  ultimately show ?thesis using fifo_buffer_read [of ?q 2] by simp
qed

text \<open>
  After \<open>FifoBuffer::reset\<close>, which empties the vector but leaves the capacity of
  the fifo, the first push stores outside the vector.
\<close>

theorem reset_then_push_out_of_bounds:
  assumes "0 < capacity (fifo_of q)"
  shows "push (reset_buf q) v = None"
  by (rule push_after_reset [OF assms])

theorem reset_then_push_out_of_bounds_witness:
  "push (reset_buf (resize_buf 0 fifo_buffer_init 8)) (5 :: nat) = None"
  by (rule reset_then_push_out_of_bounds)
     (simp add: resize_buf_def fifo_resize_def)

end
