(* ===== verification/Spsc.thy ===== *)
theory Spsc
  imports Fifo
begin

text \<open>
  \<open>Fifo::Spsc\<close> under \<open>FifoBuffer::write\<close> and \<open>read\<close> (src/core/detail/fifo.cpp,
  core/containers/fifo_buffer.hpp): one producer and one consumer thread on a shared ring, as a step
  relation with one step per atomic load, per element copied and per commit (\<open>fetch_add\<close>), so that
  every interleaving and every stale snapshot of the other side's timestamp is a run. Two ghost
  lists record what has been committed and what has been consumed.
\<close>

section \<open>Program counters and state\<close>

text \<open>The two own-timestamp loads are not steps of their own: no other thread writes that timestamp.\<close>

datatype 'a producer =
    PIdle
  | PLoad "'a list"                       \<comment> \<open>write(src, n) entered\<close>
  | PCheck "'a list" u64                  \<comment> \<open>read timestamp loaded\<close>
  | PCopy "'a list" position nat          \<comment> \<open>lock held, elements copied so far\<close>

datatype 'a consumer =
    CIdle
  | CLoad u64                             \<comment> \<open>read(dst, n) entered\<close>
  | CCheck u64 u64                        \<comment> \<open>write timestamp loaded\<close>
  | CCopy u64 position "'a list"          \<comment> \<open>lock held, elements copied so far\<close>

record 'a spsc =
  cells :: "'a list"
  ring :: fifo
  producer :: "'a producer"
  consumer :: "'a consumer"
  committed :: "'a list"
  consumed :: "'a list"

definition spsc_init :: "'a \<Rightarrow> u64 \<Rightarrow> 'a spsc" where
  "spsc_init dflt cap = \<lparr>cells = replicate (unat cap) dflt, ring = fifo_resize fifo_init cap,
     producer = PIdle, consumer = CIdle, committed = [], consumed = []\<rparr>"

text \<open>Element \<open>k\<close> of the block goes to the first part or, past it, to the start of the buffer.\<close>

definition cell :: "position \<Rightarrow> nat \<Rightarrow> nat" where
  "cell p k = (if k < unat (size1 p) then unat (index1 p) + k else k - unat (size1 p))"

section \<open>Steps\<close>

text \<open>\<open>size_t\<close> counts of objects in memory stay below \<open>PTRDIFF_MAX\<close>.\<close>

inductive spsc_step :: "'a spsc \<Rightarrow> 'a spsc \<Rightarrow> bool" where
  write_call: "producer s = PIdle \<Longrightarrow> length src < 2 ^ 63 \<Longrightarrow>
    spsc_step s (s\<lparr>producer := PLoad src\<rparr>)"
| write_load: "producer s = PLoad src \<Longrightarrow>
    spsc_step s (s\<lparr>producer := PCheck src (read_ts (ring s))\<rparr>)"
| write_refuse: "producer s = PCheck src r \<Longrightarrow>
    write_ts (ring s) - r + of_nat (length src) > capacity (ring s) \<Longrightarrow>
    spsc_step s (s\<lparr>producer := PIdle\<rparr>)"
| write_lock: "producer s = PCheck src r \<Longrightarrow>
    \<not> write_ts (ring s) - r + of_nat (length src) > capacity (ring s) \<Longrightarrow>
    position_update (write_ts (ring s)) (capacity (ring s)) (of_nat (length src)) = Some p \<Longrightarrow>
    spsc_step s (s\<lparr>producer := PCopy src p 0\<rparr>)"
| write_copy: "producer s = PCopy src p k \<Longrightarrow> k < length src \<Longrightarrow>
    spsc_step s (s\<lparr>cells := (cells s)[cell p k := src ! k], producer := PCopy src p (Suc k)\<rparr>)"
| write_commit: "producer s = PCopy src p (length src) \<Longrightarrow>
    spsc_step s (s\<lparr>ring := commit_write (ring s) (of_nat (length src)), producer := PIdle,
      committed := committed s @ src\<rparr>)"
| read_call: "consumer s = CIdle \<Longrightarrow> spsc_step s (s\<lparr>consumer := CLoad n\<rparr>)"
| read_load: "consumer s = CLoad n \<Longrightarrow>
    spsc_step s (s\<lparr>consumer := CCheck n (write_ts (ring s))\<rparr>)"
| read_refuse: "consumer s = CCheck n w \<Longrightarrow> w - read_ts (ring s) < n \<Longrightarrow>
    spsc_step s (s\<lparr>consumer := CIdle\<rparr>)"
| read_lock: "consumer s = CCheck n w \<Longrightarrow> \<not> w - read_ts (ring s) < n \<Longrightarrow>
    position_update (read_ts (ring s)) (capacity (ring s)) n = Some p \<Longrightarrow>
    spsc_step s (s\<lparr>consumer := CCopy n p []\<rparr>)"
| read_copy: "consumer s = CCopy n p acc \<Longrightarrow> length acc < unat n \<Longrightarrow>
    spsc_step s (s\<lparr>consumer := CCopy n p (acc @ [cells s ! cell p (length acc)])\<rparr>)"
| read_commit: "consumer s = CCopy n p acc \<Longrightarrow> length acc = unat n \<Longrightarrow>
    spsc_step s (s\<lparr>ring := commit_read (ring s) n, consumer := CIdle,
      consumed := consumed s @ acc\<rparr>)"

inductive spsc_reachable :: "'a \<Rightarrow> u64 \<Rightarrow> 'a spsc \<Rightarrow> bool" for dflt cap where
  start: "spsc_reachable dflt cap (spsc_init dflt cap)"
| step: "spsc_reachable dflt cap s \<Longrightarrow> spsc_step s s' \<Longrightarrow> spsc_reachable dflt cap s'"

text \<open>The cell the producer stores to next, and the cell the consumer loads from next.\<close>

definition store_cell :: "'a spsc \<Rightarrow> nat option" where
  "store_cell s = (case producer s of
     PCopy src p k \<Rightarrow> if k < length src then Some (cell p k) else None | _ \<Rightarrow> None)"

definition load_cell :: "'a spsc \<Rightarrow> nat option" where
  "load_cell s = (case consumer s of
     CCopy n p acc \<Rightarrow> if length acc < unat n then Some (cell p (length acc)) else None | _ \<Rightarrow> None)"

section \<open>Invariant\<close>

definition producer_ok :: "'a spsc \<Rightarrow> bool" where
  "producer_ok s = (let C = length (cells s); W = length (committed s); R = length (consumed s) in
     case producer s of
       PIdle \<Rightarrow> True
     | PLoad src \<Rightarrow> length src < 2 ^ 63
     | PCheck src r \<Rightarrow> length src < 2 ^ 63 \<and> unat r \<le> R \<and> W - unat r \<le> C
     | PCopy src p k \<Rightarrow> k \<le> length src \<and> W - R + length src \<le> C \<and>
         (\<forall>j < length src. cell p j = (W + j) mod C) \<and>
         (\<forall>j < k. cells s ! ((W + j) mod C) = src ! j))"

definition consumer_ok :: "'a spsc \<Rightarrow> bool" where
  "consumer_ok s = (let C = length (cells s); W = length (committed s); R = length (consumed s) in
     case consumer s of
       CIdle \<Rightarrow> True
     | CLoad n \<Rightarrow> True
     | CCheck n w \<Rightarrow> R \<le> unat w \<and> unat w \<le> W
     | CCopy n p acc \<Rightarrow> unat n \<le> W - R \<and> length acc \<le> unat n \<and>
         (\<forall>j < unat n. cell p j = (R + j) mod C) \<and>
         (\<forall>j < length acc. acc ! j = committed s ! (R + j)))"

definition window_ok :: "'a spsc \<Rightarrow> bool" where
  "window_ok s = (let C = length (cells s); W = length (committed s); R = length (consumed s) in
     0 < C \<and> C < 2 ^ 63 \<and> C = unat (capacity (ring s)) \<and>
     W = unat (write_ts (ring s)) \<and> R = unat (read_ts (ring s)) \<and> R \<le> W \<and> W - R \<le> C \<and>
     consumed s = take R (committed s) \<and>
     (\<forall>i. R \<le> i \<and> i < W \<longrightarrow> cells s ! (i mod C) = committed s ! i))"

text \<open>The timestamps are exact as long as fewer than 2^64 elements have been written.\<close>

definition spsc_inv :: "'a spsc \<Rightarrow> bool" where
  "spsc_inv s \<longleftrightarrow> (length (committed s) < 2 ^ 64 \<longrightarrow> window_ok s \<and> producer_ok s \<and> consumer_ok s)"

lemmas spsc_defs = window_ok_def producer_ok_def consumer_ok_def Let_def

lemma cell_position:
  assumes "position_update ts cap n = Some p" and "0 < unat cap" and "unat cap < 2 ^ 63"
    and "unat n \<le> unat cap" and "k < unat n"
  shows "cell p k = (unat ts + k) mod unat cap"
proof -
  obtain p' where p': "position_update ts cap n = Some p'" "unat (index1 p') = unat ts mod unat cap"
    "unat (size1 p') = min (unat n) (unat cap - unat ts mod unat cap)"
    using assms(2-4) by (rule_tac position_update_eq [of cap n ts]) auto
  have p: "p' = p" using p'(1) assms(1) by simp
  note split = ring_split [OF assms(2) p'(3) assms(4)]
  show ?thesis
    using split(5) [of k] split(6) [of k] assms(5) p'(2) by (auto simp: cell_def p)
qed

lemma init_inv:
  "0 < unat cap \<Longrightarrow> unat cap < 2 ^ 63 \<Longrightarrow> spsc_inv (spsc_init dflt cap)"
  by (simp add: spsc_inv_def spsc_defs spsc_init_def fifo_resize_def fifo_reset_def fifo_init_def)

lemma window_okD:
  assumes "window_ok s"
  shows "0 < length (cells s)" and "length (cells s) < 2 ^ 63"
    and "length (cells s) = unat (capacity (ring s))" and "length (committed s) = unat (write_ts (ring s))"
    and "length (consumed s) = unat (read_ts (ring s))" and "length (consumed s) \<le> length (committed s)"
    and "length (committed s) - length (consumed s) \<le> length (cells s)"
    and "consumed s = take (length (consumed s)) (committed s)"
    and "length (consumed s) \<le> i \<Longrightarrow> i < length (committed s) \<Longrightarrow>
      cells s ! (i mod length (cells s)) = committed s ! i"
proof -
  note w = assms [unfolded window_ok_def Let_def]
  show "0 < length (cells s)" and "length (cells s) < 2 ^ 63"
    and "length (cells s) = unat (capacity (ring s))" and "length (committed s) = unat (write_ts (ring s))"
    and "length (consumed s) = unat (read_ts (ring s))" and "length (consumed s) \<le> length (committed s)"
    and "length (committed s) - length (consumed s) \<le> length (cells s)"
    and "consumed s = take (length (consumed s)) (committed s)"
    and "length (consumed s) \<le> i \<Longrightarrow> i < length (committed s) \<Longrightarrow>
      cells s ! (i mod length (cells s)) = committed s ! i"
    using w by (blast | (elim conjE, assumption))+
qed

lemma window_okI:
  assumes "0 < length (cells s)" and "length (cells s) < 2 ^ 63"
    and "length (cells s) = unat (capacity (ring s))" and "length (committed s) = unat (write_ts (ring s))"
    and "length (consumed s) = unat (read_ts (ring s))" and "length (consumed s) \<le> length (committed s)"
    and "length (committed s) - length (consumed s) \<le> length (cells s)"
    and "consumed s = take (length (consumed s)) (committed s)"
    and "\<And>i. length (consumed s) \<le> i \<Longrightarrow> i < length (committed s) \<Longrightarrow>
      cells s ! (i mod length (cells s)) = committed s ! i"
  shows "window_ok s"
  unfolding window_ok_def Let_def by (intro conjI allI impI; (elim conjE)?; rule assms; assumption?)

section \<open>Preservation\<close>

lemma step_local:
  assumes "window_ok s" and "producer_ok s" and "consumer_ok s"
  shows "producer s = PIdle \<Longrightarrow> length src < 2 ^ 63 \<Longrightarrow> producer_ok (s\<lparr>producer := PLoad src\<rparr>)"
    and "producer s = PLoad src \<Longrightarrow> producer_ok (s\<lparr>producer := PCheck src (read_ts (ring s))\<rparr>)"
    and "producer_ok (s\<lparr>producer := PIdle\<rparr>)"
    and "consumer_ok (s\<lparr>consumer := CIdle\<rparr>)" and "consumer_ok (s\<lparr>consumer := CLoad n\<rparr>)"
    and "consumer s = CLoad n \<Longrightarrow> consumer_ok (s\<lparr>consumer := CCheck n (write_ts (ring s))\<rparr>)"
  using assms by (auto simp: spsc_defs)

lemma write_lock_ok:
  assumes w: "window_ok s" and ok: "producer_ok s" and pc: "producer s = PCheck src r"
    and go: "\<not> write_ts (ring s) - r + of_nat (length src) > capacity (ring s)"
    and p: "position_update (write_ts (ring s)) (capacity (ring s)) (of_nat (length src)) = Some p"
  shows "producer_ok (s\<lparr>producer := PCopy src p 0\<rparr>)"
proof -
  let ?W = "length (committed s)" and ?R = "length (consumed s)" and ?C = "length (cells s)"
  have n: "unat (of_nat (length src) :: u64) = length src" "length src < 2 ^ 63"
    using ok pc by (auto simp: producer_ok_def Let_def intro: unat_of_nat_small)
  have C: "0 < ?C" "?C < 2 ^ 63" "?C = unat (capacity (ring s))" "?W = unat (write_ts (ring s))" "?R \<le> ?W"
    by (rule window_okD [OF w])+
  have r: "unat r \<le> ?R" "?W - unat r \<le> ?C" using ok pc by (simp_all add: producer_ok_def Let_def)
  have dist: "unat (write_ts (ring s) - r) = ?W - unat r"
    using r C by (simp add: unat_minus_le word_le_nat_alt)
  have "unat (write_ts (ring s) - r + of_nat (length src)) = ?W - unat r + length src"
    using dist n r C by (subst unat_add_no_wrap) auto
  then have fits: "?W - unat r + length src \<le> ?C"
    using go C by (simp add: word_less_nat_alt)
  then have "length src \<le> unat (capacity (ring s))" using C by linarith
  then have "\<forall>j < length src. cell p j = (?W + j) mod ?C"
    using cell_position [OF p] n C by simp
  with fits r show ?thesis by (auto simp: producer_ok_def Let_def)
qed

lemma read_lock_ok:
  assumes w: "window_ok s" and ok: "consumer_ok s" and pc: "consumer s = CCheck n wr"
    and go: "\<not> wr - read_ts (ring s) < n"
    and p: "position_update (read_ts (ring s)) (capacity (ring s)) n = Some p"
  shows "consumer_ok (s\<lparr>consumer := CCopy n p []\<rparr>)"
proof -
  let ?W = "length (committed s)" and ?R = "length (consumed s)" and ?C = "length (cells s)"
  have C: "0 < ?C" "?C < 2 ^ 63" "?C = unat (capacity (ring s))" "?R = unat (read_ts (ring s))"
    "?W - ?R \<le> ?C"
    by (rule window_okD [OF w])+
  have wr: "?R \<le> unat wr" "unat wr \<le> ?W" using ok pc by (simp_all add: consumer_ok_def Let_def)
  have "unat (wr - read_ts (ring s)) = unat wr - ?R"
    using wr C by (simp add: unat_minus_le word_le_nat_alt)
  then have n: "unat n \<le> ?W - ?R" using go wr by (simp add: word_less_nat_alt)
  then have "unat n \<le> unat (capacity (ring s))" using C by linarith
  then have "\<forall>j < unat n. cell p j = (?R + j) mod ?C"
    using cell_position [OF p] C by simp
  with n show ?thesis by (auto simp: consumer_ok_def Let_def)
qed

text \<open>The cell stored to lies outside the window the consumer may read.\<close>

lemma fresh_cell:
  assumes "window_ok s" and "producer_ok s" and "producer s = PCopy src p k" and "k < length src"
    and "length (consumed s) \<le> i" and "i < length (committed s) + k"
  shows "i mod length (cells s) \<noteq> cell p k" and "cell p k < length (cells s)"
    and "cell p k = (length (committed s) + k) mod length (cells s)"
proof -
  let ?W = "length (committed s)" and ?R = "length (consumed s)" and ?C = "length (cells s)"
  have w: "0 < ?C" "?R \<le> ?W" by (rule window_okD [OF assms(1)])+
  have p: "?W - ?R + length src \<le> ?C" "cell p k = (?W + k) mod ?C"
    using assms(2,3,4) by (simp_all add: producer_ok_def Let_def)
  show "cell p k = (?W + k) mod ?C" by (rule p)
  show "cell p k < ?C" using w p by simp
  show "i mod ?C \<noteq> cell p k"
  proof
    assume eq: "i mod ?C = cell p k"
    have "(?R + (i - ?R)) mod ?C = (?R + (?W - ?R + k)) mod ?C"
      using eq p assms(5) w by simp
    moreover have "i - ?R < ?C" and "?W - ?R + k < ?C" using p(1) assms(4,5,6) w by linarith+
    ultimately have "i - ?R = ?W - ?R + k" by (rule mod_eq_window)
    then show False using assms(5,6) w by linarith
  qed
qed

lemma write_copy_ok:
  assumes w: "window_ok s" and ok: "producer_ok s" and c: "consumer_ok s"
    and pc: "producer s = PCopy src p k" and k: "k < length src"
  defines "s' \<equiv> s\<lparr>cells := (cells s)[cell p k := src ! k], producer := PCopy src p (Suc k)\<rparr>"
  shows "window_ok s'" and "producer_ok s'" and "consumer_ok s'"
proof -
  note fresh = fresh_cell [OF w ok pc k]
  let ?W = "length (committed s)" and ?R = "length (consumed s)" and ?C = "length (cells s)"
  have nz: "?R \<le> ?W" by (rule window_okD [OF w])
  have keep: "(cells s)[cell p k := src ! k] ! (i mod ?C) = cells s ! (i mod ?C)"
    if "?R \<le> i" "i < ?W + k" for i
    using fresh(1) [OF that] by simp
  then show "window_ok s'" using window_okD [OF w] by (intro window_okI) (simp_all add: s'_def)
  show "consumer_ok s'" using c by (auto simp: s'_def consumer_ok_def Let_def split: consumer.splits)
  have "(cells s)[cell p k := src ! k] ! ((?W + j) mod ?C) = src ! j" if "j < Suc k" for j
  proof (cases "j = k")
    case True
    have "cell p k < ?C" "cell p k = (?W + k) mod ?C"
      using ok pc k w by (auto simp: spsc_defs)
    then show ?thesis using True by simp
  next
    case False
    then have "j < k" using that by simp
    then have "cells s ! ((?W + j) mod ?C) = src ! j" using ok pc by (simp add: producer_ok_def Let_def)
    then show ?thesis using keep [of "?W + j"] nz \<open>j < k\<close> by simp
  qed
  then show "producer_ok s'" using ok pc k by (simp add: s'_def producer_ok_def Let_def)
qed

lemma write_commit_ok:
  assumes w: "window_ok s" and ok: "producer_ok s" and c: "consumer_ok s"
    and pc: "producer s = PCopy src p (length src)" and total: "length (committed s @ src) < 2 ^ 64"
  defines "s' \<equiv> s\<lparr>ring := commit_write (ring s) (of_nat (length src)), producer := PIdle,
      committed := committed s @ src\<rparr>"
  shows "window_ok s'" and "producer_ok s'" and "consumer_ok s'"
proof -
  let ?W = "length (committed s)" and ?R = "length (consumed s)" and ?C = "length (cells s)"
  have src: "?W - ?R + length src \<le> ?C" "\<forall>j < length src. cells s ! ((?W + j) mod ?C) = src ! j"
    using ok pc by (simp_all add: producer_ok_def Let_def)
  have RW: "?R \<le> ?W" and W: "?W = unat (write_ts (ring s))" by (rule window_okD [OF w])+
  have "unat (of_nat (length src) :: u64) = length src"
    using total by (intro unat_of_nat_small) simp
  then have "unat (write_ts (ring s) + of_nat (length src)) = ?W + length src"
    using W total by (subst unat_add_no_wrap) simp_all
  then have W': "length (committed s @ src) = unat (write_ts (ring s) + of_nat (length src))" by simp
  have cells: "cells s ! (i mod ?C) = (committed s @ src) ! i"
    if "?R \<le> i" "i < length (committed s @ src)" for i
  proof (cases "i < ?W")
    case True
    then show ?thesis using window_okD(9) [OF w that(1)] by (simp add: nth_append)
  next
    case False
    then show ?thesis using src(2) [rule_format, of "i - ?W"] that by (simp add: nth_append)
  qed
  show "window_ok s'"
    using window_okD [OF w] src(1) RW cells W'
    by (intro window_okI) (simp_all add: s'_def commit_write_def)
  show "producer_ok s'" by (simp add: s'_def producer_ok_def Let_def)
  have "(committed s @ src) ! (?R + j) = committed s ! (?R + j)" if "j < n" "n \<le> ?W - ?R" for j n
  proof -
    have "?R + j < ?W" using that by linarith
    then show ?thesis by (simp add: nth_append)
  qed
  then show "consumer_ok s'"
    using c by (fastforce simp: s'_def consumer_ok_def Let_def split: consumer.splits)
qed

lemma read_copy_ok:
  assumes w: "window_ok s" and c: "consumer_ok s"
    and pc: "consumer s = CCopy n p acc" and lt: "length acc < unat n"
  shows "consumer_ok (s\<lparr>consumer := CCopy n p (acc @ [cells s ! cell p (length acc)])\<rparr>)"
proof -
  let ?W = "length (committed s)" and ?R = "length (consumed s)" and ?C = "length (cells s)"
  have n: "unat n \<le> ?W - ?R" "cell p (length acc) = (?R + length acc) mod ?C"
    using c pc lt by (simp_all add: consumer_ok_def Let_def)
  have "cells s ! ((?R + length acc) mod ?C) = committed s ! (?R + length acc)"
    by (rule window_okD(9) [OF w]) (use n lt in linarith)+
  then show ?thesis
    using c pc lt n(2) by (auto simp: consumer_ok_def Let_def nth_append less_Suc_eq)
qed

lemma read_commit_ok:
  assumes w: "window_ok s" and ok: "producer_ok s" and c: "consumer_ok s"
    and pc: "consumer s = CCopy n p acc" and len: "length acc = unat n"
    and total: "length (committed s) < 2 ^ 64"
  defines "s' \<equiv> s\<lparr>ring := commit_read (ring s) n, consumer := CIdle, consumed := consumed s @ acc\<rparr>"
  shows "window_ok s'" and "producer_ok s'" and "consumer_ok s'"
proof -
  let ?W = "length (committed s)" and ?R = "length (consumed s)" and ?C = "length (cells s)"
  have n: "unat n \<le> ?W - ?R" "\<forall>j < unat n. acc ! j = committed s ! (?R + j)"
    using c pc len by (simp_all add: consumer_ok_def Let_def)
  have RW: "?R \<le> ?W" "?R = unat (read_ts (ring s))" "consumed s = take ?R (committed s)"
    by (rule window_okD [OF w])+
  have R': "unat (read_ts (ring s) + n) = ?R + unat n"
    using RW n total by (subst unat_add_no_wrap) simp_all
  have le: "?R + unat n \<le> ?W" using n RW(1) by linarith
  have "acc = take (unat n) (drop ?R (committed s))"
  proof (rule nth_equalityI)
    show "length acc = length (take (unat n) (drop ?R (committed s)))" using len le by simp
    show "acc ! j = take (unat n) (drop ?R (committed s)) ! j" if "j < length acc" for j
      using n(2) that len le by simp
  qed
  then have "consumed s @ acc = take (?R + unat n) (committed s)"
    using RW(3) by (simp add: take_add)
  then have "consumed s @ acc = take (length (consumed s @ acc)) (committed s)"
    using le len by (simp add: min_absorb2)
  then show "window_ok s'"
    using window_okD [OF w] le R' len
    by (intro window_okI) (simp_all add: s'_def commit_read_def)
  show "producer_ok s'"
    using ok by (auto simp: s'_def producer_ok_def Let_def split: producer.splits)
  show "consumer_ok s'" by (simp add: s'_def consumer_ok_def Let_def)
qed

lemma frames [simp]:
  "window_ok (s\<lparr>producer := pc\<rparr>) = window_ok s" "consumer_ok (s\<lparr>producer := pc\<rparr>) = consumer_ok s"
  "window_ok (s\<lparr>consumer := cc\<rparr>) = window_ok s" "producer_ok (s\<lparr>consumer := cc\<rparr>) = producer_ok s"
  by (auto simp: spsc_defs split: producer.splits consumer.splits)

lemma spsc_inv_step:
  assumes "spsc_step s s'" and "spsc_inv s"
  shows "spsc_inv s'"
  using assms
proof (induction rule: spsc_step.induct)
  case (write_commit s src p)
  then show ?case using write_commit_ok [of s src p] by (simp add: spsc_inv_def)
next
  case (write_copy s src p k)
  then show ?case using write_copy_ok [of s src p k] by (simp add: spsc_inv_def)
next
  case (read_commit s n p acc)
  then show ?case using read_commit_ok [of s n p acc] by (simp add: spsc_inv_def)
qed (simp_all add: spsc_inv_def step_local write_lock_ok read_lock_ok read_copy_ok)

lemma spsc_reachable_inv:
  assumes "spsc_reachable dflt cap s" and "0 < unat cap" and "unat cap < 2 ^ 63"
  shows "spsc_inv s"
  using assms(1)
  by (induction rule: spsc_reachable.induct) (auto intro: init_inv [OF assms(2,3)] spsc_inv_step)

section \<open>Order and race freedom\<close>

lemma spsc_prefix:
  assumes "spsc_reachable dflt cap s" and "0 < unat cap" and "unat cap < 2 ^ 63"
    and "length (committed s) < 2 ^ 64"
  shows "consumed s = take (length (consumed s)) (committed s)"
    and "length (committed s) - length (consumed s) \<le> unat (capacity (ring s))"
proof -
  have w: "window_ok s" using spsc_reachable_inv [OF assms(1-3)] assms(4) by (simp add: spsc_inv_def)
  show "consumed s = take (length (consumed s)) (committed s)" by (rule window_okD [OF w])
  show "length (committed s) - length (consumed s) \<le> unat (capacity (ring s))"
    using window_okD(3,7) [OF w] by simp
qed

lemma spsc_cells_disjoint:
  assumes "spsc_inv s" and "length (committed s) < 2 ^ 64"
    and "store_cell s = Some i" and "load_cell s = Some j"
  shows "i \<noteq> j" and "i < length (cells s)" and "j < length (cells s)"
proof -
  have ok: "window_ok s" "producer_ok s" "consumer_ok s"
    using assms(1,2) by (simp_all add: spsc_inv_def)
  obtain src p k where pc: "producer s = PCopy src p k" "k < length src" and i: "i = cell p k"
    using assms(3) by (auto simp: store_cell_def split: producer.splits if_splits)
  obtain n q acc where cc: "consumer s = CCopy n q acc" "length acc < unat n"
    and j: "j = cell q (length acc)"
    using assms(4) by (auto simp: load_cell_def split: consumer.splits if_splits)
  let ?t = "length (consumed s) + length acc"
  have q: "cell q (length acc) = ?t mod length (cells s)" "unat n \<le> length (committed s) - length (consumed s)"
    using ok(3) cc by (simp_all add: consumer_ok_def Let_def)
  note fresh = fresh_cell [OF ok(1,2) pc, of ?t]
  have t: "length (consumed s) \<le> ?t" "?t < length (committed s) + k" using q(2) cc(2) by linarith+
  show "i \<noteq> j" "i < length (cells s)" using fresh [OF t] i j q(1) by simp_all
  show "j < length (cells s)" using window_okD(1) [OF ok(1)] j q(1) by simp
qed

section \<open>Properties\<close>

text \<open>
  C10: in every interleaving of one producer and one consumer, whatever stale snapshot
  each took of the other's timestamp, the values read are the first values written, in order, and the
  number of values in flight never exceeds the capacity.
\<close>

theorem spsc_in_order:
  assumes "spsc_reachable dflt cap s" and "0 < unat cap" and "unat cap < 2 ^ 63"
    and "length (committed s) < 2 ^ 64"
  shows "consumed s = take (length (consumed s)) (committed s) \<and>
    length (committed s) - length (consumed s) \<le> unat (capacity (ring s))"
  using spsc_prefix [OF assms] by simp

text \<open>A run of the system: two elements written, one read.\<close>

lemmas spsc_run_simps = spsc_init_def fifo_resize_def fifo_reset_def fifo_init_def commit_write_def
  commit_read_def position_update_def Let_def cell_def

lemma two_cells: "replicate 2 (0 :: nat) = [0, 0]"
  by (simp add: numeral_2_eq_2)

lemma spsc_run_example:
  "\<exists>s. spsc_reachable (0 :: nat) 2 s \<and> committed s = [5, 6] \<and> consumed s = [5]"
proof -
  let ?reach = "\<lambda>b rt wt pc cc w r. spsc_reachable (0 :: nat) 2
    \<lparr>cells = b, ring = \<lparr>read_ts = rt, write_ts = wt, capacity = 2\<rparr>, producer = pc, consumer = cc,
     committed = w, consumed = r\<rparr>"
  let ?p = "\<lparr>index1 = 0, size1 = 2, size2 = 0\<rparr>" and ?q = "\<lparr>index1 = 0, size1 = 1, size2 = 0\<rparr>"
  note go = spsc_reachable.step [of "0 :: nat" 2]
  have "?reach [0, 0] 0 0 PIdle CIdle [] []"
    using spsc_reachable.start [of "0 :: nat" 2] by (simp add: spsc_run_simps two_cells)
  note go [OF this write_call [where src = "[5, 6]"]]
  then have "?reach [0, 0] 0 0 (PLoad [5, 6]) CIdle [] []" by simp
  note go [OF this write_load]
  then have "?reach [0, 0] 0 0 (PCheck [5, 6] 0) CIdle [] []" by simp
  note go [OF this write_lock [where src = "[5, 6]" and r = 0 and p = ?p]]
  then have "?reach [0, 0] 0 0 (PCopy [5, 6] ?p 0) CIdle [] []" by (simp add: spsc_run_simps)
  note go [OF this write_copy [where src = "[5, 6]" and k = 0 and p = ?p]]
  then have "?reach [5, 0] 0 0 (PCopy [5, 6] ?p 1) CIdle [] []" by (simp add: spsc_run_simps)
  note go [OF this write_copy [where src = "[5, 6]" and k = 1 and p = ?p]]
  then have "?reach [5, 6] 0 0 (PCopy [5, 6] ?p (Suc (Suc 0))) CIdle [] []" by (simp add: spsc_run_simps)
  note go [OF this write_commit [where src = "[5, 6]" and p = ?p]]
  then have "?reach [5, 6] 0 2 PIdle CIdle [5, 6] []" by (simp add: spsc_run_simps)
  note go [OF this read_call [where n = 1]]
  then have "?reach [5, 6] 0 2 PIdle (CLoad 1) [5, 6] []" by simp
  note go [OF this read_load [where n = 1]]
  then have "?reach [5, 6] 0 2 PIdle (CCheck 1 2) [5, 6] []" by simp
  note go [OF this read_lock [where n = 1 and w = 2 and p = ?q]]
  then have "?reach [5, 6] 0 2 PIdle (CCopy 1 ?q []) [5, 6] []" by (simp add: spsc_run_simps)
  note go [OF this read_copy [where n = 1 and p = ?q and acc = "[]"]]
  then have "?reach [5, 6] 0 2 PIdle (CCopy 1 ?q [5]) [5, 6] []" by (simp add: spsc_run_simps)
  note go [OF this read_commit [where n = 1 and p = ?q and acc = "[5]"]]
  then have "?reach [5, 6] 1 2 PIdle CIdle [5, 6] [5]" by (simp add: spsc_run_simps)
  then show ?thesis by force
qed

text \<open>A point of a run at which both threads are about to touch the vector.\<close>

lemma spsc_overlap_example:
  "\<exists>s. spsc_reachable (0 :: nat) 2 s \<and> committed s = [5] \<and> store_cell s = Some 1 \<and> load_cell s = Some 0"
proof -
  let ?reach = "\<lambda>b rt wt pc cc w r. spsc_reachable (0 :: nat) 2
    \<lparr>cells = b, ring = \<lparr>read_ts = rt, write_ts = wt, capacity = 2\<rparr>, producer = pc, consumer = cc,
     committed = w, consumed = r\<rparr>"
  let ?p = "\<lparr>index1 = 0, size1 = 1, size2 = 0\<rparr>" and ?q = "\<lparr>index1 = 1, size1 = 1, size2 = 0\<rparr>"
  note go = spsc_reachable.step [of "0 :: nat" 2]
  have "?reach [0, 0] 0 0 PIdle CIdle [] []"
    using spsc_reachable.start [of "0 :: nat" 2] by (simp add: spsc_run_simps two_cells)
  note go [OF this write_call [where src = "[5]"]]
  then have "?reach [0, 0] 0 0 (PLoad [5]) CIdle [] []" by simp
  note go [OF this write_load]
  then have "?reach [0, 0] 0 0 (PCheck [5] 0) CIdle [] []" by simp
  note go [OF this write_lock [where src = "[5]" and r = 0 and p = ?p]]
  then have "?reach [0, 0] 0 0 (PCopy [5] ?p 0) CIdle [] []" by (simp add: spsc_run_simps)
  note go [OF this write_copy [where src = "[5]" and k = 0 and p = ?p]]
  then have "?reach [5, 0] 0 0 (PCopy [5] ?p 1) CIdle [] []" by (simp add: spsc_run_simps)
  note go [OF this write_commit [where src = "[5]" and p = ?p]]
  then have "?reach [5, 0] 0 1 PIdle CIdle [5] []" by (simp add: spsc_run_simps)
  note go [OF this write_call [where src = "[6]"]]
  then have "?reach [5, 0] 0 1 (PLoad [6]) CIdle [5] []" by simp
  note go [OF this write_load]
  then have "?reach [5, 0] 0 1 (PCheck [6] 0) CIdle [5] []" by simp
  note go [OF this write_lock [where src = "[6]" and r = 0 and p = ?q]]
  then have "?reach [5, 0] 0 1 (PCopy [6] ?q 0) CIdle [5] []" by (simp add: spsc_run_simps)
  note go [OF this read_call [where n = 1]]
  then have "?reach [5, 0] 0 1 (PCopy [6] ?q 0) (CLoad 1) [5] []" by simp
  note go [OF this read_load [where n = 1]]
  then have "?reach [5, 0] 0 1 (PCopy [6] ?q 0) (CCheck 1 1) [5] []" by simp
  note go [OF this read_lock [where n = 1 and w = 1 and p = ?p]]
  then have "?reach [5, 0] 0 1 (PCopy [6] ?q 0) (CCopy 1 ?p []) [5] []" by (simp add: spsc_run_simps)
  then show ?thesis by (force simp: store_cell_def load_cell_def cell_def)
qed

theorem spsc_in_order_witness:
  "\<exists>s. spsc_reachable (0 :: nat) 2 s \<and> committed s = [5, 6] \<and> consumed s = take 1 (committed s)"
proof -
  obtain s where s: "spsc_reachable (0 :: nat) 2 s" "committed s = [5, 6]" "consumed s = [5]"
    using spsc_run_example by blast
  with spsc_in_order [OF s(1)] show ?thesis by auto
qed

text \<open>
  C11: at no point of any interleaving do the producer's next store and the consumer's
  next load touch the same cell, and both are inside the vector.
\<close>

theorem spsc_race_free:
  assumes "spsc_reachable dflt cap s" and "0 < unat cap" and "unat cap < 2 ^ 63"
    and "length (committed s) < 2 ^ 64"
    and "store_cell s = Some i" and "load_cell s = Some j"
  shows "i \<noteq> j \<and> i < length (cells s) \<and> j < length (cells s)"
  using spsc_cells_disjoint [OF spsc_reachable_inv [OF assms(1-3)] assms(4-6)] by simp

theorem spsc_race_free_witness:
  "\<exists>s. spsc_reachable (0 :: nat) 2 s \<and> store_cell s = Some 1 \<and> load_cell s = Some 0 \<and>
    (1 :: nat) \<noteq> 0 \<and> 1 < length (cells s) \<and> 0 < length (cells s)"
proof -
  obtain s where s: "spsc_reachable (0 :: nat) 2 s" "committed s = [5]" "store_cell s = Some 1"
    "load_cell s = Some 0"
    using spsc_overlap_example by blast
  with spsc_race_free [OF s(1) _ _ _ s(3,4)] show ?thesis by auto
qed

end
