(* ===== verification/Ringbuffer.thy ===== *)
theory Ringbuffer
  imports Fifo
begin

text \<open>
  rtp/detail/rtp_ringbuffer.hpp: the byte ring that receives RTP payloads at their timestamps and is
  read by the audio thread. Its specification is a window of bytes indexed by the unwrapped byte
  position \<open>timestamp * bytes_per_frame\<close>: a write replaces the bytes of its range and no other byte of
  the window, a read returns the bytes of its range.
\<close>

section \<open>State and operations\<close>

record ringbuffer =
  bytes_per_frame :: u32
  next_ts :: u32
  rbuffer :: "byte list"
  ground_value :: byte

definition ringbuffer_init :: ringbuffer where
  "ringbuffer_init = \<lparr>bytes_per_frame = 0, next_ts = 0, rbuffer = [], ground_value = 0\<rparr>"

definition rb_resize :: "ringbuffer \<Rightarrow> u32 \<Rightarrow> u32 \<Rightarrow> ringbuffer" where
  "rb_resize r frames bpf =
     (let new_capacity = unat (frames * bpf) in
      if new_capacity = length (rbuffer r) \<and> bpf = bytes_per_frame r then r
      else r\<lparr>bytes_per_frame := bpf, rbuffer := replicate new_capacity (ground_value r)\<rparr>)"

text \<open>\<open>memcpy\<close> in two parts into and out of the ring, and \<open>memset\<close> of two parts.\<close>

definition copy_in :: "byte list \<Rightarrow> position \<Rightarrow> byte list \<Rightarrow> byte list option" where
  "copy_in b p src = do {
     part1 \<leftarrow> read_block src 0 (unat (size1 p));
     b1 \<leftarrow> write_block b (unat (index1 p)) part1;
     if size2 p > 0
     then do { part2 \<leftarrow> read_block src (unat (size1 p)) (unat (size2 p)); write_block b1 0 part2 }
     else Some b1 }"

definition fill_in :: "byte list \<Rightarrow> position \<Rightarrow> byte \<Rightarrow> byte list option" where
  "fill_in b p g = do {
     b1 \<leftarrow> write_block b (unat (index1 p)) (replicate (unat (size1 p)) g);
     if size2 p > 0 then write_block b1 0 (replicate (unat (size2 p)) g) else Some b1 }"

text \<open>The debug assertions are compiled out; an empty ring or frame size divides by zero.\<close>

definition rb_write :: "ringbuffer \<Rightarrow> u32 \<Rightarrow> byte list \<Rightarrow> ringbuffer option" where
  "rb_write r at_ts payload = do {
     p \<leftarrow> position_update (ucast at_ts * ucast (bytes_per_frame r)) (of_nat (length (rbuffer r)))
           (of_nat (length payload));
     b \<leftarrow> copy_in (rbuffer r) p payload;
     if bytes_per_frame r = 0 then None
     else
       let end_ts = wrapping_add at_ts (of_nat (length payload div unat (bytes_per_frame r))) in
       Some (r\<lparr>rbuffer := b, next_ts := (if wrapping_gt end_ts (next_ts r) then end_ts else next_ts r)\<rparr>) }"

definition rb_read :: "ringbuffer \<Rightarrow> u32 \<Rightarrow> nat \<Rightarrow> bool \<Rightarrow> (byte list \<times> ringbuffer) option" where
  "rb_read r at_ts n clear_data = do {
     p \<leftarrow> position_update (ucast at_ts * ucast (bytes_per_frame r)) (of_nat (length (rbuffer r))) (of_nat n);
     part1 \<leftarrow> read_block (rbuffer r) (unat (index1 p)) (unat (size1 p));
     b1 \<leftarrow> (if clear_data
            then write_block (rbuffer r) (unat (index1 p)) (replicate (unat (size1 p)) (ground_value r))
            else Some (rbuffer r));
     if size2 p > 0
     then do {
       part2 \<leftarrow> read_block b1 0 (unat (size2 p));
       b2 \<leftarrow> (if clear_data then write_block b1 0 (replicate (unat (size2 p)) (ground_value r)) else Some b1);
       Some (part1 @ part2, r\<lparr>rbuffer := b2\<rparr>) }
     else Some (part1, r\<lparr>rbuffer := b1\<rparr>) }"

text \<open>Here both products are computed in 32 bits, unlike in \<open>write\<close> and \<open>read\<close>.\<close>

definition clear_until :: "ringbuffer \<Rightarrow> u32 \<Rightarrow> (bool \<times> ringbuffer) option" where
  "clear_until r at_ts =
     (if wrapping_ge (next_ts r) at_ts then Some (False, r)
      else do {
        p \<leftarrow> position_update (ucast (next_ts r * bytes_per_frame r)) (of_nat (length (rbuffer r)))
              (min (ucast (wrapping_sub at_ts (next_ts r) * bytes_per_frame r)) (of_nat (length (rbuffer r))));
        b \<leftarrow> fill_in (rbuffer r) p (ground_value r);
        Some (True, r\<lparr>rbuffer := b, next_ts := at_ts\<rparr>) })"

definition rb_clear :: "ringbuffer \<Rightarrow> ringbuffer" where
  "rb_clear r = r\<lparr>rbuffer := replicate (length (rbuffer r)) (ground_value r)\<rparr>"

definition set_next_ts :: "ringbuffer \<Rightarrow> u32 \<Rightarrow> ringbuffer" where
  "set_next_ts r ts = r\<lparr>next_ts := ts\<rparr>"

definition set_ground_value :: "ringbuffer \<Rightarrow> byte \<Rightarrow> ringbuffer" where
  "set_ground_value r g = r\<lparr>ground_value := g\<rparr>"

section \<open>Specification\<close>

text \<open>The byte at an unwrapped byte position, and the position of a timestamp.\<close>

definition byte_at :: "ringbuffer \<Rightarrow> nat \<Rightarrow> byte" where
  "byte_at r q = rbuffer r ! (q mod length (rbuffer r))"

definition byte_pos :: "ringbuffer \<Rightarrow> u32 \<Rightarrow> nat" where
  "byte_pos r ts = unat ts * unat (bytes_per_frame r)"

definition rb_ok :: "ringbuffer \<Rightarrow> bool" where
  "rb_ok r \<longleftrightarrow> 0 < unat (bytes_per_frame r) \<and> 0 < length (rbuffer r) \<and> length (rbuffer r) < 2 ^ 63"

lemma unat_ucast_64 [simp]: "unat (ucast (w :: u32) :: u64) = unat w"
  using unat_bound [of w] by (simp add: unsigned_ucast_eq take_bit_nat_eq_self)

lemma byte_pos_u64: "unat (ucast ts * ucast (bytes_per_frame r) :: u64) = byte_pos r ts"
proof -
  have "unat ts * unat (bytes_per_frame r) < 2 ^ 32 * 2 ^ 32"
    using unat_bound [of ts] unat_bound [of "bytes_per_frame r"] by (intro mult_strict_mono) simp_all
  then show ?thesis by (simp add: unat_word_ariths byte_pos_def)
qed

lemma position_ring:
  assumes "0 < length b" and "length b < 2 ^ 63" and "n \<le> length b"
  obtains p where "position_update ts (of_nat (length b)) (of_nat n) = Some p"
    and "unat (index1 p) = unat ts mod length b"
    and "unat (size1 p) = min n (length b - unat ts mod length b)"
    and "unat (size2 p) = n - unat (size1 p)"
proof -
  have "unat (of_nat (length b) :: u64) = length b" and "unat (of_nat n :: u64) = n"
    using assms by (simp_all add: unat_of_nat_small)
  then show thesis
    using position_update_eq [of "of_nat (length b)" "of_nat n" ts] assms that by auto
qed

text \<open>A copy into the ring replaces the next \<open>n\<close> bytes of the window starting at \<open>t\<close>.\<close>

lemma copy_in_window:
  assumes b: "0 < length b" "length src \<le> length b"
    and p: "unat (index1 p) = t mod length b" "unat (size1 p) = min (length src) (length b - t mod length b)"
      "unat (size2 p) = length src - unat (size1 p)"
  obtains b2 where "copy_in b p src = Some b2" and "length b2 = length b"
    and "\<And>q. t \<le> q \<Longrightarrow> q < t + length b \<Longrightarrow>
      b2 ! (q mod length b) = (if q < t + length src then src ! (q - t) else b ! (q mod length b))"
proof -
  let ?s = "min (length src) (length b - t mod length b)"
  note split = ring_split [OF b(1) refl b(2), of t]
  obtain b1 where b1: "write_block b (t mod length b) (take ?s src) = Some b1"
    using split(1) by (simp add: write_block_def)
  have l1: "length b1 = length b" using b1 by (rule length_write_block)
  have len: "length (drop ?s src) \<le> length b1" using b(2) by (simp add: l1)
  obtain b2 where b2: "write_block b1 0 (drop ?s src) = Some b2"
    by (rule that [of "drop ?s src @ drop (length (drop ?s src)) b1"]) (use len in \<open>simp add: write_block_def\<close>)
  note copy = ring_copy_in [OF b refl refl b1 b2]
  have "copy_in b p src = Some b2"
  proof (cases "size2 p = 0")
    case True
    then have "drop ?s src = []" using p by simp
    with b1 b2 True p(1,2) show ?thesis by (simp add: copy_in_def)
  next
    case False
    have "read_block src (unat (size1 p)) (unat (size2 p)) = Some (drop ?s src)"
      using p(2,3) by simp
    with b1 b2 False p(1,2) show ?thesis by (simp add: copy_in_def word_neq_0_conv)
  qed
  moreover have "b2 ! (q mod length b) = (if q < t + length src then src ! (q - t) else b ! (q mod length b))"
    if q: "t \<le> q" "q < t + length b" for q
  proof (cases "q < t + length src")
    case True
    then have "q - t < length src" using q by linarith
    then have "ring_slice b2 t (length src) ! (q - t) = b2 ! (q mod length b)" using q by (simp add: copy(1))
    then show ?thesis using True by (simp add: copy(2))
  next
    case False
    then have "length src \<le> q - t" "q - t < length b" using q by linarith+
    from copy(3) [OF this] show ?thesis using False q by simp
  qed
  ultimately show thesis using copy(1) that by blast
qed

lemma fill_in_copy_in:
  assumes "unat (size1 p) + unat (size2 p) = n"
  shows "fill_in b p g = copy_in b p (replicate n g)"
proof -
  have "read_block (replicate n g) 0 (unat (size1 p)) = Some (replicate (unat (size1 p)) g)"
    and "read_block (replicate n g) (unat (size1 p)) (unat (size2 p)) = Some (replicate (unat (size2 p)) g)"
    using assms by (auto simp: min_def)
  then show ?thesis by (simp add: fill_in_def copy_in_def cong: if_cong)
qed

section \<open>Write and read\<close>

lemma rb_write_window:
  assumes ok: "rb_ok r" and fits: "length payload \<le> length (rbuffer r)"
  obtains r' where "rb_write r ts payload = Some r'" and "rb_ok r'"
    and "length (rbuffer r') = length (rbuffer r)" and "bytes_per_frame r' = bytes_per_frame r"
    and "\<And>q. byte_pos r ts \<le> q \<Longrightarrow> q < byte_pos r ts + length (rbuffer r) \<Longrightarrow>
      byte_at r' q = (if q < byte_pos r ts + length payload then payload ! (q - byte_pos r ts) else byte_at r q)"
    and "next_ts r' = (let e = ts + of_nat (length payload div unat (bytes_per_frame r)) in
      if wrapping_gt e (next_ts r) then e else next_ts r)"
proof -
  let ?b = "rbuffer r" and ?t = "byte_pos r ts"
  have b: "0 < length ?b" "length ?b < 2 ^ 63" and bpf: "bytes_per_frame r \<noteq> 0"
    using ok by (auto simp: rb_ok_def)
  obtain p where p: "position_update (ucast ts * ucast (bytes_per_frame r)) (of_nat (length ?b))
      (of_nat (length payload)) = Some p" "unat (index1 p) = ?t mod length ?b"
    "unat (size1 p) = min (length payload) (length ?b - ?t mod length ?b)"
    "unat (size2 p) = length payload - unat (size1 p)"
    using position_ring [OF b fits, of "ucast ts * ucast (bytes_per_frame r)"] unfolding byte_pos_u64 by blast
  obtain b2 where b2: "copy_in ?b p payload = Some b2" "length b2 = length ?b"
    "\<And>q. ?t \<le> q \<Longrightarrow> q < ?t + length ?b \<Longrightarrow>
      b2 ! (q mod length ?b) = (if q < ?t + length payload then payload ! (q - ?t) else ?b ! (q mod length ?b))"
    using copy_in_window [OF b(1) fits p(2-4)] by blast
  let ?r' = "r\<lparr>rbuffer := b2, next_ts := (if wrapping_gt
      (wrapping_add ts (of_nat (length payload div unat (bytes_per_frame r)))) (next_ts r)
      then wrapping_add ts (of_nat (length payload div unat (bytes_per_frame r))) else next_ts r)\<rparr>"
  show thesis
  proof (rule that)
    show "rb_write r ts payload = Some ?r'" using p(1) b2(1) bpf by (simp add: rb_write_def Let_def)
    show "rb_ok ?r'" using ok b2(2) by (simp add: rb_ok_def)
    show "length (rbuffer ?r') = length ?b" by (simp add: b2)
    show "byte_at ?r' q = (if q < ?t + length payload then payload ! (q - ?t) else byte_at r q)"
      if "?t \<le> q" "q < ?t + length ?b" for q
      using b2(3) [OF that] by (simp add: byte_at_def b2(2))
  qed (simp_all add: wrapping_add_def Let_def)
qed

lemma rb_read_window:
  assumes ok: "rb_ok r" and fits: "n \<le> length (rbuffer r)"
  shows "rb_read r ts n False = Some (map (byte_at r) [byte_pos r ts..<byte_pos r ts + n], r)"
proof -
  let ?b = "rbuffer r" and ?t = "byte_pos r ts"
  have b: "0 < length ?b" "length ?b < 2 ^ 63" using ok by (auto simp: rb_ok_def)
  obtain p where p: "position_update (ucast ts * ucast (bytes_per_frame r)) (of_nat (length ?b))
      (of_nat n) = Some p" "unat (index1 p) = ?t mod length ?b"
    "unat (size1 p) = min n (length ?b - ?t mod length ?b)" "unat (size2 p) = n - unat (size1 p)"
    using position_ring [OF b fits, of "ucast ts * ucast (bytes_per_frame r)"] unfolding byte_pos_u64 by blast
  note copy = ring_copy_out [OF b(1) fits p(3)]
  have s: "unat (size1 p) + (n - unat (size1 p)) = n" using p(3) by simp
  have "ring_slice ?b ?t n = ring_slice ?b ?t (unat (size1 p)) @ ring_slice ?b (?t + unat (size1 p)) (n - unat (size1 p))"
    by (simp only: ring_slice_append [symmetric] s)
  moreover have "map (byte_at r) [?t..<?t + n] = ring_slice ?b ?t n"
    by (rule nth_equalityI) (simp_all add: byte_at_def)
  ultimately have parts: "map (byte_at r) [?t..<?t + n]
      = ring_slice ?b ?t (unat (size1 p)) @ ring_slice ?b (?t + unat (size1 p)) (n - unat (size1 p))" by simp
  show ?thesis
  proof (cases "size2 p = 0")
    case True
    then have "ring_slice ?b (?t + unat (size1 p)) (n - unat (size1 p)) = []"
      using p(4) by (simp add: ring_slice_def)
    then show ?thesis unfolding parts using p(1,2) copy(1) True by (simp add: rb_read_def)
  next
    case False
    then show ?thesis unfolding parts using p(1,2,4) copy by (simp add: rb_read_def word_neq_0_conv)
  qed
qed

text \<open>Reading with \<open>clear_data\<close> returns the same bytes and fills their range with the ground value.\<close>

lemma rb_read_clear_eq:
  assumes ok: "rb_ok r" and fits: "n \<le> length (rbuffer r)"
    and p: "position_update (ucast ts * ucast (bytes_per_frame r)) (of_nat (length (rbuffer r))) (of_nat n) = Some p"
    and b: "fill_in (rbuffer r) p (ground_value r) = Some b"
  shows "rb_read r ts n True = Some (map (byte_at r) [byte_pos r ts..<byte_pos r ts + n], r\<lparr>rbuffer := b\<rparr>)"
proof -
  let ?b = "rbuffer r" and ?t = "byte_pos r ts" and ?s = "unat (size1 p)"
  have l: "0 < length ?b" "length ?b < 2 ^ 63" using ok by (auto simp: rb_ok_def)
  obtain p' where p': "position_update (ucast ts * ucast (bytes_per_frame r)) (of_nat (length ?b))
      (of_nat n) = Some p'" "unat (index1 p') = ?t mod length ?b"
    "unat (size1 p') = min n (length ?b - ?t mod length ?b)" "unat (size2 p') = n - unat (size1 p')"
    using position_ring [OF l fits, of "ucast ts * ucast (bytes_per_frame r)"] unfolding byte_pos_u64 by blast
  have pp: "p' = p" using p p'(1) by simp
  note q = p'(2-4) [unfolded pp]
  note split = ring_split [OF l(1) q(2) fits]
  obtain b1 where b1: "write_block ?b (?t mod length ?b) (replicate ?s (ground_value r)) = Some b1"
    using split(1) by (simp add: write_block_def)
  have same: "read_block b1 0 (n - ?s) = read_block ?b 0 (n - ?s)"
  proof -
    have "take (n - ?s) b1 = take (n - ?s) ?b"
      using b1 split(3) by (auto simp: write_block_def split: if_splits)
    then show ?thesis using length_write_block [OF b1] by (simp add: read_block_def)
  qed
  have plain: "rb_read r ts n False = Some (map (byte_at r) [?t..<?t + n], r)"
    by (rule rb_read_window [OF ok fits])
  obtain part1 where part1: "read_block ?b (?t mod length ?b) ?s = Some part1"
    using split(1) by simp
  show ?thesis
  proof (cases "size2 p = 0")
    case True
    then show ?thesis using plain p b b1 part1 q(1) by (simp add: rb_read_def fill_in_def)
  next
    case False
    obtain part2 where "read_block ?b 0 (n - ?s) = Some part2" using fits by simp
    then show ?thesis
      using False plain p b b1 part1 q(1,3) same by (simp add: rb_read_def fill_in_def word_neq_0_conv)
  qed
qed

section \<open>Clearing\<close>

lemma clear_until_older: "wrapping_ge (next_ts r) ts \<Longrightarrow> clear_until r ts = Some (False, r)"
  by (simp add: clear_until_def)

lemma eq_of_nat_unat: "unat w = n \<Longrightarrow> w = of_nat n"
  by auto

lemma clear_until_window:
  assumes ok: "rb_ok r" and newer: "\<not> wrapping_ge (next_ts r) ts"
    and pos: "byte_pos r (next_ts r) < 2 ^ 32" and gap: "byte_pos r (ts - next_ts r) < 2 ^ 32"
  defines "n \<equiv> min (byte_pos r (ts - next_ts r)) (length (rbuffer r))"
  obtains r' where "clear_until r ts = Some (True, r')" and "rb_ok r'" and "next_ts r' = ts"
    and "length (rbuffer r') = length (rbuffer r)"
    and "\<And>q. byte_pos r (next_ts r) \<le> q \<Longrightarrow> q < byte_pos r (next_ts r) + length (rbuffer r) \<Longrightarrow>
      byte_at r' q = (if q < byte_pos r (next_ts r) + n then ground_value r else byte_at r q)"
proof -
  let ?b = "rbuffer r" and ?t = "byte_pos r (next_ts r)"
  have b: "0 < length ?b" "length ?b < 2 ^ 63" using ok by (auto simp: rb_ok_def)
  have start: "unat (ucast (next_ts r * bytes_per_frame r) :: u64) = ?t"
    using pos by (simp add: byte_pos_def unat_word_ariths)
  have diff: "unat (ucast (wrapping_sub ts (next_ts r) * bytes_per_frame r) :: u64) = byte_pos r (ts - next_ts r)"
    using gap by (simp add: byte_pos_def unat_word_ariths wrapping_sub_def)
  have size: "unat (of_nat (length ?b) :: u64) = length ?b" using b by (simp add: unat_of_nat_small)
  have len: "min (ucast (wrapping_sub ts (next_ts r) * bytes_per_frame r)) (of_nat (length ?b)) = (of_nat n :: u64)"
  proof -
    have "unat (min (ucast (wrapping_sub ts (next_ts r) * bytes_per_frame r)) (of_nat (length ?b)) :: u64) = n"
      using diff size by (simp add: min_def word_le_nat_alt n_def)
    then show ?thesis by (rule eq_of_nat_unat)
  qed
  have fits: "n \<le> length ?b" by (simp add: n_def)
  obtain p where p: "position_update (ucast (next_ts r * bytes_per_frame r)) (of_nat (length ?b)) (of_nat n) = Some p"
    "unat (index1 p) = ?t mod length ?b" "unat (size1 p) = min n (length ?b - ?t mod length ?b)"
    "unat (size2 p) = n - unat (size1 p)"
    using position_ring [OF b fits, of "ucast (next_ts r * bytes_per_frame r)"] unfolding start by blast
  have src: "length (replicate n (ground_value r)) \<le> length ?b" using fits by simp
  obtain b2 where b2: "copy_in ?b p (replicate n (ground_value r)) = Some b2" "length b2 = length ?b"
    "\<And>q. ?t \<le> q \<Longrightarrow> q < ?t + length ?b \<Longrightarrow> b2 ! (q mod length ?b) =
      (if q < ?t + n then replicate n (ground_value r) ! (q - ?t) else ?b ! (q mod length ?b))"
    using copy_in_window [OF b(1) src, of p ?t] p(2-4) by (simp only: length_replicate) blast
  have fill: "fill_in ?b p (ground_value r) = Some b2"
    using b2(1) p(3,4) by (subst fill_in_copy_in [of p n]) simp_all
  let ?r' = "r\<lparr>rbuffer := b2, next_ts := ts\<rparr>"
  show thesis
  proof (rule that)
    show "clear_until r ts = Some (True, ?r')"
      unfolding clear_until_def len using newer p(1) fill by simp
    show "rb_ok ?r'" using ok b2(2) by (simp add: rb_ok_def)
    show "byte_at ?r' q = (if q < ?t + n then ground_value r else byte_at r q)"
      if "?t \<le> q" "q < ?t + length ?b" for q
    proof -
      have "q - ?t < n" if "q < ?t + n" using that \<open>?t \<le> q\<close> by linarith
      then show ?thesis using b2(3) [OF that] by (simp add: byte_at_def b2(2))
    qed
  qed (simp_all add: b2)
qed

section \<open>The wrap of the timestamp\<close>

lemma replicate_update_nth: "j < m \<Longrightarrow> (replicate m w)[i := v] ! j = (if j = i then v else w)"
  by (simp add: nth_list_update)

text \<open>Position 0 seen from the last frame before the wrap.\<close>

lemma wrap_position:
  assumes "0 < (c :: nat)" and "2 * b \<le> c"
  defines "P \<equiv> (2 ^ 32 - 1) * b"
  obtains j where "j < c" and "(P + j) mod c = 0" and "j = b \<longleftrightarrow> c dvd 2 ^ 32 * b"
proof -
  define j where "j = (if P mod c = 0 then 0 else c - P mod c)"
  have lt: "P mod c < c" using assms(1) by simp
  have j: "j < c" using lt assms(1) by (auto simp: j_def)
  have zero: "(P + j) mod c = 0"
  proof (cases "P mod c = 0")
    case True
    then show ?thesis by (simp add: j_def)
  next
    case False
    then have "(P mod c + j) mod c = 0" using lt by (simp add: j_def)
    then show ?thesis by (simp add: mod_add_left_eq)
  qed
  have Pb: "P + b = 2 ^ 32 * b" by (simp add: P_def)
  have "j = b \<longleftrightarrow> c dvd P + b"
  proof
    assume "j = b"
    then show "c dvd P + b" using zero by (simp add: dvd_eq_mod_eq_0)
  next
    assume d: "c dvd P + b"
    have "(P + j) mod c = (P + b) mod c" using d zero by (simp add: dvd_eq_mod_eq_0)
    show "j = b"
    proof (cases "b = 0")
      case True
      then show ?thesis by (simp add: j_def P_def)
    next
      case False
      then have "b < c" using assms(2) by simp
      from mod_eq_window [OF \<open>(P + j) mod c = (P + b) mod c\<close> j this] show ?thesis .
    qed
  qed
  then show thesis by (intro that [OF j zero]) (simp only: Pb)
qed

lemma byte_at_index: "0 < length (rbuffer r) \<Longrightarrow> byte_at r (q mod length (rbuffer r)) = byte_at r q"
  by (simp add: byte_at_def)

lemma wrap_write_read:
  assumes ok: "rb_ok r" and two: "2 * unat (bytes_per_frame r) \<le> length (rbuffer r)"
    and len: "length payload = 2 * unat (bytes_per_frame r)"
  obtains r' where "rb_write r (- 1) payload = Some r'"
    and "rb_read r' 0 (unat (bytes_per_frame r)) False = Some (map (byte_at r') [0..<unat (bytes_per_frame r)], r')"
    and "\<And>j. j < length (rbuffer r) \<Longrightarrow> byte_at r' ((2 ^ 32 - 1) * unat (bytes_per_frame r) + j) =
      (if j < length payload then payload ! j else byte_at r ((2 ^ 32 - 1) * unat (bytes_per_frame r) + j))"
    and "length (rbuffer r') = length (rbuffer r)"
proof -
  have fits: "length payload \<le> length (rbuffer r)" using two len by simp
  have last: "unat (- 1 :: u32) = 2 ^ 32 - 1" by (simp add: unsigned_minus_1_eq_mask mask_eq_exp_minus_1)
  then have P: "byte_pos r (- 1) = (2 ^ 32 - 1) * unat (bytes_per_frame r)" by (simp add: byte_pos_def)
  obtain r' where r': "rb_write r (- 1) payload = Some r'" "rb_ok r'"
    "length (rbuffer r') = length (rbuffer r)" "bytes_per_frame r' = bytes_per_frame r"
    "\<And>q. byte_pos r (- 1) \<le> q \<Longrightarrow> q < byte_pos r (- 1) + length (rbuffer r) \<Longrightarrow>
      byte_at r' q = (if q < byte_pos r (- 1) + length payload then payload ! (q - byte_pos r (- 1)) else byte_at r q)"
    using rb_write_window [OF ok fits, of "- 1"] by blast
  show thesis
  proof (rule that [OF r'(1) _ _ r'(3)])
    show "rb_read r' 0 (unat (bytes_per_frame r)) False = Some (map (byte_at r') [0..<unat (bytes_per_frame r)], r')"
      using rb_read_window [OF r'(2), of "unat (bytes_per_frame r)" 0] two r'(3) by (simp add: byte_pos_def)
    show "byte_at r' ((2 ^ 32 - 1) * unat (bytes_per_frame r) + j) =
      (if j < length payload then payload ! j else byte_at r ((2 ^ 32 - 1) * unat (bytes_per_frame r) + j))"
      if "j < length (rbuffer r)" for j
      using r'(5) [of "byte_pos r (- 1) + j"] that unfolding P by simp
  qed
qed

section \<open>Properties\<close>





text \<open>
  A payload of two frames written across the wrap of the RTP timestamp is found again by
  a read at timestamp 0, whatever the payload and the older contents, exactly when the size of the ring
  divides \<open>2^32\<close> frames.
\<close>

theorem ringbuffer_wrap_continuity:
  assumes "rb_ok r" and "2 * unat (bytes_per_frame r) \<le> length (rbuffer r)"
  shows "(\<forall>payload. length payload = 2 * unat (bytes_per_frame r) \<longrightarrow>
      (\<exists>r'. rb_write r (- 1) payload = Some r' \<and>
        rb_read r' 0 (unat (bytes_per_frame r)) False = Some (drop (unat (bytes_per_frame r)) payload, r')))
    \<longleftrightarrow> length (rbuffer r) dvd 2 ^ 32 * unat (bytes_per_frame r)" (is "?all \<longleftrightarrow> ?dvd")
proof -
  let ?n = "unat (bytes_per_frame r)" and ?c = "length (rbuffer r)"
  let ?P = "(2 ^ 32 - 1) * ?n"
  have c: "0 < ?c" "0 < ?n" using assms(1) by (simp_all add: rb_ok_def)
  obtain j where j: "j < ?c" "(?P + j) mod ?c = 0" "j = ?n \<longleftrightarrow> ?dvd"
    by (rule wrap_position [OF c(1) assms(2)])
  have last: "?P + ?n = 2 ^ 32 * ?n" by (simp add: algebra_simps)
  show ?thesis
  proof
    assume all: ?all
    define v where "v = byte_at r 0 + 1"
    define payload where "payload = (replicate (2 * ?n) (byte_at r 0))[?n := v]"
    have len: "length payload = 2 * ?n" by (simp add: payload_def)
    obtain r' where r': "rb_write r (- 1) payload = Some r'"
      "rb_read r' 0 ?n False = Some (map (byte_at r') [0..<?n], r')" "length (rbuffer r') = ?c"
      "\<And>i. i < ?c \<Longrightarrow> byte_at r' (?P + i) = (if i < length payload then payload ! i else byte_at r (?P + i))"
      using wrap_write_read [OF assms len] by blast
    have "map (byte_at r') [0..<?n] = drop ?n payload" using all len r'(1,2) by fastforce
    then have "map (byte_at r') [0..<?n] ! 0 = drop ?n payload ! 0" by simp
    then have "byte_at r' 0 = v" using c(2) by (simp add: len) (simp add: payload_def)
    moreover have "byte_at r' 0 = byte_at r' (?P + j)"
      using j(2) r'(3) by (simp add: byte_at_def)
    moreover have "byte_at r (?P + j) = byte_at r 0" using j(2) by (simp add: byte_at_def)
    ultimately have "(if j < length payload then payload ! j else byte_at r 0) = v"
      using r'(4) [OF j(1)] by simp
    moreover have "payload ! j = (if j = ?n then v else byte_at r 0)" if "j < length payload"
      using that unfolding payload_def by (subst replicate_update_nth) simp_all
    moreover have "byte_at r 0 \<noteq> v" by (simp add: v_def)
    ultimately have "j = ?n" by metis
    then show ?dvd using j(3) by simp
  next
    assume dvd: ?dvd
    show ?all
    proof (intro allI impI)
      fix payload :: "byte list" assume len: "length payload = 2 * ?n"
      obtain r' where r': "rb_write r (- 1) payload = Some r'"
        "rb_read r' 0 ?n False = Some (map (byte_at r') [0..<?n], r')" "length (rbuffer r') = ?c"
        "\<And>i. i < ?c \<Longrightarrow> byte_at r' (?P + i) = (if i < length payload then payload ! i else byte_at r (?P + i))"
        using wrap_write_read [OF assms len] by blast
      have "byte_at r' i = drop ?n payload ! i" if i: "i < ?n" for i
      proof -
        have "(?P + (?n + i)) mod ?c = i mod ?c"
        proof -
          obtain k where k: "2 ^ 32 * ?n = ?c * k" using dvd by (rule dvdE)
          have "?P + (?n + i) = i + ?c * k" using last k by linarith
          then show ?thesis by (simp only: mod_mult_self2)
        qed
        then have "byte_at r' i = byte_at r' (?P + (?n + i))" by (simp add: byte_at_def r'(3))
        then show ?thesis using r'(4) [of "?n + i"] i assms(2) len by simp
      qed
      then have "map (byte_at r') [0..<?n] = drop ?n payload" by (intro nth_equalityI) (simp_all add: len)
      then show "\<exists>r'. rb_write r (- 1) payload = Some r' \<and> rb_read r' 0 ?n False = Some (drop ?n payload, r')"
        using r'(1,2) by auto
    qed
  qed
qed

text \<open>The ring of a 48 kHz stream: 200 ms of 6-byte frames.\<close>

theorem ringbuffer_wrap_continuity_witness:
  "\<not> (\<forall>payload. length payload = 12 \<longrightarrow>
      (\<exists>r'. rb_write (rb_resize ringbuffer_init 9600 6) (- 1) payload = Some r' \<and>
        rb_read r' 0 6 False = Some (drop 6 payload, r')))"
proof -
  let ?r = "rb_resize ringbuffer_init 9600 6"
  have r: "rb_ok ?r" "length (rbuffer ?r) = 57600" "unat (bytes_per_frame ?r) = 6"
    by (simp_all add: rb_resize_def ringbuffer_init_def rb_ok_def)
  have "\<not> (57600 :: nat) dvd 2 ^ 32 * 6" by (simp add: dvd_eq_mod_eq_0)
  with ringbuffer_wrap_continuity [of ?r] show ?thesis by (simp only: r) simp
qed

text \<open>
  Without the bound on the byte offset the 32-bit product wraps and other bytes are cleared:
  at 6 bytes per frame and next timestamp \<open>2 ^ 30\<close> the frame to clear keeps its data and bytes before it
  are erased.
\<close>

theorem clear_until_offset_overflow:
  "clear_until \<lparr>bytes_per_frame = 6, next_ts = 2 ^ 30, rbuffer = replicate 18 1, ground_value = 0\<rparr> (2 ^ 30 + 1)
    = Some (True, \<lparr>bytes_per_frame = 6, next_ts = 2 ^ 30 + 1,
        rbuffer = [1, 1, 0, 0, 0, 0, 0, 0, 1, 1, 1, 1, 1, 1, 1, 1, 1, 1], ground_value = 0\<rparr>) \<and>
   byte_pos \<lparr>bytes_per_frame = 6, next_ts = 2 ^ 30, rbuffer = replicate 18 1, ground_value = 0\<rparr> (2 ^ 30) mod 18 = 6"
proof -
  have newer: "\<not> wrapping_ge (2 ^ 30) (2 ^ 30 + 1 :: u32)"
    by (simp add: wrapping_ge_def wrapping_gt_def wrapping_le_def wrapping_lt_def is_older_than_def)
  have "(2 ^ 30 * 6 :: u32) = 2147483648" and "wrapping_sub (2 ^ 30 + 1) (2 ^ 30) * 6 = (6 :: u32)"
    by (simp_all add: wrapping_sub_def)
  moreover have "position_update 2147483648 18 6 = Some \<lparr>index1 = 2, size1 = 6, size2 = 0\<rparr>"
    by (simp add: position_update_def)
  moreover have "fill_in (replicate 18 1) \<lparr>index1 = 2, size1 = 6, size2 = 0\<rparr> 0
      = Some [1, 1, 0, 0, 0, 0, 0, 0, 1, 1, 1, 1, 1, 1, 1, 1, 1, 1]"
    by code_simp
  ultimately show ?thesis
    using newer by (simp add: clear_until_def byte_pos_def)
qed

end
