(* ===== verification/Packet_Stats.thy ===== *)
theory Packet_Stats
  imports Wrapping "HOL-Library.Multiset"
begin

text \<open>
  rtp/detail/rtp_packet_stats.hpp: the counters of out of order, duplicate, dropped and late RTP
  packets. The specification speaks of unwrapped sequence numbers: as long as every packet arrives
  within half the 16-bit range of the newest one, the counters are the numbers of sequence numbers
  missing, received late, and received again. The \<open>jitter\<close> field, a double this class never touches,
  is left out.
\<close>

section \<open>State and operations\<close>

record counters =
  out_of_order :: u32
  duplicates :: u32
  dropped :: u32
  too_late :: u32

record packet_stats =
  most_recent :: "u16 option"
  totals :: counters
  dirty :: bool
  dropped_packets :: "u16 list"

definition counters_init :: counters where
  "counters_init = \<lparr>out_of_order = 0, duplicates = 0, dropped = 0, too_late = 0\<rparr>"

definition packet_stats_init :: packet_stats where
  "packet_stats_init = \<lparr>most_recent = None, totals = counters_init, dirty = False, dropped_packets = []\<rparr>"

definition counters_add :: "counters \<Rightarrow> counters \<Rightarrow> counters" where
  "counters_add a b =
     a\<lparr>out_of_order := out_of_order a + out_of_order b, too_late := too_late a + too_late b,
       duplicates := duplicates a + duplicates b, dropped := dropped a + dropped b\<rparr>"

text \<open>The first match is overwritten with the last element, which is popped.\<close>

fun index_of :: "'a \<Rightarrow> 'a list \<Rightarrow> nat option" where
  "index_of v [] = None"
| "index_of v (x # xs) = (if x = v then Some 0 else map_option Suc (index_of v xs))"

definition remove_dropped :: "u16 list \<Rightarrow> u16 \<Rightarrow> bool \<times> u16 list" where
  "remove_dropped ds v =
     (case index_of v ds of None \<Rightarrow> (False, ds) | Some i \<Rightarrow> (True, butlast (ds[i := last ds])))"

definition clear_outdated :: "u16 \<Rightarrow> u16 list \<Rightarrow> u16 list" where
  "clear_outdated newest ds = filter (\<lambda>d. \<not> wrapping_gt d newest) ds"

text \<open>\<open>for (uint16_t i = 1; i < *diff; i++)\<close>\<close>

definition count_dropped :: "u16 \<Rightarrow> u16 \<Rightarrow> packet_stats \<Rightarrow> packet_stats" where
  "count_dropped v d s = fold (\<lambda>i s. s\<lparr>totals := (totals s)\<lparr>dropped := dropped (totals s) + 1\<rparr>,
     dropped_packets := dropped_packets s @ [v - of_nat i], dirty := True\<rparr>) [1..<unat d] s"

definition stats_update :: "packet_stats \<Rightarrow> u16 \<Rightarrow> counters option \<times> packet_stats" where
  "stats_update s v =
     (case most_recent s of
        None \<Rightarrow> (None, s\<lparr>most_recent := Some v\<rparr>)
      | Some newest \<Rightarrow>
          if wrapping_le v newest then
            let (found, ds) = remove_dropped (dropped_packets s) v;
                t = (if found
                     then (totals s)\<lparr>dropped := dropped (totals s) - 1, out_of_order := out_of_order (totals s) + 1\<rparr>
                     else (totals s)\<lparr>duplicates := duplicates (totals s) + 1\<rparr>)
            in (Some t, s\<lparr>dropped_packets := ds, totals := t, dirty := False\<rparr>)
          else
            case wrapping_update newest v of
              (Some d, newest') \<Rightarrow>
                let s1 = s\<lparr>most_recent := Some newest', dropped_packets := clear_outdated newest' (dropped_packets s)\<rparr>;
                    s2 = count_dropped v d s1
                in if dirty s2 then (Some (totals s2), s2\<lparr>dirty := False\<rparr>)
                   else (None, s2\<lparr>dirty := False\<rparr>)
            | (None, newest') \<Rightarrow>
                if dirty s then (Some (totals s), s\<lparr>dirty := False\<rparr>) else (None, s\<lparr>dirty := False\<rparr>))"

definition mark_packet_too_late :: "packet_stats \<Rightarrow> u16 \<Rightarrow> packet_stats" where
  "mark_packet_too_late s v =
     (case most_recent s of
        None \<Rightarrow> s
      | Some newest \<Rightarrow>
          if wrapping_gt v newest then s
          else s\<lparr>totals := (totals s)\<lparr>too_late := too_late (totals s) + 1\<rparr>, dirty := True\<rparr>)"

definition stats_reset :: "packet_stats \<Rightarrow> packet_stats" where
  "stats_reset s = s\<lparr>most_recent := None, totals := counters_init\<rparr>"

definition run_stats :: "packet_stats \<Rightarrow> u16 list \<Rightarrow> packet_stats" where
  "run_stats s vs = fold (\<lambda>v s. snd (stats_update s v)) vs s"

section \<open>Specification on unwrapped sequence numbers\<close>

text \<open>Every number is within half the 16-bit range of the newest one before it.\<close>

fun seq_window :: "nat \<Rightarrow> nat list \<Rightarrow> bool" where
  "seq_window newest [] = True"
| "seq_window newest (x # xs) =
     (x < newest + 2 ^ 15 \<and> newest < x + 2 ^ 15 \<and> seq_window (max newest x) xs)"

text \<open>Packets that were the newest when they arrived.\<close>

fun advances :: "nat \<Rightarrow> nat list \<Rightarrow> nat" where
  "advances m [] = 0"
| "advances m (x # xs) = (if m < x then Suc (advances x xs) else advances m xs)"

text \<open>The numbers after the first packet that have not been received, and those still remembered.\<close>

definition missing :: "nat \<Rightarrow> nat \<Rightarrow> nat set \<Rightarrow> nat set" where
  "missing first newest received = {x. first < x \<and> x < newest \<and> x \<notin> received}"

definition remembered :: "nat \<Rightarrow> nat \<Rightarrow> nat set \<Rightarrow> nat set" where
  "remembered first newest received = {x \<in> missing first newest received. newest < x + 2 ^ 15}"

definition tracks :: "nat \<Rightarrow> nat \<Rightarrow> nat set \<Rightarrow> packet_stats \<Rightarrow> bool" where
  "tracks first newest received s \<longleftrightarrow>
     most_recent s = Some (of_nat newest) \<and> first \<le> newest \<and> newest \<in> insert first received \<and>
     received \<subseteq> {..newest} \<and> finite received \<and>
     (\<exists>xs. dropped_packets s = map of_nat xs \<and> distinct xs \<and> set xs = remembered first newest received) \<and>
     dropped (totals s) = of_nat (card (missing first newest received))"

lemma finite_missing [simp]: "finite (missing first newest received)"
  by (rule finite_subset [of _ "{..newest}"]) (auto simp: missing_def)

section \<open>The list of dropped packets\<close>

lemma index_of_None: "index_of v xs = None \<longleftrightarrow> v \<notin> set xs"
  by (induction xs) auto

lemma index_of_Some: "index_of v xs = Some i \<Longrightarrow> i < length xs \<and> xs ! i = v"
  by (induction xs arbitrary: i) (auto split: if_splits)

lemma swap_remove_mset:
  assumes "i < length xs"
  shows "mset (butlast (xs[i := last xs])) = mset xs - {#xs ! i#}"
proof -
  have ne: "xs \<noteq> []" using assms by auto
  let ?ys = "xs[i := last xs]"
  have l: "last ?ys = last xs"
    using ne assms by (auto simp: last_conv_nth nth_list_update)
  have "mset ?ys = add_mset (last xs) (mset xs - {#xs ! i#})"
    using assms by (simp add: mset_update)
  moreover have "mset ?ys = add_mset (last ?ys) (mset (butlast ?ys))"
    using ne append_butlast_last_id [of ?ys] by (metis list_update_nonempty mset_append
        union_mset_add_mset_right mset.simps add.right_neutral)
  ultimately show ?thesis using l by simp
qed

lemma of_nat_inj_window:
  assumes "x < y + 2 ^ 16" and "y < x + 2 ^ 16" and "(of_nat x :: u16) = of_nat y"
  shows "x = y"
proof -
  have aux: "a = b" if "a \<le> b" "b < a + 2 ^ 16" "(of_nat a :: u16) = of_nat b" for a b
  proof -
    have "unat (of_nat b - of_nat a :: u16) = b - a"
      using that(1,2) by (intro unat_diff_of_nat) simp_all
    moreover have "of_nat b - of_nat a = (0 :: u16)" by (simp only: that(3) diff_self)
    ultimately have "b - a = 0" by (simp only: unat_0)
    then show ?thesis using that(1) by simp
  qed
  show ?thesis using assms aux [of x y] aux [of y x] by (cases "x \<le> y") auto
qed

lemma index_of_map:
  "(\<And>e. e \<in> set xs \<Longrightarrow> f e = f x \<Longrightarrow> e = x) \<Longrightarrow> index_of (f x) (map f xs) = index_of x xs"
  by (induction xs) auto

lemma remove_dropped_spec:
  assumes "distinct xs" and inj: "\<And>e. e \<in> set xs \<Longrightarrow> (of_nat e :: u16) = of_nat x \<Longrightarrow> e = x"
  obtains ys where "remove_dropped (map of_nat xs) (of_nat x) = (x \<in> set xs, map of_nat ys)"
    and "distinct ys" and "set ys = set xs - {x}"
proof (cases "index_of x xs")
  case None
  then have "x \<notin> set xs" by (simp add: index_of_None)
  moreover have "remove_dropped (map of_nat xs) (of_nat x) = (False, map of_nat xs)"
    using None inj by (simp add: remove_dropped_def index_of_map)
  ultimately show thesis using assms(1) that [of xs] by simp
next
  case (Some i)
  note i = index_of_Some [OF Some]
  let ?ys = "butlast (xs[i := last xs])"
  have m: "mset ?ys = mset xs - {#x#}" using swap_remove_mset [of i xs] i by simp
  have set: "set ?ys = set_mset (mset xs - {#x#})" by (simp only: m [symmetric] set_mset_mset)
  have x: "x \<in> set xs" using i by auto
  have "add_mset x (mset ?ys) = mset xs" using m x by simp
  then have "distinct (x # ?ys)" using assms(1) mset_eq_imp_distinct_iff [of "x # ?ys" xs] by simp
  moreover have "set (x # ?ys) = set xs"
    using \<open>add_mset x (mset ?ys) = mset xs\<close> mset_eq_setD [of "x # ?ys" xs] by simp
  moreover have "remove_dropped (map of_nat xs) (of_nat x) = (True, map of_nat ?ys)"
  proof -
    have ne: "xs \<noteq> []" using x by auto
    have "butlast ((map of_nat xs)[i := last (map of_nat xs)]) = map of_nat ?ys"
      by (simp only: last_map [OF ne] map_update [symmetric] map_butlast)
    moreover have "index_of (of_nat x) (map of_nat xs :: u16 list) = Some i"
      using Some inj by (simp add: index_of_map)
    ultimately show ?thesis using x by (simp add: remove_dropped_def)
  qed
  ultimately show thesis using x that [of ?ys] by auto
qed

lemma count_dropped_eq:
  "count_dropped v d s = s\<lparr>totals := (totals s)\<lparr>dropped := dropped (totals s) + of_nat (unat d - 1)\<rparr>,
     dropped_packets := dropped_packets s @ map (\<lambda>i. v - of_nat i) [1..<unat d],
     dirty := dirty s \<or> 1 < unat d\<rparr>"
proof -
  have "fold (\<lambda>i s. s\<lparr>totals := (totals s)\<lparr>dropped := dropped (totals s) + 1\<rparr>,
      dropped_packets := dropped_packets s @ [v - of_nat i], dirty := True\<rparr>) is s
    = s\<lparr>totals := (totals s)\<lparr>dropped := dropped (totals s) + of_nat (length is)\<rparr>,
     dropped_packets := dropped_packets s @ map (\<lambda>i. v - of_nat i) is,
     dirty := dirty s \<or> is \<noteq> []\<rparr>" for "is"
    by (induction "is" arbitrary: s) simp_all
  moreover have "[1..<unat d] \<noteq> [] \<longleftrightarrow> 1 < unat d" by auto
  ultimately show ?thesis unfolding count_dropped_def by (simp only: length_upt)
qed

section \<open>One packet\<close>

lemma wrapping_le_window:
  "x < newest + 2 ^ 15 \<Longrightarrow> newest < x + 2 ^ 15 \<Longrightarrow>
   wrapping_le (of_nat x :: u16) (of_nat newest) \<longleftrightarrow> x \<le> newest"
  using seq16.older_iff [of x newest] of_nat_inj_window [of x newest]
  by (auto simp: wrapping_le_def wrapping_lt_def)

lemma update_old:
  assumes tr: "tracks first newest received s" and win: "x \<le> newest" "newest < x + 2 ^ 15"
  defines "s' \<equiv> snd (stats_update s (of_nat x))"
  shows "tracks first newest (insert x received) s'"
    and "out_of_order (totals s') = out_of_order (totals s) + (if x \<in> missing first newest received then 1 else 0)"
    and "duplicates (totals s') = duplicates (totals s) + (if x \<in> missing first newest received then 0 else 1)"
proof -
  obtain xs where xs: "dropped_packets s = map of_nat xs" "distinct xs" "set xs = remembered first newest received"
    using tr by (auto simp: tracks_def)
  have mr: "most_recent s = Some (of_nat newest)"
    and dr: "dropped (totals s) = of_nat (card (missing first newest received))"
    using tr by (simp_all add: tracks_def)
  have le: "wrapping_le (of_nat x :: u16) (of_nat newest)"
    using win by (simp add: wrapping_le_window)
  have "e = x" if "e \<in> set xs" "(of_nat e :: u16) = of_nat x" for e
    by (rule of_nat_inj_window [OF _ _ that(2)])
       (use that(1) win in \<open>auto simp: xs(3) remembered_def missing_def\<close>)
  then obtain ys where ys: "remove_dropped (map of_nat xs) (of_nat x) = (x \<in> set xs, map of_nat ys)"
    "distinct ys" "set ys = set xs - {x}"
    using remove_dropped_spec [OF xs(2)] by metis
  have here: "x \<in> set xs \<longleftrightarrow> x \<in> missing first newest received"
    using win by (simp add: xs(3) remembered_def)
  have s': "s' = s\<lparr>dropped_packets := map of_nat ys, totals :=
      (if x \<in> missing first newest received
       then (totals s)\<lparr>dropped := dropped (totals s) - 1, out_of_order := out_of_order (totals s) + 1\<rparr>
       else (totals s)\<lparr>duplicates := duplicates (totals s) + 1\<rparr>), dirty := False\<rparr>"
    using mr le ys(1) xs(1) here by (simp add: s'_def stats_update_def Let_def)
  have mis: "missing first newest (insert x received) = missing first newest received - {x}"
    by (auto simp: missing_def)
  then have rem: "set ys = remembered first newest (insert x received)"
    by (auto simp: ys(3) xs(3) remembered_def)
  have "dropped (totals s') = of_nat (card (missing first newest (insert x received)))"
  proof (cases "x \<in> missing first newest received")
    case True
    then have "card (missing first newest received) = Suc (card (missing first newest received - {x}))"
      by (intro card.remove) simp_all
    then show ?thesis using True dr by (simp add: s' mis)
  next
    case False
    then show ?thesis using dr by (simp add: s' mis)
  qed
  then show "tracks first newest (insert x received) s'"
    using tr win ys(2) rem unfolding tracks_def by (auto simp: s')
  show "out_of_order (totals s') = out_of_order (totals s) + (if x \<in> missing first newest received then 1 else 0)"
    and "duplicates (totals s') = duplicates (totals s) + (if x \<in> missing first newest received then 0 else 1)"
    by (simp_all add: s')
qed

lemma update_new:
  assumes tr: "tracks first newest received s" and win: "newest < x" "x < newest + 2 ^ 15"
  defines "s' \<equiv> snd (stats_update s (of_nat x))"
  shows "tracks first x (insert x received) s'"
    and "out_of_order (totals s') = out_of_order (totals s)"
    and "duplicates (totals s') = duplicates (totals s)"
proof -
  obtain xs where xs: "dropped_packets s = map of_nat xs" "distinct xs" "set xs = remembered first newest received"
    using tr by (auto simp: tracks_def)
  have mr: "most_recent s = Some (of_nat newest)" and le: "first \<le> newest" and sub: "received \<subseteq> {..newest}"
    and dr: "dropped (totals s) = of_nat (card (missing first newest received))"
    and mem: "newest \<in> insert first received"
    using tr by (simp_all add: tracks_def)
  have nle: "\<not> wrapping_le (of_nat x :: u16) (of_nat newest)"
    using win by (simp add: wrapping_le_window)
  have old: "\<not> is_older_than (of_nat x :: u16) (of_nat newest)"
    using seq16.older_iff [of x newest] win by simp
  let ?d = "of_nat x - of_nat newest :: u16"
  have d: "unat ?d = x - newest" using seq16.dist_eq [of newest x] win by simp
  have older: "\<not> wrapping_gt (of_nat e :: u16) (of_nat x) \<longleftrightarrow> x < e + 2 ^ 15" if "e \<in> set xs" for e
  proof -
    have e: "e < newest" "newest < e + 2 ^ 15" using that by (auto simp: xs(3) remembered_def missing_def)
    have "unat (of_nat x - of_nat e :: u16) = x - e" using e win by (intro unat_diff_of_nat) simp_all
    moreover have "(of_nat e :: u16) \<noteq> of_nat x" using of_nat_inj_window [of e x] e win by auto
    ultimately show ?thesis
      using e win by (auto simp: wrapping_gt_def wrapping_le_def wrapping_lt_def is_older_than_iff)
  qed
  let ?ys = "filter (\<lambda>e. x < e + 2 ^ 15) xs @ map (\<lambda>i. x - i) [1..<x - newest]"
  have clear: "clear_outdated (of_nat x) (map of_nat xs) = map of_nat (filter (\<lambda>e. x < e + 2 ^ 15) xs)"
    unfolding clear_outdated_def filter_map comp_def using older by (metis (mono_tags, lifting) filter_cong)
  have pushed: "map (\<lambda>i. of_nat x - of_nat i :: u16) [1..<x - newest] = map of_nat (map (\<lambda>i. x - i) [1..<x - newest])"
    using win by (auto simp: of_nat_diff)
  have s': "s' = (count_dropped (of_nat x) ?d (s\<lparr>most_recent := Some (of_nat x),
      dropped_packets := clear_outdated (of_nat x) (dropped_packets s)\<rparr>))\<lparr>dirty := False\<rparr>"
    using mr nle old by (simp add: s'_def stats_update_def wrapping_update_def Let_def)
  then have s'_eq: "s' = s\<lparr>most_recent := Some (of_nat x), totals := (totals s)\<lparr>dropped := dropped (totals s)
      + of_nat (x - newest - 1)\<rparr>, dropped_packets := map of_nat ?ys, dirty := False\<rparr>"
  proof -
    have "map of_nat ?ys = map of_nat (filter (\<lambda>e. x < e + 2 ^ 15) xs)
        @ map (\<lambda>i. of_nat x - of_nat i :: u16) [1..<x - newest]"
      by (simp only: map_append pushed)
    then show ?thesis unfolding s' xs(1) clear count_dropped_eq d by simp
  qed
  have gap_list: "set (map (\<lambda>i. x - i) [1..<x - newest]) = {newest<..<x}"
  proof (intro equalityI subsetI)
    fix e assume "e \<in> {newest<..<x}"
    then have "x - e \<in> {1..<x - newest}" "e = x - (x - e)" by auto
    then show "e \<in> set (map (\<lambda>i. x - i) [1..<x - newest])" by (metis imageI set_map set_upt)
  qed auto
  have "inj_on (\<lambda>i. x - i) {1..<x - newest}" by (rule inj_onI) (simp, linarith)
  then have "distinct (map (\<lambda>i. x - i) [1..<x - newest])" by (simp add: distinct_map)
  moreover have "set xs \<inter> {newest<..<x} = {}" by (auto simp: xs(3) remembered_def missing_def)
  ultimately have distinct: "distinct ?ys"
    using xs(2) unfolding distinct_append gap_list by auto
  have gap: "missing first x (insert x received) = missing first newest received \<union> {newest<..<x}"
    using le sub mem win by (auto simp: missing_def) (metis linorder_cases)
  have set: "set ?ys = remembered first x (insert x received)"
    unfolding set_append gap_list using win by (auto simp: xs(3) remembered_def gap)
  have "card (missing first newest received \<union> {newest<..<x}) = card (missing first newest received) + (x - newest - 1)"
    by (subst card_Un_disjoint) (auto simp: missing_def)
  then have "dropped (totals s') = of_nat (card (missing first x (insert x received)))"
    using dr by (simp add: s'_eq gap)
  then show "tracks first x (insert x received) s'"
    using tr win distinct set unfolding tracks_def by (auto simp: s'_eq simp del: map_append set_append distinct_append)
  show "out_of_order (totals s') = out_of_order (totals s)" and "duplicates (totals s') = duplicates (totals s)"
    by (simp_all add: s'_eq)
qed

section \<open>A run of packets\<close>

text \<open>The distinct numbers received after the first packet.\<close>

definition received_after :: "nat \<Rightarrow> nat set \<Rightarrow> nat" where
  "received_after first received = card (received \<inter> {first<..})"

lemma received_after_insert:
  assumes "tracks first newest received s" and "newest < x \<or> x \<in> missing first newest received"
  shows "received_after first (insert x received) = Suc (received_after first received)"
proof -
  have "received \<subseteq> {..newest}" "first \<le> newest" "finite received" using assms(1) by (auto simp: tracks_def)
  then have "x \<notin> received" "first < x" using assms(2) by (auto simp: missing_def)
  then have "insert x received \<inter> {first<..} = insert x (received \<inter> {first<..})" by auto
  then show ?thesis using \<open>finite received\<close> \<open>x \<notin> received\<close> by (simp add: received_after_def)
qed

lemma received_after_again:
  assumes "tracks first newest received s" and "x \<le> newest" and "x \<notin> missing first newest received"
  shows "received_after first (insert x received) = received_after first received"
proof -
  have "newest \<in> insert first received" using assms(1) by (auto simp: tracks_def)
  then have "insert x received \<inter> {first<..} = received \<inter> {first<..}"
    using assms(2,3) by (auto simp: missing_def)
  then show ?thesis by (simp add: received_after_def)
qed

lemma run_stats_tracks:
  assumes "tracks first newest received s" and "seq_window newest ns"
  defines "s' \<equiv> run_stats s (map of_nat ns)"
  shows "tracks first (fold max ns newest) (received \<union> set ns) s' \<and>
    duplicates (totals s') + of_nat (received_after first (received \<union> set ns))
      = duplicates (totals s) + of_nat (received_after first received + length ns) \<and>
    out_of_order (totals s') + of_nat (received_after first received + advances newest ns)
      = out_of_order (totals s) + of_nat (received_after first (received \<union> set ns))"
  using assms(1,2) unfolding s'_def
proof (induction ns arbitrary: newest received s)
  case Nil
  then show ?case by (simp add: run_stats_def)
next
  case (Cons x ns)
  let ?s = "snd (stats_update s (of_nat x))"
  have run: "run_stats s (map of_nat (x # ns)) = run_stats ?s (map of_nat ns)"
    by (simp add: run_stats_def)
  have sets: "insert x received \<union> set ns = received \<union> set (x # ns)" by simp
  have win: "x < newest + 2 ^ 15" "newest < x + 2 ^ 15" "seq_window (max newest x) ns"
    using Cons.prems(2) by simp_all
  show ?case
  proof (cases "newest < x")
    case True
    note up = update_new [OF Cons.prems(1) True win(1)]
    have "seq_window x ns" using win(3) True by (simp add: max_def)
    from Cons.IH [OF up(1) this] show ?thesis
      using True received_after_insert [OF Cons.prems(1), of x] up(2,3)
      unfolding run sets by (simp add: max_def algebra_simps)
  next
    case False
    then have le: "x \<le> newest" by simp
    note up = update_old [OF Cons.prems(1) le win(2)]
    have "seq_window newest ns" using win(3) False by (simp add: max_def)
    note IH = Cons.IH [OF up(1) this]
    have mx: "max x newest = newest" using False by simp
    show ?thesis
    proof (cases "x \<in> missing first newest received")
      case True
      with IH show ?thesis
        using False mx received_after_insert [OF Cons.prems(1), of x] up(2,3)
        unfolding run sets by (simp add: algebra_simps)
    next
      case False
      with IH show ?thesis
        using \<open>\<not> newest < x\<close> mx received_after_again [OF Cons.prems(1) le] up(2,3)
        unfolding run sets by (simp add: algebra_simps)
    qed
  qed
qed

lemma tracks_first: "tracks n n {} (run_stats packet_stats_init [of_nat n])"
proof -
  have none: "missing n n {} = {}" by (auto simp: missing_def)
  then have "remembered n n {} = {}" by (simp add: remembered_def)
  with none show ?thesis
    by (simp add: run_stats_def stats_update_def packet_stats_init_def counters_init_def tracks_def)
qed

section \<open>Properties\<close>

text \<open>
  C22: when every packet arrives within half the sequence range of the newest one, then after any
  sequence of packets the counters (modulo \<open>2^32\<close>) are exact: \<open>dropped\<close> is the number of sequence
  numbers between the first and the newest that never arrived, \<open>duplicates\<close> the packets that repeated
  a number or predate the first, and \<open>out_of_order\<close> the numbers that arrived late.
\<close>

theorem packet_stats_exact:
  assumes "seq_window n ns"
  defines "t \<equiv> totals (run_stats packet_stats_init (map of_nat (n # ns)))"
  shows "dropped t = of_nat (card ({n<..<fold max ns n} - set ns)) \<and>
    duplicates t = of_nat (length ns) - of_nat (card (set ns \<inter> {n<..})) \<and>
    out_of_order t = of_nat (card (set ns \<inter> {n<..})) - of_nat (advances n ns)"
proof -
  let ?s = "run_stats packet_stats_init [of_nat n]"
  have zero: "duplicates (totals ?s) = 0" "out_of_order (totals ?s) = 0"
    by (simp_all add: run_stats_def stats_update_def packet_stats_init_def counters_init_def)
  have run: "run_stats packet_stats_init (map of_nat (n # ns)) = run_stats ?s (map of_nat ns)"
    by (simp add: run_stats_def)
  note r = run_stats_tracks [OF tracks_first assms(1), folded run, folded t_def]
  have "missing n (fold max ns n) ({} \<union> set ns) = {n<..<fold max ns n} - set ns"
    by (auto simp: missing_def)
  with r have "dropped t = of_nat (card ({n<..<fold max ns n} - set ns))"
    by (simp add: tracks_def t_def)
  with r show ?thesis by (simp add: zero received_after_def eq_diff_eq)
qed

text \<open>Numbers 65533 to 65541 with a wrap: 65535 arrives late, 65536 twice, 65538 and 65540 never.\<close>

theorem packet_stats_exact_witness:
  "let t = totals (run_stats packet_stats_init
      (map of_nat [65533, 65534, 65536, 65535, 65536, 65537, 65539, 65541]))
   in dropped t = 2 \<and> duplicates t = 1 \<and> out_of_order t = 1"
proof -
  have "seq_window 65533 [65534, 65536, 65535, 65536, 65537, 65539, 65541]" by simp
  note exact = packet_stats_exact [OF this]
  have "{65533<..<65541} - set [65534, 65536, 65535, 65536, 65537, 65539, 65541] = {65538, 65540 :: nat}"
    by auto
  moreover have "set [65534, 65536, 65535, 65536, 65537, 65539, 65541] \<inter> {65533<..}
      = {65534, 65535, 65536, 65537, 65539, 65541 :: nat}"
    by auto
  moreover have "fold max [65534, 65536, 65535, 65536, 65537, 65539, 65541] 65533 = (65541 :: nat)"
    and "advances 65533 [65534, 65536, 65535, 65536, 65537, 65539, 65541] = 5"
    by simp_all
  ultimately show ?thesis using exact by (simp only: Let_def) simp
qed

text \<open>
  \<open>reset\<close> keeps the list of dropped packets, so a packet of the new stream whose number
  is in the old list decrements \<open>dropped\<close> from 0 to \<open>2^32 - 1\<close> and counts as out of order.
\<close>

theorem stats_reset_underflow:
  assumes "v \<in> set (dropped_packets s)" and "wrapping_lt v w"
  defines "t \<equiv> totals (run_stats (stats_reset s) [w, v])"
  shows "dropped t = - 1 \<and> out_of_order t = 1"
proof -
  obtain i where i: "index_of v (dropped_packets s) = Some i"
    using assms(1) index_of_None [of v "dropped_packets s"] by (cases "index_of v (dropped_packets s)") auto
  then show ?thesis using assms(2)
    by (simp add: t_def run_stats_def stats_update_def stats_reset_def counters_init_def remove_dropped_def
        wrapping_le_def Let_def)
qed

theorem stats_reset_underflow_witness:
  "dropped (totals (run_stats (stats_reset (run_stats packet_stats_init [10, 13])) [100, 12])) = - 1"
proof -
  have "12 \<in> set (dropped_packets (run_stats packet_stats_init [10, 13]))"
    by (simp add: run_stats_def stats_update_def packet_stats_init_def counters_init_def Let_def
        wrapping_le_def wrapping_lt_def is_older_than_def wrapping_update_def count_dropped_eq
        clear_outdated_def upt_rec)
  moreover have "wrapping_lt 12 (100 :: u16)" by (simp add: wrapping_lt_def is_older_than_def)
  ultimately show ?thesis using stats_reset_underflow by blast
qed

end
