(* ===== verification/Ptp_Time.thy ===== *)
theory Ptp_Time
  imports Wrapping
begin

text \<open>
  ptp/types/ptp_time_interval.hpp and ptp/types/ptp_timestamp.hpp. An interval holds seconds and the
  rest of a second in units of \<open>2^-16\<close> ns; a timestamp unsigned seconds and nanoseconds. The abstract
  value of either is one integer, and the operators are shown to be the arithmetic on it wherever no
  64-bit operation overflows (signed overflow is undefined and gives \<open>None\<close>). The conversions to and
  from \<open>double\<close> and to strings are not modelled.
\<close>

section \<open>Signed 64-bit arithmetic\<close>

definition i64_min :: int where "i64_min = - (2 ^ 63)"
definition i64_max :: int where "i64_max = 2 ^ 63 - 1"

definition in_i64 :: "int \<Rightarrow> bool" where
  "in_i64 v \<longleftrightarrow> i64_min \<le> v \<and> v \<le> i64_max"

definition i64 :: "int \<Rightarrow> int option" where
  "i64 v = (if in_i64 v then Some v else None)"

text \<open>\<open>/\<close> and \<open>%\<close>: undefined for divisor 0 and for the quotient that does not fit.\<close>

definition i64_div :: "int \<Rightarrow> int \<Rightarrow> int option" where
  "i64_div a b = (if b = 0 then None else i64 (a sdiv b))"

definition i64_mod :: "int \<Rightarrow> int \<Rightarrow> int option" where
  "i64_mod a b = (if b = 0 \<or> \<not> in_i64 (a sdiv b) then None else Some (a smod b))"

lemma i64_Some [simp]: "in_i64 v \<Longrightarrow> i64 v = Some v"
  by (simp add: i64_def)

lemma i64_None [simp]: "\<not> in_i64 v \<Longrightarrow> i64 v = None"
  by (simp add: i64_def)

lemma in_i64_iff: "in_i64 v \<longleftrightarrow> - 9223372036854775808 \<le> v \<and> v \<le> 9223372036854775807"
  by (simp add: in_i64_def i64_min_def i64_max_def)

lemma in_i64_abs: "\<bar>v\<bar> \<le> 9223372036854775807 \<Longrightarrow> in_i64 v"
  by (simp add: in_i64_iff abs_le_iff)

section \<open>TimeInterval\<close>

record time_interval =
  ti_seconds :: int
  ti_nanos :: int

definition frac_scale :: int where "frac_scale = 0x10000"
definition second_units :: int where "second_units = 1000000000 * frac_scale"

definition ti_zero :: time_interval where
  "ti_zero = \<lparr>ti_seconds = 0, ti_nanos = 0\<rparr>"

definition ti_normalize :: "time_interval \<Rightarrow> time_interval option" where
  "ti_normalize t =
     (let n = ti_nanos t in
      if n \<ge> second_units then do {
        q \<leftarrow> i64_div n 1000000000;
        carry \<leftarrow> i64_div q frac_scale;
        s \<leftarrow> i64 (ti_seconds t + carry);
        a \<leftarrow> i64 (carry * frac_scale);
        b \<leftarrow> i64 (a * 1000000000);
        n' \<leftarrow> i64 (n - b);
        Some \<lparr>ti_seconds = s, ti_nanos = n'\<rparr> }
      else if n < 0 then do {
        q \<leftarrow> i64_div n 1000000000;
        q' \<leftarrow> i64_div q frac_scale;
        remainder \<leftarrow> i64_mod n second_units;
        borrow \<leftarrow> i64 (if remainder \<noteq> 0 then \<bar>q'\<bar> + 1 else \<bar>q'\<bar>);
        s \<leftarrow> i64 (ti_seconds t - borrow);
        a \<leftarrow> i64 (borrow * frac_scale);
        b \<leftarrow> i64 (a * 1000000000);
        n' \<leftarrow> i64 (n + b);
        Some \<lparr>ti_seconds = s, ti_nanos = n'\<rparr> }
      else Some t)"

text \<open>The constructor: \<open>int64_t\<close> seconds, \<open>int32_t\<close> nanoseconds, \<open>uint16_t\<close> fraction.\<close>

definition ti_make :: "int \<Rightarrow> int \<Rightarrow> u16 \<Rightarrow> time_interval option" where
  "ti_make s n f = do {
     m \<leftarrow> i64 (n * frac_scale + uint f);
     ti_normalize \<lparr>ti_seconds = s, ti_nanos = m\<rparr> }"

definition ti_nanos_part :: "time_interval \<Rightarrow> int" where
  "ti_nanos_part t = ti_nanos t sdiv frac_scale"

definition ti_fraction :: "time_interval \<Rightarrow> u16" where
  "ti_fraction t = word_of_int (ti_nanos t smod frac_scale)"

definition ti_total_nanos :: "time_interval \<Rightarrow> int option" where
  "ti_total_nanos t = do {
     a \<leftarrow> i64 (ti_seconds t * 1000000000);
     i64 (a + ti_nanos t sdiv frac_scale) }"

definition ti_nanos_rounded :: "time_interval \<Rightarrow> int" where
  "ti_nanos_rounded t =
     (if uint (ti_fraction t) \<ge> frac_scale sdiv 2 then ti_nanos_part t + 1 else ti_nanos_part t)"

text \<open>\<open>>>\<close> on a negative \<open>int64_t\<close> is the arithmetic shift; \<open>& 0xffff\<close> keeps the low bits.\<close>

definition ti_from_wire :: "int \<Rightarrow> time_interval option" where
  "ti_from_wire value = do {
     seconds \<leftarrow> i64_div (value div 65536) 1000000000;
     p \<leftarrow> i64 (seconds * 1000000000);
     nanoseconds \<leftarrow> i64 (value div 65536 - p);
     ti_make seconds nanoseconds (word_of_int (value mod 65536)) }"

definition ti_to_wire :: "time_interval \<Rightarrow> int" where
  "ti_to_wire t =
     (case safe_step (safe_add i64_min i64_max)
        (safe_step (safe_mul i64_min i64_max) (safe_mul i64_min i64_max (ti_seconds t) 1000000000) frac_scale)
        (ti_nanos t) of
        Inr v \<Rightarrow> v
      | Inl Overflow \<Rightarrow> i64_max
      | Inl Underflow \<Rightarrow> i64_min
      | Inl Div_By_Zero \<Rightarrow> 0)"

definition ti_add :: "time_interval \<Rightarrow> time_interval \<Rightarrow> time_interval option" where
  "ti_add a b = do {
     s \<leftarrow> i64 (ti_seconds a + ti_seconds b);
     n \<leftarrow> i64 (ti_nanos a + ti_nanos b);
     ti_normalize \<lparr>ti_seconds = s, ti_nanos = n\<rparr> }"

definition ti_sub :: "time_interval \<Rightarrow> time_interval \<Rightarrow> time_interval option" where
  "ti_sub a b = do {
     s \<leftarrow> i64 (ti_seconds a - ti_seconds b);
     n \<leftarrow> i64 (ti_nanos a - ti_nanos b);
     ti_normalize \<lparr>ti_seconds = s, ti_nanos = n\<rparr> }"

definition ti_div :: "time_interval \<Rightarrow> int \<Rightarrow> time_interval option" where
  "ti_div t d = do {
     r \<leftarrow> i64_mod (ti_seconds t) d;
     a \<leftarrow> i64 (r * 1000000000);
     b \<leftarrow> i64 (a * frac_scale);
     m \<leftarrow> i64 (ti_nanos t + b);
     s \<leftarrow> i64_div (ti_seconds t) d;
     n \<leftarrow> i64_div m d;
     ti_normalize \<lparr>ti_seconds = s, ti_nanos = n\<rparr> }"

definition ti_mul :: "time_interval \<Rightarrow> int \<Rightarrow> time_interval option" where
  "ti_mul t k = do {
     s \<leftarrow> i64 (ti_seconds t * k);
     k' \<leftarrow> i64 \<bar>k\<bar>;
     fraction \<leftarrow> i64 (ti_nanos t mod 65536 * k');
     m \<leftarrow> i64 (ti_nanos t div 65536 * 65536 * k);
     n \<leftarrow> i64 (m + fraction);
     ti_normalize \<lparr>ti_seconds = s, ti_nanos = n\<rparr> }"

section \<open>Value\<close>

definition ti_value :: "time_interval \<Rightarrow> int" where
  "ti_value t = ti_seconds t * second_units + ti_nanos t"

definition ti_ok :: "time_interval \<Rightarrow> bool" where
  "ti_ok t \<longleftrightarrow> in_i64 (ti_seconds t) \<and> 0 \<le> ti_nanos t \<and> ti_nanos t < second_units"

lemmas units = second_units_def frac_scale_def

lemma ti_value_unique:
  "ti_ok a \<Longrightarrow> ti_seconds a = ti_value a div second_units \<and> ti_nanos a = ti_value a mod second_units"
  by (simp add: ti_ok_def ti_value_def units div_add1_eq [of "ti_seconds a * _"])

text \<open>Two normalised intervals are equal exactly when their values are (\<open>operator==\<close>).\<close>

lemma ti_eq_iff: "ti_ok a \<Longrightarrow> ti_ok b \<Longrightarrow> a = b \<longleftrightarrow> ti_value a = ti_value b"
  using ti_value_unique [of a] ti_value_unique [of b] by (auto intro: time_interval.equality)

text \<open>\<open>normalize\<close> keeps the value when the carried seconds fit.\<close>

lemma smod_neg_left: "n \<le> 0 \<Longrightarrow> 0 < b \<Longrightarrow> n smod b = - ((- n) mod b)" for n b :: int
  by (cases "n = 0") (simp_all add: signed_modulo_int_def)

text \<open>The borrow: the truncated quotient, one more when there is a remainder.\<close>

lemma borrow_eq:
  assumes "n < 0" and "0 < (K :: int)"
  shows "(if n smod K \<noteq> 0 then \<bar>n sdiv K\<bar> + 1 else \<bar>n sdiv K\<bar>) = - (n div K)"
proof -
  have "n div K = (if (- n) mod K = 0 then - ((- n) div K) else - ((- n) div K) - 1)"
    using zdiv_zminus1_eq_if [of K "- n"] assms(2) by simp
  moreover have "0 \<le> (- n) div K" using assms by (simp add: pos_imp_zdiv_nonneg_iff)
  ultimately show ?thesis using assms by (simp add: sdiv_neg_left smod_neg_left)
qed

lemma sdiv_sdiv: "0 < b \<Longrightarrow> 0 < c \<Longrightarrow> n sdiv b sdiv c = n sdiv (b * c)" for n b c :: int
  by (cases "0 \<le> n")
     (simp_all add: sdiv_pos sdiv_neg_left pos_imp_zdiv_nonneg_iff zdiv_zmult2_eq)

lemma div_bounds:
  assumes "0 < (K :: int)"
  shows "K * (n div K) \<le> n" and "n < K * (n div K) + K"
  using assms pos_mod_sign [of K n] pos_mod_bound [of K n] mult_div_mod_eq [of K n] by linarith+

lemma div_units_small:
  assumes "\<bar>n\<bar> < 2 ^ 62"
  shows "- 70369 \<le> n div second_units" and "n div second_units \<le> 70369"
  using assms div_bounds [of second_units n] by (auto simp: units)

lemma ti_normalize_ok:
  assumes n: "\<bar>ti_nanos t\<bar> < 2 ^ 62"
    and s: "in_i64 (ti_value t div second_units)" and s': "in_i64 (ti_seconds t)"
  obtains t' where "ti_normalize t = Some t'" and "ti_ok t'" and "ti_value t' = ti_value t"
proof -
  let ?n = "ti_nanos t" and ?K = second_units
  have K: "?K = 65536000000000" by (simp add: units)
  let ?t' = "\<lparr>ti_seconds = ti_value t div ?K, ti_nanos = ti_value t mod ?K\<rparr>"
  have ok: "ti_ok ?t'" using s by (simp add: ti_ok_def K)
  have val: "ti_value ?t' = ti_value t" unfolding ti_value_def [of ?t'] by simp
  have div: "ti_value t div ?K = ti_seconds t + ?n div ?K" "ti_value t mod ?K = ?n mod ?K"
    by (simp_all add: ti_value_def K)
  have md: "?n mod ?K = ?n - ?n div ?K * frac_scale * 1000000000"
    using minus_div_mult_eq_mod [of ?n ?K] by (simp add: units)
  have bounds: "?K * (?n div ?K) \<le> ?n" "?n < ?K * (?n div ?K) + ?K"
    by (rule div_bounds; simp add: K)+
  have n': "- 4611686018427387904 < ?n" "?n < 4611686018427387904" using n by auto
  have qb: "- 70369 \<le> ?n div ?K" "?n div ?K \<le> 70369"
    using bounds n' unfolding K by linarith+
  have q: "?n sdiv 1000000000 sdiv frac_scale = ?n sdiv ?K"
    by (simp add: sdiv_sdiv units)
  consider "?n \<ge> ?K" | "?n < 0" | "0 \<le> ?n" "?n < ?K" by linarith
  then show thesis
  proof cases
    case 1
    then have c: "?n sdiv ?K = ?n div ?K" by (intro sdiv_pos) (simp_all add: K)
    have "0 \<le> ?n div 1000000000" "?n div 1000000000 \<le> ?n"
      using 1 by (simp_all add: K pos_imp_zdiv_nonneg_iff int_div_less_self order_less_imp_le)
    then have "in_i64 (?n sdiv 1000000000)"
      using 1 n' by (simp add: sdiv_pos in_i64_iff K)
    moreover have "in_i64 (?n div ?K)" "in_i64 (?n div ?K * frac_scale)"
      "in_i64 (?n div ?K * frac_scale * 1000000000)" "in_i64 (?n mod ?K)"
      using qb by (auto simp: in_i64_iff frac_scale_def K intro: order_trans [OF _ pos_mod_sign])
    moreover have "?n - ?n div ?K * frac_scale * 1000000000 = ?n mod ?K"
      by (simp add: md)
    ultimately have "ti_normalize t = Some ?t'"
      using 1 s q c by (simp add: ti_normalize_def i64_div_def div frac_scale_def Let_def)
    then show thesis using that ok val by blast
  next
    case 2
    have c: "(if ?n smod ?K \<noteq> 0 then \<bar>?n sdiv ?K\<bar> + 1 else \<bar>?n sdiv ?K\<bar>) = - (?n div ?K)"
      by (rule borrow_eq [OF 2]) (simp add: K)
    have "0 \<le> (- ?n) div 1000000000" "(- ?n) div 1000000000 \<le> - ?n"
      using 2 by (simp_all add: pos_imp_zdiv_nonneg_iff int_div_less_self order_less_imp_le)
    then have "in_i64 (?n sdiv 1000000000)"
      using 2 n' by (simp add: sdiv_neg_left in_i64_iff)
    moreover have "\<bar>?n sdiv ?K\<bar> \<le> - (?n div ?K)" using c by (auto split: if_splits)
    then have "in_i64 (?n sdiv ?K)" using qb unfolding in_i64_iff by linarith
    moreover have "in_i64 (- (?n div ?K))" "in_i64 (- (?n div ?K) * frac_scale)"
      "in_i64 (- (?n div ?K) * frac_scale * 1000000000)" "in_i64 (?n mod ?K)"
      using qb by (auto simp: in_i64_iff frac_scale_def K intro: order_trans [OF _ pos_mod_sign])
    moreover have "?n + - (?n div ?K) * frac_scale * 1000000000 = ?n mod ?K"
      by (simp add: md)
    moreover have "\<not> ?n \<ge> ?K" using 2 by (simp add: K)
    ultimately have "ti_normalize t = Some ?t'"
      using 2 s q c unfolding ti_normalize_def i64_div_def i64_mod_def div frac_scale_def Let_def K
      by (simp add: div [unfolded K] split del: if_split)
    then show thesis using that ok val by blast
  next
    case 3
    then have "ti_normalize t = Some t" and "ti_ok t" using s' by (simp_all add: ti_normalize_def ti_ok_def)
    then show thesis using that by blast
  qed
qed

section \<open>Operators\<close>

lemma ti_value_div: "ti_ok t \<Longrightarrow> ti_value t div second_units = ti_seconds t"
  using ti_value_unique by simp

text \<open>Sums and differences of seconds that leave room for one carried second.\<close>

lemma ti_add_value:
  assumes a: "ti_ok a" and b: "ti_ok b" and fits: "in_i64 (ti_seconds a + ti_seconds b)"
    "in_i64 (ti_seconds a + ti_seconds b + 1)"
  obtains c where "ti_add a b = Some c" and "ti_ok c" and "ti_value c = ti_value a + ti_value b"
proof -
  let ?t = "\<lparr>ti_seconds = ti_seconds a + ti_seconds b, ti_nanos = ti_nanos a + ti_nanos b\<rparr>"
  have n: "0 \<le> ti_nanos ?t" "ti_nanos ?t < 2 * second_units"
    using a b by (auto simp: ti_ok_def)
  then have small: "\<bar>ti_nanos ?t\<bar> < 2 ^ 62" "in_i64 (ti_nanos ?t)" by (auto simp: units in_i64_iff)
  have val: "ti_value ?t = ti_value a + ti_value b" by (simp add: ti_value_def algebra_simps)
  have "ti_value ?t div second_units = ti_seconds ?t + ti_nanos ?t div second_units"
    by (simp add: ti_value_def units)
  moreover have "ti_nanos ?t div second_units \<in> {0, 1}"
    using n div_bounds [of second_units "ti_nanos ?t"] by (auto simp: units)
  ultimately have "in_i64 (ti_value ?t div second_units)" using fits by auto
  from ti_normalize_ok [OF small(1) this] fits(1) obtain c where
    "ti_normalize ?t = Some c" "ti_ok c" "ti_value c = ti_value ?t" by auto
  then show thesis using that fits(1) small(2) val by (simp add: ti_add_def)
qed

lemma ti_sub_value:
  assumes a: "ti_ok a" and b: "ti_ok b" and fits: "in_i64 (ti_seconds a - ti_seconds b)"
    "in_i64 (ti_seconds a - ti_seconds b - 1)"
  obtains c where "ti_sub a b = Some c" and "ti_ok c" and "ti_value c = ti_value a - ti_value b"
proof -
  let ?t = "\<lparr>ti_seconds = ti_seconds a - ti_seconds b, ti_nanos = ti_nanos a - ti_nanos b\<rparr>"
  have n: "- second_units < ti_nanos ?t" "ti_nanos ?t < second_units"
    using a b by (auto simp: ti_ok_def)
  then have small: "\<bar>ti_nanos ?t\<bar> < 2 ^ 62" "in_i64 (ti_nanos ?t)" by (auto simp: units in_i64_iff)
  have val: "ti_value ?t = ti_value a - ti_value b" by (simp add: ti_value_def algebra_simps)
  have "ti_value ?t div second_units = ti_seconds ?t + ti_nanos ?t div second_units"
    by (simp add: ti_value_def units)
  moreover have "ti_nanos ?t div second_units \<in> {- 1, 0}"
    using n div_bounds [of second_units "ti_nanos ?t"] by (auto simp: units)
  ultimately have "in_i64 (ti_value ?t div second_units)" using fits by auto
  from ti_normalize_ok [OF small(1) this] fits(1) obtain c where
    "ti_normalize ?t = Some c" "ti_ok c" "ti_value c = ti_value ?t" by auto
  then show thesis using that fits(1) small(2) val by (simp add: ti_sub_def)
qed

text \<open>Multiplying by a negative scalar adds the fraction's multiple instead of subtracting it.\<close>

lemma ti_mul_value:
  assumes a: "ti_ok a" and k: "\<bar>k\<bar> \<le> 2 ^ 14"
    and s: "\<bar>ti_seconds a\<bar> \<le> 2 ^ 48"
  obtains c where "ti_mul a k = Some c" and "ti_ok c"
    and "ti_value c = ti_value a * k + (if k < 0 then 2 * (- k) * (ti_nanos a mod 65536) else 0)"
proof -
  define f g where "f = ti_nanos a mod 65536" and "g = ti_nanos a div 65536 * 65536"
  let ?t = "\<lparr>ti_seconds = ti_seconds a * k, ti_nanos = g * k + f * \<bar>k\<bar>\<rparr>"
  have n: "0 \<le> ti_nanos a" "ti_nanos a < 65536000000000" using a by (simp_all add: ti_ok_def units)
  have f: "0 \<le> f" "f < 65536" by (simp_all add: f_def)
  have g: "g + f = ti_nanos a" by (simp add: f_def g_def)
  have g0: "0 \<le> g" using n by (simp add: g_def pos_imp_zdiv_nonneg_iff)
  have kb: "\<bar>k\<bar> \<le> 16384" using k by simp
  have gk: "\<bar>g * k\<bar> = g * \<bar>k\<bar>" using g0 by (simp add: abs_mult)
  have "g * \<bar>k\<bar> \<le> 65536000000000 * 16384" using g f n kb g0 by (intro mult_mono) linarith+
  then have gb: "g * \<bar>k\<bar> \<le> 1073741824000000000" by simp
  have "f * \<bar>k\<bar> \<le> 65536 * 16384" using f kb by (intro mult_mono) linarith+
  then have fb: "f * \<bar>k\<bar> \<le> 1073741824" by simp
  have fk0: "0 \<le> f * \<bar>k\<bar>" using f by simp
  have "\<bar>g * k + f * \<bar>k\<bar>\<bar> \<le> 1073741825073741824" using gk gb fb fk0 by linarith
  then have small: "\<bar>ti_nanos ?t\<bar> < 2 ^ 62" by simp
  have i64s: "in_i64 \<bar>k\<bar>" "in_i64 (f * \<bar>k\<bar>)" "in_i64 (g * k)" "in_i64 (g * k + f * \<bar>k\<bar>)"
    unfolding in_i64_iff using kb gk gb fb fk0 by linarith+
  have val: "ti_value ?t = ti_value a * k + (if k < 0 then 2 * (- k) * f else 0)"
  proof -
    have "ti_nanos a * k = g * k + f * k" by (subst g [symmetric]) (rule distrib_right)
    moreover have "ti_value a * k = ti_seconds a * k * second_units + ti_nanos a * k"
      by (simp add: ti_value_def algebra_simps)
    moreover have "f * \<bar>k\<bar> = (if k < 0 then - (f * k) else f * k)" by simp
    moreover have "2 * (- k) * f = - (2 * (f * k))" by simp
    ultimately show ?thesis
      unfolding ti_value_def [of ?t] time_interval.simps by (cases "k < 0") simp_all
  qed
  have "\<bar>ti_seconds a * k\<bar> \<le> 281474976710656 * 16384"
    unfolding abs_mult using s kb by (intro mult_mono) simp_all
  then have sk: "\<bar>ti_seconds a * k\<bar> \<le> 4611686018427387904" by simp
  have "- 70369 \<le> ti_nanos ?t div second_units" "ti_nanos ?t div second_units \<le> 70369"
    using div_units_small [OF small] by simp_all
  moreover have "ti_value ?t div second_units = ti_seconds a * k + ti_nanos ?t div second_units"
    by (simp add: ti_value_def units)
  ultimately have "in_i64 (ti_value ?t div second_units)" and "in_i64 (ti_seconds ?t)"
    using sk by (auto intro!: in_i64_abs)
  from ti_normalize_ok [OF small this] obtain c where
    "ti_normalize ?t = Some c" "ti_ok c" "ti_value c = ti_value ?t" .
  then show thesis using that i64s val \<open>in_i64 (ti_seconds ?t)\<close>
    by (simp add: ti_mul_def f_def [symmetric] g_def [symmetric])
qed

text \<open>Division truncates towards zero or, for a remainder of the seconds of 0, rounds down.\<close>

lemma ti_div_value:
  assumes a: "ti_ok a" and d: "d \<noteq> 0" "\<bar>d\<bar> \<le> 2 ^ 14" and s: "\<bar>ti_seconds a\<bar> \<le> 2 ^ 48"
  obtains c where "ti_div a d = Some c" and "ti_ok c" and "\<bar>d * ti_value c - ti_value a\<bar> < \<bar>d\<bar>"
proof -
  let ?r = "ti_seconds a smod d" and ?q = "ti_seconds a sdiv d"
  let ?m = "ti_nanos a + ?r * second_units"
  let ?t = "\<lparr>ti_seconds = ?q, ti_nanos = ?m sdiv d\<rparr>"
  have n: "0 \<le> ti_nanos a" "ti_nanos a < 65536000000000" using a by (simp_all add: ti_ok_def units)
  have r: "\<bar>?r\<bar> < \<bar>d\<bar>" using smod_int_range [OF d(1), of "ti_seconds a"] by auto
  have db: "\<bar>d\<bar> \<le> 16384" using d(2) by simp
  have rb: "\<bar>?r\<bar> \<le> 16383" using r db by linarith
  have K: "second_units = 65536000000000" by (simp add: units)
  have mb: "\<bar>?m\<bar> < 2 ^ 61" using n rb unfolding K by simp
  have qb: "\<bar>?q\<bar> \<le> 2 ^ 48" and mq: "\<bar>?m sdiv d\<bar> \<le> \<bar>?m\<bar>"
    using sdiv_int_range [of "ti_seconds a" d] sdiv_int_range [of ?m d] s by auto
  have small: "\<bar>ti_nanos ?t\<bar> < 2 ^ 62" using mq mb by simp
  have i64s: "in_i64 ?q" "in_i64 (?r * 1000000000)" "in_i64 (?r * 1000000000 * frac_scale)" "in_i64 ?m"
    "in_i64 (?m sdiv d)"
    using qb rb mb mq unfolding in_i64_iff K frac_scale_def by auto
  have m: "ti_nanos a + ?r * 1000000000 * frac_scale = ?m" by (simp add: units)
  have "- 70369 \<le> ti_nanos ?t div second_units" "ti_nanos ?t div second_units \<le> 70369"
    using div_units_small [OF small] by simp_all
  moreover have "ti_value ?t div second_units = ?q + ti_nanos ?t div second_units"
    by (simp add: ti_value_def units)
  ultimately have "in_i64 (ti_value ?t div second_units)" and "in_i64 (ti_seconds ?t)"
    using qb by (auto intro!: in_i64_abs)
  from ti_normalize_ok [OF small this] obtain c where
    c: "ti_normalize ?t = Some c" "ti_ok c" "ti_value c = ti_value ?t" .
  have "d * ti_value ?t - ti_value a = - (?m smod d)"
  proof -
    have "d * ?q = ti_seconds a - ?r" "d * (?m sdiv d) = ?m - ?m smod d"
      using mult_sdiv_smod_eq [of d "ti_seconds a"] mult_sdiv_smod_eq [of d ?m] by linarith+
    then have "d * ti_value ?t = (ti_seconds a - ?r) * second_units + (?m - ?m smod d)"
      by (simp add: ti_value_def distrib_left mult.assoc [symmetric])
    then show ?thesis by (simp add: ti_value_def algebra_simps)
  qed
  moreover have "\<bar>?m smod d\<bar> < \<bar>d\<bar>" using smod_int_range [OF d(1), of ?m] by auto
  ultimately have "\<bar>d * ti_value c - ti_value a\<bar> < \<bar>d\<bar>" by (simp add: c(3))
  moreover have "ti_div a d = Some c"
  proof -
    have "i64 (ti_nanos a + ?r * 1000000000 * frac_scale) = Some ?m" using i64s(4) by (simp only: m i64_Some)
    then show ?thesis using d(1) i64s c(1) by (simp add: ti_div_def i64_div_def i64_mod_def)
  qed
  ultimately show thesis using that c(2) by blast
qed

section \<open>Wire format\<close>

lemma ti_make_value:
  assumes "in_i64 s" and "\<bar>n\<bar> < 2 ^ 31" and "in_i64 ((s * second_units + n * 65536 + uint f) div second_units)"
  obtains t where "ti_make s n f = Some t" and "ti_ok t" and "ti_value t = s * second_units + n * 65536 + uint f"
proof -
  let ?t = "\<lparr>ti_seconds = s, ti_nanos = n * frac_scale + uint f\<rparr>"
  have f: "0 \<le> uint f" "uint f < 65536" using uint_bounded [of f] by simp_all
  have "- 2147483648 < n" "n < 2147483648" using assms(2) by auto
  moreover have "ti_nanos ?t = n * 65536 + uint f" by (simp add: frac_scale_def)
  ultimately have "- 140737488420864 \<le> ti_nanos ?t" "ti_nanos ?t \<le> 140737488420864"
    using f by linarith+
  then have b: "\<bar>ti_nanos ?t\<bar> < 2 ^ 62" by simp
  then have b': "in_i64 (n * frac_scale + uint f)" by (auto simp: in_i64_iff)
  have val: "ti_value ?t = s * second_units + n * 65536 + uint f" by (simp add: ti_value_def frac_scale_def)
  from ti_normalize_ok [OF b, unfolded val, OF assms(3)] assms(1) obtain t where
    "ti_normalize ?t = Some t" "ti_ok t" "ti_value t = s * second_units + n * 65536 + uint f" by auto
  then show thesis using that b' by (simp add: ti_make_def)
qed

lemma ti_from_wire_value:
  assumes w: "in_i64 w"
  obtains t where "ti_from_wire w = Some t" and "ti_ok t" and "ti_value t = w"
proof -
  let ?n = "w div 65536" and ?f = "word_of_int (w mod 65536) :: u16"
  let ?s = "?n sdiv 1000000000"
  have f: "uint ?f = w mod 65536" by (simp add: uint_word_of_int)
  have nb: "- 140737488355328 \<le> ?n" "?n \<le> 140737488355327" using w by (auto simp: in_i64_iff)
  have s: "\<bar>?s\<bar> \<le> \<bar>?n\<bar>"
    using sdiv_int_range [of ?n 1000000000] unfolding atLeastAtMost_iff by linarith
  have r: "?n - ?s * 1000000000 = ?n smod 1000000000" by (simp add: minus_sdiv_mult_eq_smod)
  have rb: "\<bar>?n smod 1000000000\<bar> < 1000000000" using smod_int_range [of 1000000000 ?n] by auto
  have i64s: "in_i64 ?s" "in_i64 (?s * 1000000000)" "in_i64 (?n smod 1000000000)"
    using s nb r rb unfolding in_i64_iff by linarith+
  have rb': "\<bar>?n smod 1000000000\<bar> < 2 ^ 31" using rb by simp
  have val: "?s * second_units + (?n smod 1000000000) * 65536 + uint ?f = w"
  proof -
    have "?s * second_units + (?n smod 1000000000) * 65536 = ?n * 65536"
      using r by (simp add: units)
    then show ?thesis by (simp add: f)
  qed
  have "in_i64 (w div second_units)" using w by (auto simp: in_i64_iff units)
  then have fits: "in_i64 ((?s * second_units + (?n smod 1000000000) * 65536 + uint ?f) div second_units)"
    by (simp only: val)
  from ti_make_value [OF i64s(1) rb' fits] obtain t where
    t: "ti_make ?s (?n smod 1000000000) ?f = Some t" "ti_ok t" "ti_value t = w" unfolding val .
  have "ti_from_wire w = Some t"
    unfolding ti_from_wire_def i64_div_def using i64s r t(1) by simp
  then show thesis using that t by blast
qed

text \<open>The two checked multiplications saturate on the seconds alone.\<close>

lemma ti_to_wire_eq:
  assumes "ti_ok t"
  shows "ti_to_wire t =
    (if ti_seconds t * second_units > i64_max then i64_max
     else if ti_seconds t * second_units < i64_min then i64_min
     else min i64_max (ti_value t))"
proof -
  let ?s = "ti_seconds t"
  have n: "0 \<le> ti_nanos t" "ti_nanos t < second_units" using assms by (simp_all add: ti_ok_def)
  have lim: "i64_min = - 9223372036854775808" "i64_max = 9223372036854775807"
    by (simp_all add: i64_min_def i64_max_def)
  have mul: "safe_mul i64_min i64_max a b = checked i64_min i64_max (a * b)" for a b
    by (rule safe_mul_exact) (simp_all add: lim)
  have add: "i64_min \<le> a \<Longrightarrow> a \<le> i64_max \<Longrightarrow> safe_add i64_min i64_max a b = checked i64_min i64_max (a + b)" for a b
    by (rule safe_add_exact) (simp_all add: lim)
  have p: "?s * 1000000000 * frac_scale = ?s * second_units" by (simp add: units)
  consider "?s * second_units > i64_max" | "?s * second_units < i64_min"
    | "i64_min \<le> ?s * second_units" "?s * second_units \<le> i64_max" by linarith
  then show ?thesis
  proof cases
    case 1
    then have "\<not> ?s * 1000000000 < i64_min" by (simp add: lim units)
    then show ?thesis using 1 by (simp add: ti_to_wire_def mul checked_def safe_step_def p)
  next
    case 2
    then have "\<not> ?s * 1000000000 > i64_max" "\<not> ?s * second_units > i64_max" by (simp_all add: lim units)
    then show ?thesis using 2 by (simp add: ti_to_wire_def mul checked_def safe_step_def p)
  next
    case 3
    then have "i64_min \<le> ?s * 1000000000" "?s * 1000000000 \<le> i64_max" by (auto simp: units lim)
    then have "safe_step (safe_mul i64_min i64_max) (safe_mul i64_min i64_max ?s 1000000000) frac_scale
        = Inr (?s * second_units)"
      using 3 by (simp add: mul checked_def safe_step_def p)
    moreover have "\<not> ti_value t < i64_min" using 3 n by (simp add: ti_value_def)
    ultimately show ?thesis using 3
      by (auto simp: ti_to_wire_def safe_step_def add checked_def ti_value_def min_def)
  qed
qed

section \<open>Timestamp\<close>

record timestamp =
  ts_seconds :: u64
  ts_nanoseconds :: u32

definition ts_zero :: timestamp where
  "ts_zero = \<lparr>ts_seconds = 0, ts_nanoseconds = 0\<rparr>"

definition ts_of_nanos :: "u64 \<Rightarrow> timestamp" where
  "ts_of_nanos n = \<lparr>ts_seconds = n div 1000000000, ts_nanoseconds = ucast (n mod 1000000000)\<rparr>"

definition ts_from_years :: "u64 \<Rightarrow> timestamp" where
  "ts_from_years years = \<lparr>ts_seconds = years * 365 * 24 * 60 * 60, ts_nanoseconds = 0\<rparr>"

definition ts_from_seconds :: "u64 \<Rightarrow> timestamp" where
  "ts_from_seconds s = \<lparr>ts_seconds = s, ts_nanoseconds = 0\<rparr>"

definition ts_add :: "timestamp \<Rightarrow> time_interval \<Rightarrow> timestamp option" where
  "ts_add ts ti =
     (let n = ts_nanoseconds ts + word_of_int (ti_nanos_part ti) in
      if ti_seconds ti < 0 then do {
        abs_s \<leftarrow> i64 \<bar>ti_seconds ti\<bar>;
        let s_abs = word_of_int abs_s;
            (s, n) = (if n \<ge> 1000000000 then (ts_seconds ts + 1, n - 1000000000) else (ts_seconds ts, n))
        in if s_abs > s then Some ts_zero
           else Some \<lparr>ts_seconds = s - s_abs, ts_nanoseconds = n\<rparr> }
      else
        let s = ts_seconds ts + word_of_int (ti_seconds ti) in
        if n \<ge> 1000000000 then Some \<lparr>ts_seconds = s + 1, ts_nanoseconds = n - 1000000000\<rparr>
        else Some \<lparr>ts_seconds = s, ts_nanoseconds = n\<rparr>)"

definition ts_lt :: "timestamp \<Rightarrow> timestamp \<Rightarrow> bool" where
  "ts_lt a b \<longleftrightarrow> ts_seconds a < ts_seconds b
     \<or> ts_seconds a = ts_seconds b \<and> ts_nanoseconds a < ts_nanoseconds b"

definition ts_ge :: "timestamp \<Rightarrow> timestamp \<Rightarrow> bool" where
  "ts_ge a b \<longleftrightarrow> \<not> ts_lt a b"

definition ts_le :: "timestamp \<Rightarrow> timestamp \<Rightarrow> bool" where
  "ts_le a b \<longleftrightarrow> ts_ge b a"

definition ts_gt :: "timestamp \<Rightarrow> timestamp \<Rightarrow> bool" where
  "ts_gt a b \<longleftrightarrow> ts_lt b a"

text \<open>\<open>k_size\<close> bytes: six of seconds, four of nanoseconds.\<close>

definition ts_from_data :: "byte list \<Rightarrow> timestamp option" where
  "ts_from_data d = do {
     s \<leftarrow> read_be d 0;
     n \<leftarrow> read_be d 6;
     Some \<lparr>ts_seconds = uint48_to_uint64 s, ts_nanoseconds = n\<rparr> }"

definition ts_write_to :: "byte list \<Rightarrow> timestamp \<Rightarrow> byte list" where
  "ts_write_to buf ts = buf @ enc_be (uint48_of_u64 (ts_seconds ts)) @ enc_be (ts_nanoseconds ts)"

definition ts_to_nanoseconds :: "timestamp \<Rightarrow> u64" where
  "ts_to_nanoseconds ts = ts_seconds ts * 1000000000 + ucast (ts_nanoseconds ts)"

text \<open>The signed cast is compared with the largest \<open>int64_t\<close>, which it never exceeds.\<close>

definition ts_to_time_interval :: "timestamp \<Rightarrow> time_interval option" where
  "ts_to_time_interval ts =
     (if sint (ts_seconds ts) > i64_max then Some ti_zero
      else ti_make (sint (ts_seconds ts)) (sint (ts_nanoseconds ts)) 0)"

definition ts_plus :: "timestamp \<Rightarrow> timestamp \<Rightarrow> time_interval option" where
  "ts_plus a b = do { x \<leftarrow> ts_to_time_interval a; y \<leftarrow> ts_to_time_interval b; ti_add x y }"

definition ts_minus :: "timestamp \<Rightarrow> timestamp \<Rightarrow> time_interval option" where
  "ts_minus a b = do { x \<leftarrow> ts_to_time_interval a; y \<leftarrow> ts_to_time_interval b; ti_sub x y }"

text \<open>The assertion divides by the frequency.\<close>

definition ts_to_rtp :: "timestamp \<Rightarrow> u32 \<Rightarrow> u64 option" where
  "ts_to_rtp ts frequency =
     (if frequency = 0 then None
      else Some (ts_seconds ts * ucast frequency
        + ucast (ts_nanoseconds ts) * ucast frequency div 1000000000))"

definition ts_to_rtp32 :: "timestamp \<Rightarrow> u32 \<Rightarrow> u32 option" where
  "ts_to_rtp32 ts frequency = map_option ucast (ts_to_rtp ts frequency)"

definition ts_valid :: "timestamp \<Rightarrow> bool" where
  "ts_valid ts \<longleftrightarrow> ts_seconds ts \<noteq> 0 \<or> ts_nanoseconds ts \<noteq> 0"

section \<open>Value of a timestamp\<close>

definition ts_value :: "timestamp \<Rightarrow> int" where
  "ts_value ts = uint (ts_seconds ts) * 1000000000 + uint (ts_nanoseconds ts)"

definition ts_ok :: "timestamp \<Rightarrow> bool" where
  "ts_ok ts \<longleftrightarrow> uint (ts_nanoseconds ts) < 1000000000"

lemma uint_add_small:
  "uint (a :: 'a::len word) + uint b < 2 ^ LENGTH('a) \<Longrightarrow> uint (a + b) = uint a + uint b"
  by (simp add: uint_word_ariths take_bit_int_eq_self flip: take_bit_eq_mod)

lemma uint_sub_small: "b \<le> a \<Longrightarrow> uint ((a :: 'a::len word) - b) = uint a - uint b"
proof -
  assume le: "b \<le> a"
  then have "unat b \<le> unat a" by (simp add: word_le_nat_alt)
  then have "int (unat a - unat b) = int (unat a) - int (unat b)" by (rule of_nat_diff)
  then show ?thesis using unat_minus_le [OF le] by (simp only: uint_nat)
qed

lemma uint_of_small: "0 \<le> v \<Longrightarrow> v < 2 ^ LENGTH('a) \<Longrightarrow> uint (word_of_int v :: 'a::len word) = v"
  by (simp add: uint_word_of_int take_bit_int_eq_self flip: take_bit_eq_mod)

lemma ts_value_bound:
  assumes "ts_ok ts" and "uint (ts_seconds ts) < 2 ^ 61"
  shows "0 \<le> ts_value ts" and "ts_value ts < 2305843009213693952000000000"
proof -
  have "0 \<le> uint (ts_seconds ts)" "0 \<le> uint (ts_nanoseconds ts)" by simp_all
  then show "0 \<le> ts_value ts" and "ts_value ts < 2305843009213693952000000000"
    using assms by (simp_all add: ts_value_def ts_ok_def)
qed

lemma ts_lt_value:
  assumes "ts_ok a" and "ts_ok b"
  shows "ts_lt a b \<longleftrightarrow> ts_value a < ts_value b"
proof -
  have "0 \<le> uint (ts_nanoseconds a)" "0 \<le> uint (ts_nanoseconds b)" by simp_all
  then have "ts_value a < ts_value b \<longleftrightarrow> uint (ts_seconds a) < uint (ts_seconds b) \<or>
      uint (ts_seconds a) = uint (ts_seconds b) \<and> uint (ts_nanoseconds a) < uint (ts_nanoseconds b)"
    using assms unfolding ts_value_def ts_ok_def by linarith
  then show ?thesis by (simp add: ts_lt_def word_less_def word_uint_eq_iff)
qed

lemma nanos_part:
  assumes "ti_ok t"
  shows "0 \<le> ti_nanos_part t" and "ti_nanos_part t < 1000000000"
    and "ti_value t div 65536 = ti_seconds t * 1000000000 + ti_nanos_part t"
proof -
  have n: "0 \<le> ti_nanos t" "ti_nanos t < 65536000000000" using assms by (simp_all add: ti_ok_def units)
  then have p: "ti_nanos_part t = ti_nanos t div 65536"
    by (simp add: ti_nanos_part_def sdiv_pos frac_scale_def)
  then show "0 \<le> ti_nanos_part t" and "ti_nanos_part t < 1000000000"
    using n by (simp_all add: pos_imp_zdiv_nonneg_iff div_less_iff)
  have "ti_value t = ti_nanos t + (ti_seconds t * 1000000000) * 65536"
    by (simp add: ti_value_def units)
  then show "ti_value t div 65536 = ti_seconds t * 1000000000 + ti_nanos_part t"
    by (simp only: p)
qed

text \<open>\<open>add\<close> adds the whole nanoseconds of the interval and stops at zero.\<close>

lemma ts_add_value:
  assumes ok: "ts_ok ts" "uint (ts_seconds ts) < 2 ^ 62" and ti: "ti_ok ti" "\<bar>ti_seconds ti\<bar> < 2 ^ 62"
  obtains r where "ts_add ts ti = Some r" and "ts_ok r"
    and "ts_value r = max 0 (ts_value ts + ti_value ti div 65536)"
proof -
  let ?s = "uint (ts_seconds ts)" and ?n = "uint (ts_nanoseconds ts)" and ?p = "ti_nanos_part ti"
  let ?w = "ts_nanoseconds ts + word_of_int ?p" and ?k = "ti_seconds ti"
  note part = nanos_part [OF ti(1)]
  have n: "0 \<le> ?n" "?n < 1000000000" and s: "0 \<le> ?s" "?s < 4611686018427387904"
    using ok by (simp_all add: ts_ok_def)
  have pw: "uint (word_of_int ?p :: u32) = ?p" using part by (intro uint_of_small) simp_all
  have w: "uint ?w = ?n + ?p" using n part pw by (subst uint_add_small) simp_all
  have ge: "?w \<ge> 1000000000 \<longleftrightarrow> ?n + ?p \<ge> 1000000000" by (simp add: word_le_def w)
  have w': "uint (?w - 1000000000) = ?n + ?p - 1000000000" if "?n + ?p \<ge> 1000000000"
    using that ge w by (subst uint_sub_small) simp_all
  have s1: "uint (ts_seconds ts + 1) = ?s + 1" using s by (subst uint_add_small) simp_all
  define c where "c = (if ?n + ?p \<ge> 1000000000 then 1 else 0 :: int)"
  define S where "S = (if ?w \<ge> 1000000000 then ts_seconds ts + 1 else ts_seconds ts)"
  define N where "N = (if ?w \<ge> 1000000000 then ?w - 1000000000 else ?w)"
  have S: "uint S = ?s + c" and N: "uint N = ?n + ?p - c * 1000000000" and c: "c = 0 \<or> c = 1"
    using w w' s1 ge by (simp_all add: S_def N_def c_def)
  have Nok: "uint N < 1000000000" "0 \<le> uint N"
    using n part N by (auto simp: c_def)
  have total: "ts_value ts + ti_value ti div 65536 = (?s + ?k) * 1000000000 + (?n + ?p)"
    by (simp add: ts_value_def part(3) algebra_simps)
  show thesis
  proof (cases "?k < 0")
    case True
    have ka: "in_i64 \<bar>?k\<bar>" using ti(2) by (intro in_i64_abs) simp
    have "uint (word_of_int \<bar>?k\<bar> :: u64) = \<bar>?k\<bar>" using ti(2) by (intro uint_of_small) simp_all
    then have kw: "uint (word_of_int \<bar>?k\<bar> :: u64) = - ?k" using True by simp
    have res: "ts_add ts ti = Some (if word_of_int \<bar>?k\<bar> > S then ts_zero
        else \<lparr>ts_seconds = S - word_of_int \<bar>?k\<bar>, ts_nanoseconds = N\<rparr>)"
      using True ka by (simp add: ts_add_def Let_def S_def N_def)
    show thesis
    proof (cases "- ?k > uint S")
      case True
      then have "ts_value ts + ti_value ti div 65536 \<le> 0"
        using total S N Nok c by auto
      moreover have "word_of_int \<bar>?k\<bar> > S" using True kw by (simp add: word_less_def)
      ultimately show thesis
        using that [of ts_zero] res by (simp add: ts_ok_def ts_zero_def ts_value_def max_def)
    next
      case False
      then have le: "word_of_int \<bar>?k\<bar> \<le> S" using kw by (simp add: word_le_def)
      then have sub: "uint (S - word_of_int \<bar>?k\<bar>) = uint S + ?k" using kw by (simp add: uint_sub_small)
      let ?r = "\<lparr>ts_seconds = S - word_of_int \<bar>?k\<bar>, ts_nanoseconds = N\<rparr>"
      have "ts_value ?r = ts_value ts + ti_value ti div 65536"
        unfolding total by (simp add: ts_value_def sub S N algebra_simps)
      moreover have "0 \<le> ts_value ?r" by (simp add: ts_value_def)
      ultimately show thesis using that [of ?r] res le Nok by (simp add: ts_ok_def)
    qed
  next
    case False
    have kw: "uint (word_of_int ?k :: u64) = ?k" using ti(2) False by (auto simp: uint_of_small)
    have k: "0 \<le> ?k" "?k < 4611686018427387904" using ti(2) False by auto
    have "uint (S + word_of_int ?k) = ?s + c + ?k"
      using S kw k s c by (subst uint_add_small) auto
    let ?r = "\<lparr>ts_seconds = S + word_of_int ?k, ts_nanoseconds = N\<rparr>"
    have "ts_add ts ti = Some ?r"
      using False by (simp add: ts_add_def Let_def S_def N_def)
    moreover have "ts_value ?r = ts_value ts + ti_value ti div 65536"
      unfolding total using \<open>uint (S + word_of_int ?k) = ?s + c + ?k\<close> by (simp add: ts_value_def N algebra_simps)
    moreover have "0 \<le> ts_value ?r" by (simp add: ts_value_def)
    ultimately show thesis using that [of ?r] Nok by (simp add: ts_ok_def)
  qed
qed

lemma ts_interval_value:
  assumes "ts_ok ts" and "uint (ts_seconds ts) < 2 ^ 62"
  obtains t where "ts_to_time_interval ts = Some t" and "ti_ok t" and "ti_value t = ts_value ts * 65536"
    and "0 \<le> ti_seconds t" and "ti_seconds t < 2 ^ 62"
proof -
  have s: "sint (ts_seconds ts) = uint (ts_seconds ts)" and n: "sint (ts_nanoseconds ts) = uint (ts_nanoseconds ts)"
    using assms by (auto simp: ts_ok_def sint_uint intro!: signed_take_bit_int_eq_self order_trans [of _ 0 "uint _"])
  let ?s = "uint (ts_seconds ts)" and ?n = "uint (ts_nanoseconds ts)"
  have nb: "0 \<le> ?n" "?n < 1000000000" "0 \<le> ?s" "?s < 4611686018427387904" using assms by (simp_all add: ts_ok_def)
  have i64s: "in_i64 ?s" using nb by (intro in_i64_abs) simp
  have q: "(?s * second_units + ?n * 65536) div second_units = ?s"
    using nb by (simp add: units)
  have fits: "in_i64 ((?s * second_units + ?n * 65536 + uint (0 :: u16)) div second_units)"
    using i64s q by simp
  have nb': "\<bar>?n\<bar> < 2 ^ 31" using nb by simp
  from ti_make_value [OF i64s nb' fits] obtain t where
    t: "ti_make ?s ?n 0 = Some t" "ti_ok t" "ti_value t = ?s * second_units + ?n * 65536" by auto
  have "ti_seconds t = ?s" using ti_value_div [OF t(2)] t(3) q by simp
  moreover have "\<not> ?s > i64_max" using i64s by (simp add: in_i64_def)
  ultimately show thesis
    using t nb by (intro that [of t]) (simp_all add: ts_to_time_interval_def s n ts_value_def units)
qed

lemma ts_minus_value:
  assumes "ts_ok a" and "uint (ts_seconds a) < 2 ^ 62" and "ts_ok b" and "uint (ts_seconds b) < 2 ^ 62"
  obtains t where "ts_minus a b = Some t" and "ti_ok t" and "ti_value t = (ts_value a - ts_value b) * 65536"
    and "\<bar>ti_seconds t\<bar> \<le> 2 ^ 62"
proof -
  obtain x where x: "ts_to_time_interval a = Some x" "ti_ok x" "ti_value x = ts_value a * 65536"
    "0 \<le> ti_seconds x" "ti_seconds x < 2 ^ 62" by (rule ts_interval_value [OF assms(1,2)])
  obtain y where y: "ts_to_time_interval b = Some y" "ti_ok y" "ti_value y = ts_value b * 65536"
    "0 \<le> ti_seconds y" "ti_seconds y < 2 ^ 62" by (rule ts_interval_value [OF assms(3,4)])
  have fits: "in_i64 (ti_seconds x - ti_seconds y)" "in_i64 (ti_seconds x - ti_seconds y - 1)"
    using x(4,5) y(4,5) by (auto intro!: in_i64_abs)
  from ti_sub_value [OF x(2) y(2) fits] obtain t where
    t: "ti_sub x y = Some t" "ti_ok t" "ti_value t = ti_value x - ti_value y" .
  have "ti_seconds t = (ti_value x - ti_value y) div second_units" using ti_value_div [OF t(2)] t(3) by simp
  moreover have "ti_value x - ti_value y = (ti_nanos x - ti_nanos y) + (ti_seconds x - ti_seconds y) * second_units"
    by (simp add: ti_value_def algebra_simps)
  moreover have "(ti_nanos x - ti_nanos y) div second_units \<in> {- 1, 0}"
    using x(2) y(2) div_bounds [of second_units "ti_nanos x - ti_nanos y"] by (auto simp: ti_ok_def units)
  ultimately have "ti_seconds t = ti_seconds x - ti_seconds y \<or> ti_seconds t = ti_seconds x - ti_seconds y - 1"
    by (auto simp: units)
  then have "\<bar>ti_seconds t\<bar> \<le> 2 ^ 62" using x(4,5) y(4,5) by auto
  then show thesis using that t x(1,3) y(1,3) by (simp add: ts_minus_def)
qed

lemma unat_ucast_up: "unat (ucast (w :: u32) :: u64) = unat w"
  using unat_bound [of w] by (simp add: unsigned_ucast_eq take_bit_nat_eq_self)

lemma ts_to_rtp_value:
  assumes ok: "ts_ok ts" and f: "frequency \<noteq> 0"
    and fits: "(unat (ts_seconds ts) + 1) * unat frequency < 2 ^ 64"
  shows "map_option unat (ts_to_rtp ts frequency) = Some (nat (ts_value ts) * unat frequency div 1000000000)"
proof -
  let ?s = "unat (ts_seconds ts)" and ?n = "unat (ts_nanoseconds ts)" and ?f = "unat frequency"
  have "ts_nanoseconds ts < 1000000000" using ok by (simp add: ts_ok_def word_less_def)
  then have n: "?n < 1000000000" by (simp add: word_less_nat_alt)
  have "?n * ?f < 2 ^ 32 * 2 ^ 32"
    using unat_bound [of "ts_nanoseconds ts"] unat_bound [of frequency] by (intro mult_strict_mono) simp_all
  then have nf: "unat (ucast (ts_nanoseconds ts) * ucast frequency :: u64) = ?n * ?f"
    by (simp add: unat_word_ariths unat_ucast_up)
  have sf: "unat (ts_seconds ts * ucast frequency) = ?s * ?f"
  proof -
    have "?s * ?f \<le> (?s + 1) * ?f" by simp
    then have "?s * ?f < 2 ^ 64" using fits by (rule le_less_trans)
    then show ?thesis by (simp add: unat_word_ariths unat_ucast_up)
  qed
  have "?n * ?f div 1000000000 \<le> 1000000000 * ?f div 1000000000"
    using n by (intro div_le_mono mult_right_mono) simp_all
  then have le: "?n * ?f div 1000000000 \<le> ?f" by simp
  have nd: "unat (ucast (ts_nanoseconds ts) * ucast frequency div 1000000000 :: u64) = ?n * ?f div 1000000000"
    by (simp add: unat_div nf)
  have "unat (ts_seconds ts * ucast frequency + ucast (ts_nanoseconds ts) * ucast frequency div 1000000000)
      = ?s * ?f + ?n * ?f div 1000000000"
  proof -
    have "?s * ?f + ?n * ?f div 1000000000 \<le> (?s + 1) * ?f" using le by simp
    then have "?s * ?f + ?n * ?f div 1000000000 < 2 ^ 64" using fits by (rule le_less_trans)
    then show ?thesis
      using sf nd by (subst unat_add_no_wrap) simp_all
  qed
  moreover have "nat (ts_value ts) = ?s * 1000000000 + ?n"
    by (simp add: ts_value_def nat_add_distrib nat_mult_distrib)
  then have "nat (ts_value ts) * ?f = ?n * ?f + (?s * ?f) * 1000000000" by (simp add: algebra_simps)
  then have "nat (ts_value ts) * ?f div 1000000000 = ?s * ?f + ?n * ?f div 1000000000" by simp
  ultimately show ?thesis using f by (simp add: ts_to_rtp_def)
qed

lemma ts_from_data_defined: "(\<exists>ts. ts_from_data d = Some ts) \<longleftrightarrow> 10 \<le> length d"
  by (auto simp: ts_from_data_def bind_Some_iff read_be_def read_ne_def read_block_def)

lemma ts_roundtrip_mod:
  "ts_from_data (ts_write_to [] ts @ rest)
    = Some \<lparr>ts_seconds = uint48_to_uint64 (uint48_of_u64 (ts_seconds ts)), ts_nanoseconds = ts_nanoseconds ts\<rparr>"
proof -
  have "read_be (enc_be s @ enc_be n @ rest) 0 = Some (s :: u48)"
    and "read_be (enc_be s @ enc_be n @ rest) 6 = Some (n :: u32)" for s :: u48 and n :: u32
    by (simp_all add: read_be_block read_block_def dec_enc_be)
  then show ?thesis by (simp add: ts_from_data_def ts_write_to_def)
qed

lemma uint48_roundtrip: "unat s < 2 ^ 48 \<Longrightarrow> uint48_to_uint64 (uint48_of_u64 s) = s"
  by (rule word_unat_eq_iff [THEN iffD2]) (simp add: unat_uint48_to_uint64 unat_uint48_of_u64)

section \<open>Properties\<close>

text \<open>
  Adding and subtracting two normalised intervals gives the normalised interval of the sum and
  of the difference of their values, without overflow whenever the seconds leave room for one carry.
\<close>

theorem time_interval_add_sub:
  assumes "ti_ok a" and "ti_ok b" and "\<bar>ti_seconds a\<bar> < 2 ^ 62" and "\<bar>ti_seconds b\<bar> < 2 ^ 62"
  shows "(\<exists>c. ti_add a b = Some c \<and> ti_ok c \<and> ti_value c = ti_value a + ti_value b) \<and>
    (\<exists>c. ti_sub a b = Some c \<and> ti_ok c \<and> ti_value c = ti_value a - ti_value b)"
proof -
  have "in_i64 (ti_seconds a + ti_seconds b)" "in_i64 (ti_seconds a + ti_seconds b + 1)"
    "in_i64 (ti_seconds a - ti_seconds b)" "in_i64 (ti_seconds a - ti_seconds b - 1)"
    using assms(3,4) by (auto intro!: in_i64_abs)
  then show ?thesis
    using ti_add_value [OF assms(1,2)] ti_sub_value [OF assms(1,2)] by metis
qed

theorem time_interval_add_sub_witness:
  "\<exists>c. ti_sub \<lparr>ti_seconds = 1, ti_nanos = 0\<rparr> \<lparr>ti_seconds = 1, ti_nanos = 65536\<rparr> = Some c \<and> ti_value c = - 65536"
  using time_interval_add_sub [of "\<lparr>ti_seconds = 1, ti_nanos = 0\<rparr>" "\<lparr>ti_seconds = 1, ti_nanos = 65536\<rparr>"]
  by (simp add: ti_ok_def units in_i64_iff) (auto simp: ti_value_def units)

text \<open>
  Multiplying by a scalar of up to \<open>2^14\<close> multiplies the value, except that for a negative scalar
  the fraction below a nanosecond enters with the wrong sign; dividing gives a quotient whose product
  with the divisor is within one divisor of the value.
\<close>

theorem time_interval_scale:
  assumes "ti_ok a" and "\<bar>k\<bar> \<le> 2 ^ 14" and "\<bar>ti_seconds a\<bar> \<le> 2 ^ 48"
  shows "(\<exists>c. ti_mul a k = Some c \<and> ti_ok c \<and>
      ti_value c = ti_value a * k + (if k < 0 then 2 * \<bar>k\<bar> * (ti_nanos a mod 65536) else 0)) \<and>
    (k \<noteq> 0 \<longrightarrow> (\<exists>c. ti_div a k = Some c \<and> ti_ok c \<and> \<bar>k * ti_value c - ti_value a\<bar> < \<bar>k\<bar>))"
proof -
  obtain c where "ti_mul a k = Some c" "ti_ok c"
    "ti_value c = ti_value a * k + (if k < 0 then 2 * (- k) * (ti_nanos a mod 65536) else 0)"
    by (rule ti_mul_value [OF assms])
  moreover have "2 * (- k) = 2 * \<bar>k\<bar>" if "k < 0" using that by simp
  ultimately have mul: "\<exists>c. ti_mul a k = Some c \<and> ti_ok c \<and>
      ti_value c = ti_value a * k + (if k < 0 then 2 * \<bar>k\<bar> * (ti_nanos a mod 65536) else 0)"
    by auto
  have "\<exists>c. ti_div a k = Some c \<and> ti_ok c \<and> \<bar>k * ti_value c - ti_value a\<bar> < \<bar>k\<bar>" if "k \<noteq> 0"
    by (rule ti_div_value [OF assms(1) that assms(2,3)]) blast
  with mul show ?thesis by blast
qed

theorem time_interval_scale_witness:
  "\<exists>c. ti_mul \<lparr>ti_seconds = 0, ti_nanos = 98304\<rparr> (- 1) = Some c \<and> ti_value c = - 98304 + 2 * 32768"
proof -
  let ?a = "\<lparr>ti_seconds = 0, ti_nanos = 98304\<rparr>"
  have "ti_ok ?a" "\<bar>ti_seconds ?a\<bar> \<le> 2 ^ 48" by (simp_all add: ti_ok_def units in_i64_iff)
  from conjunct1 [OF time_interval_scale [OF this(1) _ this(2), of "- 1"]] obtain c where
    "ti_mul ?a (- 1) = Some c"
    "ti_value c = ti_value ?a * - 1 + (if - 1 < (0 :: int) then 2 * \<bar>- 1\<bar> * (ti_nanos ?a mod 65536) else 0)"
    by auto
  then show ?thesis by (simp add: ti_value_def)
qed

text \<open>
  Every 64-bit wire value is read as the normalised interval of that value, and
  converting back returns it, for all values down to \<open>-140737\<close> seconds.
\<close>

theorem time_interval_wire_roundtrip:
  assumes "in_i64 w"
  shows "\<exists>t. ti_from_wire w = Some t \<and> ti_ok t \<and> ti_value t = w \<and>
    (- 140737 * second_units \<le> w \<longrightarrow> ti_to_wire t = w)"
proof -
  obtain t where t: "ti_from_wire w = Some t" "ti_ok t" "ti_value t = w" by (rule ti_from_wire_value [OF assms])
  have "ti_to_wire t = w" if "- 140737 * second_units \<le> w"
  proof -
    have s: "ti_seconds t = w div second_units" using ti_value_div [OF t(2)] t(3) by simp
    then have b: "second_units * ti_seconds t \<le> w" using div_bounds(1) [of second_units w] by (simp add: units)
    have "- 140737 \<le> ti_seconds t" using that s div_bounds(2) [of second_units w] by (simp add: units)
    then have "i64_min \<le> ti_seconds t * second_units" by (simp add: units i64_min_def)
    moreover have "ti_seconds t * second_units \<le> i64_max"
      using b assms by (simp add: in_i64_def mult.commute)
    ultimately show ?thesis using assms by (simp add: ti_to_wire_eq [OF t(2)] t(3) in_i64_def)
  qed
  with t show ?thesis by blast
qed

theorem time_interval_wire_roundtrip_witness:
  "\<exists>t. ti_from_wire (- 98304) = Some t \<and> ti_value t = - 98304 \<and> ti_to_wire t = - 98304"
  using time_interval_wire_roundtrip [of "- 98304"] by (simp add: in_i64_iff units) blast

text \<open>
  The difference of two timestamps, added to the second, gives the first; adding any other
  interval adds its whole nanoseconds and stops at zero instead of going below it.
\<close>

theorem timestamp_add_sub:
  assumes "ts_ok a" and "uint (ts_seconds a) < 2 ^ 61" and "ts_ok b" and "uint (ts_seconds b) < 2 ^ 61"
    and "ti_ok ti" and "\<bar>ti_seconds ti\<bar> < 2 ^ 62"
  shows "Option.bind (ts_minus a b) (ts_add b) = Some a \<and>
    (\<exists>r. ts_add b ti = Some r \<and> ts_ok r \<and> ts_value r = max 0 (ts_value b + ti_value ti div 65536))"
proof -
  have s: "uint (ts_seconds a) < 2 ^ 62" "uint (ts_seconds b) < 2 ^ 62" using assms(2,4) by simp_all
  obtain t where t: "ts_minus a b = Some t" "ti_ok t" "ti_value t = (ts_value a - ts_value b) * 65536"
    by (rule ts_minus_value [OF assms(1) s(1) assms(3) s(2)])
  have "0 \<le> ts_value a" "ts_value a < 2305843009213693952000000000"
    "0 \<le> ts_value b" "ts_value b < 2305843009213693952000000000"
    using ts_value_bound assms(1-4) by simp_all
  then have "\<bar>ti_seconds t\<bar> < 2 ^ 62"
    using ti_value_div [OF t(2)] t(3) div_bounds [of second_units "ti_value t"] by (auto simp: units)
  from ts_add_value [OF assms(3) s(2) t(2) this] obtain r where
    r: "ts_add b t = Some r" "ts_ok r" "ts_value r = max 0 (ts_value b + ti_value t div 65536)" .
  have "0 \<le> ts_value a" using assms(1,2) by (rule ts_value_bound)
  then have "ts_value r = ts_value a" by (simp add: r(3) t(3))
  then have "\<not> ts_lt r a" "\<not> ts_lt a r" using ts_lt_value r(2) assms(1) by auto
  then have "r = a" by (auto simp: ts_lt_def intro: timestamp.equality)
  then have "Option.bind (ts_minus a b) (ts_add b) = Some a" using t(1) r(1) by simp
  moreover have "\<exists>r. ts_add b ti = Some r \<and> ts_ok r \<and> ts_value r = max 0 (ts_value b + ti_value ti div 65536)"
    using ts_add_value [OF assms(3) s(2) assms(5,6)] by metis
  ultimately show ?thesis by blast
qed

theorem timestamp_add_sub_witness:
  "Option.bind (ts_minus \<lparr>ts_seconds = 5, ts_nanoseconds = 1\<rparr> \<lparr>ts_seconds = 7, ts_nanoseconds = 999999999\<rparr>)
      (ts_add \<lparr>ts_seconds = 7, ts_nanoseconds = 999999999\<rparr>) = Some \<lparr>ts_seconds = 5, ts_nanoseconds = 1\<rparr>"
  using timestamp_add_sub [of "\<lparr>ts_seconds = 5, ts_nanoseconds = 1\<rparr>"
      "\<lparr>ts_seconds = 7, ts_nanoseconds = 999999999\<rparr>" ti_zero]
  by (simp add: ts_ok_def ti_ok_def ti_zero_def units in_i64_iff)

text \<open>
  The RTP time of a PTP time is the number of whole samples elapsed at that time, computed
  without overflow under the condition the code asserts.
\<close>

theorem timestamp_rtp_time:
  assumes "ts_ok ts" and "frequency \<noteq> 0" and "(unat (ts_seconds ts) + 1) * unat frequency < 2 ^ 64"
  shows "map_option unat (ts_to_rtp ts frequency) = Some (nat (ts_value ts) * unat frequency div 1000000000)"
  by (rule ts_to_rtp_value [OF assms])

theorem timestamp_rtp_time_witness:
  "map_option unat (ts_to_rtp \<lparr>ts_seconds = 3, ts_nanoseconds = 500000000\<rparr> 48000) = Some 168000"
  using timestamp_rtp_time [of "\<lparr>ts_seconds = 3, ts_nanoseconds = 500000000\<rparr>" 48000]
  by (simp add: ts_ok_def ts_value_def)

text \<open>
  Reading back the ten bytes \<open>write_to\<close> appends gives the timestamp for seconds below
  \<open>2^48\<close>, and reading is defined exactly on views of at least ten bytes.
\<close>

theorem timestamp_wire_roundtrip:
  assumes "unat (ts_seconds ts) < 2 ^ 48"
  shows "ts_from_data (ts_write_to [] ts @ rest) = Some ts \<and>
    ((\<exists>x. ts_from_data d = Some x) \<longleftrightarrow> 10 \<le> length d)"
  using ts_roundtrip_mod [of ts rest] uint48_roundtrip [OF assms] ts_from_data_defined [of d] by simp

theorem timestamp_wire_roundtrip_witness:
  "ts_from_data (ts_write_to [] \<lparr>ts_seconds = 258, ts_nanoseconds = 3\<rparr> @ [9]) = Some \<lparr>ts_seconds = 258, ts_nanoseconds = 3\<rparr>"
  using timestamp_wire_roundtrip [of "\<lparr>ts_seconds = 258, ts_nanoseconds = 3\<rparr>" "[9]"] by simp

end
