(* ===== verification/Ptp_Messages.thy ===== *)
theory Ptp_Messages
  imports Ptp_Time
begin

text \<open>
  The PTP data types and messages: ptp/ptp_definitions.hpp, ptp/types/ (clock and port identities,
  clock quality, sdo id) and ptp/messages/. Parsers return \<open>None\<close> where they read outside the
  datagram, the code's error where it checks, and the message otherwise. The lemmas show round trips,
  the wire layout, and exactly which datagrams are read out of bounds.
\<close>

unbundle bit_operations_syntax

section \<open>Enumerations\<close>

datatype ptp_error =
    Invalid_data | Invalid_header_length | Invalid_message_length | Only_ordinary_clock_supported
  | Only_slave_supported | Failed_to_get_network_interfaces | Network_interface_not_found
  | No_mac_address_available | Invalid_clock_identity | Port_invalid | Port_already_exists | Too_many_ports

datatype state =
    Undefined | Initializing | Faulty | Disabled | Listening | Pre_master | Master | Passive
  | Uncalibrated | Slave

datatype state_decision_code = M1 | M2 | M3 | S1 | P1 | P2

datatype message_type =
    Sync | Delay_req | P_delay_req | P_delay_resp | Reserved1 | Reserved2 | Reserved3 | Reserved4
  | Follow_up | Delay_resp | P_delay_resp_follow_up | Announce | Signaling | Management
  | Reserved5 | Reserved6

definition message_types :: "message_type list" where
  "message_types = [Sync, Delay_req, P_delay_req, P_delay_resp, Reserved1, Reserved2, Reserved3,
     Reserved4, Follow_up, Delay_resp, P_delay_resp_follow_up, Announce, Signaling, Management,
     Reserved5, Reserved6]"

text \<open>\<open>static_cast\<close> to and from the underlying type.\<close>

definition message_type_of :: "byte \<Rightarrow> message_type" where
  "message_type_of b = message_types ! (unat b mod 16)"

fun message_type_code :: "message_type \<Rightarrow> byte" where
  "message_type_code Sync = 0" | "message_type_code Delay_req = 1"
| "message_type_code P_delay_req = 2" | "message_type_code P_delay_resp = 3"
| "message_type_code Reserved1 = 4" | "message_type_code Reserved2 = 5"
| "message_type_code Reserved3 = 6" | "message_type_code Reserved4 = 7"
| "message_type_code Follow_up = 8" | "message_type_code Delay_resp = 9"
| "message_type_code P_delay_resp_follow_up = 10" | "message_type_code Announce = 11"
| "message_type_code Signaling = 12" | "message_type_code Management = 13"
| "message_type_code Reserved5 = 14" | "message_type_code Reserved6 = 15"

section \<open>Identities\<close>

text \<open>\<open>std::array<uint8_t, 8>\<close> as a list of 8 bytes.\<close>

type_synonym clock_identity = "byte list"

definition ci_ok :: "clock_identity \<Rightarrow> bool" where
  "ci_ok c \<longleftrightarrow> length c = 8"

definition ci_from_mac :: "byte list \<Rightarrow> clock_identity option" where
  "ci_from_mac mac = (if list_all (\<lambda>b. b = 0) mac then None else Some (take 6 mac @ [0x2f, 0xaa]))"

definition ci_from_data :: "byte list \<Rightarrow> clock_identity option" where
  "ci_from_data view = read_block view 0 8"

definition ci_write_to :: "byte list \<Rightarrow> clock_identity \<Rightarrow> byte list" where
  "ci_write_to buf c = buf @ c"

definition ci_all_zero :: "clock_identity \<Rightarrow> bool" where
  "ci_all_zero c = list_all (\<lambda>b. b = 0) c"

definition ci_is_valid :: "clock_identity \<Rightarrow> bool" where
  "ci_is_valid c =
     (if ci_all_zero c then False
      else if c ! 6 = 0x2f \<and> c ! 7 = 0xaa
        then c ! 0 \<noteq> 0 \<or> c ! 1 \<noteq> 0 \<or> c ! 2 \<noteq> 0 \<or> c ! 3 \<noteq> 0 \<or> c ! 4 \<noteq> 0 \<or> c ! 5 \<noteq> 0
      else True)"

text \<open>\<open>std::lexicographical_compare\<close>\<close>

fun lex_compare :: "byte list \<Rightarrow> byte list \<Rightarrow> bool" where
  "lex_compare _ [] = False"
| "lex_compare [] (y # ys) = True"
| "lex_compare (x # xs) (y # ys) = (if x < y then True else if y < x then False else lex_compare xs ys)"

definition ci_lt :: "clock_identity \<Rightarrow> clock_identity \<Rightarrow> bool" where
  "ci_lt a b = lex_compare a b"

definition ci_gt :: "clock_identity \<Rightarrow> clock_identity \<Rightarrow> bool" where
  "ci_gt a b = lex_compare b a"

record port_identity =
  pi_clock_identity :: clock_identity
  pi_port_number :: u16

definition pi_from_data :: "byte list \<Rightarrow> (ptp_error + port_identity) option" where
  "pi_from_data d =
     (if length d < 10 then Some (Inl Invalid_message_length)
      else do {
        c \<leftarrow> ci_from_data d;
        n \<leftarrow> read_be d 8;
        Some (Inr \<lparr>pi_clock_identity = c, pi_port_number = n\<rparr>) })"

definition pi_write_to :: "byte list \<Rightarrow> port_identity \<Rightarrow> byte list" where
  "pi_write_to buf p = ci_write_to buf (pi_clock_identity p) @ enc_be (pi_port_number p)"

definition pi_is_valid :: "port_identity \<Rightarrow> bool" where
  "pi_is_valid p \<longleftrightarrow> pi_port_number p \<ge> 0x1 \<and> pi_port_number p \<le> 0xfffe \<and> ci_is_valid (pi_clock_identity p)"

text \<open>\<open>ClockAccuracy\<close> and \<open>TimeSource\<close> are cast from any byte, so they are their underlying value.\<close>

record clock_quality =
  clock_class :: byte
  clock_accuracy :: byte
  offset_scaled_log_variance :: u16

definition clock_accuracy_unknown :: byte where "clock_accuracy_unknown = 0xFE"

definition clock_quality_init :: "bool \<Rightarrow> clock_quality" where
  "clock_quality_init slave_only = \<lparr>clock_class = (if slave_only then 255 else 248),
     clock_accuracy = clock_accuracy_unknown, offset_scaled_log_variance = 0\<rparr>"

definition clock_quality_write_to :: "byte list \<Rightarrow> clock_quality \<Rightarrow> byte list" where
  "clock_quality_write_to buf q =
     buf @ enc_be (clock_class q) @ enc_be (clock_accuracy q) @ enc_be (offset_scaled_log_variance q)"

record sdo_id =
  sdo_major :: byte
  sdo_minor :: byte

section \<open>Message header\<close>

record version =
  version_major :: byte
  version_minor :: byte

record flag_field =
  alternate_master_flag :: bool
  two_step_flag :: bool
  unicast_flag :: bool
  profile_specific_1 :: bool
  profile_specific_2 :: bool
  leap61 :: bool
  leap59 :: bool
  current_utc_offset_valid :: bool
  ptp_timescale :: bool
  time_traceable :: bool
  frequency_traceable :: bool
  synchronization_uncertain :: bool

definition flags_from_octets :: "byte \<Rightarrow> byte \<Rightarrow> flag_field" where
  "flags_from_octets octet1 octet2 =
     \<lparr>alternate_master_flag = bit octet1 0, two_step_flag = bit octet1 1, unicast_flag = bit octet1 2,
      profile_specific_1 = bit octet1 5, profile_specific_2 = bit octet1 6,
      leap61 = bit octet2 0, leap59 = bit octet2 1, current_utc_offset_valid = bit octet2 2,
      ptp_timescale = bit octet2 3, time_traceable = bit octet2 4, frequency_traceable = bit octet2 5,
      synchronization_uncertain = bit octet2 6\<rparr>"

definition flags_to_octets :: "flag_field \<Rightarrow> u16" where
  "flags_to_octets f =
     push_bit 14 (of_bool (profile_specific_2 f)) OR push_bit 13 (of_bool (profile_specific_1 f)) OR
     push_bit 10 (of_bool (unicast_flag f)) OR push_bit 9 (of_bool (two_step_flag f)) OR
     push_bit 8 (of_bool (alternate_master_flag f)) OR push_bit 6 (of_bool (synchronization_uncertain f)) OR
     push_bit 5 (of_bool (frequency_traceable f)) OR push_bit 4 (of_bool (time_traceable f)) OR
     push_bit 3 (of_bool (ptp_timescale f)) OR push_bit 2 (of_bool (current_utc_offset_valid f)) OR
     push_bit 1 (of_bool (leap59 f)) OR of_bool (leap61 f)"

text \<open>\<open>int64_t\<close> and \<open>int8_t\<close> fields are kept as their bits.\<close>

record message_header =
  sdo_id :: sdo_id
  message_type :: message_type
  version :: version
  message_length :: u16
  domain_number :: byte
  flags :: flag_field
  correction_field :: u64
  source_port_identity :: port_identity
  sequence_id :: u16
  log_message_interval :: byte

definition k_header_size :: nat where "k_header_size = 34"

definition header_from_data :: "byte list \<Rightarrow> (ptp_error + message_header) option" where
  "header_from_data d =
     (if d = [] then Some (Inl Invalid_data)
      else do {
        len \<leftarrow> read_be d 2;
        if length d \<noteq> unat (len :: u16) then Some (Inl Invalid_message_length)
        else do {
          d0 \<leftarrow> read_at d 0;
          d5 \<leftarrow> read_at d 5;
          d1 \<leftarrow> read_at d 1;
          d4 \<leftarrow> read_at d 4;
          d6 \<leftarrow> read_at d 6;
          d7 \<leftarrow> read_at d 7;
          corr \<leftarrow> read_be d 8;
          ident \<leftarrow> read_block d 20 8;
          port \<leftarrow> read_be d 28;
          seq \<leftarrow> read_be d 30;
          d33 \<leftarrow> read_at d 33;
          Some (Inr
            \<lparr>sdo_id = \<lparr>sdo_major = drop_bit 4 (d0 AND 0xF0), sdo_minor = d5\<rparr>,
             message_type = message_type_of (d0 AND 0x0F),
             version = \<lparr>version_major = d1 AND 0x0F, version_minor = drop_bit 4 (d1 AND 0xF0)\<rparr>,
             message_length = len, domain_number = d4, flags = flags_from_octets d6 d7,
             correction_field = corr,
             source_port_identity = \<lparr>pi_clock_identity = ident, pi_port_number = port\<rparr>,
             sequence_id = seq, log_message_interval = d33\<rparr>) } })"

definition header_write_to :: "byte list \<Rightarrow> message_header \<Rightarrow> byte list" where
  "header_write_to buf h = pi_write_to (buf
     @ enc_be (((sdo_major (sdo_id h) AND 0x0F) * 16) OR (message_type_code (message_type h) AND 0x0F))
     @ enc_be ((version_minor (version h) * 16) OR (version_major (version h) AND 0x0F))
     @ enc_be (message_length h) @ enc_be (domain_number h) @ enc_be (sdo_minor (sdo_id h))
     @ enc_be (flags_to_octets (flags h)) @ enc_be (correction_field h) @ enc_be (0 :: u32))
     (source_port_identity h)
     @ enc_be (sequence_id h) @ enc_be (0 :: byte) @ enc_be (log_message_interval h)"

definition header_matches :: "message_header \<Rightarrow> message_header \<Rightarrow> bool" where
  "header_matches h other \<longleftrightarrow>
     source_port_identity h = source_port_identity other \<and> sequence_id h = sequence_id other"

section \<open>Messages\<close>

record announce_message =
  an_header :: message_header
  an_origin_timestamp :: timestamp
  current_utc_offset :: u16
  grandmaster_priority1 :: byte
  grandmaster_clock_quality :: clock_quality
  grandmaster_priority2 :: byte
  grandmaster_identity :: clock_identity
  steps_removed :: u16
  time_source :: byte

definition announce_from_data :: "message_header \<Rightarrow> byte list \<Rightarrow> (ptp_error + announce_message) option" where
  "announce_from_data h d =
     (if length d < 30 then Some (Inl Invalid_message_length)
      else do {
        ts \<leftarrow> ts_from_data d;
        utc \<leftarrow> read_be d 10;
        p1 \<leftarrow> read_at d 13;
        cc \<leftarrow> read_at d 14;
        ca \<leftarrow> read_at d 15;
        var \<leftarrow> read_be d 16;
        p2 \<leftarrow> read_at d 18;
        gm \<leftarrow> ci_from_data (drop 19 d);
        steps \<leftarrow> read_be d 27;
        src \<leftarrow> read_at d 29;
        Some (Inr \<lparr>an_header = h, an_origin_timestamp = ts, current_utc_offset = utc,
          grandmaster_priority1 = p1,
          grandmaster_clock_quality = \<lparr>clock_class = cc, clock_accuracy = ca, offset_scaled_log_variance = var\<rparr>,
          grandmaster_priority2 = p2, grandmaster_identity = gm, steps_removed = steps, time_source = src\<rparr>) })"

text \<open>\<open>DelayReqMessage\<close> is \<open>SyncMessage\<close>; the receive timestamp is not on the wire.\<close>

record sync_message =
  sync_header :: message_header
  sync_origin_timestamp :: timestamp
  sync_receive_timestamp :: timestamp

definition sync_from_data :: "message_header \<Rightarrow> byte list \<Rightarrow> (ptp_error + sync_message) option" where
  "sync_from_data h d =
     (if length d < (k_header_size + 10) - k_header_size then Some (Inl Invalid_message_length)
      else do {
        ts \<leftarrow> ts_from_data d;
        Some (Inr \<lparr>sync_header = h, sync_origin_timestamp = ts, sync_receive_timestamp = ts_zero\<rparr>) })"

definition sync_write_to :: "byte list \<Rightarrow> sync_message \<Rightarrow> byte list" where
  "sync_write_to buf m = ts_write_to (header_write_to buf (sync_header m)) (sync_origin_timestamp m)"

record follow_up_message =
  fu_header :: message_header
  precise_origin_timestamp :: timestamp

definition follow_up_from_data :: "message_header \<Rightarrow> byte list \<Rightarrow> (ptp_error + follow_up_message) option" where
  "follow_up_from_data h d =
     (if length d < 10 then Some (Inl Invalid_message_length)
      else do { ts \<leftarrow> ts_from_data d; Some (Inr \<lparr>fu_header = h, precise_origin_timestamp = ts\<rparr>) })"

record delay_resp_message =
  dr_header :: message_header
  dr_receive_timestamp :: timestamp
  dr_requesting_port_identity :: port_identity

definition delay_resp_from_data :: "message_header \<Rightarrow> byte list \<Rightarrow> (ptp_error + delay_resp_message) option" where
  "delay_resp_from_data h d =
     (if length d < 20 then Some (Inl Invalid_message_length)
      else do {
        ts \<leftarrow> ts_from_data d;
        p \<leftarrow> pi_from_data (drop 10 d);
        case p of
          Inl e \<Rightarrow> Some (Inl e)
        | Inr pid \<Rightarrow> Some (Inr \<lparr>dr_header = h, dr_receive_timestamp = ts, dr_requesting_port_identity = pid\<rparr>) })"

record pdelay_req_message =
  pdelay_origin_timestamp :: timestamp

definition pdelay_req_from_data :: "byte list \<Rightarrow> (ptp_error + pdelay_req_message) option" where
  "pdelay_req_from_data d =
     (if length d < 20 then Some (Inl Invalid_message_length)
      else do { ts \<leftarrow> ts_from_data d; Some (Inr \<lparr>pdelay_origin_timestamp = ts\<rparr>) })"

definition pdelay_req_write_to :: "byte list \<Rightarrow> pdelay_req_message \<Rightarrow> byte list" where
  "pdelay_req_write_to buf m = ts_write_to buf (pdelay_origin_timestamp m)"

text \<open>\<open>PdelayRespMessage\<close> and \<open>PdelayRespFollowUpMessage\<close> have the same layout.\<close>

record pdelay_resp_message =
  pdelay_resp_timestamp :: timestamp
  pdelay_requesting_port_identity :: port_identity

definition pdelay_resp_from_data :: "byte list \<Rightarrow> (ptp_error + pdelay_resp_message) option" where
  "pdelay_resp_from_data d =
     (if length d < 20 then Some (Inl Invalid_message_length)
      else do {
        ts \<leftarrow> ts_from_data d;
        p \<leftarrow> pi_from_data (drop 10 d);
        case p of
          Inl e \<Rightarrow> Some (Inl e)
        | Inr pid \<Rightarrow> Some (Inr \<lparr>pdelay_resp_timestamp = ts, pdelay_requesting_port_identity = pid\<rparr>) })"

definition pdelay_resp_follow_up_from_data :: "byte list \<Rightarrow> (ptp_error + pdelay_resp_message) option" where
  "pdelay_resp_follow_up_from_data d =
     (if length d < 20 then Some (Inl Invalid_message_length)
      else do {
        ts \<leftarrow> ts_from_data d;
        p \<leftarrow> pi_from_data (drop 10 d);
        case p of
          Inl e \<Rightarrow> Some (Inl e)
        | Inr pid \<Rightarrow> Some (Inr \<lparr>pdelay_resp_timestamp = ts, pdelay_requesting_port_identity = pid\<rparr>) })"

section \<open>Bytes and bits\<close>

lemma flags_roundtrip:
  "flags_from_octets (ucast (drop_bit 8 (flags_to_octets f))) (ucast (flags_to_octets f)) = f"
  by (rule flag_field.equality)
     (simp_all add: flags_from_octets_def flags_to_octets_def bit_simps)

lemma message_type_roundtrip: "message_type_of (message_type_code t) = t"
  by (cases t) (simp_all add: message_type_of_def message_types_def)

lemma message_type_code_small: "message_type_code t AND 0x0F = message_type_code t"
  by (cases t) simp_all

lemma nibble_and: "unat (a :: byte) < 16 \<Longrightarrow> a AND 0x0F = a"
proof -
  assume "unat a < 16"
  moreover have "a AND 0x0F = take_bit 4 a" by (simp add: take_bit_eq_mask mask_eq_exp_minus_1)
  moreover have "take_bit 4 a = a"
    using \<open>unat a < 16\<close> by (simp add: word_unat_eq_iff unsigned_take_bit_eq take_bit_nat_eq_self)
  ultimately show ?thesis by simp
qed

lemma nibbles_pack:
  assumes "a AND 0x0F = (a :: byte)" and "b AND 0x0F = b"
  shows "drop_bit 4 ((a * 16 OR b) AND 0xF0) = a" and "(a * 16 OR b) AND 0x0F = b"
proof -
  have m: "(0x0F :: byte) = mask 4" "(0xF0 :: byte) = push_bit 4 (mask 4)"
    by (simp_all add: mask_eq_exp_minus_1 push_bit_eq_mult)
  have p: "a * 16 = push_bit 4 a" by (simp add: push_bit_eq_mult)
  have a: "bit a n \<Longrightarrow> n < 4" for n
    using assms(1) unfolding m by (metis bit_and_iff bit_mask_iff)
  have b: "bit b n \<Longrightarrow> n < 4" for n
    using assms(2) unfolding m by (metis bit_and_iff bit_mask_iff)
  show "drop_bit 4 ((a * 16 OR b) AND 0xF0) = a"
    unfolding m p using a b by (intro bit_word_eqI) (fastforce simp: bit_simps)
  show "(a * 16 OR b) AND 0x0F = b"
    unfolding m p using a b by (intro bit_word_eqI) (fastforce simp: bit_simps)
qed

section \<open>Order of clock identities\<close>

text \<open>The lexicographic order is the order of the identities read as big-endian numbers.\<close>

lemma lex_compare_value:
  "length a = length b \<Longrightarrow> lex_compare a b \<longleftrightarrow> le_value (rev a) < le_value (rev b)"
proof (induction a b rule: lex_compare.induct)
  case (3 x xs y ys)
  then have len: "length xs = length ys" by simp
  have v: "le_value (rev (z # zs)) = le_value (rev zs) + 256 ^ length zs * unat z" for z :: byte and zs
    by (simp add: le_value_append)
  have b: "le_value (rev xs) < 256 ^ length ys" "le_value (rev ys) < 256 ^ length ys"
    using le_value_bound [of "rev xs"] le_value_bound [of "rev ys"] len by simp_all
  have step: "p + m * unat c < q + m * unat d" if "c < d" "p < m" for c d :: byte and p q m :: nat
  proof -
    have "Suc (unat c) \<le> unat d" using that(1) by (simp add: word_less_nat_alt)
    then have "m * Suc (unat c) \<le> m * unat d" by (rule mult_le_mono2)
    then show ?thesis using that(2) by simp
  qed
  show ?case
    using 3 step [of x y "le_value (rev xs)" "256 ^ length ys" "le_value (rev ys)"]
      step [of y x "le_value (rev ys)" "256 ^ length ys" "le_value (rev xs)"] b len
    unfolding v by (cases x y rule: linorder_cases) auto
qed auto

lemma le_value_rev_inject:
  "length a = length b \<Longrightarrow> le_value (rev a) = le_value (rev b) \<Longrightarrow> a = b"
  by (metis le_bytes_le_value length_rev rev_rev_ident)

lemma ci_linear:
  assumes "ci_ok a" and "ci_ok b"
  shows "ci_lt a b \<or> a = b \<or> ci_lt b a" and "\<not> (ci_lt a b \<and> ci_lt b a)" and "\<not> ci_lt a a"
    and "ci_gt a b \<longleftrightarrow> ci_lt b a"
  using assms lex_compare_value [of a b] lex_compare_value [of b a] lex_compare_value [of a a]
    le_value_rev_inject [of a b]
  by (auto simp: ci_lt_def ci_gt_def ci_ok_def)

lemma ci_lt_trans: "ci_ok a \<Longrightarrow> ci_ok b \<Longrightarrow> ci_ok c \<Longrightarrow> ci_lt a b \<Longrightarrow> ci_lt b c \<Longrightarrow> ci_lt a c"
  using lex_compare_value [of a b] lex_compare_value [of b c] lex_compare_value [of a c]
  by (simp add: ci_lt_def ci_ok_def)

section \<open>Round trips\<close>

definition pi_ok :: "port_identity \<Rightarrow> bool" where
  "pi_ok p \<longleftrightarrow> ci_ok (pi_clock_identity p)"

text \<open>Headers with the four-bit fields in range.\<close>

definition header_ok :: "message_header \<Rightarrow> bool" where
  "header_ok h \<longleftrightarrow> unat (sdo_major (sdo_id h)) < 16 \<and> unat (version_major (version h)) < 16 \<and>
     unat (version_minor (version h)) < 16 \<and> pi_ok (source_port_identity h)"

definition ts_on_wire :: "timestamp \<Rightarrow> bool" where
  "ts_on_wire t \<longleftrightarrow> unat (ts_seconds t) < 2 ^ 48"

lemma pi_roundtrip:
  assumes "pi_ok p"
  shows "pi_from_data (pi_write_to [] p @ rest) = Some (Inr p)"
proof -
  have l: "length (pi_clock_identity p) = 8" using assms by (simp add: pi_ok_def ci_ok_def)
  then have "read_be (pi_clock_identity p @ enc_be (pi_port_number p) @ rest) 8 = Some (pi_port_number p)"
    by (intro read_be_here) simp_all
  then show ?thesis using l by (simp add: pi_from_data_def pi_write_to_def ci_from_data_def ci_write_to_def)
qed

lemma length_header: "pi_ok (source_port_identity h) \<Longrightarrow> length (header_write_to buf h) = length buf + 34"
  by (simp add: header_write_to_def pi_write_to_def ci_write_to_def pi_ok_def ci_ok_def)

text \<open>The header as its octets.\<close>

lemma header_octets:
  fixes h
  defines "o1 \<equiv> sdo_major (sdo_id h) AND 0x0F" and "o2 \<equiv> message_type_code (message_type h) AND 0x0F"
  shows "header_write_to [] h @ body =
    [o1 * 16 OR o2, version_minor (version h) * 16 OR (version_major (version h) AND 0x0F)]
    @ enc_be (message_length h) @ [domain_number h, sdo_minor (sdo_id h),
      ucast (drop_bit 8 (flags_to_octets (flags h))), ucast (flags_to_octets (flags h))]
    @ enc_be (correction_field h) @ enc_be (0 :: u32) @ pi_clock_identity (source_port_identity h)
    @ enc_be (pi_port_number (source_port_identity h)) @ enc_be (sequence_id h)
    @ [0, log_message_interval h] @ body"
  by (simp add: header_write_to_def pi_write_to_def ci_write_to_def enc_be_u16 o1_def o2_def)

lemma header_roundtrip:
  assumes ok: "header_ok h" and len: "unat (message_length h) = 34 + length body"
  shows "header_from_data (header_write_to [] h @ body) = Some (Inr h)"
proof -
  let ?d = "header_write_to [] h @ body" and ?p = "source_port_identity h"
  let ?v = "version h"
  have l: "length (pi_clock_identity ?p) = 8" using ok by (simp add: header_ok_def pi_ok_def ci_ok_def)
  have nib: "sdo_major (sdo_id h) AND 0x0F = sdo_major (sdo_id h)" "version_major ?v AND 0x0F = version_major ?v"
    "version_minor ?v AND 0x0F = version_minor ?v"
    using ok by (simp_all add: header_ok_def nibble_and)
  note code = message_type_code_small [of "message_type h"]
  let ?b0 = "sdo_major (sdo_id h) * 16 OR message_type_code (message_type h)"
  let ?b1 = "version_minor ?v * 16 OR version_major ?v"
  let ?f = "flags_to_octets (flags h)"
  let ?pre = "[?b0, ?b1] @ enc_be (message_length h) @ [domain_number h, sdo_minor (sdo_id h),
      ucast (drop_bit 8 ?f), ucast ?f]"
  have d: "?d = ?pre @ enc_be (correction_field h) @ enc_be (0 :: u32) @ pi_clock_identity ?p
    @ enc_be (pi_port_number ?p) @ enc_be (sequence_id h) @ [0, log_message_interval h] @ body"
    by (simp add: header_octets nib code)
  have size: "length ?d = 34 + length body" using ok by (simp add: length_header header_ok_def)
  then have ne: "?d \<noteq> []" by auto
  have pre: "length ?pre = 8" by simp
  obtain x y where xy: "enc_be (message_length h) = [x, y]" by (simp add: enc_be_u16)
  have "?d = [?b0, ?b1] @ enc_be (message_length h) @ drop 4 ?d" unfolding d by (simp add: xy)
  then have len_field: "read_be ?d 2 = Some (message_length h)"
    using read_be_here [of "[?b0, ?b1]" 2 "message_length h" "drop 4 ?d"] by simp
  have at: "?d ! 0 = ?b0" "?d ! 1 = ?b1" "?d ! 4 = domain_number h" "?d ! 5 = sdo_minor (sdo_id h)"
    "?d ! 6 = ucast (drop_bit 8 ?f)" "?d ! 7 = ucast ?f"
    unfolding d by (simp_all add: xy)
  have last: "?d ! 33 = log_message_interval h"
    unfolding d by (simp add: nth_append l xy)
  have corr: "read_be ?d 8 = Some (correction_field h)"
    unfolding d by (rule read_be_here) simp_all
  let ?pre2 = "?pre @ enc_be (correction_field h) @ enc_be (0 :: u32)"
  have d2: "?d = ?pre2 @ pi_clock_identity ?p
    @ enc_be (pi_port_number ?p) @ enc_be (sequence_id h) @ [0, log_message_interval h] @ body"
    unfolding d by simp
  have pre2: "length ?pre2 = 20" by simp
  have ident: "take 8 (drop 20 ?d) = pi_clock_identity ?p"
    unfolding d2 using pre2 l by (metis append_eq_conv_conj)
  let ?pre3 = "?pre2 @ pi_clock_identity ?p"
  have port: "read_be ?d 28 = Some (pi_port_number ?p)"
  proof -
    have "?d = ?pre3 @ enc_be (pi_port_number ?p) @ enc_be (sequence_id h) @ [0, log_message_interval h] @ body"
      unfolding d2 by simp
    moreover have "length ?pre3 = 28" using pre2 l by simp
    ultimately show ?thesis by (rule read_be_at) simp
  qed
  have seq: "read_be ?d 30 = Some (sequence_id h)"
  proof -
    have "?d = (?pre3 @ enc_be (pi_port_number ?p)) @ enc_be (sequence_id h) @ [0, log_message_interval h] @ body"
      unfolding d2 by simp
    moreover have "length (?pre3 @ enc_be (pi_port_number ?p)) = 30" using pre2 l by simp
    ultimately show ?thesis by (rule read_be_at) simp
  qed
  note packs = nibbles_pack [OF nib(1) code] nibbles_pack [OF nib(3) nib(2)]
  show ?thesis
    using ne size len_field at last corr ident port seq packs len
    by (simp add: header_from_data_def flags_roundtrip message_type_roundtrip)
qed

section \<open>Bounds\<close>

lemma header_from_data_none:
  "header_from_data d = None \<longleftrightarrow> d \<noteq> [] \<and> length d < 34 \<and>
     (length d < 4 \<or> read_be d 2 = Some (of_nat (length d) :: u16))"
proof (cases "4 \<le> length d")
  case False
  then have "read_be d 2 = (None :: u16 option)" by (simp add: read_be_block read_block_def)
  then show ?thesis using False by (simp add: header_from_data_def)
next
  case True
  then obtain len :: u16 where len: "read_be d 2 = Some len" using read_be_defined [where 'a = 16, of 2 d] by auto
  have ne: "d \<noteq> []" using True by auto
  show ?thesis
  proof (cases "34 \<le> length d")
    case True
    obtain c :: u64 where c: "read_be d 8 = Some c" using True read_be_defined [where 'a = 64, of 8 d] by auto
    obtain p :: u16 where p: "read_be d 28 = Some p" using True read_be_defined [where 'a = 16, of 28 d] by auto
    obtain s :: u16 where s: "read_be d 30 = Some s" using True read_be_defined [where 'a = 16, of 30 d] by auto
    show ?thesis using True ne len c p s by (simp add: header_from_data_def)
  next
    case False
    then have "read_at d 33 = None" by simp
    then have "header_from_data d = None \<longleftrightarrow> length d = unat len"
      using ne len by (auto simp: header_from_data_def bind_None_iff)
    moreover have "length d = unat len \<longleftrightarrow> len = of_nat (length d)"
      using False unat_of_nat_small [where 'a = 16, of "length d"] by auto
    ultimately show ?thesis using False True ne len by simp
  qed
qed

lemma pi_from_data_total: "pi_from_data d \<noteq> None"
  using read_be_defined [where 'a = 16, of 8 d]
  by (auto simp: pi_from_data_def ci_from_data_def)

lemma pi_from_data_long: "10 \<le> length d \<Longrightarrow> \<exists>p. pi_from_data d = Some (Inr p)"
  using read_be_defined [where 'a = 16, of 8 d]
  by (auto simp: pi_from_data_def ci_from_data_def)

text \<open>A body is refused when it is shorter than its message, and otherwise parsed.\<close>

lemma bodies_total:
  "announce_from_data h d = Some (Inl Invalid_message_length) \<longleftrightarrow> length d < 30"
  "30 \<le> length d \<Longrightarrow> \<exists>m. announce_from_data h d = Some (Inr m)"
  "length d < 10 \<Longrightarrow> sync_from_data h d = Some (Inl Invalid_message_length)"
  "10 \<le> length d \<Longrightarrow> \<exists>m. sync_from_data h d = Some (Inr m)"
  "length d < 10 \<Longrightarrow> follow_up_from_data h d = Some (Inl Invalid_message_length)"
  "10 \<le> length d \<Longrightarrow> \<exists>m. follow_up_from_data h d = Some (Inr m)"
  "length d < 20 \<Longrightarrow> delay_resp_from_data h d = Some (Inl Invalid_message_length)"
  "20 \<le> length d \<Longrightarrow> \<exists>m. delay_resp_from_data h d = Some (Inr m)"
proof -
  have ts: "10 \<le> length d \<Longrightarrow> \<exists>t. ts_from_data d = Some t" by (simp add: ts_from_data_defined)
  have ann: "\<exists>m. announce_from_data h d = Some (Inr m)" if "30 \<le> length d"
  proof -
    have les: "10 \<le> length d" "12 \<le> length d" "18 \<le> length d" "29 \<le> length d" using that by simp_all
    then obtain t where t: "ts_from_data d = Some t" using ts by blast
    obtain u :: u16 where u: "read_be d 10 = Some u" using les read_be_defined [where 'a = 16, of 10 d] by auto
    obtain v :: u16 where v: "read_be d 16 = Some v" using les read_be_defined [where 'a = 16, of 16 d] by auto
    obtain w :: u16 where w: "read_be d 27 = Some w" using les read_be_defined [where 'a = 16, of 27 d] by auto
    show ?thesis using that t u v w by (simp add: announce_from_data_def ci_from_data_def)
  qed
  show "30 \<le> length d \<Longrightarrow> \<exists>m. announce_from_data h d = Some (Inr m)" by (rule ann)
  show "announce_from_data h d = Some (Inl Invalid_message_length) \<longleftrightarrow> length d < 30"
    using ann by (cases "length d < 30") (auto simp: announce_from_data_def)
  show "length d < 10 \<Longrightarrow> sync_from_data h d = Some (Inl Invalid_message_length)"
    by (simp add: sync_from_data_def)
  show "10 \<le> length d \<Longrightarrow> \<exists>m. sync_from_data h d = Some (Inr m)"
    using ts by (auto simp: sync_from_data_def)
  show "length d < 10 \<Longrightarrow> follow_up_from_data h d = Some (Inl Invalid_message_length)"
    by (simp add: follow_up_from_data_def)
  show "10 \<le> length d \<Longrightarrow> \<exists>m. follow_up_from_data h d = Some (Inr m)"
    using ts by (auto simp: follow_up_from_data_def)
  show "length d < 20 \<Longrightarrow> delay_resp_from_data h d = Some (Inl Invalid_message_length)"
    by (simp add: delay_resp_from_data_def)
  show "20 \<le> length d \<Longrightarrow> \<exists>m. delay_resp_from_data h d = Some (Inr m)"
  proof -
    assume le: "20 \<le> length d"
    then have "10 \<le> length (drop 10 d)" by simp
    with pi_from_data_long ts le show ?thesis by (fastforce simp: delay_resp_from_data_def)
  qed
qed

section \<open>Message layouts\<close>

lemma length_ts [simp]: "length (ts_write_to buf t) = length buf + 10"
  by (simp add: ts_write_to_def)

lemma ts_roundtrip: "ts_on_wire t \<Longrightarrow> ts_from_data (ts_write_to [] t @ rest) = Some t"
  by (simp add: ts_roundtrip_mod uint48_roundtrip ts_on_wire_def)

text \<open>The octets of an Announce body (IEEE 1588-2019, table 43).\<close>

definition announce_octets :: "announce_message \<Rightarrow> byte list" where
  "announce_octets a = ts_write_to [] (an_origin_timestamp a) @ enc_be (current_utc_offset a)
     @ [0, grandmaster_priority1 a] @ clock_quality_write_to [] (grandmaster_clock_quality a)
     @ [grandmaster_priority2 a] @ grandmaster_identity a @ enc_be (steps_removed a) @ [time_source a]"

lemma announce_roundtrip:
  assumes ts: "ts_on_wire (an_origin_timestamp a)" and gm: "ci_ok (grandmaster_identity a)"
  shows "announce_from_data (an_header a) (announce_octets a @ rest) = Some (Inr a)"
proof -
  let ?d = "announce_octets a @ rest" and ?q = "grandmaster_clock_quality a"
  let ?t = "ts_write_to [] (an_origin_timestamp a)"
  have l: "length (grandmaster_identity a) = 8" "length ?t = 10" using gm by (simp_all add: ci_ok_def)
  let ?p1 = "?t @ enc_be (current_utc_offset a) @ [0, grandmaster_priority1 a, clock_class ?q, clock_accuracy ?q]"
  let ?p2 = "?p1 @ enc_be (offset_scaled_log_variance ?q) @ [grandmaster_priority2 a]"
  let ?p3 = "?p2 @ grandmaster_identity a"
  have d1: "?d = ?t @ enc_be (current_utc_offset a) @ ([0, grandmaster_priority1 a, clock_class ?q, clock_accuracy ?q]
      @ enc_be (offset_scaled_log_variance ?q) @ [grandmaster_priority2 a] @ grandmaster_identity a
      @ enc_be (steps_removed a) @ time_source a # rest)"
    by (simp add: announce_octets_def clock_quality_write_to_def)
  have d2: "?d = ?p1 @ enc_be (offset_scaled_log_variance ?q) @ ([grandmaster_priority2 a] @ grandmaster_identity a
      @ enc_be (steps_removed a) @ time_source a # rest)" unfolding d1 by simp
  have d3: "?d = ?p3 @ enc_be (steps_removed a) @ (time_source a # rest)" unfolding d1 by simp
  have lens: "length ?p1 = 16" "length ?p2 = 19" "length ?p3 = 27" using l by simp_all
  have size: "length ?d = 30 + length rest" unfolding d3 using lens by simp
  have t: "ts_from_data ?d = Some (an_origin_timestamp a)" unfolding d1 by (rule ts_roundtrip [OF ts])
  have u: "read_be ?d 10 = Some (current_utc_offset a)" by (rule read_be_at [OF d1 l(2)]) simp
  have v: "read_be ?d 16 = Some (offset_scaled_log_variance ?q)" by (rule read_be_at [OF d2 lens(1)]) simp
  have w: "read_be ?d 27 = Some (steps_removed a)" by (rule read_be_at [OF d3 lens(3)]) simp
  have gmid: "take 8 (drop 19 ?d) = grandmaster_identity a"
  proof -
    have "?d = ?p2 @ grandmaster_identity a @ enc_be (steps_removed a) @ time_source a # rest"
      unfolding d1 by simp
    then have "drop 19 ?d = grandmaster_identity a @ enc_be (steps_removed a) @ time_source a # rest"
      using lens(2) by (metis append_eq_conv_conj)
    then show ?thesis using l(1) by simp
  qed
  have at: "?d ! 13 = grandmaster_priority1 a" "?d ! 14 = clock_class ?q" "?d ! 15 = clock_accuracy ?q"
    "?d ! 18 = grandmaster_priority2 a" "?d ! 29 = time_source a"
    unfolding d1 using l by (simp_all add: nth_append nth_Cons')
  show ?thesis
    using size t u v w gmid at by (simp add: announce_from_data_def ci_from_data_def)
qed

lemma delay_resp_roundtrip:
  assumes "ts_on_wire t" and "pi_ok p"
  shows "delay_resp_from_data h (pi_write_to (ts_write_to [] t) p @ rest)
    = Some (Inr \<lparr>dr_header = h, dr_receive_timestamp = t, dr_requesting_port_identity = p\<rparr>)"
proof -
  have d: "pi_write_to (ts_write_to [] t) p = ts_write_to [] t @ pi_write_to [] p"
    by (simp add: pi_write_to_def ci_write_to_def)
  have l: "length (pi_write_to [] p) = 10"
    using assms(2) by (simp add: pi_write_to_def ci_write_to_def pi_ok_def ci_ok_def)
  then show ?thesis
    unfolding d using ts_roundtrip [OF assms(1), of "pi_write_to [] p @ rest"] pi_roundtrip [OF assms(2), of rest]
    by (simp add: delay_resp_from_data_def)
qed

lemma sync_roundtrip:
  assumes "ts_on_wire (sync_origin_timestamp m)" and "header_ok (sync_header m)"
    and "message_length (sync_header m) = 44"
  shows "header_from_data (sync_write_to [] m) = Some (Inr (sync_header m))"
    and "sync_from_data (sync_header m) (drop 34 (sync_write_to [] m)) = Some (Inr (m\<lparr>sync_receive_timestamp := ts_zero\<rparr>))"
proof -
  have d: "sync_write_to [] m = header_write_to [] (sync_header m) @ ts_write_to [] (sync_origin_timestamp m)"
    by (simp add: sync_write_to_def ts_write_to_def)
  have l: "length (header_write_to [] (sync_header m)) = 34"
    using assms(2) by (simp add: length_header header_ok_def)
  show "header_from_data (sync_write_to [] m) = Some (Inr (sync_header m))"
    unfolding d by (rule header_roundtrip [OF assms(2)]) (simp add: assms(3))
  have "drop 34 (sync_write_to [] m) = ts_write_to [] (sync_origin_timestamp m)"
    unfolding d using l by simp
  then show "sync_from_data (sync_header m) (drop 34 (sync_write_to [] m)) = Some (Inr (m\<lparr>sync_receive_timestamp := ts_zero\<rparr>))"
    using ts_roundtrip [OF assms(1), of "[]"] by (simp add: sync_from_data_def k_header_size_def)
qed

section \<open>Properties\<close>

text \<open>
  The 34 octets \<open>write_to\<close> produces for a header with its four-bit fields in range are
  parsed back to the header, given a datagram of the length it announces.
\<close>

theorem ptp_header_roundtrip:
  assumes "header_ok h" and "unat (message_length h) = 34 + length body"
  shows "length (header_write_to [] h) = 34 \<and> header_from_data (header_write_to [] h @ body) = Some (Inr h)"
  using header_roundtrip [OF assms] length_header [of h "[]"] assms(1) by (simp add: header_ok_def)

definition example_header :: message_header where
  "example_header = \<lparr>sdo_id = \<lparr>sdo_major = 1, sdo_minor = 2\<rparr>, message_type = Announce,
     version = \<lparr>version_major = 2, version_minor = 1\<rparr>, message_length = 64, domain_number = 3,
     flags = flags_from_octets 2 8, correction_field = 65536,
     source_port_identity = \<lparr>pi_clock_identity = [1, 2, 3, 4, 5, 6, 7, 8], pi_port_number = 1\<rparr>,
     sequence_id = 77, log_message_interval = 1\<rparr>"

lemma example_header_ok: "header_ok example_header"
  by (simp add: example_header_def header_ok_def pi_ok_def ci_ok_def)

theorem ptp_header_roundtrip_witness:
  "header_from_data (header_write_to [] example_header @ replicate 30 0) = Some (Inr example_header)"
  using ptp_header_roundtrip [OF example_header_ok, of "replicate 30 0"] by (simp add: example_header_def)

text \<open>
  \<open>MessageHeader::from_data\<close> reads outside the datagram exactly for non-empty datagrams shorter
  than 34 octets that either do not contain the length field or announce their own length in it.
\<close>

theorem ptp_header_bounds:
  "header_from_data d = None \<longleftrightarrow> d \<noteq> [] \<and> length d < 34 \<and>
     (length d < 4 \<or> read_be d 2 = Some (of_nat (length d) :: u16))"
  by (rule header_from_data_none)

text \<open>
  The message bodies are never read out of bounds: a body shorter than its message is refused
  with \<open>invalid_message_length\<close> and any other is parsed.
\<close>

theorem ptp_bodies_bounds:
  "(announce_from_data h d = Some (Inl Invalid_message_length) \<and> length d < 30
     \<or> (\<exists>m. announce_from_data h d = Some (Inr m)) \<and> 30 \<le> length d) \<and>
   (sync_from_data h d = Some (Inl Invalid_message_length) \<and> length d < 10
     \<or> (\<exists>m. sync_from_data h d = Some (Inr m)) \<and> 10 \<le> length d) \<and>
   (follow_up_from_data h d = Some (Inl Invalid_message_length) \<and> length d < 10
     \<or> (\<exists>m. follow_up_from_data h d = Some (Inr m)) \<and> 10 \<le> length d) \<and>
   (delay_resp_from_data h d = Some (Inl Invalid_message_length) \<and> length d < 20
     \<or> (\<exists>m. delay_resp_from_data h d = Some (Inr m)) \<and> 20 \<le> length d)"
proof (intro conjI)
  note total = bodies_total [where h = h and d = d]
  show "announce_from_data h d = Some (Inl Invalid_message_length) \<and> length d < 30
     \<or> (\<exists>m. announce_from_data h d = Some (Inr m)) \<and> 30 \<le> length d"
    using total(1,2) by (meson not_le)
  show "sync_from_data h d = Some (Inl Invalid_message_length) \<and> length d < 10
     \<or> (\<exists>m. sync_from_data h d = Some (Inr m)) \<and> 10 \<le> length d"
    using total(3,4) by (meson not_le)
  show "follow_up_from_data h d = Some (Inl Invalid_message_length) \<and> length d < 10
     \<or> (\<exists>m. follow_up_from_data h d = Some (Inr m)) \<and> 10 \<le> length d"
    using total(5,6) by (meson not_le)
  show "delay_resp_from_data h d = Some (Inl Invalid_message_length) \<and> length d < 20
     \<or> (\<exists>m. delay_resp_from_data h d = Some (Inr m)) \<and> 20 \<le> length d"
    using total(7,8) by (meson not_le)
qed

text \<open>
  An Announce body laid out as in IEEE 1588-2019 table 43 is parsed to its fields, and a Delay_Resp
  body to its timestamp and port identity.
\<close>

theorem announce_layout:
  assumes "ts_on_wire (an_origin_timestamp a)" and "ci_ok (grandmaster_identity a)"
    and "ts_on_wire t" and "pi_ok p"
  shows "announce_from_data (an_header a) (announce_octets a @ rest) = Some (Inr a) \<and>
    delay_resp_from_data (an_header a) (pi_write_to (ts_write_to [] t) p @ rest)
      = Some (Inr \<lparr>dr_header = an_header a, dr_receive_timestamp = t, dr_requesting_port_identity = p\<rparr>)"
  using announce_roundtrip [OF assms(1,2)] delay_resp_roundtrip [OF assms(3,4)] by simp

definition example_announce :: announce_message where
  "example_announce = \<lparr>an_header = example_header, an_origin_timestamp = \<lparr>ts_seconds = 9, ts_nanoseconds = 8\<rparr>,
     current_utc_offset = 37, grandmaster_priority1 = 128,
     grandmaster_clock_quality = clock_quality_init False, grandmaster_priority2 = 128,
     grandmaster_identity = [1, 2, 3, 4, 5, 6, 7, 8], steps_removed = 0, time_source = 0xA0\<rparr>"

theorem announce_layout_witness:
  "announce_from_data example_header (announce_octets example_announce @ [0, 0]) = Some (Inr example_announce)"
proof -
  have "ts_on_wire (an_origin_timestamp example_announce)" "ci_ok (grandmaster_identity example_announce)"
    "an_header example_announce = example_header" "pi_ok (source_port_identity example_header)"
    by (simp_all add: example_announce_def ts_on_wire_def ci_ok_def example_header_def pi_ok_def)
  with announce_layout [of example_announce "an_origin_timestamp example_announce"
      "source_port_identity example_header" "[0, 0]"] show ?thesis by simp
qed

text \<open>
  The datagram of a Sync or Delay_Req message is parsed back to its header and, after the
  34 octets of the header, to the message (without the local receive timestamp).
\<close>

theorem sync_datagram_roundtrip:
  assumes "ts_on_wire (sync_origin_timestamp m)" and "header_ok (sync_header m)"
    and "message_length (sync_header m) = 44"
  shows "header_from_data (sync_write_to [] m) = Some (Inr (sync_header m)) \<and>
    sync_from_data (sync_header m) (drop 34 (sync_write_to [] m)) = Some (Inr (m\<lparr>sync_receive_timestamp := ts_zero\<rparr>))"
  using sync_roundtrip [OF assms] by simp

theorem sync_datagram_roundtrip_witness:
  "header_from_data (sync_write_to [] \<lparr>sync_header = example_header\<lparr>message_length := 44\<rparr>,
      sync_origin_timestamp = ts_zero, sync_receive_timestamp = ts_zero\<rparr>)
    = Some (Inr (example_header\<lparr>message_length := 44\<rparr>))"
proof -
  let ?m = "\<lparr>sync_header = example_header\<lparr>message_length := 44\<rparr>,
      sync_origin_timestamp = ts_zero, sync_receive_timestamp = ts_zero\<rparr>"
  have "ts_on_wire (sync_origin_timestamp ?m)" "header_ok (sync_header ?m)" "message_length (sync_header ?m) = 44"
    using example_header_ok by (simp_all add: ts_on_wire_def ts_zero_def header_ok_def)
  from sync_datagram_roundtrip [OF this] show ?thesis by simp
qed

end
