(* ===== verification/Ptp_Bmca.thy ===== *)
theory Ptp_Bmca
  imports Ptp_Messages "HOL-Library.Product_Lexorder"
begin

text \<open>
  The best master clock algorithm's data: ptp/datasets/ptp_default_ds.hpp, ptp/bmca/ (the comparison of
  data sets and the foreign master list). The comparison is shown to be antisymmetric and, between
  different grandmasters, a strict total order given by a key; the foreign master list keeps one entry
  per port and a message count that its age bounds.
\<close>

section \<open>Data sets\<close>

record default_ds =
  dd_clock_identity :: clock_identity
  dd_number_ports :: u16
  dd_clock_quality :: clock_quality
  dd_priority1 :: byte
  dd_priority2 :: byte
  dd_domain_number :: byte
  dd_slave_only :: bool
  dd_sdo_id :: sdo_id

definition default_ds_init :: "bool \<Rightarrow> default_ds" where
  "default_ds_init so = \<lparr>dd_clock_identity = replicate 8 0, dd_number_ports = 0,
     dd_clock_quality = clock_quality_init so, dd_priority1 = 128, dd_priority2 = 128,
     dd_domain_number = 0, dd_slave_only = so, dd_sdo_id = \<lparr>sdo_major = 0, sdo_minor = 0\<rparr>\<rparr>"

record comparison_data_set =
  cds_priority1 :: byte
  cds_grandmaster_identity :: clock_identity
  cds_clock_quality :: clock_quality
  cds_priority2 :: byte
  cds_steps_removed :: u16
  identity_of_senders :: clock_identity
  identity_of_receiver :: port_identity

datatype compare_result = Worse | Worse_by_topology | Error1 | Error2 | Better_by_topology | Better

definition cds_of_announce :: "announce_message \<Rightarrow> port_identity \<Rightarrow> comparison_data_set" where
  "cds_of_announce a receiver = \<lparr>cds_priority1 = grandmaster_priority1 a,
     cds_grandmaster_identity = grandmaster_identity a,
     cds_clock_quality = grandmaster_clock_quality a, cds_priority2 = grandmaster_priority2 a,
     cds_steps_removed = steps_removed a,
     identity_of_senders = pi_clock_identity (source_port_identity (an_header a)),
     identity_of_receiver = receiver\<rparr>"

definition cds_of_default :: "default_ds \<Rightarrow> comparison_data_set" where
  "cds_of_default d = \<lparr>cds_priority1 = dd_priority1 d, cds_grandmaster_identity = dd_clock_identity d,
     cds_clock_quality = dd_clock_quality d, cds_priority2 = dd_priority2 d, cds_steps_removed = 0,
     identity_of_senders = dd_clock_identity d,
     identity_of_receiver = \<lparr>pi_clock_identity = dd_clock_identity d, pi_port_number = 0\<rparr>\<rparr>"

text \<open>\<open>steps_removed + 1\<close> is computed in \<open>int\<close>.\<close>

definition cds_compare :: "comparison_data_set \<Rightarrow> comparison_data_set \<Rightarrow> compare_result" where
  "cds_compare a b =
     (if cds_grandmaster_identity a = cds_grandmaster_identity b then
        if unat (cds_steps_removed a) > unat (cds_steps_removed b) + 1 then Worse
        else if unat (cds_steps_removed a) + 1 < unat (cds_steps_removed b) then Better
        else if cds_steps_removed a > cds_steps_removed b then
          if ci_lt (pi_clock_identity (identity_of_receiver a)) (identity_of_senders a) then Worse
          else if ci_gt (pi_clock_identity (identity_of_receiver a)) (identity_of_senders a) then Worse_by_topology
          else Error1
        else if cds_steps_removed a < cds_steps_removed b then
          if ci_lt (pi_clock_identity (identity_of_receiver b)) (identity_of_senders b) then Better
          else if ci_gt (pi_clock_identity (identity_of_receiver b)) (identity_of_senders b) then Better_by_topology
          else Error1
        else if ci_gt (identity_of_senders a) (identity_of_senders b) then Worse_by_topology
        else if ci_lt (identity_of_senders a) (identity_of_senders b) then Better_by_topology
        else if pi_port_number (identity_of_receiver a) > pi_port_number (identity_of_receiver b) then Worse_by_topology
        else if pi_port_number (identity_of_receiver a) < pi_port_number (identity_of_receiver b) then Better_by_topology
        else Error2
      else if cds_priority1 a < cds_priority1 b then Better
      else if cds_priority1 a > cds_priority1 b then Worse
      else if clock_class (cds_clock_quality a) < clock_class (cds_clock_quality b) then Better
      else if clock_class (cds_clock_quality a) > clock_class (cds_clock_quality b) then Worse
      else if clock_accuracy (cds_clock_quality a) < clock_accuracy (cds_clock_quality b) then Better
      else if clock_accuracy (cds_clock_quality a) > clock_accuracy (cds_clock_quality b) then Worse
      else if offset_scaled_log_variance (cds_clock_quality a) < offset_scaled_log_variance (cds_clock_quality b) then Better
      else if offset_scaled_log_variance (cds_clock_quality a) > offset_scaled_log_variance (cds_clock_quality b) then Worse
      else if cds_priority2 a < cds_priority2 b then Better
      else if cds_priority2 a > cds_priority2 b then Worse
      else if ci_gt (cds_grandmaster_identity a) (cds_grandmaster_identity b) then Better
      else if ci_lt (cds_grandmaster_identity a) (cds_grandmaster_identity b) then Worse
      else Error1)"

definition compare_announce :: "announce_message \<Rightarrow> announce_message \<Rightarrow> port_identity \<Rightarrow> compare_result" where
  "compare_announce a b receiver = cds_compare (cds_of_announce a receiver) (cds_of_announce b receiver)"

section \<open>Foreign master list\<close>

definition k_foreign_master_time_window :: u64 where "k_foreign_master_time_window = 4"
definition k_foreign_master_threshold :: u64 where "k_foreign_master_threshold = 2"

record foreign_master =
  foreign_master_port_identity :: port_identity
  foreign_master_announce_messages :: u64
  most_recent_announce_message :: "announce_message option"
  age :: u64

type_synonym foreign_master_list = "foreign_master list"

fun update_entry :: "port_identity \<Rightarrow> announce_message \<Rightarrow> foreign_master_list \<Rightarrow> foreign_master_list" where
  "update_entry pid m [] =
     [\<lparr>foreign_master_port_identity = pid, foreign_master_announce_messages = 0,
       most_recent_announce_message = None, age = 0\<rparr>]"
| "update_entry pid m (e # es) =
     (if foreign_master_port_identity e = pid then
        (case most_recent_announce_message e of
           Some recent \<Rightarrow>
             if wrapping_lt (sequence_id (an_header m)) (sequence_id (an_header recent)) then e # es
             else e\<lparr>foreign_master_announce_messages := foreign_master_announce_messages e + 1,
                     most_recent_announce_message := Some m, age := 0\<rparr> # es
         | None \<Rightarrow>
             e\<lparr>foreign_master_announce_messages := foreign_master_announce_messages e + 1,
                most_recent_announce_message := Some m, age := 0\<rparr> # es)
      else e # update_entry pid m es)"

definition add_or_update_entry :: "announce_message \<Rightarrow> foreign_master_list \<Rightarrow> foreign_master_list" where
  "add_or_update_entry m es = update_entry (source_port_identity (an_header m)) m es"

definition purge_entries :: "announce_message option \<Rightarrow> foreign_master_list \<Rightarrow> foreign_master_list" where
  "purge_entries erbest es = filter (\<lambda>e.
     \<not> (if (case erbest of Some m \<Rightarrow> source_port_identity (an_header m) = foreign_master_port_identity e
             | None \<Rightarrow> False) then False
        else if age e > k_foreign_master_time_window then True
        else if foreign_master_announce_messages e < k_foreign_master_threshold then False
        else True)) es"

definition increase_age_entry :: "foreign_master \<Rightarrow> foreign_master" where
  "increase_age_entry e =
     (let e1 = e\<lparr>age := age e + 1\<rparr>;
          most = k_foreign_master_time_window - age e1
      in if foreign_master_announce_messages e1 > most
         then e1\<lparr>foreign_master_announce_messages := most\<rparr> else e1)"

definition increase_age :: "foreign_master_list \<Rightarrow> foreign_master_list" where
  "increase_age es = map increase_age_entry es"

section \<open>Comparison\<close>

fun flip :: "compare_result \<Rightarrow> compare_result" where
  "flip Worse = Better"
| "flip Worse_by_topology = Better_by_topology"
| "flip Error1 = Error1"
| "flip Error2 = Error2"
| "flip Better_by_topology = Worse_by_topology"
| "flip Better = Worse"

definition cds_ok :: "comparison_data_set \<Rightarrow> bool" where
  "cds_ok c \<longleftrightarrow> ci_ok (cds_grandmaster_identity c) \<and> ci_ok (identity_of_senders c) \<and> pi_ok (identity_of_receiver c)"

text \<open>The key of a grandmaster: smaller is better; the identity counts downwards.\<close>

definition gm_key :: "comparison_data_set \<Rightarrow> nat \<times> nat \<times> nat \<times> nat \<times> nat \<times> int" where
  "gm_key c = (unat (cds_priority1 c), unat (clock_class (cds_clock_quality c)),
     unat (clock_accuracy (cds_clock_quality c)), unat (offset_scaled_log_variance (cds_clock_quality c)),
     unat (cds_priority2 c), - int (le_value (rev (cds_grandmaster_identity c))))"

lemma ci_lt_value: "ci_ok a \<Longrightarrow> ci_ok b \<Longrightarrow> ci_lt a b \<longleftrightarrow> le_value (rev a) < le_value (rev b)"
  by (simp add: ci_lt_def ci_ok_def lex_compare_value)

lemma compare_key:
  assumes "ci_ok (cds_grandmaster_identity a)" and "ci_ok (cds_grandmaster_identity b)"
    and "cds_grandmaster_identity a \<noteq> cds_grandmaster_identity b"
  shows "cds_compare a b = (if gm_key a < gm_key b then Better else Worse)" and "gm_key a \<noteq> gm_key b"
proof -
  have ne: "le_value (rev (cds_grandmaster_identity a)) \<noteq> le_value (rev (cds_grandmaster_identity b))"
    using assms le_value_rev_inject by (auto simp: ci_ok_def)
  show "gm_key a \<noteq> gm_key b" using ne by (simp add: gm_key_def)
  show "cds_compare a b = (if gm_key a < gm_key b then Better else Worse)"
    using ne assms(3) ci_lt_value [OF assms(1,2)] ci_lt_value [OF assms(2,1)] ci_linear(4) [OF assms(1,2)]
    by (auto simp: cds_compare_def gm_key_def less_prod_def word_less_nat_alt word_unat_eq_iff)
qed

lemma compare_flip:
  assumes "cds_ok a" and "cds_ok b"
  shows "cds_compare b a = flip (cds_compare a b)"
proof (cases "cds_grandmaster_identity a = cds_grandmaster_identity b")
  case False
  then show ?thesis
    using assms compare_key [of a b] compare_key [of b a] by (auto simp: cds_ok_def)
next
  case True
  have asym: "\<not> (ci_lt x y \<and> ci_lt y x)" "ci_gt x y = ci_lt y x" if "ci_ok x" "ci_ok y" for x y
    using ci_linear [OF that] by auto
  show ?thesis
    using True assms asym [of "identity_of_senders a" "identity_of_senders b"]
      asym [of "identity_of_senders b" "identity_of_senders a"]
      asym [of "pi_clock_identity (identity_of_receiver a)" "identity_of_senders a"]
      asym [of "pi_clock_identity (identity_of_receiver b)" "identity_of_senders b"]
    by (auto simp: cds_compare_def cds_ok_def pi_ok_def word_less_nat_alt)
qed

section \<open>Invariant of the list\<close>

definition entry_ok :: "foreign_master \<Rightarrow> bool" where
  "entry_ok e \<longleftrightarrow> (0 < unat (age e) \<longrightarrow> unat (foreign_master_announce_messages e) \<le> 4 - unat (age e)) \<and>
     (case most_recent_announce_message e of
        None \<Rightarrow> foreign_master_announce_messages e = 0
      | Some m \<Rightarrow> source_port_identity (an_header m) = foreign_master_port_identity e)"

definition fm_ok :: "foreign_master_list \<Rightarrow> bool" where
  "fm_ok es \<longleftrightarrow> distinct (map foreign_master_port_identity es) \<and> (\<forall>e \<in> set es. entry_ok e)"

abbreviation fm_identities :: "foreign_master_list \<Rightarrow> port_identity set" where
  "fm_identities es \<equiv> foreign_master_port_identity ` set es"

lemma fm_identities_update: "fm_identities (update_entry pid m es) = insert pid (fm_identities es)"
  by (induction pid m es rule: update_entry.induct) (auto split: option.splits)

lemma distinct_update:
  "distinct (map foreign_master_port_identity es) \<Longrightarrow>
   distinct (map foreign_master_port_identity (update_entry pid m es))"
proof (induction pid m es rule: update_entry.induct)
  case (2 pid m e es)
  then show ?case
    using fm_identities_update [of pid m es] by (auto split: option.splits)
qed simp

lemma entry_ok_update:
  assumes "\<forall>e \<in> set es. entry_ok e" and "source_port_identity (an_header m) = pid"
  shows "\<forall>e \<in> set (update_entry pid m es). entry_ok e"
  using assms
  by (induction pid m es rule: update_entry.induct) (auto simp: entry_ok_def split: option.splits if_splits)

lemma add_or_update_ok [inv_intros]: "fm_ok es \<Longrightarrow> fm_ok (add_or_update_entry m es)"
  using entry_ok_update [of es m "source_port_identity (an_header m)"]
  by (simp add: fm_ok_def add_or_update_entry_def distinct_update)

lemma purge_ok [inv_intros]: "fm_ok es \<Longrightarrow> fm_ok (purge_entries erbest es)"
  by (auto simp: fm_ok_def purge_entries_def intro: distinct_map_filter)

lemma increase_age_identity [simp]:
  "foreign_master_port_identity (increase_age_entry e) = foreign_master_port_identity e"
  "most_recent_announce_message (increase_age_entry e) = most_recent_announce_message e"
  "age (increase_age_entry e) = age e + 1"
  by (simp_all add: increase_age_entry_def Let_def)

lemma increase_age_messages:
  assumes "entry_ok e"
  shows "unat (foreign_master_announce_messages (increase_age_entry e))
    = min (unat (foreign_master_announce_messages e)) (if age e + 1 = 0 then 4 else 4 - unat (age e + 1))"
proof -
  let ?a = "age e + 1" and ?c = "foreign_master_announce_messages e"
  have four: "unat (4 :: u64) = 4" by simp
  show ?thesis
  proof (cases "unat ?a \<le> 4")
    case True
    then have "unat (4 - ?a) = 4 - unat ?a" by (subst unat_minus_le) (simp_all add: word_le_nat_alt)
    then show ?thesis
      by (auto simp: increase_age_entry_def Let_def k_foreign_master_time_window_def word_less_nat_alt min_def)
  next
    case False
    have big: "unat (4 - a) = 2 ^ 64 + 4 - unat a" if "\<not> unat a \<le> 4" for a :: u64
      using that unat_bound [of a] by (simp add: unat_sub_if')
    have "2 ^ 64 + 4 - unat ?a > 0" using unat_bound [of ?a] by simp
    have mod: "unat ?a = (unat (age e) + 1) mod 2 ^ 64" by (simp add: unat_word_ariths)
    have "unat ?a = unat (age e) + 1"
    proof (cases "unat (age e) + 1 = 2 ^ 64")
      case True
      then have "unat ?a = 0" unfolding mod by (simp only: mod_self)
      then show ?thesis using False by simp
    next
      case False
      then have "unat (age e) + 1 < 2 ^ 64" using unat_bound [of "age e"] by simp
      then show ?thesis unfolding mod by (rule mod_less)
    qed
    then have zero: "unat ?c = 0" using assms False by (auto simp: entry_ok_def)
    then have "foreign_master_announce_messages (increase_age_entry e) = ?c"
      using big [OF False] by (simp add: increase_age_entry_def Let_def k_foreign_master_time_window_def word_less_nat_alt)
    then show ?thesis using zero by simp
  qed
qed

lemma increase_age_ok [inv_intros]:
  assumes "fm_ok es"
  shows "fm_ok (increase_age es)"
proof -
  have "entry_ok (increase_age_entry e)" if "entry_ok e" for e
  proof -
    have "foreign_master_announce_messages (increase_age_entry e) = 0" if "foreign_master_announce_messages e = 0"
      using increase_age_messages [OF \<open>entry_ok e\<close>] that by (simp add: unat_0_iff)
    then show ?thesis
      using that increase_age_messages [OF that] by (auto simp: entry_ok_def split: option.splits)
  qed
  moreover have "map foreign_master_port_identity (increase_age es) = map foreign_master_port_identity es"
    by (simp add: increase_age_def)
  ultimately show ?thesis using assms unfolding fm_ok_def by (auto simp: increase_age_def simp del: map_map)
qed

section \<open>Qualification\<close>

text \<open>Announce messages of one port in sequence: the count is one less than the messages received.\<close>

fun in_sequence :: "announce_message list \<Rightarrow> bool" where
  "in_sequence (a # b # ms) =
     (\<not> wrapping_lt (sequence_id (an_header b)) (sequence_id (an_header a)) \<and> in_sequence (b # ms))"
| "in_sequence _ = True"

lemma in_sequence_snoc:
  "in_sequence (ms @ [a, b]) \<Longrightarrow> in_sequence (ms @ [a]) \<and>
     \<not> wrapping_lt (sequence_id (an_header b)) (sequence_id (an_header a))"
  by (induction ms rule: in_sequence.induct) auto

lemma add_sequence:
  assumes "in_sequence ms" and "ms \<noteq> []" and "\<forall>m \<in> set ms. source_port_identity (an_header m) = pid"
  shows "fold add_or_update_entry ms [] =
    [\<lparr>foreign_master_port_identity = pid, foreign_master_announce_messages = of_nat (length ms - 1),
      most_recent_announce_message = (if length ms = 1 then None else Some (last ms)), age = 0\<rparr>]"
  using assms
proof (induction ms rule: rev_induct)
  case Nil
  then show ?case by simp
next
  case (snoc m ms)
  show ?case
  proof (cases ms rule: rev_cases)
    case Nil
    then show ?thesis using snoc.prems by (simp add: add_or_update_entry_def)
  next
    case (snoc ms' a)
    then have seq: "in_sequence ms" "\<not> wrapping_lt (sequence_id (an_header m)) (sequence_id (an_header a))"
      using in_sequence_snoc [of ms' a m] snoc.prems(1) by simp_all
    have "fold add_or_update_entry ms [] =
      [\<lparr>foreign_master_port_identity = pid, foreign_master_announce_messages = of_nat (length ms - 1),
        most_recent_announce_message = (if length ms = 1 then None else Some (last ms)), age = 0\<rparr>]"
      using snoc.IH seq(1) snoc.prems(3) snoc by simp
    then have run: "fold add_or_update_entry (ms @ [m]) [] = add_or_update_entry m
      [\<lparr>foreign_master_port_identity = pid, foreign_master_announce_messages = of_nat (length ms - 1),
        most_recent_announce_message = (if length ms = 1 then None else Some (last ms)), age = 0\<rparr>]"
      by simp
    show ?thesis
      unfolding run using snoc seq(2) snoc.prems(3) by (simp add: add_or_update_entry_def)
  qed
qed

lemma aged_messages:
  assumes "fm_ok es" and "k < 2 ^ 64" and "\<forall>e \<in> set es. unat (age e) = 0"
  shows "fm_ok ((increase_age ^^ k) es) \<and> (\<forall>e \<in> set ((increase_age ^^ k) es).
    unat (age e) = k \<and> (0 < k \<longrightarrow> unat (foreign_master_announce_messages e) \<le> 4 - k))"
  using assms(2)
proof (induction k)
  case 0
  then show ?case using assms by simp
next
  case (Suc k)
  then have IH: "fm_ok ((increase_age ^^ k) es)" "\<forall>e \<in> set ((increase_age ^^ k) es). unat (age e) = k" by auto
  have ok: "fm_ok ((increase_age ^^ Suc k) es)" using increase_age_ok [OF IH(1)] by simp
  have "unat (age e) = Suc k" if "e \<in> set ((increase_age ^^ Suc k) es)" for e
  proof -
    obtain e0 where "e0 \<in> set ((increase_age ^^ k) es)" "e = increase_age_entry e0"
      using \<open>e \<in> _\<close> by (auto simp: increase_age_def)
    then show ?thesis using IH(2) Suc.prems by (simp add: unat_word_ariths)
  qed
  with ok show ?case by (auto simp: fm_ok_def entry_ok_def)
qed

section \<open>Properties\<close>

text \<open>
  Comparing two data sets the other way round gives the mirrored result, on every branch.
\<close>

theorem compare_antisymmetric:
  assumes "cds_ok a" and "cds_ok b"
  shows "cds_compare b a = flip (cds_compare a b)"
  by (rule compare_flip [OF assms])

definition example_cds :: "byte \<Rightarrow> byte \<Rightarrow> comparison_data_set" where
  "example_cds prio ident = \<lparr>cds_priority1 = prio, cds_grandmaster_identity = [0, 0, 0, 0, 0, 0, 0, ident],
     cds_clock_quality = clock_quality_init False, cds_priority2 = 128, cds_steps_removed = 0,
     identity_of_senders = [0, 0, 0, 0, 0, 0, 0, ident],
     identity_of_receiver = \<lparr>pi_clock_identity = [0, 0, 0, 0, 0, 0, 0, 9], pi_port_number = 1\<rparr>\<rparr>"

lemma example_cds_ok: "cds_ok (example_cds p i)"
  by (simp add: example_cds_def cds_ok_def ci_ok_def pi_ok_def)

theorem compare_antisymmetric_witness:
  "cds_compare (example_cds 128 2) (example_cds 127 1) = flip (cds_compare (example_cds 127 1) (example_cds 128 2))"
  by (rule compare_antisymmetric [OF example_cds_ok example_cds_ok])

text \<open>
  C33: between data sets of different grandmasters the comparison is the strict total order of
  the keys (priority 1, class, accuracy, variance, priority 2, identity), smaller is better, except that
  the larger identity wins.
\<close>

theorem compare_grandmaster_order:
  assumes "cds_ok a" and "cds_ok b" and "cds_grandmaster_identity a \<noteq> cds_grandmaster_identity b"
  shows "cds_compare a b = (if gm_key a < gm_key b then Better else Worse) \<and> gm_key a \<noteq> gm_key b"
  using assms compare_key [of a b] by (simp add: cds_ok_def)

theorem compare_grandmaster_order_witness:
  "cds_compare (example_cds 128 2) (example_cds 128 1) = Better"
  using compare_grandmaster_order [OF example_cds_ok [of 128 2] example_cds_ok [of 128 1]]
  by (simp add: example_cds_def gm_key_def less_prod_def)

text \<open>
  C34: every operation keeps one entry per port identity, a message count bounded by the
  age and a most recent message from the entry's own port; adding inserts exactly the sender, ageing
  keeps the entries, and purging keeps the entry of Erbest.
\<close>

theorem foreign_master_list_invariant:
  assumes "fm_ok es"
  shows "fm_ok (add_or_update_entry m es) \<and> fm_ok (purge_entries erbest es) \<and> fm_ok (increase_age es) \<and>
    fm_identities (add_or_update_entry m es) = insert (source_port_identity (an_header m)) (fm_identities es) \<and>
    fm_identities (increase_age es) = fm_identities es \<and>
    fm_identities (purge_entries (Some b) es) \<inter> {source_port_identity (an_header b)}
      = fm_identities es \<inter> {source_port_identity (an_header b)}"
proof (intro conjI)
  show "fm_identities (add_or_update_entry m es) = insert (source_port_identity (an_header m)) (fm_identities es)"
    by (simp add: add_or_update_entry_def fm_identities_update)
  show "fm_identities (increase_age es) = fm_identities es"
    by (simp add: increase_age_def image_image)
  show "fm_identities (purge_entries (Some b) es) \<inter> {source_port_identity (an_header b)}
      = fm_identities es \<inter> {source_port_identity (an_header b)}"
    by (auto simp: purge_entries_def)
qed (rule inv_intros [OF assms])+

theorem foreign_master_list_invariant_witness:
  "fm_ok (increase_age []) \<and> fm_identities (add_or_update_entry example_announce [])
     = {source_port_identity (an_header example_announce)}"
proof -
  have ok: "fm_ok []" by (simp add: fm_ok_def)
  note inv = foreign_master_list_invariant [OF ok, of example_announce None example_announce]
  have "fm_ok (increase_age [])" by (rule conjunct1 [OF conjunct2 [OF conjunct2 [OF inv]]])
  moreover have "fm_identities (add_or_update_entry example_announce [])
      = insert (source_port_identity (an_header example_announce)) (fm_identities [])"
    by (rule conjunct1 [OF conjunct2 [OF conjunct2 [OF conjunct2 [OF inv]]]])
  ultimately show ?thesis by (simp only: image_empty list.set(1) simp_thms)
qed

text \<open>
  A run of Announce messages of one port in sequence leaves one entry counting one
  message less than received and holding the last one, so a port qualifies (two messages counted) with
  its third message.
\<close>

theorem foreign_master_qualification:
  assumes "in_sequence ms" and "ms \<noteq> []" and "\<forall>m \<in> set ms. source_port_identity (an_header m) = pid"
  shows "fold add_or_update_entry ms [] =
    [\<lparr>foreign_master_port_identity = pid, foreign_master_announce_messages = of_nat (length ms - 1),
      most_recent_announce_message = (if length ms = 1 then None else Some (last ms)), age = 0\<rparr>]"
  by (rule add_sequence [OF assms])

theorem foreign_master_qualification_witness:
  "\<exists>e. fold add_or_update_entry [example_announce, example_announce, example_announce] [] = [e] \<and>
     foreign_master_announce_messages e = 2"
proof -
  let ?m = example_announce
  have "in_sequence [?m, ?m, ?m]" by (simp add: wrapping_lt_def is_older_than_def)
  from foreign_master_qualification [OF this, of "source_port_identity (an_header ?m)"] show ?thesis by simp
qed

text \<open>
  \<open>k\<close> announce intervals without a message leave every entry at age \<open>k\<close> with at most \<open>4 - k\<close>
  messages, in particular with none after four, although the subtraction in \<open>increase_age\<close> wraps from
  the fifth on.
\<close>

theorem foreign_master_ageing:
  assumes "fm_ok es" and "0 < k" and "k < 2 ^ 64" and "\<forall>e \<in> set es. age e = 0"
  shows "fm_ok ((increase_age ^^ k) es) \<and> (\<forall>e \<in> set ((increase_age ^^ k) es).
    unat (age e) = k \<and> unat (foreign_master_announce_messages e) \<le> 4 - k)"
  using aged_messages [OF assms(1,3)] assms(2,4) by simp

lemma length_ageing: "length ((increase_age ^^ k) es) = length es"
  by (induction k) (simp_all add: increase_age_def)

theorem foreign_master_ageing_witness:
  "foreign_master_announce_messages (hd ((increase_age ^^ 5) [\<lparr>foreign_master_port_identity = source_port_identity example_header,
      foreign_master_announce_messages = 7,
      most_recent_announce_message = Some example_announce, age = 0\<rparr>])) = 0"
proof -
  let ?es = "[\<lparr>foreign_master_port_identity = source_port_identity example_header,
      foreign_master_announce_messages = 7, most_recent_announce_message = Some example_announce, age = 0\<rparr>]"
  have ok: "fm_ok ?es" by (simp add: fm_ok_def entry_ok_def example_announce_def)
  have "(increase_age ^^ 5) ?es \<noteq> []" using length_ageing [of 5 ?es] by (cases "(increase_age ^^ 5) ?es") simp_all
  then have "hd ((increase_age ^^ 5) ?es) \<in> set ((increase_age ^^ 5) ?es)" by (rule hd_in_set)
  moreover have "\<forall>e \<in> set ((increase_age ^^ 5) ?es). unat (foreign_master_announce_messages e) \<le> 4 - 5"
    using foreign_master_ageing [OF ok, of 5] by simp
  ultimately have "unat (foreign_master_announce_messages (hd ((increase_age ^^ 5) ?es))) \<le> 0" by force
  then show ?thesis by (simp add: unat_0_iff)
qed

end
