(* ===== verification/Sliding_Stats.thy ===== *)
theory Sliding_Stats
  imports Prelude Complex_Main "HOL-Library.Multiset"
begin

text \<open>
  Statistics over the last \<open>N\<close> measurements: core/math/sliding_stats.hpp. A \<open>double\<close> is read as the
  exact rational it denotes and its arithmetic as exact arithmetic, so rounding is not modelled.
  The window is a \<open>boost::circular_buffer\<close>: its \<open>push_back\<close> is the parameter \<open>pb\<close>, and what the
  statistics rely on is \<open>circular_law\<close>, the documented behaviour (append; when the buffer is full the
  first element makes room). Shown: the window holds the last values, the median splits it in halves
  and lies with the mean between minimum and maximum, and the z-score test can only reject a value of
  the window when the window is large enough (Samuelson's inequality).
\<close>

section \<open>The circular buffer\<close>

type_synonym 'a push_back = "nat \<Rightarrow> 'a list \<Rightarrow> 'a \<Rightarrow> 'a list"

definition circular_law :: "'a push_back \<Rightarrow> bool" where
  "circular_law pb \<longleftrightarrow> (\<forall>n xs x. length xs \<le> n \<longrightarrow> pb n xs x = drop (length xs + 1 - n) (xs @ [x]))"

lemma circular_push:
  "circular_law pb \<Longrightarrow> length xs \<le> n \<Longrightarrow> pb n xs x = drop (length xs + 1 - n) (xs @ [x])"
  by (simp add: circular_law_def)

lemma circular_push_length: "circular_law pb \<Longrightarrow> length xs \<le> n \<Longrightarrow> length (pb n xs x) \<le> n"
  by (simp add: circular_push)

lemma circular_push_set: "circular_law pb \<Longrightarrow> length xs \<le> n \<Longrightarrow> set (pb n xs x) \<subseteq> insert x (set xs)"
  using set_drop_subset [of "length xs + 1 - n" "xs @ [x]"] by (simp add: circular_push)

lemma circular_push_last:
  assumes "circular_law pb" and "length xs \<le> n" and "0 < n"
  shows "pb n xs x \<noteq> [] \<and> last (pb n xs x) = x"
proof -
  have "length xs + 1 - n < length (xs @ [x])" using assms(3) by simp
  then have "drop (length xs + 1 - n) (xs @ [x]) \<noteq> []" by simp
  then show ?thesis using assms by (simp add: circular_push last_drop)
qed

lemma fold_circular_push:
  assumes "circular_law pb" and "length xs \<le> n"
  shows "fold (\<lambda>x ys. pb n ys x) vs xs = drop (length xs + length vs - n) (xs @ vs)"
  using assms(2)
proof (induction vs arbitrary: xs)
  case Nil
  then show ?case by simp
next
  case (Cons v vs)
  have "fold (\<lambda>x ys. pb n ys x) (v # vs) xs
      = drop (length (pb n xs v) + length vs - n) (pb n xs v @ vs)"
    using Cons circular_push_length [OF assms(1) Cons.prems] by simp
  also have "\<dots> = drop (length xs + length (v # vs) - n) (xs @ v # vs)"
  proof (cases "length xs < n")
    case True
    then show ?thesis using circular_push [OF assms(1) Cons.prems] by simp
  next
    case False
    then have n: "n = length xs" using Cons.prems by simp
    show ?thesis
    proof (cases xs)
      case Nil
      then show ?thesis using n circular_push [OF assms(1) Cons.prems] by simp
    next
      case (Cons y ys)
      then show ?thesis using n circular_push [OF assms(1) Cons.prems(1)] by simp
    qed
  qed
  finally show ?case .
qed

section \<open>Operations\<close>

text \<open>\<open>sorted_data_\<close> is only a scratch buffer of \<open>recalculate\<close>.\<close>

record sliding_stats =
  ss_capacity :: nat
  window :: "rat list"
  ss_mean :: rat
  ss_median :: rat
  ss_min :: rat
  ss_max :: rat

definition sliding_stats_init :: "nat \<Rightarrow> sliding_stats" where
  "sliding_stats_init n = \<lparr>ss_capacity = n, window = [], ss_mean = 0, ss_median = 0, ss_min = 0, ss_max = 0\<rparr>"

definition median_of :: "rat list \<Rightarrow> rat" where
  "median_of w = (let d = sort w; n = length d in
     if n mod 2 = 1 then d ! (n div 2) else (d ! (n div 2 - 1) + d ! (n div 2)) / 2)"

definition recalculate :: "sliding_stats \<Rightarrow> sliding_stats" where
  "recalculate s =
     (case window s of
        [] \<Rightarrow> s\<lparr>ss_median := 0, ss_mean := 0, ss_min := 0, ss_max := 0\<rparr>
      | v # _ \<Rightarrow> s\<lparr>ss_min := fold min (window s) v, ss_max := fold max (window s) v,
                  ss_mean := sum_list (window s) / of_nat (length (window s)),
                  ss_median := median_of (window s)\<rparr>)"

definition ss_add :: "rat push_back \<Rightarrow> sliding_stats \<Rightarrow> rat \<Rightarrow> sliding_stats" where
  "ss_add pb s v = recalculate (s\<lparr>window := pb (ss_capacity s) (window s) v\<rparr>)"

definition ss_count :: "sliding_stats \<Rightarrow> nat" where
  "ss_count s = length (window s)"

definition ss_variance :: "sliding_stats \<Rightarrow> rat" where
  "ss_variance s =
     (if window s = [] then 0
      else (\<Sum>v\<leftarrow>window s. (v - ss_mean s) * (v - ss_mean s)) / of_nat (length (window s)))"

definition peak_deviation_from_mean :: "sliding_stats \<Rightarrow> rat" where
  "peak_deviation_from_mean s = max \<bar>ss_mean s - ss_min s\<bar> \<bar>ss_mean s - ss_max s\<bar>"

definition is_outlier_median :: "sliding_stats \<Rightarrow> rat \<Rightarrow> rat \<Rightarrow> bool" where
  "is_outlier_median s value threshold \<longleftrightarrow> \<bar>value - ss_median s\<bar> > threshold"

text \<open>
  The standard deviation is the square root of the variance; \<open>|x / stddev| > threshold\<close> is stated on
  the squares (for the non-negative thresholds the code uses), and \<open>stddev = 0\<close> as \<open>variance = 0\<close>.
\<close>

definition is_outlier_zscore :: "sliding_stats \<Rightarrow> rat \<Rightarrow> rat \<Rightarrow> bool" where
  "is_outlier_zscore s value threshold \<longleftrightarrow>
     (if ss_variance s = 0 then False
      else (value - ss_mean s) * (value - ss_mean s) / ss_variance s > threshold * threshold)"

definition ss_reset :: "sliding_stats \<Rightarrow> sliding_stats" where
  "ss_reset s = s\<lparr>window := [], ss_median := 0, ss_mean := 0, ss_min := 0, ss_max := 0\<rparr>"

section \<open>The median\<close>

lemma fold_min_le_start: "fold min xs (a :: rat) \<le> a"
proof (induction xs arbitrary: a)
  case (Cons y ys)
  then show ?case using order_trans [OF Cons.IH [of "min y a"] min.cobounded2] by simp
qed simp

lemma fold_min_le: "(x :: rat) \<in> set xs \<Longrightarrow> fold min xs a \<le> x"
proof (induction xs arbitrary: a)
  case (Cons y ys)
  show ?case
  proof (cases "x = y")
    case True
    then show ?thesis using order_trans [OF fold_min_le_start [of ys "min y a"] min.cobounded1] by simp
  next
    case False
    then show ?thesis using Cons by simp
  qed
qed simp

lemma fold_max_ge_start: "(a :: rat) \<le> fold max xs a"
proof (induction xs arbitrary: a)
  case (Cons y ys)
  then show ?case using order_trans [OF max.cobounded2 Cons.IH [of "max y a"]] by simp
qed simp

lemma fold_max_ge_mem: "(x :: rat) \<in> set xs \<Longrightarrow> x \<le> fold max xs a"
proof (induction xs arbitrary: a)
  case (Cons y ys)
  show ?case
  proof (cases "x = y")
    case True
    then show ?thesis using order_trans [OF max.cobounded1 fold_max_ge_start [of "max y a" ys]] by simp
  next
    case False
    then show ?thesis using Cons by simp
  qed
qed simp

lemma fold_min_mem: "fold min xs (a :: rat) \<in> insert a (set xs)"
  by (induction xs arbitrary: a) (auto simp: min_def split: if_splits)

lemma fold_max_mem: "fold max xs (a :: rat) \<in> insert a (set xs)"
  by (induction xs arbitrary: a) (auto simp: max_def split: if_splits)

lemma sorted_count_le:
  assumes "sorted d" and "i < length d"
  shows "i + 1 \<le> length (filter (\<lambda>v. v \<le> d ! i) d)"
proof -
  have "filter (\<lambda>v. v \<le> d ! i) (take (i + 1) d) = take (i + 1) d"
    using assms by (auto simp: filter_id_conv in_set_conv_nth sorted_iff_nth_mono)
  then have "length (filter (\<lambda>v. v \<le> d ! i) (take (i + 1) d @ drop (i + 1) d)) \<ge> i + 1"
    using assms(2) by (simp del: append_take_drop_id)
  then show ?thesis by simp
qed

lemma sorted_count_ge:
  assumes "sorted d" and "i < length d"
  shows "length d - i \<le> length (filter (\<lambda>v. d ! i \<le> v) d)"
proof -
  have "filter (\<lambda>v. d ! i \<le> v) (drop i d) = drop i d"
    using assms by (auto simp: filter_id_conv in_set_conv_nth sorted_iff_nth_mono)
  then have "length (filter (\<lambda>v. d ! i \<le> v) (take i d @ drop i d)) \<ge> length d - i"
    by (simp del: append_take_drop_id)
  then show ?thesis by simp
qed

lemma length_filter_mono: "(\<And>x. x \<in> set xs \<Longrightarrow> P x \<Longrightarrow> Q x) \<Longrightarrow> length (filter P xs) \<le> length (filter Q xs)"
  by (induction xs) (simp_all add: le_SucI)

lemma length_filter_sort: "length (filter P (sort w)) = length (filter P w)"
  by (metis mset_filter mset_sort size_mset)

text \<open>The median's two neighbours in the sorted window (the same element when the length is odd).\<close>

lemma median_between:
  assumes "w \<noteq> []"
  obtains i j where "i \<le> j" "j < length w" "length w \<le> 2 * (i + 1)" "length w \<le> 2 * (length w - j)"
    "sort w ! i \<le> median_of w" "median_of w \<le> sort w ! j"
proof (cases "length w mod 2 = 1")
  case True
  then have "length w = 2 * (length w div 2) + 1" by presburger
  then show ?thesis
    using that [of "length w div 2" "length w div 2"] True assms by (simp add: median_of_def Let_def)
next
  case False
  then obtain k where k: "length w = 2 * k" by (metis even_iff_mod_2_eq_zero dvdE mod2_eq_if)
  have pos: "0 < k" using k assms by (cases k) simp_all
  have le: "sort w ! (k - 1) \<le> sort w ! k" using k pos by (intro sorted_nth_mono) simp_all
  have m: "median_of w = (sort w ! (k - 1) + sort w ! k) / 2" using False k by (simp add: median_of_def Let_def)
  show ?thesis
  proof (rule that [of "k - 1" k])
    show "sort w ! (k - 1) \<le> median_of w" and "median_of w \<le> sort w ! k"
      using le unfolding m by simp_all
  qed (use k pos in simp_all)
qed

lemma median_splits:
  assumes "w \<noteq> []"
  shows "length w \<le> 2 * length (filter (\<lambda>v. v \<le> median_of w) w)"
    and "length w \<le> 2 * length (filter (\<lambda>v. median_of w \<le> v) w)"
proof -
  obtain i j where ij: "i \<le> j" "j < length w" "length w \<le> 2 * (i + 1)" "length w \<le> 2 * (length w - j)"
    "sort w ! i \<le> median_of w" "median_of w \<le> sort w ! j"
    by (rule median_between [OF assms])
  have "i + 1 \<le> length (filter (\<lambda>v. v \<le> sort w ! i) (sort w))"
    using ij by (intro sorted_count_le) simp_all
  also have "\<dots> \<le> length (filter (\<lambda>v. v \<le> median_of w) (sort w))"
    using ij(5) by (intro length_filter_mono) simp
  finally show "length w \<le> 2 * length (filter (\<lambda>v. v \<le> median_of w) w)"
    using ij(3) by (simp add: length_filter_sort)
  have "length w - j \<le> length (filter (\<lambda>v. sort w ! j \<le> v) (sort w))"
    using ij sorted_count_ge [of "sort w" j] by simp
  also have "\<dots> \<le> length (filter (\<lambda>v. median_of w \<le> v) (sort w))"
    using ij(6) by (intro length_filter_mono) simp
  finally show "length w \<le> 2 * length (filter (\<lambda>v. median_of w \<le> v) w)"
    using ij(4) by (simp add: length_filter_sort)
qed

section \<open>The summary\<close>

lemma window_add [simp]:
  "window (ss_add pb s v) = pb (ss_capacity s) (window s) v"
  "ss_capacity (ss_add pb s v) = ss_capacity s"
  by (simp_all add: ss_add_def recalculate_def split: list.splits)

definition summary_ok :: "sliding_stats \<Rightarrow> bool" where
  "summary_ok s \<longleftrightarrow> length (window s) \<le> ss_capacity s \<and> (window s \<noteq> [] \<longrightarrow>
     ss_mean s = sum_list (window s) / of_nat (length (window s)) \<and> ss_median s = median_of (window s) \<and>
     ss_min s \<in> set (window s) \<and> ss_max s \<in> set (window s) \<and>
     (\<forall>v \<in> set (window s). ss_min s \<le> v \<and> v \<le> ss_max s))"

lemma summary_init [simp]: "summary_ok (sliding_stats_init n)"
  by (simp add: summary_ok_def sliding_stats_init_def)

lemma summary_reset [inv_intros]: "summary_ok (ss_reset s)"
  by (simp add: summary_ok_def ss_reset_def)

lemma recalculate_ok:
  assumes "length (window s) \<le> ss_capacity s"
  shows "summary_ok (recalculate s)"
proof (cases "window s")
  case Nil
  then show ?thesis by (simp add: summary_ok_def recalculate_def)
next
  case (Cons v w)
  then show ?thesis
    using assms fold_min_mem [of "v # w" v] fold_max_mem [of "v # w" v] fold_min_le [of _ "v # w" v]
      fold_max_ge_mem [of _ "v # w" v]
    by (simp add: summary_ok_def recalculate_def)
qed

lemma summary_add [inv_intros]:
  assumes "circular_law pb" and "summary_ok s"
  shows "summary_ok (ss_add pb s v)"
  unfolding ss_add_def
  by (rule recalculate_ok) (use assms circular_push_length [OF assms(1)] in \<open>simp add: summary_ok_def\<close>)

lemma summary_fold:
  "circular_law pb \<Longrightarrow> summary_ok s \<Longrightarrow> summary_ok (fold (\<lambda>v s. ss_add pb s v) vs s)"
  by (induction vs arbitrary: s) (simp_all add: summary_add)

lemma window_fold:
  "window (fold (\<lambda>v s. ss_add pb s v) vs s) = fold (\<lambda>v w. pb (ss_capacity s) w v) vs (window s)"
  "ss_capacity (fold (\<lambda>v s. ss_add pb s v) vs s) = ss_capacity s"
  by (induction vs arbitrary: s) simp_all

lemma mean_between:
  assumes "\<forall>v \<in> set w. (a :: rat) \<le> v \<and> v \<le> b" and "w \<noteq> []"
  shows "a \<le> sum_list w / of_nat (length w) \<and> sum_list w / of_nat (length w) \<le> b"
proof -
  have "of_nat (length w) * a \<le> sum_list w \<and> sum_list w \<le> of_nat (length w) * b"
    using assms(1) by (induction w) (auto simp: algebra_simps intro: add_mono)
  then show ?thesis using assms(2) by (simp add: pos_le_divide_eq pos_divide_le_eq mult.commute)
qed

lemma summary_between:
  assumes "summary_ok s" and "window s \<noteq> []"
  shows "ss_min s \<le> ss_median s \<and> ss_median s \<le> ss_max s \<and> ss_min s \<le> ss_mean s \<and> ss_mean s \<le> ss_max s"
proof -
  obtain i j where ij: "i \<le> j" "j < length (window s)" "sort (window s) ! i \<le> median_of (window s)"
    "median_of (window s) \<le> sort (window s) ! j"
    using median_between [OF assms(2)] by metis
  have "sort (window s) ! i \<in> set (window s)" "sort (window s) ! j \<in> set (window s)"
    using ij nth_mem [of _ "sort (window s)"] by simp_all
  then have lo: "ss_min s \<le> sort (window s) ! i" and hi: "sort (window s) ! j \<le> ss_max s"
    using assms by (simp_all add: summary_ok_def)
  have eq: "ss_median s = median_of (window s)" "ss_mean s = sum_list (window s) / of_nat (length (window s))"
    using assms by (simp_all add: summary_ok_def)
  have "ss_min s \<le> sum_list (window s) / of_nat (length (window s)) \<and>
      sum_list (window s) / of_nat (length (window s)) \<le> ss_max s"
    using assms by (intro mean_between) (simp_all add: summary_ok_def)
  then show ?thesis
    unfolding eq using order_trans [OF lo ij(3)] order_trans [OF ij(4) hi] by blast
qed

section \<open>Samuelson's inequality\<close>

lemma square_sum_le:
  "(sum_list (map f xs) :: rat) * sum_list (map f xs) \<le> of_nat (length xs) * (\<Sum>x\<leftarrow>xs. f x * f x)"
proof (induction xs)
  case (Cons x xs)
  have "2 * a * b \<le> a * a + b * b" for a b :: rat
    using zero_le_square [of "a - b"] by (simp add: algebra_simps)
  then have "(\<Sum>y\<leftarrow>xs. 2 * f x * f y) \<le> (\<Sum>y\<leftarrow>xs. f x * f x + f y * f y)"
    by (intro sum_list_mono) simp
  then have "2 * f x * sum_list (map f xs) \<le> of_nat (length xs) * (f x * f x) + (\<Sum>y\<leftarrow>xs. f y * f y)"
    by (simp add: sum_list_const_mult sum_list_addf sum_list_triv mult.left_commute)
  then show ?case using Cons by (simp add: algebra_simps)
qed simp

lemma sum_deviation:
  assumes "w \<noteq> []"
  shows "(\<Sum>v\<leftarrow>w. v - sum_list w / of_nat (length w)) = (0 :: rat)"
  using assms by (simp add: sum_list_subtractf sum_list_triv)

lemma samuelson:
  fixes v :: rat
  assumes "v \<in> set w" and "m = sum_list w / of_nat (length w)"
  shows "of_nat (length w) * ((v - m) * (v - m)) \<le> of_nat (length w - 1) * (\<Sum>x\<leftarrow>w. (x - m) * (x - m))"
proof -
  obtain us vs where w: "w = us @ v # vs" using assms(1) split_list by metis
  let ?r = "us @ vs" and ?d = "\<lambda>x. x - m"
  have "(\<Sum>x\<leftarrow>w. ?d x) = 0" using sum_deviation [of w] w assms(2) by simp
  then have d: "?d v = - (\<Sum>x\<leftarrow>?r. ?d x)" unfolding w by simp
  have "?d v * ?d v \<le> of_nat (length ?r) * (\<Sum>x\<leftarrow>?r. ?d x * ?d x)"
    unfolding d using square_sum_le [of ?d ?r] by (simp del: map_append sum_list_append)
  then have "?d v * ?d v + of_nat (length ?r) * (?d v * ?d v)
      \<le> of_nat (length ?r) * (?d v * ?d v + (\<Sum>x\<leftarrow>?r. ?d x * ?d x))"
    by (simp only: distrib_left add.commute [of "?d v * ?d v"] add_le_cancel_left)
  moreover have "(\<Sum>x\<leftarrow>w. ?d x * ?d x) = ?d v * ?d v + (\<Sum>x\<leftarrow>?r. ?d x * ?d x)"
    unfolding w by simp
  moreover have "length w = length ?r + 1" unfolding w by simp
  ultimately show ?thesis by (simp only: of_nat_add of_nat_1 distrib_right mult_1_left add.commute add_diff_cancel_left')
qed

lemma no_small_outliers:
  assumes "summary_ok s" and "v \<in> set (window s)" and "of_nat (length (window s) - 1) \<le> threshold * threshold"
  shows "\<not> is_outlier_zscore s v threshold"
proof (cases "ss_variance s = 0")
  case True
  then show ?thesis by (simp add: is_outlier_zscore_def)
next
  case False
  let ?n = "of_nat (length (window s)) :: rat" and ?q = "\<Sum>x\<leftarrow>window s. (x - ss_mean s) * (x - ss_mean s)"
  have ne: "window s \<noteq> []" using assms(2) by auto
  then have n: "0 < ?n" by simp
  have var: "ss_variance s = ?q / ?n" using ne by (simp add: ss_variance_def)
  have "0 \<le> ?q" by (rule sum_list_nonneg) auto
  then have "0 < ss_variance s" using False n var by (simp add: less_le)
  have m: "ss_mean s = sum_list (window s) / ?n" using assms(1) ne by (simp add: summary_ok_def)
  have "?n * ((v - ss_mean s) * (v - ss_mean s)) \<le> of_nat (length (window s) - 1) * ?q"
    by (rule samuelson [OF assms(2) m])
  also have "\<dots> \<le> threshold * threshold * ?q" using assms(3) \<open>0 \<le> ?q\<close> by (rule mult_right_mono)
  finally have "(v - ss_mean s) * (v - ss_mean s) \<le> threshold * threshold * ss_variance s"
    using n unfolding var by (simp add: pos_le_divide_eq mult.commute)
  then show ?thesis
    using \<open>0 < ss_variance s\<close> by (simp add: is_outlier_zscore_def pos_divide_le_eq not_less)
qed

section \<open>Properties\<close>

text \<open>
  After any non-empty sequence of additions the window holds the last
  \<open>capacity\<close> values, minimum and maximum are attained and bound every value, mean and median lie
  between them, and at least half of the window lies on either side of the median.
\<close>

theorem sliding_stats_summary:
  assumes "circular_law pb" and "0 < n" and "vs \<noteq> []"
    and "s = fold (\<lambda>v s. ss_add pb s v) vs (sliding_stats_init n)"
  shows "window s = drop (length vs - n) vs \<and> window s \<noteq> [] \<and>
    ss_min s \<in> set (window s) \<and> ss_max s \<in> set (window s) \<and>
    (\<forall>v \<in> set (window s). ss_min s \<le> v \<and> v \<le> ss_max s) \<and>
    ss_min s \<le> ss_median s \<and> ss_median s \<le> ss_max s \<and> ss_min s \<le> ss_mean s \<and> ss_mean s \<le> ss_max s \<and>
    length (window s) \<le> 2 * length (filter (\<lambda>v. v \<le> ss_median s) (window s)) \<and>
    length (window s) \<le> 2 * length (filter (\<lambda>v. ss_median s \<le> v) (window s))"
proof -
  have w: "window s = drop (length vs - n) vs"
    using fold_circular_push [OF assms(1), of "[]" n vs]
    by (simp add: assms(4) window_fold sliding_stats_init_def)
  have ne: "window s \<noteq> []" using w assms(2,3) by (cases vs) auto
  have ok: "summary_ok s" unfolding assms(4) by (rule summary_fold [OF assms(1) summary_init])
  then have med: "ss_median s = median_of (window s)" using ne by (simp add: summary_ok_def)
  show ?thesis
    using w ne ok summary_between [OF ok ne] median_splits [OF ne] unfolding med summary_ok_def by blast
qed

definition list_push_back :: "'a push_back" where
  "list_push_back n xs x = drop (length xs + 1 - n) (xs @ [x])"

lemma list_push_back_law: "circular_law list_push_back"
  by (simp add: circular_law_def list_push_back_def)

theorem sliding_stats_summary_witness:
  "window (fold (\<lambda>v s. ss_add list_push_back s v) [4, 1, 3] (sliding_stats_init 2)) = [1, 3]"
  using sliding_stats_summary [OF list_push_back_law, of 2 "[4, 1, 3]", OF _ _ refl] by simp

text \<open>
  A value that is in the window can only be rejected by the z-score
  test when the window has more than \<open>threshold * threshold + 1\<close> values; with the threshold 1.75 of the clock
  filter no measurement is rejected before the fifth.
\<close>

theorem sliding_stats_outlier_window:
  assumes "circular_law pb" and "summary_ok s" and "0 < ss_capacity s"
    and "is_outlier_zscore (ss_add pb s v) v threshold"
  shows "threshold * threshold < of_nat (ss_count (ss_add pb s v) - 1)"
proof (rule ccontr)
  assume "\<not> threshold * threshold < of_nat (ss_count (ss_add pb s v) - 1)"
  moreover have "v \<in> set (window (ss_add pb s v))"
    using circular_push_last [OF assms(1), of "window s" "ss_capacity s" v] assms(2,3) last_in_set
    by (fastforce simp: summary_ok_def)
  ultimately show False
    using no_small_outliers [OF summary_add [OF assms(1,2)], of v v threshold] assms(4)
    by (simp add: ss_count_def not_less)
qed

theorem sliding_stats_outlier_window_witness:
  "(7 / 4) * (7 / 4) < (of_nat (ss_count (ss_add list_push_back
     (fold (\<lambda>v s. ss_add list_push_back s v) [0, 0, 0, 0, 0] (sliding_stats_init 9)) 60) - 1) :: rat)"
proof (rule sliding_stats_outlier_window [OF list_push_back_law])
  let ?s = "fold (\<lambda>v s. ss_add list_push_back s v) [0, 0, 0, 0, 0] (sliding_stats_init 9)"
  show "summary_ok ?s" by (rule summary_fold [OF list_push_back_law summary_init])
  have w: "window (ss_add list_push_back ?s 60) = [0, 0, 0, 0, 0, 60]"
    by (simp add: window_fold sliding_stats_init_def list_push_back_def)
  have "ss_mean (ss_add list_push_back ?s 60) = 10"
    using summary_add [OF list_push_back_law summary_fold [OF list_push_back_law summary_init [of 9]], of "[0, 0, 0, 0, 0]" 60]
    unfolding summary_ok_def w by simp
  then show "is_outlier_zscore (ss_add list_push_back ?s 60) 60 (7 / 4)"
    unfolding is_outlier_zscore_def ss_variance_def w by simp
qed (simp add: window_fold sliding_stats_init_def)

end
