(* ===== verification/Ptp_Clock.thy ===== *)
theory Ptp_Clock
  imports Ptp_Time Sliding_Stats
begin

text \<open>
  The clock that follows the master: the \<open>double\<close> operations of ptp_timestamp.hpp and
  ptp_time_interval.hpp, ptp_basic_filter.hpp, ptp_local_clock.hpp, ptp_stats.hpp, ptp_current_ds.hpp
  and \<open>Instance::update_local_ptp_clock\<close> of ptp_instance.cpp. As in \<open>Sliding_Stats\<close> a \<open>double\<close> is read as
  an exact rational. The system clock is an input of the operations that read it, and so is whether
  the throttle that reports statistics fires. Shown: adding seconds to a timestamp is exact to the
  nanosecond and saturates at zero, the adjusted time never runs backwards between two measurements,
  the frequency ratio stays within its clamp, and a stepped clock needs ten measurements to be
  calibrated again.
\<close>

section \<open>Conversions\<close>

text \<open>\<open>std::modf\<close> and \<open>static_cast\<close> truncate towards zero; \<open>std::round\<close> rounds halves away from zero.\<close>

definition rat_trunc :: "rat \<Rightarrow> int" where
  "rat_trunc x = (if x < 0 then - \<lfloor>- x\<rfloor> else \<lfloor>x\<rfloor>)"

definition rat_round :: "rat \<Rightarrow> int" where
  "rat_round x = (if x < 0 then - \<lfloor>- x + 1 / 2\<rfloor> else \<lfloor>x + 1 / 2\<rfloor>)"

definition ts_to_seconds :: "timestamp \<Rightarrow> rat" where
  "ts_to_seconds t = of_int (uint (ts_seconds t)) + of_int (uint (ts_nanoseconds t)) / 1000000000"

definition ti_total_seconds :: "time_interval \<Rightarrow> rat" where
  "ti_total_seconds t = of_int (ti_seconds t) + of_int (ti_nanos t) / 1000000000 / of_int frac_scale"

text \<open>\<open>INT64_MAX\<close> becomes \<open>2\<^bsup>63\<^esup>\<close> as a \<open>double\<close>; casting a value that does not fit is undefined.\<close>

definition to_fractional_interval :: "rat \<Rightarrow> int option" where
  "to_fractional_interval seconds =
     (let scaled = seconds * 1000000000 * of_int frac_scale in
      if scaled < of_int i64_min then Some i64_min
      else if scaled > 2 ^ 63 then Some i64_max
      else i64 (rat_trunc scaled))"

text \<open>\<open>static_cast<uint64_t>\<close> and \<open>static_cast<uint32_t>\<close> of a \<open>double\<close> that is a whole number.\<close>

definition cast_u64 :: "int \<Rightarrow> u64 option" where
  "cast_u64 v = (if 0 \<le> v \<and> v < 2 ^ 64 then Some (word_of_int v) else None)"

definition cast_u32 :: "int \<Rightarrow> u32 option" where
  "cast_u32 v = (if 0 \<le> v \<and> v < 2 ^ 32 then Some (word_of_int v) else None)"

definition ts_add_seconds :: "timestamp \<Rightarrow> rat \<Rightarrow> timestamp option" where
  "ts_add_seconds t x =
     (let seconds = rat_trunc x; nanos = rat_round ((x - of_int seconds) * 1000000000) in
      if x < 0 then
        let s_abs = \<bar>seconds\<bar>; n_abs = \<bar>nanos\<bar> in
        if n_abs > uint (ts_nanoseconds t) \<and> ts_seconds t < 1 then Some ts_zero
        else
          let (s, n) = (if n_abs > uint (ts_nanoseconds t)
                        then (ts_seconds t - 1, ts_nanoseconds t + 1000000000)
                        else (ts_seconds t, ts_nanoseconds t))
          in if s_abs > uint s then Some ts_zero
             else do {
               ds \<leftarrow> cast_u64 s_abs;
               dn \<leftarrow> cast_u32 n_abs;
               Some \<lparr>ts_seconds = s - ds, ts_nanoseconds = n - dn\<rparr> }
      else do {
        ds \<leftarrow> cast_u64 seconds;
        dn \<leftarrow> cast_u32 nanos;
        let s = ts_seconds t + ds; n = ts_nanoseconds t + dn
        in if n \<ge> 1000000000 then Some \<lparr>ts_seconds = s + 1, ts_nanoseconds = n - 1000000000\<rparr>
           else Some \<lparr>ts_seconds = s, ts_nanoseconds = n\<rparr> })"

section \<open>Filter and clock\<close>

record basic_filter =
  confidence_range :: rat
  gain :: rat

definition filter_init :: "rat \<Rightarrow> basic_filter" where
  "filter_init g = \<lparr>confidence_range = 1, gain = g\<rparr>"

definition filter_update :: "basic_filter \<Rightarrow> rat \<Rightarrow> rat \<times> basic_filter" where
  "filter_update f value =
     (if \<bar>value\<bar> > confidence_range f then
        let r = confidence_range f * 2 in (max (- r) (min value r) * gain f, f\<lparr>confidence_range := r\<rparr>)
      else (value * gain f,
            f\<lparr>confidence_range := confidence_range f - (confidence_range f - \<bar>value\<bar>) * gain f\<rparr>))"

definition filter_reset :: "basic_filter \<Rightarrow> basic_filter" where
  "filter_reset f = f\<lparr>confidence_range := 1\<rparr>"

record local_clock =
  last_sync :: timestamp
  shift :: rat
  frequency_ratio :: rat
  adjustments_since_last_step :: nat
  clock_calibrated :: bool

definition local_clock_init :: local_clock where
  "local_clock_init = \<lparr>last_sync = ts_zero, shift = 0, frequency_ratio = 1,
     adjustments_since_last_step = 0, clock_calibrated = False\<rparr>"

definition get_adjusted_time :: "local_clock \<Rightarrow> timestamp \<Rightarrow> timestamp option" where
  "get_adjusted_time c system_time =
     (let elapsed = ts_to_seconds system_time - ts_to_seconds (last_sync c) in do {
        r \<leftarrow> ts_add_seconds (last_sync c) (elapsed * frequency_ratio c);
        ts_add_seconds r (shift c) })"

definition clock_adjust :: "timestamp \<Rightarrow> rat \<Rightarrow> local_clock \<Rightarrow> local_clock" where
  "clock_adjust now offset c =
     (let nominal_ratio = 1 / 1000 * (- offset) ^ 3 + 1 in
      c\<lparr>last_sync := now, shift := shift c + - offset,
        frequency_ratio := max (1 - 1 / 2) (min nominal_ratio (1 + 1 / 2)),
        adjustments_since_last_step := adjustments_since_last_step c + 1\<rparr>)"

definition clock_step :: "timestamp \<Rightarrow> rat \<Rightarrow> local_clock \<Rightarrow> local_clock" where
  "clock_step now offset c =
     c\<lparr>last_sync := now, shift := shift c + - offset, frequency_ratio := 1,
       adjustments_since_last_step := 0, clock_calibrated := False\<rparr>"

definition clock_is_valid :: "local_clock \<Rightarrow> bool" where
  "clock_is_valid c = ts_valid (last_sync c)"

definition is_locked :: "local_clock \<Rightarrow> bool" where
  "is_locked c \<longleftrightarrow> adjustments_since_last_step c \<ge> 10"

definition set_calibrated :: "bool \<Rightarrow> local_clock \<Rightarrow> local_clock" where
  "set_calibrated b c = c\<lparr>clock_calibrated := b\<rparr>"

definition is_calibrated :: "local_clock \<Rightarrow> bool" where
  "is_calibrated c \<longleftrightarrow> is_locked c \<and> clock_calibrated c"

section \<open>The servo\<close>

record current_ds =
  cd_steps_removed :: u16
  cd_offset_from_master :: int
  cd_mean_delay :: int

definition current_ds_init :: current_ds where
  "current_ds_init = \<lparr>cd_steps_removed = 0, cd_offset_from_master = 0, cd_mean_delay = 0\<rparr>"

record ptp_stats =
  offset_from_master :: sliding_stats
  filtered_offset :: sliding_stats
  ignored_outliers :: u32

definition ptp_stats_init :: ptp_stats where
  "ptp_stats_init = \<lparr>offset_from_master = sliding_stats_init 51,
     filtered_offset = sliding_stats_init 51, ignored_outliers = 0\<rparr>"

definition k_clock_step_threshold_seconds :: rat where "k_clock_step_threshold_seconds = 1"
definition k_calibrated_threshold :: rat where "k_calibrated_threshold = 18 / 10000"

record measurement =
  m_sync_event_ingress_timestamp :: rat
  m_offset_from_master :: rat
  m_mean_delay :: rat
  m_corrected_master_event_timestamp :: rat

record servo =
  sv_current_ds :: current_ds
  sv_clock :: local_clock
  sv_stats :: ptp_stats

definition servo_init :: servo where
  "servo_init = \<lparr>sv_current_ds = current_ds_init, sv_clock = local_clock_init, sv_stats = ptp_stats_init\<rparr>"

text \<open>\<open>due\<close>: the throttle lets the statistics through, which also resets the outlier count.\<close>

definition servo_filter :: "rat push_back \<Rightarrow> timestamp \<Rightarrow> bool \<Rightarrow> rat \<Rightarrow> local_clock \<Rightarrow> ptp_stats \<Rightarrow> local_clock \<times> ptp_stats" where
  "servo_filter pb now due offset c st =
     (if \<bar>offset\<bar> \<ge> k_clock_step_threshold_seconds then
        (clock_step now offset c, st\<lparr>offset_from_master := ss_reset (offset_from_master st)\<rparr>)
      else
        let ofm = ss_add pb (offset_from_master st) offset;
            st = st\<lparr>offset_from_master := ofm\<rparr>
        in if is_calibrated c \<and> is_outlier_zscore ofm offset (175 / 100)
           then (c, st\<lparr>ignored_outliers := ignored_outliers st + 1\<rparr>)
           else (set_calibrated (- k_calibrated_threshold \<le> ss_median ofm \<and> ss_median ofm \<le> k_calibrated_threshold)
                   (clock_adjust now offset c),
                 st\<lparr>filtered_offset := ss_add pb (filtered_offset st) offset,
                    ignored_outliers := (if due then 0 else ignored_outliers st)\<rparr>))"

definition update_local_ptp_clock :: "rat push_back \<Rightarrow> timestamp \<Rightarrow> bool \<Rightarrow> measurement \<Rightarrow> servo \<Rightarrow> servo option" where
  "update_local_ptp_clock pb now due m sv = do {
     md \<leftarrow> to_fractional_interval (m_mean_delay m);
     om \<leftarrow> to_fractional_interval (m_offset_from_master m);
     let (c, st) = servo_filter pb now due (m_offset_from_master m) (sv_clock sv) (sv_stats sv)
     in Some (sv\<lparr>sv_current_ds := (sv_current_ds sv)\<lparr>cd_mean_delay := md, cd_offset_from_master := om\<rparr>,
                 sv_clock := c, sv_stats := st\<rparr>) }"

section \<open>Adding seconds\<close>

lemma rat_round_mono: "x \<le> y \<Longrightarrow> rat_round x \<le> rat_round y"
proof -
  assume xy: "x \<le> y"
  consider "x < 0" "y < 0" | "x < 0" "0 \<le> y" | "0 \<le> x" "0 \<le> y" using xy by linarith
  then show ?thesis
  proof cases
    case 1
    then show ?thesis using xy by (simp add: rat_round_def floor_mono)
  next
    case 2
    then have "0 \<le> \<lfloor>1 / 2 - x\<rfloor>" "0 \<le> \<lfloor>y + 1 / 2\<rfloor>" by simp_all
    then have "- \<lfloor>1 / 2 - x\<rfloor> \<le> \<lfloor>y + 1 / 2\<rfloor>" by linarith
    then show ?thesis using 2 by (simp add: rat_round_def)
  next
    case 3
    then show ?thesis using xy by (simp add: rat_round_def floor_mono)
  qed
qed

text \<open>Truncating to seconds and rounding the rest to nanoseconds is rounding to nanoseconds.\<close>

lemma split_seconds:
  fixes x :: rat
  defines "s \<equiv> rat_trunc x" and "n \<equiv> rat_round ((x - of_int (rat_trunc x)) * 1000000000)"
  shows "s * 1000000000 + n = rat_round (x * 1000000000)"
    and "0 \<le> x \<Longrightarrow> 0 \<le> s \<and> 0 \<le> n \<and> n \<le> 1000000000"
    and "x < 0 \<Longrightarrow> s \<le> 0 \<and> n \<le> 0 \<and> - 1000000000 \<le> n"
proof -
  have pos: "\<lfloor>y\<rfloor> * 1000000000 + \<lfloor>(y - of_int \<lfloor>y\<rfloor>) * 1000000000 + 1 / 2\<rfloor> = \<lfloor>y * 1000000000 + 1 / 2\<rfloor>
      \<and> 0 \<le> \<lfloor>(y - of_int \<lfloor>y\<rfloor>) * 1000000000 + 1 / 2\<rfloor> \<and> \<lfloor>(y - of_int \<lfloor>y\<rfloor>) * 1000000000 + 1 / 2\<rfloor> \<le> 1000000000"
    if "0 \<le> y" for y :: rat
  proof -
    define f where "f = \<lfloor>y\<rfloor>"
    have "y * 1000000000 + 1 / 2 = of_int (f * 1000000000) + ((y - of_int f) * 1000000000 + 1 / 2)"
      by (simp add: algebra_simps)
    then have "\<lfloor>y * 1000000000 + 1 / 2\<rfloor> = f * 1000000000 + \<lfloor>(y - of_int f) * 1000000000 + 1 / 2\<rfloor>"
      by (simp only: int_add_floor)
    moreover have "0 \<le> y - of_int f" "y - of_int f < 1" unfolding f_def by linarith+
    ultimately show ?thesis unfolding f_def [symmetric] by (simp add: le_floor_iff floor_le_iff)
  qed
  show "0 \<le> x \<Longrightarrow> 0 \<le> s \<and> 0 \<le> n \<and> n \<le> 1000000000"
  proof -
    assume x: "0 \<le> x"
    then have "0 \<le> x - of_int \<lfloor>x\<rfloor>" by linarith
    then have "\<not> (x - of_int \<lfloor>x\<rfloor>) * 1000000000 < 0" by (simp add: not_less)
    then show ?thesis using pos [OF x] x unfolding s_def n_def by (simp add: rat_trunc_def rat_round_def)
  qed
  have neg: "s = - \<lfloor>- x\<rfloor> \<and> n = - \<lfloor>(- x - of_int \<lfloor>- x\<rfloor>) * 1000000000 + 1 / 2\<rfloor>" if "x < 0"
  proof -
    have s: "s = - \<lfloor>- x\<rfloor>" using that by (simp add: s_def rat_trunc_def)
    have le: "0 \<le> - x - of_int \<lfloor>- x\<rfloor>" by linarith
    have eq: "(x - of_int s) * 1000000000 = - ((- x - of_int \<lfloor>- x\<rfloor>) * 1000000000)"
      unfolding s by (simp add: algebra_simps)
    have half: "\<lfloor>1 / 2 :: rat\<rfloor> = 0" by (simp add: floor_eq_iff)
    have "rat_round (- y) = - \<lfloor>y + 1 / 2\<rfloor>" if "0 \<le> y" for y
      using that half by (cases "y = 0") (simp_all add: rat_round_def)
    from this [of "(- x - of_int \<lfloor>- x\<rfloor>) * 1000000000"]
    have "n = - \<lfloor>(- x - of_int \<lfloor>- x\<rfloor>) * 1000000000 + 1 / 2\<rfloor>"
      unfolding n_def s_def [symmetric] eq using le by (simp only: mult_nonneg_nonneg zero_le_numeral)
    with s show ?thesis by simp
  qed
  show "x < 0 \<Longrightarrow> s \<le> 0 \<and> n \<le> 0 \<and> - 1000000000 \<le> n"
    using neg pos [of "- x"] by simp
  show "s * 1000000000 + n = rat_round (x * 1000000000)"
  proof (cases "x < 0")
    case True
    then have "\<lfloor>- x\<rfloor> * 1000000000 + \<lfloor>(- x - of_int \<lfloor>- x\<rfloor>) * 1000000000 + 1 / 2\<rfloor> = \<lfloor>- x * 1000000000 + 1 / 2\<rfloor>"
      using pos [of "- x"] by linarith
    then show ?thesis using True conjunct1 [OF neg [OF True]] conjunct2 [OF neg [OF True]]
      by (simp add: rat_round_def)
  next
    case False
    then have "0 \<le> x" by simp
    then have "0 \<le> x - of_int \<lfloor>x\<rfloor>" by linarith
    then have "\<not> (x - of_int \<lfloor>x\<rfloor>) * 1000000000 < 0" by (simp add: not_less)
    then show ?thesis using pos [OF \<open>0 \<le> x\<close>] False unfolding s_def n_def by (simp add: rat_trunc_def rat_round_def)
  qed
qed

lemma trunc_bound: "\<bar>x\<bar> < 2 ^ 61 \<Longrightarrow> \<bar>rat_trunc x\<bar> < 2305843009213693952"
proof -
  assume x: "\<bar>x\<bar> < 2 ^ 61"
  have "of_int \<bar>rat_trunc x\<bar> \<le> \<bar>x\<bar>"
  proof (cases "x < 0")
    case True
    then have "0 \<le> \<lfloor>- x\<rfloor>" by simp
    then show ?thesis using True of_int_floor_le [of "- x"] by (simp add: rat_trunc_def)
  qed (simp add: rat_trunc_def)
  also note x
  finally have "rat_of_int \<bar>rat_trunc x\<bar> < of_int 2305843009213693952" by simp
  then show ?thesis by (simp only: of_int_less_iff)
qed

lemma ts_add_seconds_value:
  assumes ok: "ts_ok t" and ts: "uint (ts_seconds t) < 2 ^ 61" and x: "\<bar>x\<bar> < 2 ^ 61"
  obtains t' where "ts_add_seconds t x = Some t'" "ts_ok t'"
    "ts_value t' = max 0 (ts_value t + rat_round (x * 1000000000))"
proof -
  note res = that
  define s where "s = rat_trunc x"
  define n where "n = rat_round ((x - of_int s) * 1000000000)"
  define S where "S = uint (ts_seconds t)"
  define N where "N = uint (ts_nanoseconds t)"
  have d: "rat_round (x * 1000000000) = s * 1000000000 + n"
    using split_seconds(1) [of x] by (simp add: s_def n_def)
  have sb: "\<bar>s\<bar> < 2305843009213693952" using trunc_bound [OF x] by (simp add: s_def)
  have S: "0 \<le> S" "S < 2305843009213693952" and N: "0 \<le> N" "N < 1000000000"
    using ts ok by (simp_all add: S_def N_def ts_ok_def)
  have val: "ts_value t = S * 1000000000 + N" by (simp add: ts_value_def S_def N_def)
  have cast: "cast_u64 v = Some (word_of_int v)" "uint (word_of_int v :: u64) = v" if "0 \<le> v" "v < 4611686018427387904" for v
    using that by (simp_all add: cast_u64_def uint_of_small)
  have cast32: "cast_u32 v = Some (word_of_int v)" "uint (word_of_int v :: u32) = v" if "0 \<le> v" "v \<le> 1000000000" for v
    using that by (simp_all add: cast_u32_def uint_of_small)
  show ?thesis
  proof (cases "x < 0")
    case False
    have sn: "0 \<le> s" "0 \<le> n" "n \<le> 1000000000"
      using split_seconds(2) [of x] False by (simp_all add: s_def n_def)
    let ?s = "ts_seconds t + word_of_int s" and ?n = "ts_nanoseconds t + word_of_int n"
    have us: "uint ?s = S + s"
      using S sn sb cast(2) [of s] by (simp add: uint_add_small S_def)
    have un: "uint ?n = N + n"
      using N sn cast32(2) [of n] by (simp add: uint_add_small N_def)
    have run: "ts_add_seconds t x =
      (if ?n \<ge> 1000000000 then Some \<lparr>ts_seconds = ?s + 1, ts_nanoseconds = ?n - 1000000000\<rparr>
       else Some \<lparr>ts_seconds = ?s, ts_nanoseconds = ?n\<rparr>)"
      unfolding ts_add_seconds_def Let_def s_def [symmetric] n_def [symmetric]
      using False sn sb cast(1) [of s] cast32(1) [of n] by simp
    show ?thesis
    proof (cases "?n \<ge> 1000000000")
      case True
      then have "uint (?n - 1000000000) = N + n - 1000000000" using uint_sub_small [OF True] un by simp
      moreover have "uint (?s + 1) = S + s + 1"
        using us S sb by (subst uint_add_small) simp_all
      ultimately show ?thesis
        using that [of "\<lparr>ts_seconds = ?s + 1, ts_nanoseconds = ?n - 1000000000\<rparr>"] True run S N sn sb val d
        by (simp add: ts_ok_def ts_value_def)
    next
      case 2: False
      then have "N + n < 1000000000" using un by (simp add: word_le_def)
      then show ?thesis
        using that [of "\<lparr>ts_seconds = ?s, ts_nanoseconds = ?n\<rparr>"] 2 run S N sn sb val d us un
        by (simp add: ts_ok_def ts_value_def)
    qed
  next
    case True
    have sn: "s \<le> 0" "n \<le> 0" "- 1000000000 \<le> n"
      using split_seconds(3) [OF True] by (simp_all add: s_def n_def)
    have zero: ?thesis if "ts_add_seconds t x = Some ts_zero" "S * 1000000000 + N + (s * 1000000000 + n) \<le> 0"
      using res [OF that(1)] that(2) val d by (simp add: ts_zero_def ts_ok_def ts_value_def)
    have result: ?thesis
      if run: "ts_add_seconds t x = Some \<lparr>ts_seconds = a - word_of_int (- s), ts_nanoseconds = b - word_of_int (- n)\<rparr>"
        and ge: "- s \<le> uint a" "- n \<le> uint b" and le: "uint a \<le> S" "uint b + n < 1000000000"
        and v: "uint a * 1000000000 + uint b = S * 1000000000 + N" for a b
    proof -
      have "uint (a - word_of_int (- s)) = uint a + s"
        using ge sn sb cast(2) [of "- s"] by (subst uint_sub_small) (simp_all add: word_le_def)
      moreover have "uint (b - word_of_int (- n)) = uint b + n"
        using ge sn cast32(2) [of "- n"] by (subst uint_sub_small) (simp_all add: word_le_def)
      ultimately show ?thesis
        using res [OF run] ge le v val d S sn by (simp add: ts_ok_def ts_value_def)
    qed
    have run: "ts_add_seconds t x =
       (if - n > N \<and> ts_seconds t < 1 then Some ts_zero
        else if - n > N then
          (if - s > uint (ts_seconds t - 1) then Some ts_zero
           else Some \<lparr>ts_seconds = ts_seconds t - 1 - word_of_int (- s),
                      ts_nanoseconds = ts_nanoseconds t + 1000000000 - word_of_int (- n)\<rparr>)
        else if - s > S then Some ts_zero
        else Some \<lparr>ts_seconds = ts_seconds t - word_of_int (- s), ts_nanoseconds = ts_nanoseconds t - word_of_int (- n)\<rparr>)"
      unfolding ts_add_seconds_def Let_def s_def [symmetric] n_def [symmetric]
      using True sn sb cast(1) [of "- s"] cast32(1) [of "- n"] by (simp add: S_def N_def)
    have lt1: "ts_seconds t < 1 \<longleftrightarrow> S = 0" 
  proof -
    have "ts_seconds t < 1 \<longleftrightarrow> S < 1" by (simp add: word_less_def S_def)
    then show ?thesis using S by linarith
  qed
    show ?thesis
    proof (cases "- n > N")
      case borrow: True
      show ?thesis
      proof (cases "S = 0")
        case True
        then show ?thesis using zero run borrow lt1 S N sn by simp
      next
        case False
        have u1: "uint (ts_seconds t - 1) = S - 1"
        proof -
          have "1 \<le> S" using False S by linarith
          then show ?thesis by (subst uint_sub_small) (simp_all add: word_le_def S_def)
        qed
        have un: "uint (ts_nanoseconds t + 1000000000) = N + 1000000000"
          using N by (subst uint_add_small) (simp_all add: N_def)
        show ?thesis
        proof (cases "- s > S - 1")
          case True
          then show ?thesis using zero run borrow False lt1 u1 S N sn by simp
        next
          case fits: False
          have "\<not> - s > uint (ts_seconds t - 1)" using fits unfolding u1 .
          then have r: "ts_add_seconds t x = Some \<lparr>ts_seconds = ts_seconds t - 1 - word_of_int (- s),
              ts_nanoseconds = ts_nanoseconds t + 1000000000 - word_of_int (- n)\<rparr>"
            unfolding run lt1 using borrow False by (simp only: if_True if_False simp_thms)
          show ?thesis
          proof (rule result [OF r])
            show "- s \<le> uint (ts_seconds t - 1)" "uint (ts_seconds t - 1) \<le> S"
              unfolding u1 using fits by linarith+
            show "- n \<le> uint (ts_nanoseconds t + 1000000000)" "uint (ts_nanoseconds t + 1000000000) + n < 1000000000"
              unfolding un using borrow N sn by linarith+
            show "uint (ts_seconds t - 1) * 1000000000 + uint (ts_nanoseconds t + 1000000000) = S * 1000000000 + N"
              unfolding u1 un by (simp add: algebra_simps)
          qed
        qed
      qed
    next
      case False
      show ?thesis
      proof (cases "- s > S")
        case True
        then show ?thesis using zero run False S N sn by simp
      next
        case fits: False
        show ?thesis by (rule result) (use run False fits S N sn S_def N_def in simp_all)
      qed
    qed
  qed
qed

section \<open>The local clock\<close>

definition clock_ok :: "local_clock \<Rightarrow> bool" where
  "clock_ok c \<longleftrightarrow> 1 / 2 \<le> frequency_ratio c \<and> frequency_ratio c \<le> 3 / 2"

lemma clock_intros [inv_intros]:
  "clock_ok local_clock_init" "clock_ok (clock_adjust now x c)" "clock_ok (clock_step now x c)"
  "clock_ok c \<Longrightarrow> clock_ok (set_calibrated b c)"
  by (auto simp: clock_ok_def local_clock_init_def clock_adjust_def clock_step_def set_calibrated_def
      Let_def min_def max_def)

lemma rat_round_near: "of_int (rat_round x) \<le> x + 1 / 2" "x - 1 / 2 \<le> of_int (rat_round x)"
proof -
  have f: "rat_of_int \<lfloor>z\<rfloor> \<le> z" "z < rat_of_int \<lfloor>z\<rfloor> + 1" for z by linarith+
  show "of_int (rat_round x) \<le> x + 1 / 2"
  proof (cases "x < 0")
    case True
    have "rat_of_int (rat_round x) = - rat_of_int \<lfloor>- x + 1 / 2\<rfloor>" using True by (simp add: rat_round_def)
    then show ?thesis using f(2) [of "- x + 1 / 2"] by linarith
  next
    case False
    then show ?thesis using f(1) [of "x + 1 / 2"] by (simp add: rat_round_def)
  qed
  show "x - 1 / 2 \<le> of_int (rat_round x)"
  proof (cases "x < 0")
    case True
    have "rat_of_int (rat_round x) = - rat_of_int \<lfloor>- x + 1 / 2\<rfloor>" using True by (simp add: rat_round_def)
    then show ?thesis using f(1) [of "- x + 1 / 2"] by linarith
  next
    case False
    have "rat_of_int (rat_round x) = rat_of_int \<lfloor>x + 1 / 2\<rfloor>" using False by (simp add: rat_round_def)
    then show ?thesis using f(2) [of "x + 1 / 2"] by linarith
  qed
qed

lemma ts_to_seconds_value: "ts_to_seconds t = of_int (ts_value t) / 1000000000"
  by (simp add: ts_to_seconds_def ts_value_def add_divide_distrib)

lemma ts_value_nonneg: "0 \<le> ts_value t"
  by (simp add: ts_value_def)

lemma ts_seconds_bound: "ts_value t < k * 1000000000 \<Longrightarrow> uint (ts_seconds t) < k"
proof -
  assume "ts_value t < k * 1000000000"
  moreover have "uint (ts_seconds t) * 1000000000 \<le> ts_value t" by (simp add: ts_value_def)
  ultimately have "uint (ts_seconds t) * 1000000000 < k * 1000000000" by (rule le_less_trans [rotated])
  then show ?thesis by simp
qed

text \<open>The adjusted time in nanoseconds, for times and a shift below about 18 billion years.\<close>

lemma adjusted_time_value:
  assumes c: "clock_ok c" and ok: "ts_ok (last_sync c)" "ts_ok a"
    and small: "ts_value (last_sync c) < 2 ^ 59 * 1000000000" "ts_value a < 2 ^ 59 * 1000000000" "\<bar>shift c\<bar> < 2 ^ 60"
  obtains r where "get_adjusted_time c a = Some r" "ts_ok r"
    "ts_value r = max 0 (max 0 (ts_value (last_sync c)
        + rat_round ((ts_to_seconds a - ts_to_seconds (last_sync c)) * frequency_ratio c * 1000000000))
        + rat_round (shift c * 1000000000))"
proof -
  let ?l = "last_sync c"
  let ?e = "(ts_to_seconds a - ts_to_seconds ?l) * frequency_ratio c"
  have secs: "0 \<le> ts_to_seconds t \<and> ts_to_seconds t < 2 ^ 59" if "ts_value t < 2 ^ 59 * 1000000000" for t
  proof -
    have "rat_of_int (ts_value t) < of_int (2 ^ 59 * 1000000000)" using that by (simp only: of_int_less_iff)
    then show ?thesis by (simp add: ts_to_seconds_value ts_value_nonneg)
  qed
  have d: "\<bar>ts_to_seconds a - ts_to_seconds ?l\<bar> < 2 ^ 59" using secs [OF small(1)] secs [OF small(2)] by linarith
  have r: "\<bar>frequency_ratio c\<bar> \<le> 3 / 2" "0 < \<bar>frequency_ratio c\<bar>" using c by (auto simp: clock_ok_def)
  have "\<bar>?e\<bar> < 2 ^ 59 * (3 / 2)"
    unfolding abs_mult by (rule mult_less_le_imp_less [OF d r(1) abs_ge_zero r(2)])
  then have e: "\<bar>?e\<bar> < 2 ^ 60" by simp
  have l: "uint (ts_seconds ?l) < 2 ^ 61" using ts_seconds_bound [of ?l "2 ^ 59"] small(1) by simp
  have e61: "\<bar>?e\<bar> < 2 ^ 61" using e by simp
  obtain r1 where r1: "ts_add_seconds ?l ?e = Some r1" "ts_ok r1"
    "ts_value r1 = max 0 (ts_value ?l + rat_round (?e * 1000000000))"
    by (rule ts_add_seconds_value [OF ok(1) l e61])
  have "rat_of_int (rat_round (?e * 1000000000)) \<le> ?e * 1000000000 + 1 / 2" by (rule rat_round_near)
  also have "\<dots> < rat_of_int (2 ^ 60 * 1000000000 + 1)" using e by (simp add: abs_less_iff)
  finally have "rat_round (?e * 1000000000) < 2 ^ 60 * 1000000000 + 1" by (simp only: of_int_less_iff)
  then have "ts_value r1 < 2 ^ 61 * 1000000000" using r1(3) small(1) by simp
  then have r1s: "uint (ts_seconds r1) < 2 ^ 61" by (rule ts_seconds_bound)
  have sh: "\<bar>shift c\<bar> < 2 ^ 61" using small(3) by simp
  obtain r2 where r2: "ts_add_seconds r1 (shift c) = Some r2" "ts_ok r2"
    "ts_value r2 = max 0 (ts_value r1 + rat_round (shift c * 1000000000))"
    by (rule ts_add_seconds_value [OF r1(2) r1s sh])
  show ?thesis
  proof (rule that [of r2])
    show "get_adjusted_time c a = Some r2" using r1(1) r2(1) by (simp add: get_adjusted_time_def Let_def)
  qed (use r2 r1(3) in simp_all)
qed

lemma adjusted_time_mono:
  assumes "clock_ok c" and "ts_ok (last_sync c)" "ts_ok a" "ts_ok b" and "ts_value a \<le> ts_value b"
    and "ts_value (last_sync c) < 2 ^ 59 * 1000000000" "ts_value b < 2 ^ 59 * 1000000000" "\<bar>shift c\<bar> < 2 ^ 60"
  obtains r s where "get_adjusted_time c a = Some r" "get_adjusted_time c b = Some s" "\<not> ts_lt s r"
proof -
  have a: "ts_value a < 2 ^ 59 * 1000000000" using assms(5,7) by (rule le_less_trans)
  obtain r where r: "get_adjusted_time c a = Some r" "ts_ok r"
    "ts_value r = max 0 (max 0 (ts_value (last_sync c)
        + rat_round ((ts_to_seconds a - ts_to_seconds (last_sync c)) * frequency_ratio c * 1000000000))
        + rat_round (shift c * 1000000000))"
    by (rule adjusted_time_value [OF assms(1,2,3,6) a assms(8)])
  obtain s where s: "get_adjusted_time c b = Some s" "ts_ok s"
    "ts_value s = max 0 (max 0 (ts_value (last_sync c)
        + rat_round ((ts_to_seconds b - ts_to_seconds (last_sync c)) * frequency_ratio c * 1000000000))
        + rat_round (shift c * 1000000000))"
    by (rule adjusted_time_value [OF assms(1,2,4,6,7,8)])
  have "ts_to_seconds a \<le> ts_to_seconds b"
    using assms(5) by (simp add: ts_to_seconds_value divide_right_mono)
  then have "(ts_to_seconds a - ts_to_seconds (last_sync c)) * frequency_ratio c * 1000000000
      \<le> (ts_to_seconds b - ts_to_seconds (last_sync c)) * frequency_ratio c * 1000000000"
    using assms(1) by (simp add: clock_ok_def mult_right_mono)
  from rat_round_mono [OF this] have "ts_value r \<le> ts_value s"
    unfolding r(3) s(3) by (intro max.mono add_mono order_refl)
  then show ?thesis using that r(1,2) s(1,2) ts_lt_value by fastforce
qed

section \<open>The servo's invariant\<close>

definition servo_ok :: "servo \<Rightarrow> bool" where
  "servo_ok sv \<longleftrightarrow> clock_ok (sv_clock sv) \<and> summary_ok (offset_from_master (sv_stats sv)) \<and>
     summary_ok (filtered_offset (sv_stats sv)) \<and> ss_capacity (offset_from_master (sv_stats sv)) = 51"

lemma servo_init_ok [inv_intros]: "servo_ok servo_init"
  by (simp add: servo_ok_def servo_init_def ptp_stats_init_def clock_intros) (simp add: sliding_stats_init_def)

lemma update_filter:
  assumes "update_local_ptp_clock pb now due m sv = Some sv'"
  shows "(sv_clock sv', sv_stats sv') = servo_filter pb now due (m_offset_from_master m) (sv_clock sv) (sv_stats sv)"
  using assms
  by (cases "servo_filter pb now due (m_offset_from_master m) (sv_clock sv) (sv_stats sv)")
    (auto simp: update_local_ptp_clock_def bind_Some_iff)

lemma servo_update_ok [inv_intros]:
  assumes "circular_law pb" and "servo_ok sv" and "update_local_ptp_clock pb now due m sv = Some sv'"
  shows "servo_ok sv'"
proof -
  have f: "(sv_clock sv', sv_stats sv') = servo_filter pb now due (m_offset_from_master m) (sv_clock sv) (sv_stats sv)"
    by (rule update_filter [OF assms(3)])
  have cap: "ss_capacity (ss_reset s) = ss_capacity s" for s by (simp add: ss_reset_def)
  show ?thesis
    using assms(2) f unfolding servo_ok_def servo_filter_def Let_def
    by (auto simp: clock_intros summary_reset summary_add [OF assms(1)] cap split: if_splits)
qed

text \<open>A run of measurements, each with the system time it arrives at and whether the throttle fires.\<close>

fun run_servo :: "rat push_back \<Rightarrow> (timestamp \<times> bool \<times> measurement) list \<Rightarrow> servo \<Rightarrow> servo option" where
  "run_servo pb [] sv = Some sv"
| "run_servo pb ((now, due, m) # ms) sv =
     (case update_local_ptp_clock pb now due m sv of None \<Rightarrow> None | Some sv' \<Rightarrow> run_servo pb ms sv')"

lemma update_adjustments:
  assumes "update_local_ptp_clock pb now due m sv = Some sv'"
  shows "adjustments_since_last_step (sv_clock sv') \<le> adjustments_since_last_step (sv_clock sv) + 1"
  using update_filter [OF assms]
  by (auto simp: servo_filter_def Let_def clock_step_def clock_adjust_def set_calibrated_def split: if_splits)

lemma run_adjustments:
  "run_servo pb ms sv = Some sv' \<Longrightarrow>
   adjustments_since_last_step (sv_clock sv') \<le> adjustments_since_last_step (sv_clock sv) + length ms"
proof (induction pb ms sv rule: run_servo.induct)
  case (2 pb now due m ms sv)
  then obtain sv1 where u: "update_local_ptp_clock pb now due m sv = Some sv1" and r: "run_servo pb ms sv1 = Some sv'"
    by (auto split: option.splits)
  show ?case using "2.IH" [OF u r] update_adjustments [OF u] by simp
qed simp

lemma run_servo_ok: "circular_law pb \<Longrightarrow> servo_ok sv \<Longrightarrow> run_servo pb ms sv = Some sv' \<Longrightarrow> servo_ok sv'"
proof (induction pb ms sv rule: run_servo.induct)
  case (2 pb now due m ms sv)
  then obtain sv1 where u: "update_local_ptp_clock pb now due m sv = Some sv1" and r: "run_servo pb ms sv1 = Some sv'"
    by (auto split: option.splits)
  show ?case by (rule "2.IH" [OF u "2.prems"(1) servo_update_ok [OF "2.prems"(1,2) u] r])
qed simp

lemma filter_constant:
  assumes "0 \<le> gain f" "gain f \<le> 1" and "\<bar>v\<bar> \<le> confidence_range f"
  shows "filter_update f v = (v * gain f, snd (filter_update f v)) \<and>
    \<bar>v\<bar> \<le> confidence_range (snd (filter_update f v)) \<and> gain (snd (filter_update f v)) = gain f"
proof -
  have "(confidence_range f - \<bar>v\<bar>) * gain f \<le> (confidence_range f - \<bar>v\<bar>) * 1"
    using assms by (intro mult_left_mono) simp_all
  then show ?thesis using assms(3) by (simp add: filter_update_def)
qed

fun run_filter :: "basic_filter \<Rightarrow> rat list \<Rightarrow> rat list" where
  "run_filter f [] = []"
| "run_filter f (v # vs) = (let (r, f') = filter_update f v in r # run_filter f' vs)"

lemma run_filter_constant:
  assumes "0 \<le> gain f" "gain f \<le> 1" and "\<bar>v\<bar> \<le> confidence_range f"
  shows "run_filter f (replicate n v) = replicate n (v * gain f)"
  using assms
proof (induction n arbitrary: f)
  case (Suc n)
  obtain r f' where u: "filter_update f v = (r, f')" by fastforce
  then show ?case using Suc.IH [of f'] filter_constant [OF Suc.prems] Suc.prems by simp
qed simp

section \<open>Properties\<close>

text \<open>
  Adding \<open>x\<close> seconds moves a timestamp by \<open>x\<close> rounded to nanoseconds, and to
  zero when the result would be negative; the nanoseconds stay below a second and no conversion is
  undefined, on both sides of zero and with either carry.
\<close>

theorem timestamp_add_seconds:
  assumes "ts_ok t" and "uint (ts_seconds t) < 2 ^ 61" and "\<bar>x\<bar> < 2 ^ 61"
  shows "\<exists>t'. ts_add_seconds t x = Some t' \<and> ts_ok t' \<and>
    ts_value t' = max 0 (ts_value t + rat_round (x * 1000000000))"
  by (rule ts_add_seconds_value [OF assms]) blast

theorem timestamp_add_seconds_witness:
  "\<exists>t'. ts_add_seconds \<lparr>ts_seconds = 5, ts_nanoseconds = 100000000\<rparr> (- 3 / 2) = Some t' \<and> ts_value t' = 3600000000"
proof -
  have r: "rat_round (- 3 / 2 * 1000000000) = - 1500000000" by (simp add: rat_round_def floor_eq_iff)
  show ?thesis
    using timestamp_add_seconds [of "\<lparr>ts_seconds = 5, ts_nanoseconds = 100000000\<rparr>" "- 3 / 2"]
    unfolding r by (auto simp: ts_ok_def ts_value_def)
qed

text \<open>
  C28: between two measurements the adjusted time does not run backwards: a later system
  time never maps to an earlier time of the master.
\<close>

theorem clock_monotone:
  assumes "clock_ok c" and "ts_ok (last_sync c)" "ts_ok a" "ts_ok b" and "ts_value a \<le> ts_value b"
    and "ts_value (last_sync c) < 2 ^ 59 * 1000000000" "ts_value b < 2 ^ 59 * 1000000000" "\<bar>shift c\<bar> < 2 ^ 60"
  shows "\<exists>r s. get_adjusted_time c a = Some r \<and> get_adjusted_time c b = Some s \<and> \<not> ts_lt s r"
  by (rule adjusted_time_mono [OF assms]) blast

theorem clock_monotone_witness:
  "\<exists>r s. get_adjusted_time local_clock_init ts_zero = Some r \<and>
     get_adjusted_time local_clock_init \<lparr>ts_seconds = 1, ts_nanoseconds = 5\<rparr> = Some s \<and> \<not> ts_lt s r"
  by (rule clock_monotone) (simp_all add: clock_intros local_clock_init_def clock_ok_def ts_ok_def ts_zero_def ts_value_def)

text \<open>
  The filter of the mean path delay (gain 0.1) does not converge to a constant
  delay: whatever the number of updates, it returns a tenth of it.
\<close>

theorem mean_delay_filter_scales:
  assumes "\<bar>v\<bar> \<le> 1"
  shows "run_filter (filter_init (1 / 10)) (replicate n v) = replicate n (v / 10)"
  using assms by (subst run_filter_constant) (simp_all add: filter_init_def)

theorem mean_delay_filter_scales_witness:
  "run_filter (filter_init (1 / 10)) (replicate 100 (5 / 1000)) = replicate 100 (5 / 10000)"
  using mean_delay_filter_scales [of "5 / 1000" 100] by simp

text \<open>
  C27: a measurement of a second or more steps the clock and clears its statistics, and
  after it fewer than ten measurements, whatever they are, cannot make the clock calibrated; the
  frequency ratio stays between 0.5 and 1.5 throughout.
\<close>

theorem servo_recalibration:
  assumes "circular_law pb" and "servo_ok sv" and "1 \<le> \<bar>m_offset_from_master m\<bar>"
    and "update_local_ptp_clock pb now due m sv = Some sv1"
    and "run_servo pb ms sv1 = Some sv2" and "length ms < 10"
  shows "shift (sv_clock sv1) = shift (sv_clock sv) - m_offset_from_master m \<and> frequency_ratio (sv_clock sv1) = 1 \<and>
    ss_count (offset_from_master (sv_stats sv1)) = 0 \<and> \<not> is_calibrated (sv_clock sv2) \<and> clock_ok (sv_clock sv2)"
proof -
  have f: "(sv_clock sv1, sv_stats sv1) = servo_filter pb now due (m_offset_from_master m) (sv_clock sv) (sv_stats sv)"
    by (rule update_filter [OF assms(4)])
  then have step: "sv_clock sv1 = clock_step now (m_offset_from_master m) (sv_clock sv)"
    "offset_from_master (sv_stats sv1) = ss_reset (offset_from_master (sv_stats sv))"
    using assms(3) by (simp_all add: servo_filter_def k_clock_step_threshold_seconds_def)
  then have "adjustments_since_last_step (sv_clock sv2) < 10"
    using run_adjustments [OF assms(5)] assms(6) by (simp add: clock_step_def)
  moreover have "clock_ok (sv_clock sv2)"
    using run_servo_ok [OF assms(1) servo_update_ok [OF assms(1,2,4)] assms(5)] by (simp add: servo_ok_def)
  ultimately show ?thesis
    using step by (simp add: clock_step_def ss_reset_def ss_count_def is_calibrated_def is_locked_def)
qed

definition example_measurement :: "rat \<Rightarrow> measurement" where
  "example_measurement x = \<lparr>m_sync_event_ingress_timestamp = 0, m_offset_from_master = x, m_mean_delay = 0,
     m_corrected_master_event_timestamp = 0\<rparr>"

lemma example_update:
  "x \<in> {0, 2} \<Longrightarrow> \<exists>sv'. update_local_ptp_clock pb now due (example_measurement x) sv = Some sv'"
  by (auto simp: update_local_ptp_clock_def example_measurement_def to_fractional_interval_def
      i64_min_def i64_max_def i64_def in_i64_def frac_scale_def rat_trunc_def Let_def split: prod.splits)

theorem servo_recalibration_witness:
  "\<exists>sv1. update_local_ptp_clock list_push_back ts_zero False (example_measurement 2) servo_init = Some sv1 \<and>
     \<not> is_calibrated (sv_clock sv1) \<and> shift (sv_clock sv1) = - 2"
proof -
  obtain sv1 where u: "update_local_ptp_clock list_push_back ts_zero False (example_measurement 2) servo_init = Some sv1"
    using example_update [of 2] by blast
  from servo_recalibration [OF list_push_back_law servo_init_ok _ u, of "[]" sv1] u show ?thesis
    by (simp add: example_measurement_def servo_init_def local_clock_init_def)
qed

text \<open>
  A measurement below a second that is left out of the adjustment counts as an
  outlier, and this only happens to a calibrated clock with at least five measurements since the last
  step.
\<close>

theorem servo_ignores_outliers_late:
  assumes "circular_law pb" and "servo_ok sv" and "\<bar>m_offset_from_master m\<bar> < 1"
    and "update_local_ptp_clock pb now due m sv = Some sv'"
    and "adjustments_since_last_step (sv_clock sv') = adjustments_since_last_step (sv_clock sv)"
  shows "is_calibrated (sv_clock sv) \<and> sv_clock sv' = sv_clock sv \<and>
    ignored_outliers (sv_stats sv') = ignored_outliers (sv_stats sv) + 1 \<and>
    5 \<le> ss_count (offset_from_master (sv_stats sv'))"
proof -
  let ?x = "m_offset_from_master m"
  let ?ofm = "ss_add pb (offset_from_master (sv_stats sv)) ?x"
  have f: "(sv_clock sv', sv_stats sv') = servo_filter pb now due ?x (sv_clock sv) (sv_stats sv)"
    by (rule update_filter [OF assms(4)])
  have small: "\<not> \<bar>?x\<bar> \<ge> k_clock_step_threshold_seconds" using assms(3) by (simp add: k_clock_step_threshold_seconds_def)
  have out: "is_calibrated (sv_clock sv) \<and> is_outlier_zscore ?ofm ?x (175 / 100)"
    using f small assms(5) by (auto simp: servo_filter_def Let_def clock_adjust_def set_calibrated_def split: if_splits)
  then have eq: "sv_clock sv' = sv_clock sv" "sv_stats sv' = (sv_stats sv)\<lparr>offset_from_master := ?ofm,
      ignored_outliers := ignored_outliers (sv_stats sv) + 1\<rparr>"
    using f small by (simp_all add: servo_filter_def Let_def)
  have sum: "summary_ok (offset_from_master (sv_stats sv))" "ss_capacity (offset_from_master (sv_stats sv)) = 51"
    using assms(2) by (simp_all add: servo_ok_def)
  have push: "window ?ofm \<noteq> [] \<and> last (window ?ofm) = ?x"
    unfolding window_add using sum by (intro circular_push_last [OF assms(1)]) (simp_all add: summary_ok_def)
  have ok: "summary_ok ?ofm" "?x \<in> set (window ?ofm)"
    using summary_add [OF assms(1) sum(1)] push last_in_set [of "window ?ofm"] by simp_all
  have "5 \<le> length (window ?ofm)"
  proof (rule ccontr)
    assume "\<not> 5 \<le> length (window ?ofm)"
    then have "length (window ?ofm) - 1 \<le> 3" by simp
    then have "of_nat (length (window ?ofm) - 1) \<le> rat_of_nat 3" by (simp only: of_nat_le_iff)
    also have "\<dots> \<le> 175 / 100 * (175 / 100)" by simp
    finally show False using no_small_outliers [OF ok] out by blast
  qed
  then show ?thesis using out eq by (simp add: ss_count_def)
qed

text \<open>A calibrated clock whose last five measurements were exact.\<close>

definition settled_servo :: servo where
  "settled_servo = servo_init\<lparr>
     sv_clock := local_clock_init\<lparr>adjustments_since_last_step := 10, clock_calibrated := True\<rparr>,
     sv_stats := ptp_stats_init\<lparr>offset_from_master :=
       fold (\<lambda>v s. ss_add list_push_back s v) [0, 0, 0, 0, 0] (sliding_stats_init 51)\<rparr>\<rparr>"

lemma settled_servo_ok: "servo_ok settled_servo"
proof -
  have "ss_capacity (sliding_stats_init 51) = 51" by (simp add: sliding_stats_init_def)
  then show ?thesis
    unfolding servo_ok_def settled_servo_def servo_init_def ptp_stats_init_def
    by (simp add: clock_ok_def local_clock_init_def summary_add [OF list_push_back_law])
qed

lemma settled_outlier:
  "is_outlier_zscore (ss_add list_push_back (offset_from_master (sv_stats settled_servo)) (1 / 2)) (1 / 2) (175 / 100)"
proof -
  let ?s = "offset_from_master (sv_stats settled_servo)"
  have s: "?s = fold (\<lambda>v s. ss_add list_push_back s v) [0, 0, 0, 0, 0] (sliding_stats_init 51)"
    by (simp add: settled_servo_def del: fold_simps)
  have w: "window (ss_add list_push_back ?s (1 / 2)) = [0, 0, 0, 0, 0, 1 / 2]"
    by (simp add: s window_fold sliding_stats_init_def list_push_back_def)
  have "summary_ok (ss_add list_push_back ?s (1 / 2))"
    using settled_servo_ok by (intro summary_add [OF list_push_back_law]) (simp add: servo_ok_def)
  then have mean: "ss_mean (ss_add list_push_back ?s (1 / 2)) = 1 / 12" unfolding summary_ok_def w by simp
  show ?thesis unfolding is_outlier_zscore_def ss_variance_def w mean by simp
qed

theorem servo_ignores_outliers_late_witness:
  "\<exists>sv'. update_local_ptp_clock list_push_back ts_zero False (example_measurement (1 / 2)) settled_servo = Some sv' \<and>
     sv_clock sv' = sv_clock settled_servo \<and> 5 \<le> ss_count (offset_from_master (sv_stats sv'))"
proof -
  let ?m = "example_measurement (1 / 2)"
  have "\<exists>sv'. update_local_ptp_clock list_push_back ts_zero False ?m settled_servo = Some sv'"
    by (auto simp: update_local_ptp_clock_def example_measurement_def to_fractional_interval_def
        i64_min_def i64_max_def i64_def in_i64_def frac_scale_def rat_trunc_def Let_def split: prod.splits)
  then obtain sv' where u: "update_local_ptp_clock list_push_back ts_zero False ?m settled_servo = Some sv'" by blast
  have cal: "is_calibrated (sv_clock settled_servo)"
    by (simp add: settled_servo_def is_calibrated_def is_locked_def)
  have "sv_clock sv' = sv_clock settled_servo"
    using update_filter [OF u] settled_outlier cal
    by (simp add: servo_filter_def k_clock_step_threshold_seconds_def example_measurement_def Let_def)
  then show ?thesis
    using u servo_ignores_outliers_late [OF list_push_back_law settled_servo_ok _ u]
    by (simp add: example_measurement_def)
qed

end
