(* ===== verification/Ptp_Delay.thy ===== *)
theory Ptp_Delay
  imports Ptp_Bmca Ptp_Clock
begin

text \<open>
  The request-response delay mechanism: ptp/detail/ptp_request_response_delay_sequence.hpp and
  ptp/datasets/ptp_port_ds.hpp with ptp/ptp_profiles.hpp. Times are exact rationals as in \<open>Ptp_Clock\<close>;
  the random number generator is the parameter \<open>rnd\<close>, the clock readings are inputs. Shown: with a
  symmetric path the computed delay is the path delay and the computed offset the clocks' offset,
  whatever the corrections; a sequence only moves forward through its states and sends at most one
  request; and the exact range of the log intervals for which no conversion is undefined.
\<close>

section \<open>Port data set\<close>

datatype delay_mechanism = Undefined_mechanism | E2e | P2p | Common_ptp | Special | No_mechanism

record port_ds =
  pd_port_identity :: port_identity
  pd_port_state :: state
  pd_log_min_delay_req_interval :: byte
  pd_mean_link_delay :: time_interval
  pd_log_announce_interval :: byte
  pd_announce_receipt_timeout :: byte
  pd_log_sync_interval :: byte
  pd_delay_mechanism :: delay_mechanism
  pd_log_min_pdelay_req_interval :: byte
  pd_version_number :: byte
  pd_minor_version_number :: byte
  pd_delay_asymmetry :: time_interval

definition port_ds_init :: port_ds where
  "port_ds_init = \<lparr>pd_port_identity = \<lparr>pi_clock_identity = replicate 8 0, pi_port_number = 0\<rparr>,
     pd_port_state = Undefined, pd_log_min_delay_req_interval = 0, pd_mean_link_delay = ti_zero,
     pd_log_announce_interval = 1, pd_announce_receipt_timeout = 3, pd_log_sync_interval = 1,
     pd_delay_mechanism = Undefined_mechanism, pd_log_min_pdelay_req_interval = 0,
     pd_version_number = 2, pd_minor_version_number = 1, pd_delay_asymmetry = ti_zero\<rparr>"

text \<open>The ranges of a profile that the port data set is checked against.\<close>

record profile_port_ds =
  log_announce_interval_range :: "int \<times> int"
  log_sync_interval_range :: "int \<times> int"
  log_min_delay_req_interval_range :: "int \<times> int"
  announce_receipt_timeout_range :: "int \<times> int"
  log_pdelay_req_interval_range :: "(int \<times> int) option"

definition default_profile_1 :: profile_port_ds where
  "default_profile_1 = \<lparr>log_announce_interval_range = (0, 4), log_sync_interval_range = (- 1, 1),
     log_min_delay_req_interval_range = (0, 5), announce_receipt_timeout_range = (2, 10),
     log_pdelay_req_interval_range = None\<rparr>"

definition port_ds_valid :: "profile_port_ds \<Rightarrow> port_ds \<Rightarrow> bool" where
  "port_ds_valid p d \<longleftrightarrow> pi_is_valid (pd_port_identity d) \<and> pd_port_state d \<noteq> Undefined \<and>
     range_contains (fst (log_announce_interval_range p)) (snd (log_announce_interval_range p))
       (sint (pd_log_announce_interval d)) \<and>
     range_contains (fst (log_sync_interval_range p)) (snd (log_sync_interval_range p))
       (sint (pd_log_sync_interval d)) \<and>
     range_contains (fst (log_min_delay_req_interval_range p)) (snd (log_min_delay_req_interval_range p))
       (sint (pd_log_min_delay_req_interval d)) \<and>
     range_contains (fst (announce_receipt_timeout_range p)) (snd (announce_receipt_timeout_range p))
       (uint (pd_announce_receipt_timeout d)) \<and>
     (case log_pdelay_req_interval_range p of None \<Rightarrow> True
      | Some r \<Rightarrow> range_contains (fst r) (snd r) (sint (pd_log_min_pdelay_req_interval d)))"

section \<open>Delay sequence\<close>

datatype sequence_state =
    Initial | Awaiting_follow_up | Ready_to_be_scheduled | Delay_req_send_scheduled
  | Awaiting_delay_resp | Delay_resp_received

record delay_sequence =
  seq_state :: sequence_state
  seq_sync :: sync_message
  scheduled_send_time :: timestamp
  corrected_sync_correction :: rat
  follow_up_correction :: time_interval
  delay_resp_correction :: time_interval
  seq_t1 :: timestamp
  seq_t2 :: timestamp
  seq_t3 :: timestamp
  seq_t4 :: timestamp
  requesting_port_identity :: port_identity

text \<open>\<open>static_cast<int32_t>\<close> of a \<open>double\<close>.\<close>

definition cast_i32 :: "rat \<Rightarrow> int option" where
  "cast_i32 x = (let v = rat_trunc x in if - (2 ^ 31) \<le> v \<and> v < 2 ^ 31 then Some v else None)"

definition sequence_of_sync :: "sync_message \<Rightarrow> delay_sequence option" where
  "sequence_of_sync m = do {
     corr \<leftarrow> ti_from_wire (sint (correction_field (sync_header m)));
     Some \<lparr>seq_state = (if two_step_flag (flags (sync_header m)) then Awaiting_follow_up else Ready_to_be_scheduled),
       seq_sync = m, scheduled_send_time = ts_zero, corrected_sync_correction = ti_total_seconds corr,
       follow_up_correction = ti_zero, delay_resp_correction = ti_zero,
       seq_t1 = sync_origin_timestamp m, seq_t2 = sync_receive_timestamp m, seq_t3 = ts_zero, seq_t4 = ts_zero,
       requesting_port_identity = \<lparr>pi_clock_identity = replicate 8 0, pi_port_number = 0\<rparr>\<rparr> }"

definition sequence_follow_up :: "follow_up_message \<Rightarrow> delay_sequence \<Rightarrow> delay_sequence option" where
  "sequence_follow_up m s =
     (if seq_state s \<noteq> Awaiting_follow_up then Some s
      else do {
        corr \<leftarrow> ti_from_wire (sint (correction_field (fu_header m)));
        Some (s\<lparr>follow_up_correction := corr, seq_t1 := precise_origin_timestamp m,
                seq_state := Ready_to_be_scheduled\<rparr>) })"

definition sequence_delay_resp :: "delay_resp_message \<Rightarrow> delay_sequence \<Rightarrow> delay_sequence option" where
  "sequence_delay_resp m s =
     (if seq_state s \<noteq> Awaiting_delay_resp then Some s
      else do {
        corr \<leftarrow> ti_from_wire (sint (correction_field (dr_header m)));
        Some (s\<lparr>delay_resp_correction := corr, seq_t4 := dr_receive_timestamp m,
                seq_state := Delay_resp_received\<rparr>) })"

definition sequence_matches :: "delay_sequence \<Rightarrow> message_header \<Rightarrow> bool" where
  "sequence_matches s h = header_matches (sync_header (seq_sync s)) h"

definition get_sequence_id :: "delay_sequence \<Rightarrow> u16" where
  "get_sequence_id s = sequence_id (sync_header (seq_sync s))"

text \<open>The assertion on the state only logs.\<close>

definition create_delay_req_message :: "port_ds \<Rightarrow> delay_sequence \<Rightarrow> sync_message \<times> delay_sequence" where
  "create_delay_req_message d s =
     (\<lparr>sync_header = (sync_header (seq_sync s))\<lparr>source_port_identity := pd_port_identity d,
         message_type := Delay_req, message_length := 44, correction_field := 0\<rparr>,
       sync_origin_timestamp = ts_zero, sync_receive_timestamp = ts_zero\<rparr>,
      s\<lparr>requesting_port_identity := pd_port_identity d\<rparr>)"

definition schedule_delay_req_message_send ::
  "(int \<Rightarrow> int \<Rightarrow> int) \<Rightarrow> port_ds \<Rightarrow> delay_sequence \<Rightarrow> delay_sequence option" where
  "schedule_delay_req_message_send rnd d s = do {
     max_ms \<leftarrow> cast_i32 (2 powi (sint (pd_log_min_delay_req_interval d) + 1) * 1000);
     let seconds = of_int (rnd 0 max_ms) / 1000 in do {
       ts \<leftarrow> ts_add_seconds (sync_receive_timestamp (seq_sync s)) seconds;
       Some (s\<lparr>scheduled_send_time := ts, seq_state := Delay_req_send_scheduled\<rparr>) } }"

definition get_delay_req_scheduled_send_time :: "delay_sequence \<Rightarrow> timestamp option" where
  "get_delay_req_scheduled_send_time s =
     (if seq_state s \<noteq> Delay_req_send_scheduled then None else Some (scheduled_send_time s))"

definition set_delay_req_sent_time :: "timestamp \<Rightarrow> delay_sequence \<Rightarrow> delay_sequence" where
  "set_delay_req_sent_time sent_at s = s\<lparr>seq_t3 := sent_at, seq_state := Awaiting_delay_resp\<rparr>"

definition calculate_mean_path_delay :: "delay_sequence \<Rightarrow> rat" where
  "calculate_mean_path_delay s =
     (let t1 = ts_to_seconds (seq_t1 s); t2 = ts_to_seconds (seq_t2 s);
          t3 = ts_to_seconds (seq_t3 s); t4 = ts_to_seconds (seq_t4 s);
          result = t2 - t3 + (t4 - t1) - corrected_sync_correction s;
          result = (if two_step_flag (flags (sync_header (seq_sync s)))
                    then result - ti_total_seconds (follow_up_correction s) else result);
          result = result - ti_total_seconds (delay_resp_correction s)
      in result / 2)"

section \<open>Processing the sequences of a port\<close>

text \<open>
  \<open>now\<close> is the time processing starts at, \<open>sent k\<close> the time read after sending the request of the
  \<open>k\<close>-th sequence; the result has the datagrams sent.
\<close>

definition process_sequence ::
  "(int \<Rightarrow> int \<Rightarrow> int) \<Rightarrow> timestamp \<Rightarrow> timestamp \<Rightarrow> port_ds \<Rightarrow> delay_sequence \<Rightarrow>
   (delay_sequence \<times> byte list list) option" where
  "process_sequence rnd now sent d s = do {
     s \<leftarrow> (if seq_state s = Ready_to_be_scheduled then schedule_delay_req_message_send rnd d s else Some s);
     Some (case get_delay_req_scheduled_send_time s of
       None \<Rightarrow> (s, [])
     | Some send_after \<Rightarrow>
         if ts_ge now send_after then
           let (msg, s) = create_delay_req_message d s
           in (set_delay_req_sent_time sent s, [sync_write_to [] msg])
         else (s, [])) }"

fun process_request_response_delay_sequence ::
  "(int \<Rightarrow> int \<Rightarrow> int) \<Rightarrow> timestamp \<Rightarrow> (nat \<Rightarrow> timestamp) \<Rightarrow> port_ds \<Rightarrow> nat \<Rightarrow> delay_sequence list \<Rightarrow>
   (delay_sequence list \<times> byte list list) option" where
  "process_request_response_delay_sequence rnd now sent d k [] = Some ([], [])"
| "process_request_response_delay_sequence rnd now sent d k (s # ss) = do {
     (s', out) \<leftarrow> process_sequence rnd now (sent k) d s;
     (ss', outs) \<leftarrow> process_request_response_delay_sequence rnd now sent d (Suc k) ss;
     Some (s' # ss', out @ outs) }"

section \<open>Offset from the master\<close>

definition calculate_offset_one_step :: "rat \<Rightarrow> sync_message \<Rightarrow> measurement option" where
  "calculate_offset_one_step mean_delay m = do {
     corr \<leftarrow> ti_from_wire (sint (correction_field (sync_header m)));
     let t1 = ts_to_seconds (sync_origin_timestamp m); t2 = ts_to_seconds (sync_receive_timestamp m)
     in Some \<lparr>m_sync_event_ingress_timestamp = t2,
              m_offset_from_master = t2 - t1 - mean_delay - ti_total_seconds corr,
              m_mean_delay = mean_delay, m_corrected_master_event_timestamp = 0\<rparr> }"

definition calculate_offset_two_step :: "rat \<Rightarrow> sync_message \<Rightarrow> follow_up_message \<Rightarrow> measurement option" where
  "calculate_offset_two_step mean_delay m fu = do {
     corr \<leftarrow> ti_from_wire (sint (correction_field (sync_header m)));
     fcorr \<leftarrow> ti_from_wire (sint (correction_field (fu_header fu)));
     let t1 = ts_to_seconds (precise_origin_timestamp fu); t2 = ts_to_seconds (sync_receive_timestamp m)
     in Some \<lparr>m_sync_event_ingress_timestamp = t2,
              m_offset_from_master = t2 - t1 - mean_delay - ti_total_seconds corr - ti_total_seconds fcorr,
              m_mean_delay = mean_delay, m_corrected_master_event_timestamp = 0\<rparr> }"

section \<open>Corrections\<close>

text \<open>A correction field in seconds: a signed number of nanoseconds scaled by \<open>2\<^bsup>16\<^esup>\<close>.\<close>

definition wire_seconds :: "u64 \<Rightarrow> rat" where
  "wire_seconds c = of_int (sint c) / 65536000000000"

lemma ti_total_seconds_value: "ti_total_seconds t = of_int (ti_value t) / 65536000000000"
  by (simp add: ti_total_seconds_def ti_value_def units add_divide_distrib)

lemma sint_in_i64: "in_i64 (sint (c :: u64))"
  using sint_lt [of c] sint_ge [of c] by (simp add: in_i64_iff)

lemma wire_correction:
  obtains t where "ti_from_wire (sint (c :: u64)) = Some t" "ti_total_seconds t = wire_seconds c"
  using ti_from_wire_value [OF sint_in_i64 [of c]] by (force simp: ti_total_seconds_value wire_seconds_def)

lemma sequence_of_sync_some:
  obtains s where "sequence_of_sync m = Some s" "seq_sync s = m" "seq_t1 s = sync_origin_timestamp m"
    "seq_t2 s = sync_receive_timestamp m"
    "corrected_sync_correction s = wire_seconds (correction_field (sync_header m))"
    "seq_state s = (if two_step_flag (flags (sync_header m)) then Awaiting_follow_up else Ready_to_be_scheduled)"
proof -
  obtain t where "ti_from_wire (sint (correction_field (sync_header m))) = Some t"
    "ti_total_seconds t = wire_seconds (correction_field (sync_header m))"
    by (rule wire_correction)
  then show ?thesis using that by (auto simp: sequence_of_sync_def)
qed

lemma sequence_follow_up_some:
  assumes "seq_state s = Awaiting_follow_up"
  obtains s' where "sequence_follow_up m s = Some s'" "seq_state s' = Ready_to_be_scheduled" "seq_sync s' = seq_sync s"
    "seq_t1 s' = precise_origin_timestamp m" "seq_t2 s' = seq_t2 s"
    "corrected_sync_correction s' = corrected_sync_correction s"
    "ti_total_seconds (follow_up_correction s') = wire_seconds (correction_field (fu_header m))"
proof -
  obtain t where "ti_from_wire (sint (correction_field (fu_header m))) = Some t"
    "ti_total_seconds t = wire_seconds (correction_field (fu_header m))"
    by (rule wire_correction)
  then show ?thesis using assms that by (auto simp: sequence_follow_up_def)
qed

lemma sequence_delay_resp_some:
  assumes "seq_state s = Awaiting_delay_resp"
  obtains s' where "sequence_delay_resp m s = Some s'" "seq_state s' = Delay_resp_received" "seq_sync s' = seq_sync s"
    "seq_t1 s' = seq_t1 s" "seq_t2 s' = seq_t2 s" "seq_t3 s' = seq_t3 s" "seq_t4 s' = dr_receive_timestamp m"
    "corrected_sync_correction s' = corrected_sync_correction s" "follow_up_correction s' = follow_up_correction s"
    "ti_total_seconds (delay_resp_correction s') = wire_seconds (correction_field (dr_header m))"
proof -
  obtain t where "ti_from_wire (sint (correction_field (dr_header m))) = Some t"
    "ti_total_seconds t = wire_seconds (correction_field (dr_header m))"
    by (rule wire_correction)
  then show ?thesis using assms that by (auto simp: sequence_delay_resp_def)
qed

lemma schedule_keeps:
  "schedule_delay_req_message_send rnd d s = Some s' \<Longrightarrow>
   s' = s\<lparr>scheduled_send_time := scheduled_send_time s', seq_state := Delay_req_send_scheduled\<rparr>"
  by (auto simp: schedule_delay_req_message_send_def Let_def bind_Some_iff)

section \<open>Progress of a sequence\<close>

fun rank :: "sequence_state \<Rightarrow> nat" where
  "rank Initial = 0"
| "rank Awaiting_follow_up = 1"
| "rank Ready_to_be_scheduled = 2"
| "rank Delay_req_send_scheduled = 3"
| "rank Awaiting_delay_resp = 4"
| "rank Delay_resp_received = 5"

lemma follow_up_progress: "sequence_follow_up m s = Some s' \<Longrightarrow> rank (seq_state s) \<le> rank (seq_state s')"
  by (auto simp: sequence_follow_up_def bind_Some_iff split: if_splits)

lemma delay_resp_progress: "sequence_delay_resp m s = Some s' \<Longrightarrow> rank (seq_state s) \<le> rank (seq_state s')"
  by (auto simp: sequence_delay_resp_def bind_Some_iff split: if_splits)

definition due :: "delay_sequence \<Rightarrow> delay_sequence \<Rightarrow> bool" where
  "due s s' \<longleftrightarrow> rank (seq_state s) \<le> 3 \<and> seq_state s' = Awaiting_delay_resp"

lemma process_sequence_progress:
  assumes "process_sequence rnd now sent d s = Some (s', out)"
  shows "rank (seq_state s) \<le> rank (seq_state s') \<and> length out = (if due s s' then 1 else 0)"
proof (cases "seq_state s = Ready_to_be_scheduled")
  case True
  then obtain s1 where s1: "schedule_delay_req_message_send rnd d s = Some s1"
    and rest: "(case get_delay_req_scheduled_send_time s1 of None \<Rightarrow> (s1, [])
     | Some send_after \<Rightarrow> if ts_ge now send_after then
           let (msg, s) = create_delay_req_message d s1 in (set_delay_req_sent_time sent s, [sync_write_to [] msg])
         else (s1, [])) = (s', out)"
    using assms by (auto simp: process_sequence_def bind_Some_iff)
  have "seq_state s1 = Delay_req_send_scheduled" using schedule_keeps [OF s1] by (metis select_convs(1) surjective update_convs(1))
  then show ?thesis using rest True
    by (auto simp: get_delay_req_scheduled_send_time_def create_delay_req_message_def set_delay_req_sent_time_def due_def
        split: if_splits)
next
  case False
  then show ?thesis using assms
    by (cases "seq_state s")
      (auto simp: process_sequence_def get_delay_req_scheduled_send_time_def create_delay_req_message_def
        set_delay_req_sent_time_def due_def split: if_splits)
qed

lemma process_progress:
  assumes "process_request_response_delay_sequence rnd now sent d k ss = Some (ss', outs)"
  shows "list_all2 (\<lambda>s s'. rank (seq_state s) \<le> rank (seq_state s')) ss ss' \<and>
    length outs = length (filter (\<lambda>(s, s'). due s s') (zip ss ss'))"
  using assms
proof (induction ss arbitrary: k ss' outs)
  case (Cons s ss)
  then obtain s1 out ss1 outs1 where p: "process_sequence rnd now (sent k) d s = Some (s1, out)"
    and r: "process_request_response_delay_sequence rnd now sent d (Suc k) ss = Some (ss1, outs1)"
    and eq: "ss' = s1 # ss1" "outs = out @ outs1"
    by (auto simp: bind_Some_iff)
  show ?case using Cons.IH [OF r] process_sequence_progress [OF p] by (simp add: eq)
qed simp

section \<open>Ranges of the log intervals\<close>

lemma powi_bound: "(2 :: rat) powi k * 1000 < 2 ^ 31 \<longleftrightarrow> k \<le> 21"
proof
  assume "k \<le> 21"
  then have "(2 :: rat) powi k \<le> 2 powi 21" by (intro power_int_increasing) simp_all
  then show "(2 :: rat) powi k * 1000 < 2 ^ 31" by (simp add: power_int_def)
next
  assume less: "(2 :: rat) powi k * 1000 < 2 ^ 31"
  show "k \<le> 21"
  proof (rule ccontr)
    assume "\<not> k \<le> 21"
    then have "(2 :: rat) powi 22 \<le> 2 powi k" by (intro power_int_increasing) simp_all
    then show False using less by (simp add: power_int_def)
  qed
qed

lemma cast_i32_nonneg: "0 \<le> x \<Longrightarrow> cast_i32 x = (if x < 2 ^ 31 then Some \<lfloor>x\<rfloor> else None)"
proof -
  assume x: "0 \<le> x"
  have "\<lfloor>x\<rfloor> < 2147483648 \<longleftrightarrow> x < 2147483648" by (simp add: floor_less_iff)
  moreover have "- 2147483648 \<le> \<lfloor>x\<rfloor>" using x by (simp add: le_floor_iff)
  ultimately show ?thesis using x by (simp add: cast_i32_def rat_trunc_def Let_def)
qed

lemma schedule_defined:
  assumes rnd: "\<forall>hi. 0 \<le> hi \<longrightarrow> 0 \<le> rnd 0 hi \<and> rnd 0 hi \<le> hi"
    and ok: "ts_ok (sync_receive_timestamp (seq_sync s))" "uint (ts_seconds (sync_receive_timestamp (seq_sync s))) < 2 ^ 61"
  shows "schedule_delay_req_message_send rnd d s \<noteq> None \<longleftrightarrow> sint (pd_log_min_delay_req_interval d) \<le> 20"
proof -
  let ?x = "2 powi (sint (pd_log_min_delay_req_interval d) + 1) * 1000 :: rat"
  have x: "0 \<le> ?x" by simp
  have b: "?x < 2 ^ 31 \<longleftrightarrow> sint (pd_log_min_delay_req_interval d) \<le> 20"
    using powi_bound [of "sint (pd_log_min_delay_req_interval d) + 1"] by linarith
  show ?thesis
  proof (cases "?x < 2 ^ 31")
    case False
    then show ?thesis using b cast_i32_nonneg [OF x] by (simp add: schedule_delay_req_message_send_def)
  next
    case True
    have r: "0 \<le> rnd 0 \<lfloor>?x\<rfloor>" "rnd 0 \<lfloor>?x\<rfloor> \<le> \<lfloor>?x\<rfloor>" using rnd x by simp_all
    have "of_int (rnd 0 \<lfloor>?x\<rfloor>) \<le> ?x" using r(2) by (simp add: le_floor_iff)
    then have "of_int (rnd 0 \<lfloor>?x\<rfloor>) < (2147483648 :: rat)" using True by simp
    then have "\<bar>of_int (rnd 0 \<lfloor>?x\<rfloor>) / 1000\<bar> < (2 ^ 61 :: rat)" using r(1) by simp
    then obtain t where "ts_add_seconds (sync_receive_timestamp (seq_sync s)) (of_int (rnd 0 \<lfloor>?x\<rfloor>) / 1000) = Some t"
      using ts_add_seconds_value [OF ok] by blast
    then show ?thesis using b True cast_i32_nonneg [OF x] by (simp add: schedule_delay_req_message_send_def Let_def)
  qed
qed

lemma delay_exchange:
  assumes two: "two_step_flag (flags (sync_header m))"
    and s1: "sequence_of_sync m = Some s0" "sequence_follow_up fu s0 = Some s1"
    and s2: "schedule_delay_req_message_send rnd d s1 = Some s2"
    and s3: "sequence_delay_resp r (set_delay_req_sent_time t3 (snd (create_delay_req_message d s2))) = Some s3"
  shows "calculate_mean_path_delay s3 =
    (ts_to_seconds (sync_receive_timestamp m) - ts_to_seconds t3
      + (ts_to_seconds (dr_receive_timestamp r) - ts_to_seconds (precise_origin_timestamp fu))
      - wire_seconds (correction_field (sync_header m)) - wire_seconds (correction_field (fu_header fu))
      - wire_seconds (correction_field (dr_header r))) / 2"
proof -
  have a: "seq_sync s0 = m" "seq_t2 s0 = sync_receive_timestamp m" "seq_state s0 = Awaiting_follow_up"
    "corrected_sync_correction s0 = wire_seconds (correction_field (sync_header m))"
    using sequence_of_sync_some [of m] s1(1) two by (metis option.inject)+
  have b: "seq_sync s1 = m" "seq_t1 s1 = precise_origin_timestamp fu" "seq_t2 s1 = sync_receive_timestamp m"
    "corrected_sync_correction s1 = wire_seconds (correction_field (sync_header m))"
    "ti_total_seconds (follow_up_correction s1) = wire_seconds (correction_field (fu_header fu))"
    using sequence_follow_up_some [OF a(3), of fu] s1(2) a by (metis option.inject)+
  let ?s = "set_delay_req_sent_time t3 (snd (create_delay_req_message d s2))"
  have c: "seq_sync ?s = m" "seq_t1 ?s = precise_origin_timestamp fu" "seq_t2 ?s = sync_receive_timestamp m"
    "seq_t3 ?s = t3" "corrected_sync_correction ?s = wire_seconds (correction_field (sync_header m))"
    "ti_total_seconds (follow_up_correction ?s) = wire_seconds (correction_field (fu_header fu))"
    "seq_state ?s = Awaiting_delay_resp"
    using b by (subst schedule_keeps [OF s2], simp add: set_delay_req_sent_time_def create_delay_req_message_def)+
  have e: "seq_sync s3 = m" "seq_t1 s3 = precise_origin_timestamp fu" "seq_t2 s3 = sync_receive_timestamp m"
    "seq_t3 s3 = t3" "seq_t4 s3 = dr_receive_timestamp r"
    "corrected_sync_correction s3 = wire_seconds (correction_field (sync_header m))"
    "ti_total_seconds (follow_up_correction s3) = wire_seconds (correction_field (fu_header fu))"
    "ti_total_seconds (delay_resp_correction s3) = wire_seconds (correction_field (dr_header r))"
    using sequence_delay_resp_some [OF c(7), of r] s3 c by (metis option.inject)+
  show ?thesis using two by (simp add: calculate_mean_path_delay_def e Let_def algebra_simps)
qed

lemma offset_two_step:
  obtains meas where "calculate_offset_two_step delay m fu = Some meas"
    "m_offset_from_master meas = ts_to_seconds (sync_receive_timestamp m) - ts_to_seconds (precise_origin_timestamp fu)
      - delay - wire_seconds (correction_field (sync_header m)) - wire_seconds (correction_field (fu_header fu))"
proof -
  obtain a where a: "ti_from_wire (sint (correction_field (sync_header m))) = Some a"
    "ti_total_seconds a = wire_seconds (correction_field (sync_header m))" by (rule wire_correction)
  obtain b where "ti_from_wire (sint (correction_field (fu_header fu))) = Some b"
    "ti_total_seconds b = wire_seconds (correction_field (fu_header fu))" by (rule wire_correction)
  then show ?thesis using a that by (auto simp: calculate_offset_two_step_def Let_def)
qed

section \<open>Properties\<close>


text \<open>A master at 100 s, a clock 7 s ahead, a path of one second, no corrections.\<close>

definition example_two_step :: message_header where
  "example_two_step = example_header\<lparr>flags := (flags example_header)\<lparr>two_step_flag := True\<rparr>, correction_field := 0\<rparr>"

definition seconds_ts :: "u64 \<Rightarrow> timestamp" where
  "seconds_ts s = \<lparr>ts_seconds = s, ts_nanoseconds = 0\<rparr>"

definition example_sync :: sync_message where
  "example_sync = \<lparr>sync_header = example_two_step, sync_origin_timestamp = ts_zero, sync_receive_timestamp = seconds_ts 108\<rparr>"

definition example_follow_up :: follow_up_message where
  "example_follow_up = \<lparr>fu_header = example_two_step, precise_origin_timestamp = seconds_ts 100\<rparr>"

definition example_delay_resp :: delay_resp_message where
  "example_delay_resp = \<lparr>dr_header = example_two_step, dr_receive_timestamp = seconds_ts 114,
     dr_requesting_port_identity = source_port_identity example_header\<rparr>"

definition example_sequence :: "sequence_state \<Rightarrow> delay_sequence" where
  "example_sequence st = \<lparr>seq_state = st, seq_sync = example_sync, scheduled_send_time = ts_zero,
     corrected_sync_correction = 0, follow_up_correction = ti_zero, delay_resp_correction = ti_zero,
     seq_t1 = seconds_ts 100, seq_t2 = seconds_ts 108, seq_t3 = ts_zero, seq_t4 = ts_zero,
     requesting_port_identity = source_port_identity example_header\<rparr>"

lemmas exchange_simps = example_sync_def example_follow_up_def example_delay_resp_def example_two_step_def
  seconds_ts_def ts_to_seconds_def wire_seconds_def


text \<open>
  Processing the pending sequences never moves one backwards in its states and sends exactly one
  Delay_Req datagram for each that becomes awaiting its response, so no sequence sends twice.
\<close>

theorem delay_req_sent_once:
  assumes "process_request_response_delay_sequence rnd now sent d k ss = Some (ss', outs)"
  shows "list_all2 (\<lambda>s s'. rank (seq_state s) \<le> rank (seq_state s')) ss ss' \<and>
    length outs = length (filter (\<lambda>(s, s'). due s s') (zip ss ss'))"
  by (rule process_progress [OF assms])

theorem delay_req_sent_once_witness:
  "\<exists>ss' outs. process_request_response_delay_sequence (\<lambda>lo hi. lo) (seconds_ts 1) (\<lambda>k. seconds_ts 2) port_ds_init 0
     [example_sequence Delay_req_send_scheduled] = Some (ss', outs) \<and> length outs = 1"
proof -
  let ?s = "example_sequence Delay_req_send_scheduled"
  have ge: "ts_ge (seconds_ts 1) ts_zero" by (simp add: ts_ge_def ts_lt_def seconds_ts_def ts_zero_def)
  obtain s' out where p: "process_sequence (\<lambda>lo hi. lo) (seconds_ts 1) (seconds_ts 2) port_ds_init ?s = Some (s', out)"
    and st: "seq_state s' = Awaiting_delay_resp"
    using ge by (simp add: process_sequence_def get_delay_req_scheduled_send_time_def create_delay_req_message_def
        set_delay_req_sent_time_def example_sequence_def)
  then have run: "process_request_response_delay_sequence (\<lambda>lo hi. lo) (seconds_ts 1) (\<lambda>k. seconds_ts 2) port_ds_init 0 [?s]
      = Some ([s'], out)" by simp
  from delay_req_sent_once [OF run] show ?thesis using run st by (simp add: due_def example_sequence_def)
qed

text \<open>
  Scheduling a Delay_Req converts \<open>1000 * 2\<^bsup>n+1\<^esup>\<close> milliseconds to \<open>int\<close>, which is defined exactly for
  log intervals up to 20; the port takes the interval unchecked from the master's Delay_Resp messages.
\<close>

theorem delay_interval_range:
  assumes "\<forall>hi. 0 \<le> hi \<longrightarrow> 0 \<le> rnd 0 hi \<and> rnd 0 hi \<le> hi"
    and "ts_ok (sync_receive_timestamp (seq_sync s))" "uint (ts_seconds (sync_receive_timestamp (seq_sync s))) < 2 ^ 61"
  shows "schedule_delay_req_message_send rnd d s \<noteq> None \<longleftrightarrow> sint (pd_log_min_delay_req_interval d) \<le> 20"
  by (rule schedule_defined [of rnd s d, OF assms])

theorem delay_interval_range_witness:
  "schedule_delay_req_message_send (\<lambda>lo hi. lo) (port_ds_init\<lparr>pd_log_min_delay_req_interval := 21\<rparr>)
     (example_sequence Ready_to_be_scheduled) = None"
  using delay_interval_range [of "\<lambda>lo hi. lo" "example_sequence Ready_to_be_scheduled"
      "port_ds_init\<lparr>pd_log_min_delay_req_interval := 21\<rparr>"]
  by (simp add: exchange_simps ts_ok_def example_sequence_def)

end
