(* ===== verification/Ptp_Port.thy ===== *)
theory Ptp_Port
  imports Ptp_Delay
begin

text \<open>
  Port and instance: ptp_port.cpp, ptp_instance.cpp and the data sets they keep. Every handler is a
  function of the instance, which holds its ports; a port is named by its position. The result is
  \<open>None\<close> where the C++ dereferences an empty optional or overflows a conversion, \<open>Inl e\<close> where
  \<open>tl::expected::value\<close> throws. Inputs of a step are the datagram, the readings of the clock, the
  random generator, the ring buffers' \<open>push_back\<close> and the network interfaces. Timers are booleans:
  armed or not. Logging, subscribers and sockets are left out, except that the datagrams sent are
  part of the result.
\<close>

section \<open>State\<close>

record parent_ds =
  parent_port_identity :: port_identity
  parent_stats :: bool
  ps_grandmaster_identity :: clock_identity
  ps_grandmaster_clock_quality :: clock_quality
  ps_grandmaster_priority1 :: u16
  ps_grandmaster_priority2 :: byte

definition parent_ds_init :: "default_ds \<Rightarrow> parent_ds" where
  "parent_ds_init d = \<lparr>parent_port_identity = \<lparr>pi_clock_identity = dd_clock_identity d, pi_port_number = 0\<rparr>,
     parent_stats = False, ps_grandmaster_identity = dd_clock_identity d,
     ps_grandmaster_clock_quality = dd_clock_quality d, ps_grandmaster_priority1 = ucast (dd_priority1 d),
     ps_grandmaster_priority2 = dd_priority2 d\<rparr>"

record time_properties_ds =
  tp_current_utc_offset :: u16
  tp_current_utc_offset_valid :: bool
  tp_leap59 :: bool
  tp_leap61 :: bool
  tp_time_traceable :: bool
  tp_frequency_traceable :: bool
  tp_ptp_timescale :: bool
  tp_time_source :: byte

definition time_properties_ds_init :: time_properties_ds where
  "time_properties_ds_init = \<lparr>tp_current_utc_offset = 0, tp_current_utc_offset_valid = False, tp_leap59 = False,
     tp_leap61 = False, tp_time_traceable = False, tp_frequency_traceable = False, tp_ptp_timescale = False,
     tp_time_source = 0\<rparr>"

text \<open>An IPv4 address is its number, 0 when unspecified.\<close>

record port =
  port_ds :: port_ds
  interface_address :: u32
  foreign_master_list :: foreign_master_list
  erbest :: "announce_message option"
  mean_delay_stats :: sliding_stats
  mean_delay :: rat
  mean_delay_filter :: basic_filter
  syncs_until_delay_req :: int
  sync_messages :: "sync_message list"
  delay_sequences :: "delay_sequence list"
  announce_timer :: bool

record ptp_instance =
  i_default_ds :: default_ds
  i_parent_ds :: parent_ds
  i_time_properties_ds :: time_properties_ds
  i_servo :: servo
  i_ports :: "port list"
  i_decision_timer :: bool

definition instance_init :: ptp_instance where
  "instance_init = \<lparr>i_default_ds = default_ds_init True, i_parent_ds = parent_ds_init (default_ds_init True),
     i_time_properties_ds = time_properties_ds_init, i_servo = servo_init, i_ports = [], i_decision_timer = False\<rparr>"

abbreviation state_of :: "port \<Rightarrow> state" where
  "state_of p \<equiv> pd_port_state (port_ds p)"

abbreviation identity_of :: "port \<Rightarrow> port_identity" where
  "identity_of p \<equiv> pd_port_identity (port_ds p)"

definition following :: "state \<Rightarrow> bool" where
  "following s \<longleftrightarrow> s = Slave \<or> s = Uncalibrated"

definition update_port :: "nat \<Rightarrow> (port \<Rightarrow> port) \<Rightarrow> ptp_instance \<Rightarrow> ptp_instance" where
  "update_port i f inst = inst\<lparr>i_ports := (i_ports inst)[i := f (i_ports inst ! i)]\<rparr>"

section \<open>Port state and timers\<close>

definition schedule_announce_receipt_timeout :: "port \<Rightarrow> port" where
  "schedule_announce_receipt_timeout p = p\<lparr>announce_timer := True\<rparr>"

definition set_state :: "state \<Rightarrow> port \<Rightarrow> port" where
  "set_state s p =
     (if s = state_of p then p
      else case s of
        Listening \<Rightarrow> (schedule_announce_receipt_timeout p)\<lparr>port_ds := (port_ds p)\<lparr>pd_port_state := s\<rparr>\<rparr>
      | Passive \<Rightarrow> (schedule_announce_receipt_timeout p)\<lparr>port_ds := (port_ds p)\<lparr>pd_port_state := s\<rparr>\<rparr>
      | Uncalibrated \<Rightarrow> (schedule_announce_receipt_timeout p)\<lparr>port_ds := (port_ds p)\<lparr>pd_port_state := s\<rparr>\<rparr>
      | Slave \<Rightarrow> (schedule_announce_receipt_timeout p)\<lparr>port_ds := (port_ds p)\<lparr>pd_port_state := s\<rparr>\<rparr>
      | Master \<Rightarrow> p
      | Pre_master \<Rightarrow> p
      | Initializing \<Rightarrow> p\<lparr>announce_timer := False, port_ds := (port_ds p)\<lparr>pd_port_state := s\<rparr>\<rparr>
      | Faulty \<Rightarrow> p\<lparr>announce_timer := False, port_ds := (port_ds p)\<lparr>pd_port_state := s\<rparr>\<rparr>
      | Disabled \<Rightarrow> p\<lparr>announce_timer := False, port_ds := (port_ds p)\<lparr>pd_port_state := s\<rparr>\<rparr>
      | Undefined \<Rightarrow> p\<lparr>port_ds := (port_ds p)\<lparr>pd_port_state := s\<rparr>\<rparr>)"

definition set_interface :: "u32 \<Rightarrow> port \<Rightarrow> port" where
  "set_interface a p = (if a = interface_address p then p else p\<lparr>interface_address := a\<rparr>)"

definition new_port :: "u32 \<Rightarrow> port_identity \<Rightarrow> port" where
  "new_port a pid =
     (let p = \<lparr>port_ds = port_ds_init\<lparr>pd_port_identity := pid, pd_delay_mechanism := E2e\<rparr>, interface_address = 0,
            foreign_master_list = [], erbest = None, mean_delay_stats = sliding_stats_init 31, mean_delay = 0,
            mean_delay_filter = filter_init (1 / 10), syncs_until_delay_req = 10, sync_messages = [],
            delay_sequences = [], announce_timer = False\<rparr>
      in schedule_announce_receipt_timeout (set_state Listening (set_interface a (set_state Initializing p))))"

section \<open>State decision\<close>

definition better_or_by_topology :: "compare_result \<Rightarrow> bool" where
  "better_or_by_topology r \<longleftrightarrow> r = Better_by_topology \<or> r = Better"

definition calculate_erbest :: "port \<Rightarrow> port" where
  "calculate_erbest p =
     (let previous = (if state_of p = Slave \<or> state_of p = Uncalibrated \<or> state_of p = Passive then erbest p else None);
          found = fold (\<lambda>e best. case most_recent_announce_message e of
              None \<Rightarrow> best
            | Some m \<Rightarrow>
                if (case previous of None \<Rightarrow> False
                    | Some b \<Rightarrow> source_port_identity (an_header m) = source_port_identity (an_header b)) then best
                else if foreign_master_announce_messages e < k_foreign_master_threshold then best
                else case best of
                    None \<Rightarrow> Some m
                  | Some b \<Rightarrow> if better_or_by_topology (compare_announce m b (identity_of p)) then Some m else best)
            (foreign_master_list p) None;
          new = (case found of
              None \<Rightarrow> erbest p
            | Some m \<Rightarrow> (case previous of
                None \<Rightarrow> Some m
              | Some b \<Rightarrow> if better_or_by_topology (compare_announce m b (identity_of p)) then Some m else erbest p))
      in p\<lparr>erbest := new, foreign_master_list := purge_entries new (foreign_master_list p)\<rparr>)"

text \<open>The flag says that a comparison failed, which ends the loop over the ports.\<close>

fun determine_loop :: "(announce_message \<times> port_identity) option \<Rightarrow> port list \<Rightarrow>
    bool \<times> (announce_message \<times> port_identity) option \<times> port list" where
  "determine_loop best [] = (False, best, [])"
| "determine_loop best (q # qs) =
     (let p = calculate_erbest q in
      case erbest p of
        None \<Rightarrow> (let (err, b, ps) = determine_loop best qs in (err, b, p # ps))
      | Some m \<Rightarrow> (case best of
          None \<Rightarrow> (let (err, b, ps) = determine_loop (Some (m, identity_of p)) qs in (err, b, p # ps))
        | Some (bm, bid) \<Rightarrow>
            let r = cds_compare (cds_of_announce m (identity_of p)) (cds_of_announce bm bid) in
            if r = Error1 \<or> r = Error2 then (True, best, p # qs)
            else let (err, b, ps) =
              determine_loop (if better_or_by_topology r then Some (m, identity_of p) else best) qs
              in (err, b, p # ps)))"

definition determine_ebest :: "port list \<Rightarrow> (announce_message \<times> port_identity) option \<times> port list" where
  "determine_ebest ps = (let (err, b, ps') = determine_loop None ps in (if err then None else b, ps'))"

definition calculate_recommended_state ::
  "default_ds \<Rightarrow> comparison_data_set option \<Rightarrow> port \<Rightarrow> state_decision_code option" where
  "calculate_recommended_state d ebest p =
     (if ebest = None \<and> state_of p = Listening then None
      else let d0 = cds_of_default d in
        if range_contains 1 127 (uint (clock_class (dd_clock_quality d))) then
          (case erbest p of
             None \<Rightarrow> Some M1
           | Some m \<Rightarrow> if better_or_by_topology (cds_compare d0 (cds_of_announce m (identity_of p))) then Some M1
                       else Some P1)
        else case ebest of
          None \<Rightarrow> Some M2
        | Some e \<Rightarrow>
            if better_or_by_topology (cds_compare d0 e) then Some M2
            else if identity_of_receiver e = identity_of p then Some S1
            else (case erbest p of
                None \<Rightarrow> Some P2
              | Some m \<Rightarrow> if cds_compare e (cds_of_announce m (identity_of p)) = Better_by_topology then Some P2
                          else Some M3))"

definition get_state_for_decision_code :: "ptp_instance \<Rightarrow> state_decision_code \<Rightarrow> state" where
  "get_state_for_decision_code inst code =
     (if code = M1 \<or> code = M2 \<or> code = M3 then (if dd_slave_only (i_default_ds inst) then Listening else Master)
      else if code = S1 then (if is_calibrated (sv_clock (i_servo inst)) then Slave else Uncalibrated)
      else (if dd_slave_only (i_default_ds inst) then Listening else Passive))"

definition set_recommended_state ::
  "state_decision_code \<Rightarrow> announce_message option \<Rightarrow> ptp_instance \<Rightarrow> bool \<times> ptp_instance" where
  "set_recommended_state code ann inst =
     (let d = i_default_ds inst in
      if code = M1 \<or> code = M2 then
        (True, inst\<lparr>i_servo := (i_servo inst)\<lparr>sv_current_ds := current_ds_init\<rparr>,
           i_parent_ds := (i_parent_ds inst)\<lparr>
             parent_port_identity := \<lparr>pi_clock_identity = dd_clock_identity d, pi_port_number = 0\<rparr>,
             ps_grandmaster_identity := dd_clock_identity d, ps_grandmaster_clock_quality := dd_clock_quality d,
             ps_grandmaster_priority1 := ucast (dd_priority1 d), ps_grandmaster_priority2 := dd_priority2 d\<rparr>,
           i_time_properties_ds := \<lparr>tp_current_utc_offset = 0, tp_current_utc_offset_valid = False, tp_leap59 = False,
             tp_leap61 = False, tp_time_traceable = False, tp_frequency_traceable = False, tp_ptp_timescale = False,
             tp_time_source = 0xA0\<rparr>\<rparr>)
      else if code = S1 then
        (case ann of
           None \<Rightarrow> (False, inst)
         | Some m \<Rightarrow>
            (True, inst\<lparr>
              i_servo := (i_servo inst)\<lparr>sv_current_ds := (sv_current_ds (i_servo inst))\<lparr>cd_steps_removed := 1 + steps_removed m\<rparr>\<rparr>,
              i_parent_ds := (i_parent_ds inst)\<lparr>
                parent_port_identity := source_port_identity (an_header m),
                ps_grandmaster_identity := grandmaster_identity m,
                ps_grandmaster_clock_quality := grandmaster_clock_quality m,
                ps_grandmaster_priority1 := ucast (grandmaster_priority1 m),
                ps_grandmaster_priority2 := grandmaster_priority2 m\<rparr>,
              i_time_properties_ds := \<lparr>tp_current_utc_offset = current_utc_offset m,
                tp_current_utc_offset_valid = current_utc_offset_valid (flags (an_header m)),
                tp_leap59 = leap59 (flags (an_header m)), tp_leap61 = leap61 (flags (an_header m)),
                tp_time_traceable = time_traceable (flags (an_header m)),
                tp_frequency_traceable = frequency_traceable (flags (an_header m)),
                tp_ptp_timescale = ptp_timescale (flags (an_header m)), tp_time_source = time_source m\<rparr>\<rparr>))
      else (True, inst))"

text \<open>\<open>ebest->get_comparison_data_set()\<close> is reached with an empty \<open>ebest\<close> in every state but listening.\<close>

definition apply_state_decision_algorithm ::
  "(announce_message \<times> port_identity) option \<Rightarrow> nat \<Rightarrow> ptp_instance \<Rightarrow> ptp_instance option" where
  "apply_state_decision_algorithm ebest i inst =
     (if ebest = None \<and> state_of (i_ports inst ! i) = Listening then Some inst
      else case ebest of
        None \<Rightarrow> None
      | Some (m, receiver) \<Rightarrow>
          (case calculate_recommended_state (i_default_ds inst) (Some (cds_of_announce m receiver)) (i_ports inst ! i) of
             None \<Rightarrow> Some inst
           | Some recommended \<Rightarrow>
               let code = (if (recommended = M1 \<or> recommended = M2 \<or> recommended = M3) \<and> dd_slave_only (i_default_ds inst)
                           then S1 else recommended);
                   inst = snd (set_recommended_state code (Some m) inst)
               in Some (update_port i (set_state (get_state_for_decision_code inst code)) inst)))"

fun apply_to_ports ::
  "(announce_message \<times> port_identity) option \<Rightarrow> nat list \<Rightarrow> ptp_instance \<Rightarrow> ptp_instance option" where
  "apply_to_ports ebest [] inst = Some inst"
| "apply_to_ports ebest (i # is) inst =
     (case apply_state_decision_algorithm ebest i inst of
        None \<Rightarrow> None | Some inst' \<Rightarrow> apply_to_ports ebest is inst')"

definition execute_state_decision_event :: "ptp_instance \<Rightarrow> ptp_instance option" where
  "execute_state_decision_event inst =
     (if list_all (\<lambda>p. state_of p = Initializing) (i_ports inst) then Some inst
      else let (ebest, ps) = determine_ebest (i_ports inst)
           in apply_to_ports ebest [0..<length ps] (inst\<lparr>i_ports := ps\<rparr>))"

section \<open>Timer events\<close>

definition announce_receipt_timeout_expires :: "nat \<Rightarrow> ptp_instance \<Rightarrow> ptp_instance" where
  "announce_receipt_timeout_expires i inst =
     update_port i (\<lambda>p. schedule_announce_receipt_timeout
       (let p = p\<lparr>erbest := None\<rparr> in if dd_slave_only (i_default_ds inst) then set_state Listening p else p)) inst"

definition port_increase_age :: "port \<Rightarrow> port" where
  "port_increase_age p = p\<lparr>foreign_master_list := increase_age (foreign_master_list p)\<rparr>"

definition state_decision_timer_expires :: "ptp_instance \<Rightarrow> ptp_instance option" where
  "state_decision_timer_expires inst = do {
     inst \<leftarrow> execute_state_decision_event inst;
     Some (inst\<lparr>i_ports := map port_increase_age (i_ports inst), i_decision_timer := i_ports inst \<noteq> []\<rparr>) }"

section \<open>Configuration\<close>

definition set_configuration :: "byte \<Rightarrow> ptp_instance \<Rightarrow> ptp_instance" where
  "set_configuration domain inst = inst\<lparr>i_default_ds := (i_default_ds inst)\<lparr>dd_domain_number := domain\<rparr>\<rparr>"

definition has_port :: "u16 \<Rightarrow> ptp_instance \<Rightarrow> bool" where
  "has_port n inst \<longleftrightarrow> list_ex (\<lambda>p. pi_port_number (identity_of p) = n) (i_ports inst)"

text \<open>
  \<open>ifaces a\<close> is what the system knows of the interface with address \<open>a\<close>: nothing, or its MAC address
  if it has one. A failing call still returns the instance, which keeps what was changed before.
\<close>

type_synonym interfaces = "u32 \<Rightarrow> byte list option option"

definition add_port :: "interfaces \<Rightarrow> u16 \<Rightarrow> u32 \<Rightarrow> ptp_instance \<Rightarrow> ptp_error option \<times> ptp_instance" where
  "add_port ifaces n a inst =
     (if has_port n inst then (Some Port_already_exists, inst)
      else case ifaces a of
        None \<Rightarrow> (Some Network_interface_not_found, inst)
      | Some mac \<Rightarrow>
          let with_identity =
            (if ci_all_zero (dd_clock_identity (i_default_ds inst)) then
               (case mac of
                  None \<Rightarrow> Inl No_mac_address_available
                | Some m \<Rightarrow> (case ci_from_mac m of
                    None \<Rightarrow> Inl Invalid_clock_identity
                  | Some c \<Rightarrow> Inr (inst\<lparr>i_default_ds := (i_default_ds inst)\<lparr>dd_clock_identity := c\<rparr>\<rparr>)))
             else Inr inst)
          in case with_identity of
            Inl e \<Rightarrow> (Some e, inst)
          | Inr inst \<Rightarrow>
              let p = new_port a \<lparr>pi_clock_identity = dd_clock_identity (i_default_ds inst), pi_port_number = n\<rparr>;
                  ps = i_ports inst @ [p]
              in (None, inst\<lparr>i_ports := ps,
                    i_default_ds := (i_default_ds inst)\<lparr>dd_number_ports := of_nat (length ps)\<rparr>,
                    i_decision_timer := (if length ps = 1 then True else i_decision_timer inst)\<rparr>))"

fun set_first_interface :: "u16 \<Rightarrow> u32 \<Rightarrow> port list \<Rightarrow> port list" where
  "set_first_interface n a [] = []"
| "set_first_interface n a (p # ps) =
     (if pi_port_number (identity_of p) = n then set_interface a p # ps else p # set_first_interface n a ps)"

definition add_or_update_port :: "interfaces \<Rightarrow> u16 \<Rightarrow> u32 \<Rightarrow> ptp_instance \<Rightarrow> ptp_error option \<times> ptp_instance" where
  "add_or_update_port ifaces n a inst =
     (if has_port n inst then (None, inst\<lparr>i_ports := set_first_interface n a (i_ports inst)\<rparr>)
      else add_port ifaces n a inst)"

definition set_port_interface :: "u16 \<Rightarrow> u32 \<Rightarrow> ptp_instance \<Rightarrow> bool \<times> ptp_instance" where
  "set_port_interface n a inst =
     (has_port n inst, inst\<lparr>i_ports := set_first_interface n a (i_ports inst)\<rparr>)"

definition remove_port :: "u16 \<Rightarrow> ptp_instance \<Rightarrow> bool \<times> ptp_instance" where
  "remove_port n inst =
     (let ps = filter (\<lambda>p. pi_port_number (identity_of p) \<noteq> n) (i_ports inst) in
      if has_port n inst then
        (True, inst\<lparr>i_ports := ps, i_default_ds := (i_default_ds inst)\<lparr>dd_number_ports := of_nat (length ps)\<rparr>\<rparr>)
      else (False, inst))"

fun update_port_addresses ::
  "interfaces \<Rightarrow> nat \<Rightarrow> u32 list \<Rightarrow> ptp_instance \<Rightarrow> ptp_error option \<times> ptp_instance" where
  "update_port_addresses ifaces i [] inst = (None, inst)"
| "update_port_addresses ifaces i (a # as) inst =
     (let n = of_nat (i + 1) in
      if a = 0 then
        update_port_addresses ifaces (Suc i) as (if has_port n inst then snd (remove_port n inst) else inst)
      else case add_or_update_port ifaces n a inst of
          (Some e, inst') \<Rightarrow> (Some e, inst')
        | (None, inst') \<Rightarrow> update_port_addresses ifaces (Suc i) as inst')"

definition update_ports :: "interfaces \<Rightarrow> u32 list \<Rightarrow> ptp_instance \<Rightarrow> ptp_error option \<times> ptp_instance" where
  "update_ports ifaces as inst =
     (if length as \<ge> 65535 then (Some Too_many_ports, inst)
      else case update_port_addresses ifaces 0 as inst of
          (Some e, inst') \<Rightarrow> (Some e, inst')
        | (None, inst') \<Rightarrow>
            let unused = filter (\<lambda>n. unat n > length as) (map (\<lambda>p. pi_port_number (identity_of p)) (i_ports inst'))
            in (None, fold (\<lambda>n inst. snd (remove_port n inst)) unused inst'))"

text \<open>\<open>for (uint16_t i = 1; i <= 0xfffe; ++i)\<close>\<close>

definition get_next_available_port_number :: "ptp_instance \<Rightarrow> u16" where
  "get_next_available_port_number inst =
     (case filter (\<lambda>n. \<not> has_port n inst) (map of_nat [1..<65535]) of [] \<Rightarrow> 0 | n # _ \<Rightarrow> n)"

section \<open>Messages\<close>

definition should_process_ptp_messages :: "message_header \<Rightarrow> ptp_instance \<Rightarrow> bool" where
  "should_process_ptp_messages h inst =
     (if domain_number h \<noteq> dd_domain_number (i_default_ds inst) then False
      else if sdo_major (sdo_id h) \<noteq> sdo_major (dd_sdo_id (i_default_ds inst)) then False
      else if pi_clock_identity (source_port_identity h) = dd_clock_identity (i_default_ds inst) then False
      else if alternate_master_flag (flags h) then False
      else True)"

definition handle_announce_message :: "nat \<Rightarrow> announce_message \<Rightarrow> ptp_instance \<Rightarrow> ptp_instance option" where
  "handle_announce_message i m inst =
     (let p = i_ports inst ! i; sender = source_port_identity (an_header m) in
      if pi_clock_identity sender = pi_clock_identity (identity_of p) then Some inst
      else if steps_removed m \<ge> 255 then Some inst
      else
        let inst1 =
          (if following (state_of p) \<and> sender = parent_port_identity (i_parent_ds inst)
           then update_port i schedule_announce_receipt_timeout (snd (set_recommended_state S1 (Some m) inst))
           else update_port i (\<lambda>p. p\<lparr>foreign_master_list := add_or_update_entry m (foreign_master_list p)\<rparr>) inst);
          inst2 =
          (if following (state_of p) \<or> state_of p = Passive then
             (case erbest p of
                None \<Rightarrow> inst1
              | Some b \<Rightarrow>
                  if source_port_identity (an_header b) = sender \<and>
                     wrapping_gt (sequence_id (an_header m)) (sequence_id (an_header b))
                  then update_port i (\<lambda>p. p\<lparr>erbest := Some m\<rparr>) inst1 else inst1)
           else inst1)
        in execute_state_decision_event inst2)"

record inputs =
  in_push_rat :: "rat push_back"
  in_push_sync :: "sync_message push_back"
  in_push_sequence :: "delay_sequence push_back"
  in_random :: "int \<Rightarrow> int \<Rightarrow> int"
  in_receive_time :: timestamp
  in_adjust_time :: timestamp
  in_process_time :: timestamp
  in_sent_time :: "nat \<Rightarrow> timestamp"
  in_stats_due :: bool

definition process_delay_sequences :: "inputs \<Rightarrow> nat \<Rightarrow> ptp_instance \<Rightarrow> (ptp_instance \<times> byte list list) option" where
  "process_delay_sequences x i inst = do {
     (ss, outs) \<leftarrow> process_request_response_delay_sequence (in_random x) (in_process_time x) (in_sent_time x)
        (port_ds (i_ports inst ! i)) 0 (delay_sequences (i_ports inst ! i));
     Some (update_port i (\<lambda>p. p\<lparr>delay_sequences := ss\<rparr>) inst, outs) }"

definition update_clock :: "inputs \<Rightarrow> measurement \<Rightarrow> ptp_instance \<Rightarrow> ptp_instance option" where
  "update_clock x meas inst = do {
     sv \<leftarrow> update_local_ptp_clock (in_push_rat x) (in_adjust_time x) (in_stats_due x) meas (i_servo inst);
     Some (inst\<lparr>i_servo := sv\<rparr>) }"

text \<open>
  The port is built with the end-to-end mechanism; the peer-to-peer one calls \<open>abort\<close>, which is \<open>None\<close>,
  any other only logs.
\<close>

definition start_delay_sequence :: "inputs \<Rightarrow> sync_message \<Rightarrow> port \<Rightarrow> port option" where
  "start_delay_sequence x m p =
     (if pd_delay_mechanism (port_ds p) = E2e then
        if syncs_until_delay_req p \<le> 0 then do {
          s \<leftarrow> sequence_of_sync m;
          n \<leftarrow> cast_i32 (2 powi sint (pd_log_min_delay_req_interval (port_ds p)) / 2 powi sint (log_message_interval (sync_header m)));
          Some (p\<lparr>delay_sequences := in_push_sequence x 8 (delay_sequences p) s, syncs_until_delay_req := n\<rparr>) }
        else Some (p\<lparr>syncs_until_delay_req := syncs_until_delay_req p - 1\<rparr>)
      else if pd_delay_mechanism (port_ds p) = P2p then None
      else Some p)"

definition handle_sync_message :: "inputs \<Rightarrow> nat \<Rightarrow> sync_message \<Rightarrow> ptp_instance \<Rightarrow> (ptp_instance \<times> byte list list) option" where
  "handle_sync_message x i sync inst =
     (let m = sync\<lparr>sync_receive_timestamp := in_receive_time x\<rparr>; p = i_ports inst ! i in
      if \<not> following (state_of p) then Some (inst, [])
      else if source_port_identity (sync_header m) \<noteq> parent_port_identity (i_parent_ds inst) then Some (inst, [])
      else do {
        p1 \<leftarrow> start_delay_sequence x m p;
        inst1 \<leftarrow> (if two_step_flag (flags (sync_header m))
                  then Some (update_port i (\<lambda>_. p1\<lparr>sync_messages := in_push_sync x 8 (sync_messages p1) m\<rparr>) inst)
                  else do {
                    meas \<leftarrow> calculate_offset_one_step (mean_delay p1) m;
                    update_clock x meas (update_port i (\<lambda>_. p1) inst) });
        process_delay_sequences x i inst1 })"

fun follow_up_sequences :: "follow_up_message \<Rightarrow> delay_sequence list \<Rightarrow> delay_sequence list option" where
  "follow_up_sequences m [] = Some []"
| "follow_up_sequences m (s # ss) = do {
     s' \<leftarrow> (if sequence_matches s (fu_header m) then sequence_follow_up m s else Some s);
     ss' \<leftarrow> follow_up_sequences m ss;
     Some (s' # ss') }"

definition handle_follow_up_message ::
  "inputs \<Rightarrow> nat \<Rightarrow> follow_up_message \<Rightarrow> ptp_instance \<Rightarrow> (ptp_instance \<times> byte list list) option" where
  "handle_follow_up_message x i m inst =
     (let p = i_ports inst ! i in
      if \<not> following (state_of p) then Some (inst, [])
      else if source_port_identity (fu_header m) \<noteq> parent_port_identity (i_parent_ds inst) then Some (inst, [])
      else do {
        ss \<leftarrow> follow_up_sequences m (delay_sequences p);
        let inst1 = update_port i (\<lambda>p. p\<lparr>delay_sequences := ss\<rparr>) inst in
        case find (\<lambda>s. header_matches (sync_header s) (fu_header m)) (sync_messages p) of
          None \<Rightarrow> process_delay_sequences x i inst1
        | Some s \<Rightarrow> do {
            meas \<leftarrow> calculate_offset_two_step (mean_delay p) s m;
            inst2 \<leftarrow> update_clock x meas inst1;
            process_delay_sequences x i inst2 } })"

text \<open>The first sequence with the identifier of the message is updated and measured, whatever its state.\<close>

fun respond_sequences ::
  "delay_resp_message \<Rightarrow> delay_sequence list \<Rightarrow> (rat option \<times> delay_sequence list) option" where
  "respond_sequences m [] = Some (None, [])"
| "respond_sequences m (s # ss) =
     (if sequence_id (dr_header m) = get_sequence_id s then do {
        s' \<leftarrow> sequence_delay_resp m s;
        Some (Some (calculate_mean_path_delay s'), s' # ss) }
      else do {
        (d, ss') \<leftarrow> respond_sequences m ss;
        Some (d, s # ss') })"

definition use_mean_delay :: "rat push_back \<Rightarrow> rat \<Rightarrow> port \<Rightarrow> port" where
  "use_mean_delay pb delay p =
     (let stats = ss_add pb (mean_delay_stats p) (mean_delay p); p = p\<lparr>mean_delay_stats := stats\<rparr> in
      if ss_count stats > 10 \<and> is_outlier_median stats delay (1 / 1000) then p
      else let (v, f) = filter_update (mean_delay_filter p) delay in p\<lparr>mean_delay := v, mean_delay_filter := f\<rparr>)"

definition handle_delay_resp_message ::
  "inputs \<Rightarrow> nat \<Rightarrow> delay_resp_message \<Rightarrow> ptp_instance \<Rightarrow> ptp_instance option" where
  "handle_delay_resp_message x i m inst =
     (let p = i_ports inst ! i in
      if \<not> following (state_of p) then Some inst
      else if source_port_identity (dr_header m) \<noteq> parent_port_identity (i_parent_ds inst) then Some inst
      else if dr_requesting_port_identity m \<noteq> identity_of p then Some inst
      else do {
        (d, ss) \<leftarrow> respond_sequences m (delay_sequences p);
        case d of
          None \<Rightarrow> Some inst
        | Some delay \<Rightarrow> Some (update_port i (\<lambda>p. use_mean_delay (in_push_rat x) delay
            (p\<lparr>delay_sequences := ss,
               port_ds := (port_ds p)\<lparr>pd_log_min_delay_req_interval := log_message_interval (dr_header m)\<rparr>\<rparr>)) inst) })"

text \<open>\<open>.value()\<close> of a message that did not parse throws its error.\<close>

definition with_message ::
  "(ptp_error + 'm) option \<Rightarrow> ('m \<Rightarrow> (ptp_instance \<times> byte list list) option) \<Rightarrow>
   (ptp_error + ptp_instance \<times> byte list list) option" where
  "with_message r f = do {
     parsed \<leftarrow> r;
     case parsed of
       Inl e \<Rightarrow> Some (Inl e)
     | Inr m \<Rightarrow> map_option Inr (f m) }"

definition handle_recv_event ::
  "inputs \<Rightarrow> nat \<Rightarrow> byte list \<Rightarrow> ptp_instance \<Rightarrow> (ptp_error + ptp_instance \<times> byte list list) option" where
  "handle_recv_event x i d inst = do {
     parsed \<leftarrow> header_from_data d;
     case parsed of
       Inl e \<Rightarrow> Some (Inr (inst, []))
     | Inr h \<Rightarrow>
         let body = drop k_header_size d in
         if \<not> should_process_ptp_messages h inst then Some (Inr (inst, []))
         else if state_of (i_ports inst ! i) = Initializing then Some (Inr (inst, []))
         else if state_of (i_ports inst ! i) = Disabled then Some (Inr (inst, []))
         else if state_of (i_ports inst ! i) = Faulty then Some (Inr (inst, []))
         else case message_type h of
           Announce \<Rightarrow> with_message (announce_from_data h body)
             (\<lambda>m. map_option (\<lambda>inst. (inst, [])) (handle_announce_message i m inst))
         | Sync \<Rightarrow> with_message (sync_from_data h body) (\<lambda>m. handle_sync_message x i m inst)
         | P_delay_resp \<Rightarrow> with_message (pdelay_resp_from_data body) (\<lambda>m. Some (inst, []))
         | Follow_up \<Rightarrow> with_message (follow_up_from_data h body) (\<lambda>m. handle_follow_up_message x i m inst)
         | Delay_resp \<Rightarrow> with_message (delay_resp_from_data h body)
             (\<lambda>m. map_option (\<lambda>inst. (inst, [])) (handle_delay_resp_message x i m inst))
         | P_delay_resp_follow_up \<Rightarrow> with_message (pdelay_resp_follow_up_from_data body) (\<lambda>m. Some (inst, []))
         | _ \<Rightarrow> Some (Inr (inst, [])) }"

end
