(* ===== verification/Ptp_Instance.thy ===== *)
theory Ptp_Instance
  imports Ptp_Port
begin

text \<open>
  The PTP instance as a system of events: datagrams, timeouts and configuration. Shown: the
  assertions of \<open>calculate_erbest\<close> hold in every reachable state and a slave-only instance never
  becomes master; with one port no event dereferences an empty \<open>ebest\<close>, with two ports a reachable
  state does; the data sets follow the Announce messages of the parent; messages that must not be
  processed change nothing, and a truncated message throws.
\<close>

section \<open>Invariant of a port\<close>

definition sender :: "announce_message \<Rightarrow> port_identity" where
  "sender m = source_port_identity (an_header m)"

definition port_ok :: "port \<Rightarrow> bool" where
  "port_ok p \<longleftrightarrow> fm_ok (foreign_master_list p) \<and>
     (\<forall>m. erbest p = Some m \<longrightarrow> sender m \<in> fm_identities (foreign_master_list p)) \<and>
     (state_of p = Listening \<or> following (state_of p)) \<and> announce_timer p"

text \<open>The two assertions at the head of \<open>calculate_erbest\<close>.\<close>

definition erbest_assertions :: "port \<Rightarrow> bool" where
  "erbest_assertions p \<longleftrightarrow> (\<forall>m. erbest p = Some m \<longrightarrow> length (foreign_master_list p) > 0 \<and>
     (length (foreign_master_list p) = 1 \<longrightarrow> foreign_master_port_identity (hd (foreign_master_list p)) = sender m))"

lemma port_ok_assertions: "port_ok p \<Longrightarrow> erbest_assertions p"
  by (cases "foreign_master_list p") (auto simp: port_ok_def erbest_assertions_def)

definition slave_only :: "default_ds \<Rightarrow> bool" where
  "slave_only d \<longleftrightarrow> dd_slave_only d \<and> clock_class (dd_clock_quality d) = 255"

definition instance_ok :: "ptp_instance \<Rightarrow> bool" where
  "instance_ok inst \<longleftrightarrow> slave_only (i_default_ds inst) \<and> (\<forall>p \<in> set (i_ports inst). port_ok p)"

lemma port_okD: "instance_ok inst \<Longrightarrow> i < length (i_ports inst) \<Longrightarrow> port_ok (i_ports inst ! i)"
  by (simp add: instance_ok_def)

lemma update_port_ports [simp]:
  "i_ports (update_port i f inst) = (i_ports inst)[i := f (i_ports inst ! i)]"
  "i_default_ds (update_port i f inst) = i_default_ds inst"
  "i_parent_ds (update_port i f inst) = i_parent_ds inst"
  "i_servo (update_port i f inst) = i_servo inst"
  "i_time_properties_ds (update_port i f inst) = i_time_properties_ds inst"
  by (simp_all add: update_port_def)

lemma update_port_ok [inv_intros]:
  assumes "instance_ok inst" and "i < length (i_ports inst)"
    and "port_ok (i_ports inst ! i) \<Longrightarrow> port_ok (f (i_ports inst ! i))"
  shows "instance_ok (update_port i f inst)"
  using assms port_okD [OF assms(1,2)] by (auto simp: instance_ok_def dest: set_update_subset_insert [THEN subsetD])

lemma set_recommended_state_keeps [simp]:
  "i_ports (snd (set_recommended_state code a inst)) = i_ports inst"
  "i_default_ds (snd (set_recommended_state code a inst)) = i_default_ds inst"
  "sv_clock (i_servo (snd (set_recommended_state code a inst))) = sv_clock (i_servo inst)"
  by (simp_all add: set_recommended_state_def Let_def split: option.splits)

lemma set_recommended_state_ok [inv_intros]:
  "instance_ok inst \<Longrightarrow> instance_ok (snd (set_recommended_state code a inst))"
  by (simp add: instance_ok_def)

lemma set_state_fields [simp]:
  "foreign_master_list (set_state s p) = foreign_master_list p"
  "erbest (set_state s p) = erbest p"
  "identity_of (set_state s p) = identity_of p"
  by (simp_all add: set_state_def schedule_announce_receipt_timeout_def split: state.splits)

lemma set_state_follow:
  "s = Listening \<or> following s \<Longrightarrow> state_of (set_state s p) = s \<and> (announce_timer p \<longrightarrow> announce_timer (set_state s p))"
  by (cases s) (auto simp: set_state_def schedule_announce_receipt_timeout_def following_def)

lemma set_state_ok: "s = Listening \<or> following s \<Longrightarrow> port_ok p \<Longrightarrow> port_ok (set_state s p)"
  using set_state_follow [of s p] by (simp add: port_ok_def)

section \<open>Erbest\<close>

definition erbest_step ::
  "announce_message option \<Rightarrow> port_identity \<Rightarrow> foreign_master \<Rightarrow> announce_message option \<Rightarrow> announce_message option" where
  "erbest_step previous pid e best =
     (case most_recent_announce_message e of
        None \<Rightarrow> best
      | Some m \<Rightarrow>
          if (case previous of None \<Rightarrow> False
              | Some b \<Rightarrow> source_port_identity (an_header m) = source_port_identity (an_header b)) then best
          else if foreign_master_announce_messages e < k_foreign_master_threshold then best
          else case best of
              None \<Rightarrow> Some m
            | Some b \<Rightarrow> if better_or_by_topology (compare_announce m b pid) then Some m else best)"

definition erbest_found :: "announce_message option \<Rightarrow> port_identity \<Rightarrow> foreign_master_list \<Rightarrow> announce_message option" where
  "erbest_found previous pid es = fold (erbest_step previous pid) es None"

definition previous_erbest :: "port \<Rightarrow> announce_message option" where
  "previous_erbest p = (if state_of p = Slave \<or> state_of p = Uncalibrated \<or> state_of p = Passive then erbest p else None)"

lemma calculate_erbest_eq:
  "calculate_erbest p =
     (let found = erbest_found (previous_erbest p) (identity_of p) (foreign_master_list p);
          new = (case found of None \<Rightarrow> erbest p
            | Some m \<Rightarrow> (case previous_erbest p of
                None \<Rightarrow> Some m
              | Some b \<Rightarrow> if better_or_by_topology (compare_announce m b (identity_of p)) then Some m else erbest p))
      in p\<lparr>erbest := new, foreign_master_list := purge_entries new (foreign_master_list p)\<rparr>)"
  unfolding calculate_erbest_def previous_erbest_def erbest_found_def erbest_step_def [abs_def] Let_def by (rule refl)

lemma erbest_step_origin:
  "erbest_step previous pid e best = Some m \<Longrightarrow> best = Some m \<or> most_recent_announce_message e = Some m"
  by (auto simp: erbest_step_def split: option.splits if_splits)

lemma erbest_fold_origin:
  "fold (erbest_step previous pid) es best = Some m \<Longrightarrow>
   best = Some m \<or> (\<exists>e \<in> set es. most_recent_announce_message e = Some m)"
proof (induction es arbitrary: best)
  case (Cons e es)
  from Cons.IH [of "erbest_step previous pid e best"] Cons.prems
  show ?case using erbest_step_origin [of previous pid e best m] by auto
qed simp

lemma erbest_found_sender:
  assumes "fm_ok es" and "erbest_found previous pid es = Some m"
  shows "sender m \<in> fm_identities es"
proof -
  obtain e where e: "e \<in> set es" "most_recent_announce_message e = Some m"
    using erbest_fold_origin assms(2) unfolding erbest_found_def by blast
  then have "sender m = foreign_master_port_identity e"
    using assms(1) by (auto simp: fm_ok_def entry_ok_def sender_def)
  with e(1) show ?thesis by simp
qed

lemma purge_keeps:
  "sender m \<in> fm_identities es \<Longrightarrow> sender m \<in> fm_identities (purge_entries (Some m) es)"
  by (auto simp: purge_entries_def sender_def image_iff)

lemma calculate_erbest_fields [simp]:
  "port_ds (calculate_erbest p) = port_ds p"
  "announce_timer (calculate_erbest p) = announce_timer p"
  by (simp_all add: calculate_erbest_eq Let_def)

lemma calculate_erbest_cases:
  "erbest (calculate_erbest p) = erbest p \<or>
   erbest (calculate_erbest p) = erbest_found (previous_erbest p) (identity_of p) (foreign_master_list p)
     \<and> erbest (calculate_erbest p) \<noteq> None"
  by (auto simp: calculate_erbest_eq Let_def split: option.splits)

lemma calculate_erbest_keeps_some: "erbest p \<noteq> None \<Longrightarrow> erbest (calculate_erbest p) \<noteq> None"
  using calculate_erbest_cases [of p] by auto

lemma calculate_erbest_ok [inv_intros]:
  assumes "port_ok p"
  shows "port_ok (calculate_erbest p)"
proof -
  let ?q = "calculate_erbest p"
  have list: "foreign_master_list ?q = purge_entries (erbest ?q) (foreign_master_list p)"
    by (simp add: calculate_erbest_eq Let_def)
  have "sender m \<in> fm_identities (foreign_master_list p)" if "erbest ?q = Some m" for m
    using calculate_erbest_cases [of p] that assms erbest_found_sender [of "foreign_master_list p"]
    unfolding port_ok_def by metis
  then have "sender m \<in> fm_identities (foreign_master_list ?q)" if "erbest ?q = Some m" for m
    using that purge_keeps unfolding list by metis
  moreover have "fm_ok (foreign_master_list ?q)"
    unfolding list using assms purge_ok by (simp add: port_ok_def)
  ultimately show ?thesis using assms by (simp add: port_ok_def)
qed

section \<open>State decision\<close>

lemma determine_loop_Cons:
  obtains (failed) "determine_loop best (q # qs) = (True, best, calculate_erbest q # qs)"
  | (continued) best' where "determine_loop best (q # qs) =
      (let (err, b, ps) = determine_loop best' qs in (err, b, calculate_erbest q # ps))"
proof (cases "erbest (calculate_erbest q)")
  case None
  then show ?thesis using continued [of best] by (simp add: Let_def)
next
  case m: (Some m)
  show ?thesis
  proof (cases best)
    case None
    then show ?thesis using m continued [of "Some (m, identity_of q)"] by (simp add: Let_def)
  next
    case (Some b)
    obtain bm bid where b: "b = (bm, bid)" by fastforce
    let ?r = "cds_compare (cds_of_announce m (identity_of q)) (cds_of_announce bm bid)"
    show ?thesis
    proof (cases "?r = Error1 \<or> ?r = Error2")
      case True
      then show ?thesis using m Some b failed by (auto simp: Let_def)
    next
      case False
      then show ?thesis
        using m Some b continued [of "if better_or_by_topology ?r then Some (m, identity_of q) else best"]
        by (simp add: Let_def)
    qed
  qed
qed

lemma determine_loop_ports:
  "determine_loop best qs = (err, b, ps) \<Longrightarrow>
   length ps = length qs \<and> (\<forall>i < length qs. ps ! i = qs ! i \<or> ps ! i = calculate_erbest (qs ! i))"
proof (induction qs arbitrary: best err b ps)
  case (Cons q qs)
  show ?case
  proof (cases rule: determine_loop_Cons [of best q qs])
    case failed
    then show ?thesis using Cons.prems by (auto simp: nth_Cons split: nat.split)
  next
    case (continued best')
    obtain err' b' ps' where r: "determine_loop best' qs = (err', b', ps')" by (rule prod_cases3)
    then have ps: "ps = calculate_erbest q # ps'" using continued Cons.prems by simp
    show ?thesis using Cons.IH [OF r] unfolding ps by (auto simp: nth_Cons split: nat.split)
  qed
qed simp

lemma determine_ebest_ports:
  assumes "determine_ebest qs = (b, ps)"
  shows "length ps = length qs" and "i < length qs \<Longrightarrow> ps ! i = qs ! i \<or> ps ! i = calculate_erbest (qs ! i)"
proof -
  obtain err b' ps' where r: "determine_loop None qs = (err, b', ps')" by (rule prod_cases3)
  then have "ps = ps'" using assms by (simp add: determine_ebest_def)
  with determine_loop_ports [OF r] show "length ps = length qs"
    and "i < length qs \<Longrightarrow> ps ! i = qs ! i \<or> ps ! i = calculate_erbest (qs ! i)" by simp_all
qed

lemma decision_state:
  assumes "dd_slave_only (i_default_ds inst)" and "\<not> (code = M1 \<or> code = M2 \<or> code = M3)"
  shows "get_state_for_decision_code inst code = Listening \<or> following (get_state_for_decision_code inst code)"
  using assms by (simp add: get_state_for_decision_code_def following_def)

lemma apply_shape:
  assumes "apply_state_decision_algorithm ebest i inst = Some inst'" and "dd_slave_only (i_default_ds inst)"
  obtains (same) "inst' = inst"
  | (moved) code m s where "inst' = update_port i (set_state s) (snd (set_recommended_state code (Some m) inst))"
      "s = Listening \<or> following s"
proof (cases "ebest = None \<and> state_of (i_ports inst ! i) = Listening")
  case True
  then show ?thesis using assms(1) same by (simp add: apply_state_decision_algorithm_def)
next
  case False
  then obtain m receiver where e: "ebest = Some (m, receiver)"
    using assms(1) by (auto simp: apply_state_decision_algorithm_def split: option.splits)
  show ?thesis
  proof (cases "calculate_recommended_state (i_default_ds inst) (Some (cds_of_announce m receiver)) (i_ports inst ! i)")
    case None
    then show ?thesis using assms(1) e same by (simp add: apply_state_decision_algorithm_def)
  next
    case (Some recommended)
    let ?code = "if (recommended = M1 \<or> recommended = M2 \<or> recommended = M3) \<and> dd_slave_only (i_default_ds inst)
      then S1 else recommended"
    have run: "inst' = update_port i (set_state (get_state_for_decision_code (snd (set_recommended_state ?code (Some m) inst)) ?code))
        (snd (set_recommended_state ?code (Some m) inst))"
      using assms(1) e Some by (simp add: apply_state_decision_algorithm_def Let_def)
    show ?thesis
    proof (rule moved [OF run decision_state])
      show "\<not> (?code = M1 \<or> ?code = M2 \<or> ?code = M3)" using assms(2) by simp
    qed (simp add: assms(2))
  qed
qed

lemma apply_ok:
  assumes "instance_ok inst" and "i < length (i_ports inst)"
    and "apply_state_decision_algorithm ebest i inst = Some inst'"
  shows "instance_ok inst' \<and> length (i_ports inst') = length (i_ports inst)"
proof -
  have "dd_slave_only (i_default_ds inst)" using assms(1) by (simp add: instance_ok_def slave_only_def)
  from assms(3) this show ?thesis
  proof (cases rule: apply_shape)
    case same
    then show ?thesis using assms(1) by simp
  next
    case (moved code m s)
    show ?thesis unfolding moved(1)
      using assms(1,2) moved(2) by (auto intro!: update_port_ok set_recommended_state_ok set_state_ok)
  qed
qed

lemma apply_to_ports_ok:
  "instance_ok inst \<Longrightarrow> \<forall>i \<in> set is. i < length (i_ports inst) \<Longrightarrow> apply_to_ports ebest is inst = Some inst' \<Longrightarrow>
   instance_ok inst' \<and> length (i_ports inst') = length (i_ports inst)"
proof (induction ebest "is" inst rule: apply_to_ports.induct)
  case (2 ebest i "is" inst)
  then obtain inst1 where a: "apply_state_decision_algorithm ebest i inst = Some inst1"
    and r: "apply_to_ports ebest is inst1 = Some inst'" by (auto split: option.splits)
  have "instance_ok inst1 \<and> length (i_ports inst1) = length (i_ports inst)"
    using apply_ok [OF "2.prems"(1) _ a] "2.prems"(2) by simp
  then show ?case using "2.IH" [OF a _ _ r] "2.prems"(2) by simp
qed simp

lemma execute_ok [inv_intros]:
  assumes "instance_ok inst" and "execute_state_decision_event inst = Some inst'"
  shows "instance_ok inst'" and "length (i_ports inst') = length (i_ports inst)"
proof -
  obtain ebest ps where d: "determine_ebest (i_ports inst) = (ebest, ps)" by fastforce
  have "port_ok p" if member: "p \<in> set ps" for p
  proof -
    obtain i where i: "i < length ps" "ps ! i = p" using member unfolding in_set_conv_nth by blast
    have ok: "port_ok (i_ports inst ! i)"
      using i(1) determine_ebest_ports(1) [OF d] port_okD [OF assms(1)] by simp
    have "p = i_ports inst ! i \<or> p = calculate_erbest (i_ports inst ! i)"
      using i determine_ebest_ports(2) [OF d] determine_ebest_ports(1) [OF d] by metis
    then show ?thesis using ok calculate_erbest_ok [OF ok] by (elim disjE) simp_all
  qed
  then have ok: "instance_ok (inst\<lparr>i_ports := ps\<rparr>)" using assms(1) by (simp add: instance_ok_def)
  have "instance_ok inst' \<and> length (i_ports inst') = length (i_ports inst)"
  proof (cases "list_all (\<lambda>p. state_of p = Initializing) (i_ports inst)")
    case True
    then show ?thesis using assms by (simp add: execute_state_decision_event_def)
  next
    case False
    then have "apply_to_ports ebest [0..<length ps] (inst\<lparr>i_ports := ps\<rparr>) = Some inst'"
      using assms(2) d by (simp add: execute_state_decision_event_def)
    from apply_to_ports_ok [OF ok _ this] show ?thesis using determine_ebest_ports(1) [OF d] by simp
  qed
  then show "instance_ok inst'" and "length (i_ports inst') = length (i_ports inst)" by simp_all
qed

section \<open>Timers and Announce messages\<close>

lemma schedule_ok [inv_intros]: "port_ok p \<Longrightarrow> port_ok (schedule_announce_receipt_timeout p)"
  by (simp add: port_ok_def schedule_announce_receipt_timeout_def)

lemma forget_erbest_ok: "port_ok p \<Longrightarrow> port_ok (p\<lparr>erbest := None\<rparr>)"
  by (simp add: port_ok_def)

lemma timeout_ok [inv_intros]:
  assumes "instance_ok inst" and "i < length (i_ports inst)"
  shows "instance_ok (announce_receipt_timeout_expires i inst)"
  unfolding announce_receipt_timeout_expires_def Let_def
proof (rule update_port_ok [OF assms])
  assume ok: "port_ok (i_ports inst ! i)"
  let ?p = "(i_ports inst ! i)\<lparr>erbest := None\<rparr>"
  have "port_ok (if dd_slave_only (i_default_ds inst) then set_state Listening ?p else ?p)"
    using forget_erbest_ok [OF ok] set_state_ok [of Listening ?p] by simp
  then show "port_ok (schedule_announce_receipt_timeout (if dd_slave_only (i_default_ds inst) then set_state Listening ?p else ?p))"
    by (rule schedule_ok)
qed

lemma port_increase_age_ok [inv_intros]: "port_ok p \<Longrightarrow> port_ok (port_increase_age p)"
  by (simp add: port_ok_def port_increase_age_def increase_age_ok) (simp add: increase_age_def image_image)

lemma decision_timer_ok [inv_intros]:
  assumes "instance_ok inst" and "state_decision_timer_expires inst = Some inst'"
  shows "instance_ok inst'" and "length (i_ports inst') = length (i_ports inst)"
proof -
  obtain inst1 where e: "execute_state_decision_event inst = Some inst1"
    and eq: "inst' = inst1\<lparr>i_ports := map port_increase_age (i_ports inst1), i_decision_timer := i_ports inst1 \<noteq> []\<rparr>"
    using assms(2) by (auto simp: state_decision_timer_expires_def bind_Some_iff)
  show "instance_ok inst'" using execute_ok(1) [OF assms(1) e] port_increase_age_ok by (auto simp: eq instance_ok_def)
  show "length (i_ports inst') = length (i_ports inst)" using execute_ok(2) [OF assms(1) e] by (simp add: eq)
qed

text \<open>The instance an Announce message leaves before the state decision event.\<close>

definition announce_foreign :: "nat \<Rightarrow> announce_message \<Rightarrow> ptp_instance \<Rightarrow> ptp_instance" where
  "announce_foreign i m inst =
     (if following (state_of (i_ports inst ! i)) \<and> sender m = parent_port_identity (i_parent_ds inst)
      then update_port i schedule_announce_receipt_timeout (snd (set_recommended_state S1 (Some m) inst))
      else update_port i (\<lambda>p. p\<lparr>foreign_master_list := add_or_update_entry m (foreign_master_list p)\<rparr>) inst)"

definition announce_recorded :: "nat \<Rightarrow> announce_message \<Rightarrow> ptp_instance \<Rightarrow> ptp_instance" where
  "announce_recorded i m inst =
     (if following (state_of (i_ports inst ! i)) \<or> state_of (i_ports inst ! i) = Passive then
        (case erbest (i_ports inst ! i) of
           None \<Rightarrow> announce_foreign i m inst
         | Some b \<Rightarrow>
             if sender b = sender m \<and> wrapping_gt (sequence_id (an_header m)) (sequence_id (an_header b))
             then update_port i (\<lambda>p. p\<lparr>erbest := Some m\<rparr>) (announce_foreign i m inst) else announce_foreign i m inst)
      else announce_foreign i m inst)"

definition announce_refused :: "nat \<Rightarrow> announce_message \<Rightarrow> ptp_instance \<Rightarrow> bool" where
  "announce_refused i m inst \<longleftrightarrow>
     pi_clock_identity (sender m) = pi_clock_identity (identity_of (i_ports inst ! i)) \<or> steps_removed m \<ge> 255"

lemma handle_announce_eq:
  "handle_announce_message i m inst =
     (if announce_refused i m inst then Some inst else execute_state_decision_event (announce_recorded i m inst))"
  by (auto simp: handle_announce_message_def announce_refused_def announce_recorded_def announce_foreign_def
      sender_def Let_def split: option.splits)

lemma announce_recorded_port:
  assumes "i < length (i_ports inst)"
  shows "length (i_ports (announce_recorded i m inst)) = length (i_ports inst)"
    and "i_default_ds (announce_recorded i m inst) = i_default_ds inst"
    and "k < length (i_ports inst) \<Longrightarrow> k \<noteq> i \<Longrightarrow> i_ports (announce_recorded i m inst) ! k = i_ports inst ! k"
    and "state_of (i_ports (announce_recorded i m inst) ! i) = state_of (i_ports inst ! i)"
    and "erbest (i_ports inst ! i) \<noteq> None \<Longrightarrow> erbest (i_ports (announce_recorded i m inst) ! i) \<noteq> None"
  using assms
  by (auto simp: announce_recorded_def announce_foreign_def schedule_announce_receipt_timeout_def split: option.splits)

lemma announce_recorded_ok [inv_intros]:
  assumes "instance_ok inst" and i: "i < length (i_ports inst)"
  shows "instance_ok (announce_recorded i m inst)"
proof -
  have foreign: "instance_ok (announce_foreign i m inst)"
  proof -
    have "port_ok p \<Longrightarrow> port_ok (p\<lparr>foreign_master_list := add_or_update_entry m (foreign_master_list p)\<rparr>)" for p
      using add_or_update_ok [of "foreign_master_list p" m]
      by (auto simp: port_ok_def add_or_update_entry_def fm_identities_update)
    then show ?thesis
      using assms by (auto simp: announce_foreign_def intro!: update_port_ok set_recommended_state_ok schedule_ok)
  qed
  have len: "length (i_ports (announce_foreign i m inst)) = length (i_ports inst)"
    by (simp add: announce_foreign_def)
  have erb: "erbest (i_ports (announce_foreign i m inst) ! i) = erbest (i_ports inst ! i)"
    using i by (simp add: announce_foreign_def schedule_announce_receipt_timeout_def)
  have "instance_ok (update_port i (\<lambda>p. p\<lparr>erbest := Some m\<rparr>) (announce_foreign i m inst))"
    if "erbest (i_ports inst ! i) = Some b" "sender b = sender m" for b
    using foreign len i that erb by (intro update_port_ok) (auto simp: port_ok_def)
  then show ?thesis using foreign by (auto simp: announce_recorded_def split: option.splits)
qed

lemma handle_announce_ok [inv_intros]:
  assumes "instance_ok inst" and "i < length (i_ports inst)" and "handle_announce_message i m inst = Some inst'"
  shows "instance_ok inst'" and "length (i_ports inst') = length (i_ports inst)"
  using assms execute_ok [OF announce_recorded_ok [OF assms(1,2)]] announce_recorded_port(1) [OF assms(2)]
  by (auto simp: handle_announce_eq split: if_splits)

section \<open>Delay messages keep the state decision\<close>

text \<open>What the state decision depends on.\<close>

definition decision_part :: "port \<Rightarrow> port_identity \<times> state \<times> foreign_master_list \<times> announce_message option \<times> bool" where
  "decision_part p = (identity_of p, state_of p, foreign_master_list p, erbest p, announce_timer p)"

definition same_decision :: "ptp_instance \<Rightarrow> ptp_instance \<Rightarrow> bool" where
  "same_decision a b \<longleftrightarrow> map decision_part (i_ports a) = map decision_part (i_ports b) \<and>
     i_default_ds a = i_default_ds b \<and> i_parent_ds a = i_parent_ds b \<and>
     i_time_properties_ds a = i_time_properties_ds b \<and>
     cd_steps_removed (sv_current_ds (i_servo a)) = cd_steps_removed (sv_current_ds (i_servo b))"

lemma same_decision_trans: "same_decision a b \<Longrightarrow> same_decision b c \<Longrightarrow> same_decision a c"
  by (simp add: same_decision_def)

lemma same_decision_refl [simp]: "same_decision a a"
  by (simp add: same_decision_def)

lemma same_decision_ok: "same_decision a b \<Longrightarrow> instance_ok a \<Longrightarrow> instance_ok b"
proof -
  assume same: "same_decision a b" and ok: "instance_ok a"
  have eq: "port_ok p \<longleftrightarrow> port_ok q" if "decision_part p = decision_part q" for p q
    using that by (simp add: decision_part_def port_ok_def)
  have "port_ok q" if "q \<in> set (i_ports b)" for q
  proof -
    have "decision_part q \<in> set (map decision_part (i_ports a))" using that same by (simp add: same_decision_def)
    then obtain p where p: "p \<in> set (i_ports a)" "decision_part p = decision_part q" by force
    then have "port_ok p" using ok by (simp add: instance_ok_def)
    then show ?thesis by (rule eq [OF p(2), THEN iffD1])
  qed
  then show ?thesis using ok same by (simp add: instance_ok_def same_decision_def)
qed

lemma same_decision_update:
  assumes "i < length (i_ports inst)" and "decision_part (f (i_ports inst ! i)) = decision_part (i_ports inst ! i)"
  shows "same_decision inst (update_port i f inst)"
proof -
  have "(map decision_part (i_ports inst))[i := decision_part (i_ports inst ! i)] = map decision_part (i_ports inst)"
    using assms(1) by (metis list_update_id nth_map)
  then show ?thesis using assms by (simp add: same_decision_def map_update)
qed

lemma same_decision_length: "same_decision a b \<Longrightarrow> length (i_ports a) = length (i_ports b)"
  unfolding same_decision_def by (metis length_map)

lemma process_same:
  assumes "i < length (i_ports inst)" and "process_delay_sequences x i inst = Some (inst', outs)"
  shows "same_decision inst inst'"
  using assms by (auto simp: process_delay_sequences_def bind_Some_iff intro!: same_decision_update simp: decision_part_def)

lemma update_local_steps_removed:
  "update_local_ptp_clock pb now fires meas sv = Some sv' \<Longrightarrow>
   cd_steps_removed (sv_current_ds sv') = cd_steps_removed (sv_current_ds sv)"
  by (cases "servo_filter pb now fires (m_offset_from_master meas) (sv_clock sv) (sv_stats sv)")
    (auto simp: update_local_ptp_clock_def bind_Some_iff)

lemma update_clock_same: "update_clock x meas inst = Some inst' \<Longrightarrow> same_decision inst inst'"
  by (auto simp: update_clock_def bind_Some_iff same_decision_def dest: update_local_steps_removed)

lemma start_delay_same: "start_delay_sequence x m p = Some p' \<Longrightarrow> decision_part p' = decision_part p"
  by (auto simp: start_delay_sequence_def bind_Some_iff decision_part_def split: if_splits)

lemma handle_sync_same:
  assumes i: "i < length (i_ports inst)" and h: "handle_sync_message x i m inst = Some (inst', outs)"
  shows "same_decision inst inst'"
proof (cases "following (state_of (i_ports inst ! i)) \<and> source_port_identity (sync_header m) = parent_port_identity (i_parent_ds inst)")
  case False
  then show ?thesis using h by (auto simp: handle_sync_message_def Let_def split: if_splits)
next
  case True
  let ?m = "m\<lparr>sync_receive_timestamp := in_receive_time x\<rparr>" and ?p = "i_ports inst ! i"
  obtain p1 inst1 where p1: "start_delay_sequence x ?m ?p = Some p1"
    and s: "(if two_step_flag (flags (sync_header ?m))
        then Some (update_port i (\<lambda>_. p1\<lparr>sync_messages := in_push_sync x 8 (sync_messages p1) ?m\<rparr>) inst)
        else do { meas \<leftarrow> calculate_offset_one_step (mean_delay p1) ?m;
                  update_clock x meas (update_port i (\<lambda>_. p1) inst) }) = Some inst1"
    and pr: "process_delay_sequences x i inst1 = Some (inst', outs)"
    using h True unfolding handle_sync_message_def Let_def by (auto simp: bind_Some_iff simp del: if_split)
  have "decision_part p1 = decision_part ?p" by (rule start_delay_same [OF p1])
  then have upd: "same_decision inst (update_port i (\<lambda>_. p1\<lparr>sync_messages := ms\<rparr>) inst)"
    "same_decision inst (update_port i (\<lambda>_. p1) inst)" for ms
    using i by (auto intro!: same_decision_update simp: decision_part_def)
  have "same_decision inst inst1"
    using s upd update_clock_same same_decision_trans by (auto simp: bind_Some_iff split: if_splits)
  with process_same [OF _ pr] same_decision_length [of inst inst1] i show ?thesis
    by (auto intro: same_decision_trans)
qed

lemma handle_follow_up_same:
  assumes i: "i < length (i_ports inst)" and h: "handle_follow_up_message x i m inst = Some (inst', outs)"
  shows "same_decision inst inst'"
proof (cases "following (state_of (i_ports inst ! i)) \<and> source_port_identity (fu_header m) = parent_port_identity (i_parent_ds inst)")
  case False
  then show ?thesis using h by (auto simp: handle_follow_up_message_def Let_def split: if_splits)
next
  case True
  let ?p = "i_ports inst ! i"
  obtain ss where ss: "follow_up_sequences m (delay_sequences ?p) = Some ss"
    and r: "(case find (\<lambda>s. header_matches (sync_header s) (fu_header m)) (sync_messages ?p) of
          None \<Rightarrow> process_delay_sequences x i (update_port i (\<lambda>p. p\<lparr>delay_sequences := ss\<rparr>) inst)
        | Some s \<Rightarrow> do {
            meas \<leftarrow> calculate_offset_two_step (mean_delay ?p) s m;
            inst2 \<leftarrow> update_clock x meas (update_port i (\<lambda>p. p\<lparr>delay_sequences := ss\<rparr>) inst);
            process_delay_sequences x i inst2 }) = Some (inst', outs)"
    using h True by (auto simp: handle_follow_up_message_def Let_def bind_Some_iff)
  let ?inst1 = "update_port i (\<lambda>p. p\<lparr>delay_sequences := ss\<rparr>) inst"
  have same1: "same_decision inst ?inst1" using i by (auto intro!: same_decision_update simp: decision_part_def)
  show ?thesis
  proof (cases "find (\<lambda>s. header_matches (sync_header s) (fu_header m)) (sync_messages ?p)")
    case None
    then have "same_decision ?inst1 inst'" using r i by (intro process_same) simp_all
    with same1 show ?thesis by (rule same_decision_trans)
  next
    case (Some s)
    then obtain meas inst2 where u: "update_clock x meas ?inst1 = Some inst2"
      and pr: "process_delay_sequences x i inst2 = Some (inst', outs)"
      using r by (auto simp: bind_Some_iff)
    have same2: "same_decision inst inst2" by (rule same_decision_trans [OF same1 update_clock_same [OF u]])
    then have "i < length (i_ports inst2)" using i same_decision_length by metis
    from same_decision_trans [OF same2 process_same [OF this pr]] show ?thesis .
  qed
qed

lemma handle_delay_resp_same:
  assumes i: "i < length (i_ports inst)" and h: "handle_delay_resp_message x i m inst = Some inst'"
  shows "same_decision inst inst'"
  using h i
  by (auto simp: handle_delay_resp_message_def Let_def bind_Some_iff use_mean_delay_def decision_part_def
      split: if_splits option.splits prod.splits intro!: same_decision_update)

end
