(* ===== verification/Ptp_System.thy ===== *)
theory Ptp_System
  imports Ptp_Instance
begin

text \<open>
  The instance as a system of events: datagrams, timers and calls of the application, in any order.
  An event of \<open>ptp_step\<close> is one call of the event loop that returns; calls that throw or run into
  undefined behaviour have no successor. The theorems are about the states that are reached from the
  constructor with at most \<open>most\<close> ports.
\<close>

section \<open>Events\<close>

inductive ptp_step :: "ptp_instance \<Rightarrow> ptp_instance \<Rightarrow> bool" where
  receive: "i < length (i_ports inst) \<Longrightarrow> handle_recv_event x i d inst = Some (Inr (inst', outs)) \<Longrightarrow> ptp_step inst inst'"
| announce_timeout: "i < length (i_ports inst) \<Longrightarrow> announce_timer (i_ports inst ! i) \<Longrightarrow>
    ptp_step inst (announce_receipt_timeout_expires i inst)"
| decision_timeout: "i_decision_timer inst \<Longrightarrow> state_decision_timer_expires inst = Some inst' \<Longrightarrow> ptp_step inst inst'"
| configure: "ptp_step inst (set_configuration domain inst)"
| adding: "ptp_step inst (snd (add_port ifaces n a inst))"
| updating: "ptp_step inst (snd (update_ports ifaces as inst))"
| removing: "ptp_step inst (snd (remove_port n inst))"
| moving: "ptp_step inst (snd (set_port_interface n a inst))"

inductive ptp_reachable :: "nat \<Rightarrow> ptp_instance \<Rightarrow> bool" for most where
  start: "ptp_reachable most instance_init"
| step: "ptp_reachable most inst \<Longrightarrow> ptp_step inst inst' \<Longrightarrow> length (i_ports inst') \<le> most \<Longrightarrow> ptp_reachable most inst'"

inductive_cases ptp_stepE: "ptp_step inst inst'"

section \<open>Configuration keeps the invariant\<close>

lemma set_interface_decision [simp]: "decision_part (set_interface a p) = decision_part p"
  by (simp add: set_interface_def decision_part_def)

lemma set_first_interface_decision:
  "map decision_part (set_first_interface n a ps) = map decision_part ps"
  by (induction n a ps rule: set_first_interface.induct) simp_all

lemma moving_same: "same_decision inst (inst\<lparr>i_ports := set_first_interface n a (i_ports inst)\<rparr>)"
  by (simp add: same_decision_def set_first_interface_decision)

lemma new_port_ok [inv_intros]: "port_ok (new_port a pid)"
  by (simp add: new_port_def Let_def set_state_def set_interface_def schedule_announce_receipt_timeout_def
      port_ok_def port_ds_init_def fm_ok_def)

lemma new_port_fields:
  "state_of (new_port a pid) = Listening" "erbest (new_port a pid) = None" "identity_of (new_port a pid) = pid"
  by (simp_all add: new_port_def Let_def set_state_def set_interface_def schedule_announce_receipt_timeout_def
      port_ds_init_def)

lemma add_port_cases:
  obtains (refused) e where "add_port ifaces n a inst = (Some e, inst)"
  | (added) d where "slave_only d = slave_only (i_default_ds inst)"
      "i_default_ds (snd (add_port ifaces n a inst)) = d" "i_parent_ds (snd (add_port ifaces n a inst)) = i_parent_ds inst"
      "i_ports (snd (add_port ifaces n a inst)) =
         i_ports inst @ [new_port a \<lparr>pi_clock_identity = dd_clock_identity d, pi_port_number = n\<rparr>]"
proof (cases "has_port n inst \<or> ifaces a = None")
  case True
  then have "add_port ifaces n a inst = (Some (if has_port n inst then Port_already_exists else Network_interface_not_found), inst)"
    by (auto simp: add_port_def)
  then show ?thesis by (rule refused)
next
  case False
  then obtain mac where mac: "\<not> has_port n inst" "ifaces a = Some mac" by auto
  show ?thesis
  proof (cases "ci_all_zero (dd_clock_identity (i_default_ds inst))")
    case no_identity: True
    show ?thesis
    proof (cases "Option.bind mac ci_from_mac")
      case None
      then have "add_port ifaces n a inst =
          (Some (if mac = None then No_mac_address_available else Invalid_clock_identity), inst)"
        using mac no_identity by (cases mac) (auto simp: add_port_def)
      then show ?thesis by (rule refused)
    next
      case (Some c)
      then show ?thesis using mac no_identity
        by (intro added [of "(i_default_ds inst)\<lparr>dd_clock_identity := c, dd_number_ports := of_nat (length (i_ports inst) + 1)\<rparr>"])
          (auto simp: add_port_def Let_def slave_only_def bind_Some_iff)
    qed
  next
    case False
    then show ?thesis using mac
      by (intro added [of "(i_default_ds inst)\<lparr>dd_number_ports := of_nat (length (i_ports inst) + 1)\<rparr>"])
        (auto simp: add_port_def Let_def slave_only_def)
  qed
qed

lemma add_port_ok [inv_intros]: "instance_ok inst \<Longrightarrow> instance_ok (snd (add_port ifaces n a inst))"
proof (cases rule: add_port_cases [of ifaces n a inst])
  case (added d)
  assume ok: "instance_ok inst"
  show ?thesis unfolding instance_ok_def added(2,4)
    using ok added(1) new_port_ok by (auto simp: instance_ok_def)
qed simp

lemma remove_port_ports [simp]:
  "i_ports (snd (remove_port n inst)) = filter (\<lambda>p. pi_port_number (identity_of p) \<noteq> n) (i_ports inst)"
  "i_parent_ds (snd (remove_port n inst)) = i_parent_ds inst"
  "slave_only (i_default_ds (snd (remove_port n inst))) = slave_only (i_default_ds inst)"
proof -
  have "filter (\<lambda>p. pi_port_number (identity_of p) \<noteq> n) (i_ports inst) = i_ports inst" if "\<not> has_port n inst"
    using that by (auto simp: has_port_def list_ex_iff intro!: filter_True)
  then show "i_ports (snd (remove_port n inst)) = filter (\<lambda>p. pi_port_number (identity_of p) \<noteq> n) (i_ports inst)"
    by (simp add: remove_port_def Let_def)
qed (simp_all add: remove_port_def Let_def slave_only_def)

lemma remove_port_ok [inv_intros]: "instance_ok inst \<Longrightarrow> instance_ok (snd (remove_port n inst))"
  by (simp add: instance_ok_def)

text \<open>What adding, removing and moving ports keep, \<open>update_ports\<close> keeps.\<close>

lemma update_addresses_keep:
  assumes adding: "\<And>n a inst. P inst \<Longrightarrow> P (snd (add_port ifaces n a inst))"
    and removing: "\<And>n inst. P inst \<Longrightarrow> P (snd (remove_port n inst))"
    and moving: "\<And>n a inst. P inst \<Longrightarrow> P (inst\<lparr>i_ports := set_first_interface n a (i_ports inst)\<rparr>)"
  shows "P inst \<Longrightarrow> P (snd (update_port_addresses ifaces i as inst))"
proof (induction "as" arbitrary: i inst)
  case (Cons a "as")
  let ?n = "of_nat (i + 1) :: u16"
  show ?case
  proof (cases "a = 0")
    case True
    then show ?thesis using Cons removing by (simp add: Let_def)
  next
    case False
    have one: "P (snd (add_or_update_port ifaces ?n a inst))"
      using Cons.prems adding [of inst ?n a] moving [of inst ?n a] by (simp add: add_or_update_port_def)
    obtain e inst' where r: "add_or_update_port ifaces ?n a inst = (e, inst')" by fastforce
    then show ?thesis using one Cons.IH [of inst' "Suc i"] False
      by (cases e) (simp_all add: Let_def)
  qed
qed simp

lemma update_ports_keep:
  assumes adding: "\<And>n a inst. P inst \<Longrightarrow> P (snd (add_port ifaces n a inst))"
    and removing: "\<And>n inst. P inst \<Longrightarrow> P (snd (remove_port n inst))"
    and moving: "\<And>n a inst. P inst \<Longrightarrow> P (inst\<lparr>i_ports := set_first_interface n a (i_ports inst)\<rparr>)"
    and P: "P inst"
  shows "P (snd (update_ports ifaces as inst))"
proof -
  obtain e inst' where r: "update_port_addresses ifaces 0 as inst = (e, inst')" by fastforce
  have addresses: "P inst'" using update_addresses_keep [of P, OF adding removing moving P, of 0 "as"] r by simp
  have fold: "P s \<Longrightarrow> P (fold (\<lambda>n s. snd (remove_port n s)) ns s)" for ns s
    by (induction ns arbitrary: s) (simp_all add: removing)
  show ?thesis
  proof (cases "length as \<ge> 65535")
    case True
    then show ?thesis using P by (simp add: update_ports_def)
  next
    case False
    then show ?thesis using fold [OF addresses] addresses r
      by (cases e) (simp_all add: update_ports_def Let_def del: One_nat_def)
  qed
qed

section \<open>Invariant of the reachable states\<close>

lemma with_message_Some: "with_message r f = Some (Inr y) \<longleftrightarrow> (\<exists>m. r = Some (Inr m) \<and> f m = Some y)"
proof (cases r)
  case (Some parsed)
  then show ?thesis by (cases parsed; cases y) (auto simp: with_message_def)
qed (simp add: with_message_def)

lemma handle_recv_cases:
  assumes "handle_recv_event x i d inst = Some (Inr (inst', outs))"
  obtains (ignored) "inst' = inst"
  | (announce) m where "handle_announce_message i m inst = Some inst'"
  | (sync) m where "handle_sync_message x i m inst = Some (inst', outs)"
  | (follow_up) m where "handle_follow_up_message x i m inst = Some (inst', outs)"
  | (delay_resp) m where "handle_delay_resp_message x i m inst = Some inst'"
proof -
  obtain parsed where parsed: "header_from_data d = Some parsed"
    using assms by (auto simp: handle_recv_event_def bind_Some_iff)
  show ?thesis
  proof (cases parsed)
    case (Inl e)
    then show ?thesis using assms parsed ignored by (simp add: handle_recv_event_def)
  next
    case (Inr h)
    let ?skip = "\<not> should_process_ptp_messages h inst \<or> state_of (i_ports inst ! i) \<in> {Initializing, Disabled, Faulty}"
    show ?thesis
    proof (cases ?skip)
      case True
      then have "inst' = inst" using assms parsed Inr by (auto simp: handle_recv_event_def Let_def split: if_splits)
      then show ?thesis by (rule ignored)
    next
      case False
      note run = assms [unfolded handle_recv_event_def parsed Inr Option.bind.simps sum.case Let_def]
      show ?thesis
      proof (cases "message_type h")
        case Announce
        then show ?thesis using False run announce
          by (auto simp: with_message_Some)
      next
        case Sync
        then show ?thesis using False run sync
          by (auto simp: with_message_Some)
      next
        case Follow_up
        then show ?thesis using False run follow_up
          by (auto simp: with_message_Some)
      next
        case Delay_resp
        then show ?thesis using False run delay_resp
          by (auto simp: with_message_Some)
      qed (use False run ignored in \<open>auto simp: with_message_Some\<close>)
    qed
  qed
qed

lemma step_ok:
  assumes "ptp_step inst inst'" and ok: "instance_ok inst"
  shows "instance_ok inst'"
  using assms(1)
proof (cases rule: ptp_step.cases)
  case (receive i x d outs)
  from receive(2) show ?thesis
  proof (cases rule: handle_recv_cases)
    case ignored
    then show ?thesis using ok by simp
  next
    case (announce m)
    then show ?thesis using handle_announce_ok(1) [OF ok receive(1)] by blast
  next
    case (sync m)
    then show ?thesis using handle_sync_same [OF receive(1)] same_decision_ok ok by blast
  next
    case (follow_up m)
    then show ?thesis using handle_follow_up_same [OF receive(1)] same_decision_ok ok by blast
  next
    case (delay_resp m)
    then show ?thesis using handle_delay_resp_same [OF receive(1)] same_decision_ok ok by blast
  qed
next
  case (announce_timeout i)
  then show ?thesis using timeout_ok ok by simp
next
  case decision_timeout
  then show ?thesis using decision_timer_ok(1) ok by blast
next
  case (configure domain)
  then show ?thesis using ok by (simp add: instance_ok_def slave_only_def set_configuration_def)
next
  case (adding ifaces n a)
  then show ?thesis using add_port_ok ok by simp
next
  case (updating ifaces "as")
  have "instance_ok (snd (update_ports ifaces as inst))"
    by (rule update_ports_keep [of instance_ok, OF add_port_ok remove_port_ok same_decision_ok [OF moving_same] ok])
  then show ?thesis using updating by simp
next
  case (removing n)
  then show ?thesis using remove_port_ok ok by simp
next
  case (moving n a)
  then show ?thesis using same_decision_ok [OF moving_same ok] by (simp add: set_port_interface_def)
qed

lemma init_ok: "instance_ok instance_init"
  by (simp add: instance_ok_def instance_init_def slave_only_def default_ds_init_def clock_quality_init_def)

lemma reachable_ok: "ptp_reachable most inst \<Longrightarrow> instance_ok inst"
  by (induction rule: ptp_reachable.induct) (auto intro: init_ok step_ok)

section \<open>One port: the data sets follow the master\<close>

text \<open>The data sets hold what the Announce message \<open>m\<close> says.\<close>

definition parent_data :: "announce_message \<Rightarrow> ptp_instance \<Rightarrow> bool" where
  "parent_data m inst \<longleftrightarrow>
     parent_port_identity (i_parent_ds inst) = sender m \<and>
     ps_grandmaster_identity (i_parent_ds inst) = grandmaster_identity m \<and>
     ps_grandmaster_clock_quality (i_parent_ds inst) = grandmaster_clock_quality m \<and>
     ps_grandmaster_priority1 (i_parent_ds inst) = ucast (grandmaster_priority1 m) \<and>
     ps_grandmaster_priority2 (i_parent_ds inst) = grandmaster_priority2 m \<and>
     tp_current_utc_offset (i_time_properties_ds inst) = current_utc_offset m \<and>
     tp_ptp_timescale (i_time_properties_ds inst) = ptp_timescale (flags (an_header m)) \<and>
     tp_time_source (i_time_properties_ds inst) = time_source m \<and>
     cd_steps_removed (sv_current_ds (i_servo inst)) = 1 + steps_removed m"

definition tracks :: "ptp_instance \<Rightarrow> bool" where
  "tracks inst \<longleftrightarrow> (\<forall>p \<in> set (i_ports inst). following (state_of p) \<longrightarrow> (\<exists>m. erbest p = Some m \<and> parent_data m inst))"

definition knows_parent :: "ptp_instance \<Rightarrow> bool" where
  "knows_parent inst \<longleftrightarrow> (\<forall>p \<in> set (i_ports inst). following (state_of p) \<longrightarrow> erbest p \<noteq> None)"

lemma tracks_knows: "tracks inst \<Longrightarrow> knows_parent inst"
  by (auto simp: tracks_def knows_parent_def)

lemma tracksI: "(\<And>p. p \<in> set (i_ports inst) \<Longrightarrow> following (state_of p) \<Longrightarrow> \<exists>m. erbest p = Some m \<and> parent_data m inst) \<Longrightarrow> tracks inst"
  by (simp add: tracks_def)

lemma tracks_same: "same_decision a b \<Longrightarrow> tracks a \<Longrightarrow> tracks b"
proof (rule tracksI)
  fix q
  assume same: "same_decision a b" and known: "tracks a" and q: "q \<in> set (i_ports b)" "following (state_of q)"
  have "decision_part q \<in> set (map decision_part (i_ports a))" using q(1) same by (simp add: same_decision_def)
  then obtain p where p: "p \<in> set (i_ports a)" "decision_part p = decision_part q" by force
  then have "following (state_of p)" "erbest p = erbest q" using q(2) by (simp_all add: decision_part_def)
  then obtain m where "erbest q = Some m" "parent_data m a" using known p(1) by (metis tracks_def)
  then show "\<exists>m. erbest q = Some m \<and> parent_data m b" using same by (simp add: parent_data_def same_decision_def)
qed

lemma determine_single:
  "determine_ebest [q] = (map_option (\<lambda>m. (m, identity_of q)) (erbest (calculate_erbest q)), [calculate_erbest q])"
  by (cases "erbest (calculate_erbest q)") (simp_all add: determine_ebest_def Let_def)

text \<open>A clock that may not be master takes the best Announce message as its parent's.\<close>

lemma apply_single:
  assumes slave: "slave_only (i_default_ds inst)" and q: "i_ports inst = [q]"
    and st: "state_of q = Listening \<or> following (state_of q)"
  shows "\<exists>s. following s \<and> apply_state_decision_algorithm (Some (m, identity_of q)) 0 inst =
    Some (update_port 0 (set_state s) (snd (set_recommended_state S1 (Some m) inst)))"
proof -
  let ?r = "calculate_recommended_state (i_default_ds inst) (Some (cds_of_announce m (identity_of q))) q"
  have "uint (clock_class (dd_clock_quality (i_default_ds inst))) = 255" and dd: "dd_slave_only (i_default_ds inst)"
    using slave by (simp_all add: slave_only_def)
  then have "\<not> range_contains 1 127 (uint (clock_class (dd_clock_quality (i_default_ds inst))))"
    by (simp add: range_contains_def)
  then have r: "?r = Some M2 \<or> ?r = Some S1"
    by (simp add: calculate_recommended_state_def Let_def cds_of_announce_def)
  let ?inst = "snd (set_recommended_state S1 (Some m) inst)"
  have "apply_state_decision_algorithm (Some (m, identity_of q)) 0 inst =
      Some (update_port 0 (set_state (get_state_for_decision_code ?inst S1)) ?inst)"
    using r dd q by (auto simp: apply_state_decision_algorithm_def Let_def)
  moreover have "following (get_state_for_decision_code ?inst S1)"
    by (simp add: get_state_for_decision_code_def following_def)
  ultimately show ?thesis by blast
qed

lemma S1_parent_data: "parent_data m (snd (set_recommended_state S1 (Some m) inst))"
  by (simp add: parent_data_def set_recommended_state_def sender_def)

lemma parent_data_port [simp]: "parent_data m (update_port i f inst) = parent_data m inst"
  by (simp add: parent_data_def)

lemma execute_single:
  assumes ok: "instance_ok inst" and known: "knows_parent inst" and q: "i_ports inst = [q]"
  obtains (undecided) "erbest (calculate_erbest q) = None" "state_of q = Listening"
      "execute_state_decision_event inst = Some (inst\<lparr>i_ports := [calculate_erbest q]\<rparr>)"
  | (decided) m s inst' where "erbest (calculate_erbest q) = Some m" "following s"
      "execute_state_decision_event inst = Some inst'" "i_ports inst' = [set_state s (calculate_erbest q)]"
      "parent_data m inst'" "i_default_ds inst' = i_default_ds inst"
proof -
  let ?p = "calculate_erbest q" and ?inst = "inst\<lparr>i_ports := [calculate_erbest q]\<rparr>"
  have member: "q \<in> set (i_ports inst)" using q by simp
  then have st: "state_of q = Listening \<or> following (state_of q)"
    using ok by (auto simp: instance_ok_def port_ok_def)
  then have run: "execute_state_decision_event inst =
      apply_state_decision_algorithm (map_option (\<lambda>m. (m, identity_of q)) (erbest ?p)) 0 ?inst"
    using q by (auto simp: execute_state_decision_event_def determine_single following_def split: option.splits)
  show ?thesis
  proof (cases "erbest ?p")
    case None
    then have "\<not> following (state_of q)"
      using calculate_erbest_keeps_some [of q] known member by (auto simp: knows_parent_def)
    then show ?thesis using undecided None st run by (simp add: apply_state_decision_algorithm_def)
  next
    case (Some m)
    have "slave_only (i_default_ds ?inst)" "i_ports ?inst = [?p]" using ok by (simp_all add: instance_ok_def)
    then obtain s where s: "following s" "apply_state_decision_algorithm (Some (m, identity_of q)) 0 ?inst =
        Some (update_port 0 (set_state s) (snd (set_recommended_state S1 (Some m) ?inst)))"
      using apply_single [of ?inst ?p m] st by auto
    show ?thesis
      by (rule decided [OF Some s(1), where inst' = "update_port 0 (set_state s) (snd (set_recommended_state S1 (Some m) ?inst))"])
        (use run Some s(2) in \<open>simp_all add: S1_parent_data\<close>)
  qed
qed

lemma execute_tracks:
  assumes ok: "instance_ok inst" and known: "knows_parent inst" and len: "length (i_ports inst) \<le> 1"
  shows "\<exists>inst'. execute_state_decision_event inst = Some inst' \<and> tracks inst'"
proof (cases "i_ports inst")
  case Nil
  then show ?thesis by (simp add: execute_state_decision_event_def tracks_def)
next
  case (Cons q qs)
  then have q: "i_ports inst = [q]" using len by simp
  show ?thesis
  proof (cases rule: execute_single [OF ok known q])
    case 1
    then show ?thesis by (simp add: tracks_def following_def)
  next
    case (2 m s inst')
    then show ?thesis by (auto simp: tracks_def)
  qed
qed

lemma tracks_add: "tracks inst \<Longrightarrow> tracks (snd (add_port ifaces n a inst))"
proof (cases rule: add_port_cases [of ifaces n a inst])
  case (added d)
  have kept: "i_time_properties_ds (snd (add_port ifaces n a inst)) = i_time_properties_ds inst"
    "i_servo (snd (add_port ifaces n a inst)) = i_servo inst"
    by (simp_all add: add_port_def Let_def split: option.splits)
  assume "tracks inst"
  then show ?thesis unfolding tracks_def added(4)
    by (auto simp: new_port_fields following_def parent_data_def kept added(3))
qed simp

lemma tracks_remove: "tracks inst \<Longrightarrow> tracks (snd (remove_port n inst))"
proof -
  have "parent_data m (snd (remove_port n inst)) = parent_data m inst" for m
    by (simp add: parent_data_def remove_port_def Let_def)
  then show "tracks inst \<Longrightarrow> tracks (snd (remove_port n inst))" by (simp add: tracks_def)
qed

lemma tracks_timeout:
  assumes ok: "instance_ok inst" and tracks: "tracks inst"
  shows "tracks (announce_receipt_timeout_expires i inst)"
proof (rule tracksI)
  fix p
  let ?p = "schedule_announce_receipt_timeout (set_state Listening ((i_ports inst ! i)\<lparr>erbest := None\<rparr>))"
  have "dd_slave_only (i_default_ds inst)" using ok by (simp add: instance_ok_def slave_only_def)
  then have run: "announce_receipt_timeout_expires i inst = inst\<lparr>i_ports := (i_ports inst)[i := ?p]\<rparr>"
    by (simp add: announce_receipt_timeout_expires_def Let_def update_port_def)
  assume p: "p \<in> set (i_ports (announce_receipt_timeout_expires i inst))" "following (state_of p)"
  have "state_of ?p = Listening"
    using set_state_follow [of Listening] by (simp add: schedule_announce_receipt_timeout_def)
  then have "p \<in> set (i_ports inst)"
    using p set_update_subset_insert [of "i_ports inst" i ?p] by (auto simp: run following_def)
  then show "\<exists>m. erbest p = Some m \<and> parent_data m (announce_receipt_timeout_expires i inst)"
    using tracks p(2) by (simp add: tracks_def run parent_data_def)
qed

lemma knows_parent_recorded:
  assumes i: "i < length (i_ports inst)" and known: "knows_parent inst"
  shows "knows_parent (announce_recorded i m inst)"
proof -
  let ?r = "announce_recorded i m inst"
  have "erbest p \<noteq> None" if p: "p \<in> set (i_ports ?r)" "following (state_of p)" for p
  proof -
    obtain k where k: "k < length (i_ports ?r)" "i_ports ?r ! k = p" using p(1) unfolding in_set_conv_nth by blast
    have len: "k < length (i_ports inst)" using k(1) announce_recorded_port(1) [OF i] by simp
    then have old: "following (state_of (i_ports inst ! k)) \<Longrightarrow> erbest (i_ports inst ! k) \<noteq> None"
      using known by (simp add: knows_parent_def)
    show ?thesis
    proof (cases "k = i")
      case True
      then show ?thesis
        using k(2) p(2) old announce_recorded_port(4,5) [OF i, of m] by auto
    next
      case False
      then show ?thesis using k(2) p(2) old announce_recorded_port(3) [OF i len, of m] by simp
    qed
  qed
  then show ?thesis by (simp add: knows_parent_def)
qed

lemma decision_timer_tracks:
  assumes "instance_ok inst" and "tracks inst" and "length (i_ports inst) \<le> 1"
  shows "\<exists>inst'. state_decision_timer_expires inst = Some inst' \<and> tracks inst'"
  using execute_tracks [OF assms(1) tracks_knows [OF assms(2)] assms(3)]
  by (auto simp: state_decision_timer_expires_def tracks_def port_increase_age_def parent_data_def)

lemma handle_announce_tracks:
  assumes ok: "instance_ok inst" and tracks: "tracks inst" and len: "length (i_ports inst) \<le> 1"
    and i: "i < length (i_ports inst)"
  shows "\<exists>inst'. handle_announce_message i m inst = Some inst' \<and> tracks inst'"
  using execute_tracks [OF announce_recorded_ok [OF ok i, of m] knows_parent_recorded [OF i tracks_knows [OF tracks]]]
    announce_recorded_port(1) [OF i] len tracks
  by (simp add: handle_announce_eq)

lemma step_tracks:
  assumes "ptp_step inst inst'" and ok: "instance_ok inst" and tracks: "tracks inst"
    and len: "length (i_ports inst) \<le> 1"
  shows "tracks inst'"
  using assms(1)
proof (cases rule: ptp_step.cases)
  case (receive i x d outs)
  from receive(2) show ?thesis
  proof (cases rule: handle_recv_cases)
    case ignored
    then show ?thesis using tracks by simp
  next
    case (announce m)
    then show ?thesis using handle_announce_tracks [OF ok tracks len receive(1), of m] by simp
  next
    case (sync m)
    then show ?thesis using handle_sync_same [OF receive(1)] tracks_same tracks by blast
  next
    case (follow_up m)
    then show ?thesis using handle_follow_up_same [OF receive(1)] tracks_same tracks by blast
  next
    case (delay_resp m)
    then show ?thesis using handle_delay_resp_same [OF receive(1)] tracks_same tracks by blast
  qed
next
  case (announce_timeout i)
  then show ?thesis using tracks_timeout [OF ok tracks] by simp
next
  case decision_timeout
  then show ?thesis using decision_timer_tracks [OF ok tracks len] by simp
next
  case (configure domain)
  then show ?thesis using tracks by (simp add: tracks_def parent_data_def set_configuration_def)
next
  case (adding ifaces n a)
  then show ?thesis using tracks_add [OF tracks] by simp
next
  case (updating ifaces "as")
  have "tracks (snd (update_ports ifaces as inst))"
    by (rule update_ports_keep [of tracks, OF tracks_add tracks_remove tracks_same [OF moving_same] tracks])
  then show ?thesis using updating by simp
next
  case (removing n)
  then show ?thesis using tracks_remove [OF tracks] by simp
next
  case (moving n a)
  then show ?thesis using tracks_same [OF moving_same tracks] by (simp add: set_port_interface_def)
qed

lemma reachable_most: "ptp_reachable most inst \<Longrightarrow> length (i_ports inst) \<le> most"
  by (induction rule: ptp_reachable.induct) (simp_all add: instance_init_def)

lemma reachable_tracks: "ptp_reachable 1 inst \<Longrightarrow> tracks inst"
proof (induction rule: ptp_reachable.induct)
  case (step inst inst')
  then show ?case using step_tracks reachable_ok reachable_most by blast
qed (simp add: tracks_def instance_init_def)

end
