(* ===== verification/Ptp_Scenarios.thy ===== *)
theory Ptp_Scenarios
  imports Ptp_System
begin

text \<open>
  The properties of the PTP instance, and the concrete runs that show them at work.
\<close>

section \<open>Announce messages to a listening port\<close>

lemma erbest_found_None: "\<forall>e \<in> set es. erbest_step previous pid e None = None \<Longrightarrow> erbest_found previous pid es = None"
  unfolding erbest_found_def by (induction es) simp_all

lemma listening_announce:
  assumes ok: "instance_ok inst" and q: "i_ports inst = [q]" "state_of q = Listening" "erbest q = None"
    and accepted: "\<not> announce_refused 0 m inst"
  obtains (undecided) "erbest_found None (identity_of q) (add_or_update_entry m (foreign_master_list q)) = None"
      "handle_announce_message 0 m inst = Some (inst\<lparr>i_ports :=
         [q\<lparr>foreign_master_list := purge_entries None (add_or_update_entry m (foreign_master_list q))\<rparr>]\<rparr>)"
  | (decided) b s inst' where
      "erbest_found None (identity_of q) (add_or_update_entry m (foreign_master_list q)) = Some b" "following s"
      "handle_announce_message 0 m inst = Some inst'" "parent_data b inst'"
      "state_of (i_ports inst' ! 0) = s" "erbest (i_ports inst' ! 0) = Some b"
proof -
  let ?q = "q\<lparr>foreign_master_list := add_or_update_entry m (foreign_master_list q)\<rparr>"
  let ?r = "inst\<lparr>i_ports := [?q]\<rparr>"
  let ?found = "erbest_found None (identity_of q) (add_or_update_entry m (foreign_master_list q))"
  have r: "announce_recorded 0 m inst = ?r"
    using q by (simp add: announce_recorded_def announce_foreign_def following_def update_port_def)
  then have run: "handle_announce_message 0 m inst = execute_state_decision_event ?r"
    using accepted by (simp add: handle_announce_eq)
  have ok': "instance_ok ?r" using announce_recorded_ok [OF ok, of 0 m] q r by simp
  have known: "knows_parent ?r" using q by (simp add: knows_parent_def following_def)
  have "previous_erbest ?q = None" using q by (simp add: previous_erbest_def)
  then have e: "calculate_erbest ?q = ?q\<lparr>erbest := ?found, foreign_master_list :=
      purge_entries ?found (add_or_update_entry m (foreign_master_list q))\<rparr>"
    using q by (simp add: calculate_erbest_eq Let_def split: option.split)
  show ?thesis
  proof (cases rule: execute_single [OF ok' known, of ?q, simplified])
    case 1
    then show ?thesis using undecided run q(3) by (simp add: e)
  next
    case (2 b s inst')
    then show ?thesis using decided [of b s inst'] run set_state_follow [of s "calculate_erbest ?q"] by (simp add: e)
  qed
qed

lemma master_adopted_steps:
  assumes ok: "instance_ok inst" and q: "i_ports inst = [q]" "state_of q = Listening" "erbest q = None"
      "foreign_master_list q = []"
    and other: "pi_clock_identity (sender m1) \<noteq> pi_clock_identity (identity_of q)"
    and same: "sender m2 = sender m1" "sender m3 = sender m1"
    and near: "steps_removed m1 < 255" "steps_removed m2 < 255" "steps_removed m3 < 255"
    and order: "\<not> wrapping_lt (sequence_id (an_header m3)) (sequence_id (an_header m2))"
  obtains i1 i2 i3 where "handle_announce_message 0 m1 inst = Some i1" "handle_announce_message 0 m2 i1 = Some i2"
    "handle_announce_message 0 m3 i2 = Some i3" "following (state_of (i_ports i3 ! 0))"
    "erbest (i_ports i3 ! 0) = Some m3" "parent_data m3 i3"
    "i_default_ds i1 = i_default_ds inst" "i_default_ds i2 = i_default_ds inst"
    "state_of (i_ports i1 ! 0) = Listening" "state_of (i_ports i2 ! 0) = Listening"
proof -
  let ?entry = "\<lambda>n m. \<lparr>foreign_master_port_identity = sender m1, foreign_master_announce_messages = n,
    most_recent_announce_message = m, age = 0\<rparr>"
  let ?state = "\<lambda>n m. inst\<lparr>i_ports := [q\<lparr>foreign_master_list := [?entry n m]\<rparr>]\<rparr>"
  have accept: "\<not> announce_refused 0 m (inst\<lparr>i_ports := [p]\<rparr>)"
    if "sender m = sender m1" "steps_removed m < 255" "identity_of p = identity_of q" for m p
    using that other by (simp add: announce_refused_def)
  have self: "inst\<lparr>i_ports := [q]\<rparr> = inst" using q(1) by simp
  have ok': "instance_ok (inst\<lparr>i_ports := [p]\<rparr>)" if "port_ok p" for p
    using that ok by (simp add: instance_ok_def)
  have "port_ok q" using ok q(1) by (simp add: instance_ok_def)
  then have entry_ok: "port_ok (q\<lparr>foreign_master_list := [?entry n m]\<rparr>)"
    if "n = 0 \<and> m = None \<or> (\<exists>a. m = Some a \<and> sender a = sender m1)" for n m
    using that q(3) by (auto simp: port_ok_def fm_ok_def entry_ok_def sender_def)
  have r1: "handle_announce_message 0 m1 inst = Some (?state 0 None)"
  proof (cases rule: listening_announce [OF ok q(1-3), of m1])
    case 1
    then show ?case using accept [of m1 q] near(1) self by simp
  next
    case 2
    then show ?thesis
      by (simp add: q(4) add_or_update_entry_def purge_entries_def k_foreign_master_time_window_def
          k_foreign_master_threshold_def sender_def)
  next
    case (3 b s inst')
    then show ?thesis by (simp add: q(4) add_or_update_entry_def erbest_found_def erbest_step_def)
  qed
  let ?q = "\<lambda>n m. q\<lparr>foreign_master_list := [?entry n m]\<rparr>"
  have listening: "i_ports (?state n m) = [?q n m]" "state_of (?q n m) = Listening" "erbest (?q n m) = None" for n m
    using q(2,3) by simp_all
  have ok2: "instance_ok (?state 0 None)" and ok3: "instance_ok (?state 1 (Some m2))"
    using same(1) by (auto intro!: ok' entry_ok)
  have accept2: "\<not> announce_refused 0 m2 (?state 0 None)" and accept3: "\<not> announce_refused 0 m3 (?state 1 (Some m2))"
    using same near other by (simp_all add: announce_refused_def)
  have r2: "handle_announce_message 0 m2 (?state 0 None) = Some (?state 1 (Some m2))"
  proof (cases rule: listening_announce [OF ok2 listening accept2])
    case 1
    then show ?thesis using same(1)
      by (simp add: add_or_update_entry_def purge_entries_def k_foreign_master_time_window_def
          k_foreign_master_threshold_def sender_def)
  next
    case (2 b s inst')
    then show ?thesis using same(1)
      by (simp add: add_or_update_entry_def erbest_found_def erbest_step_def k_foreign_master_threshold_def sender_def)
  qed
  have found: "erbest_found None pid (add_or_update_entry m3 [?entry 1 (Some m2)]) = Some m3" for pid
    using same order
    by (simp add: add_or_update_entry_def erbest_found_def erbest_step_def k_foreign_master_threshold_def sender_def)
  show ?thesis
  proof (cases rule: listening_announce [OF ok3 listening accept3])
    case 1
    then show ?thesis using found by simp
  next
    case (2 b s i3)
    then have "b = m3" using found by simp
    with 2 r1 r2 q(2) show ?thesis
      by (intro that [where ?i1.0 = "?state 0 None" and ?i2.0 = "?state 1 (Some m2)" and ?i3.0 = i3]) simp_all
  qed
qed

section \<open>Announce datagrams\<close>

definition announce_packet :: "announce_message \<Rightarrow> byte list" where
  "announce_packet m = header_write_to [] (an_header m) @ announce_octets m"

definition announce_ok :: "announce_message \<Rightarrow> bool" where
  "announce_ok m \<longleftrightarrow> header_ok (an_header m) \<and> message_length (an_header m) = 64 \<and> message_type (an_header m) = Announce \<and>
     ts_on_wire (an_origin_timestamp m) \<and> ci_ok (grandmaster_identity m)"

lemma receive_announce:
  assumes ok: "announce_ok m" and processed: "should_process_ptp_messages (an_header m) inst"
    and st: "state_of (i_ports inst ! i) = Listening \<or> following (state_of (i_ports inst ! i))"
  shows "handle_recv_event x i (announce_packet m) inst =
    map_option (\<lambda>inst'. Inr (inst', [])) (handle_announce_message i m inst)"
proof -
  have octets: "length (announce_octets m) = 30"
    using ok by (simp add: announce_octets_def announce_ok_def ci_ok_def clock_quality_write_to_def)
  have header: "header_from_data (announce_packet m) = Some (Inr (an_header m))"
    unfolding announce_packet_def by (rule header_roundtrip) (use ok octets in \<open>simp_all add: announce_ok_def\<close>)
  have "length (header_write_to [] (an_header m)) = 34"
    using ok length_header [of "an_header m" "[]"] by (simp add: announce_ok_def header_ok_def)
  then have "drop k_header_size (announce_packet m) = announce_octets m @ []"
    by (simp add: announce_packet_def k_header_size_def)
  then have body: "announce_from_data (an_header m) (drop k_header_size (announce_packet m)) = Some (Inr m)"
    using announce_roundtrip [of m "[]"] ok by (simp add: announce_ok_def)
  show ?thesis
    using st ok processed
    by (auto simp: handle_recv_event_def header body with_message_def following_def announce_ok_def Let_def
        option.map_comp comp_def)
qed

section \<open>Concrete runs\<close>

datatype event =
    Add_port interfaces u16 u32 | Datagram nat "byte list" | Announce_timeout nat | Decision_timeout
  | Configure byte | Update_ports interfaces "u32 list"

fun run_event :: "inputs \<Rightarrow> event \<Rightarrow> ptp_instance \<Rightarrow> ptp_instance option" where
  "run_event x (Add_port ifaces n a) inst = Some (snd (add_port ifaces n a inst))"
| "run_event x (Datagram i d) inst =
     (if i < length (i_ports inst) then
        (case handle_recv_event x i d inst of Some (Inr (inst', outs)) \<Rightarrow> Some inst' | _ \<Rightarrow> None) else None)"
| "run_event x (Announce_timeout i) inst =
     (if i < length (i_ports inst) \<and> announce_timer (i_ports inst ! i)
      then Some (announce_receipt_timeout_expires i inst) else None)"
| "run_event x Decision_timeout inst = (if i_decision_timer inst then state_decision_timer_expires inst else None)"
| "run_event x (Configure domain) inst = Some (set_configuration domain inst)"
| "run_event x (Update_ports ifaces as) inst = Some (snd (update_ports ifaces as inst))"

fun run_events :: "nat \<Rightarrow> inputs \<Rightarrow> event list \<Rightarrow> ptp_instance \<Rightarrow> ptp_instance option" where
  "run_events most x [] inst = Some inst"
| "run_events most x (e # es) inst = do {
     inst' \<leftarrow> run_event x e inst;
     if length (i_ports inst') \<le> most then run_events most x es inst' else None }"

lemma run_event_step: "run_event x e inst = Some inst' \<Longrightarrow> ptp_step inst inst'"
  by (cases e) (auto intro: ptp_step.intros split: if_splits option.splits sum.splits)

lemma run_events_reachable:
  "run_events most x es inst = Some inst' \<Longrightarrow> ptp_reachable most inst \<Longrightarrow> ptp_reachable most inst'"
proof (induction most x es inst rule: run_events.induct)
  case (2 most x e es inst)
  then show ?case
    by (auto simp: bind_Some_iff split: if_splits intro: run_event_step ptp_reachable.step)
qed simp

definition example_inputs :: inputs where
  "example_inputs = \<lparr>in_push_rat = (\<lambda>n xs y. xs @ [y]), in_push_sync = (\<lambda>n xs y. xs @ [y]),
     in_push_sequence = (\<lambda>n xs y. xs @ [y]), in_random = (\<lambda>a b. a), in_receive_time = ts_zero,
     in_adjust_time = ts_zero, in_process_time = ts_zero, in_sent_time = (\<lambda>_. ts_zero), in_stats_due = False\<rparr>"

definition example_interfaces :: interfaces where
  "example_interfaces a = Some (Some [2, 0, 0, 0, 0, 1])"

definition run_header :: "u16 \<Rightarrow> message_header" where
  "run_header seq = \<lparr>sdo_id = \<lparr>sdo_major = 0, sdo_minor = 0\<rparr>, message_type = Announce,
     version = \<lparr>version_major = 2, version_minor = 0\<rparr>, message_length = 64, domain_number = 0,
     flags = flags_from_octets 0 0, correction_field = 0,
     source_port_identity = \<lparr>pi_clock_identity = [1, 2, 3, 4, 5, 6, 7, 8], pi_port_number = 1\<rparr>,
     sequence_id = seq, log_message_interval = 1\<rparr>"

definition run_announce :: "byte \<Rightarrow> u16 \<Rightarrow> announce_message" where
  "run_announce priority seq = \<lparr>an_header = run_header seq, an_origin_timestamp = ts_zero, current_utc_offset = 37,
     grandmaster_priority1 = priority,
     grandmaster_clock_quality = \<lparr>clock_class = 6, clock_accuracy = 0x21, offset_scaled_log_variance = 0\<rparr>,
     grandmaster_priority2 = 128, grandmaster_identity = [1, 2, 3, 4, 5, 6, 7, 8], steps_removed = 0, time_source = 0x20\<rparr>"

definition run_entry :: "u64 \<Rightarrow> announce_message option \<Rightarrow> u64 \<Rightarrow> foreign_master" where
  "run_entry k m a = \<lparr>foreign_master_port_identity = \<lparr>pi_clock_identity = [1, 2, 3, 4, 5, 6, 7, 8], pi_port_number = 1\<rparr>,
     foreign_master_announce_messages = k, most_recent_announce_message = m, age = a\<rparr>"

definition run_port :: "u16 \<Rightarrow> state \<Rightarrow> foreign_master_list \<Rightarrow> announce_message option \<Rightarrow> port" where
  "run_port n s masters best =
     (new_port (0x0a000000 + ucast n) \<lparr>pi_clock_identity = [2, 0, 0, 0, 0, 1, 0x2f, 0xaa], pi_port_number = n\<rparr>)
       \<lparr>foreign_master_list := masters, erbest := best,
        port_ds := port_ds_init\<lparr>pd_port_identity := \<lparr>pi_clock_identity = [2, 0, 0, 0, 0, 1, 0x2f, 0xaa], pi_port_number = n\<rparr>,
          pd_delay_mechanism := E2e, pd_port_state := s\<rparr>\<rparr>"

definition run_state :: "u16 \<Rightarrow> announce_message option \<Rightarrow> port list \<Rightarrow> ptp_instance" where
  "run_state n parent ps =
     (let d = (default_ds_init True)\<lparr>dd_clock_identity := [2, 0, 0, 0, 0, 1, 0x2f, 0xaa], dd_number_ports := n\<rparr>;
          inst = instance_init\<lparr>i_default_ds := d, i_ports := ps, i_decision_timer := True\<rparr>
      in case parent of None \<Rightarrow> inst | Some m \<Rightarrow> snd (set_recommended_state S1 (Some m) inst))"

lemmas run_defs = run_header_def run_announce_def run_entry_def run_port_def run_state_def


lemma run_fields [simp]:
  "i_ports (run_state n parent ps) = ps"
  "i_default_ds (run_state n parent ps) = (default_ds_init True)\<lparr>dd_clock_identity := [2, 0, 0, 0, 0, 1, 0x2f, 0xaa], dd_number_ports := n\<rparr>"
  "i_ports_update f (run_state n parent ps) = run_state n parent (f ps)"
  "i_decision_timer (run_state n parent ps)"
  "i_decision_timer_update (\<lambda>_. True) (run_state n parent ps) = run_state n parent ps"
  by (simp_all add: run_state_def Let_def set_recommended_state_def instance_init_def split: option.split)

lemma run_port_fields [simp]:
  "state_of (run_port n s masters best) = s"
  "foreign_master_list (run_port n s masters best) = masters"
  "erbest (run_port n s masters best) = best"
  "identity_of (run_port n s masters best) = \<lparr>pi_clock_identity = [2, 0, 0, 0, 0, 1, 0x2f, 0xaa], pi_port_number = n\<rparr>"
  "foreign_master_list_update f (run_port n s masters best) = run_port n s (f masters) best"
  "erbest_update g (run_port n s masters best) = run_port n s masters (g best)"
  "announce_timer (run_port n s masters best)"
  "announce_timer_update (\<lambda>_. True) (run_port n s masters best) = run_port n s masters best"
  by (simp_all add: run_port_def new_port_def Let_def set_state_def set_interface_def
      schedule_announce_receipt_timeout_def port_ds_init_def)

lemma run_port_set_state [simp]:
  "t = Listening \<or> following t \<Longrightarrow> set_state t (run_port n s masters best) = run_port n t masters best"
  by (auto simp: set_state_def schedule_announce_receipt_timeout_def following_def)
    (auto simp: run_port_def new_port_def Let_def set_state_def set_interface_def
      schedule_announce_receipt_timeout_def port_ds_init_def)

lemma run_announce_fields [simp]:
  "an_header (run_announce p k) = run_header k"
  "source_port_identity (run_header k) = \<lparr>pi_clock_identity = [1, 2, 3, 4, 5, 6, 7, 8], pi_port_number = 1\<rparr>"
  "sequence_id (run_header k) = k"
  "steps_removed (run_announce p k) = 0"
  by (simp_all add: run_announce_def run_header_def)

lemma run_announce_ok [simp]: "announce_ok (run_announce p k)"
  by (simp add: announce_ok_def header_ok_def pi_ok_def ci_ok_def ts_on_wire_def ts_zero_def)
    (simp add: run_announce_def run_header_def ts_zero_def)

lemma run_processed [simp]: "should_process_ptp_messages (run_header k) (run_state n parent ps)"
  by (simp add: should_process_ptp_messages_def default_ds_init_def) (simp add: run_header_def flags_from_octets_def)

lemma run_code [simp]:
  "get_state_for_decision_code (run_state n parent ps) S1 = Uncalibrated"
  by (simp add: get_state_for_decision_code_def)
    (simp add: run_state_def Let_def set_recommended_state_def instance_init_def servo_init_def local_clock_init_def
      is_calibrated_def split: option.split)

lemma run_S1 [simp]:
  "snd (set_recommended_state S1 (Some m) (run_state n parent ps)) = run_state n (Some m) ps"
  by (simp add: run_state_def Let_def set_recommended_state_def instance_init_def split: option.split)

lemmas run_simps = handle_announce_eq announce_refused_def announce_recorded_def announce_foreign_def sender_def
  following_def add_or_update_entry_def update_port_def execute_state_decision_event_def determine_ebest_def Let_def
  calculate_erbest_def purge_entries_def run_entry_def apply_state_decision_algorithm_def
  k_foreign_master_threshold_def k_foreign_master_time_window_def

lemma run_add:
  "run_event x (Add_port example_interfaces 1 0x0a000001) instance_init = Some (run_state 1 None [run_port 1 Listening [] None])"
  "run_event x (Add_port example_interfaces 2 0x0a000002) (run_state 1 None [run_port 1 Listening [] None]) =
     Some (run_state 2 None [run_port 1 Listening [] None, run_port 2 Listening [] None])"
  by code_simp+

lemma run_datagram:
  assumes "ps \<noteq> []" and "state_of (hd ps) = Listening \<or> following (state_of (hd ps))"
  shows "run_event x (Datagram 0 (announce_packet (run_announce p k))) (run_state n parent ps) =
    handle_announce_message 0 (run_announce p k) (run_state n parent ps)"
proof -
  have "handle_recv_event x 0 (announce_packet (run_announce p k)) (run_state n parent ps) =
      map_option (\<lambda>inst'. Inr (inst', [])) (handle_announce_message 0 (run_announce p k) (run_state n parent ps))"
    by (rule receive_announce) (use assms in \<open>simp_all add: hd_conv_nth\<close>)
  then show ?thesis using assms(1)
    by (cases "handle_announce_message 0 (run_announce p k) (run_state n parent ps)") simp_all
qed

abbreviation two_ports :: "state \<Rightarrow> state \<Rightarrow> foreign_master_list \<Rightarrow> announce_message option \<Rightarrow> announce_message option \<Rightarrow> ptp_instance" where
  "two_ports s1 s2 masters best parent \<equiv> run_state 2 parent [run_port 1 s1 masters best, run_port 2 s2 [] None]"

lemma run_recommended:
  "calculate_recommended_state ((default_ds_init True)\<lparr>dd_clock_identity := [2, 0, 0, 0, 0, 1, 0x2f, 0xaa], dd_number_ports := n\<rparr>)
     (Some (cds_of_announce (run_announce 200 k) r)) p = Some M2"
  by (simp add: calculate_recommended_state_def cds_of_default_def cds_of_announce_def default_ds_init_def
      clock_quality_init_def cds_compare_def better_or_by_topology_def range_contains_def)
    (simp add: run_announce_def)

lemma run_newer: "wrapping_gt (3 :: u16) 2" "\<not> wrapping_lt (3 :: u16) 2" "\<not> wrapping_lt (2 :: u16) 1"
  by (simp_all add: wrapping_gt_def wrapping_le_def wrapping_lt_def is_older_than_def unat_uminus)

lemma run_slave_only [simp]: "dd_slave_only (default_ds_init b) = b"
  by (simp add: default_ds_init_def)

lemma two_ports_announces:
  "handle_announce_message 0 (run_announce 200 1) (two_ports Listening Listening [] None None) =
     Some (two_ports Listening Listening [run_entry 0 None 0] None None)"
  "handle_announce_message 0 (run_announce 200 2) (two_ports Listening Listening [run_entry 0 None 0] None None) =
     Some (two_ports Listening Listening [run_entry 1 (Some (run_announce 200 2)) 0] None None)"
  "handle_announce_message 0 (run_announce 200 3)
       (two_ports Listening Listening [run_entry 1 (Some (run_announce 200 2)) 0] None None) =
     Some (two_ports Uncalibrated Uncalibrated [run_entry 2 (Some (run_announce 200 3)) 0]
       (Some (run_announce 200 3)) (Some (run_announce 200 3)))"
  by (simp_all add: run_simps run_recommended run_newer)

lemma two_ports_decisions:
  assumes "m = run_announce 200 3"
  shows "state_decision_timer_expires (two_ports Uncalibrated Uncalibrated [run_entry 2 (Some m) 0] (Some m) (Some m)) =
     Some (two_ports Uncalibrated Uncalibrated [run_entry 2 (Some m) 1] (Some m) (Some m))"
  "state_decision_timer_expires (two_ports Uncalibrated Uncalibrated [run_entry 2 (Some m) 1] (Some m) (Some m)) =
     Some (two_ports Uncalibrated Uncalibrated [run_entry 2 (Some m) 2] (Some m) (Some m))"
  "state_decision_timer_expires (two_ports Uncalibrated Uncalibrated [run_entry 2 (Some m) 2] (Some m) (Some m)) =
     Some (two_ports Uncalibrated Uncalibrated [run_entry 1 (Some m) 3] (Some m) (Some m))"
  "announce_receipt_timeout_expires 0 (two_ports Uncalibrated Uncalibrated [run_entry 1 (Some m) 3] (Some m) (Some m)) =
     two_ports Listening Uncalibrated [run_entry 1 (Some m) 3] None (Some m)"
  "state_decision_timer_expires (two_ports Listening Uncalibrated [run_entry 1 (Some m) 3] None (Some m)) = None"
  unfolding assms
  by (simp_all add: run_simps run_recommended state_decision_timer_expires_def port_increase_age_def increase_age_def
      increase_age_entry_def announce_receipt_timeout_expires_def schedule_announce_receipt_timeout_def)

section \<open>Properties\<close>

lemma reachable_from_run: "run_events most x es instance_init = Some inst \<Longrightarrow> ptp_reachable most inst"
  by (erule run_events_reachable) (rule ptp_reachable.start)

definition run_masters :: "byte \<Rightarrow> event list" where
  "run_masters p = map (\<lambda>k. Datagram 0 (announce_packet (run_announce p k))) [1, 2, 3]"

definition two_port_run :: "event list" where
  "two_port_run = [Add_port example_interfaces 1 0x0a000001, Add_port example_interfaces 2 0x0a000002]
     @ run_masters 200 @ [Decision_timeout, Decision_timeout, Decision_timeout, Announce_timeout 0]"

lemma one_port_run:
  "run_events 1 example_inputs [Add_port example_interfaces 1 0x0a000001] instance_init =
     Some (run_state 1 None [run_port 1 Listening [] None])"
  by (simp add: run_add [simplified])

lemma one_port_announces:
  "handle_announce_message 0 (run_announce 200 1) (run_state 1 None [run_port 1 Listening [] None]) =
     Some (run_state 1 None [run_port 1 Listening [run_entry 0 None 0] None])"
  "handle_announce_message 0 (run_announce 200 2) (run_state 1 None [run_port 1 Listening [run_entry 0 None 0] None]) =
     Some (run_state 1 None [run_port 1 Listening [run_entry 1 (Some (run_announce 200 2)) 0] None])"
  "handle_announce_message 0 (run_announce 200 3)
       (run_state 1 None [run_port 1 Listening [run_entry 1 (Some (run_announce 200 2)) 0] None]) =
     Some (run_state 1 (Some (run_announce 200 3))
       [run_port 1 Uncalibrated [run_entry 2 (Some (run_announce 200 3)) 0] (Some (run_announce 200 3))])"
  by (simp_all add: run_simps run_recommended run_newer)

lemma one_port_follows:
  "run_events 1 example_inputs (Add_port example_interfaces 1 0x0a000001 # run_masters 200) instance_init =
     Some (run_state 1 (Some (run_announce 200 3))
       [run_port 1 Uncalibrated [run_entry 2 (Some (run_announce 200 3)) 0] (Some (run_announce 200 3))])"
  by (simp add: run_add [simplified] run_masters_def run_datagram one_port_announces del: run_event.simps(2))

lemma two_ports_run:
  "run_events 2 example_inputs two_port_run instance_init =
     Some (two_ports Listening Uncalibrated [run_entry 1 (Some (run_announce 200 3)) 3] None (Some (run_announce 200 3)))"
  by (simp add: two_port_run_def run_add [simplified] run_masters_def run_datagram two_ports_announces two_ports_decisions
      following_def del: run_event.simps(2))

text \<open>
  C29: in every state the instance can reach, by any events in any order, the two assertions at
  the head of \<open>calculate_erbest\<close> hold for every port (an \<open>erbest\<close> is in the foreign master list, and is its only
  entry's sender if there is one entry), the foreign master list is well formed, a port is listening or follows a
  master, so the slave-only instance is never a master, and the announce receipt timer runs.
\<close>

theorem instance_invariant:
  assumes "ptp_reachable most inst" and "i < length (i_ports inst)"
  shows "erbest_assertions (i_ports inst ! i) \<and> fm_ok (foreign_master_list (i_ports inst ! i)) \<and>
    state_of (i_ports inst ! i) \<in> {Listening, Uncalibrated, Slave} \<and> announce_timer (i_ports inst ! i) \<and>
    dd_slave_only (i_default_ds inst)"
proof -
  have "instance_ok inst" by (rule reachable_ok [OF assms(1)])
  then have "port_ok (i_ports inst ! i)" "slave_only (i_default_ds inst)"
    using assms(2) by (simp_all add: instance_ok_def)
  then show ?thesis using port_ok_assertions by (auto simp: port_ok_def following_def slave_only_def)
qed

theorem instance_invariant_witness:
  "erbest_assertions (run_port 1 Uncalibrated [run_entry 2 (Some (run_announce 200 3)) 0] (Some (run_announce 200 3)))"
  using instance_invariant [OF reachable_from_run [OF one_port_follows], of 0] by simp



text \<open>
  C30: with one port neither the state decision timer nor an Announce message ever
  dereferences an empty \<open>ebest\<close>: both always return.
\<close>

theorem single_port_decision_defined:
  assumes "ptp_reachable 1 inst" and "i < length (i_ports inst)"
  shows "(\<exists>inst'. state_decision_timer_expires inst = Some inst') \<and> (\<exists>inst'. handle_announce_message i m inst = Some inst')"
  using decision_timer_tracks [OF reachable_ok reachable_tracks reachable_most] handle_announce_tracks
    [OF reachable_ok reachable_tracks reachable_most assms(2)] assms(1) by blast

theorem single_port_decision_defined_witness:
  "\<exists>inst'. state_decision_timer_expires (run_state 1 None [run_port 1 Listening [] None]) = Some inst'"
  using single_port_decision_defined [OF reachable_from_run [OF one_port_run], of 0] by simp

text \<open>
  With two ports the state decision timer can dereference an empty \<open>ebest\<close>: both
  ports follow a master that only the first hears, the master falls silent, and the announce receipt timeout of the
  first port expires before the next decision.
\<close>

theorem two_port_decision_undefined:
  "\<exists>inst. ptp_reachable 2 inst \<and> run_events 2 example_inputs two_port_run instance_init = Some inst \<and>
     state_decision_timer_expires inst = None"
  using two_ports_run reachable_from_run [OF two_ports_run] two_ports_decisions(5) by blast



text \<open>
  A datagram that is not an Announce message, whatever its contents, leaves every
  port's identity, state, foreign master list, \<open>erbest\<close> and announce receipt timer, the default and parent data sets, the
  time properties and the steps removed as they were.
\<close>

theorem only_announce_decides:
  assumes "handle_recv_event x i d inst = Some (Inr (inst', outs))" and "header_from_data d = Some (Inr h)"
    and "message_type h \<noteq> Announce" and "i < length (i_ports inst)"
  shows "same_decision inst inst'"
proof -
  note run = assms(1) [unfolded handle_recv_event_def assms(2) Option.bind.simps sum.case Let_def]
  show ?thesis
  proof (cases "inst' = inst")
    case False
    then have "message_type h = Sync \<or> message_type h = Follow_up \<or> message_type h = Delay_resp"
      using run assms(3) by (cases "message_type h") (auto simp: with_message_Some split: if_splits)
    then show ?thesis
      using run assms(4) False handle_sync_same handle_follow_up_same handle_delay_resp_same
      by (elim disjE) (auto simp: with_message_Some split: if_splits)
  qed simp
qed

definition run_sync :: sync_message where
  "run_sync = \<lparr>sync_header = (run_header 9)\<lparr>message_type := Sync, message_length := 44, flags := flags_from_octets 2 0\<rparr>,
     sync_origin_timestamp = ts_zero, sync_receive_timestamp = ts_zero\<rparr>"

lemma run_sync_wire:
  "header_from_data (sync_write_to [] run_sync) = Some (Inr (sync_header run_sync))"
  "sync_from_data (sync_header run_sync) (drop k_header_size (sync_write_to [] run_sync)) = Some (Inr run_sync)"
proof -
  have "ts_on_wire (sync_origin_timestamp run_sync)" "header_ok (sync_header run_sync)"
    "message_length (sync_header run_sync) = 44" "run_sync\<lparr>sync_receive_timestamp := ts_zero\<rparr> = run_sync"
    by (simp_all add: run_sync_def header_ok_def run_header_def pi_ok_def ci_ok_def ts_on_wire_def ts_zero_def)
  with sync_roundtrip [of run_sync]
  show "header_from_data (sync_write_to [] run_sync) = Some (Inr (sync_header run_sync))"
    and "sync_from_data (sync_header run_sync) (drop k_header_size (sync_write_to [] run_sync)) = Some (Inr run_sync)"
    by (simp_all add: k_header_size_def)
qed

theorem only_announce_decides_witness:
  "\<exists>inst'. handle_recv_event example_inputs 0 (sync_write_to [] run_sync)
      (run_state 1 (Some (run_announce 200 3)) [run_port 1 Uncalibrated [] (Some (run_announce 200 3))]) = Some (Inr (inst', [])) \<and>
    sync_messages (i_ports inst' ! 0) = [run_sync] \<and>
    same_decision (run_state 1 (Some (run_announce 200 3)) [run_port 1 Uncalibrated [] (Some (run_announce 200 3))]) inst'"
proof -
  let ?inst = "run_state 1 (Some (run_announce 200 3)) [run_port 1 Uncalibrated [] (Some (run_announce 200 3))]"
  have fields: "pd_delay_mechanism (port_ds p) = E2e" "syncs_until_delay_req p = 10" "sync_messages p = []"
    "delay_sequences p = []" if "p = run_port 1 Uncalibrated [] (Some (run_announce 200 3))" for p
    by (simp_all add: that run_port_def new_port_def Let_def set_state_def set_interface_def
        schedule_announce_receipt_timeout_def)
  have parent: "parent_port_identity (i_parent_ds ?inst) = source_port_identity (sync_header run_sync)"
    by (simp add: run_state_def Let_def set_recommended_state_def run_sync_def)
  have m: "run_sync\<lparr>sync_receive_timestamp := ts_zero\<rparr> = run_sync" "two_step_flag (flags (sync_header run_sync))"
    and type: "message_type (sync_header run_sync) = Sync"
    by (simp_all add: run_sync_def flags_from_octets_def bit_iff_odd)
  define inst' where "inst' = update_port 0 (\<lambda>p. p\<lparr>syncs_until_delay_req := 9, sync_messages := [run_sync],
      delay_sequences := []\<rparr>) ?inst"
  have "handle_sync_message example_inputs 0 run_sync ?inst = Some (inst', [])"
    by (simp add: handle_sync_message_def Let_def example_inputs_def m following_def parent start_delay_sequence_def
        fields process_delay_sequences_def update_port_def inst'_def)
  moreover have "should_process_ptp_messages (sync_header run_sync) ?inst"
    by (simp add: should_process_ptp_messages_def default_ds_init_def)
      (simp add: run_sync_def run_header_def flags_from_octets_def)
  ultimately have r: "handle_recv_event example_inputs 0 (sync_write_to [] run_sync) ?inst = Some (Inr (inst', []))"
    by (simp add: handle_recv_event_def run_sync_wire Let_def with_message_def type)
  have s: "sync_messages (i_ports inst' ! 0) = [run_sync]" by (simp add: inst'_def)
  have "message_type (sync_header run_sync) \<noteq> Announce" by (simp add: type)
  from only_announce_decides [OF r run_sync_wire(1) this] r s show ?thesis by auto
qed

text \<open>The octets the parser of a message needs after the header.\<close>

definition least_body :: "message_type \<Rightarrow> nat" where
  "least_body t = (case t of Announce \<Rightarrow> 30 | Sync \<Rightarrow> 10 | Follow_up \<Rightarrow> 10 | Delay_resp \<Rightarrow> 20
     | P_delay_resp \<Rightarrow> 20 | P_delay_resp_follow_up \<Rightarrow> 20 | _ \<Rightarrow> 0)"

text \<open>
  A datagram with a good header for this instance whose body is shorter than its message
  type needs is not ignored: \<open>handle_recv_event\<close> logs the error and then takes the value of the failed result, which
  throws.
\<close>

theorem truncated_message_throws:
  assumes "header_from_data d = Some (Inr h)" and "should_process_ptp_messages h inst"
    and "state_of (i_ports inst ! i) = Listening \<or> following (state_of (i_ports inst ! i))"
    and "length d < k_header_size + least_body (message_type h)" and "k_header_size \<le> length d"
  shows "handle_recv_event x i d inst = Some (Inl Invalid_message_length)"
  using assms
  by (cases "message_type h")
    (auto simp: handle_recv_event_def least_body_def with_message_def following_def announce_from_data_def
      sync_from_data_def follow_up_from_data_def delay_resp_from_data_def pdelay_resp_from_data_def
      pdelay_resp_follow_up_from_data_def Let_def)

theorem truncated_message_throws_witness:
  "handle_recv_event example_inputs 0 (header_write_to [] ((run_header 1)\<lparr>message_length := 34\<rparr>))
     (run_state 1 None [run_port 1 Listening [] None]) = Some (Inl Invalid_message_length)"
proof (rule truncated_message_throws)
  have "header_ok ((run_header 1)\<lparr>message_length := 34\<rparr>)"
    by (simp add: header_ok_def run_header_def pi_ok_def ci_ok_def)
  then show "header_from_data (header_write_to [] ((run_header 1)\<lparr>message_length := 34\<rparr>)) =
      Some (Inr ((run_header 1)\<lparr>message_length := 34\<rparr>))"
    using header_roundtrip [of "(run_header 1)\<lparr>message_length := 34\<rparr>" "[]"] by simp
qed (simp_all add: should_process_ptp_messages_def default_ds_init_def run_header_def flags_from_octets_def
  length_header pi_ok_def ci_ok_def k_header_size_def least_body_def)

end
