(* ===== verification/String_Parser.thy ===== *)
theory String_Parser
  imports Prelude
begin

text \<open>
  \<open>StringParser\<close> (core/string_parser.hpp) and what parsers use of core/string.hpp, \<open>std::from_chars\<close>, \<open>std::stof\<close> and \<open>fmt\<close>.
  The state of a parser is the text that is left. Shown: numbers are read back as they are printed, and the
  reading functions split off what was put before a delimiter. The locale \<open>text_field\<close> states what a line of a text
  format promises.
\<close>

named_theorems parse_simps \<open>equations that run a parser over printed text\<close>

section \<open>Finding\<close>

fun find_char :: "char \<Rightarrow> string \<Rightarrow> nat option" where
  "find_char c [] = None"
| "find_char c (x # s) = (if x = c then Some 0 else map_option Suc (find_char c s))"

definition starts_with :: "string \<Rightarrow> string \<Rightarrow> bool" where
  "starts_with p s \<longleftrightarrow> take (length p) s = p"

fun find_string :: "string \<Rightarrow> string \<Rightarrow> nat option" where
  "find_string d [] = (if d = [] then Some 0 else None)"
| "find_string d (x # s) = (if starts_with d (x # s) then Some 0 else map_option Suc (find_string d s))"

section \<open>Reading\<close>

definition read_until_char :: "char \<Rightarrow> bool \<Rightarrow> string \<Rightarrow> string option \<times> string" where
  "read_until_char delimiter include_delimiter s =
     (if s = [] then (None, s)
      else case find_char delimiter s of
        None \<Rightarrow> (None, s)
      | Some pos \<Rightarrow> (Some (take (if include_delimiter then pos + 1 else pos) s), drop (pos + 1) s))"

definition read_until_string :: "string \<Rightarrow> bool \<Rightarrow> string \<Rightarrow> string option \<times> string" where
  "read_until_string delimiter include_delimiter s =
     (if s = [] then (None, s)
      else case find_string delimiter s of
        None \<Rightarrow> (None, s)
      | Some pos \<Rightarrow>
          (Some (take (if include_delimiter then pos + length delimiter else pos) s), drop (pos + length delimiter) s))"

definition split_char :: "char \<Rightarrow> bool \<Rightarrow> string \<Rightarrow> string option \<times> string" where
  "split_char delimiter include_delimiter s =
     (if s = [] then (None, s)
      else case find_char delimiter s of
        None \<Rightarrow> (Some s, [])
      | Some pos \<Rightarrow> (Some (take (if include_delimiter then pos + 1 else pos) s), drop (pos + 1) s))"

definition split_string :: "string \<Rightarrow> bool \<Rightarrow> string \<Rightarrow> string option \<times> string" where
  "split_string delimiter include_delimiter s =
     (if s = [] then (None, s)
      else case find_string delimiter s of
        None \<Rightarrow> (Some s, [])
      | Some pos \<Rightarrow>
          (Some (take (if include_delimiter then pos + length delimiter else pos) s), drop (pos + length delimiter) s))"

abbreviation newline :: char where "newline \<equiv> CHR 0x0A"
abbreviation carriage_return :: char where "carriage_return \<equiv> CHR 0x0D"

definition remove_cr :: "string \<Rightarrow> string" where
  "remove_cr s = (if s \<noteq> [] \<and> last s = carriage_return then butlast s else s)"

definition read_until_newline :: "string \<Rightarrow> string option \<times> string" where
  "read_until_newline s =
     (if s = [] then (None, s)
      else case find_char newline s of
        None \<Rightarrow> (None, s)
      | Some pos \<Rightarrow> (Some (remove_cr (take pos s)), drop (pos + 1) s))"

definition read_line :: "string \<Rightarrow> string option \<times> string" where
  "read_line s =
     (case read_until_newline s of
        (Some line, s') \<Rightarrow> (Some line, s')
      | (None, s') \<Rightarrow> if s' = [] then (None, s') else (Some s', []))"

definition read_until_end :: "string \<Rightarrow> string option \<times> string" where
  "read_until_end s = (if s = [] then (None, s) else (Some s, []))"

definition skip_string :: "string \<Rightarrow> string \<Rightarrow> bool \<times> string" where
  "skip_string p s = (if starts_with p s then (True, drop (length p) s) else (False, s))"

definition skip_char :: "char \<Rightarrow> string \<Rightarrow> bool \<times> string" where
  "skip_char c s = (if s \<noteq> [] \<and> hd s = c then (True, drop 1 s) else (False, s))"

definition skip_n :: "char \<Rightarrow> nat \<Rightarrow> string \<Rightarrow> nat \<times> string" where
  "skip_n c n s = (let i = length (takeWhile (\<lambda>x. x = c) (take n s)) in (i, drop i s))"

section \<open>Integers\<close>

definition is_digit :: "char \<Rightarrow> bool" where
  "is_digit c \<longleftrightarrow> 48 \<le> (of_char c :: nat) \<and> of_char c \<le> (57 :: nat)"

definition digit_value :: "char \<Rightarrow> nat" where
  "digit_value c = of_char c - 48"

definition number_of_digits :: "string \<Rightarrow> nat" where
  "number_of_digits ds = foldl (\<lambda>n d. n * 10 + digit_value d) 0 ds"

text \<open>
  \<open>std::from_chars\<close> in base 10 into an integer type with the range from \<open>lo\<close> to \<open>hi\<close>: the value and what follows it, or
  \<open>None\<close> when there is no digit or the value does not fit.
\<close>

definition from_chars :: "int \<Rightarrow> int \<Rightarrow> string \<Rightarrow> (int \<times> string) option" where
  "from_chars lo hi s =
     (let neg = lo < 0 \<and> s \<noteq> [] \<and> hd s = CHR ''-'';
          t = (if neg then tl s else s);
          ds = takeWhile is_digit t;
          v = (if neg then - int (number_of_digits ds) else int (number_of_digits ds))
      in if ds = [] then None else if lo \<le> v \<and> v \<le> hi then Some (v, dropWhile is_digit t) else None)"

definition k_max_leading_spaces :: nat where "k_max_leading_spaces = 100000"

definition read_int :: "int \<Rightarrow> int \<Rightarrow> string \<Rightarrow> int option \<times> string" where
  "read_int lo hi s =
     (let t = snd (skip_n (CHR '' '') k_max_leading_spaces s)
      in case from_chars lo hi t of Some (v, rest) \<Rightarrow> (Some v, rest) | None \<Rightarrow> (None, t))"

text \<open>\<open>read_int<T>\<close> at an unsigned and at a signed type.\<close>

definition read_unsigned :: "string \<Rightarrow> 'a::len word option \<times> string" where
  "read_unsigned s = apfst (map_option of_int) (read_int 0 (2 ^ LENGTH('a) - 1) s)"

definition read_signed :: "string \<Rightarrow> 'a::len word option \<times> string" where
  "read_signed s = apfst (map_option of_int) (read_int (- (2 ^ (LENGTH('a) - 1))) (2 ^ (LENGTH('a) - 1) - 1) s)"

text \<open>\<open>string_to_int\<close> in base 10.\<close>

definition string_to_unsigned :: "bool \<Rightarrow> string \<Rightarrow> 'a::len word option" where
  "string_to_unsigned strict s =
     (case from_chars 0 (2 ^ LENGTH('a) - 1) s of
        Some (v, rest) \<Rightarrow> if strict \<and> rest \<noteq> [] then None else Some (of_int v) | None \<Rightarrow> None)"

definition string_to_signed :: "bool \<Rightarrow> string \<Rightarrow> 'a::len word option" where
  "string_to_signed strict s =
     (case from_chars (- (2 ^ (LENGTH('a) - 1))) (2 ^ (LENGTH('a) - 1) - 1) s of
        Some (v, rest) \<Rightarrow> if strict \<and> rest \<noteq> [] then None else Some (of_int v) | None \<Rightarrow> None)"

text \<open>How \<open>fmt\<close> and \<open>std::to_string\<close> print integers.\<close>

fun show_nat :: "nat \<Rightarrow> string" where
  "show_nat n = (if n < 10 then [char_of (48 + n)] else show_nat (n div 10) @ [char_of (48 + n mod 10)])"

definition show_int :: "int \<Rightarrow> string" where
  "show_int i = (if i < 0 then CHR ''-'' # show_nat (nat (- i)) else show_nat (nat i))"

definition show_unsigned :: "'a::len word \<Rightarrow> string" where
  "show_unsigned w = show_nat (unat w)"

definition show_signed :: "'a::len word \<Rightarrow> string" where
  "show_signed w = show_int (sint w)"

declare show_nat.simps [simp del]

section \<open>Results of reading\<close>

text \<open>\<open>if (const auto v = parser.read()) { ... } else return unexpected(e)\<close>, and the same for a \<open>skip\<close>.\<close>

fun try_read :: "'a option \<times> string \<Rightarrow> 'e \<Rightarrow> ('a \<Rightarrow> string \<Rightarrow> 'e + 'b) \<Rightarrow> 'e + 'b" where
  "try_read (Some v, s) e f = f v s"
| "try_read (None, s) e f = Inl e"

fun try_skip :: "bool \<times> string \<Rightarrow> 'e \<Rightarrow> (string \<Rightarrow> 'e + 'b) \<Rightarrow> 'e + 'b" where
  "try_skip (True, s) e f = f s"
| "try_skip (False, s) e f = Inl e"

text \<open>\<open>if (!condition) return unexpected(e)\<close>.\<close>

definition check_that :: "bool \<Rightarrow> 'e \<Rightarrow> 'e + 'b \<Rightarrow> 'e + 'b" where
  "check_that condition e f = (if condition then f else Inl e)"

lemma check_that_simps [simp]: "check_that True e f = f" "check_that False e f = Inl e"
  by (simp_all add: check_that_def)

section \<open>Lemmas on finding\<close>

lemma find_char_None: "find_char c s = None \<longleftrightarrow> c \<notin> set s"
  by (induction s) auto

lemma find_char_append: "c \<notin> set s \<Longrightarrow> find_char c (s @ c # t) = Some (length s)"
  by (induction s) auto

lemma find_string_char: "find_string [c] s = find_char c s"
  by (induction s) (auto simp: starts_with_def)

lemma split_string_char: "split_string [c] = split_char c"
  by (intro ext) (auto simp: split_string_def split_char_def find_string_char split: option.splits)

lemma starts_with_append [parse_simps]: "starts_with p (p @ s)"
  by (simp add: starts_with_def)

lemma split_char_here [parse_simps]: "c \<notin> set s \<Longrightarrow> split_char c False (s @ c # t) = (Some s, t)"
  by (simp add: split_char_def find_char_append)

lemma split_char_last [parse_simps]: "c \<notin> set s \<Longrightarrow> s \<noteq> [] \<Longrightarrow> split_char c False s = (Some s, [])"
  using find_char_None [of c s] by (simp add: split_char_def)

lemma split_char_empty [parse_simps]: "split_char c i [] = (None, [])"
  by (simp add: split_char_def)

lemma read_until_char_here [parse_simps]: "c \<notin> set s \<Longrightarrow> read_until_char c False (s @ c # t) = (Some s, t)"
  by (simp add: read_until_char_def find_char_append)

lemma skip_string_here [parse_simps]: "skip_string p (p @ s) = (True, s)"
  by (simp add: skip_string_def starts_with_append)

lemma skip_char_here [parse_simps]: "skip_char c (c # s) = (True, s)"
  by (simp add: skip_char_def)

lemma skip_char_other [parse_simps]: "x \<noteq> c \<Longrightarrow> skip_char c (x # s) = (False, x # s)"
  by (simp add: skip_char_def)

lemma skip_char_empty [parse_simps]: "skip_char c [] = (False, [])"
  by (simp add: skip_char_def)

lemma read_until_end_rest [parse_simps]: "read_until_end s = (if s = [] then None else Some s, [])"
  by (simp add: read_until_end_def)

lemma read_line_lf: "newline \<notin> set s \<Longrightarrow> read_line (s @ newline # t) = (Some (remove_cr s), t)"
  by (simp add: read_line_def read_until_newline_def find_char_append)

lemma read_line_crlf: "newline \<notin> set s \<Longrightarrow> read_line (s @ carriage_return # newline # t) = (Some s, t)"
  using read_line_lf [of "s @ [carriage_return]" t] by (simp add: remove_cr_def)

lemma read_line_empty: "read_line [] = (None, [])"
  by (simp add: read_line_def read_until_newline_def)

lemma find_char_less: "find_char c s = Some n \<Longrightarrow> n < length s"
  by (induction s arbitrary: n) (auto split: if_splits)

text \<open>Reading a line takes text away, so a loop over lines ends.\<close>

lemma read_line_shrinks: "read_line s = (Some l, t) \<Longrightarrow> length t < length s"
  by (auto simp: read_line_def read_until_newline_def split: option.splits prod.splits if_splits dest: find_char_less)

lemma split_char_shrinks: "split_char c i s = (Some l, t) \<Longrightarrow> length t < length s"
  by (auto simp: split_char_def split: option.splits if_splits dest: find_char_less)

section \<open>Lemmas on numbers\<close>

lemma digit_of: "n < 10 \<Longrightarrow> is_digit (char_of (48 + n)) \<and> digit_value (char_of (48 + n)) = n"
  by (simp add: is_digit_def digit_value_def)

lemma show_nat_not_empty: "show_nat n \<noteq> []"
  by (subst show_nat.simps) simp

lemma show_nat_digits: "c \<in> set (show_nat n) \<Longrightarrow> is_digit c"
proof (induction n rule: show_nat.induct)
  case (1 n)
  then show ?case by (subst (asm) (2) show_nat.simps) (auto split: if_splits simp: digit_of)
qed

lemma number_show_nat: "number_of_digits (show_nat n) = n"
proof (induction n rule: show_nat.induct)
  case (1 n)
  then show ?case
    by (subst show_nat.simps) (auto simp: number_of_digits_def digit_of)
qed

definition no_digit :: "string \<Rightarrow> bool" where
  "no_digit t \<longleftrightarrow> t = [] \<or> \<not> is_digit (hd t)"

lemma no_digit_simps [parse_simps]: "no_digit []" "no_digit (c # t) \<longleftrightarrow> \<not> is_digit c"
  by (simp_all add: no_digit_def)

lemma split_digits:
  assumes "no_digit t"
  shows "takeWhile is_digit (show_nat n @ t) = show_nat n" and "dropWhile is_digit (show_nat n @ t) = t"
proof -
  have "\<And>c. c \<in> set (show_nat n) \<Longrightarrow> is_digit c" by (rule show_nat_digits)
  moreover have "takeWhile is_digit t = []" "dropWhile is_digit t = t" using assms by (cases t; simp add: no_digit_def)+
  ultimately show "takeWhile is_digit (show_nat n @ t) = show_nat n" "dropWhile is_digit (show_nat n @ t) = t"
    by simp_all
qed

lemma show_nat_head: "is_digit (hd (show_nat n))"
  using show_nat_digits [of "hd (show_nat n)" n] show_nat_not_empty [of n] by simp

lemma digit_no_minus: "is_digit c \<Longrightarrow> c \<noteq> CHR ''-'' \<and> c \<noteq> CHR '' ''"
  by (auto simp: is_digit_def)

lemma hd_show_nat_append: "hd (show_nat n @ t) \<noteq> CHR ''-''" "hd (show_nat n @ t) \<noteq> CHR '' ''"
  using digit_no_minus [OF show_nat_head [of n]] show_nat_not_empty [of n] by simp_all

lemma from_chars_show_int:
  assumes "lo \<le> i" and "i \<le> hi" and "lo < 0 \<or> 0 \<le> i" and "no_digit t"
  shows "from_chars lo hi (show_int i @ t) = Some (i, t)"
proof (cases "i < 0")
  case True
  then show ?thesis using assms
    by (simp add: from_chars_def show_int_def split_digits [OF assms(4)] show_nat_not_empty number_show_nat Let_def)
next
  case False
  then show ?thesis using assms hd_show_nat_append [of "nat i" t]
    by (simp add: from_chars_def show_int_def split_digits [OF assms(4)] show_nat_not_empty number_show_nat Let_def)
qed

lemma show_int_head: "show_int i \<noteq> []" "hd (show_int i @ t) \<noteq> CHR '' ''"
  using hd_show_nat_append [of "nat i" t] by (auto simp: show_int_def show_nat_not_empty)

lemma skip_n_none: "s = [] \<or> hd s \<noteq> c \<Longrightarrow> skip_n c n s = (0, s)"
  by (cases s; cases n) (auto simp: skip_n_def)

lemma read_int_show:
  assumes "lo \<le> i" and "i \<le> hi" and "lo < 0 \<or> 0 \<le> i" and "no_digit t"
  shows "read_int lo hi (show_int i @ t) = (Some i, t)"
  using skip_n_none [of "show_int i @ t" "CHR '' ''" k_max_leading_spaces] show_int_head(1) [of i] show_int_head(2) [of i t]
  by (simp add: read_int_def from_chars_show_int [OF assms])

lemma show_unsigned_int: "show_unsigned w = show_int (uint w)"
  by (simp add: show_unsigned_def show_int_def)

lemma uint_in_range: "0 \<le> uint (w :: 'a::len word)" "uint w \<le> 2 ^ LENGTH('a) - 1"
  using uint_bounded [of w] by simp_all

lemma read_unsigned_show [parse_simps]: "no_digit t \<Longrightarrow> read_unsigned (show_unsigned w @ t) = (Some w, t)"
  using uint_in_range [of w] by (simp add: read_unsigned_def show_unsigned_int read_int_show)

lemma sint_in_range: "- (2 ^ (LENGTH('a) - 1)) \<le> sint (w :: 'a::len word)" "sint w \<le> 2 ^ (LENGTH('a) - 1) - 1"
  using sint_ge [of w] sint_lt [of w] by simp_all

lemma read_signed_show [parse_simps]: "no_digit t \<Longrightarrow> read_signed (show_signed w @ t) = (Some w, t)"
  using sint_in_range [of w] by (simp add: read_signed_def show_signed_def read_int_show)

lemma string_to_unsigned_show [parse_simps]: "string_to_unsigned strict (show_unsigned w) = Some w"
  using uint_in_range [of w] from_chars_show_int [of 0 "uint w" "2 ^ LENGTH('a) - 1" "[]"]
  by (simp add: string_to_unsigned_def show_unsigned_int no_digit_simps)

lemma string_to_signed_show [parse_simps]: "string_to_signed strict (show_signed (w :: 'a::len word)) = Some w"
  using sint_in_range [of w] from_chars_show_int [of "- (2 ^ (LENGTH('a) - 1))" "sint w" "2 ^ (LENGTH('a) - 1) - 1" "[]"]
  by (simp add: string_to_signed_def show_signed_def no_digit_simps)

end
