(* ===== verification/Sdp_Types.thy ===== *)
theory Sdp_Types
  imports String_Parser
begin

text \<open>
  The types the SDP fields share (sdp/detail/sdp_types.hpp, sdp_types.cpp, sdp_constants.hpp), their names in the text, and the
  source filter, which the RTP filter uses too.
\<close>

definition k_sdp_ptime :: string where "k_sdp_ptime = ''ptime''"
definition k_sdp_max_ptime :: string where "k_sdp_max_ptime = ''maxptime''"
definition k_sdp_rtp_map :: string where "k_sdp_rtp_map = ''rtpmap''"
definition k_sdp_sendrecv :: string where "k_sdp_sendrecv = ''sendrecv''"
definition k_sdp_sendonly :: string where "k_sdp_sendonly = ''sendonly''"
definition k_sdp_recvonly :: string where "k_sdp_recvonly = ''recvonly''"
definition k_sdp_inactive :: string where "k_sdp_inactive = ''recvonly''"
definition k_sdp_ts_refclk :: string where "k_sdp_ts_refclk = ''ts-refclk''"
definition k_sdp_sync_time :: string where "k_sdp_sync_time = ''sync-time''"
definition k_sdp_group :: string where "k_sdp_group = ''group''"
definition k_sdp_clock_deviation :: string where "k_sdp_clock_deviation = ''clock-deviation''"
definition k_sdp_mid :: string where "k_sdp_mid = ''mid''"
definition k_sdp_inet :: string where "k_sdp_inet = ''IN''"
definition k_sdp_ipv4 :: string where "k_sdp_ipv4 = ''IP4''"
definition k_sdp_ipv6 :: string where "k_sdp_ipv6 = ''IP6''"
definition k_sdp_wildcard :: string where "k_sdp_wildcard = ''*''"
definition k_sdp_crlf :: string where "k_sdp_crlf = [carriage_return, newline]"

lemmas sdp_constants = k_sdp_ptime_def k_sdp_max_ptime_def k_sdp_rtp_map_def k_sdp_sendrecv_def k_sdp_sendonly_def k_sdp_recvonly_def
  k_sdp_inactive_def k_sdp_ts_refclk_def k_sdp_sync_time_def k_sdp_group_def k_sdp_clock_deviation_def k_sdp_mid_def k_sdp_inet_def
  k_sdp_ipv4_def k_sdp_ipv6_def k_sdp_wildcard_def

datatype netw_type = Netw_undefined | Netw_internet

datatype addr_type = Addr_undefined | Addr_ipv4 | Addr_ipv6 | Addr_both

datatype media_direction = Sendrecv | Sendonly | Recvonly | Inactive

datatype filter_mode = Filter_undefined | Filter_exclude | Filter_include

fun show_netw_type :: "netw_type \<Rightarrow> string" where
  "show_netw_type Netw_internet = k_sdp_inet"
| "show_netw_type Netw_undefined = ''undefined''"

fun show_addr_type :: "addr_type \<Rightarrow> string" where
  "show_addr_type Addr_ipv4 = k_sdp_ipv4"
| "show_addr_type Addr_ipv6 = k_sdp_ipv6"
| "show_addr_type Addr_both = k_sdp_wildcard"
| "show_addr_type Addr_undefined = ''undefined''"

fun show_media_direction :: "media_direction \<Rightarrow> string" where
  "show_media_direction Sendrecv = k_sdp_sendrecv"
| "show_media_direction Sendonly = k_sdp_sendonly"
| "show_media_direction Recvonly = k_sdp_recvonly"
| "show_media_direction Inactive = k_sdp_inactive"

fun show_filter_mode :: "filter_mode \<Rightarrow> string" where
  "show_filter_mode Filter_exclude = ''excl''"
| "show_filter_mode Filter_include = ''incl''"
| "show_filter_mode Filter_undefined = ''undefined''"

record source_filter =
  sf_mode :: filter_mode
  sf_net_type :: netw_type
  sf_addr_type :: addr_type
  sf_dest_address :: string
  sf_src_list :: "string list"

definition source_filter_init :: source_filter where
  "source_filter_init = \<lparr>sf_mode = Filter_undefined, sf_net_type = Netw_undefined, sf_addr_type = Addr_undefined,
     sf_dest_address = [], sf_src_list = []\<rparr>"

end
