(* ===== verification/Rtp_Packet.thy ===== *)
theory Rtp_Packet
  imports Byte_Order Wrapping Sdp_Types
begin

text \<open>
  RTP packets: rtp/rtp_packet.hpp and rtp_packet.cpp (encoding), rtp/rtp_packet_view.cpp (reading), and
  the filter and session that decide which packets a stream takes (rtp/detail/rtp_filter.hpp, rtp_session.hpp).
  A view is a pointer and a size: \<open>None\<close> is the null pointer. Reading outside the packet is \<open>None\<close>. Shown: what
  is encoded is read back, exactly which datagrams \<open>validate\<close> reads out of bounds, that every accessor
  stays inside a validated packet, and what the filter accepts.
\<close>

unbundle bit_operations_syntax

section \<open>Encoding\<close>

record rtp_packet =
  rp_payload_type :: byte
  rp_sequence_number :: u16
  rp_timestamp :: u32
  rp_ssrc :: u32

definition rtp_packet_init :: rtp_packet where
  "rtp_packet_init = \<lparr>rp_payload_type = 0, rp_sequence_number = 0, rp_timestamp = 0, rp_ssrc = 0\<rparr>"

definition set_payload_type :: "byte \<Rightarrow> rtp_packet \<Rightarrow> rtp_packet" where
  "set_payload_type v p = p\<lparr>rp_payload_type := v\<rparr>"

definition set_sequence_number :: "u16 \<Rightarrow> rtp_packet \<Rightarrow> rtp_packet" where
  "set_sequence_number v p = p\<lparr>rp_sequence_number := v\<rparr>"

definition sequence_number_inc :: "u16 \<Rightarrow> rtp_packet \<Rightarrow> u16 \<times> rtp_packet" where
  "sequence_number_inc v p =
     (let n = wrapping_add (rp_sequence_number p) v in (n, p\<lparr>rp_sequence_number := n\<rparr>))"

definition set_timestamp :: "u32 \<Rightarrow> rtp_packet \<Rightarrow> rtp_packet" where
  "set_timestamp v p = p\<lparr>rp_timestamp := v\<rparr>"

definition inc_timestamp :: "u32 \<Rightarrow> rtp_packet \<Rightarrow> u32 \<times> rtp_packet" where
  "inc_timestamp v p = (let n = wrapping_add (rp_timestamp p) v in (n, p\<lparr>rp_timestamp := n\<rparr>))"

definition set_ssrc :: "u32 \<Rightarrow> rtp_packet \<Rightarrow> rtp_packet" where
  "set_ssrc v p = p\<lparr>rp_ssrc := v\<rparr>"

definition rtp_encode :: "rtp_packet \<Rightarrow> byte list \<Rightarrow> byte list \<Rightarrow> byte list" where
  "rtp_encode p payload buf =
     buf @ enc_be (0x80 :: byte) @ enc_be (rp_payload_type p AND 0x7F) @ enc_be (rp_sequence_number p)
     @ enc_be (rp_timestamp p) @ enc_be (rp_ssrc p) @ payload"

section \<open>Reading\<close>

type_synonym view = "byte list option"

definition view_bytes :: "view \<Rightarrow> byte list" where
  "view_bytes v = (case v of None \<Rightarrow> [] | Some d \<Rightarrow> d)"

abbreviation view_size :: "view \<Rightarrow> nat" where
  "view_size v \<equiv> length (view_bytes v)"

definition rtp_base_length :: nat where "rtp_base_length = 12"
definition header_extension_length :: nat where "header_extension_length = 4"

text \<open>Octet 1 is read although only one octet is required.\<close>

definition rtp_marker_bit :: "view \<Rightarrow> bool option" where
  "rtp_marker_bit v =
     (if view_size v < 1 then Some False
      else do { b \<leftarrow> read_at (view_bytes v) 1; Some (drop_bit 7 (b AND 0x80) \<noteq> 0) })"

definition rtp_payload_type :: "view \<Rightarrow> byte option" where
  "rtp_payload_type v =
     (if view_size v < 1 then Some 0 else do { b \<leftarrow> read_at (view_bytes v) 1; Some (b AND 0x7F) })"

definition rtp_sequence_number :: "view \<Rightarrow> u16 option" where
  "rtp_sequence_number v = (if view_size v < 2 + 2 then Some 0 else read_be (view_bytes v) 2)"

definition rtp_timestamp :: "view \<Rightarrow> u32 option" where
  "rtp_timestamp v = (if view_size v < 4 + 4 then Some 0 else read_be (view_bytes v) 4)"

definition rtp_ssrc :: "view \<Rightarrow> u32 option" where
  "rtp_ssrc v = (if view_size v < 8 + 4 then Some 0 else read_be (view_bytes v) 8)"

definition rtp_version :: "view \<Rightarrow> byte" where
  "rtp_version v = (if view_size v < 1 then 0 else drop_bit 6 (view_bytes v ! 0 AND 0xC0))"

definition rtp_padding :: "view \<Rightarrow> bool" where
  "rtp_padding v = (if view_size v < 1 then False else drop_bit 5 (view_bytes v ! 0 AND 0x20) \<noteq> 0)"

definition rtp_extension :: "view \<Rightarrow> bool" where
  "rtp_extension v = (if view_size v < 1 then False else drop_bit 4 (view_bytes v ! 0 AND 0x10) \<noteq> 0)"

definition rtp_csrc_count :: "view \<Rightarrow> nat" where
  "rtp_csrc_count v = (if view_size v < 1 then 0 else unat (view_bytes v ! 0 AND 0x0F))"

definition rtp_csrc :: "view \<Rightarrow> nat \<Rightarrow> u32 option" where
  "rtp_csrc v i = (if i \<ge> rtp_csrc_count v then Some 0 else read_be (view_bytes v) (rtp_base_length + i * 4))"

definition header_extension_start :: "view \<Rightarrow> nat" where
  "header_extension_start v = rtp_base_length + rtp_csrc_count v * 4"

text \<open>\<open>memcpy\<close> into a \<open>uint16_t\<close>: the machine's byte order.\<close>

definition get_header_extension_defined_by_profile :: "view \<Rightarrow> u16 option" where
  "get_header_extension_defined_by_profile v =
     (if \<not> rtp_extension v then Some 0 else read_ne (view_bytes v) (header_extension_start v))"

text \<open>A \<open>BufferView\<close> into the packet is its offset and size; building it reads nothing.\<close>

definition get_header_extension_data :: "view \<Rightarrow> (nat \<times> nat) option" where
  "get_header_extension_data v =
     (if \<not> rtp_extension v then Some (0, 0)
      else do {
        words \<leftarrow> read_be (view_bytes v) (header_extension_start v + 2);
        Some (header_extension_start v + header_extension_length, unat (words :: u16) * 4) })"

definition header_total_length :: "view \<Rightarrow> nat option" where
  "header_total_length v = do {
     ext \<leftarrow> (if rtp_extension v
             then do { (off, n) \<leftarrow> get_header_extension_data v; Some (header_extension_length + n) }
             else Some 0);
     Some (rtp_base_length + rtp_csrc_count v * 4 + ext) }"

definition rtp_validate :: "view \<Rightarrow> bool option" where
  "rtp_validate v =
     (if v = None then Some False
      else if view_size v < rtp_base_length then Some False
      else do {
        n \<leftarrow> header_total_length v;
        Some (if view_size v < n then False else if rtp_version v \<noteq> 2 then False else True) })"

definition rtp_payload_data :: "view \<Rightarrow> (nat \<times> nat) option" where
  "rtp_payload_data v =
     (if v = None then Some (0, 0)
      else do {
        n \<leftarrow> header_total_length v;
        Some (if view_size v < n then (0, 0) else (n, view_size v - n)) })"

definition payload_bytes :: "view \<Rightarrow> nat \<times> nat \<Rightarrow> byte list" where
  "payload_bytes v p = take (snd p) (drop (fst p) (view_bytes v))"

section \<open>Sessions and filters\<close>

text \<open>Addresses are compared only, apart from the tests \<open>is_unspecified\<close> and \<open>is_multicast\<close>.\<close>

datatype address = V4 u32 | V6 "byte list"

definition address_unspecified :: "address \<Rightarrow> bool" where
  "address_unspecified a = (case a of V4 n \<Rightarrow> n = 0 | V6 bs \<Rightarrow> list_all (\<lambda>b. b = 0) bs)"

definition address_multicast :: "address \<Rightarrow> bool" where
  "address_multicast a = (case a of V4 n \<Rightarrow> n AND 0xF0000000 = 0xE0000000 | V6 bs \<Rightarrow> bs \<noteq> [] \<and> hd bs = 0xFF)"

record session =
  connection_address :: address
  rtp_port :: u16
  rtcp_port :: u16

definition session_init :: session where
  "session_init = \<lparr>connection_address = V4 0, rtp_port = 0, rtcp_port = 0\<rparr>"

definition session_valid :: "session \<Rightarrow> bool" where
  "session_valid s \<longleftrightarrow> \<not> address_unspecified (connection_address s) \<and> rtp_port s \<noteq> 0 \<and> rtcp_port s \<noteq> 0"

record filter_entry =
  fe_mode :: filter_mode
  fe_address :: address

record rtp_filter =
  rf_connection_address :: address
  rf_filters :: "filter_entry list"

definition rtp_filter_init :: rtp_filter where
  "rtp_filter_init = \<lparr>rf_connection_address = V4 0, rf_filters = []\<rparr>"

definition add_filter :: "address \<Rightarrow> filter_mode \<Rightarrow> rtp_filter \<Rightarrow> rtp_filter" where
  "add_filter a m f = f\<lparr>rf_filters := rf_filters f @ [\<lparr>fe_mode = m, fe_address = a\<rparr>]\<rparr>"

text \<open>\<open>make_address\<close> is Boost's; it throws (\<open>None\<close>) for a string that is no address.\<close>

fun add_sources :: "(string \<Rightarrow> address option) \<Rightarrow> filter_mode \<Rightarrow> string list \<Rightarrow> rtp_filter \<Rightarrow> rtp_filter option" where
  "add_sources make_address m [] f = Some f"
| "add_sources make_address m (s # ss) f = do { a \<leftarrow> make_address s; add_sources make_address m ss (add_filter a m f) }"

definition add_source_filter :: "(string \<Rightarrow> address option) \<Rightarrow> source_filter \<Rightarrow> rtp_filter \<Rightarrow> (nat \<times> rtp_filter) option" where
  "add_source_filter make_address s f = do {
     dest \<leftarrow> make_address (sf_dest_address s);
     if dest \<noteq> rf_connection_address f then Some (0, f)
     else do { f' \<leftarrow> add_sources make_address (sf_mode s) (sf_src_list s) f; Some (length (sf_src_list s), f') } }"

fun add_source_filters :: "(string \<Rightarrow> address option) \<Rightarrow> source_filter list \<Rightarrow> rtp_filter \<Rightarrow> (nat \<times> rtp_filter) option" where
  "add_source_filters make_address [] f = Some (0, f)"
| "add_source_filters make_address (s # ss) f = do {
     (n, f') \<leftarrow> add_source_filter make_address s f;
     (k, f'') \<leftarrow> add_source_filters make_address ss f';
     Some (n + k, f'') }"

fun scan_filters :: "address \<Rightarrow> filter_entry list \<Rightarrow> bool \<Rightarrow> bool \<Rightarrow> bool" where
  "scan_filters src [] included has_include = (if has_include then included else True)"
| "scan_filters src (e # es) included has_include =
     (if fe_mode e = Filter_exclude \<and> fe_address e = src then False
      else if fe_mode e = Filter_include
        then scan_filters src es (if fe_address e = src then True else included) True
        else scan_filters src es included has_include)"

definition is_valid_source :: "rtp_filter \<Rightarrow> address \<Rightarrow> address \<Rightarrow> bool" where
  "is_valid_source f connection src =
     (if rf_connection_address f \<noteq> connection then False
      else if rf_filters f = [] then True
      else scan_filters src (rf_filters f) False False)"

section \<open>Lemmas\<close>

lemma view_bytes_Some [simp]: "view_bytes (Some d) = d"
  by (simp add: view_bytes_def)

lemma header_total_length_eq:
  "header_total_length v =
     (if rtp_extension v
      then map_option (\<lambda>w. header_extension_start v + 4 + unat (w :: u16) * 4)
        (read_be (view_bytes v) (header_extension_start v + 2))
      else Some (header_extension_start v))"
  by (cases "read_be (view_bytes v) (header_extension_start v + 2) :: u16 option")
    (simp_all add: header_total_length_def get_header_extension_data_def header_extension_start_def
      header_extension_length_def)

lemma read_be_None: "(read_be d off :: 'a::len word option) = None \<longleftrightarrow> length d < off + LENGTH('a) div 8"
  by (auto simp: read_be_block read_block_def)

lemma header_total_length_None:
  "header_total_length v = None \<longleftrightarrow> rtp_extension v \<and> view_size v < header_extension_start v + 4"
  by (auto simp: header_total_length_eq read_be_None)

lemma header_start_le: "header_total_length v = Some n \<Longrightarrow> header_extension_start v \<le> n"
  by (auto simp: header_total_length_eq split: if_splits)

lemma csrc_in_header: "i < rtp_csrc_count v \<Longrightarrow> rtp_base_length + i * 4 + 4 \<le> header_extension_start v"
  by (simp add: header_extension_start_def)

lemma scan_filters_eq:
  "scan_filters src es included has_include \<longleftrightarrow>
     \<lparr>fe_mode = Filter_exclude, fe_address = src\<rparr> \<notin> set es \<and>
     (has_include \<or> (\<exists>e \<in> set es. fe_mode e = Filter_include) \<longrightarrow>
        included \<or> \<lparr>fe_mode = Filter_include, fe_address = src\<rparr> \<in> set es)"
proof (induction es arbitrary: included has_include)
  case (Cons e es)
  show ?case by (cases e; cases "fe_mode e") (auto simp: Cons.IH)
qed simp

lemma rtp_encode_view:
  fixes p :: rtp_packet and payload :: "byte list"
  defines "v \<equiv> Some (rtp_encode p payload [])"
  shows "rtp_validate v = Some True" and "rtp_marker_bit v = Some False" and "\<not> rtp_padding v" and "\<not> rtp_extension v"
    and "rtp_csrc_count v = 0" and "rtp_payload_type v = Some (rp_payload_type p AND 0x7F)"
    and "rtp_sequence_number v = Some (rp_sequence_number p)" and "rtp_timestamp v = Some (rp_timestamp p)"
    and "rtp_ssrc v = Some (rp_ssrc p)" and "rtp_payload_data v = Some (12, length payload)"
    and "payload_bytes v (12, length payload) = payload"
proof -
  let ?d = "rtp_encode p payload []"
  define o0 where "o0 = (0x80 :: byte)"
  define o1 where "o1 = rp_payload_type p AND 0x7F"
  have bits: "drop_bit 4 o0 AND 1 = 0" "o0 AND 0x0F = 0" "drop_bit 6 o0 AND 3 = 2" "drop_bit 5 o0 AND 1 = 0"
    unfolding o0_def by code_simp+
  have o1: "o1 AND 0x7F = o1" "drop_bit 7 o1 AND 1 = 0"
    by (simp_all add: o1_def and.assoc)
  have d: "?d = o0 # o1 # enc_be (rp_sequence_number p) @ enc_be (rp_timestamp p) @ enc_be (rp_ssrc p) @ payload"
    by (simp add: rtp_encode_def o0_def o1_def)
  have len: "length ?d = 12 + length payload" by (simp add: d)
  have plain: "\<not> rtp_extension (Some ?d)" "rtp_csrc_count (Some ?d) = 0" "rtp_version (Some ?d) = 2" "\<not> rtp_padding (Some ?d)"
    by (simp_all add: rtp_extension_def rtp_csrc_count_def rtp_version_def rtp_padding_def d bits)
  then have total: "header_total_length (Some ?d) = Some 12"
    by (simp add: header_total_length_eq header_extension_start_def rtp_base_length_def)
  have n: "read_be ?d 2 = Some (rp_sequence_number p)" by (rule read_be_at [of _ "[o0, o1]"]) (simp_all add: d)
  have t: "read_be ?d 4 = Some (rp_timestamp p)"
    by (rule read_be_at [of _ "[o0, o1] @ enc_be (rp_sequence_number p)"]) (simp_all add: d)
  have s: "read_be ?d 8 = Some (rp_ssrc p)"
    by (rule read_be_at [of _ "[o0, o1] @ enc_be (rp_sequence_number p) @ enc_be (rp_timestamp p)"]) (simp_all add: d)
  have "drop 12 ?d = payload" by (simp add: d)
  with len show "payload_bytes v (12, length payload) = payload" by (simp add: payload_bytes_def v_def)
  show "rtp_validate v = Some True" "rtp_payload_data v = Some (12, length payload)"
    using plain total len by (simp_all add: v_def rtp_validate_def rtp_base_length_def rtp_payload_data_def)
  show "rtp_marker_bit v = Some False" "rtp_payload_type v = Some (rp_payload_type p AND 0x7F)"
    using o1 by (simp_all add: v_def rtp_marker_bit_def rtp_payload_type_def d o1_def)
  show "rtp_sequence_number v = Some (rp_sequence_number p)" "rtp_timestamp v = Some (rp_timestamp p)" "rtp_ssrc v = Some (rp_ssrc p)"
    using n t s len by (simp_all add: v_def rtp_sequence_number_def rtp_timestamp_def rtp_ssrc_def)
  show "\<not> rtp_padding v" "\<not> rtp_extension v" "rtp_csrc_count v = 0" using plain by (simp_all add: v_def)
qed

section \<open>Properties\<close>

text \<open>
  C35: every packet \<open>Packet::encode\<close> writes is valid and is read back by \<open>PacketView\<close>: no marker,
  padding, extension or contributing sources, the payload type in seven bits, sequence number, timestamp,
  source and payload as they were.
\<close>

theorem rtp_packet_roundtrip:
  "let v = Some (rtp_encode p payload []) in
     rtp_validate v = Some True \<and> rtp_marker_bit v = Some False \<and> \<not> rtp_padding v \<and> \<not> rtp_extension v \<and>
     rtp_csrc_count v = 0 \<and> rtp_payload_type v = Some (rp_payload_type p AND 0x7F) \<and>
     rtp_sequence_number v = Some (rp_sequence_number p) \<and> rtp_timestamp v = Some (rp_timestamp p) \<and>
     rtp_ssrc v = Some (rp_ssrc p) \<and> map_option (payload_bytes v) (rtp_payload_data v) = Some payload"
  by (simp add: Let_def rtp_encode_view)

text \<open>
  \<open>validate\<close>, the test meant to run before every other accessor, itself reads outside the datagram,
  exactly when the datagram has the twelve fixed octets and the extension bit but ends before the extension header.
\<close>

theorem rtp_validate_bounds:
  "rtp_validate (Some d) = None \<longleftrightarrow>
     12 \<le> length d \<and> rtp_extension (Some d) \<and> length d < 16 + 4 * rtp_csrc_count (Some d)"
proof -
  have "rtp_validate (Some d) = None \<longleftrightarrow> 12 \<le> length d \<and> header_total_length (Some d) = None"
    by (cases "header_total_length (Some d)") (auto simp: rtp_validate_def rtp_base_length_def split: if_splits)
  then show ?thesis by (auto simp: header_total_length_None header_extension_start_def rtp_base_length_def)
qed

text \<open>
  Once \<open>validate\<close> has returned true, no accessor reads outside the datagram, the extension view lies in
  it, and the datagram is its header followed by the payload view.
\<close>

theorem rtp_validated_safe:
  assumes "rtp_validate (Some d) = Some True"
  shows "rtp_marker_bit (Some d) \<noteq> None \<and> rtp_payload_type (Some d) \<noteq> None \<and> rtp_sequence_number (Some d) \<noteq> None \<and>
    rtp_timestamp (Some d) \<noteq> None \<and> rtp_ssrc (Some d) \<noteq> None \<and> rtp_csrc (Some d) i \<noteq> None \<and>
    get_header_extension_defined_by_profile (Some d) \<noteq> None \<and>
    (\<exists>off n. get_header_extension_data (Some d) = Some (off, n) \<and> off + n \<le> length d) \<and>
    (\<exists>h p. rtp_payload_data (Some d) = Some p \<and> header_total_length (Some d) = Some h \<and>
       take h d @ payload_bytes (Some d) p = d)"
proof -
  let ?v = "Some d"
  obtain h where h: "header_total_length ?v = Some h" "h \<le> length d" "12 \<le> length d"
    using assms by (auto simp: rtp_validate_def rtp_base_length_def bind_Some_iff split: if_splits)
  have start: "header_extension_start ?v \<le> length d" using header_start_le [OF h(1)] h(2) by simp
  have csrc: "rtp_csrc ?v i \<noteq> None"
    using csrc_in_header [of i ?v] start read_be_defined [of "rtp_base_length + i * 4" d, where 'a = 32]
    by (auto simp: rtp_csrc_def)
  have ext: "\<exists>off n. get_header_extension_data ?v = Some (off, n) \<and> off + n \<le> length d"
    using h(1,2) by (auto simp: get_header_extension_data_def header_total_length_eq header_extension_length_def split: if_splits)
  have profile: "get_header_extension_defined_by_profile ?v \<noteq> None"
    using h(1,2) by (auto simp: get_header_extension_defined_by_profile_def header_total_length_eq read_ne_def
        read_block_def split: if_splits)
  have "take h d @ payload_bytes ?v (h, length d - h) = d" using h(2) by (simp add: payload_bytes_def)
  then show ?thesis
    using h csrc ext profile
    by (auto simp: rtp_marker_bit_def rtp_payload_type_def rtp_sequence_number_def rtp_timestamp_def rtp_ssrc_def
        rtp_payload_data_def read_be_None)
qed

theorem rtp_validated_safe_witness:
  "rtp_csrc (Some (0x92 # replicate 27 0)) 1 \<noteq> None"
proof -
  have "rtp_validate (Some (0x92 # replicate 27 0)) = Some True" by code_simp
  from rtp_validated_safe [OF this, of 1] show ?thesis by blast
qed

text \<open>
  A source is accepted exactly when the connection address is the filter's, no exclude filter names the
  source, and, if there are include filters, one of them does.
\<close>

theorem filter_decides:
  "is_valid_source f connection src \<longleftrightarrow>
     rf_connection_address f = connection \<and>
     \<lparr>fe_mode = Filter_exclude, fe_address = src\<rparr> \<notin> set (rf_filters f) \<and>
     (if list_ex (\<lambda>e. fe_mode e = Filter_include) (rf_filters f)
      then \<lparr>fe_mode = Filter_include, fe_address = src\<rparr> \<in> set (rf_filters f) else True)"
  by (auto simp: is_valid_source_def scan_filters_eq list_ex_iff)

end
