(* ===== verification/Rtcp.thy ===== *)
theory Rtcp
  imports Rtp_Packet
begin

text \<open>
  RTCP packets: rtp/rtcp_packet_view.cpp, rtp/rtcp_report_block_view.cpp and ntp/ntp_timestamp.hpp. Shown: the
  sender report layout is read back, the packet's own accessors never read outside it whatever it contains,
  report blocks are its 24-octet slices, and where the extension view and the step to the next packet
  of a compound packet go wrong.
\<close>

section \<open>NTP timestamps\<close>

record ntp_timestamp =
  ntp_integer :: u32
  ntp_fraction :: u32

definition ntp_init :: ntp_timestamp where
  "ntp_init = \<lparr>ntp_integer = 0, ntp_fraction = 0\<rparr>"

definition ntp_from_compact :: "u32 \<Rightarrow> ntp_timestamp" where
  "ntp_from_compact c = \<lparr>ntp_integer = drop_bit 16 (c AND 0xFFFF0000), ntp_fraction = push_bit 16 c\<rparr>"

text \<open>\<open>fraction << 16\<close> is computed in \<open>int\<close> and cast.\<close>

definition ntp_from_compact_parts :: "u16 \<Rightarrow> u16 \<Rightarrow> ntp_timestamp" where
  "ntp_from_compact_parts i f = \<lparr>ntp_integer = ucast i, ntp_fraction = word_of_int (uint f * 2 ^ 16)\<rparr>"

section \<open>Report blocks\<close>

definition k_report_block_length :: nat where "k_report_block_length = 24"

definition rb_validate :: "view \<Rightarrow> bool" where
  "rb_validate v =
     (if v = None then False
      else if view_size v < k_report_block_length then False
      else if view_size v > k_report_block_length then False
      else True)"

text \<open>The accessors check nothing.\<close>

definition rb_ssrc :: "view \<Rightarrow> u32 option" where
  "rb_ssrc v = read_be (view_bytes v) 0"

definition rb_fraction_lost :: "view \<Rightarrow> byte option" where
  "rb_fraction_lost v = read_at (view_bytes v) 4"

definition rb_packets_lost :: "view \<Rightarrow> u32 option" where
  "rb_packets_lost v = do {
     b5 \<leftarrow> read_at (view_bytes v) 5; b6 \<leftarrow> read_at (view_bytes v) 6; b7 \<leftarrow> read_at (view_bytes v) 7;
     read_be [0, b5, b6, b7] 0 }"

definition rb_highest_sequence_number :: "view \<Rightarrow> u32 option" where
  "rb_highest_sequence_number v = read_be (view_bytes v) 8"

definition rb_jitter :: "view \<Rightarrow> u32 option" where
  "rb_jitter v = read_be (view_bytes v) 12"

definition rb_last_sr :: "view \<Rightarrow> ntp_timestamp option" where
  "rb_last_sr v = map_option ntp_from_compact (read_be (view_bytes v) 16)"

definition rb_delay_since_last_sr :: "view \<Rightarrow> u32 option" where
  "rb_delay_since_last_sr v = read_be (view_bytes v) 20"

section \<open>Packets\<close>

datatype rtcp_type = Rtcp_unknown | Sender_report | Receiver_report | Source_description | Rtcp_bye | Rtcp_app

definition rtcp_header_length :: nat where "rtcp_header_length = 8"
definition sender_info_length :: nat where "sender_info_length = 8 + 4 + 4 + 4"

definition rtcp_version :: "view \<Rightarrow> byte" where
  "rtcp_version v = (if view_size v < 1 then 0 else drop_bit 6 (view_bytes v ! 0 AND 0xC0))"

definition rtcp_padding :: "view \<Rightarrow> bool" where
  "rtcp_padding v = (if view_size v < 1 then False else drop_bit 5 (view_bytes v ! 0 AND 0x20) \<noteq> 0)"

definition reception_report_count :: "view \<Rightarrow> nat" where
  "reception_report_count v = (if view_size v < 1 then 0 else unat (view_bytes v ! 0 AND 0x1F))"

definition rtcp_packet_type :: "view \<Rightarrow> rtcp_type" where
  "rtcp_packet_type v =
     (if view_size v < 2 then Rtcp_unknown
      else let b = view_bytes v ! 1 in
        if b = 200 then Sender_report else if b = 201 then Receiver_report
        else if b = 202 then Source_description else if b = 203 then Rtcp_bye
        else if b = 204 then Rtcp_app else Rtcp_unknown)"

text \<open>The length in 32-bit words including the header, as \<open>uint16_t\<close>: it wraps to 0.\<close>

definition rtcp_length :: "view \<Rightarrow> u16 option" where
  "rtcp_length v =
     (if view_size v < 2 + 2 then Some 0 else map_option (\<lambda>w. w + 1) (read_be (view_bytes v) 2))"

definition rtcp_ssrc :: "view \<Rightarrow> u32 option" where
  "rtcp_ssrc v = (if view_size v < 4 + 4 then Some 0 else read_be (view_bytes v) 4)"

definition rtcp_ntp_timestamp :: "view \<Rightarrow> ntp_timestamp option" where
  "rtcp_ntp_timestamp v =
     (if rtcp_packet_type v \<noteq> Sender_report then Some ntp_init
      else if view_size v < rtcp_header_length + 8 then Some ntp_init
      else do {
        i \<leftarrow> read_be (view_bytes v) rtcp_header_length;
        f \<leftarrow> read_be (view_bytes v) (rtcp_header_length + 4);
        Some \<lparr>ntp_integer = i, ntp_fraction = f\<rparr> })"

definition sender_field :: "nat \<Rightarrow> view \<Rightarrow> u32 option" where
  "sender_field off v =
     (if rtcp_packet_type v \<noteq> Sender_report then Some 0
      else if view_size v < off + 4 then Some 0
      else read_be (view_bytes v) off)"

definition rtcp_rtp_timestamp :: "view \<Rightarrow> u32 option" where
  "rtcp_rtp_timestamp v = sender_field (rtcp_header_length + 8) v"

definition rtcp_packet_count :: "view \<Rightarrow> u32 option" where
  "rtcp_packet_count v = sender_field (rtcp_header_length + 8 + 4) v"

definition rtcp_octet_count :: "view \<Rightarrow> u32 option" where
  "rtcp_octet_count v = sender_field (rtcp_header_length + 8 + 4 + 4) v"

definition rtcp_validate :: "view \<Rightarrow> bool" where
  "rtcp_validate v =
     (if v = None then False
      else if view_size v < rtcp_header_length then False
      else if rtcp_version v \<noteq> 2 then False
      else if rtcp_packet_type v = Sender_report \<and> view_size v < rtcp_header_length + sender_info_length then False
      else True)"

definition report_blocks_offset :: "view \<Rightarrow> nat" where
  "report_blocks_offset v =
     (if rtcp_packet_type v = Sender_report then rtcp_header_length + sender_info_length else rtcp_header_length)"

definition get_report_block :: "view \<Rightarrow> nat \<Rightarrow> view" where
  "get_report_block v i =
     (if i \<ge> reception_report_count v then None
      else if view_size v < report_blocks_offset v + k_report_block_length * (i + 1) then None
      else Some (take k_report_block_length (drop (report_blocks_offset v + k_report_block_length * i) (view_bytes v))))"

text \<open>Offset and size of the view; the size is a \<open>size_t\<close> difference. \<open>{}\<close> is \<open>(0, 0)\<close>.\<close>

definition get_profile_specific_extension :: "view \<Rightarrow> (nat \<times> u64) option" where
  "get_profile_specific_extension v =
     (if v = None then Some (0, 0)
      else do {
        len \<leftarrow> rtcp_length v;
        let off = report_blocks_offset v + k_report_block_length * reception_report_count v;
            reported = unat len * 4
        in if off \<ge> view_size v then Some (0, 0)
           else if reported > view_size v then Some (0, 0)
           else Some (off, of_nat reported - of_nat off) })"

definition get_next_packet :: "view \<Rightarrow> view option" where
  "get_next_packet v =
     (if v = None then Some None
      else do {
        len \<leftarrow> rtcp_length v;
        let reported = unat len * 4
        in if reported \<ge> view_size v then Some None else Some (Some (drop reported (view_bytes v))) })"

section \<open>The layout of a sender report\<close>

text \<open>RFC 3550, section 6.4.1; \<open>len\<close> is the length in words minus one.\<close>

definition sender_report_octets ::
  "byte \<Rightarrow> u16 \<Rightarrow> u32 \<Rightarrow> ntp_timestamp \<Rightarrow> u32 \<Rightarrow> u32 \<Rightarrow> u32 \<Rightarrow> byte list list \<Rightarrow> byte list" where
  "sender_report_octets rc len ssrc ntp rts packets octets blocks =
     [0x80 OR rc, 200] @ enc_be len @ enc_be ssrc @ enc_be (ntp_integer ntp) @ enc_be (ntp_fraction ntp)
     @ enc_be rts @ enc_be packets @ enc_be octets @ concat blocks"

lemma read_block_concat:
  assumes "\<forall>b \<in> set blocks. length b = n" and "i < length blocks"
  shows "take n (drop (n * i) (concat blocks @ rest)) = blocks ! i"
  using assms
proof (induction blocks arbitrary: i)
  case (Cons b blocks)
  then have b: "length b = n" by simp
  show ?case
  proof (cases i)
    case 0
    then show ?thesis using b by simp
  next
    case (Suc k)
    have "drop (n * i) (concat (b # blocks) @ rest) = drop (n * k) (concat blocks @ rest)"
      using b by (simp add: Suc)
    then show ?thesis using Cons.IH [of k] Cons.prems by (simp add: Suc)
  qed
qed simp

lemma length_concat_blocks: "\<forall>b \<in> set blocks. length b = n \<Longrightarrow> length (concat blocks) = n * length blocks"
  by (induction blocks) simp_all

lemma report_count_bits:
  assumes "unat (rc :: byte) < 32"
  shows "(0x80 OR rc) AND 0x1F = rc" and "drop_bit 6 (0x80 OR rc) AND 3 = 2"
proof -
  have "rc = of_nat (unat rc)" by simp
  moreover have "\<forall>k < 32. ((0x80 :: byte) OR of_nat k) AND 0x1F = of_nat k \<and> drop_bit 6 ((0x80 :: byte) OR of_nat k) AND 3 = 2"
    by code_simp
  ultimately show "(0x80 OR rc) AND 0x1F = rc" and "drop_bit 6 (0x80 OR rc) AND 3 = 2"
    using assms by (metis)+
qed

section \<open>Lemmas\<close>

lemma rtcp_reads_defined:
  "rtcp_length v \<noteq> None" "rtcp_ssrc v \<noteq> None" "rtcp_ntp_timestamp v \<noteq> None" "sender_field off v \<noteq> None"
  using read_be_None [of "view_bytes v" 2, where 'a = 16] read_be_None [of "view_bytes v" 4, where 'a = 32]
    read_be_None [of "view_bytes v" 8, where 'a = 32] read_be_None [of "view_bytes v" 12, where 'a = 32]
    read_be_None [of "view_bytes v" off, where 'a = 32]
  by (auto simp: rtcp_length_def rtcp_ssrc_def rtcp_ntp_timestamp_def sender_field_def rtcp_header_length_def bind_None_iff)

lemma report_block_defined:
  assumes "length b = 24"
  shows "rb_validate (Some b)" "rb_ssrc (Some b) \<noteq> None" "rb_fraction_lost (Some b) \<noteq> None" "rb_packets_lost (Some b) \<noteq> None"
    "rb_highest_sequence_number (Some b) \<noteq> None" "rb_jitter (Some b) \<noteq> None" "rb_last_sr (Some b) \<noteq> None"
    "rb_delay_since_last_sr (Some b) \<noteq> None"
  using assms
  by (simp_all add: rb_validate_def k_report_block_length_def rb_ssrc_def rb_fraction_lost_def rb_packets_lost_def
      rb_highest_sequence_number_def rb_jitter_def rb_last_sr_def rb_delay_since_last_sr_def read_be_None
      del: not_None_eq)

section \<open>Properties\<close>

text \<open>
  C36: a sender report laid out as in RFC 3550 is valid; sender, timestamps and counts are read back, and report
  block \<open>i\<close> is its \<open>i\<close>-th 24 octets.
\<close>

theorem rtcp_sender_report:
  assumes "unat rc < 32" and "length blocks = unat rc" and "\<forall>b \<in> set blocks. length b = 24"
  shows "let v = Some (sender_report_octets rc len ssrc ntp rts packets octets blocks) in
    rtcp_validate v \<and> rtcp_packet_type v = Sender_report \<and> rtcp_length v = Some (len + 1) \<and> rtcp_ssrc v = Some ssrc \<and>
    rtcp_ntp_timestamp v = Some ntp \<and> rtcp_rtp_timestamp v = Some rts \<and> rtcp_packet_count v = Some packets \<and>
    rtcp_octet_count v = Some octets \<and>
    (\<forall>i. get_report_block v i = (if i < length blocks then Some (blocks ! i) else None))"
proof -
  let ?d = "sender_report_octets rc len ssrc ntp rts packets octets blocks"
  define o0 where "o0 = 0x80 OR rc"
  let ?p1 = "[o0, 200] :: byte list"
  let ?p2 = "?p1 @ enc_be len" and ?rest = "concat blocks"
  let ?p3 = "?p2 @ enc_be ssrc"
  let ?p4 = "?p3 @ enc_be (ntp_integer ntp)"
  let ?p5 = "?p4 @ enc_be (ntp_fraction ntp)"
  let ?p6 = "?p5 @ enc_be rts"
  let ?p7 = "?p6 @ enc_be packets"
  let ?p8 = "?p7 @ enc_be octets"
  have d: "?d = ?p8 @ ?rest" by (simp add: sender_report_octets_def o0_def)
  have len8: "length ?p8 = 28" by simp
  have size: "length ?d = 28 + 24 * length blocks"
    unfolding d using length_concat_blocks [OF assms(3)] by simp
  have first: "?d ! 0 = o0" "?d ! 1 = 200" unfolding d by simp_all
  have bits: "o0 AND 0x1F = rc" "drop_bit 6 o0 AND 3 = 2"
    using report_count_bits [OF assms(1)] by (simp_all add: o0_def)
  have count: "reception_report_count (Some ?d) = length blocks"
    using size assms(2) by (simp add: reception_report_count_def first(1) bits(1))
  have type: "rtcp_packet_type (Some ?d) = Sender_report"
    using size first(2) by (simp add: rtcp_packet_type_def)
  have reads: "read_be ?d 2 = Some len" "read_be ?d 4 = Some ssrc" "read_be ?d 8 = Some (ntp_integer ntp)"
    "read_be ?d 12 = Some (ntp_fraction ntp)" "read_be ?d 16 = Some rts" "read_be ?d 20 = Some packets"
    "read_be ?d 24 = Some octets"
    by (rule read_be_at [of _ ?p1] read_be_at [of _ ?p2] read_be_at [of _ ?p3] read_be_at [of _ ?p4]
        read_be_at [of _ ?p5] read_be_at [of _ ?p6] read_be_at [of _ ?p7]; simp add: d)+
  have block: "get_report_block (Some ?d) i = (if i < length blocks then Some (blocks ! i) else None)" for i
  proof (cases "i < length blocks")
    case True
    have skip: "drop (28 + k) (p @ r) = drop k r" if "length p = 28" for k p and r :: "byte list" using that by simp
    have "drop (28 + 24 * i) ?d = drop (24 * i) (concat blocks @ [])" unfolding d skip [OF len8] by simp
    then have "take 24 (drop (28 + 24 * i) ?d) = blocks ! i" using read_block_concat [OF assms(3) True, of "[]"] by simp
    then show ?thesis using True count type size
      by (simp add: get_report_block_def report_blocks_offset_def rtcp_header_length_def sender_info_length_def
          k_report_block_length_def)
  qed (simp add: get_report_block_def count)
  show ?thesis
    using size reads type block first(1) bits(2)
    by (simp add: Let_def rtcp_validate_def rtcp_version_def rtcp_header_length_def sender_info_length_def rtcp_length_def
        rtcp_ssrc_def rtcp_ntp_timestamp_def rtcp_rtp_timestamp_def rtcp_packet_count_def rtcp_octet_count_def sender_field_def)
qed

theorem rtcp_sender_report_witness:
  "get_report_block (Some (sender_report_octets 2 18 7 ntp_init 1 2 3 [replicate 24 5, replicate 24 6])) 1 = Some (replicate 24 6)"
  using rtcp_sender_report [of 2 "[replicate 24 5, replicate 24 6]" 18 7 ntp_init 1 2 3] by (simp add: Let_def)

text \<open>
  Whatever a packet contains, its accessors never read outside it; a report block it hands out is 24 of its
  octets, valid, and all its fields can be read.
\<close>

theorem rtcp_in_bounds:
  assumes "get_report_block (Some d) i = Some b"
  shows "rtcp_length (Some d) \<noteq> None \<and> rtcp_ssrc (Some d) \<noteq> None \<and> rtcp_ntp_timestamp (Some d) \<noteq> None \<and>
    rtcp_rtp_timestamp (Some d) \<noteq> None \<and> rtcp_packet_count (Some d) \<noteq> None \<and> rtcp_octet_count (Some d) \<noteq> None \<and>
    (\<exists>pre post. d = pre @ b @ post) \<and> rb_validate (Some b) \<and> rb_ssrc (Some b) \<noteq> None \<and> rb_packets_lost (Some b) \<noteq> None \<and>
    rb_highest_sequence_number (Some b) \<noteq> None \<and> rb_jitter (Some b) \<noteq> None \<and> rb_last_sr (Some b) \<noteq> None \<and>
    rb_delay_since_last_sr (Some b) \<noteq> None"
proof -
  obtain off where b: "b = take 24 (drop off d)" "off + 24 \<le> length d"
    using assms by (auto simp: get_report_block_def k_report_block_length_def split: if_splits)
  then have "length b = 24" by simp
  moreover have "d = take off d @ b @ drop 24 (drop off d)"
    unfolding b(1) by (simp only: append_take_drop_id)
  ultimately show ?thesis
    using report_block_defined [of b] rtcp_reads_defined
    unfolding rtcp_rtp_timestamp_def rtcp_packet_count_def rtcp_octet_count_def by blast
qed

theorem rtcp_in_bounds_witness:
  "rb_jitter (Some (replicate 24 6)) \<noteq> None"
proof -
  have "get_report_block (Some ([0x81, 201] @ replicate 6 0 @ replicate 24 6)) 0 = Some (replicate 24 6)" by code_simp
  from rtcp_in_bounds [OF this] show ?thesis by blast
qed

text \<open>
  The view of the profile-specific extension reaches past the end of the packet exactly when the packet
  announces fewer octets than its header and report blocks take: the difference wraps around.
\<close>

theorem rtcp_extension_wraps:
  assumes "rtcp_length (Some d) = Some len" and "length d < 2 ^ 32"
  shows "\<exists>off n. get_profile_specific_extension (Some d) = Some (off, n) \<and>
    (off + unat n > length d \<longleftrightarrow>
       unat len * 4 < report_blocks_offset (Some d) + 24 * reception_report_count (Some d) \<and>
       report_blocks_offset (Some d) + 24 * reception_report_count (Some d) < length d)"
proof -
  define off where "off = report_blocks_offset (Some d) + 24 * reception_report_count (Some d)"
  define reported where "reported = unat len * 4"
  have small: "reported < 2 ^ 18" using unat_bound [of len] by (simp add: reported_def)
  have ext: "get_profile_specific_extension (Some d) =
      (if off \<ge> length d \<or> reported > length d then Some (0, 0) else Some (off, of_nat reported - of_nat off))"
    using assms(1) by (simp add: get_profile_specific_extension_def off_def reported_def k_report_block_length_def Let_def)
  show ?thesis unfolding off_def [symmetric] reported_def [symmetric]
  proof (cases "off \<ge> length d \<or> reported > length d")
    case True
    then show "\<exists>at n. get_profile_specific_extension (Some d) = Some (at, n) \<and>
        (at + unat n > length d \<longleftrightarrow> reported < off \<and> off < length d)"
      using True assms(2) by (auto simp: ext)
  next
    case False
    have u: "unat (of_nat reported :: u64) = reported" "unat (of_nat off :: u64) = off"
      using False assms(2) small by (simp_all add: unat_of_nat_small)
    have "off + unat (of_nat reported - of_nat off :: u64) > length d \<longleftrightarrow> reported < off"
      using False assms(2) by (auto simp: unat_sub_if' u)
    then show "\<exists>at n. get_profile_specific_extension (Some d) = Some (at, n) \<and>
        (at + unat n > length d \<longleftrightarrow> reported < off \<and> off < length d)"
      using False by (simp add: ext)
  qed
qed

theorem rtcp_extension_wraps_witness:
  "\<exists>off n. get_profile_specific_extension (Some ([0x80, 201] @ replicate 10 0)) = Some (off, n) \<and> off + unat n > 12"
proof -
  have "rtcp_length (Some ([0x80, 201] @ replicate 10 0)) = Some 1"
    "report_blocks_offset (Some ([0x80, 201] @ replicate 10 0)) + 24 * reception_report_count (Some ([0x80, 201] @ replicate 10 0)) = 8"
    by code_simp+
  with rtcp_extension_wraps [of "[0x80, 201] @ replicate 10 0" 1] show ?thesis by auto
qed

text \<open>
  The next packet of a compound packet is the rest of the octets after the announced length; it is shorter than
  the packet, so that a walk over the packets ends, except when the length field is \<open>0xFFFF\<close> or missing: then the next
  packet is the packet itself.
\<close>

theorem rtcp_next_packet:
  assumes "rtcp_length (Some d) = Some len" and "d \<noteq> []"
  shows "get_next_packet (Some d) = Some (if unat len * 4 < length d then Some (drop (unat len * 4) d) else None) \<and>
    (get_next_packet (Some d) = Some (Some d) \<longleftrightarrow> length d < 4 \<or> read_be d 2 = Some (0xFFFF :: u16))"
proof -
  have step: "get_next_packet (Some d) = Some (if unat len * 4 < length d then Some (drop (unat len * 4) d) else None)"
    using assms(1) by (simp add: get_next_packet_def Let_def)
  have "(unat len * 4 < length d \<and> drop (unat len * 4) d = d) \<longleftrightarrow> len = 0"
  proof
    assume "unat len * 4 < length d \<and> drop (unat len * 4) d = d"
    then have "length d - unat len * 4 = length d" "unat len * 4 < length d" by (metis length_drop)+
    then have "unat len = 0" by linarith
    then show "len = 0" by (simp add: unat_eq_0)
  qed (simp add: assms(2))
  moreover have "len = 0 \<longleftrightarrow> length d < 4 \<or> read_be d 2 = Some (0xFFFF :: u16)"
  proof (cases "length d < 4")
    case True
    then show ?thesis using assms(1) by (simp add: rtcp_length_def)
  next
    case False
    then obtain w :: u16 where w: "read_be d 2 = Some w" using read_be_defined [of 2 d, where 'a = 16] by auto
    then have "len = w + 1" using assms(1) False by (simp add: rtcp_length_def)
    moreover have "(- 1 :: u16) = 0xFFFF" by (simp add: word_unat_eq_iff unat_uminus)
    then have "w + 1 = 0 \<longleftrightarrow> w = 0xFFFF" by (metis eq_neg_iff_add_eq_0)
    ultimately show ?thesis using False w by simp
  qed
  ultimately show ?thesis using step by (auto split: if_splits)
qed

theorem rtcp_next_packet_witness:
  "get_next_packet (Some ([0x80, 201, 0xFF, 0xFF] @ replicate 4 0)) = Some (Some ([0x80, 201, 0xFF, 0xFF] @ replicate 4 0))"
proof -
  have r: "read_be ([0x80, 201, 0xFF, 0xFF] @ replicate 4 0) 2 = Some (0xFFFF :: u16)"
    by (rule read_be_at [of _ "[0x80, 201]" _ "replicate 4 0"]) (simp_all add: enc_be_u16)
  then have "rtcp_length (Some ([0x80, 201, 0xFF, 0xFF] @ replicate 4 0)) = Some 0" by (simp add: rtcp_length_def)
  with r show ?thesis using rtcp_next_packet [of "[0x80, 201, 0xFF, 0xFF] @ replicate 4 0" 0] by simp
qed

end
