(* ===== verification/Audio_Data.thy ===== *)
theory Audio_Data
  imports Complex_Main Byte_Order Wrapping
begin

text \<open>
  core/audio/audio_data.hpp: conversion of samples between types, byte orders and interleavings. A PCM sample is
  its octets; a floating point sample in native order is an exact rational, so that converting PCM to
  floating point is exact, as it is in the code, and converting back leaves out the rounding of the product. An
  array is a list, an access outside it \<open>None\<close>. A combination of types that the code does not implement only
  asserts; it leaves the destination as it is.
\<close>

unbundle bit_operations_syntax

section \<open>Samples\<close>

datatype sample_type = S_u8 | S_s8 | S_s16 | S_s24 | S_s32

fun sample_size :: "sample_type \<Rightarrow> nat" where
  "sample_size S_u8 = 1"
| "sample_size S_s8 = 1"
| "sample_size S_s16 = 2"
| "sample_size S_s24 = 3"
| "sample_size S_s32 = 4"

datatype data_order = Order_Le | Order_Be | Order_Ne

definition order_little_endian :: "data_order \<Rightarrow> bool" where
  "order_little_endian d = (d = Order_Le \<or> d = Order_Ne \<and> little_endian)"

text \<open>The octets are copied to the low or the high end of a \<open>uint64_t\<close>, which is swapped in the second case.\<close>

definition data_read :: "data_order \<Rightarrow> byte list \<Rightarrow> u64" where
  "data_read d bs =
     (if d = Order_Be then swap_bytes_val (mem_to_word (replicate (8 - length bs) 0 @ bs))
      else mem_to_word (bs @ replicate (8 - length bs) 0))"

definition data_write :: "data_order \<Rightarrow> nat \<Rightarrow> 'a::len word \<Rightarrow> byte list" where
  "data_write d sz v =
     (if d = Order_Be then drop (LENGTH('a) div 8 - sz) (word_to_mem (swap_bytes_val v))
      else take sz (word_to_mem v))"

definition convert_sample :: "sample_type \<Rightarrow> data_order \<Rightarrow> sample_type \<Rightarrow> data_order \<Rightarrow> byte list \<Rightarrow> byte list option" where
  "convert_sample st sd dt dd src =
     (if st = dt \<and> sd = dd then Some src
      else if st = dt then Some (data_write dd (sample_size dt) (data_read sd src))
      else
        let v = data_read sd src in
        case (st, dt) of
          (S_u8, S_s8) \<Rightarrow> Some (data_write dd 1 (v - 0x80))
        | (S_s8, S_s16) \<Rightarrow> Some (data_write dd 2 (push_bit 8 v))
        | (S_s16, S_s24) \<Rightarrow> Some (data_write dd 3 (push_bit 8 v))
        | (S_s16, S_s32) \<Rightarrow> Some (data_write dd 4 (push_bit 16 v))
        | _ \<Rightarrow> None)"

definition convert_to_real :: "sample_type \<Rightarrow> data_order \<Rightarrow> byte list \<Rightarrow> rat option" where
  "convert_to_real st sd src =
     (let v = data_read sd src in
      case st of
        S_s16 \<Rightarrow> Some (of_int (sint (signed_drop_bit 48 (push_bit 48 v))) * (1 / 32768))
      | S_s24 \<Rightarrow> Some (of_int (sint (signed_drop_bit 40 (push_bit 40 v))) * (1 / 8388608))
      | _ \<Rightarrow> None)"

definition truncate_rat :: "rat \<Rightarrow> int" where
  "truncate_rat r = (if r \<ge> 0 then \<lfloor>r\<rfloor> else \<lceil>r\<rceil>)"

definition convert_from_real :: "sample_type \<Rightarrow> data_order \<Rightarrow> rat \<Rightarrow> byte list option" where
  "convert_from_real dt dd f0 =
     (let f = max (- 1) (min 1 f0) in
      case dt of
        S_s16 \<Rightarrow> Some (data_write dd 2 (word_of_int (truncate_rat (f * 32767)) :: u16))
      | S_s24 \<Rightarrow> Some (data_write dd 3 (int24_of_int32 (word_of_int (truncate_rat (f * 8388607)))))
      | _ \<Rightarrow> None)"

section \<open>Arrays\<close>

text \<open>A loop that converts element \<open>si i\<close> of the source into element \<open>di i\<close> of the destination, for \<open>i\<close> in order.\<close>

fun convert_loop :: "(nat \<Rightarrow> nat) \<Rightarrow> (nat \<Rightarrow> nat) \<Rightarrow> ('a \<Rightarrow> 'b option) \<Rightarrow> nat list \<Rightarrow> 'a list \<Rightarrow> 'b list \<Rightarrow> 'b list option" where
  "convert_loop si di conv [] src dst = Some dst"
| "convert_loop si di conv (i # is) src dst = do {
     s \<leftarrow> read_at src (si i);
     dst' \<leftarrow> (case conv s of None \<Rightarrow> Some dst
             | Some v \<Rightarrow> if di i < length dst then Some (dst[di i := v]) else None);
     convert_loop si di conv is src dst' }"

datatype interleaving = Data_interleaved | Data_noninterleaved

text \<open>
  \<open>convert\<close> on flat arrays. The two shortcuts, for equal formats and for formats that differ in byte order only, are
  \<open>convert_copy\<close>.
\<close>

definition convert_copy :: "data_order \<Rightarrow> data_order \<Rightarrow> nat \<Rightarrow> nat \<Rightarrow> byte list list \<Rightarrow> byte list list \<Rightarrow> byte list list option" where
  "convert_copy sd dd src_size dst_size src dst =
     (if length src < src_size \<or> length dst < src_size \<or> length dst < dst_size then None
      else
        let d = take src_size src @ drop src_size dst in
        Some (if sd = dd \<or> order_little_endian sd = order_little_endian dd then d
              else map rev (take dst_size d) @ drop dst_size d))"

definition convert_flat ::
  "interleaving \<Rightarrow> interleaving \<Rightarrow> ('a \<Rightarrow> 'b option) \<Rightarrow> nat \<Rightarrow> nat \<Rightarrow> 'a list \<Rightarrow> 'b list \<Rightarrow> 'b list option" where
  "convert_flat si di conv src_size channels src dst =
     (if channels = 0 then None
      else
        let frames = src_size div channels; is = [0..<frames * channels] in
        case (si, di) of
          (Data_interleaved, Data_noninterleaved) \<Rightarrow>
            convert_loop (\<lambda>i. i) (\<lambda>i. (i mod channels) * frames + i div channels) conv is src dst
        | (Data_noninterleaved, Data_interleaved) \<Rightarrow>
            convert_loop (\<lambda>i. (i mod frames) * frames + i div channels) (\<lambda>i. i) conv is src dst
        | _ \<Rightarrow> convert_loop (\<lambda>i. i) (\<lambda>i. i) conv is src dst)"

text \<open>\<open>convert\<close> into and out of an array of channels; the channels are one array after the other in \<open>dst\<close>.\<close>

fun store_channel :: "'b list list \<Rightarrow> nat \<Rightarrow> nat \<Rightarrow> 'b \<Rightarrow> 'b list list option" where
  "store_channel dst ch frame v =
     (if ch < length dst \<and> frame < length (dst ! ch) then Some (dst[ch := (dst ! ch)[frame := v]]) else None)"

fun to_channels_loop ::
  "(nat \<Rightarrow> nat) \<Rightarrow> (nat \<Rightarrow> nat \<times> nat) \<Rightarrow> ('a \<Rightarrow> 'b option) \<Rightarrow> nat list \<Rightarrow> 'a list \<Rightarrow> 'b list list \<Rightarrow> 'b list list option" where
  "to_channels_loop si di conv [] src dst = Some dst"
| "to_channels_loop si di conv (i # is) src dst = do {
     s \<leftarrow> read_at src (si i);
     dst' \<leftarrow> (case conv s of None \<Rightarrow> Some dst | Some v \<Rightarrow> store_channel dst (fst (di i)) (snd (di i)) v);
     to_channels_loop si di conv is src dst' }"

definition convert_to_channels ::
  "interleaving \<Rightarrow> ('a \<Rightarrow> 'b option) \<Rightarrow> nat \<Rightarrow> nat \<Rightarrow> nat \<Rightarrow> nat \<Rightarrow> 'a list \<Rightarrow> 'b list list \<Rightarrow> 'b list list option" where
  "convert_to_channels si conv frames channels src_start dst_start src dst =
     to_channels_loop (\<lambda>i. i + src_start * channels)
       (if si = Data_interleaved then (\<lambda>i. (i mod channels, i div channels + dst_start))
        else (\<lambda>i. (i div frames, i mod frames + dst_start)))
       conv [0..<frames * channels] src dst"

fun from_channels_loop ::
  "(nat \<Rightarrow> nat \<times> nat) \<Rightarrow> (nat \<Rightarrow> nat) \<Rightarrow> ('a \<Rightarrow> 'b option) \<Rightarrow> nat list \<Rightarrow> 'a list list \<Rightarrow> 'b list \<Rightarrow> 'b list option" where
  "from_channels_loop si di conv [] src dst = Some dst"
| "from_channels_loop si di conv (i # is) src dst = do {
     c \<leftarrow> read_at src (fst (si i));
     s \<leftarrow> read_at c (snd (si i));
     dst' \<leftarrow> (case conv s of None \<Rightarrow> Some dst
             | Some v \<Rightarrow> if di i < length dst then Some (dst[di i := v]) else None);
     from_channels_loop si di conv is src dst' }"

text \<open>Two nested loops, over frames and over channels: round \<open>i\<close> is frame \<open>i div channels\<close>, channel \<open>i mod channels\<close>.\<close>

definition convert_from_channels ::
  "interleaving \<Rightarrow> ('a \<Rightarrow> 'b option) \<Rightarrow> nat \<Rightarrow> nat \<Rightarrow> nat \<Rightarrow> nat \<Rightarrow> 'a list list \<Rightarrow> 'b list \<Rightarrow> 'b list option" where
  "convert_from_channels di conv frames channels src_start dst_start src dst =
     from_channels_loop (\<lambda>i. (i mod channels, i div channels + src_start))
       (if di = Data_interleaved then (\<lambda>i. i + dst_start * channels)
        else (\<lambda>i. frames * (i mod channels) + i div channels + dst_start * channels))
       conv [0..<frames * channels] src dst"

section \<open>Interleaving of octets\<close>

text \<open>Two nested loops again, one \<open>memcpy\<close> of \<open>bytes_per_sample\<close> octets in each round.\<close>

fun copy_samples :: "(nat \<Rightarrow> nat) \<Rightarrow> (nat \<Rightarrow> nat) \<Rightarrow> nat \<Rightarrow> nat list \<Rightarrow> byte list \<Rightarrow> byte list \<Rightarrow> byte list option" where
  "copy_samples si di w [] src dst = Some dst"
| "copy_samples si di w (i # is) src dst = do {
     s \<leftarrow> read_block src (si i) w;
     dst' \<leftarrow> write_block dst (di i) s;
     copy_samples si di w is src dst' }"

definition de_interleave :: "byte list \<Rightarrow> byte list \<Rightarrow> nat \<Rightarrow> nat \<Rightarrow> byte list option" where
  "de_interleave inp outp channels w =
     (if channels * w = 0 then None
      else
        let frames = length inp div (channels * w); frame_size = channels * w in
        copy_samples (\<lambda>i. (i div channels) * frame_size + (i mod channels) * w)
          (\<lambda>i. (i mod channels) * frames * w + (i div channels) * w) w [0..<frames * channels] inp outp)"

definition interleave :: "byte list \<Rightarrow> byte list \<Rightarrow> nat \<Rightarrow> nat \<Rightarrow> nat \<Rightarrow> byte list option" where
  "interleave inp outp channels w frames =
     (let frame_size = channels * w in
      copy_samples (\<lambda>i. (i mod channels) * frames * w + (i div channels) * w)
        (\<lambda>i. (i div channels) * frame_size + (i mod channels) * w) w [0..<frames * channels] inp outp)"

section \<open>Loops that write every place once\<close>

lemma convert_loop_spec:
  assumes "\<forall>i \<in> set is. si i < length src \<and> di i < length dst \<and> conv (src ! si i) = Some (f i)"
    and "inj_on di (set is)" and "distinct is"
  shows "\<exists>r. convert_loop si di conv is src dst = Some r \<and> length r = length dst \<and>
    (\<forall>i \<in> set is. r ! di i = f i) \<and> (\<forall>k. k \<notin> di ` set is \<longrightarrow> r ! k = dst ! k)"
  using assms
proof (induction "is" arbitrary: dst)
  case (Cons i "is")
  define d where "d = dst[di i := f i]"
  have "\<exists>r. convert_loop si di conv is src d = Some r \<and> length r = length d \<and>
    (\<forall>i \<in> set is. r ! di i = f i) \<and> (\<forall>k. k \<notin> di ` set is \<longrightarrow> r ! k = d ! k)"
    using Cons.prems by (intro Cons.IH) (auto simp: d_def)
  then obtain r where r: "convert_loop si di conv is src d = Some r" "length r = length d"
    "\<forall>j \<in> set is. r ! di j = f j" "\<forall>k. k \<notin> di ` set is \<longrightarrow> r ! k = d ! k"
    by blast
  have new: "di i \<notin> di ` set is" using Cons.prems by (auto dest: inj_onD)
  have i: "si i < length src" "di i < length dst" "conv (src ! si i) = Some (f i)"
    using Cons.prems(1) by simp_all
  have "convert_loop si di conv (i # is) src dst = Some r"
    using i r(1) by (simp add: d_def)
  moreover have "r ! di i = f i" using r(4) new i by (simp add: d_def)
  moreover have "\<forall>k. k \<notin> di ` set (i # is) \<longrightarrow> r ! k = dst ! k" using r(4) by (auto simp: d_def)
  ultimately show ?case using r by (auto simp: d_def)
qed simp

lemma to_channels_spec:
  assumes "\<forall>i \<in> set is. si i < length src \<and> fst (di i) < length dst \<and> snd (di i) < length (dst ! fst (di i)) \<and>
      conv (src ! si i) = Some (f i)"
    and "inj_on di (set is)" and "distinct is"
  shows "\<exists>r. to_channels_loop si di conv is src dst = Some r \<and> map length r = map length dst \<and>
    (\<forall>i \<in> set is. r ! fst (di i) ! snd (di i) = f i) \<and>
    (\<forall>c k. (c, k) \<notin> di ` set is \<longrightarrow> r ! c ! k = dst ! c ! k)"
  using assms
proof (induction "is" arbitrary: dst)
  case (Cons i "is")
  obtain c0 k0 where p: "di i = (c0, k0)" by force
  define d where "d = dst[c0 := (dst ! c0)[k0 := f i]]"
  have i: "si i < length src" "c0 < length dst" "k0 < length (dst ! c0)" "conv (src ! si i) = Some (f i)"
    using Cons.prems(1) p by simp_all
  have shape: "map length d = map length dst"
    using i by (simp add: d_def map_update) (metis length_map list_update_id nth_map)
  have len: "length d = length dst" by (simp add: d_def)
  have each: "length (d ! c) = length (dst ! c)" if "c < length dst" for c
    using arg_cong [OF shape, of "\<lambda>l. l ! c"] that by (simp add: d_def)
  have "\<exists>r. to_channels_loop si di conv is src d = Some r \<and> map length r = map length d \<and>
    (\<forall>i \<in> set is. r ! fst (di i) ! snd (di i) = f i) \<and> (\<forall>c k. (c, k) \<notin> di ` set is \<longrightarrow> r ! c ! k = d ! c ! k)"
    using Cons.prems each by (intro Cons.IH) (auto simp: len)
  then obtain r where r: "to_channels_loop si di conv is src d = Some r" "map length r = map length d"
    "\<forall>j \<in> set is. r ! fst (di j) ! snd (di j) = f j" "\<forall>c k. (c, k) \<notin> di ` set is \<longrightarrow> r ! c ! k = d ! c ! k"
    by blast
  have "di i \<notin> di ` set is" using Cons.prems by (auto dest: inj_onD)
  then have new: "(c0, k0) \<notin> di ` set is" by (simp add: p)
  have "to_channels_loop si di conv (i # is) src dst = Some r"
    using i r(1) by (simp add: d_def p)
  moreover have "r ! c0 ! k0 = f i" using r(4) new i by (simp add: d_def)
  moreover have "\<forall>c k. (c, k) \<notin> di ` set (i # is) \<longrightarrow> r ! c ! k = dst ! c ! k"
    using r(4) i by (auto simp: d_def p nth_list_update)
  ultimately show ?case using r shape p by auto
qed simp

lemma copy_samples_spec:
  assumes "\<forall>i \<in> set is. w * s i + w \<le> length src \<and> w * d i + w \<le> length dst"
    and "inj_on d (set is)" and "distinct is"
  shows "\<exists>r. copy_samples (\<lambda>i. w * s i) (\<lambda>i. w * d i) w is src dst = Some r \<and> length r = length dst \<and>
    (\<forall>i \<in> set is. \<forall>k < w. r ! (w * d i + k) = src ! (w * s i + k)) \<and>
    (\<forall>q k. k < w \<longrightarrow> q \<notin> d ` set is \<longrightarrow> w * q + w \<le> length dst \<longrightarrow> r ! (w * q + k) = dst ! (w * q + k))"
  using assms
proof (induction "is" arbitrary: dst)
  case (Cons i "is")
  have i: "w * s i + w \<le> length src" "w * d i + w \<le> length dst" using Cons.prems(1) by simp_all
  define b where "b = take w (drop (w * s i) src)"
  have b: "length b = w" "\<And>k. k < w \<Longrightarrow> b ! k = src ! (w * s i + k)" using i by (simp_all add: b_def)
  obtain e where e: "write_block dst (w * d i) b = Some e" using i b(1) by simp
  have le: "length e = length dst" by (rule length_write_block [OF e])
  have ne: "e ! j = (if w * d i \<le> j \<and> j < w * d i + w then b ! (j - w * d i) else dst ! j)" if "j < length dst" for j
    using nth_write_block [OF e that] b(1) by simp
  from Cons.IH [of e] Cons.prems le
  obtain r where r: "copy_samples (\<lambda>i. w * s i) (\<lambda>i. w * d i) w is src e = Some r" "length r = length e"
    "\<forall>i \<in> set is. \<forall>k < w. r ! (w * d i + k) = src ! (w * s i + k)"
    "\<forall>q k. k < w \<longrightarrow> q \<notin> d ` set is \<longrightarrow> w * q + w \<le> length e \<longrightarrow> r ! (w * q + k) = e ! (w * q + k)"
    by auto
  have new: "d i \<notin> d ` set is" using Cons.prems by (auto dest: inj_onD)
  have "copy_samples (\<lambda>i. w * s i) (\<lambda>i. w * d i) w (i # is) src dst = Some r"
    using i e r(1) by (simp add: b_def)
  moreover have "r ! (w * d i + k) = src ! (w * s i + k)" if "k < w" for k
    using r(4) new i that le b(2) [OF that] ne [of "w * d i + k"] by simp
  moreover have "r ! (w * q + k) = dst ! (w * q + k)"
    if q: "k < w" "q \<notin> d ` set (i # is)" "w * q + w \<le> length dst" for q k
  proof -
    have out: "\<not> (w * d i \<le> w * q + k \<and> w * q + k < w * d i + w)"
    proof
      assume "w * d i \<le> w * q + k \<and> w * q + k < w * d i + w"
      then have "(w * q + k) div w = d i"
        by (intro div_nat_eqI) (simp_all add: algebra_simps)
      with q show False by simp
    qed
    have "r ! (w * q + k) = e ! (w * q + k)" using r(4) q le by simp
    also have "\<dots> = dst ! (w * q + k)" using ne [of "w * q + k"] out q by (simp only: if_False)
    finally show ?thesis .
  qed
  ultimately show ?case using r(2,3) le by auto
qed simp

section \<open>Transposition\<close>

lemma transpose_bound:
  assumes "i < frames * channels"
  shows "(i mod channels) * frames + i div channels < frames * (channels :: nat)"
proof -
  have c: "0 < channels" using assms by (cases channels) simp_all
  then have "i div channels < frames" using assms by (simp add: div_less_iff_less_mult)
  moreover have "i mod channels \<le> channels - 1" using c mod_less_divisor [OF c, of i] by linarith
  then have "(i mod channels) * frames \<le> (channels - 1) * frames" by (rule mult_le_mono1)
  ultimately have "(i mod channels) * frames + i div channels < (channels - 1) * frames + frames" by linarith
  also have "\<dots> = frames * channels" using c by (cases channels) simp_all
  finally show ?thesis .
qed

lemma transpose_inverse:
  assumes "i < frames * channels"
  shows "((i mod channels) * frames + i div channels) div frames = i mod (channels :: nat)"
    and "((i mod channels) * frames + i div channels) mod frames = i div channels"
proof -
  have c: "0 < channels" using assms by (cases channels) simp_all
  then have "i div channels < frames" using assms by (simp add: div_less_iff_less_mult)
  then show "((i mod channels) * frames + i div channels) div frames = i mod channels"
    and "((i mod channels) * frames + i div channels) mod frames = i div channels" by simp_all
qed

lemma transpose_inj:
  "inj_on (\<lambda>i. (i mod channels) * frames + i div channels) {0..<frames * (channels :: nat)}"
proof (rule inj_onI)
  fix i j :: nat
  assume a: "i \<in> {0..<frames * channels}" "j \<in> {0..<frames * channels}"
    "(i mod channels) * frames + i div channels = (j mod channels) * frames + j div channels"
  then have "i < frames * channels" "j < frames * channels" by simp_all
  from transpose_inverse [OF this(1)] transpose_inverse [OF this(2)] a(3)
  have "i mod channels = j mod channels" "i div channels = j div channels" by simp_all
  then show "i = j" by (metis div_mod_decomp)
qed

lemma sample_index:
  assumes "f < frames" and "c < channels"
  shows "f * channels + c < frames * (channels :: nat)"
    and "(f * channels + c) mod channels = c" and "(f * channels + c) div channels = f"
proof -
  have "f * channels + c < Suc f * channels" using assms(2) by simp
  also have "\<dots> \<le> frames * channels" by (rule mult_le_mono1) (use assms(1) in simp)
  finally show "f * channels + c < frames * channels" .
qed (use assms in simp_all)

text \<open>
  Converting interleaved audio to channel after channel puts frame \<open>f\<close> of channel
  \<open>c\<close>, converted, at \<open>c * frames + f\<close>; every place of the destination is written and no other.
\<close>

theorem deinterleave_transposes:
  assumes "length src = frames * channels" and "length dst = frames * channels"
    and "\<forall>s \<in> set src. conv s \<noteq> None" and "f < frames" and "c < channels"
  shows "map_option (\<lambda>r. (length r, Some (r ! (c * frames + f))))
      (convert_flat Data_interleaved Data_noninterleaved conv (frames * channels) channels src dst)
    = Some (frames * channels, conv (src ! (f * channels + c)))"
proof -
  have fr: "frames * channels div channels = frames" using assms(5) by simp
  have "\<exists>r. convert_loop (\<lambda>i. i) (\<lambda>i. (i mod channels) * frames + i div channels) conv [0..<frames * channels] src dst = Some r \<and>
    length r = length dst \<and>
    (\<forall>i \<in> set [0..<frames * channels]. r ! ((i mod channels) * frames + i div channels) = the (conv (src ! i))) \<and>
    (\<forall>k. k \<notin> (\<lambda>i. (i mod channels) * frames + i div channels) ` set [0..<frames * channels] \<longrightarrow> r ! k = dst ! k)"
  proof (rule convert_loop_spec)
    show "inj_on (\<lambda>i. (i mod channels) * frames + i div channels) (set [0..<frames * channels])"
      using transpose_inj [of channels frames] by simp
  qed (use assms(1-3) transpose_bound [of _ frames channels] in auto)
  then obtain r where r: "convert_loop (\<lambda>i. i) (\<lambda>i. (i mod channels) * frames + i div channels) conv [0..<frames * channels] src dst = Some r"
    "length r = length dst"
    "\<forall>i < frames * channels. r ! ((i mod channels) * frames + i div channels) = the (conv (src ! i))" by auto
  have "r ! (c * frames + f) = the (conv (src ! (f * channels + c)))"
    using r(3) sample_index [OF assms(4,5)] by (metis)
  moreover have "conv (src ! (f * channels + c)) \<noteq> None"
    using assms(1,3) sample_index(1) [OF assms(4,5)] by simp
  ultimately show ?thesis using r assms(2,5) by (simp add: convert_flat_def fr)
qed

theorem deinterleave_transposes_witness:
  "map_option (\<lambda>r. (length r, Some (r ! (1 * 3 + 2))))
      (convert_flat Data_interleaved Data_noninterleaved (\<lambda>s. Some (s + 1)) (3 * 2) 2 [10, 20, 11, 21, 12, 22] [0, 0, 0, 0, 0, (0 :: nat)])
    = Some (3 * 2, Some (22 + 1))"
  by (subst deinterleave_transposes) simp_all

text \<open>
  The loop from channel after channel to interleaved takes the channel as
  \<open>i % num_frames\<close> where it means \<open>i % num_channels\<close>: whenever there are more frames than channels, it
  reads outside the source.
\<close>

theorem noninterleaved_convert_undefined:
  assumes "0 < channels" and "channels < frames" and "length src = frames * channels"
  shows "convert_flat Data_noninterleaved Data_interleaved conv (frames * channels) channels src dst = None"
proof -
  have stuck: "convert_loop si di conv is src d = None"
    if "i \<in> set is" "length src \<le> si i" for si di :: "nat \<Rightarrow> nat" and i "is" and d
    using that by (induction "is" arbitrary: d) (auto split: option.splits bind_split)
  have "frames * channels \<le> (frames - 1) * frames"
    using mult_le_mono2 [of channels "frames - 1" frames] assms(2) by (simp only: mult.commute)
  also have "\<dots> \<le> ((frames - 1) mod frames) * frames + (frames - 1) div channels"
    using assms(2) by simp
  finally have bad: "length src \<le> ((frames - 1) mod frames) * frames + (frames - 1) div channels"
    using assms(3) by simp
  have "frames \<le> frames * channels" using assms(1) by simp
  with assms(2) have "frames - 1 < frames * channels" by linarith
  then have "frames - 1 \<in> set [0..<frames * channels]" by simp
  from stuck [where si = "\<lambda>i. (i mod frames) * frames + i div channels", OF this bad] show ?thesis
    using assms(1) by (simp add: convert_flat_def)
qed

theorem noninterleaved_convert_undefined_witness:
  "convert_flat Data_noninterleaved Data_interleaved Some (3 * 2) 2 [1 :: nat, 2, 3, 4, 5, 6] [0, 0, 0, 0, 0, 0] = None"
  by (rule noninterleaved_convert_undefined) simp_all

section \<open>Interleaving and back\<close>

lemma de_interleave_spec:
  assumes "length x = frames * channels * w" and "length y = length x" and "0 < channels" and "0 < w"
  shows "\<exists>r. de_interleave x y channels w = Some r \<and> length r = length x \<and>
    (\<forall>i < frames * channels. \<forall>k < w. r ! (w * ((i mod channels) * frames + i div channels) + k) = x ! (w * i + k))"
proof -
  have fr: "length x div (channels * w) = frames" using assms by simp
  have si: "(i div channels) * (channels * w) + (i mod channels) * w = w * i" for i
    using div_mult_mod_eq [of i channels] by (metis add_mult_distrib mult.assoc mult.commute)
  have di: "(i mod channels) * frames * w + (i div channels) * w = w * ((i mod channels) * frames + i div channels)" for i
    by (simp add: algebra_simps)
  have fits: "w * i + w \<le> length x" if "i < frames * channels" for i
    using mult_le_mono2 [of "Suc i" "frames * channels" w] that assms(1) by (simp add: mult.commute)
  have "\<exists>r. copy_samples (\<lambda>i. w * i) (\<lambda>i. w * ((i mod channels) * frames + i div channels)) w [0..<frames * channels] x y = Some r \<and>
    length r = length y \<and>
    (\<forall>i \<in> set [0..<frames * channels]. \<forall>k < w. r ! (w * ((i mod channels) * frames + i div channels) + k) = x ! (w * i + k)) \<and>
    (\<forall>q k. k < w \<longrightarrow> q \<notin> (\<lambda>i. (i mod channels) * frames + i div channels) ` set [0..<frames * channels] \<longrightarrow>
       w * q + w \<le> length y \<longrightarrow> r ! (w * q + k) = y ! (w * q + k))"
    using transpose_inj [of channels frames] transpose_bound [of _ frames channels] fits assms(2)
    by (intro copy_samples_spec) auto
  then show ?thesis using assms by (auto simp: de_interleave_def fr si di)
qed

lemma interleave_spec:
  assumes "length y = frames * channels * w" and "length z = length y" and "0 < channels"
  shows "\<exists>r. interleave y z channels w frames = Some r \<and> length r = length y \<and>
    (\<forall>i < frames * channels. \<forall>k < w. r ! (w * i + k) = y ! (w * ((i mod channels) * frames + i div channels) + k))"
proof -
  have di: "(i div channels) * (channels * w) + (i mod channels) * w = w * i" for i
    using div_mult_mod_eq [of i channels] by (metis add_mult_distrib mult.assoc mult.commute)
  have si: "(i mod channels) * frames * w + (i div channels) * w = w * ((i mod channels) * frames + i div channels)" for i
    by (simp add: algebra_simps)
  have fits: "w * i + w \<le> length y" if "i < frames * channels" for i
    using mult_le_mono2 [of "Suc i" "frames * channels" w] that assms(1) by (simp add: mult.commute)
  have "\<exists>r. copy_samples (\<lambda>i. w * ((i mod channels) * frames + i div channels)) (\<lambda>i. w * id i) w [0..<frames * channels] y z = Some r \<and>
    length r = length z \<and>
    (\<forall>i \<in> set [0..<frames * channels]. \<forall>k < w. r ! (w * id i + k) = y ! (w * ((i mod channels) * frames + i div channels) + k)) \<and>
    (\<forall>q k. k < w \<longrightarrow> q \<notin> id ` set [0..<frames * channels] \<longrightarrow>
       w * q + w \<le> length z \<longrightarrow> r ! (w * q + k) = z ! (w * q + k))"
    using transpose_bound [of _ frames channels] fits assms(2) by (intro copy_samples_spec) auto
  then show ?thesis using assms by (auto simp: interleave_def si di)
qed

text \<open>
  C25: \<open>interleave\<close> undoes \<open>de_interleave\<close> for any number of channels, sample size and
  number of frames, whatever the output buffers held.
\<close>

theorem interleave_roundtrip:
  assumes "length x = frames * channels * w" and "length y = length x" and "length z = length x"
    and "0 < channels" and "0 < w"
  shows "Option.bind (de_interleave x y channels w) (\<lambda>r. interleave r z channels w frames) = Some x"
proof -
  from de_interleave_spec [OF assms(1,2,4,5)] obtain r where r: "de_interleave x y channels w = Some r" "length r = length x"
    "\<forall>i < frames * channels. \<forall>k < w. r ! (w * ((i mod channels) * frames + i div channels) + k) = x ! (w * i + k)" by blast
  from interleave_spec [of r frames channels w z] obtain q where q: "interleave r z channels w frames = Some q" "length q = length x"
    "\<forall>i < frames * channels. \<forall>k < w. q ! (w * i + k) = r ! (w * ((i mod channels) * frames + i div channels) + k)"
    using assms r(2) by auto
  have "q ! j = x ! j" if "j < length x" for j
  proof -
    have "j div w < frames * channels" using that assms(1,5) by (simp add: div_less_iff_less_mult)
    moreover have "j mod w < w" using assms(5) by simp
    ultimately have "q ! (w * (j div w) + j mod w) = x ! (w * (j div w) + j mod w)"
      using q(3) [rule_format, of "j div w" "j mod w"] r(3) [rule_format, of "j div w" "j mod w"] by (simp only:)
    then show ?thesis by (simp only: mult_div_mod_eq)
  qed
  then have "q = x" using q(2) by (simp add: list_eq_iff_nth_eq)
  then show ?thesis using r(1) q(1) by simp
qed

theorem interleave_roundtrip_witness:
  "Option.bind (de_interleave [1, 2, 3, 4, 5, 6, 7, 8, 9, 10, 11, 12] (replicate 12 0) 3 2)
     (\<lambda>r. interleave r (replicate 12 0) 3 2 2) = Some [1, 2, 3, 4, 5, 6, 7, 8, 9, 10, 11, 12]"
  by (rule interleave_roundtrip) simp_all

section \<open>PCM to floating point and back\<close>

lemma data_read_write:
  assumes "LENGTH('a::len) = 8 * sz" and "sz \<le> 8"
  shows "data_read d (data_write d sz (v :: 'a word)) = ucast v"
proof -
  have len: "length (word_to_mem v) = sz" using assms(1) by simp
  have dvd: "8 dvd LENGTH('a)" using assms(1) by simp
  have le: "(mem_to_word (word_to_mem v @ replicate (8 - sz) 0) :: u64) = ucast v"
  proof -
    have "le_value (replicate k 0) = 0" for k by (induction k) simp_all
    then have "le_value (word_to_mem v @ replicate (8 - sz) 0) = unat v"
      using unat_bound [of v] assms(1)
      by (simp add: le_value_append word_to_mem_def le_value_le_bytes power_256)
    then show ?thesis by (simp add: mem_to_word_def)
  qed
  have rv: "word_to_mem (swap_bytes_val v) = rev (word_to_mem v)"
    using len assms(1) dvd by (simp add: swap_bytes_val_rev word_to_mem_to_word)
  have be: "swap_bytes_val (mem_to_word (replicate (8 - sz) 0 @ rev (word_to_mem v)) :: u64) =
      mem_to_word (word_to_mem v @ replicate (8 - sz) 0)"
    using len assms(2) by (simp add: swap_bytes_val_rev word_to_mem_to_word)
  show ?thesis
    using len assms(1) by (simp add: data_read_def data_write_def rv be le)
qed

lemma sign_extend_16: "signed_drop_bit 48 (push_bit 48 (ucast (v :: u16) :: u64)) = (scast v :: u64)"
  by (rule bit_word_eqI) (auto simp: bit_simps)

lemma sign_extend_24_64: "signed_drop_bit 40 (push_bit 40 (ucast (v :: 24 word) :: u64)) = (scast v :: u64)"
  by (rule bit_word_eqI) (auto simp: bit_simps)

lemma convert_to_real_16:
  "convert_to_real S_s16 d (data_write d 2 (v :: u16)) = Some (of_int (sint v) / 32768)"
proof -
  have "sint (scast v :: u64) = sint v" by (rule sint_up_scast) (simp add: is_up)
  then show ?thesis
    by (simp add: convert_to_real_def data_read_write sign_extend_16 del: of_int_sint)
qed

lemma convert_to_real_24:
  "convert_to_real S_s24 d (data_write d 3 (v :: 24 word)) = Some (of_int (sint v) / 8388608)"
proof -
  have "sint (scast v :: u64) = sint v" by (rule sint_up_scast) (simp add: is_up)
  then show ?thesis
    by (simp add: convert_to_real_def data_read_write sign_extend_24_64 del: of_int_sint)
qed

lemma scale_down:
  fixes n :: int
  assumes "- m \<le> n" and "n < m" and "1 < m"
  shows "truncate_rat (max (- 1) (min 1 (of_int n / of_int m)) * of_int (m - 1)) = n - sgn n"
proof -
  have m: "(0 :: rat) < of_int m" using assms(3) by simp
  have "(of_int n :: rat) \<le> of_int m" "- (of_int m :: rat) \<le> of_int n"
    using assms of_int_le_iff [of n m, where 'a = rat] of_int_le_iff [of "- m" n, where 'a = rat] by simp_all
  then have clamp: "max (- 1) (min 1 (of_int n / of_int m)) = (of_int n / of_int m :: rat)"
    using m by (simp add: divide_le_eq le_divide_eq)
  have prod: "(of_int n / of_int m :: rat) * of_int (m - 1) = of_int n - of_int n / of_int m"
    using m by (simp add: field_simps)
  consider "n = 0" | "0 < n" | "n < 0" by linarith
  then show ?thesis
  proof cases
    case 1
    then show ?thesis by (simp add: truncate_rat_def)
  next
    case 2
    have frac: "0 < (of_int n / of_int m :: rat)" "(of_int n / of_int m :: rat) < 1"
      using 2 m assms(2) by simp_all
    have one: "(1 :: rat) \<le> of_int n" using 2 by simp
    have "\<lfloor>of_int n - of_int n / of_int m :: rat\<rfloor> = n - 1"
      by (rule floor_unique) (use frac in \<open>simp_all\<close>)
    then have "truncate_rat (of_int n - of_int n / of_int m) = n - 1"
      using frac one unfolding truncate_rat_def by (subst if_P) linarith+
    then show ?thesis using 2 unfolding clamp prod by simp
  next
    case 3
    have frac: "(of_int n / of_int m :: rat) < 0" "- 1 \<le> (of_int n / of_int m :: rat)"
      using 3 m assms(1) \<open>- (of_int m :: rat) \<le> of_int n\<close> by (simp_all add: divide_less_0_iff le_divide_eq)
    have one: "(of_int n :: rat) \<le> - 1" using 3 of_int_le_iff [of n "- 1", where 'a = rat] by simp
    have "\<lceil>of_int n - of_int n / of_int m :: rat\<rceil> = n + 1"
      by (rule ceiling_unique) (use frac in \<open>simp_all\<close>)
    have "truncate_rat (of_int n - of_int n / of_int m) = n + 1"
    proof (cases "of_int n - of_int n / of_int m = (0 :: rat)")
      case True
      then show ?thesis using \<open>\<lceil>of_int n - of_int n / of_int m :: rat\<rceil> = n + 1\<close> by (simp add: truncate_rat_def)
    next
      case False
      then have "\<not> 0 \<le> of_int n - of_int n / (of_int m :: rat)" using frac one by linarith
      then show ?thesis
        unfolding truncate_rat_def by (subst if_not_P) (use \<open>\<lceil>of_int n - of_int n / of_int m :: rat\<rceil> = n + 1\<close> in simp_all)
    qed
    then show ?thesis using 3 unfolding clamp prod by simp
  qed
qed

lemma convert_from_real_16:
  "convert_from_real S_s16 d (of_int (sint (v :: u16)) / 32768) =
   Some (data_write d 2 (word_of_int (sint v - sgn (sint v)) :: u16))"
  using scale_down [of 32768 "sint v"] sint_range_size [of v]
  by (simp add: convert_from_real_def size_word.rep_eq del: of_int_sint)

lemma int24_of_small:
  assumes "- (2 ^ 23) \<le> k" and "k < 2 ^ 23"
  shows "int24_of_int32 (word_of_int k) = word_of_int k"
proof -
  have k: "sint (word_of_int k :: u32) = k"
    using assms signed_take_bit_int_eq_self [of 31 k] sint_sbintrunc' [where 'a = 32, of k] by simp
  have "(word_of_int (int (unat (word_of_int k :: u32) mod 16777216)) :: 24 word) = word_of_int k"
    by (rule word_of_int_eq_iff [THEN iffD2])
      (simp add: unat_uint_mod uint_word_of_int take_bit_eq_mod mod_mod_cancel)
  moreover have "max (- 0x800000) (min 0x7fffff k) = k" using assms by simp
  ultimately show ?thesis
    by (simp add: int24_of_int32_def k word_to_mem_def le_bytes_take mem_to_word_def le_value_le_bytes)
qed

lemma convert_from_real_24:
  "convert_from_real S_s24 d (of_int (sint (v :: 24 word)) / 8388608) =
   Some (data_write d 3 (word_of_int (sint v - sgn (sint v)) :: 24 word))"
proof -
  have "- 8388608 \<le> sint v" "sint v < 8388608"
    using sint_range_size [of v] by (simp_all add: size_word.rep_eq)
  then show ?thesis
    using scale_down [of 8388608 "sint v"] int24_of_small [of "sint v - sgn (sint v)"]
    by (simp add: convert_from_real_def sgn_if del: of_int_sint split: if_splits)
qed
text \<open>
  A 16- or 24-bit PCM sample converted to floating point and back, in any byte orders, loses
  one step towards zero (and the most negative sample is lost): the two scales differ, \<open>2 ^ (w - 1)\<close> one way
  and \<open>2 ^ (w - 1) - 1\<close> the other, and the product is truncated.
\<close>

theorem pcm_real_roundtrip:
  "Option.bind (convert_to_real S_s16 sd (data_write sd 2 (v :: u16))) (convert_from_real S_s16 dd) =
     Some (data_write dd 2 (word_of_int (sint v - sgn (sint v)) :: u16)) \<and>
   Option.bind (convert_to_real S_s24 sd (data_write sd 3 (w :: 24 word))) (convert_from_real S_s24 dd) =
     Some (data_write dd 3 (word_of_int (sint w - sgn (sint w)) :: 24 word))"
  by (simp add: convert_to_real_16 convert_to_real_24 convert_from_real_16 convert_from_real_24 del: of_int_sint)

section \<open>Into channels\<close>

lemma frame_index_inj: "inj_on (\<lambda>i. (i mod channels, i div channels + k)) (A :: nat set)"
  by (rule inj_onI) (metis add_right_cancel div_mod_decomp prod.inject)

lemma convert_to_channels_interleaved:
  assumes "frames * channels \<le> length src" and "length dst = channels"
    and "\<forall>c < channels. frames \<le> length (dst ! c)"
    and "\<forall>i < frames * channels. conv (src ! i) = Some (g i)"
  shows "\<exists>r. convert_to_channels Data_interleaved conv frames channels 0 0 src dst = Some r \<and>
    map length r = map length dst \<and> (\<forall>f < frames. \<forall>c < channels. r ! c ! f = g (f * channels + c)) \<and>
    (\<forall>c < channels. \<forall>f \<ge> frames. r ! c ! f = dst ! c ! f)"
proof -
  have place: "i mod channels < channels" "i div channels < frames" if "i < frames * channels" for i
    using that by (cases "channels = 0"; simp add: div_less_iff_less_mult)+
  have fits: "i div channels < length (dst ! (i mod channels))" if "i < frames * channels" for i
    using place [OF that] assms(3) by (meson less_le_trans)
  have "\<exists>r. to_channels_loop (\<lambda>i. i + 0 * channels) (\<lambda>i. (i mod channels, i div channels + 0)) conv [0..<frames * channels] src dst = Some r \<and>
    map length r = map length dst \<and>
    (\<forall>i \<in> set [0..<frames * channels]. r ! fst (i mod channels, i div channels + 0) ! snd (i mod channels, i div channels + 0) = g i) \<and>
    (\<forall>c k. (c, k) \<notin> (\<lambda>i. (i mod channels, i div channels + 0)) ` set [0..<frames * channels] \<longrightarrow> r ! c ! k = dst ! c ! k)"
  proof (rule to_channels_spec)
    show "inj_on (\<lambda>i. (i mod channels, i div channels + 0)) (set [0..<frames * channels])"
      by (rule frame_index_inj)
  qed (use assms place fits in auto)
  then obtain r where r: "convert_to_channels Data_interleaved conv frames channels 0 0 src dst = Some r"
    "map length r = map length dst" "\<forall>i < frames * channels. r ! (i mod channels) ! (i div channels) = g i"
    "\<forall>c k. (c, k) \<notin> (\<lambda>i. (i mod channels, i div channels)) ` {0..<frames * channels} \<longrightarrow> r ! c ! k = dst ! c ! k"
    by (auto simp: convert_to_channels_def)
  have "r ! c ! f = g (f * channels + c)" if "f < frames" "c < channels" for f c
    using r(3) sample_index [OF that] by metis
  moreover have "r ! c ! f = dst ! c ! f" if "c < channels" "frames \<le> f" for f c
    using r(4) that place by force
  ultimately show ?thesis using r by blast
qed

section \<open>Octets as samples\<close>

text \<open>The octets from \<open>data\<close> on as an array of samples of \<open>w\<close> octets.\<close>

definition samples_of :: "nat \<Rightarrow> byte list \<Rightarrow> byte list list" where
  "samples_of w data = map (\<lambda>i. take w (drop (w * i) data)) [0..<length data div w]"

lemma length_concat_uniform:
  "(\<And>i. i < n \<Longrightarrow> length (h i) = w) \<Longrightarrow> length (concat (map h [0..<n])) = n * w"
  by (induction n) simp_all

lemma concat_block:
  assumes "\<And>i. i < n \<Longrightarrow> length (h i) = w" and "q < n"
  shows "take w (drop (w * q) (concat (map h [0..<n]) @ rest)) = h q"
proof -
  have "[0..<n] = [0..<q] @ q # [Suc q..<n]" 
    using upt_add_eq_append [of 0 q "n - q"] assms(2) by (simp add: upt_conv_Cons)
  then have "concat (map h [0..<n]) @ rest = concat (map h [0..<q]) @ h q @ concat (map h [Suc q..<n]) @ rest" by simp
  moreover have "length (concat (map h [0..<q])) = w * q"
    using length_concat_uniform [of q h w] assms by (simp add: mult.commute)
  ultimately show ?thesis using assms by simp
qed

lemma concat_blocks_merge:
  "concat (map (\<lambda>k. concat (map (\<lambda>i. h (k * N + i)) [0..<N])) [0..<M]) = concat (map h [0..<M * (N :: nat)])"
proof (induction M)
  case (Suc M)
  have "[0..<Suc M * N] = [0..<M * N] @ [M * N..<M * N + N]"
    using upt_add_eq_append [of 0 "M * N" N] by (simp add: add.commute)
  moreover have "[M * N..<M * N + N] = map (\<lambda>i. M * N + i) [0..<N]"
    using map_add_upt [of "M * N" N] by (simp add: add.commute)
  ultimately show ?case using Suc.IH by (simp add: comp_def)
qed simp

lemma samples_of_concat:
  assumes "\<And>i. i < n \<Longrightarrow> length (h i) = w" and "0 < w"
  shows "q < n \<Longrightarrow> samples_of w (concat (map h [0..<n]) @ rest) ! q = h q"
    and "n \<le> length (samples_of w (concat (map h [0..<n]) @ rest))"
proof -
  have "n * w \<le> length (concat (map h [0..<n]) @ rest)"
    using length_concat_uniform [OF assms(1)] by simp
  then have "n \<le> length (concat (map h [0..<n]) @ rest) div w"
    using assms(2) by (simp add: less_eq_div_iff_mult_less_eq)
  then show "q < n \<Longrightarrow> samples_of w (concat (map h [0..<n]) @ rest) ! q = h q"
    and "n \<le> length (samples_of w (concat (map h [0..<n]) @ rest))"
    using concat_block [where n = n and q = q, OF assms(1)] by (simp_all add: samples_of_def)
qed

end
