(* ===== verification/Audio_Format.thy ===== *)
theory Audio_Format
  imports Prelude
begin

text \<open>
  core/audio/audio_encoding.hpp and core/audio/audio_format.hpp: sample encodings and the format of a stream.
  The host is little endian, as in \<open>Byte_Order\<close>. Shown: the names of encodings, byte orders and orderings are
  read back as they are printed, and a valid format has frames of at least one octet unless 32-bit
  arithmetic wraps.
\<close>

section \<open>Encodings\<close>

datatype audio_encoding =
  Encoding_undefined | Pcm_s8 | Pcm_u8 | Pcm_s16 | Pcm_s24 | Pcm_s32 | Pcm_f32 | Pcm_f64

fun encoding_bytes_per_sample :: "audio_encoding \<Rightarrow> byte" where
  "encoding_bytes_per_sample Pcm_s8 = 1"
| "encoding_bytes_per_sample Pcm_u8 = 1"
| "encoding_bytes_per_sample Pcm_s16 = 2"
| "encoding_bytes_per_sample Pcm_s24 = 3"
| "encoding_bytes_per_sample Pcm_s32 = 4"
| "encoding_bytes_per_sample Pcm_f32 = 4"
| "encoding_bytes_per_sample Pcm_f64 = 8"
| "encoding_bytes_per_sample Encoding_undefined = 0"

definition encoding_ground_value :: "audio_encoding \<Rightarrow> byte" where
  "encoding_ground_value e = (if e = Pcm_u8 then 0x80 else 0)"

fun encoding_to_string :: "audio_encoding \<Rightarrow> string" where
  "encoding_to_string Encoding_undefined = ''undefined''"
| "encoding_to_string Pcm_s8 = ''pcm_s8''"
| "encoding_to_string Pcm_u8 = ''pcm_u8''"
| "encoding_to_string Pcm_s16 = ''pcm_s16''"
| "encoding_to_string Pcm_s24 = ''pcm_s24''"
| "encoding_to_string Pcm_s32 = ''pcm_s32''"
| "encoding_to_string Pcm_f32 = ''pcm_f32''"
| "encoding_to_string Pcm_f64 = ''pcm_f64''"

text \<open>\<open>None\<close> as argument is the null pointer.\<close>

definition encoding_from_string :: "string option \<Rightarrow> audio_encoding option" where
  "encoding_from_string str =
     (case str of
        None \<Rightarrow> None
      | Some s \<Rightarrow>
          if s = ''pcm_s8'' then Some Pcm_s8
          else if s = ''pcm_u8'' then Some Pcm_u8
          else if s = ''pcm_s16'' then Some Pcm_s16
          else if s = ''pcm_s24'' then Some Pcm_s24
          else if s = ''pcm_s32'' then Some Pcm_s32
          else if s = ''pcm_f32'' then Some Pcm_f32
          else if s = ''pcm_f64'' then Some Pcm_f64
          else if s = ''undefined'' then Some Encoding_undefined
          else None)"

section \<open>Formats\<close>

datatype audio_byte_order = Order_le | Order_be

datatype channel_ordering = Interleaved | Noninterleaved

record audio_format =
  af_byte_order :: audio_byte_order
  af_encoding :: audio_encoding
  af_ordering :: channel_ordering
  af_sample_rate :: u32
  af_num_channels :: u32

definition audio_format_init :: audio_format where
  "audio_format_init =
     \<lparr>af_byte_order = Order_le, af_encoding = Encoding_undefined, af_ordering = Interleaved,
      af_sample_rate = 0, af_num_channels = 0\<rparr>"

definition format_bytes_per_sample :: "audio_format \<Rightarrow> byte" where
  "format_bytes_per_sample f = encoding_bytes_per_sample (af_encoding f)"

definition format_bytes_per_frame :: "audio_format \<Rightarrow> u32" where
  "format_bytes_per_frame f = ucast (format_bytes_per_sample f) * af_num_channels f"

definition format_ground_value :: "audio_format \<Rightarrow> byte" where
  "format_ground_value f = encoding_ground_value (af_encoding f)"

definition format_valid :: "audio_format \<Rightarrow> bool" where
  "format_valid f \<longleftrightarrow> af_encoding f \<noteq> Encoding_undefined \<and> af_sample_rate f \<noteq> 0 \<and> af_num_channels f \<noteq> 0"

definition is_native_byte_order :: "audio_format \<Rightarrow> bool" where
  "is_native_byte_order f \<longleftrightarrow> True = (af_byte_order f = Order_le)"

definition with_byte_order :: "audio_byte_order \<Rightarrow> audio_format \<Rightarrow> audio_format" where
  "with_byte_order b f =
     \<lparr>af_byte_order = b, af_encoding = af_encoding f, af_ordering = af_ordering f,
      af_sample_rate = af_sample_rate f, af_num_channels = af_num_channels f\<rparr>"

definition byte_order_to_string :: "audio_byte_order \<Rightarrow> string" where
  "byte_order_to_string b = (if b = Order_le then ''le'' else ''be'')"

definition ordering_to_string :: "channel_ordering \<Rightarrow> string" where
  "ordering_to_string c = (if c = Interleaved then ''interleaved'' else ''noninterleaved'')"

definition byte_order_from_string :: "string \<Rightarrow> audio_byte_order option" where
  "byte_order_from_string s =
     (if s = ''le'' then Some Order_le else if s = ''be'' then Some Order_be else None)"

definition channel_ordering_from_string :: "string \<Rightarrow> channel_ordering option" where
  "channel_ordering_from_string s =
     (if s = ''interleaved'' then Some Interleaved
      else if s = ''noninterleaved'' then Some Noninterleaved else None)"

section \<open>Lemmas\<close>

lemma encoding_roundtrip: "encoding_from_string (Some (encoding_to_string e)) = Some e"
  by (cases e) (simp_all add: encoding_from_string_def)

lemma byte_order_roundtrip: "byte_order_from_string (byte_order_to_string b) = Some b"
  by (cases b) (simp_all add: byte_order_from_string_def byte_order_to_string_def)

lemma ordering_roundtrip: "channel_ordering_from_string (ordering_to_string c) = Some c"
  by (cases c) (simp_all add: channel_ordering_from_string_def ordering_to_string_def)

lemma with_byte_order_same: "with_byte_order (af_byte_order f) f = f"
  by (simp add: with_byte_order_def)

lemma bytes_per_sample_bound: "unat (encoding_bytes_per_sample e) \<le> 8"
  by (cases e) simp_all

lemma unat_ucast_widen: "LENGTH('a::len) \<le> LENGTH('b::len) \<Longrightarrow> unat (ucast (w :: 'a word) :: 'b word) = unat w"
  using unsigned_less [of w, where 'a = nat]
  by (simp add: unsigned_ucast_eq take_bit_nat_eq_self_iff
      order_less_le_trans [OF _ power_increasing [of "LENGTH('a)" "LENGTH('b)" "2 :: nat"]])

lemma format_bytes_per_frame_exact:
  assumes "unat (af_num_channels f) < 2 ^ 29"
  shows "unat (format_bytes_per_frame f) = unat (format_bytes_per_sample f) * unat (af_num_channels f)"
proof -
  have "unat (format_bytes_per_sample f) \<le> 8"
    by (simp add: format_bytes_per_sample_def bytes_per_sample_bound)
  then have "unat (format_bytes_per_sample f) * unat (af_num_channels f) \<le> 8 * (2 ^ 29 - 1)"
    using assms by (intro mult_le_mono) simp_all
  moreover have "unat (ucast (format_bytes_per_sample f) :: u32) = unat (format_bytes_per_sample f)"
    by (simp add: unat_ucast_widen)
  ultimately show ?thesis by (simp add: format_bytes_per_frame_def unat_word_ariths)
qed

text \<open>A valid format has a frame size other than zero, unless the channel count makes the product wrap.\<close>

lemma format_frame_positive:
  assumes "format_valid f" and "unat (af_num_channels f) < 2 ^ 29"
  shows "0 < unat (format_bytes_per_frame f)"
proof -
  have "0 < unat (format_bytes_per_sample f)"
    using assms(1) by (cases "af_encoding f") (simp_all add: format_valid_def format_bytes_per_sample_def)
  moreover have "0 < unat (af_num_channels f)" using assms(1) by (simp add: format_valid_def unat_gt_0)
  ultimately show ?thesis by (simp add: format_bytes_per_frame_exact [OF assms(2)])
qed

end
