(* ===== verification/Rtp_Receiver.thy ===== *)
theory Rtp_Receiver
  imports Complex_Main Ringbuffer Packet_Stats Rtp_Packet Audio_Format
begin

text \<open>
  rtp/detail/rtp_audio_receiver.cpp: the receiver of RTP audio. A reader joins up to two redundant streams into
  one ring buffer. The network thread takes datagrams off the sockets, finds the streams they belong to and
  queues their payload; the audio thread moves queued payloads into the ring and reads it. Every function of
  the source is a function of the state here; each runs to its end before the next begins, as the reader and
  socket locks and the single-producer single-consumer queues provide. Inputs of a call are what it gets from
  outside: which locks it obtained, whether a socket could be opened, the datagrams received and the clock.
  Joining and leaving multicast groups are recorded in a log, their results are only logged by the source.
  \<open>None\<close> is undefined behaviour: an access out of bounds, a division by zero, a null dereference.
\<close>

section \<open>Intervals between packets\<close>

text \<open>core/math/interval_stats.hpp, over exact rationals.\<close>

record interval_stats =
  is_interval :: rat
  is_max_deviation :: rat
  is_initialized :: bool
  is_alpha :: rat
  is_step_size :: rat

definition k_min_step_size :: rat where "k_min_step_size = 1 / 100000"
definition k_max_step_size :: rat where "k_max_step_size = 100000"

definition interval_stats_init :: interval_stats where
  "interval_stats_init = \<lparr>is_interval = 0, is_max_deviation = 0, is_initialized = False, is_alpha = 1 / 1000,
     is_step_size = k_min_step_size\<rparr>"

definition interval_stats_update :: "rat \<Rightarrow> interval_stats \<Rightarrow> interval_stats" where
  "interval_stats_update v s =
     (if \<not> is_initialized s then s\<lparr>is_interval := v, is_initialized := True\<rparr>
      else
        let ema = is_alpha s * v + (1 - is_alpha s) * is_interval s;
            step = ema - is_interval s;
            s1 = (if step > is_step_size s
                  then s\<lparr>is_interval := is_interval s + is_step_size s,
                         is_step_size := min (is_step_size s * 2) k_max_step_size\<rparr>
                  else if step < - is_step_size s
                  then s\<lparr>is_interval := is_interval s - is_step_size s,
                         is_step_size := min (is_step_size s * 2) k_max_step_size\<rparr>
                  else s\<lparr>is_interval := ema, is_step_size := max (is_step_size s / 2) k_min_step_size\<rparr>)
        in s1\<lparr>is_max_deviation := max \<bar>v - is_interval s1\<bar> (is_max_deviation s1)\<rparr>)"

section \<open>State\<close>

definition k_max_num_readers :: nat where "k_max_num_readers = 16"
definition k_max_num_redundant_sessions :: nat where "k_max_num_redundant_sessions = 2"
definition k_receive_timeout_ms :: u64 where "k_receive_timeout_ms = 1000"
definition k_buffer_size_ms :: u32 where "k_buffer_size_ms = 200"
definition k_max_num_sessions :: nat where
  "k_max_num_sessions = k_max_num_readers * k_max_num_redundant_sessions"
definition k_max_payload :: nat where "k_max_payload = 1440"
definition k_mtu :: nat where "k_mtu = 1500"

record stream_info =
  si_session :: session
  si_filter :: rtp_filter
  si_packet_time_frames :: u16

definition stream_info_valid :: "stream_info \<Rightarrow> bool" where
  "stream_info_valid s \<longleftrightarrow> session_valid (si_session s) \<and> si_packet_time_frames s > 0"

record reader_parameters =
  rp_audio_format :: audio_format
  rp_streams :: "stream_info list"

definition reader_parameters_valid :: "reader_parameters \<Rightarrow> bool" where
  "reader_parameters_valid p \<longleftrightarrow> format_valid (rp_audio_format p) \<and> list_ex stream_info_valid (rp_streams p)"

datatype stream_state = Inactive | Receiving | No_consumer

fun stream_state_to_string :: "stream_state \<Rightarrow> string" where
  "stream_state_to_string Inactive = ''inactive''"
| "stream_state_to_string Receiving = ''receiving''"
| "stream_state_to_string No_consumer = ''ok_no_consumer''"

record packet_buffer =
  pb_timestamp :: u32
  pb_seq :: u16
  pb_data_len :: u16
  pb_recv_time :: u64
  pb_payload :: "byte list"

definition packet_buffer_init :: packet_buffer where
  "packet_buffer_init = \<lparr>pb_timestamp = 0, pb_seq = 0, pb_data_len = 0, pb_recv_time = 0,
     pb_payload = replicate k_max_payload 0\<rparr>"

text \<open>The counters published, with the jitter; \<open>st_published\<close> lists every value written to the \<open>spsc_value\<close>.\<close>

record published =
  pub_counters :: counters
  pub_jitter :: rat

record stream_context =
  st_session :: session
  st_filter :: rtp_filter
  st_packet_time_frames :: u16
  st_rtp_ts :: "u32 option"
  st_interface :: u32
  st_packets :: "packet_buffer fifo_buffer"
  st_packets_too_old :: "u16 fifo_buffer"
  st_packet_stats :: packet_stats
  st_published :: "published list"
  st_reset_max_values :: bool
  st_interval_stats :: interval_stats
  st_prev_packet_time :: u64
  st_state :: stream_state

definition stream_context_init :: stream_context where
  "stream_context_init = \<lparr>st_session = session_init, st_filter = rtp_filter_init, st_packet_time_frames = 0,
     st_rtp_ts = None, st_interface = 0, st_packets = fifo_buffer_init, st_packets_too_old = fifo_buffer_init,
     st_packet_stats = packet_stats_init, st_published = [], st_reset_max_values = False,
     st_interval_stats = interval_stats_init, st_prev_packet_time = 0, st_state = Inactive\<rparr>"

record reader =
  rd_id :: u64
  rd_audio_format :: audio_format
  rd_streams :: "stream_context list"
  rd_receive_buffer :: ringbuffer
  rd_read_audio_data_buffer :: "byte list"
  rd_most_recent_ts :: "u32 option"
  rd_next_ts_to_read :: u32

definition reader_init :: reader where
  "reader_init = \<lparr>rd_id = 0, rd_audio_format = audio_format_init,
     rd_streams = replicate k_max_num_redundant_sessions stream_context_init, rd_receive_buffer = ringbuffer_init,
     rd_read_audio_data_buffer = [], rd_most_recent_ts = None, rd_next_ts_to_read = 0\<rparr>"

record socket_context =
  sk_open :: bool
  sk_port :: u16

text \<open>What is asked of the network: socket (by slot), group, interface.\<close>

datatype group_op = Join nat u32 u32 | Leave nat u32 u32

record receiver =
  rx_sockets :: "socket_context list"
  rx_readers :: "reader list"
  rx_last_time_maintenance :: u64
  rx_groups :: "group_op list"

definition receiver_init :: receiver where
  "receiver_init = \<lparr>rx_sockets = replicate k_max_num_sessions \<lparr>sk_open = False, sk_port = 0\<rparr>,
     rx_readers = replicate k_max_num_readers reader_init, rx_last_time_maintenance = 0, rx_groups = []\<rparr>"

text \<open>\<open>to_v4\<close> throws for an IPv6 address.\<close>

definition to_v4 :: "address \<Rightarrow> u32 option" where
  "to_v4 a = (case a of V4 n \<Rightarrow> Some n | V6 _ \<Rightarrow> None)"

definition id_valid :: "u64 \<Rightarrow> bool" where
  "id_valid i \<longleftrightarrow> i \<noteq> 0"

section \<open>Adding, changing and removing readers\<close>

definition all_streams :: "receiver \<Rightarrow> stream_context list" where
  "all_streams rx = concat (map rd_streams (rx_readers rx))"

definition count_multicast_groups :: "receiver \<Rightarrow> u32 \<Rightarrow> u32 \<Rightarrow> u16 \<Rightarrow> u32" where
  "count_multicast_groups rx grp iface port =
     of_nat (length (filter (\<lambda>s. st_interface s = iface \<and> connection_address (st_session s) = V4 grp \<and>
       rtp_port (st_session s) = port) (all_streams rx)))"

definition count_num_sessions_using_rtp_port :: "receiver \<Rightarrow> u16 \<Rightarrow> nat" where
  "count_num_sessions_using_rtp_port rx port =
     length (filter (\<lambda>s. rtp_port (st_session s) = port) (all_streams rx))"

definition reset_stream_context :: "stream_context \<Rightarrow> stream_context" where
  "reset_stream_context s = s\<lparr>st_session := session_init, st_filter := rtp_filter_init, st_interface := 0,
     st_rtp_ts := None, st_packets := reset_buf (st_packets s), st_packets_too_old := reset_buf (st_packets_too_old s),
     st_packet_stats := stats_reset (st_packet_stats s),
     st_published := st_published s @ [\<lparr>pub_counters = counters_init, pub_jitter = 0\<rparr>],
     st_interval_stats := interval_stats_init, st_prev_packet_time := 0\<rparr>"

definition reset_reader :: "reader \<Rightarrow> reader" where
  "reset_reader r = r\<lparr>rd_id := 0, rd_audio_format := audio_format_init,
     rd_streams := map reset_stream_context (rd_streams r), rd_receive_buffer := rb_clear (rd_receive_buffer r),
     rd_read_audio_data_buffer := [], rd_most_recent_ts := None, rd_next_ts_to_read := 0\<rparr>"

definition find_socket :: "receiver \<Rightarrow> u16 \<Rightarrow> nat option" where
  "find_socket rx port = index_of port (map sk_port (rx_sockets rx))"

text \<open>
  The loop over the socket slots; \<open>locked\<close> tells which slots could be locked, \<open>opens\<close> whether \<open>setup_socket\<close>
  succeeds. A failed set-up has closed the socket again.
\<close>

fun reuse_slot :: "(nat \<Rightarrow> bool) \<Rightarrow> bool \<Rightarrow> nat \<Rightarrow> socket_context list \<Rightarrow> nat option" where
  "reuse_slot locked opens i [] = None"
| "reuse_slot locked opens i (c # cs) =
     (if \<not> locked i then None
      else if sk_open c then reuse_slot locked opens (Suc i) cs
      else if \<not> opens then None
      else Some i)"

definition find_or_create_socket :: "(nat \<Rightarrow> bool) \<Rightarrow> (u16 \<Rightarrow> bool) \<Rightarrow> u16 \<Rightarrow> receiver \<Rightarrow> nat option \<times> receiver" where
  "find_or_create_socket locked opens port rx =
     (case find_socket rx port of
        Some i \<Rightarrow> (Some i, rx)
      | None \<Rightarrow>
          (case reuse_slot locked (opens port) 0 (rx_sockets rx) of
             None \<Rightarrow> (None, rx)
           | Some i \<Rightarrow> (Some i, rx\<lparr>rx_sockets := (rx_sockets rx)[i := \<lparr>sk_open = True, sk_port = port\<rparr>]\<rparr>)))"

definition issue :: "group_op \<Rightarrow> receiver \<Rightarrow> receiver" where
  "issue g rx = rx\<lparr>rx_groups := rx_groups rx @ [g]\<rparr>"

definition leave_multicast_group_if_last :: "u32 \<Rightarrow> u32 \<Rightarrow> u16 \<Rightarrow> receiver \<Rightarrow> bool \<times> receiver" where
  "leave_multicast_group_if_last grp iface port rx =
     (if count_multicast_groups rx grp iface port \<noteq> 1 then (False, rx)
      else (True, fold (\<lambda>i rx. if sk_port (rx_sockets rx ! i) = port then issue (Leave i grp iface) rx else rx)
                    [0..<length (rx_sockets rx)] rx))"

definition close_unused_sockets :: "(nat \<Rightarrow> bool) \<Rightarrow> receiver \<Rightarrow> receiver" where
  "close_unused_sockets locked rx = fold (\<lambda>i rx.
     let c = rx_sockets rx ! i in
     if \<not> sk_open c then rx
     else if count_num_sessions_using_rtp_port rx (sk_port c) = 0 \<and> locked i
     then rx\<lparr>rx_sockets := (rx_sockets rx)[i := \<lparr>sk_open = False, sk_port = 0\<rparr>]\<rparr>
     else rx) [0..<length (rx_sockets rx)] rx"

definition update_reader :: "nat \<Rightarrow> (reader \<Rightarrow> reader) \<Rightarrow> receiver \<Rightarrow> receiver" where
  "update_reader k f rx = rx\<lparr>rx_readers := (rx_readers rx)[k := f (rx_readers rx ! k)]\<rparr>"

definition update_stream :: "nat \<Rightarrow> nat \<Rightarrow> (stream_context \<Rightarrow> stream_context) \<Rightarrow> receiver \<Rightarrow> receiver" where
  "update_stream k i f = update_reader k (\<lambda>r. r\<lparr>rd_streams := (rd_streams r)[i := f (rd_streams r ! i)]\<rparr>)"

abbreviation stream_of :: "receiver \<Rightarrow> nat \<Rightarrow> nat \<Rightarrow> stream_context" where
  "stream_of rx k i \<equiv> rd_streams (rx_readers rx ! k) ! i"

text \<open>The smallest packet time that is not 0, or 65535.\<close>

definition smallest_packet_time :: "stream_info list \<Rightarrow> u16" where
  "smallest_packet_time ss = fold (\<lambda>s m. if si_packet_time_frames s > 0 \<and> si_packet_time_frames s < m
     then si_packet_time_frames s else m) ss (- 1)"

text \<open>The last loop of \<open>setup_reader\<close>, for stream \<open>i\<close> of reader \<open>k\<close>.\<close>

definition setup_stream :: "(nat \<Rightarrow> bool) \<Rightarrow> (u16 \<Rightarrow> bool) \<Rightarrow> nat \<Rightarrow> u32 \<Rightarrow> nat \<Rightarrow> receiver \<Rightarrow> receiver option" where
  "setup_stream locked opens k packets i rx =
     (let s = stream_of rx k i; se = st_session s in
      if \<not> session_valid se
      then Some (update_stream k i (\<lambda>s. s\<lparr>st_packets := reset_buf (st_packets s),
                   st_packets_too_old := reset_buf (st_packets_too_old s)\<rparr>) rx)
      else
        let rx1 = update_stream k i (\<lambda>s. s\<lparr>st_packets := resize_buf packet_buffer_init (st_packets s) (ucast packets),
                    st_packets_too_old := resize_buf 0 (st_packets_too_old s) (ucast packets)\<rparr>) rx;
            (sock, rx2) = find_or_create_socket locked opens (rtp_port se) rx1 in
        case sock of
          None \<Rightarrow> Some rx2
        | Some n \<Rightarrow>
            if address_multicast (connection_address se) \<and> st_interface s \<noteq> 0
            then do {
              grp \<leftarrow> to_v4 (connection_address se);
              Some (if count_multicast_groups rx2 grp (st_interface s) (rtp_port se) = 1
                    then issue (Join n grp (st_interface s)) rx2 else rx2) }
            else Some rx2)"

fun setup_streams :: "(nat \<Rightarrow> bool) \<Rightarrow> (u16 \<Rightarrow> bool) \<Rightarrow> nat \<Rightarrow> u32 \<Rightarrow> nat list \<Rightarrow> receiver \<Rightarrow> receiver option" where
  "setup_streams locked opens k packets [] rx = Some rx"
| "setup_streams locked opens k packets (i # is) rx = do {
     rx' \<leftarrow> setup_stream locked opens k packets i rx;
     setup_streams locked opens k packets is rx' }"

definition format_supported :: "audio_format \<Rightarrow> bool" where
  "format_supported f \<longleftrightarrow> af_byte_order f = Order_be \<and> af_ordering f = Interleaved \<and>
     (af_encoding f = Pcm_s16 \<or> af_encoding f = Pcm_s24)"

definition buffer_frames :: "audio_format \<Rightarrow> u32" where
  "buffer_frames f = max (af_sample_rate f * k_buffer_size_ms div 1000) 1024"

definition configure_stream :: "stream_info \<Rightarrow> u32 \<Rightarrow> stream_context \<Rightarrow> stream_context" where
  "configure_stream p iface s = (reset_stream_context s)\<lparr>st_session := si_session p, st_filter := si_filter p,
     st_packet_time_frames := si_packet_time_frames p, st_interface := iface\<rparr>"

definition configure_reader :: "u64 \<Rightarrow> reader_parameters \<Rightarrow> u32 list \<Rightarrow> reader \<Rightarrow> reader" where
  "configure_reader i p ifaces r =
     (let f = rp_audio_format p; bpf = format_bytes_per_frame f in
      r\<lparr>rd_id := i,
        rd_streams := map (\<lambda>((s, q), iface). configure_stream q iface s) (zip (zip (rd_streams r) (rp_streams p)) ifaces),
        rd_audio_format := f,
        rd_receive_buffer := rb_resize (rb_clear (rd_receive_buffer r)) (af_sample_rate f * k_buffer_size_ms div 1000) bpf,
        rd_read_audio_data_buffer :=
          (let n = unat (buffer_frames f * bpf); b = rd_read_audio_data_buffer r in take n b @ replicate (n - length b) 0)\<rparr>)"

definition setup_reader ::
  "(nat \<Rightarrow> bool) \<Rightarrow> (u16 \<Rightarrow> bool) \<Rightarrow> nat \<Rightarrow> u64 \<Rightarrow> reader_parameters \<Rightarrow> u32 list \<Rightarrow> receiver \<Rightarrow> (bool \<times> receiver) option" where
  "setup_reader locked opens k i p ifaces rx =
     (if \<not> format_supported (rp_audio_format p) then Some (False, rx)
      else do {
        rx' \<leftarrow> setup_streams locked opens k
                (buffer_frames (rp_audio_format p) div ucast (smallest_packet_time (rp_streams p)))
                [0..<length (rd_streams (rx_readers rx ! k))] (update_reader k (configure_reader i p ifaces) rx);
        Some (True, rx') })"

definition set_stream_interface :: "nat \<Rightarrow> u32 \<Rightarrow> nat \<Rightarrow> receiver \<Rightarrow> receiver option" where
  "set_stream_interface k iface i rx =
     (let s = stream_of rx k i; a = connection_address (st_session s); port = rtp_port (st_session s) in
      if st_interface s = iface then Some rx
      else do {
        rx1 \<leftarrow> (if st_interface s \<noteq> 0 \<and> address_multicast a
               then do { grp \<leftarrow> to_v4 a; Some (snd (leave_multicast_group_if_last grp (st_interface s) port rx)) }
               else Some rx);
        let rx2 = update_stream k i (\<lambda>s. s\<lparr>st_interface := 0\<rparr>) rx1;
        rx3 \<leftarrow> (if iface \<noteq> 0 \<and> address_multicast a
               then do {
                 grp \<leftarrow> to_v4 a;
                 if count_multicast_groups rx2 grp iface port = 0
                 then do { n \<leftarrow> find_socket rx2 port; Some (issue (Join n grp iface) rx2) }
                 else Some rx2 }
               else Some rx2);
        Some (update_stream k i (\<lambda>s. s\<lparr>st_interface := iface\<rparr>) rx3) })"

fun set_stream_interfaces :: "nat \<Rightarrow> (u32 \<times> nat) list \<Rightarrow> receiver \<Rightarrow> receiver option" where
  "set_stream_interfaces k [] rx = Some rx"
| "set_stream_interfaces k ((iface, i) # is) rx = do {
     rx' \<leftarrow> set_stream_interface k iface i rx;
     set_stream_interfaces k is rx' }"

text \<open>\<open>reader_locked\<close> tells which readers could be locked exclusively.\<close>

fun set_reader_interfaces :: "(nat \<Rightarrow> bool) \<Rightarrow> u32 list \<Rightarrow> nat list \<Rightarrow> receiver \<Rightarrow> (bool \<times> receiver) option" where
  "set_reader_interfaces reader_locked ifaces [] rx = Some (True, rx)"
| "set_reader_interfaces reader_locked ifaces (k # ks) rx =
     (if \<not> reader_locked k then Some (False, rx)
      else do {
        rx' \<leftarrow> set_stream_interfaces k (zip ifaces [0..<length (rd_streams (rx_readers rx ! k))]) rx;
        set_reader_interfaces reader_locked ifaces ks rx' })"

definition set_interfaces :: "(nat \<Rightarrow> bool) \<Rightarrow> (nat \<Rightarrow> bool) \<Rightarrow> u32 list \<Rightarrow> receiver \<Rightarrow> (bool \<times> receiver) option" where
  "set_interfaces reader_locked locked ifaces rx = do {
     (ok, rx') \<leftarrow> set_reader_interfaces reader_locked ifaces [0..<length (rx_readers rx)] rx;
     Some (ok, if ok then close_unused_sockets locked rx' else rx') }"

text \<open>The loop that looks for a free reader: \<open>None\<close> when a lock fails or all readers are used.\<close>

fun free_reader :: "(nat \<Rightarrow> bool) \<Rightarrow> nat \<Rightarrow> reader list \<Rightarrow> nat option" where
  "free_reader reader_locked k [] = None"
| "free_reader reader_locked k (r # rs) =
     (if \<not> reader_locked k then None
      else if id_valid (rd_id r) then free_reader reader_locked (Suc k) rs
      else Some k)"

definition add_reader ::
  "(nat \<Rightarrow> bool) \<Rightarrow> (nat \<Rightarrow> bool) \<Rightarrow> (u16 \<Rightarrow> bool) \<Rightarrow> u64 \<Rightarrow> reader_parameters \<Rightarrow> u32 list \<Rightarrow> receiver \<Rightarrow>
   (bool \<times> receiver) option" where
  "add_reader reader_locked locked opens i p ifaces rx =
     (if i \<in> set (map rd_id (rx_readers rx)) then Some (False, rx)
      else case free_reader reader_locked 0 (rx_readers rx) of
        None \<Rightarrow> Some (False, rx)
      | Some k \<Rightarrow> setup_reader locked opens k i p ifaces rx)"

fun leave_streams :: "stream_context list \<Rightarrow> receiver \<Rightarrow> receiver option" where
  "leave_streams [] rx = Some rx"
| "leave_streams (s # ss) rx = do {
     rx' \<leftarrow> (let a = connection_address (st_session s) in
            if session_valid (st_session s) \<and> address_multicast a \<and> st_interface s \<noteq> 0
            then do {
              grp \<leftarrow> to_v4 a;
              Some (snd (leave_multicast_group_if_last grp (st_interface s) (rtp_port (st_session s)) rx)) }
            else Some rx);
     leave_streams ss rx' }"

definition remove_reader ::
  "(nat \<Rightarrow> bool) \<Rightarrow> (nat \<Rightarrow> bool) \<Rightarrow> u64 \<Rightarrow> receiver \<Rightarrow> (bool \<times> receiver) option" where
  "remove_reader reader_locked locked i rx =
     (case index_of i (map rd_id (rx_readers rx)) of
        None \<Rightarrow> Some (False, rx)
      | Some k \<Rightarrow>
          if \<not> reader_locked k then Some (False, rx)
          else do {
            rx1 \<leftarrow> leave_streams (rd_streams (rx_readers rx ! k)) rx;
            Some (True, close_unused_sockets locked (update_reader k reset_reader rx1)) })"

section \<open>The audio thread\<close>

definition frames_of :: "nat \<Rightarrow> audio_format \<Rightarrow> u32 option" where
  "frames_of octets f =
     (if format_bytes_per_frame f = 0 then None else Some (of_nat octets div format_bytes_per_frame f))"

definition push_too_old :: "u16 \<Rightarrow> stream_context \<Rightarrow> stream_context option" where
  "push_too_old seq s = do { (_, q) \<leftarrow> push (st_packets_too_old s) seq; Some (s\<lparr>st_packets_too_old := q\<rparr>) }"

text \<open>The body of the loop of \<open>do_realtime_maintenance\<close>, for a packet taken off the queue of stream \<open>s\<close>.\<close>

definition note_packet :: "packet_buffer \<Rightarrow> u32 \<Rightarrow> reader \<Rightarrow> reader" where
  "note_packet p newest r =
     (case rd_most_recent_ts r of
        None \<Rightarrow> r\<lparr>rd_most_recent_ts := Some newest, rd_receive_buffer := set_next_ts (rd_receive_buffer r) (pb_timestamp p),
                  rd_next_ts_to_read := pb_timestamp p\<rparr>
      | Some m \<Rightarrow> if wrapping_gt newest m then r\<lparr>rd_most_recent_ts := Some newest\<rparr> else r)"

definition process_packet :: "packet_buffer \<Rightarrow> reader \<times> stream_context \<Rightarrow> (reader \<times> stream_context) option" where
  "process_packet p rs = (let (r, s) = rs in do {
     num_frames \<leftarrow> frames_of (unat (pb_data_len p)) (rd_audio_format r);
     let r1 = note_packet p (pb_timestamp p + num_frames - 1) r;
     if wrapping_le (wrapping_add (pb_timestamp p) (ucast (st_packet_time_frames s))) (rd_next_ts_to_read r1)
     then do { s1 \<leftarrow> push_too_old (pb_seq p) s; Some (r1, s1) }
     else do {
       s1 \<leftarrow> (if wrapping_lt (pb_timestamp p) (rd_next_ts_to_read r1) then push_too_old (pb_seq p) s else Some s);
       (_, b1) \<leftarrow> clear_until (rd_receive_buffer r1) (pb_timestamp p);
       payload \<leftarrow> read_block (pb_payload p) 0 (unat (pb_data_len p));
       b2 \<leftarrow> rb_write b1 (pb_timestamp p) payload;
       Some (r1\<lparr>rd_receive_buffer := b2\<rparr>, s1) } })"

lemma pop_size:
  assumes "pop q = Some (Some v, q')"
  shows "fifo_size (fifo_of q') = fifo_size (fifo_of q) - 1 \<and> 0 < unat (fifo_size (fifo_of q))"
proof -
  obtain p where "prepare_for_read (fifo_of q) 1 = Some (Some p)" and q': "q' = q\<lparr>fifo_of := commit_read (fifo_of q) 1\<rparr>"
    using assms by (auto simp: pop_def bind_eq_Some_conv split: option.splits)
  then have "\<not> fifo_size (fifo_of q) < 1" by (auto simp: prepare_for_read_def fifo_size_def split: if_splits)
  then have "0 < unat (fifo_size (fifo_of q))" by (simp add: word_less_nat_alt)
  then show ?thesis by (simp add: q' fifo_size_def commit_read_def)
qed

lemma pop_size_less: "pop q = Some (Some v, q') \<Longrightarrow> unat (fifo_size (fifo_of q')) < unat (fifo_size (fifo_of q))"
  using pop_size [of q v q'] by (auto simp: unat_sub_if')

lemma push_too_old_packets: "push_too_old seq s = Some s' \<Longrightarrow> st_packets s' = st_packets s"
  by (auto simp: push_too_old_def bind_eq_Some_conv)

lemma process_packet_packets: "process_packet p (r, s) = Some (r', s') \<Longrightarrow> st_packets s' = st_packets s"
  by (auto simp: process_packet_def Let_def bind_eq_Some_conv push_too_old_packets split: if_splits)

text \<open>
  \<open>for (i = 0; i < packets.size(); ++i)\<close>: the size is read again in every round, while every round takes a packet
  off.
\<close>

function maintain_stream :: "nat \<Rightarrow> reader \<times> stream_context \<Rightarrow> (reader \<times> stream_context) option" where
  "maintain_stream i (r, s) =
     (if unat (fifo_size (fifo_of (st_packets s))) \<le> i then Some (r, s)
      else case pop (st_packets s) of
        None \<Rightarrow> None
      | Some (None, q) \<Rightarrow> Some (r, s\<lparr>st_packets := q\<rparr>)
      | Some (Some p, q) \<Rightarrow>
          (case process_packet p (r, s\<lparr>st_packets := q\<rparr>) of
             None \<Rightarrow> None
           | Some rs \<Rightarrow> maintain_stream (Suc i) rs))"
  by pat_completeness auto

termination
proof (relation "measure (\<lambda>(i, r, s). unat (fifo_size (fifo_of (st_packets s))))", goal_cases)
  case (2 i r s x y q p rs')
  then show ?case
    using pop_size_less [of "st_packets s" p q] process_packet_packets [of p r "s\<lparr>st_packets := q\<rparr>" "fst rs'" "snd rs'"]
    by (cases rs') auto
qed simp

declare maintain_stream.simps [simp del]

definition maintain_context :: "reader \<Rightarrow> stream_context \<Rightarrow> (reader \<times> stream_context) option" where
  "maintain_context r s =
     (if st_state s = No_consumer
      then do {
        q \<leftarrow> pop_all (st_packets s);
        old \<leftarrow> pop_all (st_packets_too_old s);
        Some (r, s\<lparr>st_packets := q, st_packets_too_old := old\<rparr>) }
      else maintain_stream 0 (r, s))"

fun maintain_contexts :: "reader \<Rightarrow> stream_context list \<Rightarrow> (reader \<times> stream_context list) option" where
  "maintain_contexts r [] = Some (r, [])"
| "maintain_contexts r (s # ss) = do {
     (r1, s') \<leftarrow> maintain_context r s;
     (r2, ss') \<leftarrow> maintain_contexts r1 ss;
     Some (r2, s' # ss') }"

definition do_realtime_maintenance :: "reader \<Rightarrow> reader option" where
  "do_realtime_maintenance r = do {
     (r', ss) \<leftarrow> maintain_contexts r (rd_streams r);
     Some (r'\<lparr>rd_streams := ss\<rparr>) }"

text \<open>The result is the timestamp read at with the octets read, or \<open>None\<close> inside \<open>Some\<close> for \<open>std::nullopt\<close>.\<close>

definition read_data_from_reader_realtime ::
  "reader \<Rightarrow> nat \<Rightarrow> u32 option \<Rightarrow> u32 option \<Rightarrow> ((u32 \<times> byte list) option \<times> reader) option" where
  "read_data_from_reader_realtime r0 n at_timestamp require_delay = do {
     r \<leftarrow> do_realtime_maintenance
           (case at_timestamp of None \<Rightarrow> r0 | Some t \<Rightarrow> r0\<lparr>rd_next_ts_to_read := t\<rparr>);
     case rd_most_recent_ts r of
       None \<Rightarrow> Some (None, r)
     | Some newest \<Rightarrow> do {
         num_frames \<leftarrow> frames_of n (rd_audio_format r);
         if (case require_delay of
               None \<Rightarrow> False
             | Some d \<Rightarrow> wrapping_gt (wrapping_add (wrapping_sub (wrapping_add (rd_next_ts_to_read r) num_frames) 1) d) newest)
         then Some (None, r)
         else do {
           (out, b) \<leftarrow> rb_read (rd_receive_buffer r) (rd_next_ts_to_read r) n True;
           Some (Some (rd_next_ts_to_read r, out),
                 r\<lparr>rd_receive_buffer := b, rd_next_ts_to_read := wrapping_add (rd_next_ts_to_read r) num_frames\<rparr>) } } }"

text \<open>The reader that \<open>read_data_realtime\<close> finds: the first one it can lock that has the id.\<close>

fun find_reader :: "(nat \<Rightarrow> bool) \<Rightarrow> u64 \<Rightarrow> nat \<Rightarrow> reader list \<Rightarrow> nat option" where
  "find_reader reader_locked i k [] = None"
| "find_reader reader_locked i k (r # rs) =
     (if \<not> reader_locked k \<or> rd_id r \<noteq> i then find_reader reader_locked i (Suc k) rs else Some k)"

definition read_data_realtime ::
  "(nat \<Rightarrow> bool) \<Rightarrow> u64 \<Rightarrow> nat \<Rightarrow> u32 option \<Rightarrow> u32 option \<Rightarrow> receiver \<Rightarrow>
   ((u32 \<times> byte list) option \<times> receiver) option" where
  "read_data_realtime reader_locked i n at_timestamp require_delay rx =
     (case find_reader reader_locked i 0 (rx_readers rx) of
        None \<Rightarrow> Some (None, rx)
      | Some k \<Rightarrow> do {
          (out, r) \<leftarrow> read_data_from_reader_realtime (rx_readers rx ! k) n at_timestamp require_delay;
          Some (out, rx\<lparr>rx_readers := (rx_readers rx)[k := r]\<rparr>) })"

section \<open>The network thread\<close>

text \<open>
  \<open>receive_from_socket\<close> (core/net/sockets/extended_udp_socket.cpp, the branch for POSIX systems): the destination
  endpoint is built from the destination address of the control message and the port the datagram came from.
\<close>

record datagram =
  dg_data :: "byte list"
  dg_src_address :: u32
  dg_src_port :: u16
  dg_dst_address :: "u32 option"
  dg_recv_time :: u64

definition src_address_of :: "datagram \<Rightarrow> address" where
  "src_address_of d = V4 (dg_src_address d)"

definition dst_endpoint :: "datagram \<Rightarrow> address \<times> u16" where
  "dst_endpoint d = (case dg_dst_address d of None \<Rightarrow> (V4 0, 0) | Some a \<Rightarrow> (V4 a, dg_src_port d))"

definition received_bytes :: "datagram \<Rightarrow> byte list" where
  "received_bytes d = take k_mtu (dg_data d)"

definition update_stream_active_state :: "u64 \<Rightarrow> stream_context \<Rightarrow> stream_context" where
  "update_stream_active_state now s =
     (if wrapping_add (st_prev_packet_time s) (k_receive_timeout_ms * 1000000) < now
      then s\<lparr>st_state := Inactive\<rparr> else s)"

text \<open>\<open>while (auto seq = packets_too_old.pop())\<close>\<close>

function mark_late_packets :: "stream_context \<Rightarrow> stream_context option" where
  "mark_late_packets s =
     (case pop (st_packets_too_old s) of
        None \<Rightarrow> None
      | Some (None, q) \<Rightarrow> Some (s\<lparr>st_packets_too_old := q\<rparr>)
      | Some (Some seq, q) \<Rightarrow>
          mark_late_packets (s\<lparr>st_packets_too_old := q, st_packet_stats := mark_packet_too_late (st_packet_stats s) seq\<rparr>))"
  by pat_completeness auto

termination
  by (relation "measure (\<lambda>s. unat (fifo_size (fifo_of (st_packets_too_old s))))") (auto intro: pop_size_less)

declare mark_late_packets.simps [simp del]

definition update_interval :: "u64 \<Rightarrow> stream_context \<Rightarrow> stream_context" where
  "update_interval recv_time s =
     (case wrapping_update (st_prev_packet_time s) recv_time of
        (None, t) \<Rightarrow> s\<lparr>st_prev_packet_time := t\<rparr>
      | (Some interval, t) \<Rightarrow>
          let s1 = s\<lparr>st_prev_packet_time := t\<rparr> in
          if is_initialized (st_interval_stats s1) \<or> interval \<noteq> 0
          then
            let st = (if st_reset_max_values s1 then (st_interval_stats s1)\<lparr>is_max_deviation := 0\<rparr> else st_interval_stats s1)
            in s1\<lparr>st_reset_max_values := False,
                  st_interval_stats := interval_stats_update (of_nat (unat interval) / 1000000) st\<rparr>
          else s1)"

definition count_packet :: "u16 \<Rightarrow> stream_context \<Rightarrow> stream_context" where
  "count_packet seq s =
     (let stats = snd (stats_update (st_packet_stats s) seq) in
      s\<lparr>st_packet_stats := stats,
        st_published := st_published s @ [\<lparr>pub_counters = totals stats, pub_jitter = is_max_deviation (st_interval_stats s)\<rparr>]\<rparr>)"

text \<open>
  What a stream does with a packet that is for it. \<open>memcpy\<close> copies the payload into 1440 octets. The block that compares the
  time stamp with the PTP clock computes only what is traced.
\<close>

definition receive_packet :: "u64 \<Rightarrow> byte list \<Rightarrow> byte list \<Rightarrow> u64 \<Rightarrow> stream_context \<Rightarrow> stream_context option" where
  "receive_packet now d payload recv_time s = do {
     ts \<leftarrow> rtp_timestamp (Some d);
     seq \<leftarrow> rtp_sequence_number (Some d);
     let s0 = update_stream_active_state now s;
     let s1 = (case st_rtp_ts s0 of None \<Rightarrow> s0\<lparr>st_rtp_ts := Some ts, st_prev_packet_time := recv_time\<rparr> | Some _ \<Rightarrow> s0);
     copied \<leftarrow> write_block (pb_payload packet_buffer_init) 0 payload;
     (ok, q) \<leftarrow> push (st_packets s1) \<lparr>pb_timestamp = ts, pb_seq = seq, pb_data_len = of_nat (length payload),
                 pb_recv_time = recv_time, pb_payload = copied\<rparr>;
     let s2 = s1\<lparr>st_packets := q,
               st_state := (if ok then Receiving else if st_state s1 \<noteq> No_consumer then No_consumer else st_state s1)\<rparr>;
     s3 \<leftarrow> mark_late_packets s2;
     Some (count_packet seq (update_interval recv_time s3)) }"

definition stream_matches :: "datagram \<Rightarrow> stream_context \<Rightarrow> bool" where
  "stream_matches dg s \<longleftrightarrow> connection_address (st_session s) = fst (dst_endpoint dg) \<and>
     rtp_port (st_session s) = snd (dst_endpoint dg) \<and>
     is_valid_source (st_filter s) (fst (dst_endpoint dg)) (src_address_of dg)"

fun offer_streams :: "u64 \<Rightarrow> datagram \<Rightarrow> byte list \<Rightarrow> stream_context list \<Rightarrow> stream_context list option" where
  "offer_streams now dg payload [] = Some []"
| "offer_streams now dg payload (s # ss) = do {
     s' \<leftarrow> (if stream_matches dg s then receive_packet now (received_bytes dg) payload (dg_recv_time dg) s else Some s);
     ss' \<leftarrow> offer_streams now dg payload ss;
     Some (s' # ss') }"

fun offer_readers :: "u64 \<Rightarrow> datagram \<Rightarrow> byte list \<Rightarrow> (nat \<Rightarrow> bool) \<Rightarrow> nat \<Rightarrow> reader list \<Rightarrow> reader list option" where
  "offer_readers now dg payload reader_locked k [] = Some []"
| "offer_readers now dg payload reader_locked k (r # rs) = do {
     r' \<leftarrow> (if \<not> reader_locked k then Some r
           else if \<not> id_valid (rd_id r) then Some r
           else do { ss \<leftarrow> offer_streams now dg payload (rd_streams r); Some (r\<lparr>rd_streams := ss\<rparr>) });
     rs' \<leftarrow> offer_readers now dg payload reader_locked (Suc k) rs;
     Some (r' # rs') }"

text \<open>
  The octets of the buffer after the datagram are zero. When \<open>validate\<close> reads the length of a header extension there, the
  header comes out longer than the datagram and the result is false.
\<close>

definition received_valid :: "byte list \<Rightarrow> bool" where
  "received_valid d \<longleftrightarrow> rtp_validate (Some d) = Some True"

text \<open>The input of a poll for one socket: its lock, what was received, the locks of the readers.\<close>

record poll_input =
  pi_locked :: bool
  pi_datagram :: "datagram option"
  pi_reader_locked :: "nat \<Rightarrow> bool"

text \<open>The loop over the sockets; the boolean is false when the function has returned from within it.\<close>

fun poll_sockets :: "u64 \<Rightarrow> (socket_context \<times> poll_input) list \<Rightarrow> receiver \<Rightarrow> (bool \<times> receiver) option" where
  "poll_sockets now [] rx = Some (True, rx)"
| "poll_sockets now ((c, i) # cs) rx =
     (if \<not> pi_locked i \<or> \<not> sk_open c then poll_sockets now cs rx
      else case pi_datagram i of
        None \<Rightarrow> poll_sockets now cs rx
      | Some dg \<Rightarrow>
          let d = received_bytes dg in
          if d = [] \<or> \<not> received_valid d then poll_sockets now cs rx
          else do {
            p \<leftarrow> rtp_payload_data (Some d);
            let payload = payload_bytes (Some d) p;
            if length payload = 0 \<or> length payload > 65535 then Some (False, rx)
            else do {
              rs \<leftarrow> offer_readers now dg payload (pi_reader_locked i) 0 (rx_readers rx);
              poll_sockets now cs (rx\<lparr>rx_readers := rs, rx_last_time_maintenance := now\<rparr>) } })"

definition maintain_states :: "u64 \<Rightarrow> (nat \<Rightarrow> bool) \<Rightarrow> receiver \<Rightarrow> receiver" where
  "maintain_states now reader_locked rx =
     (if rx_last_time_maintenance rx + k_receive_timeout_ms * 1000000 < now
      then rx\<lparr>rx_readers := map (\<lambda>(k, r).
                if \<not> reader_locked k then r
                else if \<not> id_valid (rd_id r) then r
                else r\<lparr>rd_streams := map (update_stream_active_state now) (rd_streams r)\<rparr>)
              (enumerate 0 (rx_readers rx)),
              rx_last_time_maintenance := now\<rparr>
      else rx)"

definition read_incoming_packets :: "u64 \<Rightarrow> poll_input list \<Rightarrow> (nat \<Rightarrow> bool) \<Rightarrow> receiver \<Rightarrow> receiver option" where
  "read_incoming_packets now inputs reader_locked rx = do {
     (finished, rx') \<leftarrow> poll_sockets now (zip (rx_sockets rx) inputs) rx;
     Some (if finished then maintain_states now reader_locked rx' else rx') }"

section \<open>Queries\<close>

text \<open>\<open>read_value\<close> is \<open>boost::lockfree::spsc_value::read\<close> on the values written so far.\<close>

definition get_packet_stats ::
  "(published list \<Rightarrow> published option) \<Rightarrow> (nat \<Rightarrow> bool) \<Rightarrow> u64 \<Rightarrow> nat \<Rightarrow> receiver \<Rightarrow> published option \<times> receiver" where
  "get_packet_stats read_value reader_locked i n rx =
     (case find_reader reader_locked i 0 (rx_readers rx) of
        None \<Rightarrow> (None, rx)
      | Some k \<Rightarrow>
          if n \<ge> length (rd_streams (rx_readers rx ! k)) then (None, rx)
          else (read_value (st_published (stream_of rx k n)),
                update_stream k n (\<lambda>s. s\<lparr>st_reset_max_values := True\<rparr>) rx))"

definition get_stream_state :: "u64 \<Rightarrow> nat \<Rightarrow> receiver \<Rightarrow> stream_state option" where
  "get_stream_state i n rx =
     (case index_of i (map rd_id (rx_readers rx)) of
        None \<Rightarrow> None
      | Some k \<Rightarrow>
          if n \<ge> length (rd_streams (rx_readers rx ! k)) then None
          else Some (st_state (stream_of rx k n)))"

end
