(* ===== verification/Rtp_Sender.thy ===== *)
theory Rtp_Sender
  imports Complex_Main Audio_Data Rtp_Receiver
begin

text \<open>
  rtp/detail/rtp_audio_sender.cpp: the sender of RTP audio. The audio thread writes samples into a writer's ring and cuts
  the ring into packets, which it queues; the network thread takes queued packets and sends them to up to two
  destinations. As in \<open>Rtp_Receiver\<close>, a call is a function of the state and runs to its end; what it gets from
  outside (locks, results of socket calls, the random SSRC) is an argument. Datagrams sent are an output.
  \<open>None\<close> is undefined behaviour, or, for the loop that cuts packets, not returning.
\<close>

section \<open>State\<close>

definition k_buffer_num_packets :: u64 where "k_buffer_num_packets = 100"
definition k_max_num_frames :: u32 where "k_max_num_frames = 4096"
definition k_max_num_writers :: nat where "k_max_num_writers = 16"

type_synonym endpoint = "u32 \<times> u16"

record sender_socket =
  ss_open :: bool
  ss_outbound :: u32
  ss_unicast_hops :: byte
  ss_multicast_hops :: byte

definition sender_socket_init :: sender_socket where
  "sender_socket_init = \<lparr>ss_open = False, ss_outbound = 0, ss_unicast_hops = 0, ss_multicast_hops = 0\<rparr>"

record fifo_packet =
  fp_timestamp :: u32
  fp_size :: u32
  fp_payload :: "byte list"

definition fifo_packet_init :: fifo_packet where
  "fifo_packet_init = \<lparr>fp_timestamp = 0, fp_size = 0, fp_payload = replicate k_max_payload 0\<rparr>"

record writer_parameters =
  wp_audio_format :: audio_format
  wp_destinations :: "endpoint list"
  wp_packet_time_frames :: u32
  wp_ttl :: byte
  wp_payload_type :: byte

record writer =
  wr_id :: u64
  wr_destinations :: "endpoint list"
  wr_sockets :: "sender_socket list"
  wr_failed_to_schedule :: u64
  wr_failed_to_send :: u64
  wr_packet_buffer :: "byte list"
  wr_send_buffer :: "byte list"
  wr_audio_buffer :: "byte list"
  wr_packet_time :: u32
  wr_packet :: rtp_packet
  wr_format :: audio_format
  wr_ring :: ringbuffer
  wr_outgoing :: "fifo_packet fifo_buffer"

definition no_destinations :: "endpoint list" where
  "no_destinations = replicate k_max_num_redundant_sessions (0, 0)"

definition writer_init :: writer where
  "writer_init = \<lparr>wr_id = 0, wr_destinations = no_destinations,
     wr_sockets = replicate k_max_num_redundant_sessions sender_socket_init,
     wr_failed_to_schedule = 0, wr_failed_to_send = 0, wr_packet_buffer = [], wr_send_buffer = [], wr_audio_buffer = [],
     wr_packet_time = 0, wr_packet = rtp_packet_init, wr_format = audio_format_init, wr_ring = ringbuffer_init,
     wr_outgoing = fifo_buffer_init\<rparr>"

text \<open>Error codes are numbers; 0 is success.\<close>

record sender =
  sn_writers :: "writer list"
  sn_last_error :: nat

definition sender_init :: sender where
  "sender_init = \<lparr>sn_writers = replicate k_max_num_writers writer_init, sn_last_error = 0\<rparr>"

section \<open>Setting up writers\<close>

text \<open>Which of the calls on socket \<open>i\<close> succeed.\<close>

record socket_results =
  so_open :: "nat \<Rightarrow> bool"
  so_options :: "nat \<Rightarrow> bool"
  so_outbound :: "nat \<Rightarrow> bool"
  so_unicast_hops :: "nat \<Rightarrow> bool"
  so_multicast_hops :: "nat \<Rightarrow> bool"

definition setup_send_socket :: "socket_results \<Rightarrow> nat \<Rightarrow> sender_socket \<Rightarrow> bool \<times> sender_socket" where
  "setup_send_socket res i s =
     (if \<not> so_open res i then (False, s) else (so_options res i, s\<lparr>ss_open := True\<rparr>))"

definition set_socket_ttl :: "socket_results \<Rightarrow> byte \<Rightarrow> nat \<Rightarrow> sender_socket \<Rightarrow> bool \<times> sender_socket" where
  "set_socket_ttl res ttl i s =
     (if \<not> so_unicast_hops res i then (False, s)
      else if \<not> so_multicast_hops res i then (False, s\<lparr>ss_unicast_hops := ttl\<rparr>)
      else (True, s\<lparr>ss_unicast_hops := ttl, ss_multicast_hops := ttl\<rparr>))"

text \<open>The loop over the sockets of a writer: it stops at the first failure.\<close>

fun setup_sockets :: "socket_results \<Rightarrow> byte \<Rightarrow> nat \<Rightarrow> (sender_socket \<times> u32) list \<Rightarrow> bool \<times> sender_socket list" where
  "setup_sockets res ttl i [] = (True, [])"
| "setup_sockets res ttl i ((s, interface) # rest) =
     (let (ok, s1) = (if ss_open s then (True, s) else setup_send_socket res i s) in
      if \<not> ok then (False, s1 # map fst rest)
      else if \<not> so_outbound res i then (False, s1 # map fst rest)
      else
        let (ok, s2) = set_socket_ttl res ttl i (s1\<lparr>ss_outbound := interface\<rparr>) in
        if \<not> ok then (False, s2 # map fst rest)
        else let (ok, ss) = setup_sockets res ttl (Suc i) rest in (ok, s2 # ss))"

definition resize_bytes :: "byte list \<Rightarrow> nat \<Rightarrow> byte list" where
  "resize_bytes b n = take n b @ replicate (n - length b) 0"

definition setup_writer ::
  "socket_results \<Rightarrow> u32 \<Rightarrow> u64 \<Rightarrow> writer_parameters \<Rightarrow> u32 list \<Rightarrow> writer \<Rightarrow> bool \<times> writer" where
  "setup_writer res ssrc i p interfaces w =
     (let (ok, ss) = setup_sockets res (wp_ttl p) 0 (zip (wr_sockets w) interfaces); w1 = w\<lparr>wr_sockets := ss\<rparr> in
      if \<not> ok then (False, w1)
      else
        let f = wp_audio_format p; bpf = format_bytes_per_frame f; packet_size = unat (wp_packet_time_frames p * bpf) in
        (True, w1\<lparr>wr_format := f,
           wr_packet_time := wp_packet_time_frames p,
           wr_packet := set_ssrc ssrc (set_payload_type (wp_payload_type p) (wr_packet w)),
           wr_outgoing := resize_buf fifo_packet_init (wr_outgoing w) k_buffer_num_packets,
           wr_audio_buffer := resize_bytes (wr_audio_buffer w) (unat (k_max_num_frames * bpf)),
           wr_packet_buffer := replicate packet_size 0,
           wr_send_buffer := resize_bytes (wr_send_buffer w) packet_size,
           wr_ring := set_ground_value (rb_resize (wr_ring w) k_max_num_frames bpf) (format_ground_value f),
           wr_destinations := wp_destinations p,
           wr_id := i\<rparr>))"

definition reset_writer :: "writer \<Rightarrow> writer" where
  "reset_writer w =
     w\<lparr>wr_id := 0, wr_destinations := no_destinations, wr_packet_buffer := [], wr_send_buffer := [], wr_audio_buffer := [],
       wr_packet_time := 0, wr_packet := rtp_packet_init, wr_format := audio_format_init, wr_ring := ringbuffer_init,
       wr_outgoing := reset_buf (wr_outgoing w),
       wr_sockets := map (\<lambda>s. if ss_open s then sender_socket_init else s) (wr_sockets w)\<rparr>"

text \<open>The first writer that is free; \<open>None\<close> when a lock is refused before one is found.\<close>

fun free_writer :: "(nat \<Rightarrow> bool) \<Rightarrow> nat \<Rightarrow> writer list \<Rightarrow> nat option option" where
  "free_writer locked k [] = Some None"
| "free_writer locked k (w # ws) =
     (if \<not> locked k then None else if id_valid (wr_id w) then free_writer locked (Suc k) ws else Some (Some k))"

definition add_writer ::
  "(nat \<Rightarrow> bool) \<Rightarrow> socket_results \<Rightarrow> u32 \<Rightarrow> u64 \<Rightarrow> writer_parameters \<Rightarrow> u32 list \<Rightarrow> sender \<Rightarrow> bool \<times> sender" where
  "add_writer locked res ssrc i p interfaces sn =
     (if i \<in> set (map wr_id (sn_writers sn)) then (False, sn)
      else case free_writer locked 0 (sn_writers sn) of
          None \<Rightarrow> (False, sn)
        | Some None \<Rightarrow> (True, sn)
        | Some (Some k) \<Rightarrow>
            let (ok, w) = setup_writer res ssrc i p interfaces (sn_writers sn ! k)
            in (ok, sn\<lparr>sn_writers := (sn_writers sn)[k := w]\<rparr>))"

definition remove_writer :: "(nat \<Rightarrow> bool) \<Rightarrow> u64 \<Rightarrow> sender \<Rightarrow> bool \<times> sender" where
  "remove_writer locked i sn =
     (case index_of i (map wr_id (sn_writers sn)) of
        None \<Rightarrow> (False, sn)
      | Some k \<Rightarrow>
          if \<not> locked k then (False, sn)
          else (True, sn\<lparr>sn_writers := (sn_writers sn)[k := reset_writer (sn_writers sn ! k)]\<rparr>))"

fun set_writer_interfaces :: "(nat \<Rightarrow> bool) \<Rightarrow> (nat \<Rightarrow> socket_results) \<Rightarrow> u32 list \<Rightarrow> nat \<Rightarrow> writer list \<Rightarrow> bool \<times> writer list" where
  "set_writer_interfaces locked res interfaces k [] = (True, [])"
| "set_writer_interfaces locked res interfaces k (w # ws) =
     (if \<not> locked k then (False, w # ws)
      else
        let w' = (if \<not> id_valid (wr_id w) then w
                  else w\<lparr>wr_sockets := map (\<lambda>((s, interface), i). if so_outbound (res k) i then s\<lparr>ss_outbound := interface\<rparr> else s)
                         (zip (zip (wr_sockets w) interfaces) [0..<length (wr_sockets w)])\<rparr>);
            (ok, ws') = set_writer_interfaces locked res interfaces (Suc k) ws
        in (ok, w' # ws'))"

definition sender_set_interfaces :: "(nat \<Rightarrow> bool) \<Rightarrow> (nat \<Rightarrow> socket_results) \<Rightarrow> u32 list \<Rightarrow> sender \<Rightarrow> bool \<times> sender" where
  "sender_set_interfaces locked res interfaces sn =
     (let (ok, ws) = set_writer_interfaces locked res interfaces 0 (sn_writers sn) in (ok, sn\<lparr>sn_writers := ws\<rparr>))"

fun set_sockets_ttl :: "socket_results \<Rightarrow> byte \<Rightarrow> nat \<Rightarrow> sender_socket list \<Rightarrow> bool \<times> sender_socket list" where
  "set_sockets_ttl res ttl i [] = (True, [])"
| "set_sockets_ttl res ttl i (s # ss) =
     (let (ok, s') = set_socket_ttl res ttl i s in
      if \<not> ok then (False, s' # ss) else let (ok, ss') = set_sockets_ttl res ttl (Suc i) ss in (ok, s' # ss'))"

definition sender_set_ttl :: "(nat \<Rightarrow> bool) \<Rightarrow> socket_results \<Rightarrow> u64 \<Rightarrow> byte \<Rightarrow> sender \<Rightarrow> bool \<times> sender" where
  "sender_set_ttl locked res i ttl sn =
     (case index_of i (map wr_id (sn_writers sn)) of
        None \<Rightarrow> (False, sn)
      | Some k \<Rightarrow>
          if \<not> locked k then (False, sn)
          else
            let w = sn_writers sn ! k; (ok, ss) = set_sockets_ttl res ttl 0 (wr_sockets w)
            in (ok, sn\<lparr>sn_writers := (sn_writers sn)[k := w\<lparr>wr_sockets := ss\<rparr>]\<rparr>))"

section \<open>The audio thread\<close>

text \<open>The body of the loop that cuts packets; the result \<open>False\<close> is \<open>return false\<close>.\<close>

definition send_round :: "writer \<Rightarrow> (bool \<times> writer) option" where
  "send_round w =
     (let size_per_packet = unat (wr_packet_time w * format_bytes_per_frame (wr_format w)); t = rp_timestamp (wr_packet w) in do {
      (bytes, ring) \<leftarrow> rb_read (wr_ring w) t size_per_packet False;
      sb \<leftarrow> write_block (wr_send_buffer w) 0 bytes;
      let buf = rtp_encode (wr_packet w) (take size_per_packet sb) [];
      let w1 = w\<lparr>wr_ring := ring, wr_send_buffer := sb, wr_packet_buffer := buf\<rparr>;
      if length buf > k_max_payload then Some (False, w1)
      else do {
        (ok, q) \<leftarrow> push (wr_outgoing w) \<lparr>fp_timestamp = t, fp_size = of_nat (length buf),
                    fp_payload = buf @ replicate (k_max_payload - length buf) 0\<rparr>;
        Some (True, w1\<lparr>wr_outgoing := q,
          wr_failed_to_schedule := (if ok then wr_failed_to_schedule w else wr_failed_to_schedule w + 1),
          wr_packet := snd (inc_timestamp (wr_packet_time w) (snd (sequence_number_inc 1 (wr_packet w))))\<rparr>) } })"

partial_function (option) send_rounds :: "u32 \<Rightarrow> writer \<Rightarrow> (bool \<times> writer) option" where
  "send_rounds next w =
     (if wrapping_lt (wrapping_add (rp_timestamp (wr_packet w)) (wr_packet_time w)) next
      then do { (go, w') \<leftarrow> send_round w; if go then send_rounds next w' else Some (False, w') }
      else Some (True, w))"

definition schedule_data_for_sending_realtime :: "byte list \<Rightarrow> u32 \<Rightarrow> writer \<Rightarrow> (bool \<times> writer) option" where
  "schedule_data_for_sending_realtime data timestamp w =
     (let w0 = (if next_ts (wr_ring w) \<noteq> timestamp
                then w\<lparr>wr_packet := set_timestamp timestamp (wr_packet w), wr_ring := set_next_ts (wr_ring w) timestamp\<rparr>
                else w) in do {
      (_, r1) \<leftarrow> clear_until (wr_ring w0) timestamp;
      r2 \<leftarrow> rb_write r1 timestamp data;
      send_rounds (next_ts r2) (w0\<lparr>wr_ring := r2\<rparr>) })"

text \<open>The writer that both realtime functions find: the first one they can lock that has the id.\<close>

fun find_writer :: "(nat \<Rightarrow> bool) \<Rightarrow> u64 \<Rightarrow> nat \<Rightarrow> writer list \<Rightarrow> nat option" where
  "find_writer locked i k [] = None"
| "find_writer locked i k (w # ws) =
     (if \<not> locked k \<or> wr_id w \<noteq> i then find_writer locked i (Suc k) ws else Some k)"

definition send_data_realtime :: "(nat \<Rightarrow> bool) \<Rightarrow> u64 \<Rightarrow> byte list \<Rightarrow> u32 \<Rightarrow> sender \<Rightarrow> (bool \<times> sender) option" where
  "send_data_realtime locked i data timestamp sn =
     (case find_writer locked i 0 (sn_writers sn) of
        None \<Rightarrow> Some (False, sn)
      | Some k \<Rightarrow> do {
          (ok, w) \<leftarrow> schedule_data_for_sending_realtime data timestamp (sn_writers sn ! k);
          Some (ok, sn\<lparr>sn_writers := (sn_writers sn)[k := w]\<rparr>) })"

text \<open>The octets that conversion to \<open>w\<close> octets per sample leaves in a buffer.\<close>

definition convert_into :: "nat \<Rightarrow> (rat \<Rightarrow> byte list option) \<Rightarrow> nat \<Rightarrow> rat list list \<Rightarrow> byte list \<Rightarrow> byte list option" where
  "convert_into w conv frames channels buf = do {
     r \<leftarrow> convert_from_channels Data_interleaved conv frames (length channels) 0 0 channels (samples_of w buf);
     Some (concat r @ drop (w * length r) buf) }"

definition send_audio_from_writer :: "rat list list \<Rightarrow> nat \<Rightarrow> u32 \<Rightarrow> writer \<Rightarrow> (bool \<times> writer) option" where
  "send_audio_from_writer channels frames timestamp w =
     (let f = wr_format w in
      if frames > unat k_max_num_frames then Some (False, w)
      else if unat (af_num_channels f) \<noteq> length channels then Some (False, w)
      else do {
        buf \<leftarrow> (if af_encoding f = Pcm_s16 then convert_into 2 (convert_from_real S_s16 Order_Be) frames channels (wr_audio_buffer w)
               else if af_encoding f = Pcm_s24 then convert_into 3 (convert_from_real S_s24 Order_Be) frames channels (wr_audio_buffer w)
               else Some (wr_audio_buffer w));
        schedule_data_for_sending_realtime (take (frames * unat (format_bytes_per_frame f)) buf) timestamp
          (w\<lparr>wr_audio_buffer := buf\<rparr>) })"

definition send_audio_data_realtime ::
  "(nat \<Rightarrow> bool) \<Rightarrow> u64 \<Rightarrow> rat list list \<Rightarrow> nat \<Rightarrow> u32 \<Rightarrow> sender \<Rightarrow> (bool \<times> sender) option" where
  "send_audio_data_realtime locked i channels frames timestamp sn =
     (case find_writer locked i 0 (sn_writers sn) of
        None \<Rightarrow> Some (False, sn)
      | Some k \<Rightarrow> do {
          (ok, w) \<leftarrow> send_audio_from_writer channels frames timestamp (sn_writers sn ! k);
          Some (ok, sn\<lparr>sn_writers := (sn_writers sn)[k := w]\<rparr>) })"

section \<open>The network thread\<close>

text \<open>\<open>set_error\<close>: whether the new error code is an error that was not the last one, and the new last error.\<close>

definition set_error :: "nat \<Rightarrow> nat \<Rightarrow> bool \<times> nat" where
  "set_error prev ec = (if ec = prev then (False, prev) else (ec \<noteq> 0, ec))"

text \<open>
  A packet goes to all destinations; \<open>result\<close> is the error code of each attempt. The results are the datagrams, the
  number of failures counted and the last error.
\<close>

fun send_to_all :: "(nat \<Rightarrow> nat) \<Rightarrow> fifo_packet \<Rightarrow> nat \<Rightarrow> endpoint list \<Rightarrow> nat \<Rightarrow> (nat \<times> endpoint \<times> byte list) list \<times> u64 \<times> nat" where
  "send_to_all result p j [] prev = ([], 0, prev)"
| "send_to_all result p j (d # ds) prev =
     (if fst d = 0 \<or> snd d = 0 then send_to_all result p (Suc j) ds prev
      else
        let (failed, prev1) = set_error prev (result j); (out, n, prev2) = send_to_all result p (Suc j) ds prev1
        in ((j, d, take (unat (fp_size p)) (fp_payload p)) # out, (if failed then n + 1 else n), prev2))"

text \<open>
  The loop over the queue of a writer compares its counter \<open>i\<close> with the size of the queue that it empties.
  \<open>fst\<close> of the result is false for the early \<open>return\<close>.
\<close>

function drain :: "(nat \<Rightarrow> nat \<Rightarrow> nat) \<Rightarrow> nat \<Rightarrow> writer \<Rightarrow> nat \<Rightarrow> (bool \<times> (nat \<times> endpoint \<times> byte list) list \<times> writer \<times> nat) option" where
  "drain result i w prev =
     (if i < unat (fifo_size (fifo_of (wr_outgoing w)))
      then (case pop (wr_outgoing w) of
              None \<Rightarrow> None
            | Some (None, q) \<Rightarrow> Some (False, [], w\<lparr>wr_outgoing := q\<rparr>, prev)
            | Some (Some p, q) \<Rightarrow>
                let (out, n, prev') = send_to_all (result i) p 0 (wr_destinations w) prev in
                (case drain result (Suc i) (w\<lparr>wr_outgoing := q, wr_failed_to_send := wr_failed_to_send w + n\<rparr>) prev' of
                   None \<Rightarrow> None
                 | Some (ok, outs, w', prev'') \<Rightarrow> Some (ok, out @ outs, w', prev'')))
      else Some (True, [], w, prev))"
  by pat_completeness auto
termination
  by (relation "measure (\<lambda>(result, i, w, prev). unat (fifo_size (fifo_of (wr_outgoing w))) - i)")
    (auto dest!: pop_size_less)

declare drain.simps [simp del]

fun drain_writers :: "(nat \<Rightarrow> bool) \<Rightarrow> (nat \<Rightarrow> nat \<Rightarrow> nat \<Rightarrow> nat) \<Rightarrow> nat \<Rightarrow> writer list \<Rightarrow> nat \<Rightarrow>
   ((nat \<times> endpoint \<times> byte list) list list \<times> writer list \<times> nat) option" where
  "drain_writers locked result k [] prev = Some ([], [], prev)"
| "drain_writers locked result k (w # ws) prev =
     (if \<not> locked k
      then map_option (\<lambda>(outs, ws', prev'). ([] # outs, w # ws', prev')) (drain_writers locked result (Suc k) ws prev)
      else do {
        (ok, out, w', prev1) \<leftarrow> drain (result k) 0 w prev;
        if \<not> ok then Some ([out], w' # ws, prev1)
        else do {
          (outs, ws', prev2) \<leftarrow> drain_writers locked result (Suc k) ws prev1;
          Some (out # outs, w' # ws', prev2) } })"

definition send_outgoing_packets :: "(nat \<Rightarrow> bool) \<Rightarrow> (nat \<Rightarrow> nat \<Rightarrow> nat \<Rightarrow> nat) \<Rightarrow> sender \<Rightarrow>
   ((nat \<times> endpoint \<times> byte list) list list \<times> sender) option" where
  "send_outgoing_packets locked result sn = do {
     (outs, ws, prev) \<leftarrow> drain_writers locked result 0 (sn_writers sn) (sn_last_error sn);
     Some (outs, sn\<lparr>sn_writers := ws, sn_last_error := prev\<rparr>) }"

end
