(* ===== verification/Rtp_Playout.thy ===== *)
theory Rtp_Playout
  imports Rtp_Receiver
begin

text \<open>
  The path from the queue of received packets to the audio thread: what maintenance does with queued packets and
  what the audio thread then reads.
\<close>

section \<open>Maintenance as a fold\<close>

fun process_packets :: "packet_buffer list \<Rightarrow> reader \<times> stream_context \<Rightarrow> (reader \<times> stream_context) option" where
  "process_packets [] rs = Some rs"
| "process_packets (p # ps) rs = do { rs' \<leftarrow> process_packet p rs; process_packets ps rs' }"

lemma process_packet_upd_packets:
  "process_packet p (r, s\<lparr>st_packets := q\<rparr>) =
     map_option (\<lambda>(r', s'). (r', s'\<lparr>st_packets := q\<rparr>)) (process_packet p (r, s))"
  by (auto simp: process_packet_def push_too_old_def Let_def map_option_case split: option.splits bind_splits)

lemma contents_size: "buf_ok q \<Longrightarrow> unat (fifo_size (fifo_of q)) = length (contents q)"
  by (simp add: fifo_size_def fifo_size_ok buf_okD)

lemma process_packets_upd_packets:
  "process_packets ps (r, s\<lparr>st_packets := q\<rparr>) =
     map_option (\<lambda>(r', s'). (r', s'\<lparr>st_packets := q\<rparr>)) (process_packets ps (r, s))"
proof (induction ps arbitrary: r s)
  case (Cons p ps)
  show ?case
    by (cases "process_packet p (r, s)") (auto simp: process_packet_upd_packets Cons.IH)
qed simp

lemma rounds_Suc: "i \<le> n \<Longrightarrow> (Suc n - i + 1) div 2 = Suc ((n - Suc i + 1) div 2)"
  by (cases "n - i") (auto simp: Suc_diff_le)

lemma maintain_stream_stop:
  "buf_ok (st_packets s) \<Longrightarrow> length (contents (st_packets s)) \<le> i \<Longrightarrow> maintain_stream i (r, s) = Some (r, s)"
  by (subst maintain_stream.simps) (simp add: contents_size)

lemma maintain_stream_step:
  assumes "buf_ok (st_packets s)" and "i < length (contents (st_packets s))" and "pop (st_packets s) = Some (Some p, q)"
  shows "maintain_stream i (r, s) =
    (case process_packet p (r, s) of None \<Rightarrow> None | Some (r1, s1) \<Rightarrow> maintain_stream (Suc i) (r1, s1\<lparr>st_packets := q\<rparr>))"
  using assms
  by (subst maintain_stream.simps) (auto simp: contents_size process_packet_upd_packets split: option.splits)

text \<open>\<open>i\<close> rounds done and \<open>n\<close> packets queued leave half of the difference, rounded up.\<close>

lemma maintain_stream_queue:
  assumes "buf_ok (st_packets s)" and "contents (st_packets s) = ps"
  shows "\<exists>q. buf_ok q \<and> contents q = drop ((length ps - i + 1) div 2) ps \<and>
    capacity (fifo_of q) = capacity (fifo_of (st_packets s)) \<and> ticks_left q = ticks_left (st_packets s) \<and>
    (\<forall>r s'. st_packets s' = st_packets s \<longrightarrow> maintain_stream i (r, s') = map_option (\<lambda>(r', s'). (r', s'\<lparr>st_packets := q\<rparr>))
       (process_packets (take ((length ps - i + 1) div 2) ps) (r, s')))"
  using assms
proof (induction ps arbitrary: i s)
  case Nil
  then show ?case by (intro exI [of _ "st_packets s"]) (auto simp: maintain_stream_stop)
next
  case (Cons p ps)
  show ?case
  proof (cases "Suc (length ps) \<le> i")
    case True
    then show ?thesis using Cons.prems by (intro exI [of _ "st_packets s"]) (auto simp: maintain_stream_stop)
  next
    case False
    obtain q where q: "pop (st_packets s) = Some (Some p, q)" "buf_ok q" "contents q = ps"
      "capacity (fifo_of q) = capacity (fifo_of (st_packets s))" "ticks_left q = ticks_left (st_packets s)"
      using pop_cons [OF Cons.prems] .
    let ?m = "(length ps - Suc i + 1) div 2"
    obtain q' where q': "buf_ok q'" "contents q' = drop ?m ps"
      "capacity (fifo_of q') = capacity (fifo_of q)" "ticks_left q' = ticks_left q"
      "\<And>r s'. st_packets s' = q \<Longrightarrow> maintain_stream (Suc i) (r, s') =
         map_option (\<lambda>(r', s'). (r', s'\<lparr>st_packets := q'\<rparr>)) (process_packets (take ?m ps) (r, s'))"
      using Cons.IH [of "s\<lparr>st_packets := q\<rparr>" "Suc i"] q(2,3) by auto
    have "maintain_stream i (r, s') = map_option (\<lambda>(r', s'). (r', s'\<lparr>st_packets := q'\<rparr>))
        (process_packets (p # take ?m ps) (r, s'))" if "st_packets s' = st_packets s" for r s'
      using that False q(1) Cons.prems
      by (cases "process_packet p (r, s')")
        (auto simp: maintain_stream_step [of s' i p q] q'(5) process_packets_upd_packets option.map_comp o_def intro!: map_option_cong)
    then show ?thesis
      using q' q(4,5) Cons.prems(2) rounds_Suc [of i "length ps"] False by (intro exI [of _ q']) auto
  qed
qed

lemma maintain_stream_fold:
  assumes "buf_ok (st_packets s)" and "contents (st_packets s) = ps"
  obtains q where "buf_ok q" and "contents q = drop ((length ps + 1) div 2) ps"
    and "capacity (fifo_of q) = capacity (fifo_of (st_packets s))" and "ticks_left q = ticks_left (st_packets s)"
    and "maintain_stream 0 (r, s) = map_option (\<lambda>(r', s'). (r', s'\<lparr>st_packets := q\<rparr>))
           (process_packets (take ((length ps + 1) div 2) ps) (r, s))"
  using maintain_stream_queue [OF assms, of 0] by auto

section \<open>Chunks of a signal in the ring\<close>

lemma of_nat_eq_window:
  assumes "x < y + 2 ^ 31" and "y < x + 2 ^ 31"
  shows "(of_nat x :: u32) = of_nat y \<longleftrightarrow> x = y"
proof
  assume "(of_nat x :: u32) = of_nat y"
  then have "\<not> is_older_than (of_nat x :: u32) (of_nat y)" "\<not> is_older_than (of_nat y :: u32) (of_nat x)"
    by (simp_all only: is_older_than_def simp_thms)
  with assms show "x = y" using older_of_nat [of x y, where 'a = 32] older_of_nat [of y x, where 'a = 32] by simp
qed simp

lemma wrapping_window:
  assumes "x < y + 2 ^ 31" and "y < x + 2 ^ 31"
  shows "wrapping_lt (of_nat x :: u32) (of_nat y) \<longleftrightarrow> x < y" and "wrapping_le (of_nat x :: u32) (of_nat y) \<longleftrightarrow> x \<le> y"
    and "wrapping_gt (of_nat x :: u32) (of_nat y) \<longleftrightarrow> y < x" and "wrapping_ge (of_nat x :: u32) (of_nat y) \<longleftrightarrow> y \<le> x"
proof -
  have "is_older_than (of_nat x :: u32) (of_nat y) \<longleftrightarrow> x < y" using older_of_nat [of x y, where 'a = 32] assms by simp
  then show "wrapping_lt (of_nat x :: u32) (of_nat y) \<longleftrightarrow> x < y" "wrapping_le (of_nat x :: u32) (of_nat y) \<longleftrightarrow> x \<le> y"
    "wrapping_gt (of_nat x :: u32) (of_nat y) \<longleftrightarrow> y < x" "wrapping_ge (of_nat x :: u32) (of_nat y) \<longleftrightarrow> y \<le> x"
    unfolding wrapping_lt_def wrapping_le_def wrapping_gt_def wrapping_ge_def of_nat_eq_window [OF assms] by auto
qed

text \<open>
  A signal that starts at time \<open>t0\<close> is cut into chunks of \<open>f\<close> frames. The chunks in \<open>K\<close> are in the ring, the others
  before \<open>L\<close> are silent, and \<open>L\<close> is where the data ends.
\<close>

definition holds_chunks :: "nat \<Rightarrow> nat \<Rightarrow> (nat \<Rightarrow> byte list) \<Rightarrow> nat set \<Rightarrow> nat \<Rightarrow> ringbuffer \<Rightarrow> bool" where
  "holds_chunks t0 f chunk K L b \<longleftrightarrow> rb_ok b \<and> next_ts b = of_nat (t0 + L * f) \<and> K \<subseteq> {..<L} \<and>
     (\<forall>k j. k < L \<longrightarrow> j < f * unat (bytes_per_frame b) \<longrightarrow>
       byte_at b ((t0 + k * f) * unat (bytes_per_frame b) + j) = (if k \<in> K then chunk k ! j else ground_value b))"

definition chunk_range :: "nat \<Rightarrow> nat \<Rightarrow> nat \<Rightarrow> ringbuffer \<Rightarrow> bool" where
  "chunk_range t0 f n b \<longleftrightarrow> 0 < f \<and> (t0 + n * f) * unat (bytes_per_frame b) < 2 ^ 32 \<and>
     n * f * unat (bytes_per_frame b) \<le> length (rbuffer b) \<and> n * f < 2 ^ 31"

lemma clear_until_fields:
  "clear_until r ts = Some (c, r') \<Longrightarrow> bytes_per_frame r' = bytes_per_frame r \<and> ground_value r' = ground_value r"
  by (auto simp: clear_until_def bind_eq_Some_conv split: if_splits)

lemma rb_write_fields: "rb_write r ts p = Some r' \<Longrightarrow> ground_value r' = ground_value r"
  by (auto simp: rb_write_def bind_eq_Some_conv Let_def split: if_splits)

lemma byte_at_ring: "byte_at r (q + length (rbuffer r)) = byte_at r q"
  by (simp add: byte_at_def)

lemma byte_pos_of_nat: "x < 2 ^ 32 \<Longrightarrow> byte_pos b (of_nat x) = x * unat (bytes_per_frame b)"
  by (simp add: byte_pos_def unat_of_nat_small)

lemma chunk_pos_mono: "i < k \<Longrightarrow> (t0 + i * f) * (w :: nat) + f * w \<le> (t0 + k * f) * w"
proof -
  assume "i < k"
  then have "t0 + i * f + f \<le> t0 + k * f" using mult_le_mono1 [of "Suc i" k f] by simp
  then have "(t0 + i * f + f) * w \<le> (t0 + k * f) * w" by (rule mult_le_mono1)
  then show ?thesis by (simp add: distrib_right)
qed

lemma chunk_range_window:
  assumes "chunk_range t0 f n b" and "i < n" and "j < f * unat (bytes_per_frame b)"
  shows "t0 * unat (bytes_per_frame b) \<le> (t0 + i * f) * unat (bytes_per_frame b) + j"
    and "(t0 + i * f) * unat (bytes_per_frame b) + j < t0 * unat (bytes_per_frame b) + length (rbuffer b)"
proof -
  let ?w = "unat (bytes_per_frame b)"
  have "(t0 + i * f) * ?w + f * ?w \<le> (t0 + n * f) * ?w" using assms(2) by (rule chunk_pos_mono)
  also have "\<dots> \<le> t0 * ?w + length (rbuffer b)" using assms(1) by (simp add: chunk_range_def distrib_right)
  finally show "(t0 + i * f) * ?w + j < t0 * ?w + length (rbuffer b)" using assms(3) by linarith
qed (simp add: distrib_right)

lemma chunk_time:
  assumes "chunk_range t0 f n b" and "rb_ok b" and "i \<le> n"
  shows "t0 + i * f < 2 ^ 32" and "byte_pos b (of_nat (t0 + i * f)) = (t0 + i * f) * unat (bytes_per_frame b)"
    and "(t0 + i * f) * unat (bytes_per_frame b) < 2 ^ 32" and "i * f < 2 ^ 31"
proof -
  let ?w = "unat (bytes_per_frame b)"
  have "i * f \<le> n * f" using assms(3) by (rule mult_le_mono1)
  then have "(t0 + i * f) * ?w \<le> (t0 + n * f) * ?w" by (intro mult_le_mono1) simp
  then show l: "(t0 + i * f) * ?w < 2 ^ 32" using assms(1) unfolding chunk_range_def by linarith
  have "t0 + i * f \<le> (t0 + i * f) * ?w" using assms(2) by (simp add: rb_ok_def)
  then show "t0 + i * f < 2 ^ 32" using l by linarith
  then show "byte_pos b (of_nat (t0 + i * f)) = (t0 + i * f) * ?w" by (rule byte_pos_of_nat)
  show "i * f < 2 ^ 31" using assms(1) \<open>i * f \<le> n * f\<close> unfolding chunk_range_def by linarith
qed

lemma chunk_order:
  assumes "chunk_range t0 f n b" and "rb_ok b" and "i \<le> n" and "k \<le> n"
  shows "t0 + i * f < t0 + k * f + 2 ^ 31" and "t0 + i * f \<le> t0 + k * f \<longleftrightarrow> i \<le> k"
  using chunk_time(4) [OF assms(1-3)] assms(1) by (simp_all add: chunk_range_def)

lemma clear_gap:
  assumes ok: "rb_ok b" and ts: "next_ts b = of_nat (t0 + L * f)" and range: "chunk_range t0 f n b" and k: "L < k" "k < n"
  obtains b1 where "clear_until b (of_nat (t0 + k * f)) = Some (True, b1)" and "rb_ok b1"
    and "next_ts b1 = of_nat (t0 + k * f)" and "bytes_per_frame b1 = bytes_per_frame b"
    and "ground_value b1 = ground_value b" and "length (rbuffer b1) = length (rbuffer b)"
    and "\<And>q. (t0 + L * f) * unat (bytes_per_frame b) \<le> q \<Longrightarrow>
      q < (t0 + L * f) * unat (bytes_per_frame b) + length (rbuffer b) \<Longrightarrow>
      byte_at b1 q = (if q < (t0 + k * f) * unat (bytes_per_frame b) then ground_value b else byte_at b q)"
proof -
  let ?w = "unat (bytes_per_frame b)" and ?n = "length (rbuffer b)"
  let ?g = "(t0 + L * f) * ?w" and ?d = "(k - L) * f * ?w"
  have older: "\<not> wrapping_ge (next_ts b) (of_nat (t0 + k * f))"
    unfolding ts using chunk_order [OF range ok, of L k] chunk_order [OF range ok, of k L] k
    by (subst wrapping_window) simp_all
  have le: "L * f \<le> k * f" using k by simp
  have pos: "byte_pos b (next_ts b) = ?g" unfolding ts using chunk_time(2) [OF range ok, of L] k by simp
  have "of_nat (t0 + k * f) - next_ts b = (of_nat ((k - L) * f) :: u32)"
    unfolding ts using le by (simp flip: of_nat_diff add: diff_mult_distrib del: of_nat_mult of_nat_add)
  moreover have "(k - L) * f < 2 ^ 32"
    using chunk_time(4) [OF range ok, of "k - L"] less_imp_diff_less [OF k(2), of L] by simp
  ultimately have gap: "byte_pos b (of_nat (t0 + k * f) - next_ts b) = ?d" by (simp only: byte_pos_of_nat)
  have sum: "?g + ?d = (t0 + k * f) * ?w" using le by (simp add: diff_mult_distrib distrib_right)
  moreover have "(t0 + k * f) * ?w < 2 ^ 32" using chunk_time(3) [OF range ok, of k] k by simp
  ultimately have small: "?g < 2 ^ 32" "?d < 2 ^ 32" by linarith+
  have "(t0 + k * f) * ?w \<le> t0 * ?w + ?n" "t0 * ?w \<le> ?g"
    using chunk_range_window(2) [OF range k(2), of 0] ok range by (simp_all add: rb_ok_def chunk_range_def)
  then have "?d \<le> ?n" using sum by linarith
  with clear_until_window [OF ok older] pos gap small obtain b1 where b1:
    "clear_until b (of_nat (t0 + k * f)) = Some (True, b1)" "rb_ok b1" "next_ts b1 = of_nat (t0 + k * f)"
    "length (rbuffer b1) = ?n"
    "\<And>q. ?g \<le> q \<Longrightarrow> q < ?g + ?n \<Longrightarrow> byte_at b1 q = (if q < ?g + ?d then ground_value b else byte_at b q)"
    by (metis min_absorb1)
  then show thesis using clear_until_fields [OF b1(1)] that unfolding sum by blast
qed

lemma holds_clear:
  assumes h: "holds_chunks t0 f chunk K L b" and range: "chunk_range t0 f n b" and k: "k < n" "L \<le> n"
  obtains c b1 where "clear_until b (of_nat (t0 + k * f)) = Some (c, b1)" and "holds_chunks t0 f chunk K (max L k) b1"
    and "bytes_per_frame b1 = bytes_per_frame b" and "ground_value b1 = ground_value b"
    and "length (rbuffer b1) = length (rbuffer b)"
proof (cases "k \<le> L")
  case True
  have ok: "rb_ok b" and ts: "next_ts b = of_nat (t0 + L * f)" using h by (simp_all add: holds_chunks_def)
  have "wrapping_ge (next_ts b) (of_nat (t0 + k * f))"
    unfolding ts using chunk_order [OF range ok k(2), of k] chunk_order [OF range ok _ k(2), of k] k(1) True
    by (subst wrapping_window) simp_all
  then show thesis using clear_until_older [of b] h True that [of False b] by (simp add: max_def)
next
  case False
  let ?w = "unat (bytes_per_frame b)" and ?n = "length (rbuffer b)"
  let ?g = "(t0 + L * f) * ?w"
  have ok: "rb_ok b" and ts: "next_ts b = of_nat (t0 + L * f)" using h by (simp_all add: holds_chunks_def)
  obtain b1 where b1: "clear_until b (of_nat (t0 + k * f)) = Some (True, b1)" "rb_ok b1"
    "next_ts b1 = of_nat (t0 + k * f)" "bytes_per_frame b1 = bytes_per_frame b"
    "ground_value b1 = ground_value b" "length (rbuffer b1) = ?n"
    "\<And>q. ?g \<le> q \<Longrightarrow> q < ?g + ?n \<Longrightarrow> byte_at b1 q = (if q < (t0 + k * f) * ?w then ground_value b else byte_at b q)"
    using clear_gap [OF ok ts range _ k(1)] False by (metis not_le_imp_less)
  have top: "(t0 + k * f) * ?w \<le> t0 * ?w + ?n" and base: "t0 * ?w \<le> ?g"
    using chunk_range_window(2) [OF range k(1), of 0] ok range by (simp_all add: rb_ok_def chunk_range_def)
  have "byte_at b1 ((t0 + i * f) * ?w + j) = (if i \<in> K then chunk i ! j else ground_value b)"
    if i: "i < k" "j < f * ?w" for i j
  proof (cases "i < L")
    case True
    let ?q = "(t0 + i * f) * ?w + j"
    have "?q < ?g" using chunk_pos_mono [OF True, of t0 f ?w] i(2) by linarith
    moreover have "t0 * ?w \<le> ?q" by (simp add: distrib_right)
    moreover have "?g \<le> (t0 + k * f) * ?w" using \<open>\<not> k \<le> L\<close> by (intro mult_le_mono1 add_left_mono) simp
    ultimately have "?g \<le> ?q + ?n" "?q + ?n < ?g + ?n" "\<not> ?q + ?n < (t0 + k * f) * ?w" using top by linarith+
    then have "byte_at b1 (?q + ?n) = byte_at b (?q + ?n)" using b1(7) by presburger
    then show ?thesis using h True i(2) b1(6) byte_at_ring [of b1 ?q] byte_at_ring [of b ?q] by (simp add: holds_chunks_def)
  next
    case False
    let ?q = "(t0 + i * f) * ?w + j"
    have "?q < (t0 + k * f) * ?w" using chunk_pos_mono [OF i(1), of t0 f ?w] i(2) by linarith
    moreover have "?g \<le> (t0 + i * f) * ?w" using False by (intro mult_le_mono1 add_left_mono) simp
    ultimately have "?g \<le> ?q" "?q < ?g + ?n" using top base by linarith+
    then have "byte_at b1 ?q = ground_value b" using b1(7) \<open>?q < (t0 + k * f) * ?w\<close> by presburger
    moreover have "i \<notin> K" using h False by (auto simp: holds_chunks_def)
    ultimately show ?thesis by simp
  qed
  then have "holds_chunks t0 f chunk K (max L k) b1" using b1 h False by (auto simp: holds_chunks_def)
  then show thesis using that b1 by blast
qed

lemma holds_write:
  assumes h: "holds_chunks t0 f chunk K L b" and range: "chunk_range t0 f n b" and k: "k \<le> L" "k < n" "L \<le> n"
    and len: "length (chunk k) = f * unat (bytes_per_frame b)"
  obtains b1 where "rb_write b (of_nat (t0 + k * f)) (chunk k) = Some b1"
    and "holds_chunks t0 f chunk (insert k K) (max L (Suc k)) b1"
    and "bytes_per_frame b1 = bytes_per_frame b" and "ground_value b1 = ground_value b"
    and "length (rbuffer b1) = length (rbuffer b)"
proof -
  let ?w = "unat (bytes_per_frame b)" and ?n = "length (rbuffer b)"
  let ?p = "(t0 + k * f) * ?w"
  have ok: "rb_ok b" and ts: "next_ts b = of_nat (t0 + L * f)" using h by (simp_all add: holds_chunks_def)
  have pos: "byte_pos b (of_nat (t0 + k * f)) = ?p" using chunk_time(2) [OF range ok, of k] k(2) by simp
  have top: "?p + f * ?w \<le> t0 * ?w + ?n" and base: "t0 * ?w \<le> ?p"
    using chunk_pos_mono [OF k(2), of t0 f ?w] range by (simp_all add: chunk_range_def distrib_right)
  then have "length (chunk k) \<le> ?n" using len by linarith
  from rb_write_window [OF ok this, of "of_nat (t0 + k * f)", unfolded pos] obtain b1 where b1:
    "rb_write b (of_nat (t0 + k * f)) (chunk k) = Some b1" "rb_ok b1" "length (rbuffer b1) = ?n"
    "bytes_per_frame b1 = bytes_per_frame b"
    "\<And>q. ?p \<le> q \<Longrightarrow> q < ?p + ?n \<Longrightarrow> byte_at b1 q = (if q < ?p + f * ?w then chunk k ! (q - ?p) else byte_at b q)"
    "next_ts b1 = (let e = of_nat (t0 + k * f) + of_nat (length (chunk k) div ?w) in
      if wrapping_gt e (next_ts b) then e else next_ts b)"
    unfolding len by metis
  have e: "of_nat (t0 + k * f) + of_nat (length (chunk k) div ?w) = (of_nat (t0 + Suc k * f) :: u32)"
    using ok by (simp add: len rb_ok_def)
  have newer: "wrapping_gt (of_nat (t0 + Suc k * f) :: u32) (of_nat (t0 + L * f)) \<longleftrightarrow> L < Suc k"
    using chunk_order [OF range ok k(3), of "Suc k"] chunk_order [OF range ok _ k(3), of "Suc k"]
      chunk_order(2) [OF range ok _ k(3), of "Suc k"] k(2) by (subst wrapping_window) auto
  have next_ts: "next_ts b1 = of_nat (t0 + max L (Suc k) * f)"
    unfolding b1(6) Let_def e ts newer using k(1) by (cases "L = Suc k") (auto simp: max_def algebra_simps)
  have "byte_at b1 ((t0 + i * f) * ?w + j) = (if i \<in> insert k K then chunk i ! j else ground_value b)"
    if i: "i < max L (Suc k)" "j < f * ?w" for i j
  proof -
    let ?q = "(t0 + i * f) * ?w + j"
    have n: "i < n" using i(1) k by simp
    note win = chunk_range_window [OF range n i(2)]
    consider "i = k" | "k < i" | "i < k" by linarith
    then show ?thesis
    proof cases
      case 1
      moreover have "j < ?n" using top base i(2) by linarith
      ultimately show ?thesis using b1(5) [of ?q] i(2) by simp
    next
      case 2
      then have "?p \<le> ?q" "?q < ?p + ?n" "\<not> ?q < ?p + f * ?w" using chunk_pos_mono [of k i t0 f ?w] win base by linarith+
      then have "byte_at b1 ?q = byte_at b ?q" using b1(5) by presburger
      then show ?thesis using 2 i h by (simp add: holds_chunks_def)
    next
      case 3
      then have "?p \<le> ?q + ?n" "?q + ?n < ?p + ?n" "\<not> ?q + ?n < ?p + f * ?w"
        using chunk_pos_mono [of i k t0 f ?w] win i(2) top by linarith+
      then have "byte_at b1 (?q + ?n) = byte_at b (?q + ?n)" using b1(5) by presburger
      then show ?thesis
        using 3 i k(1) h byte_at_ring [of b ?q] byte_at_ring [of b1 ?q] b1(3) by (simp add: holds_chunks_def)
    qed
  qed
  then have "holds_chunks t0 f chunk (insert k K) (max L (Suc k)) b1"
    using b1(2,4) next_ts rb_write_fields [OF b1(1)] h by (auto simp: holds_chunks_def)
  then show thesis using that b1(1,3,4) rb_write_fields [OF b1(1)] by blast
qed

section \<open>Processing packets that carry chunks\<close>

definition carries_chunk :: "nat \<Rightarrow> nat \<Rightarrow> (nat \<Rightarrow> byte list) \<Rightarrow> nat \<Rightarrow> packet_buffer \<Rightarrow> bool" where
  "carries_chunk t0 f chunk k p \<longleftrightarrow> pb_timestamp p = of_nat (t0 + k * f) \<and>
     read_block (pb_payload p) 0 (unat (pb_data_len p)) = Some (chunk k)"

text \<open>A reader that plays the signal from \<open>t0\<close>, with the chunks in \<open>K\<close> received; \<open>n\<close> bounds the chunks considered.\<close>

definition playing :: "nat \<Rightarrow> nat \<Rightarrow> (nat \<Rightarrow> byte list) \<Rightarrow> nat \<Rightarrow> nat set \<Rightarrow> nat \<Rightarrow> reader \<Rightarrow> bool" where
  "playing t0 f chunk n K L r \<longleftrightarrow> holds_chunks t0 f chunk K L (rd_receive_buffer r) \<and> chunk_range t0 f n (rd_receive_buffer r) \<and>
     bytes_per_frame (rd_receive_buffer r) = format_bytes_per_frame (rd_audio_format r) \<and>
     rd_next_ts_to_read r = of_nat t0 \<and> rd_most_recent_ts r \<noteq> None \<and> L \<le> n"

definition same_setup :: "reader \<Rightarrow> reader \<Rightarrow> bool" where
  "same_setup r r' \<longleftrightarrow> rd_audio_format r' = rd_audio_format r \<and> rd_id r' = rd_id r \<and>
     rd_read_audio_data_buffer r' = rd_read_audio_data_buffer r \<and>
     bytes_per_frame (rd_receive_buffer r') = bytes_per_frame (rd_receive_buffer r) \<and>
     ground_value (rd_receive_buffer r') = ground_value (rd_receive_buffer r) \<and>
     length (rbuffer (rd_receive_buffer r')) = length (rbuffer (rd_receive_buffer r))"

lemma same_setup_refl [simp]: "same_setup r r"
  by (simp add: same_setup_def)

lemma same_setup_trans: "same_setup r r' \<Longrightarrow> same_setup r' r'' \<Longrightarrow> same_setup r r''"
  by (simp add: same_setup_def)

lemma note_packet_playing:
  "rd_most_recent_ts r \<noteq> None \<Longrightarrow> \<exists>m. note_packet p newest r = r\<lparr>rd_most_recent_ts := Some m\<rparr>"
  by (cases r) (auto simp: note_packet_def)

lemma process_chunk:
  assumes play: "playing t0 f chunk n K L r" and p: "carries_chunk t0 f chunk k p" and k: "k < n"
    and len: "length (chunk k) = f * unat (bytes_per_frame (rd_receive_buffer r))"
    and pt: "0 < st_packet_time_frames s" "n * f + unat (st_packet_time_frames s) \<le> 2 ^ 31"
  obtains r' where "process_packet p (r, s) = Some (r', s)" and "playing t0 f chunk n (insert k K) (max L (Suc k)) r'"
    and "same_setup r r'"
proof -
  let ?b = "rd_receive_buffer r" and ?d = "unat (st_packet_time_frames s)"
  have h: "holds_chunks t0 f chunk K L ?b" and range: "chunk_range t0 f n ?b" and L: "L \<le> n"
    and w: "bytes_per_frame ?b = format_bytes_per_frame (rd_audio_format r)" and t: "rd_next_ts_to_read r = of_nat t0"
    using play by (simp_all add: playing_def)
  have ok: "rb_ok ?b" using h by (simp add: holds_chunks_def)
  obtain c b1 where b1: "clear_until ?b (of_nat (t0 + k * f)) = Some (c, b1)" "holds_chunks t0 f chunk K (max L k) b1"
    "bytes_per_frame b1 = bytes_per_frame ?b" "ground_value b1 = ground_value ?b" "length (rbuffer b1) = length (rbuffer ?b)"
    using holds_clear [OF h range k L] .
  have range1: "chunk_range t0 f n b1" using range b1(3,5) by (simp add: chunk_range_def)
  obtain b2 where b2: "rb_write b1 (of_nat (t0 + k * f)) (chunk k) = Some b2"
    "holds_chunks t0 f chunk (insert k K) (max (max L k) (Suc k)) b2" "bytes_per_frame b2 = bytes_per_frame b1"
    "ground_value b2 = ground_value b1" "length (rbuffer b2) = length (rbuffer b1)"
    using holds_write [OF b1(2) range1 _ k] k L len b1(3) by (metis less_imp_le max.bounded_iff max.cobounded2)
  have max: "max (max L k) (Suc k) = max L (Suc k)" by simp
  have fr: "format_bytes_per_frame (rd_audio_format r) \<noteq> 0" using ok w by (auto simp: rb_ok_def)
  define newest where "newest = pb_timestamp p + of_nat (unat (pb_data_len p)) div format_bytes_per_frame (rd_audio_format r) - 1"
  obtain m where m: "note_packet p newest r = r\<lparr>rd_most_recent_ts := Some m\<rparr>"
    using note_packet_playing [of r p newest] play by (auto simp: playing_def)
  have pos: "k * f + ?d < 2 ^ 31 \<and> 0 < ?d"
  proof -
    have "k * f < n * f" using k range by (simp add: chunk_range_def)
    moreover have "0 < ?d" using pt(1) by (simp add: word_less_nat_alt)
    ultimately show ?thesis using pt(2) by linarith
  qed
  have sum: "of_nat (t0 + k * f) + ucast (st_packet_time_frames s) = (of_nat (t0 + k * f + ?d) :: u32)" by simp
  have late: "\<not> wrapping_le (wrapping_add (pb_timestamp p) (ucast (st_packet_time_frames s))) (rd_next_ts_to_read r)"
    unfolding wrapping_add_def t using p pos
    by (simp only: carries_chunk_def sum) (subst wrapping_window, simp_all)
  have part: "\<not> wrapping_lt (pb_timestamp p) (rd_next_ts_to_read r)"
    unfolding t using p pos by (simp only: carries_chunk_def) (subst wrapping_window, simp_all)
  let ?r = "r\<lparr>rd_most_recent_ts := Some m, rd_receive_buffer := b2\<rparr>"
  have "process_packet p (r, s) = Some (?r, s)"
    using p fr late part b1(1) b2(1) m by (simp add: process_packet_def frames_of_def carries_chunk_def newest_def)
  moreover have "playing t0 f chunk n (insert k K) (max L (Suc k)) ?r"
    using b2 b1(3,5) range w t k L unfolding max by (simp add: playing_def chunk_range_def)
  moreover have "same_setup r ?r" using b1 b2 by (simp add: same_setup_def)
  ultimately show thesis using that by blast
qed

definition extent :: "nat list \<Rightarrow> nat \<Rightarrow> nat" where
  "extent ks L = fold (\<lambda>k L. max L (Suc k)) ks L"

lemma extent_simps [simp]: "extent [] L = L" "extent (k # ks) L = extent ks (max L (Suc k))"
  "extent (ks @ ls) L = extent ls (extent ks L)"
  by (simp_all add: extent_def)

lemma extent_le: "L \<le> n \<Longrightarrow> set ks \<subseteq> {..<n} \<Longrightarrow> extent ks L \<le> n"
  by (induction ks arbitrary: L) auto

lemma process_chunks:
  assumes "playing t0 f chunk n K L r" and "list_all2 (carries_chunk t0 f chunk) ks ps" and "set ks \<subseteq> {..<n}"
    and "\<And>k. k < n \<Longrightarrow> length (chunk k) = f * unat (bytes_per_frame (rd_receive_buffer r))"
    and "0 < st_packet_time_frames s" and "n * f + unat (st_packet_time_frames s) \<le> 2 ^ 31"
  shows "\<exists>r'. process_packets ps (r, s) = Some (r', s) \<and> playing t0 f chunk n (K \<union> set ks) (extent ks L) r' \<and> same_setup r r'"
  using assms(1-4)
proof (induction ks arbitrary: K L r ps)
  case Nil
  then show ?case by simp
next
  case (Cons k ks)
  then obtain p ps' where ps: "ps = p # ps'" "carries_chunk t0 f chunk k p" "list_all2 (carries_chunk t0 f chunk) ks ps'"
    by (auto simp: list_all2_Cons1)
  have k: "k < n" using Cons.prems(3) by simp
  obtain r1 where r1: "process_packet p (r, s) = Some (r1, s)" "playing t0 f chunk n (insert k K) (max L (Suc k)) r1" "same_setup r r1"
    using process_chunk [OF Cons.prems(1) ps(2) k Cons.prems(4) [OF k] assms(5,6)] .
  have "\<exists>r'. process_packets ps' (r1, s) = Some (r', s) \<and>
      playing t0 f chunk n (insert k K \<union> set ks) (extent ks (max L (Suc k))) r' \<and> same_setup r1 r'"
    using Cons.prems(3,4) r1(3) by (intro Cons.IH [OF r1(2) ps(3)]) (auto simp: same_setup_def)
  then show ?case using ps(1) r1 same_setup_trans by auto
qed

text \<open>A stream whose queue holds the chunks \<open>ks\<close>, and those of them one call takes off.\<close>

definition queued_chunks :: "nat \<Rightarrow> nat \<Rightarrow> (nat \<Rightarrow> byte list) \<Rightarrow> nat \<Rightarrow> nat list \<Rightarrow> stream_context \<Rightarrow> bool" where
  "queued_chunks t0 f chunk n ks s \<longleftrightarrow> st_state s \<noteq> No_consumer \<and> buf_ok (st_packets s) \<and>
     list_all2 (carries_chunk t0 f chunk) ks (contents (st_packets s)) \<and> set ks \<subseteq> {..<n} \<and>
     0 < st_packet_time_frames s \<and> n * f + unat (st_packet_time_frames s) \<le> 2 ^ 31"

definition half :: "'a list \<Rightarrow> 'a list" where
  "half xs = take ((length xs + 1) div 2) xs"

lemma maintain_context_play:
  assumes "playing t0 f chunk n K L r" and "queued_chunks t0 f chunk n ks s"
    and "\<And>k. k < n \<Longrightarrow> length (chunk k) = f * unat (bytes_per_frame (rd_receive_buffer r))"
  shows "\<exists>r' s'. maintain_context r s = Some (r', s') \<and> playing t0 f chunk n (K \<union> set (half ks)) (extent (half ks) L) r' \<and>
    same_setup r r'"
proof -
  let ?ps = "contents (st_packets s)"
  have len: "length ks = length ?ps" using assms(2) by (auto simp: queued_chunks_def dest: list_all2_lengthD)
  obtain q where q: "maintain_stream 0 (r, s) = map_option (\<lambda>(r', s'). (r', s'\<lparr>st_packets := q\<rparr>))
      (process_packets (take ((length ?ps + 1) div 2) ?ps) (r, s))"
    using maintain_stream_fold [OF _ refl, of s r] assms(2) by (auto simp: queued_chunks_def)
  have "list_all2 (carries_chunk t0 f chunk) (half ks) (take ((length ?ps + 1) div 2) ?ps)"
    using assms(2) unfolding half_def len by (auto simp: queued_chunks_def intro: list_all2_takeI)
  moreover have "set (half ks) \<subseteq> {..<n}" using assms(2) by (auto simp: queued_chunks_def half_def dest: in_set_takeD)
  ultimately have "\<exists>r'. process_packets (take ((length ?ps + 1) div 2) ?ps) (r, s) = Some (r', s) \<and>
      playing t0 f chunk n (K \<union> set (half ks)) (extent (half ks) L) r' \<and> same_setup r r'"
    using assms by (intro process_chunks) (auto simp: queued_chunks_def)
  then show ?thesis using q assms(2) by (auto simp: maintain_context_def queued_chunks_def)
qed

lemma maintain_contexts_play:
  assumes "playing t0 f chunk n K L r" and "list_all2 (queued_chunks t0 f chunk n) kss ss"
    and "\<And>k. k < n \<Longrightarrow> length (chunk k) = f * unat (bytes_per_frame (rd_receive_buffer r))"
  shows "\<exists>r' ss'. maintain_contexts r ss = Some (r', ss') \<and>
    playing t0 f chunk n (K \<union> set (concat (map half kss))) (extent (concat (map half kss)) L) r' \<and> same_setup r r'"
  using assms
proof (induction kss arbitrary: K L r ss)
  case Nil
  then show ?case by simp
next
  case (Cons ks kss)
  then obtain s ss' where ss: "ss = s # ss'" "queued_chunks t0 f chunk n ks s" "list_all2 (queued_chunks t0 f chunk n) kss ss'"
    by (auto simp: list_all2_Cons1)
  obtain r1 s' where r1: "maintain_context r s = Some (r1, s')"
    "playing t0 f chunk n (K \<union> set (half ks)) (extent (half ks) L) r1" "same_setup r r1"
    using maintain_context_play [OF Cons.prems(1) ss(2) Cons.prems(3)] by auto
  have "\<exists>r' ss''. maintain_contexts r1 ss' = Some (r', ss'') \<and>
      playing t0 f chunk n (K \<union> set (half ks) \<union> set (concat (map half kss)))
        (extent (concat (map half kss)) (extent (half ks) L)) r' \<and> same_setup r1 r'"
    using Cons.prems(3) r1(3) by (intro Cons.IH [OF r1(2) ss(3)]) (auto simp: same_setup_def)
  then show ?case using ss(1) r1 same_setup_trans by (auto simp: Un_assoc)
qed

text \<open>A reader that has received nothing starts at the timestamp of the first packet.\<close>

definition started :: "nat \<Rightarrow> u32 \<Rightarrow> reader \<Rightarrow> reader" where
  "started t0 m r = r\<lparr>rd_most_recent_ts := Some m, rd_receive_buffer := set_next_ts (rd_receive_buffer r) (of_nat t0),
     rd_next_ts_to_read := of_nat t0\<rparr>"

lemma process_packet_fresh:
  assumes "rd_most_recent_ts r = None" and "carries_chunk t0 f chunk 0 p" and "format_bytes_per_frame (rd_audio_format r) \<noteq> 0"
  shows "\<exists>m. \<forall>s. process_packet p (r, s) = process_packet p (started t0 m r, s)"
proof -
  let ?m = "pb_timestamp p + of_nat (unat (pb_data_len p)) div format_bytes_per_frame (rd_audio_format r) - 1"
  have "note_packet p ?m r = started t0 ?m r" "note_packet p ?m (started t0 ?m r) = started t0 ?m r"
    using assms(1,2) by (simp_all add: note_packet_def started_def carries_chunk_def wrapping_gt_def wrapping_le_def)
  moreover have "rd_audio_format (started t0 ?m r) = rd_audio_format r" by (simp add: started_def)
  ultimately have "\<forall>s. process_packet p (r, s) = process_packet p (started t0 ?m r, s)"
    using assms(3) by (simp add: process_packet_def frames_of_def)
  then show ?thesis by blast
qed

lemma maintain_contexts_fresh:
  assumes "rd_most_recent_ts r = None" and "list_all2 (queued_chunks t0 f chunk n) kss ss" and "concat kss \<noteq> []"
    and "\<And>ks. ks \<in> set kss \<Longrightarrow> ks \<noteq> [] \<Longrightarrow> hd ks = 0" and "format_bytes_per_frame (rd_audio_format r) \<noteq> 0"
  shows "\<exists>m. maintain_contexts r ss = maintain_contexts (started t0 m r) ss"
  using assms(2-4)
proof (induction kss arbitrary: ss)
  case Nil
  then show ?case by simp
next
  case (Cons ks kss)
  then obtain s ss' where ss: "ss = s # ss'" "queued_chunks t0 f chunk n ks s" "list_all2 (queued_chunks t0 f chunk n) kss ss'"
    by (auto simp: list_all2_Cons1)
  have q: "buf_ok (st_packets s)" "st_state s \<noteq> No_consumer" "list_all2 (carries_chunk t0 f chunk) ks (contents (st_packets s))"
    using ss(2) by (simp_all add: queued_chunks_def)
  show ?case
  proof (cases ks)
    case Nil
    then have "maintain_context r' s = Some (r', s)" for r'
      using q by (simp add: maintain_context_def maintain_stream_stop)
    moreover obtain m where "maintain_contexts r ss' = maintain_contexts (started t0 m r) ss'"
      using Cons.IH [OF ss(3)] Cons.prems(2,3) Nil by auto
    ultimately show ?thesis using ss(1) by (intro exI [of _ m]) simp
  next
    case (Cons k ks')
    then have "k = 0" using Cons.prems(3) [of ks] by simp
    then obtain p ps where ps: "contents (st_packets s) = p # ps" "carries_chunk t0 f chunk 0 p"
      using q(3) Cons by (auto simp: list_all2_Cons1)
    obtain m where m: "process_packet p (r, s) = process_packet p (started t0 m r, s)"
      using process_packet_fresh [OF assms(1) ps(2) assms(5)] by blast
    obtain p' q' where pop: "pop (st_packets s) = Some (Some p, q')" using pop_cons [OF q(1) ps(1)] by metis
    have "maintain_context r s = maintain_context (started t0 m r) s"
      using q(2) m ps(1) by (simp add: maintain_context_def maintain_stream_step [OF q(1) _ pop])
    then show ?thesis using ss(1) by (intro exI [of _ m]) simp
  qed
qed

section \<open>Reading\<close>

lemma rb_read_clears:
  assumes ok: "rb_ok r" and fits: "n \<le> length (rbuffer r)"
  shows "\<exists>b. rb_read r ts n True = Some (map (byte_at r) [byte_pos r ts..<byte_pos r ts + n], r\<lparr>rbuffer := b\<rparr>)"
proof -
  let ?b = "rbuffer r" and ?t = "byte_pos r ts"
  have l: "0 < length ?b" "length ?b < 2 ^ 63" using ok by (auto simp: rb_ok_def)
  obtain p where p: "position_update (ucast ts * ucast (bytes_per_frame r)) (of_nat (length ?b)) (of_nat n) = Some p"
    "unat (index1 p) = ?t mod length ?b" "unat (size1 p) = min n (length ?b - ?t mod length ?b)"
    "unat (size2 p) = n - unat (size1 p)"
    using position_ring [OF l fits, of "ucast ts * ucast (bytes_per_frame r)"] unfolding byte_pos_u64 by blast
  have "length (replicate n (ground_value r)) \<le> length ?b" using fits by simp
  then obtain b where "copy_in ?b p (replicate n (ground_value r)) = Some b"
    using copy_in_window [OF l(1), of "replicate n (ground_value r)" p ?t] p(2-4) by (simp only: length_replicate) blast
  then have "fill_in ?b p (ground_value r) = Some b" using p(3,4) by (subst fill_in_copy_in [of p n]) simp_all
  then show ?thesis using rb_read_clear_eq [OF ok fits p(1)] by blast
qed

text \<open>What is played for the first \<open>M\<close> chunks: silence for the chunks that are not there.\<close>

definition played :: "(nat \<Rightarrow> byte list) \<Rightarrow> byte list \<Rightarrow> nat set \<Rightarrow> nat \<Rightarrow> byte list" where
  "played chunk silence K M = concat (map (\<lambda>k. if k \<in> K then chunk k else silence) [0..<M])"

lemma holds_played:
  assumes "holds_chunks t0 f chunk K L b" and "M \<le> L"
    and len: "\<And>k. k < L \<Longrightarrow> length (chunk k) = f * unat (bytes_per_frame b)"
  shows "map (byte_at b) [t0 * unat (bytes_per_frame b)..<t0 * unat (bytes_per_frame b) + M * (f * unat (bytes_per_frame b))] =
    played chunk (replicate (f * unat (bytes_per_frame b)) (ground_value b)) K M"
  using assms(2)
proof (induction M)
  case 0
  then show ?case by (simp add: played_def)
next
  case (Suc M)
  let ?w = "unat (bytes_per_frame b)"
  let ?s = "t0 * ?w + M * (f * ?w)"
  have "byte_at b (?s + j) = (if M \<in> K then chunk M ! j else ground_value b)" if "j < f * ?w" for j
    using assms(1) Suc.prems that by (simp add: holds_chunks_def algebra_simps)
  then have "map (byte_at b) [?s..<?s + f * ?w] = (if M \<in> K then chunk M else replicate (f * ?w) (ground_value b))"
    using len [of M] Suc.prems by (intro nth_equalityI) auto
  moreover have "[t0 * ?w..<t0 * ?w + Suc M * (f * ?w)] = [t0 * ?w..<?s] @ [?s..<?s + f * ?w]"
    using upt_add_eq_append [of "t0 * ?w" ?s "f * ?w"] by (simp add: algebra_simps)
  ultimately show ?case using Suc by (simp add: played_def)
qed

lemma playing_reads:
  assumes play: "playing t0 f chunk n K L r" and M: "M \<le> L"
    and len: "\<And>k. k < n \<Longrightarrow> length (chunk k) = f * unat (format_bytes_per_frame (rd_audio_format r))"
  defines "w \<equiv> unat (format_bytes_per_frame (rd_audio_format r))"
  shows "\<exists>b. rb_read (rd_receive_buffer r) (of_nat t0) (M * (f * w)) True =
      Some (played chunk (replicate (f * w) (ground_value (rd_receive_buffer r))) K M, (rd_receive_buffer r)\<lparr>rbuffer := b\<rparr>)"
    and "frames_of (M * (f * w)) (rd_audio_format r) = Some (of_nat (M * f))"
proof -
  let ?b = "rd_receive_buffer r"
  have h: "holds_chunks t0 f chunk K L ?b" and range: "chunk_range t0 f n ?b" and L: "L \<le> n"
    and w: "unat (bytes_per_frame ?b) = w"
    using play by (simp_all add: playing_def w_def)
  have ok: "rb_ok ?b" using h by (simp add: holds_chunks_def)
  have "M * f * w \<le> n * f * w" using M L by (intro mult_le_mono1) simp
  moreover have "n * f * w \<le> length (rbuffer ?b)" "(t0 + n * f) * w < 2 ^ 32" using range w by (simp_all add: chunk_range_def)
  ultimately have fits: "M * (f * w) \<le> length (rbuffer ?b)" and small: "M * f * w < 2 ^ 32"
    unfolding distrib_right by (linarith | simp only: mult.assoc)+
  have pos: "byte_pos ?b (of_nat t0) = t0 * w" using chunk_time(2) [OF range ok, of 0] w by simp
  have "map (byte_at ?b) [t0 * w..<t0 * w + M * (f * w)] = played chunk (replicate (f * w) (ground_value ?b)) K M"
    using holds_played [OF h M] len L w unfolding w_def by simp
  then show "\<exists>b. rb_read ?b (of_nat t0) (M * (f * w)) True =
      Some (played chunk (replicate (f * w) (ground_value ?b)) K M, ?b\<lparr>rbuffer := b\<rparr>)"
    using rb_read_clears [OF ok fits, of "of_nat t0"] pos by simp
  have pos_w: "0 < w" using ok w by (simp add: rb_ok_def)
  moreover have "M * f \<le> M * f * w" using pos_w by simp
  then have "M * f < 2 ^ 32" using small by linarith
  ultimately have "of_nat (M * (f * w)) div format_bytes_per_frame (rd_audio_format r) = (of_nat (M * f) :: u32)"
    using pos_w small unfolding w_def
    by (intro word_unat_eq_iff [THEN iffD2]) (simp add: unat_div unat_of_nat_small mult.assoc [symmetric] del: of_nat_mult)
  then show "frames_of (M * (f * w)) (rd_audio_format r) = Some (of_nat (M * f))"
    using pos_w by (auto simp: frames_of_def w_def)
qed

lemma maintenance_plays:
  assumes ring: "rb_ok (rd_receive_buffer r)" "chunk_range t0 f n (rd_receive_buffer r)"
      "bytes_per_frame (rd_receive_buffer r) = format_bytes_per_frame (rd_audio_format r)"
    and queues: "list_all2 (queued_chunks t0 f chunk n) kss (rd_streams r)"
    and len: "\<And>k. k < n \<Longrightarrow> length (chunk k) = f * unat (format_bytes_per_frame (rd_audio_format r))"
    and start: "if rd_most_recent_ts r = None then concat kss \<noteq> [] \<and> (\<forall>ks \<in> set kss. ks \<noteq> [] \<longrightarrow> hd ks = 0)
      else next_ts (rd_receive_buffer r) = of_nat t0"
    and t: "rd_next_ts_to_read r = of_nat t0"
  shows "\<exists>r'. do_realtime_maintenance r = Some r' \<and>
    playing t0 f chunk n (set (concat (map half kss))) (extent (concat (map half kss)) 0) r' \<and> same_setup r r'"
proof -
  have empty: "holds_chunks t0 f chunk {} 0 b" if "rb_ok b" "next_ts b = of_nat t0" for b
    using that by (simp add: holds_chunks_def)
  obtain r0 where r0: "maintain_contexts r (rd_streams r) = maintain_contexts r0 (rd_streams r)"
    "playing t0 f chunk n {} 0 r0" "same_setup r r0"
  proof (cases "rd_most_recent_ts r")
    case None
    have "format_bytes_per_frame (rd_audio_format r) \<noteq> 0" using ring(1,3) by (auto simp: rb_ok_def)
    then have "\<exists>m. maintain_contexts r (rd_streams r) = maintain_contexts (started t0 m r) (rd_streams r)"
      using start None by (intro maintain_contexts_fresh [OF None queues]) simp_all
    then obtain m where "maintain_contexts r (rd_streams r) = maintain_contexts (started t0 m r) (rd_streams r)" by blast
    moreover have "playing t0 f chunk n {} 0 (started t0 m r)"
      using ring empty by (auto simp: playing_def started_def set_next_ts_def chunk_range_def rb_ok_def)
    ultimately show thesis using that by (auto simp: same_setup_def started_def set_next_ts_def)
  next
    case (Some m)
    then show thesis using that [OF refl] ring start t empty by (auto simp: playing_def)
  qed
  have "\<exists>r' ss'. maintain_contexts r0 (rd_streams r) = Some (r', ss') \<and>
      playing t0 f chunk n ({} \<union> set (concat (map half kss))) (extent (concat (map half kss)) 0) r' \<and> same_setup r0 r'"
    using r0(3) len ring(3) by (intro maintain_contexts_play [OF r0(2) queues]) (simp add: same_setup_def)
  then obtain r' ss' where "maintain_contexts r (rd_streams r) = Some (r', ss')"
    "playing t0 f chunk n (set (concat (map half kss))) (extent (concat (map half kss)) 0) r'" "same_setup r r'"
    using r0 same_setup_trans by auto
  then show ?thesis
    by (intro exI [of _ "r'\<lparr>rd_streams := ss'\<rparr>"]) (simp add: do_realtime_maintenance_def playing_def same_setup_def ring(3))
qed

section \<open>A concrete reader\<close>

text \<open>One channel of 16-bit samples, chunks of one frame from time 5; two streams with three packets and one packet.\<close>

definition demo_packet :: "nat \<Rightarrow> packet_buffer" where
  "demo_packet k = \<lparr>pb_timestamp = of_nat (5 + k), pb_seq = of_nat k, pb_data_len = 2, pb_recv_time = 0,
     pb_payload = [of_nat k, of_nat k] @ replicate 1438 0\<rparr>"

definition demo_stream :: "nat list \<Rightarrow> stream_context" where
  "demo_stream ks = stream_context_init\<lparr>st_packet_time_frames := 1, st_packets := \<lparr>buffer = map demo_packet ks,
     fifo_of = \<lparr>read_ts = 0, write_ts = of_nat (length ks), capacity = of_nat (length ks)\<rparr>\<rparr>\<rparr>"

definition demo_reader :: reader where
  "demo_reader = reader_init\<lparr>rd_id := 1, rd_audio_format := \<lparr>af_byte_order = Order_be, af_encoding = Pcm_s16,
     af_ordering = Interleaved, af_sample_rate = 48000, af_num_channels = 1\<rparr>,
     rd_streams := [demo_stream [0, 2, 1], demo_stream [1]],
     rd_receive_buffer := set_next_ts (rb_resize ringbuffer_init 4 2) 5, rd_most_recent_ts := Some 4\<rparr>"

lemma demo_stream_queue:
  assumes "0 < length ks" and "length ks < 2 ^ 63"
  shows "buf_ok (st_packets (demo_stream ks)) \<and> contents (st_packets (demo_stream ks)) = map demo_packet ks \<and>
    st_state (demo_stream ks) = Inactive \<and> st_packet_time_frames (demo_stream ks) = 1"
proof -
  have u: "unat (of_nat (length ks) :: u64) = length ks" using assms by (simp add: unat_of_nat_small)
  have "ring_slice (map demo_packet ks) 0 (length ks) = map demo_packet ks"
    by (rule nth_equalityI) simp_all
  with u assms show ?thesis
    by (simp add: demo_stream_def stream_context_init_def buf_ok_def fifo_ok_def contents_def)
qed

lemma demo_ring:
  "rb_ok (rd_receive_buffer demo_reader)" "chunk_range 5 1 3 (rd_receive_buffer demo_reader)"
  "bytes_per_frame (rd_receive_buffer demo_reader) = 2" "next_ts (rd_receive_buffer demo_reader) = 5"
  "format_bytes_per_frame (rd_audio_format demo_reader) = 2" "ground_value (rd_receive_buffer demo_reader) = 0"
  by (simp_all add: demo_reader_def rb_resize_def ringbuffer_init_def set_next_ts_def rb_ok_def chunk_range_def
      format_bytes_per_frame_def format_bytes_per_sample_def)

lemma demo_carries: "k < 100 \<Longrightarrow> carries_chunk 5 1 (\<lambda>k. [of_nat k, of_nat k]) k (demo_packet k)"
  by (simp add: carries_chunk_def demo_packet_def read_block_def)

section \<open>Properties\<close>

text \<open>
  A call of the audio thread processes the queued packets of a stream in order, but only half of
  them, rounded up; the rest stays in the queue.
\<close>

theorem maintenance_half:
  assumes "buf_ok (st_packets s)" and "st_state s \<noteq> No_consumer" and "contents (st_packets s) = ps"
  shows "\<exists>q. contents q = drop ((length ps + 1) div 2) ps \<and>
    maintain_context r s = map_option (\<lambda>(r', s'). (r', s'\<lparr>st_packets := q\<rparr>))
      (process_packets (take ((length ps + 1) div 2) ps) (r, s))"
proof -
  obtain q where "contents q = drop ((length ps + 1) div 2) ps"
    "maintain_stream 0 (r, s) = map_option (\<lambda>(r', s'). (r', s'\<lparr>st_packets := q\<rparr>))
       (process_packets (take ((length ps + 1) div 2) ps) (r, s))"
    using maintain_stream_fold [OF assms(1,3)] by metis
  then show ?thesis using assms(2) by (auto simp: maintain_context_def)
qed

theorem maintenance_half_witness:
  "\<exists>q. contents q = [demo_packet 1, demo_packet 3] \<and> maintain_context demo_reader (demo_stream [0, 2, 1, 3]) =
    map_option (\<lambda>(r', s'). (r', s'\<lparr>st_packets := q\<rparr>))
      (process_packets [demo_packet 0, demo_packet 2] (demo_reader, demo_stream [0, 2, 1, 3]))"
proof -
  have "buf_ok (st_packets (demo_stream [0, 2, 1, 3]))" "st_state (demo_stream [0, 2, 1, 3]) \<noteq> No_consumer"
    "contents (st_packets (demo_stream [0, 2, 1, 3])) = map demo_packet [0, 2, 1, 3]"
    using demo_stream_queue [of "[0, 2, 1, 3]"] by simp_all
  from maintenance_half [OF this, of demo_reader] show ?thesis by simp
qed

text \<open>The octets that a read delivers, and what it leaves of the reader.\<close>

lemma playout_reads:
  assumes "rb_ok (rd_receive_buffer r)" and "chunk_range t0 f n (rd_receive_buffer r)"
    and "bytes_per_frame (rd_receive_buffer r) = format_bytes_per_frame (rd_audio_format r)"
    and "list_all2 (queued_chunks t0 f chunk n) kss (rd_streams r)"
    and "\<And>k. k < n \<Longrightarrow> length (chunk k) = f * unat (format_bytes_per_frame (rd_audio_format r))"
    and "if rd_most_recent_ts r = None then concat kss \<noteq> [] \<and> (\<forall>ks \<in> set kss. ks \<noteq> [] \<longrightarrow> hd ks = 0)
      else next_ts (rd_receive_buffer r) = of_nat t0"
    and "M \<le> extent (concat (map half kss)) 0"
  shows "\<exists>r'. read_data_from_reader_realtime r (M * (f * unat (format_bytes_per_frame (rd_audio_format r)))) (Some (of_nat t0)) None =
      Some (Some (of_nat t0, played chunk
        (replicate (f * unat (format_bytes_per_frame (rd_audio_format r))) (ground_value (rd_receive_buffer r)))
        (set (concat (map half kss))) M), r') \<and>
    rd_next_ts_to_read r' = of_nat (t0 + M * f) \<and> rd_read_audio_data_buffer r' = rd_read_audio_data_buffer r \<and> M \<le> n"
proof -
  let ?r = "r\<lparr>rd_next_ts_to_read := of_nat t0\<rparr>"
  have "\<exists>r'. do_realtime_maintenance ?r = Some r' \<and>
      playing t0 f chunk n (set (concat (map half kss))) (extent (concat (map half kss)) 0) r' \<and> same_setup ?r r'"
    using assms by (intro maintenance_plays) (simp_all cong: if_cong)
  then obtain r1 where r1: "do_realtime_maintenance ?r = Some r1"
    "playing t0 f chunk n (set (concat (map half kss))) (extent (concat (map half kss)) 0) r1" "same_setup ?r r1" by blast
  have same: "rd_audio_format r1 = rd_audio_format r" "ground_value (rd_receive_buffer r1) = ground_value (rd_receive_buffer r)"
    "rd_read_audio_data_buffer r1 = rd_read_audio_data_buffer r"
    using r1(3) by (simp_all add: same_setup_def)
  have "M \<le> n" using r1(2) assms(7) by (simp add: playing_def)
  moreover obtain m where "rd_most_recent_ts r1 = Some m" "rd_next_ts_to_read r1 = of_nat t0" using r1(2) by (auto simp: playing_def)
  ultimately show ?thesis
    using playing_reads [OF r1(2) assms(7)] assms(5) r1(1)
    by (auto simp: read_data_from_reader_realtime_def same wrapping_add_def)
qed

text \<open>
  A signal sent in packets over any number of redundant streams is played as it was sent: a chunk
  that one of the streams delivered is heard at its time, whatever the order and the losses of the others; a
  chunk that none delivered is silent. Required are packets that are taken off their queues by this call, a ring that
  holds the signal, a timestamp that does not wrap and byte offsets below \<open>2 ^ 32\<close>. The next read continues
  where this one ended.
\<close>

theorem redundant_playout:
  assumes "rb_ok (rd_receive_buffer r)" and "chunk_range t0 f n (rd_receive_buffer r)"
    and "bytes_per_frame (rd_receive_buffer r) = format_bytes_per_frame (rd_audio_format r)"
    and "list_all2 (queued_chunks t0 f chunk n) kss (rd_streams r)"
    and "\<And>k. k < n \<Longrightarrow> length (chunk k) = f * unat (format_bytes_per_frame (rd_audio_format r))"
    and "if rd_most_recent_ts r = None then concat kss \<noteq> [] \<and> (\<forall>ks \<in> set kss. ks \<noteq> [] \<longrightarrow> hd ks = 0)
      else next_ts (rd_receive_buffer r) = of_nat t0"
    and "M \<le> extent (concat (map half kss)) 0"
  shows "\<exists>r'. read_data_from_reader_realtime r (M * (f * unat (format_bytes_per_frame (rd_audio_format r)))) (Some (of_nat t0)) None =
      Some (Some (of_nat t0, played chunk
        (replicate (f * unat (format_bytes_per_frame (rd_audio_format r))) (ground_value (rd_receive_buffer r)))
        (set (concat (map half kss))) M), r') \<and>
    rd_next_ts_to_read r' = of_nat (t0 + M * f)"
  using playout_reads [OF assms] by blast

theorem redundant_playout_witness:
  "\<exists>r'. read_data_from_reader_realtime demo_reader 6 (Some 5) None = Some (Some (5, [0, 0, 1, 1, 2, 2]), r')"
proof -
  let ?c = "\<lambda>k. [of_nat k, of_nat k] :: byte list"
  note ring = demo_ring
  have queues: "list_all2 (queued_chunks 5 1 ?c 3) [[0, 2, 1], [1]] (rd_streams demo_reader)"
    using demo_stream_queue [of "[0, 2, 1]"] demo_stream_queue [of "[1]"] demo_carries
    by (simp add: demo_reader_def queued_chunks_def)
  have "half [0, 2, 1 :: nat] = [0, 2]" "half [1 :: nat] = [1]" by (simp_all add: half_def)
  moreover have "\<exists>m. rd_most_recent_ts demo_reader = Some m" by (simp add: demo_reader_def)
  moreover have "[0..<3] = [0, 1, 2 :: nat]" by (simp add: upt_rec)
  ultimately show ?thesis
    using redundant_playout [OF ring(1,2) _ queues, of 3] ring by (auto simp: played_def)
qed

end
