(* ===== verification/Rtp_Audio_Read.thy ===== *)
theory Rtp_Audio_Read
  imports Rtp_Playout Audio_Data
begin

text \<open>
  \<open>AudioReceiver::read_audio_data_realtime\<close> (rtp/detail/rtp_audio_receiver.cpp): a reader's octets as samples of an
  audio buffer. Shown: what the sender's channels held comes out of the same channels at the same frame, in 16 and
  24 bits, and lost packets are silent.
\<close>

section \<open>Reading audio\<close>

text \<open>
  An audio buffer is its channels; all of them have \<open>frames\<close> samples. The octets read go to the reader's own
  buffer, whose length the code does not check.
\<close>

definition read_audio_from_reader ::
  "reader \<Rightarrow> rat list list \<Rightarrow> nat \<Rightarrow> u32 option \<Rightarrow> u32 option \<Rightarrow> (u32 option \<times> rat list list \<times> reader) option" where
  "read_audio_from_reader r outp frames at_timestamp require_delay =
     (let format = rd_audio_format r in
      if unat (af_num_channels format) \<noteq> length outp then Some (None, outp, r)
      else
        let n = frames * unat (format_bytes_per_frame format) in do {
        (read_at_ts, r1) \<leftarrow> read_data_from_reader_realtime r n at_timestamp require_delay;
        case read_at_ts of
          None \<Rightarrow> Some (None, outp, r1)
        | Some (ts, bytes) \<Rightarrow>
            if length (rd_read_audio_data_buffer r1) < n then None
            else
              let data = bytes @ drop n (rd_read_audio_data_buffer r1) in do {
              outp' \<leftarrow>
                (if af_encoding format = Pcm_s16 then
                   convert_to_channels Data_interleaved (convert_to_real S_s16 Order_Be) frames (length outp) 0 0
                     (samples_of 2 data) outp
                 else if af_encoding format = Pcm_s24 then
                   convert_to_channels Data_interleaved (convert_to_real S_s24 Order_Be) frames (length outp) 0 0
                     (samples_of 3 data) outp
                 else Some outp);
              Some (Some ts, outp', r1\<lparr>rd_read_audio_data_buffer := data\<rparr>) } })"

definition read_audio_data_realtime ::
  "(nat \<Rightarrow> bool) \<Rightarrow> u64 \<Rightarrow> rat list list \<Rightarrow> nat \<Rightarrow> u32 option \<Rightarrow> u32 option \<Rightarrow> receiver \<Rightarrow>
   (u32 option \<times> rat list list \<times> receiver) option" where
  "read_audio_data_realtime reader_locked i outp frames at_timestamp require_delay rx =
     (case find_reader reader_locked i 0 (rx_readers rx) of
        None \<Rightarrow> Some (None, outp, rx)
      | Some k \<Rightarrow> do {
          (ts, outp', r) \<leftarrow> read_audio_from_reader (rx_readers rx ! k) outp frames at_timestamp require_delay;
          Some (ts, outp', rx\<lparr>rx_readers := (rx_readers rx)[k := r]\<rparr>) })"

section \<open>A signal in packets\<close>

text \<open>The sample of channel \<open>c\<close> at frame \<open>j\<close> is \<open>signal j c\<close>; chunk \<open>k\<close> holds \<open>f\<close> frames, in network byte order.\<close>

definition pcm_width :: "audio_encoding \<Rightarrow> nat" where
  "pcm_width e = (if e = Pcm_s16 then 2 else 3)"

definition pcm_scale :: "audio_encoding \<Rightarrow> int" where
  "pcm_scale e = (if e = Pcm_s16 then 2 ^ 15 else 2 ^ 23)"

definition pcm_octets :: "audio_encoding \<Rightarrow> int \<Rightarrow> byte list" where
  "pcm_octets e v = (if e = Pcm_s16 then data_write Order_Be 2 (word_of_int v :: u16)
     else data_write Order_Be 3 (word_of_int v :: 24 word))"

definition pcm_chunk :: "audio_encoding \<Rightarrow> (nat \<Rightarrow> nat \<Rightarrow> int) \<Rightarrow> nat \<Rightarrow> nat \<Rightarrow> nat \<Rightarrow> byte list" where
  "pcm_chunk e signal f channels k =
     concat (map (\<lambda>i. pcm_octets e (signal (k * f + i div channels) (i mod channels))) [0..<f * channels])"

lemma length_pcm_octets: "length (pcm_octets e v) = pcm_width e"
  by (simp add: pcm_octets_def pcm_width_def data_write_def)

lemma length_pcm_chunk: "length (pcm_chunk e signal f channels k) = f * channels * pcm_width e"
  unfolding pcm_chunk_def by (rule length_concat_uniform) (rule length_pcm_octets)

lemma played_samples:
  "played (pcm_chunk e signal f channels) (replicate (f * (channels * pcm_width e)) g) K M =
   concat (map (\<lambda>q. if q div channels div f \<in> K then pcm_octets e (signal (q div channels) (q mod channels))
     else replicate (pcm_width e) g) [0..<M * (f * channels)])"
proof (cases "f * channels = 0")
  case True
  then have "pcm_chunk e signal f channels = (\<lambda>k. [])" by (auto simp: pcm_chunk_def)
  moreover have "concat (map (\<lambda>k. []) xs) = []" for xs :: "nat list" by (induction xs) simp_all
  moreover have "f * (channels * pcm_width e) = 0" using True by (cases "f = 0") simp_all
  ultimately show ?thesis using True by (auto simp: played_def)
next
  case False
  let ?h = "\<lambda>q. if q div channels div f \<in> K then pcm_octets e (signal (q div channels) (q mod channels))
     else replicate (pcm_width e) g"
  have silence: "replicate (n * w) g = concat (map (\<lambda>i. replicate w g) [0..<n])" for n w
  proof (induction n)
    case (Suc n)
    have "replicate (Suc n * w) g = replicate (n * w) g @ replicate w g"
      by (simp only: mult_Suc add.commute [of w] replicate_add)
    then show ?case using Suc by simp
  qed simp
  have one: "(if k \<in> K then pcm_chunk e signal f channels k else replicate (f * (channels * pcm_width e)) g) =
      concat (map (\<lambda>i. ?h (k * (f * channels) + i)) [0..<f * channels])" for k
  proof -
    have "(k * (f * channels) + i) div channels = k * f + i div channels" for i
      using False by (simp add: mult.assoc [symmetric])
    moreover have "(k * (f * channels) + i) mod channels = i mod channels" for i
      by (simp add: mult.assoc [symmetric])
    moreover have "(k * f + i div channels) div f = k" if "i < f * channels" for i
      using that False by (simp add: div_less_iff_less_mult)
    ultimately have "?h (k * (f * channels) + i) =
       (if k \<in> K then pcm_octets e (signal (k * f + i div channels) (i mod channels)) else replicate (pcm_width e) g)"
      if "i < f * channels" for i using that by simp
    then have eq: "map (\<lambda>i. ?h (k * (f * channels) + i)) [0..<f * channels] =
       map (\<lambda>i. if k \<in> K then pcm_octets e (signal (k * f + i div channels) (i mod channels)) else replicate (pcm_width e) g)
         [0..<f * channels]" by (intro map_cong) auto
    show ?thesis
      unfolding eq using silence [of "f * channels" "pcm_width e"] by (simp add: pcm_chunk_def mult.assoc)
  qed
  show ?thesis unfolding played_def one by (rule concat_blocks_merge)
qed


lemma pcm_octets_real:
  assumes "e = Pcm_s16 \<or> e = Pcm_s24" and "- pcm_scale e \<le> v" and "v < pcm_scale e"
  shows "convert_to_real (if e = Pcm_s16 then S_s16 else S_s24) Order_Be (pcm_octets e v) =
    Some (of_int v / of_int (pcm_scale e))"
proof (cases "e = Pcm_s16")
  case True
  then have "sint (word_of_int v :: u16) = v"
    using assms(2,3) signed_take_bit_int_eq_self [of 15 v] sint_sbintrunc' [where 'a = 16, of v]
    by (simp add: pcm_scale_def)
  then show ?thesis
    using True convert_to_real_16 [of Order_Be "word_of_int v"]
    by (simp add: pcm_octets_def pcm_scale_def del: of_int_sint)
next
  case False
  then have "sint (word_of_int v :: 24 word) = v"
    using assms(2,3) signed_take_bit_int_eq_self [of 23 v] sint_sbintrunc' [where 'a = 24, of v]
    by (simp add: pcm_scale_def)
  then show ?thesis
    using False convert_to_real_24 [of Order_Be "word_of_int v"]
    by (simp add: pcm_octets_def pcm_scale_def del: of_int_sint)
qed

lemma data_write_zero:
  assumes "8 dvd LENGTH('a::len)" and "sz = LENGTH('a) div 8"
  shows "data_write d sz (0 :: 'a word) = replicate sz 0"
proof -
  have "le_bytes n 0 = replicate n 0" for n by (induction n) simp_all
  then have mem: "word_to_mem (0 :: 'a word) = replicate sz 0" using assms(2) by (simp add: word_to_mem_def)
  have "le_value (replicate n 0) = 0" for n by (induction n) simp_all
  then have "swap_bytes_val (0 :: 'a word) = 0"
    using assms mem by (simp add: swap_bytes_val_rev mem_to_word_def)
  then show ?thesis using mem assms(2) by (simp add: data_write_def)
qed

lemma silence_real:
  "convert_to_real (if e = Pcm_s16 then S_s16 else S_s24) Order_Be (replicate (pcm_width e) 0) = Some 0"
proof -
  have "replicate (pcm_width e) 0 = pcm_octets e 0"
    by (simp add: pcm_octets_def pcm_width_def data_write_zero)
  moreover have "0 \<le> pcm_scale e" "0 < pcm_scale e" by (simp_all add: pcm_scale_def)
  ultimately show ?thesis
    using convert_to_real_16 [of Order_Be 0] convert_to_real_24 [of Order_Be 0] by (simp add: pcm_octets_def)
qed

section \<open>What is heard\<close>

lemma read_bytes_heard:
  assumes "e = Pcm_s16 \<or> e = Pcm_s24" and "\<And>j c. - pcm_scale e \<le> signal j c \<and> signal j c < pcm_scale e"
    and "length outp = channels" and "\<forall>c < channels. length (outp ! c) = M * f"
  shows "\<exists>outp'. convert_to_channels Data_interleaved (convert_to_real (if e = Pcm_s16 then S_s16 else S_s24) Order_Be)
      (M * f) channels 0 0 (samples_of (pcm_width e)
        (played (pcm_chunk e signal f channels) (replicate (f * (channels * pcm_width e)) 0) K M @ rest)) outp = Some outp' \<and>
    map length outp' = map length outp \<and>
    (\<forall>j < M * f. \<forall>c < channels. outp' ! c ! j = (if j div f \<in> K then of_int (signal j c) / of_int (pcm_scale e) else 0))"
proof -
  let ?h = "\<lambda>q. if q div channels div f \<in> K then pcm_octets e (signal (q div channels) (q mod channels))
     else replicate (pcm_width e) 0"
  let ?src = "samples_of (pcm_width e) (concat (map ?h [0..<M * (f * channels)]) @ rest)"
  let ?g = "\<lambda>q. if q div channels div f \<in> K then of_int (signal (q div channels) (q mod channels)) / of_int (pcm_scale e) else (0 :: rat)"
  let ?conv = "convert_to_real (if e = Pcm_s16 then S_s16 else S_s24) Order_Be"
  have len: "length (?h q) = pcm_width e" for q by (simp add: length_pcm_octets)
  have w: "0 < pcm_width e" by (simp add: pcm_width_def)
  have conv: "?conv (?h q) = Some (?g q)" for q
    using pcm_octets_real [OF assms(1), of "signal (q div channels) (q mod channels)"] assms(2) silence_real by simp
  have "\<exists>r. convert_to_channels Data_interleaved ?conv (M * f) channels 0 0 ?src outp = Some r \<and>
    map length r = map length outp \<and> (\<forall>j < M * f. \<forall>c < channels. r ! c ! j = ?g (j * channels + c)) \<and>
    (\<forall>c < channels. \<forall>j \<ge> M * f. r ! c ! j = outp ! c ! j)"
  proof (rule convert_to_channels_interleaved)
    show "M * f * channels \<le> length ?src"
      using samples_of_concat(2) [of "M * (f * channels)" ?h, OF len w] by (simp only: mult.assoc)
    show "\<forall>i < M * f * channels. ?conv (?src ! i) = Some (?g i)"
      using samples_of_concat(1) [of "M * (f * channels)" ?h, OF len w] conv by (simp add: mult.assoc)
  qed (use assms in simp_all)
  then show ?thesis
    unfolding played_samples by (elim exE) (rule_tac x = r in exI, simp)
qed

text \<open>
  C7: a 16- or 24-bit signal of any number of channels, sent in packets of \<open>f\<close> frames over redundant
  streams, comes out of the same channels at the same frames: sample \<open>signal j c\<close>, scaled to the range from -1 to 1,
  in channel \<open>c\<close> at frame \<open>j\<close> where some stream delivered the packet of that frame, and silence elsewhere.
  Required is what \<open>redundant_playout\<close> requires, and room in the reader's buffer for the octets of one call.
\<close>

theorem audio_playout:
  assumes "e = Pcm_s16 \<or> e = Pcm_s24" and "\<And>j c. - pcm_scale e \<le> signal j c \<and> signal j c < pcm_scale e"
    and "af_encoding (rd_audio_format r) = e" and "af_num_channels (rd_audio_format r) = of_nat channels"
    and "channels < 2 ^ 16" and "length outp = channels" and "\<forall>c < channels. length (outp ! c) = M * f"
    and "M * (f * (channels * pcm_width e)) \<le> length (rd_read_audio_data_buffer r)"
    and "rb_ok (rd_receive_buffer r)" and "chunk_range t0 f n (rd_receive_buffer r)"
    and "bytes_per_frame (rd_receive_buffer r) = format_bytes_per_frame (rd_audio_format r)"
    and "ground_value (rd_receive_buffer r) = 0"
    and "list_all2 (queued_chunks t0 f (pcm_chunk e signal f channels) n) kss (rd_streams r)"
    and "if rd_most_recent_ts r = None then concat kss \<noteq> [] \<and> (\<forall>ks \<in> set kss. ks \<noteq> [] \<longrightarrow> hd ks = 0)
      else next_ts (rd_receive_buffer r) = of_nat t0"
    and "M \<le> extent (concat (map half kss)) 0"
  shows "\<exists>outp' r'. read_audio_from_reader r outp (M * f) (Some (of_nat t0)) None = Some (Some (of_nat t0), outp', r') \<and>
    map length outp' = map length outp \<and> rd_next_ts_to_read r' = of_nat (t0 + M * f) \<and>
    (\<forall>j < M * f. \<forall>c < channels. outp' ! c ! j =
      (if j div f \<in> set (concat (map half kss)) then of_int (signal j c) / of_int (pcm_scale e) else 0))"
proof -
  have width: "unat (format_bytes_per_frame (rd_audio_format r)) = channels * pcm_width e"
    using assms(1,3,4,5) by (auto simp: format_bytes_per_frame_def format_bytes_per_sample_def pcm_width_def unat_word_ariths unat_of_nat)
  have ch: "unat (af_num_channels (rd_audio_format r)) = length outp"
    using assms(4,5,6) by (simp add: unat_of_nat_small)
  have "length (pcm_chunk e signal f channels k) = f * unat (format_bytes_per_frame (rd_audio_format r))" for k
    by (simp add: length_pcm_chunk width)
  from playout_reads [OF assms(9,10,11,13) this assms(14,15)] obtain r' where
    r': "read_data_from_reader_realtime r (M * (f * (channels * pcm_width e))) (Some (of_nat t0)) None =
      Some (Some (of_nat t0, played (pcm_chunk e signal f channels) (replicate (f * (channels * pcm_width e)) 0)
        (set (concat (map half kss))) M), r')" "rd_next_ts_to_read r' = of_nat (t0 + M * f)"
      "rd_read_audio_data_buffer r' = rd_read_audio_data_buffer r"
    unfolding width assms(12) by blast
  from read_bytes_heard [OF assms(1) _ assms(6,7), where signal = signal and K = "set (concat (map half kss))"
      and rest = "drop (M * (f * (channels * pcm_width e))) (rd_read_audio_data_buffer r)"] assms(2)
  obtain outp' where heard: "convert_to_channels Data_interleaved (convert_to_real (if e = Pcm_s16 then S_s16 else S_s24) Order_Be)
      (M * f) channels 0 0 (samples_of (pcm_width e)
        (played (pcm_chunk e signal f channels) (replicate (f * (channels * pcm_width e)) 0) (set (concat (map half kss))) M @
         drop (M * (f * (channels * pcm_width e))) (rd_read_audio_data_buffer r))) outp = Some outp'"
    "map length outp' = map length outp"
    "\<forall>j < M * f. \<forall>c < channels. outp' ! c ! j =
      (if j div f \<in> set (concat (map half kss)) then of_int (signal j c) / of_int (pcm_scale e) else 0)" by blast
  have "\<exists>r2. read_audio_from_reader r outp (M * f) (Some (of_nat t0)) None = Some (Some (of_nat t0), outp', r2) \<and>
      rd_next_ts_to_read r2 = of_nat (t0 + M * f)"
  proof (cases "e = Pcm_s16")
    case True
    then show ?thesis
      using r' heard(1) assms(3,6,8) ch
      by (simp add: read_audio_from_reader_def Let_def width mult.assoc pcm_width_def)
  next
    case False
    then show ?thesis
      using r' heard(1) assms(1,3,6,8) ch
      by (simp add: read_audio_from_reader_def Let_def width mult.assoc pcm_width_def)
  qed
  then show ?thesis using heard(2,3) by blast
qed

theorem audio_playout_witness:
  "\<exists>outp' r'. read_audio_from_reader (demo_reader\<lparr>rd_read_audio_data_buffer := replicate 6 0\<rparr>) [[9, 9, 9]] 3 (Some 5) None =
      Some (Some 5, outp', r') \<and> outp' ! 0 ! 0 = 0 \<and> outp' ! 0 ! 2 = 514 / 32768"
proof -
  let ?r = "demo_reader\<lparr>rd_read_audio_data_buffer := replicate 6 0\<rparr>"
  let ?sig = "\<lambda>j c. if j < 3 then 257 * int j else 0 :: int"
  have octets: "pcm_octets Pcm_s16 0 = [0, 0]" "pcm_octets Pcm_s16 257 = [1, 1]" "pcm_octets Pcm_s16 514 = [2, 2]"
    by code_simp+
  have chunks: "pcm_chunk Pcm_s16 ?sig 1 1 k = [of_nat k, of_nat k]" if "k < 3" for k
  proof -
    have "k = 0 \<or> k = 1 \<or> k = 2" using that by linarith
    then show ?thesis using octets by (auto simp: pcm_chunk_def)
  qed
  have carries: "carries_chunk 5 1 (pcm_chunk Pcm_s16 ?sig 1 1) k (demo_packet k)" if "k < 3" for k
    using demo_carries [of k] that unfolding carries_chunk_def chunks [OF that] by simp
  have queues: "list_all2 (queued_chunks 5 1 (pcm_chunk Pcm_s16 ?sig 1 1) 3) [[0, 2, 1], [1]] (rd_streams ?r)"
    using demo_stream_queue [of "[0, 2, 1]"] demo_stream_queue [of "[1]"] carries
    by (simp add: demo_reader_def queued_chunks_def)
  have "half [0, 2, 1 :: nat] = [0, 2]" "half [1 :: nat] = [1]" by (simp_all add: half_def)
  moreover have "\<exists>m. rd_most_recent_ts ?r = Some m" "af_encoding (rd_audio_format ?r) = Pcm_s16"
    "af_num_channels (rd_audio_format ?r) = 1" by (simp_all add: demo_reader_def)
  moreover have range: "- pcm_scale Pcm_s16 \<le> ?sig j c \<and> ?sig j c < pcm_scale Pcm_s16" for j c
    by (simp add: pcm_scale_def)
  ultimately obtain outp' r' where h: "read_audio_from_reader ?r [[9, 9, 9]] 3 (Some 5) None = Some (Some 5, outp', r')"
    "\<forall>j < 3. outp' ! 0 ! j = of_int (?sig j 0) / of_int (pcm_scale Pcm_s16)"
    using audio_playout [where e = Pcm_s16 and signal = ?sig and r = ?r and channels = 1 and outp = "[[9, 9, 9]]" and M = 3
      and f = 1 and ?t0.0 = 5 and n = 3 and kss = "[[0, 2, 1], [1]]", OF _ range _ _ _ _ _ _ _ _ _ _ queues] demo_ring
    by (auto simp: pcm_width_def)
  show ?thesis
    using h(1) h(2) [rule_format, of 0] h(2) [rule_format, of 2] by (simp add: pcm_scale_def)
qed

end
