(* ===== verification/Rtp_Packetizer.thy ===== *)
theory Rtp_Packetizer
  imports Rtp_Sender Rtp_Audio_Read
begin

text \<open>
  What the sender makes of a signal: consecutive buffers of any sizes become RTP packets of \<open>packet_time_frames\<close> frames, in
  order, each frame in one packet, and the receiver plays them. Also when it does not: a packet time of 0, a packet
  larger than the payload allowed, a full queue, and the half of the queue that one call sends.
\<close>

section \<open>A writer in a stream\<close>

text \<open>
  The octets of the signal are \<open>sb\<close>, numbered from timestamp 0 on. The frames from \<open>P\<close> to \<open>T\<close> are in the ring and not
  in a packet yet.
\<close>

definition frame_octets :: "(nat \<Rightarrow> byte) \<Rightarrow> nat \<Rightarrow> nat \<Rightarrow> nat \<Rightarrow> byte list" where
  "frame_octets sb w a b = map sb [a * w..<b * w]"

definition writer_ready :: "nat \<Rightarrow> nat \<Rightarrow> writer \<Rightarrow> bool" where
  "writer_ready f w x \<longleftrightarrow> rb_ok (wr_ring x) \<and> unat (bytes_per_frame (wr_ring x)) = w \<and>
     format_bytes_per_frame (wr_format x) = bytes_per_frame (wr_ring x) \<and> unat (wr_packet_time x) = f \<and> 0 < f \<and>
     length (wr_send_buffer x) = f * w \<and> 12 + f * w \<le> k_max_payload \<and> buf_ok (wr_outgoing x)"

definition ring_room :: "writer \<Rightarrow> nat" where
  "ring_room x = length (rbuffer (wr_ring x))"

definition streaming :: "(nat \<Rightarrow> byte) \<Rightarrow> nat \<Rightarrow> nat \<Rightarrow> nat \<Rightarrow> nat \<Rightarrow> writer \<Rightarrow> bool" where
  "streaming sb f w P T x \<longleftrightarrow> writer_ready f w x \<and> P \<le> T \<and> next_ts (wr_ring x) = of_nat T \<and>
     rp_timestamp (wr_packet x) = of_nat P \<and> (\<forall>q. P * w \<le> q \<longrightarrow> q < T * w \<longrightarrow> byte_at (wr_ring x) q = sb q)"

text \<open>The packet that the frames from \<open>P\<close> on go into.\<close>

definition packet_for :: "(nat \<Rightarrow> byte) \<Rightarrow> nat \<Rightarrow> nat \<Rightarrow> rtp_packet \<Rightarrow> nat \<Rightarrow> nat \<Rightarrow> fifo_packet" where
  "packet_for sb f w h P k =
     (let buf = rtp_encode (h\<lparr>rp_sequence_number := rp_sequence_number h + of_nat k, rp_timestamp := of_nat (P + k * f)\<rparr>)
        (frame_octets sb w (P + k * f) (P + Suc k * f)) [] in
      \<lparr>fp_timestamp = of_nat (P + k * f), fp_size = of_nat (length buf), fp_payload = buf @ replicate (k_max_payload - length buf) 0\<rparr>)"

lemma length_rtp_encode: "length (rtp_encode p payload []) = 12 + length payload"
  by (simp add: rtp_encode_def)

lemma length_frame_octets: "a \<le> b \<Longrightarrow> length (frame_octets sb w a b) = (b - a) * w"
  by (simp add: frame_octets_def diff_mult_distrib)

text \<open>Bounds under which timestamps and octet positions do not wrap.\<close>

lemma frames_small:
  assumes "n * w < 2 ^ 32" and "0 < w"
  shows "n < (2 :: nat) ^ 32"
proof -
  have "n \<le> n * w" using assms(2) by simp
  then show ?thesis using assms(1) by linarith
qed

lemma ready_size:
  assumes "writer_ready f w x"
  shows "unat (wr_packet_time x * format_bytes_per_frame (wr_format x)) = f * w" and "0 < w"
proof -
  have r: "unat (wr_packet_time x) = f" "unat (format_bytes_per_frame (wr_format x)) = w" "f * w < 2 ^ 32"
    using assms by (auto simp: writer_ready_def k_max_payload_def)
  then show "unat (wr_packet_time x * format_bytes_per_frame (wr_format x)) = f * w"
    by (simp add: unat_word_ariths)
  show "0 < w" using assms by (auto simp: writer_ready_def rb_ok_def)
qed

lemma ready_time:
  assumes "writer_ready f w x"
  shows "f < 2 ^ 31" and "wr_packet_time x = of_nat f" and "0 < f"
proof -
  have "f \<le> f * w" using ready_size(2) [OF assms] by simp
  moreover have "f * w \<le> 1440" using assms by (simp add: writer_ready_def k_max_payload_def)
  ultimately have "f \<le> 1440" by (rule le_trans)
  then show "f < 2 ^ 31" by simp
  show "wr_packet_time x = of_nat f" "0 < f" using assms by (auto simp: writer_ready_def)
qed

lemma send_round_packet:
  assumes s: "streaming sb f w P T x" and frames: "P + f \<le> T" "(T - P) * w \<le> ring_room x" and small: "T * w < 2 ^ 32"
    and room: "length (contents (wr_outgoing x)) < unat (capacity (fifo_of (wr_outgoing x)))" "0 < ticks_left (wr_outgoing x)"
  obtains x' where "send_round x = Some (True, x')" and "streaming sb f w (P + f) T x'"
    and "wr_packet x' = (wr_packet x)\<lparr>rp_sequence_number := rp_sequence_number (wr_packet x) + 1, rp_timestamp := of_nat (P + f)\<rparr>"
    and "contents (wr_outgoing x') = contents (wr_outgoing x) @ [packet_for sb f w (wr_packet x) P 0]"
    and "capacity (fifo_of (wr_outgoing x')) = capacity (fifo_of (wr_outgoing x))"
    and "ticks_left (wr_outgoing x') = ticks_left (wr_outgoing x) - 1" and "ring_room x' = ring_room x"
    and "wr_failed_to_schedule x' = wr_failed_to_schedule x" and "wr_format x' = wr_format x"
proof -
  have ready: "writer_ready f w x" and ts: "rp_timestamp (wr_packet x) = of_nat P"
    and ring: "\<And>q. P * w \<le> q \<Longrightarrow> q < T * w \<Longrightarrow> byte_at (wr_ring x) q = sb q"
    using s by (simp_all add: streaming_def)
  note size = ready_size [OF ready]
  have ok: "rb_ok (wr_ring x)" "unat (bytes_per_frame (wr_ring x)) = w" "length (wr_send_buffer x) = f * w" "12 + f * w \<le> k_max_payload"
    "unat (wr_packet_time x) = f" "buf_ok (wr_outgoing x)"
    using ready by (simp_all add: writer_ready_def)
  have "f * w \<le> (T - P) * w" by (rule mult_le_mono1) (use frames in simp)
  then have fits: "f * w \<le> length (rbuffer (wr_ring x))" using frames(2) unfolding ring_room_def by (rule le_trans)
  have end': "(P + f) * w \<le> T * w" by (rule mult_le_mono1) (rule frames(1))
  have "P < 2 ^ 32" using frames_small [OF small size(2)] frames(1) by simp
  then have pos: "byte_pos (wr_ring x) (of_nat P) = P * w" using ok(2) by (simp add: byte_pos_of_nat)
  have bytes: "map (byte_at (wr_ring x)) [P * w..<P * w + f * w] = frame_octets sb w P (P + f)"
    unfolding frame_octets_def using ring end' by (intro map_cong) (auto simp: add_mult_distrib)
  have read: "rb_read (wr_ring x) (of_nat P) (f * w) False = Some (frame_octets sb w P (P + f), wr_ring x)"
    using rb_read_window [OF ok(1) fits, of "of_nat P"] pos bytes by simp
  have len: "length (frame_octets sb w P (P + f)) = f * w" by (simp add: length_frame_octets)
  let ?buf = "rtp_encode (wr_packet x) (frame_octets sb w P (P + f)) []"
  let ?p = "\<lparr>fp_timestamp = of_nat P, fp_size = of_nat (length ?buf), fp_payload = ?buf @ replicate (k_max_payload - length ?buf) 0\<rparr>"
  have p: "?p = packet_for sb f w (wr_packet x) P 0"
  proof -
    have "(wr_packet x)\<lparr>rp_timestamp := of_nat P\<rparr> = wr_packet x" using ts by (cases "wr_packet x") simp
    then show ?thesis by (simp add: packet_for_def Let_def)
  qed
  obtain q where q: "push (wr_outgoing x) ?p = Some (True, q)" "buf_ok q" "contents q = contents (wr_outgoing x) @ [?p]"
    "capacity (fifo_of q) = capacity (fifo_of (wr_outgoing x))" "ticks_left q = ticks_left (wr_outgoing x) - 1"
    by (rule push_room [OF ok(6) room])
  let ?x' = "x\<lparr>wr_send_buffer := frame_octets sb w P (P + f), wr_packet_buffer := ?buf, wr_outgoing := q,
    wr_packet := (wr_packet x)\<lparr>rp_sequence_number := rp_sequence_number (wr_packet x) + 1, rp_timestamp := of_nat (P + f)\<rparr>\<rparr>"
  have next_p: "of_nat P + wr_packet_time x = of_nat (P + f)"
    by (simp add: ready_time(2) [OF ready])
  have "send_round x = Some (True, ?x')"
    unfolding send_round_def Let_def size(1) ts read
    using len ok(3,4) q(1) ts next_p
    by (simp add: length_rtp_encode sequence_number_inc_def inc_timestamp_def wrapping_add_def Let_def)
  moreover have "streaming sb f w (P + f) T ?x'"
    using s frames q(2) len by (auto simp: streaming_def writer_ready_def add_mult_distrib)
  ultimately show thesis
    by (rule that) (use q p in \<open>simp_all add: ring_room_def\<close>)
qed

section \<open>The loop\<close>

definition advance :: "nat \<Rightarrow> nat \<Rightarrow> rtp_packet \<Rightarrow> rtp_packet" where
  "advance n P h = h\<lparr>rp_sequence_number := rp_sequence_number h + of_nat n, rp_timestamp := of_nat P\<rparr>"

lemma packet_for_advance: "packet_for sb f w (advance n (P + n * f) h) (P + n * f) k = packet_for sb f w h P (n + k)"
  by (simp add: packet_for_def advance_def add.assoc add.left_commute add_mult_distrib)

lemma send_rounds_packets:
  assumes "streaming sb f w P T x" and "0 < n \<Longrightarrow> P + n * f < T" and "T \<le> P + n * f + f"
    and "(T - P) * w \<le> ring_room x" and "T * w < 2 ^ 32" and "T < P + 2 ^ 31"
    and "length (contents (wr_outgoing x)) + n \<le> unat (capacity (fifo_of (wr_outgoing x)))" and "n \<le> ticks_left (wr_outgoing x)"
  shows "\<exists>x'. send_rounds (of_nat T) x = Some (True, x') \<and> streaming sb f w (P + n * f) T x' \<and>
    wr_packet x' = advance n (P + n * f) (wr_packet x) \<and>
    contents (wr_outgoing x') = contents (wr_outgoing x) @ map (packet_for sb f w (wr_packet x) P) [0..<n] \<and>
    capacity (fifo_of (wr_outgoing x')) = capacity (fifo_of (wr_outgoing x)) \<and>
    ticks_left (wr_outgoing x') = ticks_left (wr_outgoing x) - n \<and> ring_room x' = ring_room x \<and>
    wr_failed_to_schedule x' = wr_failed_to_schedule x"
  using assms
proof (induction n arbitrary: P x)
  case 0
  have ready: "writer_ready f w x" and ts: "rp_timestamp (wr_packet x) = of_nat P"
    using 0(1) by (simp_all add: streaming_def)
  note f = ready_time [OF ready]
  have "P \<le> T" using 0(1) by (simp add: streaming_def)
  then have "\<not> wrapping_lt (wrapping_add (of_nat P) (of_nat f) :: u32) (of_nat T)"
    using wrapping_window(1) [of "P + f" T] 0(3) f by (simp add: wrapping_add_def)
  moreover have "wr_packet x = advance 0 P (wr_packet x)" using ts by (simp add: advance_def)
  ultimately show ?case
    using 0(1) by (subst send_rounds.simps) (simp add: ts f)
next
  case (Suc n)
  have ready: "writer_ready f w x" and ts: "rp_timestamp (wr_packet x) = of_nat P"
    using Suc.prems(1) by (simp_all add: streaming_def)
  note f = ready_time [OF ready]
  have more: "P + f < T" "P + f + n * f < T" using Suc.prems(2) by simp_all
  have go: "wrapping_lt (wrapping_add (of_nat P) (of_nat f) :: u32) (of_nat T)"
    using wrapping_window(1) [of "P + f" T] more(1) Suc.prems(6) by (simp add: wrapping_add_def)
  obtain x1 where x1: "send_round x = Some (True, x1)" "streaming sb f w (P + f) T x1"
    "wr_packet x1 = (wr_packet x)\<lparr>rp_sequence_number := rp_sequence_number (wr_packet x) + 1, rp_timestamp := of_nat (P + f)\<rparr>"
    "contents (wr_outgoing x1) = contents (wr_outgoing x) @ [packet_for sb f w (wr_packet x) P 0]"
    "capacity (fifo_of (wr_outgoing x1)) = capacity (fifo_of (wr_outgoing x))"
    "ticks_left (wr_outgoing x1) = ticks_left (wr_outgoing x) - 1" "ring_room x1 = ring_room x"
    "wr_failed_to_schedule x1 = wr_failed_to_schedule x"
    by (rule send_round_packet [OF Suc.prems(1) _ Suc.prems(4,5)]) (use Suc.prems(7,8) more in auto)
  have h: "wr_packet x1 = advance 1 (P + 1 * f) (wr_packet x)" using x1(3) by (simp add: advance_def)
  have less: "(T - (P + f)) * w \<le> ring_room x1"
    unfolding x1(7) by (rule le_trans [OF mult_le_mono1 Suc.prems(4)]) simp
  have "\<exists>x'. send_rounds (of_nat T) x1 = Some (True, x') \<and> streaming sb f w (P + f + n * f) T x' \<and>
    wr_packet x' = advance n (P + f + n * f) (wr_packet x1) \<and>
    contents (wr_outgoing x') = contents (wr_outgoing x1) @ map (packet_for sb f w (wr_packet x1) (P + f)) [0..<n] \<and>
    capacity (fifo_of (wr_outgoing x')) = capacity (fifo_of (wr_outgoing x1)) \<and>
    ticks_left (wr_outgoing x') = ticks_left (wr_outgoing x1) - n \<and> ring_room x' = ring_room x1 \<and>
    wr_failed_to_schedule x' = wr_failed_to_schedule x1"
    by (rule Suc.IH [OF x1(2) _ _ less]) (use Suc.prems more x1 in auto)
  then obtain x' where x': "send_rounds (of_nat T) x1 = Some (True, x')" "streaming sb f w (P + f + n * f) T x'"
    "wr_packet x' = advance n (P + f + n * f) (wr_packet x1)"
    "contents (wr_outgoing x') = contents (wr_outgoing x1) @ map (packet_for sb f w (wr_packet x1) (P + f)) [0..<n]"
    "capacity (fifo_of (wr_outgoing x')) = capacity (fifo_of (wr_outgoing x1))"
    "ticks_left (wr_outgoing x') = ticks_left (wr_outgoing x1) - n" "ring_room x' = ring_room x1"
    "wr_failed_to_schedule x' = wr_failed_to_schedule x1" by blast
  have "packet_for sb f w (wr_packet x1) (P + f) k = packet_for sb f w (wr_packet x) P (Suc k)" for k
    using packet_for_advance [of sb f w 1 P "wr_packet x" k] by (simp add: h)
  then have "map (packet_for sb f w (wr_packet x1) (P + f)) [0..<n] = map (packet_for sb f w (wr_packet x) P) [Suc 0..<Suc n]"
    by (simp add: map_Suc_upt [symmetric] comp_def del: upt_Suc)
  then have c: "contents (wr_outgoing x') = contents (wr_outgoing x) @ map (packet_for sb f w (wr_packet x) P) [0..<Suc n]"
    using x'(4) x1(4) by (simp add: upt_conv_Cons del: upt_Suc)
  have "send_rounds (of_nat T) x = Some (True, x')"
    using go x1(1) x'(1) by (subst send_rounds.simps) (simp add: ts f(2))
  moreover have "wr_packet x' = advance (Suc n) (P + Suc n * f) (wr_packet x)"
    using x'(3) by (simp add: h advance_def add.assoc)
  ultimately show ?case
    using x' x1 c by (intro exI [of _ x']) (simp add: add.assoc)
qed

section \<open>A call of the audio thread\<close>

text \<open>How many packets the frames from \<open>P\<close> to \<open>T\<close> make: the last of them is kept back even when it is complete.\<close>

definition packets_before :: "nat \<Rightarrow> nat \<Rightarrow> nat" where
  "packets_before f n = (n - 1) div f"

lemma packets_before_bounds:
  assumes "0 < f"
  shows "0 < packets_before f n \<Longrightarrow> packets_before f n * f < n" and "n \<le> packets_before f n * f + f"
proof -
  have e: "(n - 1) div f * f + (n - 1) mod f = n - 1" by simp
  have m: "(n - 1) mod f < f" using assms by simp
  show "n \<le> packets_before f n * f + f" using e m unfolding packets_before_def by linarith
  assume "0 < packets_before f n"
  then have "0 < n" by (cases n) (simp_all add: packets_before_def)
  then show "packets_before f n * f < n" using e unfolding packets_before_def by linarith
qed

lemma schedule_restarts:
  assumes "writer_ready f w x" and "next_ts (wr_ring x) \<noteq> of_nat T"
  defines "x0 \<equiv> x\<lparr>wr_packet := set_timestamp (of_nat T) (wr_packet x), wr_ring := set_next_ts (wr_ring x) (of_nat T)\<rparr>"
  shows "schedule_data_for_sending_realtime data (of_nat T) x = schedule_data_for_sending_realtime data (of_nat T) x0"
    and "streaming sb f w T T x0" and "ring_room x0 = ring_room x" and "wr_outgoing x0 = wr_outgoing x"
    and "wr_packet x0 = advance 0 T (wr_packet x)" and "wr_failed_to_schedule x0 = wr_failed_to_schedule x"
  using assms(1,2) by (simp_all add: x0_def schedule_data_for_sending_realtime_def set_next_ts_def set_timestamp_def
      streaming_def writer_ready_def rb_ok_def ring_room_def advance_def)

lemma schedule_streams:
  assumes s: "streaming sb f w P T x" and room: "(T + F - P) * w \<le> ring_room x" and small: "(T + F) * w < 2 ^ 32" "T + F < P + 2 ^ 31"
    and queue: "length (contents (wr_outgoing x)) + packets_before f (T + F - P) \<le> unat (capacity (fifo_of (wr_outgoing x)))"
      "packets_before f (T + F - P) \<le> ticks_left (wr_outgoing x)"
  defines "n \<equiv> packets_before f (T + F - P)"
  shows "\<exists>x'. schedule_data_for_sending_realtime (frame_octets sb w T (T + F)) (of_nat T) x = Some (True, x') \<and>
    streaming sb f w (P + n * f) (T + F) x' \<and> wr_packet x' = advance n (P + n * f) (wr_packet x) \<and>
    contents (wr_outgoing x') = contents (wr_outgoing x) @ map (packet_for sb f w (wr_packet x) P) [0..<n] \<and>
    capacity (fifo_of (wr_outgoing x')) = capacity (fifo_of (wr_outgoing x)) \<and>
    ticks_left (wr_outgoing x') = ticks_left (wr_outgoing x) - n \<and> ring_room x' = ring_room x \<and>
    wr_failed_to_schedule x' = wr_failed_to_schedule x"
proof -
  let ?r = "wr_ring x"
  have ready: "writer_ready f w x" and T: "P \<le> T" "next_ts ?r = of_nat T"
    and ring: "\<And>q. P * w \<le> q \<Longrightarrow> q < T * w \<Longrightarrow> byte_at ?r q = sb q"
    using s by (simp_all add: streaming_def)
  have ok: "rb_ok ?r" "unat (bytes_per_frame ?r) = w" using ready by (simp_all add: writer_ready_def)
  have w: "0 < w" by (rule ready_size(2) [OF ready])
  have f: "0 < f" by (rule ready_time(3) [OF ready])
  have len: "length (frame_octets sb w T (T + F)) = F * w" by (simp add: length_frame_octets)
  have "T * w \<le> (T + F) * w" by (rule mult_le_mono1) simp
  then have "T < 2 ^ 32" using frames_small [of T w] small(1) w by linarith
  then have pos: "byte_pos ?r (of_nat T) = T * w" using ok(2) by (simp add: byte_pos_of_nat)
  have "F * w \<le> (T + F - P) * w" by (rule mult_le_mono1) (use T(1) in simp)
  then have fits: "length (frame_octets sb w T (T + F)) \<le> length (rbuffer ?r)"
    unfolding len using room unfolding ring_room_def by (rule le_trans)
  have span: "(T - P) * w + F * w \<le> length (rbuffer ?r)"
    using room T(1) by (simp add: ring_room_def add_mult_distrib [symmetric])
  obtain r2 where r2: "rb_write ?r (of_nat T) (frame_octets sb w T (T + F)) = Some r2" "rb_ok r2"
    "length (rbuffer r2) = length (rbuffer ?r)" "bytes_per_frame r2 = bytes_per_frame ?r"
    "\<And>q. T * w \<le> q \<Longrightarrow> q < T * w + length (rbuffer ?r) \<Longrightarrow>
      byte_at r2 q = (if q < T * w + F * w then frame_octets sb w T (T + F) ! (q - T * w) else byte_at ?r q)"
    "next_ts r2 = (let e = of_nat T + of_nat (F * w div unat (bytes_per_frame ?r)) in
      if wrapping_gt e (next_ts ?r) then e else next_ts ?r)"
    using rb_write_window [OF ok(1) fits, of "of_nat T"] unfolding pos len by metis
  have nts: "next_ts r2 = of_nat (T + F)"
  proof -
    have "wrapping_gt (of_nat (T + F) :: u32) (of_nat T) \<longleftrightarrow> T < T + F"
      by (rule wrapping_window(3)) (use small(2) T(1) in simp_all)
    then show ?thesis using r2(6) w by (cases "F = 0") (simp_all add: ok(2) T(2) Let_def)
  qed
  have kept: "byte_at r2 q = sb q" if "P * w \<le> q" "q < (T + F) * w" for q
  proof (cases "T * w \<le> q")
    case True
    then have "frame_octets sb w T (T + F) ! (q - T * w) = sb q"
      using that(2) by (simp add: frame_octets_def add_mult_distrib)
    moreover have "F * w \<le> length (rbuffer ?r)" using span by simp
    ultimately show ?thesis using r2(5) [of q] True that(2) by (simp add: add_mult_distrib)
  next
    case False
    let ?L = "length (rbuffer ?r)"
    have "(T - P) * w = T * w - P * w" by (simp add: diff_mult_distrib)
    then have up: "T * w + F * w \<le> q + ?L" "q + ?L < T * w + ?L" using span that(1) False by linarith+
    have "byte_at r2 (q + ?L) = byte_at ?r (q + ?L)" using r2(5) [of "q + ?L"] up by simp
    then have "byte_at r2 q = byte_at ?r q" using r2(3) by (simp add: byte_at_def)
    then show ?thesis using ring that(1) False by simp
  qed
  let ?x = "x\<lparr>wr_ring := r2\<rparr>"
  have st: "streaming sb f w P (T + F) ?x"
    using s kept nts r2(2,4) ok(2) by (simp add: streaming_def writer_ready_def)
  have bounds: "0 < n \<Longrightarrow> P + n * f < T + F" "T + F \<le> P + n * f + f"
    using packets_before_bounds [OF f, of "T + F - P"] T(1) unfolding n_def by linarith+
  have "wrapping_ge (next_ts ?r) (of_nat T)" by (simp add: T(2) wrapping_ge_def)
  then have "schedule_data_for_sending_realtime (frame_octets sb w T (T + F)) (of_nat T) x = send_rounds (of_nat (T + F)) ?x"
    using r2(1) nts by (simp add: schedule_data_for_sending_realtime_def T(2) clear_until_older)
  then show ?thesis
    using send_rounds_packets [OF st bounds _ small] room queue r2(3) by (simp add: ring_room_def n_def)
qed

section \<open>Consecutive calls\<close>

text \<open>The signal from \<open>T\<close> on in buffers of \<open>Fs\<close> frames.\<close>

fun schedule_all :: "(nat \<Rightarrow> byte) \<Rightarrow> nat \<Rightarrow> nat \<Rightarrow> nat list \<Rightarrow> writer \<Rightarrow> (bool \<times> writer) option" where
  "schedule_all sb w T [] x = Some (True, x)"
| "schedule_all sb w T (F # Fs) x = do {
     (ok, x') \<leftarrow> schedule_data_for_sending_realtime (frame_octets sb w T (T + F)) (of_nat T) x;
     if ok then schedule_all sb w (T + F) Fs x' else Some (False, x') }"

lemma packets_before_split:
  assumes "0 < f" and "a \<le> N"
  shows "packets_before f a + packets_before f (N - packets_before f a * f) = packets_before f N"
proof (cases "packets_before f a = 0")
  case False
  let ?m = "packets_before f a"
  have "?m * f < a" using packets_before_bounds(1) [OF assms(1)] False by simp
  then have "N - 1 = (N - ?m * f - 1) + ?m * f" using assms(2) by linarith
  then have "(N - 1) div f = ?m + (N - ?m * f - 1) div f" using assms(1) by (metis div_mult_self1 less_not_refl)
  then show ?thesis unfolding packets_before_def by simp
qed simp

lemma schedule_all_streams:
  assumes "streaming sb f w (T0 + m * f) T x" and "m = packets_before f (T - T0)" and "T0 \<le> T"
    and "wr_packet x = advance m (T0 + m * f) h"
    and "\<forall>F \<in> set Fs. (F + f) * w \<le> ring_room x" and "(T + sum_list Fs) * w < 2 ^ 32" and "T + sum_list Fs < T0 + 2 ^ 31"
    and "length (contents (wr_outgoing x)) + (packets_before f (T + sum_list Fs - T0) - m) \<le> unat (capacity (fifo_of (wr_outgoing x)))"
    and "packets_before f (T + sum_list Fs - T0) - m \<le> ticks_left (wr_outgoing x)"
  shows "\<exists>x'. schedule_all sb w T Fs x = Some (True, x') \<and>
    contents (wr_outgoing x') = contents (wr_outgoing x) @ map (packet_for sb f w h T0) [m..<packets_before f (T + sum_list Fs - T0)] \<and>
    wr_failed_to_schedule x' = wr_failed_to_schedule x"
  using assms
proof (induction Fs arbitrary: T x m)
  case Nil
  then show ?case by simp
next
  case (Cons F Fs)
  let ?P = "T0 + m * f" and ?n = "packets_before f (T + F - (T0 + m * f))" and ?M = "packets_before f (T + sum_list (F # Fs) - T0)"
  have ready: "writer_ready f w x" using Cons.prems(1) by (simp add: streaming_def)
  have w: "0 < w" and f: "0 < f" using ready_size(2) [OF ready] ready_time(3) [OF ready] by simp_all
  have pend: "T \<le> ?P + f" using packets_before_bounds(2) [OF f, of "T - T0"] Cons.prems(2,3) by simp
  have mn: "m + ?n = packets_before f (T + F - T0)"
    using packets_before_split [OF f, of "T - T0" "T + F - T0"] Cons.prems(2,3) by simp
  have mM: "packets_before f (T + F - T0) \<le> ?M" unfolding packets_before_def by (intro div_le_mono) simp
  have room: "(T + F - ?P) * w \<le> ring_room x"
  proof (rule le_trans [OF mult_le_mono1])
    show "T + F - ?P \<le> F + f" using pend by simp
    show "(F + f) * w \<le> ring_room x" using Cons.prems(5) by simp
  qed
  have small: "(T + F) * w < 2 ^ 32" by (rule le_less_trans [OF mult_le_mono1 Cons.prems(6)]) simp
  have n: "?n \<le> ?M - m" using mn mM by linarith
  obtain x1 where x1: "schedule_data_for_sending_realtime (frame_octets sb w T (T + F)) (of_nat T) x = Some (True, x1)"
    "streaming sb f w (?P + ?n * f) (T + F) x1" "wr_packet x1 = advance ?n (?P + ?n * f) (wr_packet x)"
    "contents (wr_outgoing x1) = contents (wr_outgoing x) @ map (packet_for sb f w (wr_packet x) ?P) [0..<?n]"
    "capacity (fifo_of (wr_outgoing x1)) = capacity (fifo_of (wr_outgoing x))"
    "ticks_left (wr_outgoing x1) = ticks_left (wr_outgoing x) - ?n" "ring_room x1 = ring_room x"
    "wr_failed_to_schedule x1 = wr_failed_to_schedule x"
    using schedule_streams [OF Cons.prems(1) room small] Cons.prems(7-9) n by force
  have pos: "?P + ?n * f = T0 + (m + ?n) * f" by (simp add: add_mult_distrib)
  have sum: "T + F + sum_list Fs = T + sum_list (F # Fs)" by simp
  have h: "wr_packet x1 = advance (m + ?n) (T0 + (m + ?n) * f) h"
    using x1(3) unfolding Cons.prems(4) pos by (simp add: advance_def add.assoc)
  have "\<exists>x'. schedule_all sb w (T + F) Fs x1 = Some (True, x') \<and>
    contents (wr_outgoing x') = contents (wr_outgoing x1) @ map (packet_for sb f w h T0) [m + ?n..<packets_before f (T + F + sum_list Fs - T0)] \<and>
    wr_failed_to_schedule x' = wr_failed_to_schedule x1"
  proof (rule Cons.IH [OF x1(2) [unfolded pos] mn _ h])
    show "length (contents (wr_outgoing x1)) + (packets_before f (T + F + sum_list Fs - T0) - (m + ?n)) \<le> unat (capacity (fifo_of (wr_outgoing x1)))"
      "packets_before f (T + F + sum_list Fs - T0) - (m + ?n) \<le> ticks_left (wr_outgoing x1)"
      unfolding sum x1(4,5,6) length_append length_map length_upt using Cons.prems(8,9) n by arith+
  qed (use Cons.prems x1(7) in \<open>simp_all add: add.assoc\<close>)
  then obtain x' where x': "schedule_all sb w (T + F) Fs x1 = Some (True, x')"
    "contents (wr_outgoing x') = contents (wr_outgoing x1) @ map (packet_for sb f w h T0) [m + ?n..<?M]"
    "wr_failed_to_schedule x' = wr_failed_to_schedule x1" unfolding sum by blast
  have "packet_for sb f w (wr_packet x) ?P k = packet_for sb f w h T0 (m + k)" for k
    unfolding Cons.prems(4) by (rule packet_for_advance)
  then have "map (packet_for sb f w (wr_packet x) ?P) [0..<?n] = map (packet_for sb f w h T0) [m..<m + ?n]"
    by (intro nth_equalityI) simp_all
  moreover have "[m..<?M] = [m..<m + ?n] @ [m + ?n..<?M]"
    using upt_add_eq_append [of m "m + ?n" "?M - (m + ?n)"] n mn mM by simp
  ultimately have "contents (wr_outgoing x') = contents (wr_outgoing x) @ map (packet_for sb f w h T0) [m..<?M]"
    using x'(2) x1(4) by simp
  then show ?case using x1(1,8) x'(1,3) by simp
qed

lemma schedule_all_packets:
  assumes "writer_ready f w x" and "if next_ts (wr_ring x) = of_nat T0 then rp_timestamp (wr_packet x) = of_nat T0 else Fs \<noteq> []"
    and "\<forall>F \<in> set Fs. (F + f) * w \<le> ring_room x" and "(T0 + sum_list Fs) * w < 2 ^ 32" and "sum_list Fs < 2 ^ 31"
    and "length (contents (wr_outgoing x)) + packets_before f (sum_list Fs) \<le> unat (capacity (fifo_of (wr_outgoing x)))"
    and "packets_before f (sum_list Fs) \<le> ticks_left (wr_outgoing x)"
  shows "\<exists>x'. schedule_all sb w T0 Fs x = Some (True, x') \<and>
    contents (wr_outgoing x') = contents (wr_outgoing x) @ map (packet_for sb f w (wr_packet x) T0) [0..<packets_before f (sum_list Fs)] \<and>
    wr_failed_to_schedule x' = wr_failed_to_schedule x"
proof (cases "next_ts (wr_ring x) = of_nat T0")
  case True
  then have "streaming sb f w T0 T0 x" "wr_packet x = advance 0 T0 (wr_packet x)"
    using assms(1,2) by (simp_all add: streaming_def advance_def)
  then show ?thesis
    using schedule_all_streams [of sb f w T0 0 T0 x "wr_packet x" Fs] assms(3-7) by (simp add: packets_before_def)
next
  case False
  note restart = schedule_restarts [OF assms(1) False]
  let ?x0 = "x\<lparr>wr_packet := set_timestamp (of_nat T0) (wr_packet x), wr_ring := set_next_ts (wr_ring x) (of_nat T0)\<rparr>"
  obtain F Gs where Fs: "Fs = F # Gs" using assms(2) False by (cases Fs) auto
  have all: "schedule_all sb w T0 Fs x = schedule_all sb w T0 Fs ?x0" unfolding Fs schedule_all.simps restart(1) ..
  have st: "streaming sb f w (T0 + 0 * f) T0 ?x0" "wr_packet ?x0 = advance 0 (T0 + 0 * f) (wr_packet x)"
    using restart(2,5) by simp_all
  have "\<exists>x'. schedule_all sb w T0 Fs ?x0 = Some (True, x') \<and>
    contents (wr_outgoing x') = contents (wr_outgoing ?x0) @ map (packet_for sb f w (wr_packet x) T0) [0..<packets_before f (T0 + sum_list Fs - T0)] \<and>
    wr_failed_to_schedule x' = wr_failed_to_schedule ?x0"
    by (rule schedule_all_streams [OF st(1) _ _ st(2)]) (use assms restart in \<open>simp_all add: packets_before_def\<close>)
  then show ?thesis unfolding all using restart(4,6) by simp
qed

section \<open>Setting up\<close>

lemma setup_writer_ready:
  assumes "setup_writer res ssrc i p interfaces writer_init = (True, x)"
    and "f = unat (wp_packet_time_frames p)" and "w = unat (format_bytes_per_frame (wp_audio_format p))"
    and "0 < f" and "0 < w" and "12 + f * w \<le> k_max_payload"
  shows "writer_ready f w x" and "ring_room x = 4096 * w" and "contents (wr_outgoing x) = []"
    and "unat (capacity (fifo_of (wr_outgoing x))) = 100" and "ticks_left (wr_outgoing x) = 2 ^ 64 - 1"
    and "next_ts (wr_ring x) = 0" and "rp_timestamp (wr_packet x) = 0" and "rp_sequence_number (wr_packet x) = 0"
    and "wr_destinations x = wp_destinations p" and "wr_format x = wp_audio_format p"
proof -
  let ?bpf = "format_bytes_per_frame (wp_audio_format p)"
  have x: "x = writer_init\<lparr>wr_sockets := wr_sockets x, wr_format := wp_audio_format p,
           wr_packet_time := wp_packet_time_frames p,
           wr_packet := set_ssrc ssrc (set_payload_type (wp_payload_type p) rtp_packet_init),
           wr_outgoing := resize_buf fifo_packet_init fifo_buffer_init k_buffer_num_packets,
           wr_audio_buffer := resize_bytes [] (unat (k_max_num_frames * ?bpf)),
           wr_packet_buffer := replicate (unat (wp_packet_time_frames p * ?bpf)) 0,
           wr_send_buffer := resize_bytes [] (unat (wp_packet_time_frames p * ?bpf)),
           wr_ring := set_ground_value (rb_resize ringbuffer_init k_max_num_frames ?bpf) (format_ground_value (wp_audio_format p)),
           wr_destinations := wp_destinations p, wr_id := i\<rparr>"
    using assms(1) by (auto simp: setup_writer_def writer_init_def Let_def split: prod.splits if_splits)
  have "w \<le> f * w" "f * w < 2000" using assms(4,6) by (simp_all add: k_max_payload_def)
  then have w: "w < 2000" by linarith
  have size: "unat (wp_packet_time_frames p * ?bpf) = f * w"
    using \<open>f * w < 2000\<close> by (simp add: unat_word_ariths assms(2,3) [symmetric])
  have room: "unat (k_max_num_frames * ?bpf) = 4096 * w"
    using w by (simp add: unat_word_ariths k_max_num_frames_def assms(3) [symmetric])
  have ring: "rb_resize ringbuffer_init k_max_num_frames ?bpf =
      ringbuffer_init\<lparr>bytes_per_frame := ?bpf, rbuffer := replicate (4096 * w) 0\<rparr>"
    using assms(5) room by (auto simp: rb_resize_def ringbuffer_init_def Let_def)
  have queue: "resize_buf fifo_packet_init fifo_buffer_init k_buffer_num_packets =
      \<lparr>buffer = replicate 100 fifo_packet_init, fifo_of = \<lparr>read_ts = 0, write_ts = 0, capacity = 100\<rparr>\<rparr>"
    by (simp add: resize_buf_def fifo_buffer_init_def fifo_resize_def fifo_reset_def fifo_init_def k_buffer_num_packets_def)
  have q: "buf_ok (wr_outgoing x)" "contents (wr_outgoing x) = []" "unat (capacity (fifo_of (wr_outgoing x))) = 100"
    "ticks_left (wr_outgoing x) = 2 ^ 64 - 1"
    by (subst x, simp add: queue buf_ok_def fifo_ok_def contents_def ring_slice_def ticks_left_def)+
  then show "contents (wr_outgoing x) = []" "unat (capacity (fifo_of (wr_outgoing x))) = 100"
    "ticks_left (wr_outgoing x) = 2 ^ 64 - 1" by simp_all
  have r: "wr_ring x = \<lparr>bytes_per_frame = ?bpf, next_ts = 0, rbuffer = replicate (4096 * w) 0,
      ground_value = format_ground_value (wp_audio_format p)\<rparr>"
  proof -
    have "wr_ring x = set_ground_value (rb_resize ringbuffer_init k_max_num_frames ?bpf) (format_ground_value (wp_audio_format p))"
      by (subst x) simp
    then show ?thesis unfolding ring by (simp add: ringbuffer_init_def set_ground_value_def)
  qed
  have s: "length (wr_send_buffer x) = f * w" by (subst x) (simp add: size resize_bytes_def)
  have fields: "wr_format x = wp_audio_format p" "wr_packet_time x = wp_packet_time_frames p" by (subst x, simp)+
  show "writer_ready f w x"
    using q(1) assms w by (simp add: writer_ready_def r s fields rb_ok_def)
  show "ring_room x = 4096 * w" "next_ts (wr_ring x) = 0" by (simp_all add: ring_room_def r)
  show "rp_timestamp (wr_packet x) = 0" "rp_sequence_number (wr_packet x) = 0" "wr_destinations x = wp_destinations p"
    "wr_format x = wp_audio_format p"
    by (subst x, simp add: set_ssrc_def set_payload_type_def rtp_packet_init_def)+
qed

text \<open>A writer of mono 16-bit audio with one frame per packet.\<close>

definition demo_parameters :: writer_parameters where
  "demo_parameters = \<lparr>wp_audio_format = \<lparr>af_byte_order = Order_be, af_encoding = Pcm_s16, af_ordering = Interleaved,
     af_sample_rate = 48000, af_num_channels = 1\<rparr>, wp_destinations = [(7, 5004), (0, 0)], wp_packet_time_frames = 1, wp_ttl = 15,
     wp_payload_type = 98\<rparr>"

definition demo_writer :: writer where
  "demo_writer = snd (setup_writer \<lparr>so_open = \<lambda>_. True, so_options = \<lambda>_. True, so_outbound = \<lambda>_. True, so_unicast_hops = \<lambda>_. True,
     so_multicast_hops = \<lambda>_. True\<rparr> 5 1 demo_parameters [1, 2] writer_init)"

lemma demo_setup:
  "setup_writer \<lparr>so_open = \<lambda>_. True, so_options = \<lambda>_. True, so_outbound = \<lambda>_. True, so_unicast_hops = \<lambda>_. True,
     so_multicast_hops = \<lambda>_. True\<rparr> 5 1 demo_parameters [1, 2] writer_init = (True, demo_writer)"
  by (simp add: demo_writer_def setup_writer_def writer_init_def k_max_num_redundant_sessions_def numeral_2_eq_2
      sender_socket_init_def setup_send_socket_def set_socket_ttl_def Let_def)

lemma demo_writer_ready:
  "writer_ready 1 2 demo_writer" "ring_room demo_writer = 8192" "contents (wr_outgoing demo_writer) = []"
  "unat (capacity (fifo_of (wr_outgoing demo_writer))) = 100" "ticks_left (wr_outgoing demo_writer) = 2 ^ 64 - 1"
  "next_ts (wr_ring demo_writer) = 0" "rp_timestamp (wr_packet demo_writer) = 0" "rp_sequence_number (wr_packet demo_writer) = 0"
  "wr_destinations demo_writer = [(7, 5004), (0, 0)]"
  using setup_writer_ready [OF demo_setup, of 1 2]
  by (simp_all add: demo_parameters_def format_bytes_per_frame_def format_bytes_per_sample_def k_max_payload_def)

section \<open>Packets on the wire\<close>

definition packet_octets :: "fifo_packet \<Rightarrow> byte list" where
  "packet_octets p = take (unat (fp_size p)) (fp_payload p)"

lemma packet_for_octets:
  assumes "12 + f * w \<le> k_max_payload"
  shows "packet_octets (packet_for sb f w h P k) =
    rtp_encode (advance k (P + k * f) h) (frame_octets sb w (P + k * f) (P + Suc k * f)) []"
proof -
  define b where "b = rtp_encode (advance k (P + k * f) h) (frame_octets sb w (P + k * f) (P + Suc k * f)) []"
  have "length (frame_octets sb w (P + k * f) (P + Suc k * f)) = f * w"
    by (simp add: length_frame_octets)
  then have len: "length b = 12 + f * w" by (simp add: length_rtp_encode b_def)
  have "packet_for sb f w h P k =
      \<lparr>fp_timestamp = of_nat (P + k * f), fp_size = of_nat (length b), fp_payload = b @ replicate (k_max_payload - length b) 0\<rparr>"
    by (simp only: packet_for_def Let_def b_def advance_def)
  moreover have "unat (of_nat (length b) :: u32) = length b"
    using assms unfolding len by (intro unat_of_nat_small) (simp add: k_max_payload_def)
  ultimately have "packet_octets (packet_for sb f w h P k) = b" by (simp add: packet_octets_def)
  then show ?thesis unfolding b_def .
qed



section \<open>A packet time of 0\<close>

text \<open>\<open>n\<close> rounds of the loop, all of which are entered and run to their end.\<close>

primrec rounds_done :: "u32 \<Rightarrow> nat \<Rightarrow> writer \<Rightarrow> writer option" where
  "rounds_done next 0 x = Some x"
| "rounds_done next (Suc n) x =
     (if wrapping_lt (wrapping_add (rp_timestamp (wr_packet x)) (wr_packet_time x)) next
      then (case send_round x of Some (True, x') \<Rightarrow> rounds_done next n x' | _ \<Rightarrow> None) else None)"

definition stuck :: "u32 \<Rightarrow> writer \<Rightarrow> bool" where
  "stuck next x \<longleftrightarrow> wr_packet_time x = 0 \<and> rb_ok (wr_ring x) \<and> buf_ok (wr_outgoing x) \<and>
     unat (capacity (fifo_of (wr_outgoing x))) \<le> length (contents (wr_outgoing x)) + ticks_left (wr_outgoing x) \<and>
     wrapping_lt (rp_timestamp (wr_packet x)) next"

lemma stuck_round:
  assumes "stuck next x"
  obtains x' where "send_round x = Some (True, x')" and "stuck next x'"
proof -
  let ?q = "wr_outgoing x" and ?t = "rp_timestamp (wr_packet x)"
  let ?buf = "rtp_encode (wr_packet x) [] []"
  let ?p = "\<lparr>fp_timestamp = ?t, fp_size = of_nat (length ?buf), fp_payload = ?buf @ replicate (k_max_payload - length ?buf) 0\<rparr>"
  have s: "wr_packet_time x = 0" "rb_ok (wr_ring x)" "buf_ok ?q" "unat (capacity (fifo_of ?q)) \<le> length (contents ?q) + ticks_left ?q"
    using assms by (simp_all add: stuck_def)
  have read: "rb_read (wr_ring x) ?t 0 False = Some ([], wr_ring x)"
    using rb_read_window [OF s(2), of 0 ?t] by simp
  have le: "length (contents ?q) \<le> unat (capacity (fifo_of ?q))"
    using s(3) by (auto simp: buf_ok_def fifo_ok_def contents_def)
  obtain ok q where q: "push ?q ?p = Some (ok, q)" "buf_ok q" "capacity (fifo_of q) = capacity (fifo_of ?q)"
    "length (contents ?q) + ticks_left ?q = length (contents q) + ticks_left q"
  proof (cases "length (contents ?q) < unat (capacity (fifo_of ?q))")
    case True
    then have t: "0 < ticks_left ?q" using s(4) by simp
    obtain q where "push ?q ?p = Some (True, q)" "buf_ok q" "contents q = contents ?q @ [?p]"
      "capacity (fifo_of q) = capacity (fifo_of ?q)" "ticks_left q = ticks_left ?q - 1"
      by (rule push_room [OF s(3) True t])
    then show thesis using that t by simp
  next
    case False
    then have "push ?q ?p = Some (False, ?q)" using push_full [OF s(3)] le by simp
    then show thesis by (rule that) (use s(3) in simp_all)
  qed
  let ?x' = "x\<lparr>wr_ring := wr_ring x, wr_send_buffer := wr_send_buffer x, wr_packet_buffer := ?buf, wr_outgoing := q,
    wr_failed_to_schedule := (if ok then wr_failed_to_schedule x else wr_failed_to_schedule x + 1),
    wr_packet := snd (inc_timestamp (wr_packet_time x) (snd (sequence_number_inc 1 (wr_packet x))))\<rparr>"
  have "send_round x = Some (True, ?x')"
    unfolding send_round_def Let_def s(1)
    using read q(1) by (simp add: length_rtp_encode k_max_payload_def)
  moreover have "stuck next ?x'"
    using assms q by (simp add: stuck_def inc_timestamp_def sequence_number_inc_def Let_def wrapping_add_def)
  ultimately show thesis by (rule that)
qed

lemma stuck_rounds: "stuck next x \<Longrightarrow> rounds_done next n x \<noteq> None"
proof (induction n arbitrary: x)
  case (Suc n)
  obtain x' where "send_round x = Some (True, x')" "stuck next x'" by (rule stuck_round [OF Suc.prems])
  then show ?case using Suc by (simp add: stuck_def wrapping_add_def)
qed simp

lemma stuck_never:
  assumes "send_rounds t x = Some y"
  shows "\<not> stuck t x"
proof (rule send_rounds.raw_induct [where P = "\<lambda>t x y. \<not> stuck t x", OF _ assms])
  fix sr :: "u32 \<Rightarrow> writer \<Rightarrow> (bool \<times> writer) option" and t x y
  assume IH: "\<And>t x y. sr t x = Some y \<Longrightarrow> \<not> stuck t x"
    and body: "(if wrapping_lt (wrapping_add (rp_timestamp (wr_packet x)) (wr_packet_time x)) t
      then Option.bind (send_round x) (\<lambda>(go, w'). if go then sr t w' else Some (False, w')) else Some (True, x)) = Some y"
  show "\<not> stuck t x"
  proof
    assume stuck: "stuck t x"
    then obtain x' where "send_round x = Some (True, x')" "stuck t x'" by (rule stuck_round)
    moreover have "wrapping_lt (wrapping_add (rp_timestamp (wr_packet x)) (wr_packet_time x)) t"
      using stuck by (simp add: stuck_def wrapping_add_def)
    ultimately show False using IH [of t x' y] body by simp
  qed
qed

text \<open>
  \<open>packet_time_frames\<close> is not checked; with 0 the loop of the audio thread runs for ever as
  soon as there is a frame to send: every round succeeds, however many there were, and the call does not return.
\<close>

theorem zero_packet_time_hangs:
  assumes "wr_packet_time x = 0" and "rb_ok (wr_ring x)" and "buf_ok (wr_outgoing x)"
    and "unat (capacity (fifo_of (wr_outgoing x))) \<le> length (contents (wr_outgoing x)) + ticks_left (wr_outgoing x)"
    and "next_ts (wr_ring x) \<noteq> ts" and "length data = F * unat (bytes_per_frame (wr_ring x))"
    and "length data \<le> length (rbuffer (wr_ring x))" and "0 < F" and "F < 2 ^ 31"
  shows "\<exists>t x'. schedule_data_for_sending_realtime data ts x = send_rounds t x' \<and> send_rounds t x' = None \<and>
    (\<forall>n. rounds_done t n x' \<noteq> None)"
proof -
  let ?r = "set_next_ts (wr_ring x) ts"
  have r: "rb_ok ?r" "bytes_per_frame ?r = bytes_per_frame (wr_ring x)" "length (rbuffer ?r) = length (rbuffer (wr_ring x))"
    "next_ts ?r = ts"
    using assms(2) by (simp_all add: set_next_ts_def rb_ok_def)
  obtain r2 where r2: "rb_write ?r ts data = Some r2" "rb_ok r2"
    "next_ts r2 = (let e = ts + of_nat (length data div unat (bytes_per_frame ?r)) in if wrapping_gt e (next_ts ?r) then e else next_ts ?r)"
    using rb_write_window [OF r(1), of data ts] assms(7) r(3) by metis
  have frames: "length data div unat (bytes_per_frame ?r) = F" using assms(2,6) by (simp add: r(2) rb_ok_def)
  have F: "unat (of_nat F :: u32) = F" using assms(9) by (intro unat_of_nat_small) simp
  have "(of_nat F :: u32) \<noteq> 0" using F assms(8) by auto
  then have older: "wrapping_lt ts (ts + of_nat F)" using F assms(9) by (simp add: wrapping_lt_def is_older_than_def)
  moreover have "\<not> wrapping_lt (ts + of_nat F) ts"
  proof -
    have "unat (- (of_nat F :: u32)) = 2 ^ 32 - F" using F \<open>(of_nat F :: u32) \<noteq> 0\<close> by (simp add: unat_uminus)
    moreover have "\<not> 2 ^ 32 - F < 2 ^ 31" using assms(9) by simp
    ultimately show ?thesis by (simp add: wrapping_lt_def is_older_than_def)
  qed
  ultimately have n: "next_ts r2 = ts + of_nat F"
    using r2(3) r(4) unfolding frames by (simp add: Let_def wrapping_gt_def wrapping_le_def)
  let ?x = "x\<lparr>wr_packet := set_timestamp ts (wr_packet x), wr_ring := r2\<rparr>"
  have stuck: "stuck (ts + of_nat F) ?x"
    using assms(1,3,4) r2(2) older by (simp add: stuck_def set_timestamp_def)
  have "clear_until ?r ts = Some (False, ?r)" by (rule clear_until_older) (simp add: r(4) wrapping_ge_def)
  then have "schedule_data_for_sending_realtime data ts x = send_rounds (ts + of_nat F) ?x"
    using assms(5) r2(1) n by (simp add: schedule_data_for_sending_realtime_def)
  moreover have "send_rounds (ts + of_nat F) ?x = None"
    using stuck_never [of "ts + of_nat F" ?x] stuck by (cases "send_rounds (ts + of_nat F) ?x") auto
  ultimately show ?thesis using stuck_rounds [OF stuck] by blast
qed

theorem zero_packet_time_hangs_witness:
  "\<exists>t x'. schedule_data_for_sending_realtime [1, 2] 5 (demo_writer\<lparr>wr_packet_time := 0\<rparr>) = send_rounds t x' \<and>
     send_rounds t x' = None \<and> (\<forall>n. rounds_done t n x' \<noteq> None)"
  by (rule zero_packet_time_hangs [where F = 1])
    (use demo_writer_ready in \<open>simp_all add: writer_ready_def ring_room_def\<close>)

section \<open>Sending\<close>

definition datagrams_for :: "endpoint list \<Rightarrow> fifo_packet \<Rightarrow> (nat \<times> endpoint \<times> byte list) list" where
  "datagrams_for ds p = map (\<lambda>(j, d). (j, d, packet_octets p)) (filter (\<lambda>(j, d). fst d \<noteq> 0 \<and> snd d \<noteq> 0) (enumerate 0 ds))"

lemma send_to_all_datagrams:
  "fst (send_to_all result p j ds prev) =
   map (\<lambda>(j, d). (j, d, packet_octets p)) (filter (\<lambda>(j, d). fst d \<noteq> 0 \<and> snd d \<noteq> 0) (enumerate j ds))"
  by (induction result p j ds prev rule: send_to_all.induct) (auto simp: packet_octets_def split: prod.splits)

lemma drain_stop:
  assumes "buf_ok (wr_outgoing x)" and "length (contents (wr_outgoing x)) \<le> i"
  shows "drain result i x prev = Some (True, [], x, prev)"
  using assms by (subst drain.simps) (simp add: contents_size)

lemma drain_step:
  assumes "buf_ok (wr_outgoing x)" and "i < length (contents (wr_outgoing x))" and "pop (wr_outgoing x) = Some (Some p, q)"
    and "send_to_all (result i) p 0 (wr_destinations x) prev = (out, n, prev')"
  shows "drain result i x prev =
    map_option (\<lambda>(ok, outs, w', prev''). (ok, out @ outs, w', prev''))
      (drain result (Suc i) (x\<lparr>wr_outgoing := q, wr_failed_to_send := wr_failed_to_send x + n\<rparr>) prev')"
  using assms by (subst drain.simps) (auto simp: contents_size split: option.splits)

lemma drain_half:
  assumes "buf_ok (wr_outgoing x)" and "contents (wr_outgoing x) = ps"
  shows "\<exists>x' prev'. drain result i x prev =
      Some (True, concat (map (datagrams_for (wr_destinations x)) (take ((length ps - i + 1) div 2) ps)), x', prev') \<and>
    contents (wr_outgoing x') = drop ((length ps - i + 1) div 2) ps"
  using assms
proof (induction ps arbitrary: i x prev)
  case Nil
  then show ?case by (intro exI [of _ x] exI [of _ prev]) (simp add: drain_stop)
next
  case (Cons p ps)
  show ?case
  proof (cases "i < length (p # ps)")
    case False
    then show ?thesis
      using Cons.prems by (intro exI [of _ x] exI [of _ prev]) (simp add: drain_stop)
  next
    case True
    obtain q where q: "pop (wr_outgoing x) = Some (Some p, q)" "buf_ok q" "contents q = ps"
      by (rule pop_cons [OF Cons.prems])
    obtain out n prev1 where sent: "send_to_all (result i) p 0 (wr_destinations x) prev = (out, n, prev1)"
      by (rule prod_cases3)
    have out: "out = datagrams_for (wr_destinations x) p"
      using send_to_all_datagrams [of "result i" p 0 "wr_destinations x" prev] sent by (simp add: datagrams_for_def)
    let ?x = "x\<lparr>wr_outgoing := q, wr_failed_to_send := wr_failed_to_send x + n\<rparr>"
    obtain x' prev' where IH: "drain result (Suc i) ?x prev1 =
        Some (True, concat (map (datagrams_for (wr_destinations x)) (take ((length ps - Suc i + 1) div 2) ps)), x', prev')"
      "contents (wr_outgoing x') = drop ((length ps - Suc i + 1) div 2) ps"
      using Cons.IH [of ?x "Suc i" prev1] q by auto
    have r: "(length (p # ps) - i + 1) div 2 = Suc ((length ps - Suc i + 1) div 2)"
      using rounds_Suc [of i "length ps"] True by simp
    show ?thesis
      unfolding r using drain_step [where result = result and i = i, OF Cons.prems(1) _ q(1) sent] IH True Cons.prems(2)
      by (intro exI [of _ x'] exI [of _ prev']) (simp add: out)
  qed
qed

text \<open>
  A call of the network thread sends the oldest packets of a writer's queue, in order, to every destination
  that has an address and a port, whatever errors occur; but it takes only half of the queue, rounded up.
\<close>

theorem send_half:
  assumes "buf_ok (wr_outgoing x)"
  shows "\<exists>x' prev'. drain result 0 x prev =
      Some (True, concat (map (datagrams_for (wr_destinations x)) (half (contents (wr_outgoing x)))), x', prev') \<and>
    contents (wr_outgoing x') = drop ((length (contents (wr_outgoing x)) + 1) div 2) (contents (wr_outgoing x))"
  using drain_half [OF assms refl, of result 0 prev] by (simp add: half_def)

lemma full_queue:
  assumes "0 < length xs" and "length xs < 2 ^ 63"
  defines "q \<equiv> \<lparr>buffer = xs, fifo_of = \<lparr>read_ts = 0, write_ts = of_nat (length xs), capacity = of_nat (length xs)\<rparr>\<rparr>"
  shows "buf_ok q" and "contents q = xs"
proof -
  have u: "unat (of_nat (length xs) :: u64) = length xs" using assms by (simp add: unat_of_nat_small)
  have "ring_slice xs 0 (length xs) = xs" by (rule nth_equalityI) simp_all
  with u assms show "buf_ok q" "contents q = xs" by (simp_all add: q_def buf_ok_def fifo_ok_def contents_def)
qed

theorem send_half_witness:
  "\<exists>x' prev'. drain (\<lambda>_ _. 0) 0 (demo_writer\<lparr>wr_outgoing := \<lparr>buffer = [fifo_packet_init\<lparr>fp_size := 1\<rparr>, fifo_packet_init\<lparr>fp_size := 2\<rparr>,
       fifo_packet_init\<lparr>fp_size := 3\<rparr>], fifo_of = \<lparr>read_ts = 0, write_ts = 3, capacity = 3\<rparr>\<rparr>\<rparr>) 9 =
     Some (True, [(0, (7, 5004), [0]), (0, (7, 5004), [0, 0])], x', prev')"
proof -
  let ?p = "\<lambda>n. fifo_packet_init\<lparr>fp_size := n\<rparr>"
  let ?q = "\<lparr>buffer = [?p 1, ?p 2, ?p 3], fifo_of = \<lparr>read_ts = 0, write_ts = 3, capacity = 3\<rparr>\<rparr>"
  have q: "buf_ok ?q" "contents ?q = [?p 1, ?p 2, ?p 3]" using full_queue [of "[?p 1, ?p 2, ?p 3]"] by simp_all
  have o: "packet_octets (?p 1) = [0]" "packet_octets (?p 2) = [0, 0]"
  proof -
    have "take n (replicate k_max_payload 0) = replicate n (0 :: byte)" if "n \<le> 1440" for n
      using that by (simp add: k_max_payload_def)
    moreover have "replicate 2 (0 :: byte) = [0, 0]" by (simp add: numeral_2_eq_2)
    ultimately show "packet_octets (?p 1) = [0]" "packet_octets (?p 2) = [0, 0]"
      by (simp_all add: packet_octets_def fifo_packet_init_def)
  qed
  have d: "datagrams_for [(7, 5004), (0, 0)] p = [(0, (7, 5004), packet_octets p)]" for p
    by (simp add: datagrams_for_def enumerate_eq_zip)
  have h: "half [?p 1, ?p 2, ?p 3] = [?p 1, ?p 2]" by (simp add: half_def)
  show ?thesis
    using send_half [where x = "demo_writer\<lparr>wr_outgoing := ?q\<rparr>" and result = "\<lambda>_ _. 0" and prev = 9] q h d o demo_writer_ready(9)
    by auto
qed

section \<open>Refused packets and writers\<close>

text \<open>
  A packet longer than \<open>k_max_payload\<close>, header included, is refused and its timestamp stays: so is every later call of
  the stream.
\<close>

lemma oversized_packet_blocks:
  assumes "rb_ok (wr_ring x)" and "s = unat (wr_packet_time x * format_bytes_per_frame (wr_format x))"
    and "length (wr_send_buffer x) = s" and "s \<le> length (rbuffer (wr_ring x))" and "k_max_payload < 12 + s"
    and "wrapping_lt (wrapping_add (rp_timestamp (wr_packet x)) (wr_packet_time x)) t"
  shows "\<exists>x'. send_rounds t x = Some (False, x') \<and> wr_outgoing x' = wr_outgoing x \<and> wr_packet x' = wr_packet x \<and>
    wr_ring x' = wr_ring x"
proof -
  let ?bytes = "map (byte_at (wr_ring x)) [byte_pos (wr_ring x) (rp_timestamp (wr_packet x))..<
    byte_pos (wr_ring x) (rp_timestamp (wr_packet x)) + s]"
  have "rb_read (wr_ring x) (rp_timestamp (wr_packet x)) s False = Some (?bytes, wr_ring x)"
    by (rule rb_read_window [OF assms(1,4)])
  then have "send_round x = Some (False, x\<lparr>wr_ring := wr_ring x, wr_send_buffer := ?bytes,
      wr_packet_buffer := rtp_encode (wr_packet x) ?bytes []\<rparr>)"
    using assms(3,5) unfolding send_round_def Let_def assms(2) [symmetric] by (simp add: length_rtp_encode)
  then show ?thesis using assms(6) by (subst send_rounds.simps) simp
qed

text \<open>With all writers in use \<open>add_writer\<close> reports success and does nothing.\<close>

lemma add_writer_full:
  assumes "\<And>w. w \<in> set (sn_writers sn) \<Longrightarrow> id_valid (wr_id w) \<and> wr_id w \<noteq> i" and "\<And>k. locked k"
  shows "add_writer locked res ssrc i p interfaces sn = (True, sn)"
proof -
  have "free_writer locked k ws = Some None" if "set ws \<subseteq> set (sn_writers sn)" for k ws
    using that assms by (induction ws arbitrary: k) auto
  moreover have "i \<notin> wr_id ` set (sn_writers sn)" using assms(1) by blast
  ultimately show ?thesis by (simp add: add_writer_def)
qed

end
