(* ===== verification/Rtp_Reception.thy ===== *)
theory Rtp_Reception
  imports Rtp_Receiver
begin

text \<open>
  The network thread of the receiver: which streams a datagram reaches and what they do with it, and where
  the loop over the sockets stops or leaves its buffers.
\<close>

section \<open>One packet\<close>

text \<open>A stream that can take one more packet.\<close>

definition accepts_packet :: "stream_context \<Rightarrow> bool" where
  "accepts_packet s \<longleftrightarrow> buf_ok (st_packets s) \<and> buf_ok (st_packets_too_old s) \<and>
     length (contents (st_packets s)) < unat (capacity (fifo_of (st_packets s))) \<and> 0 < ticks_left (st_packets s)"

lemma mark_late_packets_total:
  assumes "buf_ok (st_packets_too_old s)"
  shows "\<exists>q stats. mark_late_packets s = Some (s\<lparr>st_packets_too_old := q, st_packet_stats := stats\<rparr>) \<and> buf_ok q \<and> contents q = []"
  using assms
proof (induction "contents (st_packets_too_old s)" arbitrary: s)
  case Nil
  then have "mark_late_packets s = Some (s\<lparr>st_packets_too_old := st_packets_too_old s, st_packet_stats := st_packet_stats s\<rparr>)"
    using pop_empty [of "st_packets_too_old s"] by (subst mark_late_packets.simps) simp
  then show ?case using Nil by metis
next
  case (Cons seq seqs)
  obtain q where q: "pop (st_packets_too_old s) = Some (Some seq, q)" "buf_ok q" "contents q = seqs"
    using pop_cons [OF Cons.prems Cons.hyps(2) [symmetric]] .
  let ?s = "s\<lparr>st_packets_too_old := q, st_packet_stats := mark_packet_too_late (st_packet_stats s) seq\<rparr>"
  have "mark_late_packets s = mark_late_packets ?s" using q(1) by (subst mark_late_packets.simps) simp
  moreover obtain q' stats where "mark_late_packets ?s = Some (?s\<lparr>st_packets_too_old := q', st_packet_stats := stats\<rparr>)"
    "buf_ok q'" "contents q' = []"
    using Cons.hyps(1) [of ?s] q by auto
  ultimately show ?case by auto
qed

lemma update_interval_fields [simp]:
  "st_packets (update_interval t s) = st_packets s" "st_state (update_interval t s) = st_state s"
  "st_session (update_interval t s) = st_session s" "st_filter (update_interval t s) = st_filter s"
  "st_packet_time_frames (update_interval t s) = st_packet_time_frames s" "st_interface (update_interval t s) = st_interface s"
  "st_packets_too_old (update_interval t s) = st_packets_too_old s"
  by (simp_all add: update_interval_def Let_def split: prod.split option.split)

lemma count_packet_fields [simp]:
  "st_packets (count_packet q s) = st_packets s" "st_state (count_packet q s) = st_state s"
  "st_session (count_packet q s) = st_session s" "st_filter (count_packet q s) = st_filter s"
  "st_packet_time_frames (count_packet q s) = st_packet_time_frames s" "st_interface (count_packet q s) = st_interface s"
  "st_packets_too_old (count_packet q s) = st_packets_too_old s"
  by (simp_all add: count_packet_def Let_def)

lemma update_stream_active_state_eq: "update_stream_active_state now s = s\<lparr>st_state := st_state (update_stream_active_state now s)\<rparr>"
  by (simp add: update_stream_active_state_def)

definition queue_entry :: "u32 \<Rightarrow> u16 \<Rightarrow> byte list \<Rightarrow> u64 \<Rightarrow> packet_buffer" where
  "queue_entry ts seq payload recv_time = \<lparr>pb_timestamp = ts, pb_seq = seq, pb_data_len = of_nat (length payload),
     pb_recv_time = recv_time, pb_payload = payload @ replicate (k_max_payload - length payload) 0\<rparr>"

lemma copied_payload:
  "write_block (pb_payload packet_buffer_init) 0 payload =
     (if length payload \<le> k_max_payload then Some (payload @ replicate (k_max_payload - length payload) 0) else None)"
  by (simp add: write_block_def packet_buffer_init_def)

text \<open>The packet goes to the back of the queue and the stream is receiving.\<close>

lemma receive_packet_queued:
  assumes ok: "accepts_packet s" and len: "length payload \<le> k_max_payload"
    and d: "rtp_timestamp (Some d) = Some ts" "rtp_sequence_number (Some d) = Some seq"
  shows "\<exists>s'. receive_packet now d payload recv_time s = Some s' \<and> buf_ok (st_packets s') \<and> buf_ok (st_packets_too_old s') \<and>
    contents (st_packets s') = contents (st_packets s) @ [queue_entry ts seq payload recv_time] \<and>
    capacity (fifo_of (st_packets s')) = capacity (fifo_of (st_packets s)) \<and> ticks_left (st_packets s') = ticks_left (st_packets s) - 1 \<and>
    st_state s' = Receiving \<and> st_session s' = st_session s \<and> st_filter s' = st_filter s \<and>
    st_packet_time_frames s' = st_packet_time_frames s \<and> st_interface s' = st_interface s"
proof -
  let ?s0 = "update_stream_active_state now s"
  let ?s1 = "case st_rtp_ts ?s0 of None \<Rightarrow> ?s0\<lparr>st_rtp_ts := Some ts, st_prev_packet_time := recv_time\<rparr> | Some _ \<Rightarrow> ?s0"
  have s0: "st_packets ?s0 = st_packets s" "st_packets_too_old ?s0 = st_packets_too_old s" "st_session ?s0 = st_session s"
    "st_filter ?s0 = st_filter s" "st_packet_time_frames ?s0 = st_packet_time_frames s" "st_interface ?s0 = st_interface s"
    by (simp_all add: update_stream_active_state_def)
  have s1: "st_packets ?s1 = st_packets s" "st_packets_too_old ?s1 = st_packets_too_old s" "st_session ?s1 = st_session s"
    "st_filter ?s1 = st_filter s" "st_packet_time_frames ?s1 = st_packet_time_frames s" "st_interface ?s1 = st_interface s"
    using s0 by (simp_all split: option.split)
  obtain q where q: "push (st_packets s) (queue_entry ts seq payload recv_time) = Some (True, q)" "buf_ok q"
    "contents q = contents (st_packets s) @ [queue_entry ts seq payload recv_time]"
    "capacity (fifo_of q) = capacity (fifo_of (st_packets s))" "ticks_left q = ticks_left (st_packets s) - 1"
    using ok push_room [of "st_packets s"] unfolding accepts_packet_def by blast
  let ?s2 = "?s1\<lparr>st_packets := q, st_state := Receiving\<rparr>"
  obtain old stats where late: "mark_late_packets ?s2 = Some (?s2\<lparr>st_packets_too_old := old, st_packet_stats := stats\<rparr>)"
    "buf_ok old"
    using mark_late_packets_total [of ?s2] ok s1(2) unfolding accepts_packet_def by auto
  have "receive_packet now d payload recv_time s =
      Some (count_packet seq (update_interval recv_time (?s2\<lparr>st_packets_too_old := old, st_packet_stats := stats\<rparr>)))"
    using q(1) late(1) len d s1(1) unfolding receive_packet_def copied_payload
    by (simp add: queue_entry_def Let_def cong: option.case_cong)
  then show ?thesis using q late(2) s1 by simp
qed

section \<open>Readers and sockets\<close>

text \<open>
  Why \<open>received_valid\<close> is what \<open>validate\<close> returns on the receive buffer: where the length of a header extension lies behind the
  datagram, whatever is read there, the header is longer than the datagram.
\<close>

lemma padded_header_too_long:
  assumes "d \<noteq> []" and "rtp_extension (Some d)" and "length d < header_extension_start (Some d) + 4"
    and "header_total_length (Some (d @ pad)) = Some h"
  shows "length d < h"
proof -
  have "(d @ pad) ! 0 = d ! 0" using assms(1) by (cases d) simp_all
  then have "rtp_extension (Some (d @ pad))" "header_extension_start (Some (d @ pad)) = header_extension_start (Some d)"
    using assms(1,2) by (simp_all add: rtp_extension_def header_extension_start_def rtp_csrc_count_def)
  then show ?thesis using assms(3,4) by (auto simp: header_total_length_eq)
qed

text \<open>What a datagram does to a stream of a reader that is locked and in use.\<close>

definition offered :: "u64 \<Rightarrow> datagram \<Rightarrow> byte list \<Rightarrow> stream_context \<Rightarrow> stream_context \<Rightarrow> bool" where
  "offered now dg payload s s' \<longleftrightarrow>
     (if stream_matches dg s then receive_packet now (received_bytes dg) payload (dg_recv_time dg) s = Some s' else s' = s)"

definition offered_reader :: "u64 \<Rightarrow> datagram \<Rightarrow> byte list \<Rightarrow> bool \<Rightarrow> reader \<Rightarrow> reader \<Rightarrow> bool" where
  "offered_reader now dg payload locked r r' \<longleftrightarrow>
     (if locked \<and> id_valid (rd_id r)
      then \<exists>ss. r' = r\<lparr>rd_streams := ss\<rparr> \<and> list_all2 (offered now dg payload) (rd_streams r) ss
      else r' = r)"

lemma offer_streams_iff: "offer_streams now dg payload ss = Some ss' \<longleftrightarrow> list_all2 (offered now dg payload) ss ss'"
  by (induction ss arbitrary: ss') (auto simp: list_all2_Cons1 offered_def bind_eq_Some_conv split: if_splits)

lemma offer_readers_iff:
  "offer_readers now dg payload locked k rs = Some rs' \<longleftrightarrow>
     length rs' = length rs \<and> (\<forall>i < length rs. offered_reader now dg payload (locked (k + i)) (rs ! i) (rs' ! i))"
proof (induction rs arbitrary: k rs')
  case (Cons r rs)
  have "offer_readers now dg payload locked k (r # rs) = Some rs' \<longleftrightarrow>
      (\<exists>r' rs''. rs' = r' # rs'' \<and> offered_reader now dg payload (locked k) r r' \<and>
        offer_readers now dg payload locked (Suc k) rs = Some rs'')"
    by (auto simp: offered_reader_def bind_eq_Some_conv offer_streams_iff)
  also have "\<dots> \<longleftrightarrow> length rs' = Suc (length rs) \<and>
      (\<forall>i < Suc (length rs). offered_reader now dg payload (locked (k + i)) ((r # rs) ! i) (rs' ! i))"
    by (cases rs') (auto simp: Cons.IH All_less_Suc2)
  finally show ?case by simp
qed auto

lemma offered_other:
  assumes "offer_readers now dg payload locked 0 rs = Some rs'" and "k < length rs" and "i < length (rd_streams (rs ! k))"
    and "\<not> stream_matches dg (rd_streams (rs ! k) ! i)"
  shows "length rs' = length rs \<and> length (rd_streams (rs' ! k)) = length (rd_streams (rs ! k)) \<and>
    rd_streams (rs' ! k) ! i = rd_streams (rs ! k) ! i"
proof -
  have "offered_reader now dg payload (locked k) (rs ! k) (rs' ! k)" "length rs' = length rs"
    using assms(1,2) by (simp_all add: offer_readers_iff)
  then show ?thesis using assms(3,4)
    by (auto simp: offered_reader_def offered_def list_all2_conv_all_nth split: if_splits)
qed

lemma poll_sockets_Cons:
  "poll_sockets now ((c, i) # cs) rx = Some res \<Longrightarrow>
     poll_sockets now cs rx = Some res \<or> res = (False, rx) \<or>
     (\<exists>dg payload rs. pi_datagram i = Some dg \<and> offer_readers now dg payload (pi_reader_locked i) 0 (rx_readers rx) = Some rs \<and>
       poll_sockets now cs (rx\<lparr>rx_readers := rs, rx_last_time_maintenance := now\<rparr>) = Some res)"
  by (auto simp: Let_def bind_eq_Some_conv split: if_splits option.splits)

text \<open>A stream that no datagram of a poll is for is left alone.\<close>

lemma poll_sockets_other:
  assumes "poll_sockets now cs rx = Some (fin, rx')" and "k < length (rx_readers rx)"
    and "i < length (rd_streams (rx_readers rx ! k))"
    and "\<And>c inp dg. (c, inp) \<in> set cs \<Longrightarrow> pi_datagram inp = Some dg \<Longrightarrow> \<not> stream_matches dg (stream_of rx k i)"
  shows "length (rx_readers rx') = length (rx_readers rx) \<and>
    length (rd_streams (rx_readers rx' ! k)) = length (rd_streams (rx_readers rx ! k)) \<and> stream_of rx' k i = stream_of rx k i"
  using assms
proof (induction cs arbitrary: rx)
  case Nil
  then show ?case by simp
next
  case (Cons ci cs)
  obtain c inp where ci: "ci = (c, inp)" by (cases ci)
  from poll_sockets_Cons [OF Cons.prems(1) [unfolded ci]] consider
      "poll_sockets now cs rx = Some (fin, rx')"
    | "rx' = rx"
    | dg payload rs where "pi_datagram inp = Some dg"
        "offer_readers now dg payload (pi_reader_locked inp) 0 (rx_readers rx) = Some rs"
        "poll_sockets now cs (rx\<lparr>rx_readers := rs, rx_last_time_maintenance := now\<rparr>) = Some (fin, rx')"
    by blast
  then show ?case
  proof cases
    case 1
    show ?thesis by (rule Cons.IH [OF 1 Cons.prems(2,3)]) (use Cons.prems(4) in auto)
  next
    case 2
    then show ?thesis by simp
  next
    case 3
    have "\<not> stream_matches dg (stream_of rx k i)" using Cons.prems(4) [of c inp dg] ci 3(1) by simp
    from offered_other [OF 3(2) Cons.prems(2,3) this] Cons.IH [OF 3(3)] Cons.prems(2-4) show ?thesis by auto
  qed
qed

lemma maintain_states_streams:
  assumes "k < length (rx_readers rx)" and "i < length (rd_streams (rx_readers rx ! k))"
  shows "length (rx_readers (maintain_states now locked rx)) = length (rx_readers rx) \<and>
    length (rd_streams (rx_readers (maintain_states now locked rx) ! k)) = length (rd_streams (rx_readers rx ! k)) \<and>
    (stream_of (maintain_states now locked rx) k i = stream_of rx k i \<or>
     stream_of (maintain_states now locked rx) k i = (stream_of rx k i)\<lparr>st_state := Inactive\<rparr>)"
  using assms by (auto simp: maintain_states_def nth_enumerate_eq update_stream_active_state_def)

lemma read_incoming_other:
  assumes "read_incoming_packets now inputs locked rx = Some rx'"
    and "k < length (rx_readers rx)" and "i < length (rd_streams (rx_readers rx ! k))"
    and "\<And>inp dg. inp \<in> set inputs \<Longrightarrow> pi_datagram inp = Some dg \<Longrightarrow> \<not> stream_matches dg (stream_of rx k i)"
  shows "stream_of rx' k i = stream_of rx k i \<or> stream_of rx' k i = (stream_of rx k i)\<lparr>st_state := Inactive\<rparr>"
proof -
  obtain fin rx1 where rx1: "poll_sockets now (zip (rx_sockets rx) inputs) rx = Some (fin, rx1)"
    and rx': "rx' = (if fin then maintain_states now locked rx1 else rx1)"
    using assms(1) by (auto simp: read_incoming_packets_def bind_eq_Some_conv)
  have "length (rx_readers rx1) = length (rx_readers rx)" "stream_of rx1 k i = stream_of rx k i"
    "length (rd_streams (rx_readers rx1 ! k)) = length (rd_streams (rx_readers rx ! k))"
    using poll_sockets_other [OF rx1 assms(2,3)] assms(4) by (auto dest: set_zip_rightD)
  then show ?thesis
    using maintain_states_streams [of k rx1 i now locked] assms(2,3) unfolding rx' by (cases fin) auto
qed

lemma offered_total:
  assumes "\<And>s. s \<in> set ss \<Longrightarrow> stream_matches dg s \<Longrightarrow> accepts_packet s" and "length payload \<le> k_max_payload"
    and "rtp_timestamp (Some (received_bytes dg)) = Some ts" and "rtp_sequence_number (Some (received_bytes dg)) = Some seq"
  shows "\<exists>ss'. list_all2 (offered now dg payload) ss ss'"
  using assms(1)
proof (induction ss)
  case (Cons s ss)
  have "\<exists>s'. offered now dg payload s s'"
    using receive_packet_queued [OF _ assms(2-4), of s now "dg_recv_time dg"] Cons.prems [of s]
    by (cases "stream_matches dg s") (auto simp: offered_def)
  with Cons show ?case by (auto simp: list_all2_Cons1)
qed auto

lemma offer_readers_total:
  assumes "\<And>k s. k < length rs \<Longrightarrow> id_valid (rd_id (rs ! k)) \<Longrightarrow> locked k \<Longrightarrow> s \<in> set (rd_streams (rs ! k)) \<Longrightarrow>
      stream_matches dg s \<Longrightarrow> accepts_packet s" and "length payload \<le> k_max_payload"
    and "rtp_timestamp (Some (received_bytes dg)) = Some ts" and "rtp_sequence_number (Some (received_bytes dg)) = Some seq"
  shows "\<exists>rs'. offer_readers now dg payload locked 0 rs = Some rs'"
proof -
  have "\<exists>r'. offered_reader now dg payload (locked k) (rs ! k) r'" if k: "k < length rs" for k
  proof (cases "locked k \<and> id_valid (rd_id (rs ! k))")
    case True
    then show ?thesis
      using offered_total [of "rd_streams (rs ! k)" dg payload ts seq now] assms k by (auto simp: offered_reader_def)
  qed (auto simp: offered_reader_def)
  then have "\<forall>k \<in> {..<length rs}. \<exists>r'. offered_reader now dg payload (locked k) (rs ! k) r'" by blast
  then obtain f where "\<forall>k \<in> {..<length rs}. offered_reader now dg payload (locked k) (rs ! k) (f k)" by (rule bchoice [THEN exE])
  then have "offer_readers now dg payload locked 0 rs = Some (map f [0..<length rs])" by (simp add: offer_readers_iff)
  then show ?thesis by blast
qed

lemma poll_sockets_idle:
  "(\<And>c inp. (c, inp) \<in> set cs \<Longrightarrow> pi_datagram inp = None) \<Longrightarrow> poll_sockets now cs rx = Some (True, rx)"
proof (induction cs)
  case (Cons ci cs)
  obtain c inp where ci: "ci = (c, inp)" by (cases ci)
  then have "pi_datagram inp = None" "poll_sockets now cs rx = Some (True, rx)"
    using Cons.prems [of c inp] Cons.IH Cons.prems by auto
  then show ?case using ci by simp
qed simp

lemma offered_contents:
  assumes "offer_readers now dg payload locked 0 rs = Some rs'" and "k < length rs" and "i < length (rd_streams (rs ! k))"
    and "id_valid (rd_id (rs ! k)) \<and> locked k \<and> stream_matches dg (rd_streams (rs ! k) ! i) \<Longrightarrow> accepts_packet (rd_streams (rs ! k) ! i)"
    and "length payload \<le> k_max_payload"
    and "rtp_timestamp (Some (received_bytes dg)) = Some ts" and "rtp_sequence_number (Some (received_bytes dg)) = Some seq"
  shows "length rs' = length rs \<and> length (rd_streams (rs' ! k)) = length (rd_streams (rs ! k)) \<and>
    contents (st_packets (rd_streams (rs' ! k) ! i)) = contents (st_packets (rd_streams (rs ! k) ! i)) @
      (if id_valid (rd_id (rs ! k)) \<and> locked k \<and> stream_matches dg (rd_streams (rs ! k) ! i)
       then [queue_entry ts seq payload (dg_recv_time dg)] else [])"
proof -
  let ?s = "rd_streams (rs ! k) ! i"
  have r: "offered_reader now dg payload (locked k) (rs ! k) (rs' ! k)" "length rs' = length rs"
    using assms(1,2) by (simp_all add: offer_readers_iff)
  show ?thesis
  proof (cases "locked k \<and> id_valid (rd_id (rs ! k))")
    case True
    then have "offered now dg payload ?s (rd_streams (rs' ! k) ! i)" "length (rd_streams (rs' ! k)) = length (rd_streams (rs ! k))"
      using r(1) assms(3) by (auto simp: offered_reader_def list_all2_conv_all_nth)
    then show ?thesis
      using True r(2) assms(4) receive_packet_queued [OF _ assms(5-7), of ?s now "dg_recv_time dg"]
      by (cases "stream_matches dg ?s") (auto simp: offered_def)
  qed (use r in \<open>auto simp: offered_reader_def\<close>)
qed

lemma overflow_lemma:
  assumes "k < length rs" and "id_valid (rd_id (rs ! k))" and "locked (0 + k)"
    and "s \<in> set (rd_streams (rs ! k))" and "stream_matches dg s" and "k_max_payload < length payload"
  shows "offer_readers now dg payload locked 0 rs = None"
proof (rule ccontr)
  assume "offer_readers now dg payload locked 0 rs \<noteq> None"
  then obtain res where "offer_readers now dg payload locked 0 rs = Some res" by blast
  then have "offered_reader now dg payload (locked (0 + k)) (rs ! k) (res ! k)"
    unfolding offer_readers_iff using assms(1) by blast
  then obtain ss where ss: "list_all2 (offered now dg payload) (rd_streams (rs ! k)) ss"
    using assms(2,3) by (auto simp: offered_reader_def)
  obtain i where i: "i < length (rd_streams (rs ! k))" "rd_streams (rs ! k) ! i = s" using assms(4) by (auto simp: in_set_conv_nth)
  then have "offered now dg payload s (ss ! i)" using ss by (auto simp: list_all2_conv_all_nth)
  then have "receive_packet now (received_bytes dg) payload (dg_recv_time dg) s = Some (ss ! i)"
    using assms(5) by (simp add: offered_def)
  then show False
    using assms(6) unfolding receive_packet_def copied_payload by (auto simp: bind_eq_Some_conv Let_def)
qed

section \<open>A concrete receiver\<close>

text \<open>One open socket on port 5004 and one reader, whose streams are on the groups 7 and 8.\<close>

definition demo_context :: "u32 \<Rightarrow> stream_context" where
  "demo_context a = stream_context_init\<lparr>st_session := \<lparr>connection_address = V4 a, rtp_port = 5004, rtcp_port = 5005\<rparr>,
     st_filter := \<lparr>rf_connection_address = V4 a, rf_filters = []\<rparr>,
     st_packets := resize_buf packet_buffer_init fifo_buffer_init 4, st_packets_too_old := resize_buf 0 fifo_buffer_init 4\<rparr>"

definition demo_receiver :: receiver where
  "demo_receiver = receiver_init\<lparr>rx_sockets := [\<lparr>sk_open = True, sk_port = 5004\<rparr>],
     rx_readers := [reader_init\<lparr>rd_id := 1, rd_streams := [demo_context 7, demo_context 8]\<rparr>]\<rparr>"

definition demo_datagram :: "u32 \<Rightarrow> u16 \<Rightarrow> datagram" where
  "demo_datagram dst port = \<lparr>dg_data = rtp_encode rtp_packet_init [1, 2] [], dg_src_address = 9, dg_src_port = port,
     dg_dst_address = Some dst, dg_recv_time = 0\<rparr>"

definition demo_input :: "u32 \<Rightarrow> u16 \<Rightarrow> poll_input" where
  "demo_input dst port = \<lparr>pi_locked = True, pi_datagram = Some (demo_datagram dst port), pi_reader_locked = \<lambda>_. True\<rparr>"

lemma demo_matches:
  "stream_matches (demo_datagram dst port) (demo_context a) \<longleftrightarrow> dst = a \<and> port = 5004"
  by (auto simp: stream_matches_def demo_datagram_def demo_context_def dst_endpoint_def src_address_of_def is_valid_source_def)

lemma demo_accepts: "accepts_packet (demo_context a)"
  by (simp add: accepts_packet_def demo_context_def stream_context_init_def resize_buf_def fifo_buffer_init_def
      fifo_resize_def fifo_reset_def fifo_init_def buf_ok_def fifo_ok_def contents_def ticks_left_def)

text \<open>A datagram for no stream of the receiver.\<close>

lemma demo_poll_other:
  assumes "dst \<noteq> 7 \<and> dst \<noteq> 8 \<or> port \<noteq> 5004"
  shows "\<exists>rx'. read_incoming_packets 0 [demo_input dst port] (\<lambda>_. True) demo_receiver = Some rx'"
proof -
  have d: "received_bytes (demo_datagram dst port) = rtp_encode rtp_packet_init [1, 2] []" "rtp_encode rtp_packet_init [1, 2] [] \<noteq> []"
    "payload_bytes (Some (rtp_encode rtp_packet_init [1, 2] [])) (12, 2) = [1, 2]"
    by (simp_all add: received_bytes_def demo_datagram_def rtp_encode_def k_mtu_def payload_bytes_def)
  show ?thesis
    using assms d
    by (auto simp: read_incoming_packets_def demo_receiver_def demo_input_def received_valid_def rtp_encode_view Let_def
        demo_matches id_valid_def)
qed

section \<open>Properties\<close>

text \<open>
  A poll of the sockets changes nothing of a stream that none of the datagrams is for (another session, or
  a source that its filter rejects), except that the stream may become inactive.
\<close>

theorem poll_isolation:
  assumes "read_incoming_packets now inputs locked rx = Some rx'"
    and "k < length (rx_readers rx)" and "i < length (rd_streams (rx_readers rx ! k))"
    and "\<And>inp dg. inp \<in> set inputs \<Longrightarrow> pi_datagram inp = Some dg \<Longrightarrow> \<not> stream_matches dg (stream_of rx k i)"
  shows "\<exists>state. stream_of rx' k i = (stream_of rx k i)\<lparr>st_state := state\<rparr>"
proof -
  have "stream_of rx k i = (stream_of rx k i)\<lparr>st_state := st_state (stream_of rx k i)\<rparr>" by simp
  moreover have "stream_of rx' k i = stream_of rx k i \<or> stream_of rx' k i = (stream_of rx k i)\<lparr>st_state := Inactive\<rparr>"
    using assms(4) by (intro read_incoming_other [OF assms(1-3)]) blast
  ultimately show ?thesis by metis
qed

theorem poll_isolation_witness:
  "\<exists>rx' state. read_incoming_packets 0 [demo_input 6 5004] (\<lambda>_. True) demo_receiver = Some rx' \<and>
    stream_of rx' 0 1 = (demo_context 8)\<lparr>st_state := state\<rparr>"
proof -
  obtain rx' where rx': "read_incoming_packets 0 [demo_input 6 5004] (\<lambda>_. True) demo_receiver = Some rx'"
    using demo_poll_other [of 6 5004] by auto
  have s: "stream_of demo_receiver 0 1 = demo_context 8" by (simp add: demo_receiver_def)
  have "\<exists>state. stream_of rx' 0 1 = (stream_of demo_receiver 0 1)\<lparr>st_state := state\<rparr>"
    by (rule poll_isolation [OF rx']) (simp_all add: demo_receiver_def demo_input_def demo_matches, auto simp: demo_matches)
  then show ?thesis using rx' unfolding s by blast
qed

text \<open>
  On POSIX systems a stream takes nothing from a sender that does not send from the very port the
  session is received on, whatever the destination of the datagrams: the port compared with that of the session is
  the sender's.
\<close>

theorem foreign_port_ignored:
  assumes "read_incoming_packets now inputs locked rx = Some rx'"
    and "k < length (rx_readers rx)" and "i < length (rd_streams (rx_readers rx ! k))"
    and "rtp_port (st_session (stream_of rx k i)) = port" and "port \<noteq> 0"
    and "\<And>inp dg. inp \<in> set inputs \<Longrightarrow> pi_datagram inp = Some dg \<Longrightarrow> dg_src_port dg \<noteq> port"
  shows "st_packets (stream_of rx' k i) = st_packets (stream_of rx k i)"
proof -
  have "\<not> stream_matches dg (stream_of rx k i)" if "dg_src_port dg \<noteq> port" for dg
    using that assms(4,5) by (auto simp: stream_matches_def dst_endpoint_def split: option.splits)
  then have "stream_of rx' k i = stream_of rx k i \<or> stream_of rx' k i = (stream_of rx k i)\<lparr>st_state := Inactive\<rparr>"
    using assms(6) by (intro read_incoming_other [OF assms(1-3)]) blast
  then show ?thesis by auto
qed

theorem foreign_port_ignored_witness:
  "\<exists>rx'. read_incoming_packets 0 [demo_input 7 50000] (\<lambda>_. True) demo_receiver = Some rx' \<and>
    st_packets (stream_of rx' 0 0) = st_packets (demo_context 7)"
proof -
  obtain rx' where rx': "read_incoming_packets 0 [demo_input 7 50000] (\<lambda>_. True) demo_receiver = Some rx'"
    using demo_poll_other [of 7 50000] by auto
  have s: "stream_of demo_receiver 0 0 = demo_context 7" by (simp add: demo_receiver_def)
  have "st_packets (stream_of rx' 0 0) = st_packets (stream_of demo_receiver 0 0)"
    by (rule foreign_port_ignored [OF rx', where port = 5004])
      (auto simp: demo_receiver_def demo_input_def demo_context_def demo_datagram_def)
  then show ?thesis using rx' unfolding s by blast
qed

text \<open>
  A packet whose payload is longer than 1440 octets, which a datagram of 1500 octets leaves room
  for, is copied past the end of the packet buffer of the first stream in use it is for.
\<close>

theorem oversized_payload_overflows:
  assumes "pi_locked inp" and "sk_open c" and "pi_datagram inp = Some dg" and "dg_data dg = rtp_encode p payload []"
    and "length (dg_data dg) \<le> k_mtu" and "k_max_payload < length payload"
    and "k < length (rx_readers rx)" and "id_valid (rd_id (rx_readers rx ! k))" and "pi_reader_locked inp k"
    and "s \<in> set (rd_streams (rx_readers rx ! k))" and "stream_matches dg s"
  shows "poll_sockets now ((c, inp) # cs) rx = None"
proof -
  have d: "received_bytes dg = rtp_encode p payload []" using assms(4,5) by (simp add: received_bytes_def)
  have "offer_readers now dg payload (pi_reader_locked inp) 0 (rx_readers rx) = None"
    using overflow_lemma [OF assms(7,8) _ assms(10,11,6)] assms(9) by simp
  moreover have "length payload \<le> 1488" "rtp_encode p payload [] \<noteq> []" "payload \<noteq> []"
    using assms(4,5,6) by (auto simp: rtp_encode_def k_mtu_def k_max_payload_def)
  ultimately show ?thesis
    using assms(1-3) d by (simp add: received_valid_def rtp_encode_view Let_def)
qed

theorem oversized_payload_overflows_witness:
  "poll_sockets 0 [(\<lparr>sk_open = True, sk_port = 5004\<rparr>,
      \<lparr>pi_locked = True, pi_datagram = Some \<lparr>dg_data = rtp_encode rtp_packet_init (replicate 1488 0) [], dg_src_address = 1,
         dg_src_port = 5004, dg_dst_address = Some 7, dg_recv_time = 0\<rparr>, pi_reader_locked = \<lambda>_. True\<rparr>)]
     (receiver_init\<lparr>rx_readers := [reader_init\<lparr>rd_id := 1, rd_streams := [stream_context_init\<lparr>
        st_session := \<lparr>connection_address = V4 7, rtp_port = 5004, rtcp_port = 5005\<rparr>,
        st_filter := \<lparr>rf_connection_address = V4 7, rf_filters = []\<rparr>\<rparr>]\<rparr>]\<rparr>) = None"
  by (rule oversized_payload_overflows [where p = rtp_packet_init and payload = "replicate 1488 0" and k = 0])
    (auto simp: rtp_encode_def k_mtu_def k_max_payload_def id_valid_def stream_matches_def dst_endpoint_def
      src_address_of_def is_valid_source_def)

text \<open>
  A valid packet without payload ends the poll: the sockets after it are not read and the states of
  the streams are not maintained.
\<close>

theorem empty_payload_stops_poll:
  assumes "pi_locked inp" and "sk_open c" and "pi_datagram inp = Some dg" and "dg_data dg = rtp_encode p [] []"
    and "rx_sockets rx = c # cs"
  shows "read_incoming_packets now (inp # inputs) locked rx = Some rx"
proof -
  have "received_bytes dg = rtp_encode p [] []" "rtp_encode p [] [] \<noteq> []" "payload_bytes (Some (rtp_encode p [] [])) (12, 0) = []"
    using assms(4) by (simp_all add: received_bytes_def rtp_encode_def k_mtu_def payload_bytes_def)
  then have "poll_sockets now ((c, inp) # zip cs inputs) rx = Some (False, rx)"
    using assms(1-3) by (simp add: received_valid_def rtp_encode_view Let_def)
  then show ?thesis using assms(5) by (simp add: read_incoming_packets_def)
qed

theorem empty_payload_stops_poll_witness:
  "read_incoming_packets (2 ^ 40) [\<lparr>pi_locked = True, pi_datagram = Some \<lparr>dg_data = rtp_encode rtp_packet_init [] [],
      dg_src_address = 1, dg_src_port = 2, dg_dst_address = None, dg_recv_time = 0\<rparr>, pi_reader_locked = \<lambda>_. True\<rparr>] (\<lambda>_. True)
     (receiver_init\<lparr>rx_sockets := [\<lparr>sk_open = True, sk_port = 5004\<rparr>]\<rparr>) =
   Some (receiver_init\<lparr>rx_sockets := [\<lparr>sk_open = True, sk_port = 5004\<rparr>]\<rparr>)"
  by (rule empty_payload_stops_poll [where p = rtp_packet_init and cs = "[]" and c = "\<lparr>sk_open = True, sk_port = 5004\<rparr>"
        and dg = "\<lparr>dg_data = rtp_encode rtp_packet_init [] [], dg_src_address = 1, dg_src_port = 2, dg_dst_address = None,
          dg_recv_time = 0\<rparr>"]) simp_all



end
