(* ===== verification/Rtp_Loopback.thy ===== *)
theory Rtp_Loopback
  imports Rtp_Packetizer Rtp_Reception
begin

text \<open>
  Sender and receiver together: the packets that a writer queues, received over redundant streams, are read back as the
  signal that was sent.
\<close>

section \<open>Receiving packets\<close>

text \<open>Datagrams that reach a stream one after the other.\<close>

fun receive_all :: "u64 \<Rightarrow> byte list list \<Rightarrow> stream_context \<Rightarrow> stream_context option" where
  "receive_all now [] s = Some s"
| "receive_all now (d # ds) s = do {
     payload \<leftarrow> rtp_payload_data (Some d);
     s' \<leftarrow> receive_packet now d (payload_bytes (Some d) payload) now s;
     receive_all now ds s' }"

definition chunk_packet :: "nat \<Rightarrow> nat \<Rightarrow> (nat \<Rightarrow> byte list) \<Rightarrow> nat \<Rightarrow> byte list \<Rightarrow> bool" where
  "chunk_packet t0 f chunk k d \<longleftrightarrow> (\<exists>h. d = rtp_encode h (chunk k) [] \<and> rp_timestamp h = of_nat (t0 + k * f))"

definition stream_room :: "nat \<Rightarrow> stream_context \<Rightarrow> bool" where
  "stream_room n s \<longleftrightarrow> buf_ok (st_packets s) \<and> buf_ok (st_packets_too_old s) \<and>
     length (contents (st_packets s)) + n \<le> unat (capacity (fifo_of (st_packets s))) \<and> n \<le> ticks_left (st_packets s)"

lemma queue_entry_carries:
  assumes "ts = of_nat (t0 + k * f)" and "length (chunk k) \<le> k_max_payload"
  shows "carries_chunk t0 f chunk k (queue_entry ts seq (chunk k) recv_time)"
proof -
  have "unat (of_nat (length (chunk k)) :: u16) = length (chunk k)"
    using assms(2) by (intro unat_of_nat_small) (simp add: k_max_payload_def)
  then show ?thesis using assms(1) by (simp add: carries_chunk_def queue_entry_def)
qed

lemma receive_all_chunks:
  assumes "stream_room (length ks) s" and "list_all2 (chunk_packet t0 f chunk) ks ds"
    and "\<And>k. k \<in> set ks \<Longrightarrow> length (chunk k) \<le> k_max_payload"
  shows "\<exists>s' qs. receive_all now ds s = Some s' \<and> buf_ok (st_packets s') \<and> contents (st_packets s') = contents (st_packets s) @ qs \<and>
    list_all2 (carries_chunk t0 f chunk) ks qs \<and> (st_state s \<noteq> No_consumer \<longrightarrow> st_state s' \<noteq> No_consumer) \<and>
    st_packet_time_frames s' = st_packet_time_frames s"
  using assms
proof (induction ks arbitrary: ds s)
  case Nil
  then show ?case by (simp add: stream_room_def)
next
  case (Cons k ks)
  obtain d ds' where ds: "ds = d # ds'" "chunk_packet t0 f chunk k d" "list_all2 (chunk_packet t0 f chunk) ks ds'"
    using Cons.prems(2) by (auto simp: list_all2_Cons1)
  obtain h where h: "d = rtp_encode h (chunk k) []" "rp_timestamp h = of_nat (t0 + k * f)"
    using ds(2) by (auto simp: chunk_packet_def)
  have len: "length (chunk k) \<le> k_max_payload" using Cons.prems(3) by simp
  note view = rtp_encode_view [of h "chunk k", folded h(1)]
  have ok: "accepts_packet s" using Cons.prems(1) by (simp add: accepts_packet_def stream_room_def)
  obtain s1 where s1: "receive_packet now d (chunk k) now s = Some s1" "buf_ok (st_packets s1)" "buf_ok (st_packets_too_old s1)"
    "contents (st_packets s1) = contents (st_packets s) @ [queue_entry (rp_timestamp h) (rp_sequence_number h) (chunk k) now]"
    "capacity (fifo_of (st_packets s1)) = capacity (fifo_of (st_packets s))" "ticks_left (st_packets s1) = ticks_left (st_packets s) - 1"
    "st_state s1 = Receiving" "st_packet_time_frames s1 = st_packet_time_frames s"
    using receive_packet_queued [OF ok len view(8,7), of now now] by blast
  have room: "stream_room (length ks) s1" using Cons.prems(1) s1 by (auto simp: stream_room_def)
  obtain s' qs where s': "receive_all now ds' s1 = Some s'" "buf_ok (st_packets s')" "contents (st_packets s') = contents (st_packets s1) @ qs"
    "list_all2 (carries_chunk t0 f chunk) ks qs" "st_state s' \<noteq> No_consumer" "st_packet_time_frames s' = st_packet_time_frames s1"
    using Cons.IH [OF room ds(3)] Cons.prems(3) s1(7) by auto
  have "receive_all now ds s = Some s'" using s1(1) s'(1) view(10,11) by (simp add: ds(1))
  then show ?case
    using s' s1(4,8) queue_entry_carries [where chunk = chunk and k = k, OF h(2) len] by auto
qed

section \<open>From the sender to the receiver\<close>

abbreviation signal_chunk :: "(nat \<Rightarrow> byte) \<Rightarrow> nat \<Rightarrow> nat \<Rightarrow> nat \<Rightarrow> nat \<Rightarrow> byte list" where
  "signal_chunk sb w t0 f k \<equiv> frame_octets sb w (t0 + k * f) (t0 + Suc k * f)"

lemma packet_for_chunk:
  assumes "12 + f * w \<le> k_max_payload"
  shows "chunk_packet t0 f (signal_chunk sb w t0 f) k (packet_octets (packet_for sb f w h t0 k))"
  unfolding chunk_packet_def packet_for_octets [OF assms] by (rule exI [of _ "advance k (t0 + k * f) h"]) (simp add: advance_def)

lemma played_signal:
  assumes "{..<M} \<subseteq> K"
  shows "played (signal_chunk sb w t0 f) silence K M = frame_octets sb w t0 (t0 + M * f)"
  using assms
proof (induction M)
  case 0
  then show ?case by (simp add: played_def frame_octets_def)
next
  case (Suc M)
  have "[t0 * w..<(t0 + Suc M * f) * w] = [t0 * w..<(t0 + M * f) * w] @ [(t0 + M * f) * w..<(t0 + Suc M * f) * w]"
    using upt_add_eq_append [of "t0 * w" "(t0 + M * f) * w" "f * w"] by (simp add: add_mult_distrib add_ac)
  then have "frame_octets sb w t0 (t0 + Suc M * f) = frame_octets sb w t0 (t0 + M * f) @ signal_chunk sb w t0 f M"
    by (simp add: frame_octets_def)
  moreover have "{..<M} \<subseteq> K" "M \<in> K" using Suc.prems by auto
  ultimately show ?case using Suc.IH by (simp add: played_def)
qed

lemma extent_covers: "k \<in> set ks \<Longrightarrow> Suc k \<le> extent ks L"
proof (induction ks arbitrary: L)
  case (Cons a ks)
  have mono: "L \<le> extent ks L" for L :: nat
    by (induction ks arbitrary: L) (auto intro: le_trans [OF max.cobounded1])
  show ?case using Cons mono [of "max L (Suc a)"] by auto
qed simp

text \<open>A stream of the receiver that has been configured for the signal and gets the packets \<open>ks\<close>.\<close>

definition stream_for :: "nat \<Rightarrow> nat \<Rightarrow> nat list \<Rightarrow> stream_context \<Rightarrow> bool" where
  "stream_for f n ks s \<longleftrightarrow> stream_room (length ks) s \<and> contents (st_packets s) = [] \<and> st_state s \<noteq> No_consumer \<and>
     set ks \<subseteq> {..<n} \<and> 0 < st_packet_time_frames s \<and> n * f + unat (st_packet_time_frames s) \<le> 2 ^ 31"

lemma stream_receives:
  assumes "stream_for f n ks s" and "12 + f * w \<le> k_max_payload" and "length ps = n"
    and "\<And>k. k < n \<Longrightarrow> ps ! k = packet_for sb f w h t0 k"
  shows "\<exists>s'. receive_all now (map (\<lambda>k. packet_octets (ps ! k)) ks) s = Some s' \<and> queued_chunks t0 f (signal_chunk sb w t0 f) n ks s'"
proof -
  have ks: "set ks \<subseteq> {..<n}" using assms(1) by (simp add: stream_for_def)
  have ds: "list_all2 (chunk_packet t0 f (signal_chunk sb w t0 f)) ks (map (\<lambda>k. packet_octets (ps ! k)) ks)"
    using ks assms(4) packet_for_chunk [OF assms(2)] by (auto simp: list_all2_map2 list_all2_same)
  have "length (signal_chunk sb w t0 f k) \<le> k_max_payload" for k
    using assms(2) by (simp add: length_frame_octets)
  with receive_all_chunks [OF _ ds] show ?thesis
    using assms(1) by (fastforce simp: stream_for_def queued_chunks_def)
qed

lemma streams_receive:
  assumes "list_all2 (stream_for f n) kss ss" and "12 + f * w \<le> k_max_payload" and "length ps = n"
    and "\<And>k. k < n \<Longrightarrow> ps ! k = packet_for sb f w h t0 k"
  shows "\<exists>ss'. length ss' = length ss \<and>
    (\<forall>i < length ss. receive_all now (map (\<lambda>k. packet_octets (ps ! k)) (kss ! i)) (ss ! i) = Some (ss' ! i)) \<and>
    list_all2 (queued_chunks t0 f (signal_chunk sb w t0 f) n) kss ss'"
  using assms(1)
proof (induction kss ss rule: list_all2_induct)
  case (Cons ks kss s ss)
  obtain s' where "receive_all now (map (\<lambda>k. packet_octets (ps ! k)) ks) s = Some s'"
    "queued_chunks t0 f (signal_chunk sb w t0 f) n ks s'"
    using stream_receives [OF Cons.hyps(1) assms(2-4)] by blast
  moreover obtain ss' where "length ss' = length ss"
    "\<forall>i < length ss. receive_all now (map (\<lambda>k. packet_octets (ps ! k)) (kss ! i)) (ss ! i) = Some (ss' ! i)"
    "list_all2 (queued_chunks t0 f (signal_chunk sb w t0 f) n) kss ss'" using Cons.IH by blast
  ultimately show ?case by (intro exI [of _ "s' # ss'"]) (auto simp: nth_Cons split: nat.split)
qed simp



end
