(* ===== verification/Sdp_Fields.thy ===== *)
theory Sdp_Fields
  imports Sdp_Types Audio_Format
begin

text \<open>
  The fields of an SDP description, each parsed and printed as in sdp/detail: groups, active times, clock domains,
  connection information, origins, formats (rtpmap), media clocks, reference clocks and source filters. Parsers get the text after the
  name of the attribute, printers write the whole line. An exception is \<open>None\<close>. Shown: every field that its
  fields can express is read back as it is printed, with no newline in the line (the locale \<open>text_field\<close>), and where printing and parsing
  disagree.
\<close>

type_synonym 'a parsed = "string + 'a"

definition quoted :: "string \<Rightarrow> string" where "quoted s = CHR 0x27 # s @ [CHR 0x27]"

section \<open>Group\<close>

datatype group_type = Group_undefined | Group_dup

record sdp_group =
  grp_type :: group_type
  grp_tags :: "string list"

text \<open>The tags up to the end of the text; the text gets shorter with each.\<close>

function split_all :: "char \<Rightarrow> string \<Rightarrow> string list" where
  "split_all c s = (case split_char c False s of (Some tag, t) \<Rightarrow> tag # split_all c t | (None, t) \<Rightarrow> [])"
  by pat_completeness auto
termination
  by (relation "measure (\<lambda>(c, s). length s)") (auto dest: split_char_shrinks [OF sym])

declare split_all.simps [simp del]

text \<open>The message for another type has a placeholder and no argument for it, so formatting it throws.\<close>

definition parse_group :: "string \<Rightarrow> sdp_group parsed option" where
  "parse_group line =
     (case read_until_char (CHR '' '') False line of
        (None, s) \<Rightarrow> Some (Inl ''Invalid group type'')
      | (Some type, s) \<Rightarrow> if type \<noteq> ''DUP'' then None else Some (Inr \<lparr>grp_type = Group_dup, grp_tags = split_all (CHR '' '') s\<rparr>))"

fun join :: "string \<Rightarrow> string list \<Rightarrow> string" where
  "join sep [] = []"
| "join sep [x] = x"
| "join sep (x # xs) = x @ sep @ join sep xs"

definition show_group :: "sdp_group \<Rightarrow> string" where
  "show_group g = ''a=group:DUP '' @ join '' '' (grp_tags g)"

section \<open>Active time\<close>

record time_active_field =
  ta_start_time :: u64
  ta_stop_time :: u64

definition time_active_init :: time_active_field where
  "time_active_init = \<lparr>ta_start_time = 0, ta_stop_time = 0\<rparr>"

definition parse_time_active :: "string \<Rightarrow> time_active_field parsed" where
  "parse_time_active line =
     try_skip (skip_string ''t='' line) (''time: expecting '' @ quoted ''t='') (\<lambda>s.
     try_read (read_signed s) ''time: failed to parse start time as integer'' (\<lambda>start s.
     try_skip (skip_char (CHR '' '') s) ''time: expecting space after start time'' (\<lambda>s.
     try_read (read_signed s) ''time: failed to parse stop time as integer'' (\<lambda>stop s.
       Inr \<lparr>ta_start_time = start, ta_stop_time = stop\<rparr>))))"

definition show_time_active :: "time_active_field \<Rightarrow> string" where
  "show_time_active f = ''t='' @ show_signed (ta_start_time f) @ '' '' @ show_signed (ta_stop_time f)"

definition validate_time_active :: "time_active_field \<Rightarrow> unit parsed" where
  "validate_time_active f =
     (if sint (ta_start_time f) < 0 then Inl ''time: start time must be greater than or equal to 0''
      else if sint (ta_stop_time f) < 0 then Inl ''time: stop time must be greater than or equal to 0''
      else Inr ())"

section \<open>Clock domain\<close>

datatype sync_source = Sync_undefined | Sync_ptp_v2

record ravenna_clock_domain =
  cd_source :: sync_source
  cd_domain :: u32

definition parse_ravenna_clock_domain :: "string \<Rightarrow> ravenna_clock_domain parsed" where
  "parse_ravenna_clock_domain line =
     try_read (split_char (CHR '' '') False line) ''clock_domain: failed to parse sync source'' (\<lambda>sync_source s.
     if sync_source = ''PTPv2''
     then try_read (read_signed s) ''clock_domain: invalid domain'' (\<lambda>domain s.
       Inr \<lparr>cd_source = Sync_ptp_v2, cd_domain = domain\<rparr>)
     else Inl ''clock_domain: unsupported sync source'')"

fun show_sync_source :: "sync_source \<Rightarrow> string" where
  "show_sync_source Sync_ptp_v2 = ''PTPv2''"
| "show_sync_source Sync_undefined = ''undefined''"

definition show_ravenna_clock_domain :: "ravenna_clock_domain \<Rightarrow> string" where
  "show_ravenna_clock_domain d = ''a=clock-domain:'' @ show_sync_source (cd_source d) @ '' '' @ show_signed (cd_domain d)"

definition validate_ravenna_clock_domain :: "ravenna_clock_domain \<Rightarrow> unit parsed" where
  "validate_ravenna_clock_domain d =
     (if cd_source d = Sync_undefined then Inl ''clock_domain: sync source is undefined''
      else if sint (cd_domain d) < 0 then Inl ''clock_domain: domain is negative''
      else Inr ())"

section \<open>Connection information\<close>

record connection_info_field =
  ci_network_type :: netw_type
  ci_address_type :: addr_type
  ci_address :: string
  ci_ttl :: "u32 option"
  ci_number_of_addresses :: "u32 option"

text \<open>The optional numbers after the address.\<close>

definition parse_address_numbers :: "connection_info_field \<Rightarrow> string \<Rightarrow> connection_info_field parsed" where
  "parse_address_numbers info s =
     (let finish = (\<lambda>info s. check_that (s = []) ''connection: unexpected characters at end of line'' (Inr info))
      in if ci_address_type info = Addr_ipv4
         then try_read (read_signed s) ''connection: failed to parse ttl for ipv4 address'' (\<lambda>ttl s.
           case skip_char (CHR ''/'') s of
             (True, s) \<Rightarrow> try_read (read_signed s) ''connection: failed to parse number of addresses for ipv4 address'' (\<lambda>n s.
               finish (info\<lparr>ci_ttl := Some ttl, ci_number_of_addresses := Some n\<rparr>) s)
           | (False, s) \<Rightarrow> finish (info\<lparr>ci_ttl := Some ttl\<rparr>) s)
         else if ci_address_type info = Addr_ipv6
         then try_read (read_signed s) ''connection: failed to parse number of addresses for ipv4 address'' (\<lambda>n s.
           finish (info\<lparr>ci_number_of_addresses := Some n\<rparr>) s)
         else finish info s)"

definition parse_connection_info :: "string \<Rightarrow> connection_info_field parsed" where
  "parse_connection_info line =
     try_skip (skip_string ''c='' line) (''connection: expecting '' @ quoted ''c='') (\<lambda>s.
     try_read (split_char (CHR '' '') False s) ''connection: failed to parse network type'' (\<lambda>network_type s.
     check_that (network_type = k_sdp_inet) ''connection: invalid network type'' (
     try_read (split_char (CHR '' '') False s) ''connection: failed to parse address type'' (\<lambda>address_type s.
     check_that (address_type = k_sdp_ipv4 \<or> address_type = k_sdp_ipv6) ''connection: invalid address type'' (
       let (address, s) = split_char (CHR ''/'') False s;
           info = \<lparr>ci_network_type = Netw_internet, ci_address_type = (if address_type = k_sdp_ipv4 then Addr_ipv4 else Addr_ipv6),
             ci_address = (case address of Some a \<Rightarrow> a | None \<Rightarrow> []), ci_ttl = None, ci_number_of_addresses = None\<rparr>
       in if s = [] then Inr info else parse_address_numbers info s)))))"

definition show_connection_info :: "connection_info_field \<Rightarrow> string" where
  "show_connection_info f =
     ''c='' @ show_netw_type (ci_network_type f) @ '' '' @ show_addr_type (ci_address_type f) @ '' '' @ ci_address f @
     (case ci_ttl f of Some n \<Rightarrow> ''/'' @ show_signed n | None \<Rightarrow> []) @
     (case ci_number_of_addresses f of Some n \<Rightarrow> ''/'' @ show_signed n | None \<Rightarrow> [])"

definition validate_connection_info :: "connection_info_field \<Rightarrow> unit parsed" where
  "validate_connection_info f =
     (if ci_network_type f = Netw_undefined then Inl ''connection: network type is undefined''
      else if ci_address_type f = Addr_undefined then Inl ''connection: address type is undefined''
      else if ci_address f = [] then Inl ''connection: address is empty''
      else if ci_address_type f = Addr_ipv4 \<and> ci_ttl f = None then Inl ''connection: ttl is required for ipv4 address''
      else if ci_address_type f = Addr_ipv6 \<and> ci_ttl f \<noteq> None then Inl ''connection: ttl is not allowed for ipv6 address''
      else Inr ())"

section \<open>Origin\<close>

record origin_field =
  or_username :: string
  or_session_id :: string
  or_session_version :: u32
  or_network_type :: netw_type
  or_address_type :: addr_type
  or_unicast_address :: string

definition origin_init :: origin_field where
  "origin_init = \<lparr>or_username = [], or_session_id = [], or_session_version = 0, or_network_type = Netw_undefined,
     or_address_type = Addr_undefined, or_unicast_address = []\<rparr>"

definition parse_origin :: "string \<Rightarrow> origin_field parsed" where
  "parse_origin line =
     try_skip (skip_string ''o='' line) (''origin: expecting '' @ quoted ''o='') (\<lambda>s.
     try_read (split_char (CHR '' '') False s) ''origin: failed to parse username'' (\<lambda>username s.
     try_read (split_char (CHR '' '') False s) ''origin: failed to parse session id'' (\<lambda>session_id s.
     try_read (read_signed s) ''origin: failed to parse session version'' (\<lambda>version s.
     let s = snd (skip_char (CHR '' '') s) in
     try_read (split_char (CHR '' '') False s) ''origin: failed to parse network type'' (\<lambda>network_type s.
     check_that (network_type = k_sdp_inet) ''origin: invalid network type'' (
     try_read (split_char (CHR '' '') False s) ''origin: failed to parse address type'' (\<lambda>address_type s.
     check_that (address_type = k_sdp_ipv4 \<or> address_type = k_sdp_ipv6) ''origin: invalid address type'' (
     try_read (split_char (CHR '' '') False s) ''origin: failed to parse address'' (\<lambda>address s.
       Inr \<lparr>or_username = username, or_session_id = session_id, or_session_version = version, or_network_type = Netw_internet,
         or_address_type = (if address_type = k_sdp_ipv4 then Addr_ipv4 else Addr_ipv6), or_unicast_address = address\<rparr>)))))))))"

definition show_origin :: "origin_field \<Rightarrow> string" where
  "show_origin f =
     ''o='' @ (if or_username f = [] then ''-'' else or_username f) @ '' '' @ or_session_id f @ '' '' @
     show_signed (or_session_version f) @ '' '' @ show_netw_type (or_network_type f) @ '' '' @
     show_addr_type (or_address_type f) @ '' '' @ or_unicast_address f"

definition validate_origin :: "origin_field \<Rightarrow> unit parsed" where
  "validate_origin f =
     (if or_session_id f = [] then Inl ''origin: session id is empty''
      else if or_unicast_address f = [] then Inl ''origin: unicast address is empty''
      else if or_network_type f = Netw_undefined then Inl ''origin: network type is undefined''
      else if or_address_type f = Addr_undefined then Inl ''origin: address type is undefined''
      else Inr ())"

section \<open>Format\<close>

record sdp_format =
  fm_payload_type :: byte
  fm_encoding_name :: string
  fm_clock_rate :: u32
  fm_num_channels :: u32

definition parse_format :: "string \<Rightarrow> sdp_format parsed" where
  "parse_format line =
     try_read (read_unsigned line) ''rtpmap: invalid payload type'' (\<lambda>payload_type s.
     try_skip (skip_char (CHR '' '') s) ''rtpmap: expecting space after payload type'' (\<lambda>s.
     try_read (split_char (CHR ''/'') False s) ''rtpmap: failed to parse encoding name'' (\<lambda>encoding_name s.
     try_read (read_unsigned s) ''rtpmap: invalid clock rate'' (\<lambda>clock_rate s.
     let map = (\<lambda>n. \<lparr>fm_payload_type = payload_type, fm_encoding_name = encoding_name, fm_clock_rate = clock_rate, fm_num_channels = n\<rparr>)
     in case skip_char (CHR ''/'') s of
          (True, s) \<Rightarrow> try_read (read_unsigned s) ''rtpmap: failed to parse number of channels'' (\<lambda>n s. Inr (map n))
        | (False, s) \<Rightarrow> Inr (map 1)))))"

definition format_of_audio_format :: "audio_format \<Rightarrow> sdp_format option" where
  "format_of_audio_format f =
     (let format = (\<lambda>name. Some \<lparr>fm_payload_type = 98, fm_encoding_name = name, fm_clock_rate = af_sample_rate f,
          fm_num_channels = af_num_channels f\<rparr>)
      in case af_encoding f of
           Pcm_u8 \<Rightarrow> format ''L8''
         | Pcm_s16 \<Rightarrow> format ''L16''
         | Pcm_s24 \<Rightarrow> format ''L24''
         | _ \<Rightarrow> None)"

definition audio_format_of_format :: "sdp_format \<Rightarrow> audio_format option" where
  "audio_format_of_format f =
     (let format = (\<lambda>e. Some \<lparr>af_byte_order = Order_be, af_encoding = e, af_ordering = Interleaved,
          af_sample_rate = fm_clock_rate f, af_num_channels = fm_num_channels f\<rparr>)
      in if fm_encoding_name f = ''L16'' then format Pcm_s16
         else if fm_encoding_name f = ''L24'' then format Pcm_s24
         else if fm_encoding_name f = ''L32'' then format Pcm_s32
         else None)"

definition show_format :: "sdp_format \<Rightarrow> string" where
  "show_format f =
     show_unsigned (fm_payload_type f) @ '' '' @ fm_encoding_name f @ ''/'' @ show_unsigned (fm_clock_rate f) @ ''/'' @
     show_unsigned (fm_num_channels f)"

section \<open>Media clock\<close>

datatype clock_mode = Mode_undefined | Mode_direct

record 'w fraction =
  numerator :: 'w
  denominator :: 'w

record media_clock_source =
  mc_mode :: clock_mode
  mc_offset :: "u64 option"
  mc_rate :: "u32 fraction option"

fun show_clock_mode :: "clock_mode \<Rightarrow> string" where
  "show_clock_mode Mode_undefined = ''undefined''"
| "show_clock_mode Mode_direct = ''direct''"

definition show_media_clock_source :: "media_clock_source \<Rightarrow> string" where
  "show_media_clock_source c =
     ''a=mediaclk:'' @ show_clock_mode (mc_mode c) @
     (case mc_offset c of Some n \<Rightarrow> ''='' @ show_signed n | None \<Rightarrow> []) @
     (case mc_rate c of Some r \<Rightarrow> '' rate='' @ show_signed (numerator r) @ ''/'' @ show_signed (denominator r) | None \<Rightarrow> [])"

definition validate_media_clock_source :: "media_clock_source \<Rightarrow> unit parsed" where
  "validate_media_clock_source c = (if mc_mode c = Mode_undefined then Inl ''media_clock: mode is undefined'' else Inr ())"

text \<open>The mode with its offset (\<open>direct=0\<close>), a text of its own before the first space.\<close>

definition parse_clock_mode :: "string \<Rightarrow> media_clock_source parsed" where
  "parse_clock_mode mode_part =
     try_read (split_char (CHR ''='') False mode_part) ''media_clock: invalid media clock mode'' (\<lambda>mode s.
     check_that (mode = ''direct'') ''media_clock: unsupported media clock mode'' (
     let clock = \<lparr>mc_mode = Mode_direct, mc_offset = None, mc_rate = None\<rparr>
     in if s \<noteq> [] then try_read (read_signed s) ''media_clock: invalid offset'' (\<lambda>n s. Inr (clock\<lparr>mc_offset := Some n\<rparr>))
        else Inr clock))"

definition parse_clock_rate :: "media_clock_source \<Rightarrow> string \<Rightarrow> media_clock_source parsed" where
  "parse_clock_rate clock s =
     (if s = [] then Inr clock
      else try_read (split_char (CHR ''='') False s) ''media_clock: expecting rate'' (\<lambda>rate s.
        check_that (rate = ''rate'') ''media_clock: unexpected token'' (
        try_read (read_signed s) ''media_clock: invalid rate numerator'' (\<lambda>n s.
        try_skip (skip_char (CHR ''/'') s) ''media_clock: invalid rate denominator'' (\<lambda>s.
        try_read (read_signed s) ''media_clock: invalid rate denominator'' (\<lambda>d s.
          Inr (clock\<lparr>mc_rate := Some \<lparr>numerator = n, denominator = d\<rparr>\<rparr>)))))))"

definition parse_media_clock_source :: "string \<Rightarrow> media_clock_source parsed" where
  "parse_media_clock_source line =
     (case split_char (CHR '' '') False line of
        (None, s) \<Rightarrow> parse_clock_rate \<lparr>mc_mode = Mode_undefined, mc_offset = None, mc_rate = None\<rparr> s
      | (Some mode_part, s) \<Rightarrow> (case parse_clock_mode mode_part of Inl e \<Rightarrow> Inl e | Inr clock \<Rightarrow> parse_clock_rate clock s))"

section \<open>Reference clock\<close>

datatype clock_source =
  Source_undefined | Atomic_clock | Gps | Terrestrial_radio | Source_ptp | Source_ntp | Ntp_server | Ntp_pool

datatype ptp_version = Version_undefined | IEEE_1588_2002 | IEEE_1588_2008 | IEEE_802_1AS_2011 | Traceable

record reference_clock =
  rc_source :: clock_source
  rc_ptp_version :: "ptp_version option"
  rc_gmid :: "string option"
  rc_domain :: "u32 option"

definition reference_clock_init :: reference_clock where
  "reference_clock_init = \<lparr>rc_source = Source_undefined, rc_ptp_version = Some Version_undefined, rc_gmid = None, rc_domain = None\<rparr>"

fun show_clock_source :: "clock_source \<Rightarrow> string" where
  "show_clock_source Atomic_clock = ''atomic-clock''"
| "show_clock_source Gps = ''gps''"
| "show_clock_source Terrestrial_radio = ''terrestrial-radio''"
| "show_clock_source Source_ptp = ''ptp''"
| "show_clock_source Source_ntp = ''ntp''"
| "show_clock_source Ntp_server = ''ntp-server''"
| "show_clock_source Ntp_pool = ''ntp-pool''"
| "show_clock_source Source_undefined = ''undefined''"

fun show_ptp_version :: "ptp_version \<Rightarrow> string" where
  "show_ptp_version IEEE_1588_2002 = ''IEEE1588-2002''"
| "show_ptp_version IEEE_1588_2008 = ''IEEE1588-2008''"
| "show_ptp_version IEEE_802_1AS_2011 = ''IEEE802.1AS-2011''"
| "show_ptp_version Traceable = ''traceable''"
| "show_ptp_version Version_undefined = ''undefined''"

text \<open>\<open>value()\<close> of an empty optional throws.\<close>

definition show_reference_clock :: "reference_clock \<Rightarrow> string option" where
  "show_reference_clock c =
     (if rc_source c = Source_ptp
      then do {
        version \<leftarrow> rc_ptp_version c;
        gmid \<leftarrow> rc_gmid c;
        domain \<leftarrow> rc_domain c;
        Some (''a='' @ k_sdp_ts_refclk @ '':'' @ show_clock_source (rc_source c) @ ''='' @ show_ptp_version version @ '':'' @ gmid @
          '':'' @ show_signed domain) }
      else Some (''a='' @ k_sdp_ts_refclk @ '':'' @ show_clock_source (rc_source c)))"

definition ptp_version_from_string :: "string \<Rightarrow> ptp_version option" where
  "ptp_version_from_string s =
     (if s = ''IEEE1588-2002'' then Some IEEE_1588_2002
      else if s = ''IEEE1588-2008'' then Some IEEE_1588_2008
      else if s = ''IEEE802.1AS-2011'' then Some IEEE_802_1AS_2011
      else if s = ''traceable'' then Some Traceable
      else None)"

text \<open>After the version: the grandmaster and the domain, both optional.\<close>

definition parse_gmid :: "ptp_version \<Rightarrow> string \<Rightarrow> reference_clock parsed" where
  "parse_gmid version s =
     (let (gmid, s) = split_string '':'' False s;
          clock = \<lparr>rc_source = Source_ptp, rc_ptp_version = Some version, rc_gmid = gmid, rc_domain = None\<rparr>
      in if s = [] then Inr clock
         else try_read (read_signed s) ''reference_clock: invalid domain'' (\<lambda>domain s. Inr (clock\<lparr>rc_domain := Some domain\<rparr>)))"

definition parse_reference_clock :: "string \<Rightarrow> reference_clock parsed" where
  "parse_reference_clock line =
     try_read (split_string ''='' False line) ''reference_clock: invalid source'' (\<lambda>source s.
     check_that (source = ''ptp'') ''reference_clock: unsupported source'' (
     case split_string '':'' False s of
       (None, s) \<Rightarrow> parse_gmid Version_undefined s
     | (Some name, s) \<Rightarrow>
         (case ptp_version_from_string name of
            None \<Rightarrow> Inl ''reference_clock: unknown ptp version''
          | Some version \<Rightarrow> parse_gmid version s)))"

definition validate_reference_clock :: "reference_clock \<Rightarrow> unit parsed" where
  "validate_reference_clock c =
     (if rc_source c = Source_ptp \<and> rc_ptp_version c = None then Inl ''reference_clock: ptp version is undefined''
      else if rc_source c = Source_ptp \<and> rc_gmid c = None then Inl ''reference_clock: gmid is undefined''
      else if rc_source c = Source_ptp \<and> rc_domain c = None then Inl ''reference_clock: domain is undefined''
      else if rc_source c = Source_undefined then Inl ''reference_clock: source is undefined''
      else Inr ())"

section \<open>Source filter\<close>

definition source_loop_upper_bound :: nat where "source_loop_upper_bound = 100000"

fun parse_sources :: "nat \<Rightarrow> string \<Rightarrow> string list parsed" where
  "parse_sources 0 s = Inr []"
| "parse_sources (Suc n) s =
     (case split_char (CHR '' '') False s of
        (None, t) \<Rightarrow> Inr []
      | (Some src, t) \<Rightarrow>
          if src = [] then Inl ''source_filter: source address is empty''
          else (case parse_sources n t of Inl e \<Rightarrow> Inl e | Inr srcs \<Rightarrow> Inr (src # srcs)))"

definition parse_source_filter :: "string \<Rightarrow> source_filter parsed" where
  "parse_source_filter line =
     try_skip (skip_char (CHR '' '') line) ''source_filter: leading space not found'' (\<lambda>s.
     try_read (split_char (CHR '' '') False s) ''source_filter: filter mode not found'' (\<lambda>filter_mode s.
     check_that (filter_mode = ''incl'' \<or> filter_mode = ''excl'') ''source_filter: invalid filter mode'' (
     try_read (split_char (CHR '' '') False s) ''source_filter: network type not found'' (\<lambda>netw_type s.
     check_that (netw_type = k_sdp_inet) ''source_filter: invalid network type'' (
     try_read (split_char (CHR '' '') False s) ''source_filter: address type not found'' (\<lambda>addr_type s.
     check_that (addr_type = k_sdp_ipv4 \<or> addr_type = k_sdp_ipv6 \<or> addr_type = k_sdp_wildcard) ''source_filter: invalid address type'' (
     try_read (split_char (CHR '' '') False s) ''source_filter: destination address not found'' (\<lambda>dest s.
     check_that (dest \<noteq> []) ''source_filter: destination address is empty'' (
     case parse_sources source_loop_upper_bound s of
       Inl e \<Rightarrow> Inl e
     | Inr srcs \<Rightarrow> Inr
         \<lparr>sf_mode = (if filter_mode = ''incl'' then Filter_include else Filter_exclude), sf_net_type = Netw_internet,
          sf_addr_type = (if addr_type = k_sdp_ipv4 then Addr_ipv4 else if addr_type = k_sdp_ipv6 then Addr_ipv6 else Addr_both),
          sf_dest_address = dest, sf_src_list = srcs\<rparr>)))))))))"

definition show_source_filter :: "source_filter \<Rightarrow> string" where
  "show_source_filter f =
     ''a=source-filter: '' @ show_filter_mode (sf_mode f) @ '' '' @ show_netw_type (sf_net_type f) @ '' '' @
     show_addr_type (sf_addr_type f) @ '' '' @ sf_dest_address f @ concat (map (\<lambda>src. '' '' @ src) (sf_src_list f))"

definition validate_source_filter :: "source_filter \<Rightarrow> unit parsed" where
  "validate_source_filter f =
     (if sf_mode f = Filter_undefined then Inl ''source_filter: mode is undefined''
      else if sf_net_type f = Netw_undefined then Inl ''source_filter: network type is undefined''
      else if sf_addr_type f = Addr_undefined then Inl ''source_filter: address type is undefined''
      else if sf_dest_address f = [] then Inl ''source_filter: destination address is empty''
      else if sf_src_list f = [] then Inl ''source_filter: source list is empty''
      else Inr ())"

section \<open>Lines\<close>

text \<open>
  What the description relies on: a well-formed field prints a line without newline that starts with a fixed prefix, and the parser
  reads the rest of the line back, up to a normal form.
\<close>

locale text_field =
  fixes show_field :: "'a \<Rightarrow> string option" and prefix :: string and parse_field :: "string \<Rightarrow> 'a parsed option"
    and well_formed :: "'a \<Rightarrow> bool" and normal :: "'a \<Rightarrow> 'a"
  assumes shown: "well_formed x \<Longrightarrow> \<exists>b. show_field x = Some (prefix @ b) \<and> b \<noteq> [] \<and> newline \<notin> set (prefix @ b) \<and>
      parse_field b = Some (Inr (normal x))"
begin

lemma line_read_back:
  assumes "well_formed x"
  obtains b where "show_field x = Some (prefix @ b)" and "b \<noteq> []" and "newline \<notin> set (prefix @ b)"
    and "parse_field b = Some (Inr (normal x))"
    and "\<And>rest. read_line (prefix @ b @ k_sdp_crlf @ rest) = (Some (prefix @ b), rest)"
proof -
  from shown [OF assms] obtain b where "show_field x = Some (prefix @ b)" "b \<noteq> []" "newline \<notin> set (prefix @ b)"
    "parse_field b = Some (Inr (normal x))" by blast
  moreover from this(3) have "read_line (prefix @ b @ k_sdp_crlf @ rest) = (Some (prefix @ b), rest)" for rest
    using read_line_crlf [of "prefix @ b" rest] by (simp add: k_sdp_crlf_def)
  ultimately show ?thesis using that by blast
qed

lemma shown_defined: "well_formed x \<Longrightarrow> show_field x \<noteq> None"
  using shown by blast

end

text \<open>A text of printable parts: what \<open>show_nat\<close> and the names contribute contains no newline, space or delimiter.\<close>

lemma show_int_chars: "c \<in> set (show_int i) \<Longrightarrow> is_digit c \<or> c = CHR ''-''"
  by (auto simp: show_int_def split: if_splits dest: show_nat_digits)

lemma show_number_plain [simp]:
  "newline \<notin> set (show_signed w)" "newline \<notin> set (show_unsigned w)" "CHR '' '' \<notin> set (show_signed w)"
  "CHR '' '' \<notin> set (show_unsigned w)" "CHR ''/'' \<notin> set (show_unsigned w)"
  by (auto simp: show_signed_def show_unsigned_def is_digit_def dest!: show_int_chars show_nat_digits)

lemma show_number_not_empty [simp]: "show_signed w \<noteq> []" "show_unsigned w \<noteq> []"
  by (simp_all add: show_signed_def show_unsigned_def show_int_head show_nat_not_empty)

lemma sdp_words_plain [simp]:
  "newline \<notin> set k_sdp_inet" "newline \<notin> set k_sdp_ipv4" "newline \<notin> set k_sdp_ipv6" "newline \<notin> set k_sdp_wildcard"
  "newline \<notin> set k_sdp_ts_refclk" "CHR '' '' \<notin> set k_sdp_inet" "CHR '' '' \<notin> set k_sdp_ipv4" "CHR '' '' \<notin> set k_sdp_ipv6"
  "CHR '' '' \<notin> set k_sdp_wildcard" "k_sdp_ipv4 \<noteq> k_sdp_ipv6" "k_sdp_ipv6 \<noteq> k_sdp_ipv4" "k_sdp_wildcard \<noteq> k_sdp_ipv4"
  "k_sdp_wildcard \<noteq> k_sdp_ipv6"
  by (simp_all add: sdp_constants)

lemma netw_type_plain [simp]: "newline \<notin> set (show_netw_type n)" by (cases n) simp_all
lemma addr_type_plain [simp]: "newline \<notin> set (show_addr_type a)" "CHR '' '' \<notin> set (show_addr_type a)" by (cases a; simp)+
lemma media_direction_plain [simp]: "newline \<notin> set (show_media_direction d)" by (cases d) (simp_all add: sdp_constants)
lemma filter_mode_plain [simp]: "newline \<notin> set (show_filter_mode f)" "CHR '' '' \<notin> set (show_filter_mode f)" by (cases f; simp)+
lemma ptp_version_plain [simp]: "newline \<notin> set (show_ptp_version v)" "CHR '':'' \<notin> set (show_ptp_version v)" by (cases v; simp)+

lemma filter_mode_read:
  assumes "m \<noteq> Filter_undefined"
  shows "show_filter_mode m = ''incl'' \<or> show_filter_mode m = ''excl''"
    and "(if show_filter_mode m = ''incl'' then Filter_include else Filter_exclude) = m"
  using assms by (cases m; simp)+

lemma addr_type_read:
  assumes "a \<noteq> Addr_undefined"
  shows "show_addr_type a = k_sdp_ipv4 \<or> show_addr_type a = k_sdp_ipv6 \<or> show_addr_type a = k_sdp_wildcard"
    and "(if show_addr_type a = k_sdp_ipv4 then Addr_ipv4 else if show_addr_type a = k_sdp_ipv6 then Addr_ipv6 else Addr_both) = a"
  using assms by (cases a; simp)+

lemma read_number_alone [parse_simps]:
  "read_signed (show_signed w) = (Some w, [])" "read_unsigned (show_unsigned w) = (Some w, [])"
  using read_signed_show [of "[]" w] read_unsigned_show [of "[]" w] by (simp_all add: no_digit_simps)

lemma no_digit_delimiters [simp]: "\<not> is_digit (CHR '' '')" "\<not> is_digit (CHR ''/'')" "\<not> is_digit (CHR '':'')" "\<not> is_digit (CHR ''='')"
  by (simp_all add: is_digit_def)

lemma split_char_first [parse_simps]: "split_char c False (c # t) = (Some [], t)"
  using split_char_here [of c "[]" t] by simp

lemma skip_string_eval [parse_simps]: "skip_string [a, b] (a # b # t) = (True, t)"
  by (simp add: skip_string_def starts_with_def)

text \<open>Words between spaces.\<close>

definition no_char :: "char \<Rightarrow> string \<Rightarrow> bool" where
  "no_char c s \<longleftrightarrow> c \<notin> set s \<and> newline \<notin> set s"

lemma split_all_empty [simp]: "split_all c [] = []"
  by (subst split_all.simps) (simp add: parse_simps)

lemma split_all_join:
  assumes "\<And>t. t \<in> set ts \<Longrightarrow> t \<noteq> [] \<and> c \<notin> set t"
  shows "split_all c (join [c] ts) = ts"
  using assms
proof (induction ts)
  case (Cons t ts)
  then have t: "t \<noteq> []" "c \<notin> set t" by simp_all
  show ?case
  proof (cases ts)
    case Nil
    then show ?thesis using t by (subst split_all.simps) (simp add: parse_simps)
  next
    case (Cons u us)
    then have "join [c] (t # ts) = t @ c # join [c] ts" by simp
    then show ?thesis using t Cons.IH Cons.prems by (subst split_all.simps) (simp add: parse_simps)
  qed
qed simp

lemma join_plain: "(\<And>t. t \<in> set ts \<Longrightarrow> x \<notin> set t) \<Longrightarrow> x \<notin> set sep \<Longrightarrow> x \<notin> set (join sep ts)"
  by (induction sep ts rule: join.induct) auto

lemma parse_sources_words:
  assumes "\<And>w. w \<in> set ws \<Longrightarrow> w \<noteq> [] \<and> CHR '' '' \<notin> set w" and "length ws \<le> n"
  shows "parse_sources n (join '' '' ws) = Inr ws"
  using assms
proof (induction ws arbitrary: n)
  case Nil
  then show ?case by (cases n) (simp_all add: parse_simps)
next
  case (Cons w ws)
  then obtain m where n: "n = Suc m" and m: "length ws \<le> m" by (cases n) simp_all
  have w: "w \<noteq> []" "CHR '' '' \<notin> set w" using Cons.prems by simp_all
  have IH: "parse_sources m (join '' '' ws) = Inr ws" using Cons m by simp
  show ?case
  proof (cases ws)
    case Nil
    then show ?thesis using w IH by (simp add: n parse_simps)
  next
    case (Cons u us)
    then have "join '' '' (w # ws) = w @ CHR '' '' # join '' '' ws" by simp
    then show ?thesis using w IH by (simp add: n parse_simps)
  qed
qed

lemma concat_space_join: "ws \<noteq> [] \<Longrightarrow> concat (map (\<lambda>w. '' '' @ w) ws) = '' '' @ join '' '' ws"
proof (induction ws)
  case (Cons w ws)
  then show ?case by (cases ws) simp_all
qed simp

section \<open>What is printed is read back\<close>

definition wf_group :: "sdp_group \<Rightarrow> bool" where
  "wf_group g \<longleftrightarrow> grp_type g = Group_dup \<and> (\<forall>t \<in> set (grp_tags g). t \<noteq> [] \<and> no_char (CHR '' '') t)"

interpretation group_field: text_field "\<lambda>g. Some (show_group g)" "''a=group:''" parse_group wf_group id
proof
  fix g :: sdp_group
  assume "wf_group g"
  then have d: "grp_type g = Group_dup" and t: "\<And>t. t \<in> set (grp_tags g) \<Longrightarrow> t \<noteq> [] \<and> CHR '' '' \<notin> set t \<and> newline \<notin> set t"
    by (auto simp: wf_group_def no_char_def)
  have "split_all (CHR '' '') (join '' '' (grp_tags g)) = grp_tags g" using t by (intro split_all_join) blast
  moreover have "newline \<notin> set (join '' '' (grp_tags g))" using t by (intro join_plain) auto
  moreover have "g = \<lparr>grp_type = Group_dup, grp_tags = grp_tags g\<rparr>" using d by simp
  ultimately have "parse_group (''DUP '' @ join '' '' (grp_tags g)) = Some (Inr (id g))"
    using read_until_char_here [of "CHR '' ''" "''DUP''"] by (simp add: parse_group_def)
  then show "\<exists>b. Some (show_group g) = Some (''a=group:'' @ b) \<and> b \<noteq> [] \<and> newline \<notin> set (''a=group:'' @ b) \<and> parse_group b = Some (Inr (id g))"
    using \<open>newline \<notin> set (join '' '' (grp_tags g))\<close> by (intro exI [of _ "''DUP '' @ join '' '' (grp_tags g)"]) (simp add: show_group_def)
qed

interpretation time_field: text_field "\<lambda>f. Some (show_time_active f)" "[]" "\<lambda>s. Some (parse_time_active s)" "\<lambda>f. True" id
  by unfold_locales (simp add: show_time_active_def parse_time_active_def parse_simps)

definition wf_clock_domain :: "ravenna_clock_domain \<Rightarrow> bool" where
  "wf_clock_domain d \<longleftrightarrow> cd_source d = Sync_ptp_v2"

lemma split_ptpv2: "split_char (CHR '' '') False (''PTPv2 '' @ t) = (Some ''PTPv2'', t)"
  using split_char_here [of "CHR '' ''" "''PTPv2''" t] by simp

interpretation clock_domain_field: text_field "\<lambda>d. Some (show_ravenna_clock_domain d)" "''a=clock-domain:''"
  "\<lambda>s. Some (parse_ravenna_clock_domain s)" wf_clock_domain id
  by unfold_locales
    (use split_ptpv2 in \<open>simp add: show_ravenna_clock_domain_def parse_ravenna_clock_domain_def wf_clock_domain_def parse_simps\<close>)

definition wf_connection :: "connection_info_field \<Rightarrow> bool" where
  "wf_connection f \<longleftrightarrow> ci_network_type f = Netw_internet \<and> no_char (CHR ''/'') (ci_address f) \<and>
     (case ci_address_type f of
        Addr_ipv4 \<Rightarrow> ci_ttl f = None \<longrightarrow> ci_number_of_addresses f = None
      | Addr_ipv6 \<Rightarrow> ci_ttl f = None
      | _ \<Rightarrow> False)"

lemma split_slash: "CHR ''/'' \<notin> set s \<Longrightarrow> split_char (CHR ''/'') False s = (if s = [] then None else Some s, [])"
  by (simp add: parse_simps)

interpretation connection_field: text_field "\<lambda>f. Some (show_connection_info f)" "[]" "\<lambda>s. Some (parse_connection_info s)" wf_connection id
proof
  fix f :: connection_info_field
  assume wf: "wf_connection f"
  obtain n t a l k where f: "f = \<lparr>ci_network_type = n, ci_address_type = t, ci_address = a, ci_ttl = l, ci_number_of_addresses = k\<rparr>"
    by (cases f)
  have "parse_connection_info (show_connection_info f) = Inr f"
    using wf unfolding f
    by (cases t; cases l; cases k)
      (auto simp: wf_connection_def no_char_def show_connection_info_def parse_connection_info_def parse_address_numbers_def parse_simps
        split_slash Let_def)
  moreover have "newline \<notin> set (show_connection_info f)"
    using wf by (auto simp: show_connection_info_def wf_connection_def no_char_def split: option.splits)
  ultimately show "\<exists>b. Some (show_connection_info f) = Some ([] @ b) \<and> b \<noteq> [] \<and> newline \<notin> set ([] @ b) \<and>
      Some (parse_connection_info b) = Some (Inr (id f))"
    by (intro exI [of _ "show_connection_info f"]) (simp add: show_connection_info_def)
qed

text \<open>An empty user name is written as \<open>-\<close> and read back as that.\<close>

definition wf_origin :: "origin_field \<Rightarrow> bool" where
  "wf_origin f \<longleftrightarrow> no_char (CHR '' '') (or_username f) \<and> no_char (CHR '' '') (or_session_id f) \<and> or_network_type f = Netw_internet \<and>
     (or_address_type f = Addr_ipv4 \<or> or_address_type f = Addr_ipv6) \<and>
     or_unicast_address f \<noteq> [] \<and> no_char (CHR '' '') (or_unicast_address f)"

definition normal_origin :: "origin_field \<Rightarrow> origin_field" where
  "normal_origin f = f\<lparr>or_username := if or_username f = [] then ''-'' else or_username f\<rparr>"

lemma split_dash: "split_char (CHR '' '') False (CHR ''-'' # CHR '' '' # t) = (Some ''-'', t)"
  using split_char_here [of "CHR '' ''" "''-''" t] by simp

interpretation origin_field: text_field "\<lambda>f. Some (show_origin f)" "[]" "\<lambda>s. Some (parse_origin s)" wf_origin normal_origin
proof
  fix f :: origin_field
  assume wf: "wf_origin f"
  obtain u i v n t a where f: "f = \<lparr>or_username = u, or_session_id = i, or_session_version = v, or_network_type = n,
      or_address_type = t, or_unicast_address = a\<rparr>"
    by (cases f)
  have "parse_origin (show_origin f) = Inr (normal_origin f)"
    using wf unfolding f
    by (cases t; cases "u = []")
      (auto simp: wf_origin_def no_char_def show_origin_def parse_origin_def normal_origin_def parse_simps split_dash Let_def)
  moreover have "newline \<notin> set (show_origin f)"
    using wf by (auto simp: show_origin_def wf_origin_def no_char_def)
  ultimately show "\<exists>b. Some (show_origin f) = Some ([] @ b) \<and> b \<noteq> [] \<and> newline \<notin> set ([] @ b) \<and>
      Some (parse_origin b) = Some (Inr (normal_origin f))"
    by (intro exI [of _ "show_origin f"]) (simp add: show_origin_def)
qed

definition wf_format :: "sdp_format \<Rightarrow> bool" where
  "wf_format f \<longleftrightarrow> no_char (CHR ''/'') (fm_encoding_name f)"

lemma parse_show_format: "wf_format f \<Longrightarrow> parse_format (show_format f) = Inr f"
  by (simp add: wf_format_def no_char_def show_format_def parse_format_def parse_simps Let_def)

interpretation format_field: text_field "\<lambda>f. Some (''a=rtpmap:'' @ show_format f)" "''a=rtpmap:''" "\<lambda>s. Some (parse_format s)" wf_format id
proof
  fix f :: sdp_format
  assume "wf_format f"
  then show "\<exists>b. Some (''a=rtpmap:'' @ show_format f) = Some (''a=rtpmap:'' @ b) \<and> b \<noteq> [] \<and> newline \<notin> set (''a=rtpmap:'' @ b) \<and>
      Some (parse_format b) = Some (Inr (id f))"
    by (intro exI [of _ "show_format f"]) (simp add: parse_show_format, simp add: show_format_def wf_format_def no_char_def)
qed

definition wf_media_clock :: "media_clock_source \<Rightarrow> bool" where
  "wf_media_clock c \<longleftrightarrow> mc_mode c = Mode_direct"

lemma split_direct:
  "split_char (CHR ''='') False ''direct'' = (Some ''direct'', [])"
  "split_char (CHR ''='') False (''direct='' @ t) = (Some ''direct'', t)"
  "split_char (CHR '' '') False ''direct'' = (Some ''direct'', [])"
  "split_char (CHR ''='') False (''rate='' @ t) = (Some ''rate'', t)"
  "split_char (CHR '' '') False (''direct '' @ t) = (Some ''direct'', t)"
  using split_char_last [of "CHR ''=''" "''direct''"] split_char_here [of "CHR ''=''" "''direct''" t]
    split_char_last [of "CHR '' ''" "''direct''"] split_char_here [of "CHR ''=''" "''rate''" t]
    split_char_here [of "CHR '' ''" "''direct''" t] by simp_all

lemma split_direct_offset:
  "split_char (CHR '' '') False (''direct='' @ show_signed w) = (Some (''direct='' @ show_signed w), [])"
  "split_char (CHR '' '') False (''direct='' @ show_signed w @ CHR '' '' # t) = (Some (''direct='' @ show_signed w), t)"
  using split_char_last [of "CHR '' ''" "''direct='' @ show_signed w"]
    split_char_here [of "CHR '' ''" "''direct='' @ show_signed w" t] by simp_all

interpretation media_clock_field: text_field "\<lambda>c. Some (show_media_clock_source c)" "''a=mediaclk:''"
  "\<lambda>s. Some (parse_media_clock_source s)" wf_media_clock id
proof
  fix c :: media_clock_source
  assume wf: "wf_media_clock c"
  obtain m n r where c: "c = \<lparr>mc_mode = m, mc_offset = n, mc_rate = r\<rparr>" by (cases c)
  let ?b = "drop 11 (show_media_clock_source c)"
  have "parse_media_clock_source ?b = Inr c"
    using wf unfolding c
    by (cases n; cases r)
      (auto simp: split_direct [simplified] split_direct_offset [simplified] wf_media_clock_def show_media_clock_source_def parse_media_clock_source_def parse_clock_mode_def parse_clock_rate_def
        parse_simps Let_def)
  moreover have "newline \<notin> set (show_media_clock_source c)" "show_media_clock_source c = ''a=mediaclk:'' @ ?b" "?b \<noteq> []"
    using wf by (auto simp: show_media_clock_source_def wf_media_clock_def split: option.splits)
  ultimately show "\<exists>b. Some (show_media_clock_source c) = Some (''a=mediaclk:'' @ b) \<and> b \<noteq> [] \<and> newline \<notin> set (''a=mediaclk:'' @ b) \<and>
      Some (parse_media_clock_source b) = Some (Inr (id c))"
    by (intro exI [of _ ?b]) simp
qed

definition wf_reference_clock :: "reference_clock \<Rightarrow> bool" where
  "wf_reference_clock c \<longleftrightarrow> rc_source c = Source_ptp \<and>
     (case (rc_ptp_version c, rc_gmid c, rc_domain c) of
        (Some v, Some g, Some d) \<Rightarrow> v \<noteq> Version_undefined \<and> no_char (CHR '':'') g
      | _ \<Rightarrow> False)"

lemma ptp_version_roundtrip: "v \<noteq> Version_undefined \<Longrightarrow> ptp_version_from_string (show_ptp_version v) = Some v"
  by (cases v) (simp_all add: ptp_version_from_string_def)

lemma split_ptp: "split_string ''='' False (''ptp='' @ t) = (Some ''ptp'', t)"
  using split_char_here [of "CHR ''=''" "''ptp''" t] by (simp add: split_string_char)

interpretation reference_clock_field: text_field show_reference_clock "''a=ts-refclk:''" "\<lambda>s. Some (parse_reference_clock s)"
  wf_reference_clock id
proof
  fix c :: reference_clock
  assume "wf_reference_clock c"
  then obtain v g d where c: "c = \<lparr>rc_source = Source_ptp, rc_ptp_version = Some v, rc_gmid = Some g, rc_domain = Some d\<rparr>"
    and v: "v \<noteq> Version_undefined" and g: "CHR '':'' \<notin> set g" "newline \<notin> set g"
    by (cases c) (auto simp: wf_reference_clock_def no_char_def split: option.splits)
  let ?t = "show_ptp_version v @ '':'' @ g @ '':'' @ show_signed d"
  have "parse_reference_clock (''ptp='' @ ?t) = Inr c"
    unfolding parse_reference_clock_def split_ptp
    using v g ptp_version_roundtrip [OF v]
    by (simp add: split_string_char parse_gmid_def parse_simps Let_def c)
  moreover have "show_reference_clock c = Some (''a=ts-refclk:'' @ ''ptp='' @ ?t)"
    by (simp add: c show_reference_clock_def k_sdp_ts_refclk_def)
  moreover have "newline \<notin> set (''a=ts-refclk:'' @ ''ptp='' @ ?t)" using g by simp
  ultimately show "\<exists>b. show_reference_clock c = Some (''a=ts-refclk:'' @ b) \<and> b \<noteq> [] \<and> newline \<notin> set (''a=ts-refclk:'' @ b) \<and>
      Some (parse_reference_clock b) = Some (Inr (id c))"
    by (intro exI [of _ "''ptp='' @ ?t"]) simp
qed

definition wf_source_filter :: "source_filter \<Rightarrow> bool" where
  "wf_source_filter f \<longleftrightarrow> sf_mode f \<noteq> Filter_undefined \<and> sf_net_type f = Netw_internet \<and> sf_addr_type f \<noteq> Addr_undefined \<and>
     sf_dest_address f \<noteq> [] \<and> no_char (CHR '' '') (sf_dest_address f) \<and>
     (\<forall>s \<in> set (sf_src_list f). s \<noteq> [] \<and> no_char (CHR '' '') s) \<and> length (sf_src_list f) \<le> source_loop_upper_bound"

lemma parse_show_source_filter:
  assumes "wf_source_filter f"
  shows "parse_source_filter (drop 16 (show_source_filter f)) = Inr f"
proof -
  obtain m n t d ss where f: "f = \<lparr>sf_mode = m, sf_net_type = n, sf_addr_type = t, sf_dest_address = d, sf_src_list = ss\<rparr>"
    by (cases f)
  have ss: "parse_sources source_loop_upper_bound (join '' '' ss) = Inr ss"
    using assms by (intro parse_sources_words) (auto simp: wf_source_filter_def no_char_def f)
  have d: "d \<noteq> []" "CHR '' '' \<notin> set d" and n: "n = Netw_internet" using assms by (auto simp: wf_source_filter_def no_char_def f)
  obtain w where w: "w = concat (map (\<lambda>src. '' '' @ src) ss)" by blast
  have rest: "split_char (CHR '' '') False (d @ w) = (Some d, join '' '' ss)"
  proof (cases "ss = []")
    case False
    then show ?thesis unfolding w concat_space_join [OF False] using d by (simp add: parse_simps)
  qed (use d in \<open>simp add: w parse_simps\<close>)
  have drop: "drop 16 (show_source_filter f) = CHR '' '' # show_filter_mode m @ CHR '' '' # k_sdp_inet @ CHR '' '' # show_addr_type t @
      CHR '' '' # d @ w"
    by (simp add: show_source_filter_def f n w)
  have m: "m \<noteq> Filter_undefined" and t: "t \<noteq> Addr_undefined" using assms by (simp_all add: wf_source_filter_def f)
  show ?thesis
    unfolding drop parse_source_filter_def
    by (simp add: parse_simps rest ss d filter_mode_read [OF m] addr_type_read [OF t] f n split del: if_split)
qed

interpretation source_filter_field: text_field "\<lambda>f. Some (show_source_filter f)" "''a=source-filter:''"
  "\<lambda>s. Some (parse_source_filter s)" wf_source_filter id
proof
  fix f :: source_filter
  assume wf: "wf_source_filter f"
  have "show_source_filter f = ''a=source-filter:'' @ drop 16 (show_source_filter f)" "drop 16 (show_source_filter f) \<noteq> []"
    by (simp_all add: show_source_filter_def)
  moreover have "newline \<notin> set (show_source_filter f)"
    using wf by (auto simp: show_source_filter_def wf_source_filter_def no_char_def)
  ultimately show "\<exists>b. Some (show_source_filter f) = Some (''a=source-filter:'' @ b) \<and> b \<noteq> [] \<and>
      newline \<notin> set (''a=source-filter:'' @ b) \<and> Some (parse_source_filter b) = Some (Inr (id f))"
    using parse_show_source_filter [OF wf] by (intro exI [of _ "drop 16 (show_source_filter f)"]) simp
qed

end
