(* ===== verification/Float_Text.thy ===== *)
theory Float_Text
  imports Complex_Main String_Parser
begin

text \<open>
  Floating point numbers as text: \<open>std::stof\<close> (core/string.hpp, \<open>string_to_float\<close>) in the C locale and the format
  \<open>{:.3g}\<close> of fmt. A finite value is an exact rational; rounding to the nearest \<open>float\<close> is not modelled, running out of the range of
  \<open>float\<close> is. Shown: a number of three significant digits is read back as it is printed.
\<close>

datatype float_value = Finite rat | Infinite bool | Not_a_number

section \<open>Reading\<close>

definition is_space :: "char \<Rightarrow> bool" where
  "is_space c \<longleftrightarrow> c = CHR '' '' \<or> 9 \<le> (of_char c :: nat) \<and> of_char c \<le> (13 :: nat)"

definition to_lower :: "char \<Rightarrow> char" where
  "to_lower c = (if 65 \<le> (of_char c :: nat) \<and> of_char c \<le> (90 :: nat) then char_of (of_char c + (32 :: nat)) else c)"

definition is_hex_digit :: "char \<Rightarrow> bool" where
  "is_hex_digit c \<longleftrightarrow> is_digit c \<or> 97 \<le> (of_char (to_lower c) :: nat) \<and> of_char (to_lower c) \<le> (102 :: nat)"

definition hex_digit_value :: "char \<Rightarrow> nat" where
  "hex_digit_value c = (if is_digit c then digit_value c else of_char (to_lower c) - 87)"

definition number_in_base :: "nat \<Rightarrow> (char \<Rightarrow> nat) \<Rightarrow> string \<Rightarrow> nat" where
  "number_in_base b f ds = foldl (\<lambda>n d. n * b + f d) 0 ds"

definition rat_power :: "rat \<Rightarrow> int \<Rightarrow> rat" where
  "rat_power b e = (if 0 \<le> e then b ^ nat e else 1 / b ^ nat (- e))"

text \<open>The exponent after the letter \<open>e\<close> or \<open>p\<close>; 0 when there is none.\<close>

definition exponent_part :: "char \<Rightarrow> string \<Rightarrow> int" where
  "exponent_part letter s =
     (if s \<noteq> [] \<and> to_lower (hd s) = letter
      then let t = tl s;
               neg = t \<noteq> [] \<and> hd t = CHR ''-'';
               u = (if t \<noteq> [] \<and> (hd t = CHR ''-'' \<or> hd t = CHR ''+'') then tl t else t);
               n = int (number_of_digits (takeWhile is_digit u))
           in if neg then - n else n
      else 0)"

definition read_number :: "(char \<Rightarrow> bool) \<Rightarrow> (char \<Rightarrow> nat) \<Rightarrow> nat \<Rightarrow> char \<Rightarrow> rat \<Rightarrow> string \<Rightarrow> rat option" where
  "read_number digit val b letter eb s =
     (let whole = takeWhile digit s;
          r = dropWhile digit s;
          point = r \<noteq> [] \<and> hd r = CHR ''.'';
          part = (if point then takeWhile digit (tl r) else []);
          r' = (if point then dropWhile digit (tl r) else r)
      in if whole = [] \<and> part = [] then None
         else Some (of_nat (number_in_base b val (whole @ part)) / of_nat b ^ length part * rat_power eb (exponent_part letter r')))"

definition read_hex :: "string \<Rightarrow> rat option" where
  "read_hex s = (if starts_with ''0x'' (map to_lower s)
     then read_number is_hex_digit hex_digit_value 16 (CHR ''p'') 2 (drop 2 s) else None)"

definition strtof :: "string \<Rightarrow> float_value option" where
  "strtof s =
     (let t = dropWhile is_space s;
          neg = t \<noteq> [] \<and> hd t = CHR ''-'';
          u = (if t \<noteq> [] \<and> (hd t = CHR ''-'' \<or> hd t = CHR ''+'') then tl t else t);
          signed = (\<lambda>x. Finite (if neg then - x else x))
      in if starts_with ''inf'' (map to_lower u) then Some (Infinite neg)
         else if starts_with ''nan'' (map to_lower u) then Some Not_a_number
         else case read_hex u of
           Some x \<Rightarrow> Some (signed x)
         | None \<Rightarrow> map_option signed (read_number is_digit digit_value 10 (CHR ''e'') 10 u))"

text \<open>
  \<open>std::stof\<close> throws when there is no number and when it is out of the range of \<open>float\<close>; \<open>string_to_float\<close> turns the exception
  into an empty optional. The argument is a C string, so it ends at the first NUL.
\<close>

definition float_in_range :: "rat \<Rightarrow> bool" where
  "float_in_range x \<longleftrightarrow> x = 0 \<or> 1 / 2 ^ 126 \<le> \<bar>x\<bar> \<and> \<bar>x\<bar> < (2 - 1 / 2 ^ 24) * 2 ^ 127"

definition string_to_float :: "string \<Rightarrow> float_value option" where
  "string_to_float s =
     (case strtof (takeWhile (\<lambda>c. c \<noteq> CHR 0x00) s) of
        Some (Finite x) \<Rightarrow> if float_in_range x then Some (Finite x) else None
      | v \<Rightarrow> v)"

text \<open>\<open>v < 0\<close>, false for NaN.\<close>

definition float_negative :: "float_value \<Rightarrow> bool" where
  "float_negative v = (case v of Finite x \<Rightarrow> x < 0 | Infinite neg \<Rightarrow> neg | Not_a_number \<Rightarrow> False)"

section \<open>Printing\<close>

fun pad_digits :: "nat \<Rightarrow> nat \<Rightarrow> string" where
  "pad_digits 0 n = []"
| "pad_digits (Suc k) n = pad_digits k (n div 10) @ [char_of (48 + n mod 10)]"

definition strip_zeros :: "string \<Rightarrow> string" where
  "strip_zeros s = rev (dropWhile (\<lambda>c. c = CHR ''0'') (rev s))"

definition with_fraction :: "string \<Rightarrow> string \<Rightarrow> string" where
  "with_fraction whole part = (if part = [] then whole else whole @ CHR ''.'' # part)"

definition round_half_even :: "rat \<Rightarrow> nat" where
  "round_half_even x =
     (let n = nat \<lfloor>x\<rfloor>; d = x - of_nat n
      in if d < 1 / 2 \<or> d = 1 / 2 \<and> even n then n else n + 1)"

text \<open>The decimal exponent of a positive \<open>float\<close>, which lies between \<open>2 ^ - 149\<close> and \<open>2 ^ 128\<close>.\<close>

definition decimal_exponent :: "rat \<Rightarrow> int" where
  "decimal_exponent x = (case find (\<lambda>e. rat_power 10 e \<le> x) (rev [-45..38]) of Some e \<Rightarrow> e | None \<Rightarrow> -45)"

definition show_positive :: "rat \<Rightarrow> string" where
  "show_positive x =
     (let e0 = decimal_exponent x;
          m0 = round_half_even (x / rat_power 10 (e0 - 2));
          m = (if m0 = 1000 then 100 else m0);
          e = (if m0 = 1000 then e0 + 1 else e0)
      in if -4 \<le> e \<and> e < 3
         then let k = nat (2 - e) in with_fraction (show_nat (m div 10 ^ k)) (strip_zeros (pad_digits k (m mod 10 ^ k)))
         else with_fraction (show_nat (m div 100)) (strip_zeros (pad_digits 2 (m mod 100))) @
           ''e'' @ (if e < 0 then ''-'' else ''+'') @ (if \<bar>e\<bar> < 10 then ''0'' else []) @ show_nat (nat \<bar>e\<bar>))"

definition show_3g :: "float_value \<Rightarrow> string" where
  "show_3g v =
     (case v of
        Finite x \<Rightarrow> if x = 0 then ''0'' else if x < 0 then ''-'' @ show_positive (- x) else show_positive x
      | Infinite neg \<Rightarrow> if neg then ''-inf'' else ''inf''
      | Not_a_number \<Rightarrow> ''nan'')"

section \<open>Lemmas on digits\<close>

lemma number_append: "number_of_digits (a @ b) = number_of_digits a * 10 ^ length b + number_of_digits b"
proof -
  have "foldl (\<lambda>n d. n * 10 + digit_value d) z b = z * 10 ^ length b + foldl (\<lambda>n d. n * 10 + digit_value d) 0 b" for z
  proof (induction b rule: rev_induct)
    case (snoc x b)
    have "(z * 10 ^ k + F) * 10 + d = z * 10 ^ Suc k + (F * 10 + d)" for F d k :: nat by (simp add: algebra_simps)
    then show ?case unfolding foldl_append snoc foldl.simps length_append_singleton .
  qed simp
  then show ?thesis unfolding number_of_digits_def foldl_append by blast
qed

lemma number_in_base_10: "number_in_base 10 digit_value ds = number_of_digits ds"
  by (simp add: number_in_base_def number_of_digits_def)

lemma length_pad_digits [simp]: "length (pad_digits k n) = k"
  by (induction k arbitrary: n) simp_all

lemma pad_digits_digits: "c \<in> set (pad_digits k n) \<Longrightarrow> is_digit c"
  by (induction k arbitrary: n) (auto simp: digit_of)

lemma number_pad_digits: "n < 10 ^ k \<Longrightarrow> number_of_digits (pad_digits k n) = n"
proof (induction k arbitrary: n)
  case (Suc k)
  then have "n div 10 < 10 ^ k" by (simp add: less_mult_imp_div_less)
  with Suc.IH [OF this] show ?case by (simp add: number_append) (simp add: number_of_digits_def digit_of)
qed (simp add: number_of_digits_def)

lemma strip_zeros_append: "s = strip_zeros s @ replicate (length s - length (strip_zeros s)) (CHR ''0'')"
proof (induction s rule: rev_induct)
  case (snoc x s)
  show ?case
  proof (cases "x = CHR ''0''")
    case True
    then have e: "strip_zeros (s @ [x]) = strip_zeros s" by (simp add: strip_zeros_def)
    have "length (strip_zeros s) \<le> length s" by (metis snoc append_eq_conv_conj length_append le_add1)
    then have "replicate (length (s @ [x]) - length (strip_zeros s)) (CHR ''0'') =
        replicate (length s - length (strip_zeros s)) (CHR ''0'') @ [x]"
      using True by (simp add: Suc_diff_le replicate_append_same)
    then show ?thesis unfolding e using snoc by (metis append.assoc)
  qed (simp add: strip_zeros_def)
qed (simp add: strip_zeros_def)

lemma number_replicate_0: "number_of_digits (replicate n (CHR ''0'')) = 0"
  by (induction n) (simp_all add: number_of_digits_def digit_value_def)

lemma strip_zeros_digits: "c \<in> set (strip_zeros s) \<Longrightarrow> c \<in> set s"
  by (subst strip_zeros_append) simp

lemma strip_zeros_fraction:
  "rat_of_nat (number_of_digits (strip_zeros s)) / 10 ^ length (strip_zeros s) = of_nat (number_of_digits s) / 10 ^ length s"
proof -
  let ?z = "length s - length (strip_zeros s)"
  have l: "length s = length (strip_zeros s) + ?z"
    using arg_cong [OF strip_zeros_append [of s], of length] by simp
  have "number_of_digits s = number_of_digits (strip_zeros s) * 10 ^ ?z"
    using arg_cong [OF strip_zeros_append [of s], of number_of_digits] by (simp add: number_append number_replicate_0)
  then have "rat_of_nat (number_of_digits s) = of_nat (number_of_digits (strip_zeros s)) * 10 ^ ?z" by simp
  moreover have "(10 :: rat) ^ length s = 10 ^ length (strip_zeros s) * 10 ^ ?z" using l by (metis power_add)
  ultimately show ?thesis by simp
qed

section \<open>Reading what is printed\<close>

definition space_or_end :: "string \<Rightarrow> bool" where
  "space_or_end t \<longleftrightarrow> t = [] \<or> is_space (hd t)"

lemma space_facts:
  assumes "is_space c"
  shows "\<not> is_digit c" and "c \<noteq> CHR ''.''" and "to_lower c \<noteq> CHR ''e''" and "to_lower c \<noteq> CHR ''x''"
  using assms by (auto simp: is_space_def is_digit_def to_lower_def)

lemma digit_facts:
  assumes "is_digit c"
  shows "\<not> is_space c" and "to_lower c = c" and "c \<noteq> CHR ''-''" and "c \<noteq> CHR ''+''" and "c \<noteq> CHR ''i''" and "c \<noteq> CHR ''n''"
    and "c \<noteq> CHR ''x''" and "c \<noteq> CHR 0x00"
  using assms by (auto simp: is_space_def is_digit_def to_lower_def)

lemma takeWhile_digits: "(\<And>c. c \<in> set f \<Longrightarrow> is_digit c) \<Longrightarrow> no_digit t \<Longrightarrow> takeWhile is_digit (f @ t) = f \<and> dropWhile is_digit (f @ t) = t"
  by (cases t) (auto simp: no_digit_def takeWhile_append dropWhile_append)

lemma show_nat_alone [simp]: "takeWhile is_digit (show_nat n) = show_nat n" "dropWhile is_digit (show_nat n) = []"
  using split_digits [OF no_digit_simps(1), of n] by (simp_all only: append_Nil2)

lemma read_number_printed:
  assumes f: "\<And>c. c \<in> set f \<Longrightarrow> is_digit c" and t: "space_or_end t"
  shows "read_number is_digit digit_value 10 (CHR ''e'') 10 (with_fraction (show_nat n) f @ t) =
    Some (of_nat n + of_nat (number_of_digits f) / 10 ^ length f)"
proof -
  have nt: "no_digit t" and e: "exponent_part (CHR ''e'') t = 0" and p: "\<not> (t \<noteq> [] \<and> hd t = CHR ''.'')"
    using t space_facts [of "hd t"] by (auto simp: space_or_end_def no_digit_def exponent_part_def)
  show ?thesis
  proof (cases "f = []")
    case True
    then show ?thesis using p e split_digits [OF nt, of n]
      by (cases "t = []") (simp_all add: read_number_def with_fraction_def show_nat_not_empty number_in_base_10 number_show_nat rat_power_def Let_def number_of_digits_def
          [of "[]"])
  next
    case False
    have "no_digit (CHR ''.'' # f @ t)" by (simp add: no_digit_def is_digit_def)
    note split_digits [OF this, of n] and takeWhile_digits [OF f nt]
    moreover have "rat_of_nat n * 10 ^ length f / 10 ^ length f = of_nat n" by simp
    ultimately show ?thesis using False e
      by (simp add: read_number_def with_fraction_def show_nat_not_empty number_in_base_10 number_append number_show_nat rat_power_def
          add_divide_distrib)
  qed
qed

lemma strtof_printed:
  assumes f: "\<And>c. c \<in> set f \<Longrightarrow> is_digit c" and t: "space_or_end t"
  shows "strtof (with_fraction (show_nat n) f @ t) = Some (Finite (of_nat n + of_nat (number_of_digits f) / 10 ^ length f))"
proof -
  let ?s = "with_fraction (show_nat n) f @ t"
  obtain d ds where d: "show_nat n = d # ds" by (meson neq_Nil_conv show_nat_not_empty)
  have dd: "\<And>c. c \<in> set (d # ds) \<Longrightarrow> is_digit c" using show_nat_digits d by metis
  then have digit: "is_digit d" by simp
  obtain w where s: "?s = d # w" and w: "w = [] \<or> to_lower (hd w) \<noteq> CHR ''x''"
  proof -
    have "ds \<noteq> [] \<Longrightarrow> to_lower (hd ds) \<noteq> CHR ''x''" using dd digit_facts [of "hd ds"] by simp
    moreover have "t \<noteq> [] \<Longrightarrow> to_lower (hd t) \<noteq> CHR ''x''" using t space_facts [of "hd t"] by (simp add: space_or_end_def)
    moreover have "to_lower (CHR ''.'') \<noteq> CHR ''x''" by (simp add: to_lower_def)
    ultimately show ?thesis using that d by (cases ds; cases "f = []") (auto simp: with_fraction_def)
  qed
  have "read_hex ?s = None" unfolding s using w digit_facts [OF digit]
    by (cases w) (auto simp: read_hex_def starts_with_def)
  then show ?thesis
    using read_number_printed [where f = f and t = t and n = n, OF f t] digit_facts [OF digit] unfolding strtof_def s
    by (simp add: starts_with_def Let_def)
qed

text \<open>A printed number \<open>m / 10 ^ k\<close> of three digits.\<close>

lemma find_first: "(\<And>y. y \<in> set xs \<Longrightarrow> \<not> P y) \<Longrightarrow> P x \<Longrightarrow> find P (xs @ x # ys) = Some x"
  by (induction xs) auto

lemma find_upto:
  assumes "a \<le> e" and "e \<le> b" and "P e" and "\<And>y. e < y \<Longrightarrow> \<not> P y"
  shows "find P (rev [a..b]) = Some (e :: int)"
proof -
  have "[a..b] = [a..e - 1] @ e # [e + 1..b]" using upto_split3 [OF assms(1,2)] by simp
  then have "rev [a..b] = rev [e + 1..b] @ e # rev [a..e - 1]" by simp
  moreover have "find P (rev [e + 1..b] @ e # rev [a..e - 1]) = Some e" using assms(3,4) by (intro find_first) auto
  ultimately show ?thesis by simp
qed

lemma rat_power_mono: "a \<le> b \<Longrightarrow> rat_power 10 a \<le> rat_power 10 b"
proof -
  have up: "rat_power 10 z \<le> rat_power 10 (z + 1)" for z
  proof (cases "0 \<le> z")
    case True
    then show ?thesis by (simp add: rat_power_def nat_add_distrib)
  next
    case False
    then have "nat (- z) = Suc (nat (- (z + 1)))" by simp
    then show ?thesis using False by (simp add: rat_power_def divide_simps)
  qed
  assume "a \<le> b"
  then show ?thesis by (induction rule: int_ge_induct) (use up in \<open>auto intro: order_trans\<close>)
qed

lemma rat_power_three: "k \<le> 6 \<Longrightarrow> rat_power 10 (3 - int k) = 1000 / 10 ^ k \<and> rat_power 10 (2 - int k) = 100 / 10 ^ k \<and>
   rat_power 10 (- int k) = 1 / 10 ^ k"
proof -
  assume "k \<le> 6"
  then consider "k = 0" | "k = 1" | "k = 2" | "k = 3" | "k = 4" | "k = 5" | "k = 6" by linarith
  then show ?thesis by cases (simp_all add: rat_power_def)
qed

lemma show_positive_plain:
  assumes "100 \<le> m" and "m \<le> 999" and "k \<le> 6"
  shows "show_positive (of_nat m / 10 ^ k) = with_fraction (show_nat (m div 10 ^ k)) (strip_zeros (pad_digits k (m mod 10 ^ k)))"
proof -
  let ?x = "rat_of_nat m / 10 ^ k"
  have e: "decimal_exponent ?x = 2 - int k"
  proof -
    have low: "rat_power 10 (2 - int k) \<le> ?x" using assms by (simp add: rat_power_three divide_right_mono)
    have high: "\<not> rat_power 10 e \<le> ?x" if "2 - int k < e" for e
    proof -
      have "rat_power 10 (3 - int k) \<le> rat_power 10 e" using that by (intro rat_power_mono) simp
      moreover have "?x < rat_power 10 (3 - int k)" using assms by (simp add: rat_power_three divide_strict_right_mono)
      ultimately show ?thesis by simp
    qed
    have "find (\<lambda>e. rat_power 10 e \<le> ?x) (rev [-45..38]) = Some (2 - int k)"
      using assms(3) by (intro find_upto low high) simp_all
    then show ?thesis by (simp add: decimal_exponent_def)
  qed
  have "?x / rat_power 10 (2 - int k - 2) = of_nat m" using assms(3) by (simp add: rat_power_three)
  moreover have "round_half_even (of_nat m) = m" by (simp add: round_half_even_def)
  moreover have "nat (2 - (2 - int k)) = k" by simp
  ultimately show ?thesis using assms unfolding show_positive_def e by (simp add: Let_def)
qed

text \<open>Numbers that three significant digits and no exponent print exactly.\<close>

definition plain_float :: "float_value \<Rightarrow> bool" where
  "plain_float v \<longleftrightarrow> v = Finite 0 \<or> (\<exists>m k. 100 \<le> m \<and> m \<le> 999 \<and> k \<le> (6 :: nat) \<and> v = Finite (of_nat m / 10 ^ k))"

lemma plain_float_range:
  assumes "100 \<le> m" and "m \<le> 999" and "k \<le> 6"
  shows "float_in_range (of_nat m / 10 ^ k)"
proof -
  have "(10 :: rat) ^ k \<le> 10 ^ 6" using assms(3) by (intro power_increasing) simp_all
  then have "1 / 10 ^ 6 \<le> 1 / (10 :: rat) ^ k" by (intro divide_left_mono) simp_all
  also have "\<dots> \<le> of_nat m / 10 ^ k" using assms(1) by (intro divide_right_mono) simp_all
  finally have "1 / 10 ^ 6 \<le> rat_of_nat m / 10 ^ k" .
  moreover have "1 / 2 ^ 126 \<le> (1 / 10 ^ 6 :: rat)" by simp
  ultimately have "1 / 2 ^ 126 \<le> rat_of_nat m / 10 ^ k" by linarith
  moreover have "rat_of_nat m / 10 ^ k \<le> of_nat m / 1" by (intro divide_left_mono) simp_all
  then have "rat_of_nat m / 10 ^ k \<le> 999" using assms(2) by simp
  moreover have "(999 :: rat) < (2 - 1 / 2 ^ 24) * 2 ^ 127" by simp
  ultimately show ?thesis unfolding float_in_range_def by simp
qed

lemma strtof_show_3g:
  assumes "plain_float v" and "space_or_end t"
  shows "strtof (show_3g v @ t) = Some v"
proof -
  from assms(1) consider "v = Finite 0" | m k where "100 \<le> m" "m \<le> 999" "k \<le> (6 :: nat)" "v = Finite (of_nat m / 10 ^ k)"
    by (auto simp: plain_float_def)
  then show ?thesis
  proof cases
    case 1
    have "show_nat 0 = ''0''" by code_simp
    then show ?thesis using 1 strtof_printed [where f = "[]" and n = 0, OF _ assms(2)]
      by (simp add: show_3g_def with_fraction_def number_of_digits_def)
  next
    case 2
    let ?f = "strip_zeros (pad_digits k (m mod 10 ^ k))"
    have d: "\<And>c. c \<in> set ?f \<Longrightarrow> is_digit c" using strip_zeros_digits pad_digits_digits by blast
    have "rat_of_nat m / 10 ^ k = of_nat (m div 10 ^ k) + of_nat (m mod 10 ^ k) / 10 ^ k"
    proof -
      have "rat_of_nat m = of_nat (m div 10 ^ k * 10 ^ k + m mod 10 ^ k)" by (simp only: div_mult_mod_eq)
      then show ?thesis by (simp add: add_divide_distrib)
    qed
    moreover have "rat_of_nat (number_of_digits ?f) / 10 ^ length ?f = of_nat (m mod 10 ^ k) / 10 ^ k"
      by (simp add: strip_zeros_fraction number_pad_digits)
    moreover have "show_3g v = with_fraction (show_nat (m div 10 ^ k)) ?f"
      using 2 show_positive_plain [of m k] by (simp add: show_3g_def divide_less_0_iff)
    ultimately show ?thesis using strtof_printed [OF d assms(2)] 2(4) by simp
  qed
qed

lemma show_3g_chars:
  assumes "plain_float v" and "c \<in> set (show_3g v)"
  shows "is_digit c \<or> c = CHR ''.''"
proof -
  from assms(1) consider "v = Finite 0" | m k where "100 \<le> m" "m \<le> 999" "k \<le> (6 :: nat)" "v = Finite (of_nat m / 10 ^ k)"
    by (auto simp: plain_float_def)
  then show ?thesis
  proof cases
    case 1
    then show ?thesis using assms(2) by (simp add: show_3g_def is_digit_def)
  next
    case 2
    then have "show_3g v = with_fraction (show_nat (m div 10 ^ k)) (strip_zeros (pad_digits k (m mod 10 ^ k)))"
      using show_positive_plain [of m k] by (simp add: show_3g_def divide_less_0_iff)
    then show ?thesis using assms(2)
      by (auto simp: with_fraction_def split: if_splits dest: show_nat_digits strip_zeros_digits pad_digits_digits)
  qed
qed

lemma string_to_float_show_3g:
  assumes "plain_float v" and "space_or_end t"
  shows "string_to_float (show_3g v @ t) = Some v"
proof -
  have "takeWhile (\<lambda>c. c \<noteq> CHR 0x00) (show_3g v @ t) = show_3g v @ takeWhile (\<lambda>c. c \<noteq> CHR 0x00) t"
    using show_3g_chars [OF assms(1)] digit_facts(8) by (intro takeWhile_append2) fastforce
  moreover have "space_or_end (takeWhile (\<lambda>c. c \<noteq> CHR 0x00) t)"
    using assms(2) by (cases t) (auto simp: space_or_end_def)
  ultimately show ?thesis
    using strtof_show_3g [OF assms(1)] plain_float_range assms(1)
    by (auto simp: string_to_float_def plain_float_def float_in_range_def [of 0])
qed
end
