(* ===== verification/Sdp_Media.thy ===== *)
theory Sdp_Media
  imports Sdp_Fields Float_Text
begin

text \<open>
  Media descriptions of an SDP text: sdp/sdp_media_description.hpp and sdp_media_description.cpp. Printing is a list of lines, one per
  \<open>format_to\<close> that ends with the newline. \<open>value->data()\<close> of a view is the text up to the end of the whole description, so the parser of an
  attribute gets what follows its line, too.
\<close>

record media_description =
  md_media_type :: string
  md_port :: u16
  md_number_of_ports :: u16
  md_protocol :: string
  md_formats :: "sdp_format list"
  md_connection_infos :: "connection_info_field list"
  md_ptime :: "float_value option"
  md_max_ptime :: "float_value option"
  md_media_direction :: "media_direction option"
  md_reference_clock :: "reference_clock option"
  md_media_clock :: "media_clock_source option"
  md_session_information :: "string option"
  md_clock_domain :: "ravenna_clock_domain option"
  md_sync_time :: "u32 option"
  md_clock_deviation :: "u32 fraction option"
  md_source_filters :: "source_filter list"
  md_framecount :: "u16 option"
  md_mid :: "string option"
  md_attributes :: "string \<rightharpoonup> string"

definition media_init :: media_description where
  "media_init =
     \<lparr>md_media_type = [], md_port = 0, md_number_of_ports = 1, md_protocol = [], md_formats = [], md_connection_infos = [],
      md_ptime = None, md_max_ptime = None, md_media_direction = None, md_reference_clock = None, md_media_clock = None,
      md_session_information = None, md_clock_domain = None, md_sync_time = None, md_clock_deviation = None,
      md_source_filters = [], md_framecount = None, md_mid = None, md_attributes = Map.empty\<rparr>"

section \<open>Parsing\<close>

text \<open>\<open>std::map::emplace\<close> keeps an entry that is there.\<close>

definition emplace :: "'k \<Rightarrow> 'v \<Rightarrow> ('k \<rightharpoonup> 'v) \<Rightarrow> ('k \<rightharpoonup> 'v)" where
  "emplace k v m = (case m k of None \<Rightarrow> m(k \<mapsto> v) | Some _ \<Rightarrow> m)"

text \<open>The loop over the formats of the media line: the first with the same payload type is replaced.\<close>

fun replace_format :: "sdp_format \<Rightarrow> sdp_format list \<Rightarrow> sdp_format list option" where
  "replace_format f [] = None"
| "replace_format f (x # xs) =
     (if fm_payload_type x = fm_payload_type f then Some (f # xs) else map_option (\<lambda>ys. x # ys) (replace_format f xs))"

definition add_or_update_format :: "sdp_format \<Rightarrow> media_description \<Rightarrow> media_description" where
  "add_or_update_format f m =
     (case replace_format f (md_formats m) of
        Some fs \<Rightarrow> m\<lparr>md_formats := fs\<rparr>
      | None \<Rightarrow> m\<lparr>md_formats := md_formats m @ [f]\<rparr>)"

text \<open>The loop over source filters with the same network type, address type and destination, shared with the session.\<close>

fun replace_source_filter :: "source_filter \<Rightarrow> source_filter list \<Rightarrow> source_filter list" where
  "replace_source_filter f [] = [f]"
| "replace_source_filter f (x # xs) =
     (if sf_net_type x = sf_net_type f \<and> sf_addr_type x = sf_addr_type f \<and> sf_dest_address x = sf_dest_address f
      then f # xs else x # replace_source_filter f xs)"

definition media_add_or_update_source_filter :: "source_filter \<Rightarrow> media_description \<Rightarrow> media_description" where
  "media_add_or_update_source_filter f m = m\<lparr>md_source_filters := replace_source_filter f (md_source_filters m)\<rparr>"

text \<open>\<open>if (const auto value = parser.read_until_end())\<close>, then a parser of a field and the assignment of its result.\<close>

definition read_value :: "string \<Rightarrow> string \<Rightarrow> (string \<Rightarrow> 'a parsed) \<Rightarrow> ('a \<Rightarrow> 'b) \<Rightarrow> 'b parsed" where
  "read_value s e p f =
     try_read (read_until_end s) e (\<lambda>value t. case p value of Inl err \<Rightarrow> Inl err | Inr x \<Rightarrow> Inr (f x))"

definition parse_ptime :: "string \<Rightarrow> string \<Rightarrow> string \<Rightarrow> float_value parsed" where
  "parse_ptime name tail value =
     (case string_to_float (value @ tail) of
        None \<Rightarrow> Inl ''media: failed to parse ptime as double''
      | Some v \<Rightarrow> if float_negative v then Inl (''media: '' @ name @ '' must be a positive number'') else Inr v)"

definition media_attribute :: "string \<Rightarrow> string \<Rightarrow> string \<Rightarrow> media_description \<Rightarrow> media_description parsed" where
  "media_attribute key s tail m =
     (if key = k_sdp_rtp_map then
        try_read (read_until_end s) ''media: failed to parse rtpmap value'' (\<lambda>value t.
        case parse_format value of
          Inl e \<Rightarrow> Inl e
        | Inr f \<Rightarrow>
            (case replace_format f (md_formats m) of
               Some fs \<Rightarrow> Inr (m\<lparr>md_formats := fs\<rparr>)
             | None \<Rightarrow> Inl ''media: rtpmap attribute for unknown payload type''))
      else if key = k_sdp_ptime then
        read_value s ''media: failed to parse ptime value'' (parse_ptime ''ptime'' tail) (\<lambda>v. m\<lparr>md_ptime := Some v\<rparr>)
      else if key = k_sdp_max_ptime then
        read_value s ''media: failed to parse maxptime value'' (parse_ptime ''maxptime'' tail) (\<lambda>v. m\<lparr>md_max_ptime := Some v\<rparr>)
      else if key = k_sdp_sendrecv then Inr (m\<lparr>md_media_direction := Some Sendrecv\<rparr>)
      else if key = k_sdp_sendonly then Inr (m\<lparr>md_media_direction := Some Sendonly\<rparr>)
      else if key = k_sdp_recvonly then Inr (m\<lparr>md_media_direction := Some Recvonly\<rparr>)
      else if key = k_sdp_inactive then Inr (m\<lparr>md_media_direction := Some Inactive\<rparr>)
      else if key = k_sdp_ts_refclk then
        read_value s ''media: failed to parse ts-refclk value'' parse_reference_clock (\<lambda>c. m\<lparr>md_reference_clock := Some c\<rparr>)
      else if key = ''mediaclk'' then
        read_value s ''media: failed to parse media clock value'' parse_media_clock_source (\<lambda>c. m\<lparr>md_media_clock := Some c\<rparr>)
      else if key = ''clock-domain'' then
        read_value s ''media: failed to parse clock domain value'' parse_ravenna_clock_domain (\<lambda>d. m\<lparr>md_clock_domain := Some d\<rparr>)
      else if key = k_sdp_sync_time then
        try_read (read_unsigned s) ''media: failed to parse sync-time value'' (\<lambda>ts t. Inr (m\<lparr>md_sync_time := Some ts\<rparr>))
      else if key = k_sdp_clock_deviation then
        try_read (read_unsigned s) ''media: failed to parse clock-deviation value'' (\<lambda>n t.
        try_skip (skip_char (CHR ''/'') t) (''media: expecting '' @ quoted ''/'' @ '' after clock-deviation numerator value'') (\<lambda>t.
        try_read (read_unsigned t) ''media: failed to parse clock-deviation denominator value'' (\<lambda>d t.
          Inr (m\<lparr>md_clock_deviation := Some \<lparr>numerator = n, denominator = d\<rparr>\<rparr>))))
      else if key = ''source-filter'' then
        read_value s ''media: failed to parse source-filter value'' parse_source_filter
          (\<lambda>f. m\<lparr>md_source_filters := md_source_filters m @ [f]\<rparr>)
      else if key = ''framecount'' then
        try_read (read_unsigned s) ''media: failed to parse framecount value'' (\<lambda>n t. Inr (m\<lparr>md_framecount := Some n\<rparr>))
      else if key = k_sdp_mid then
        try_read (read_until_end s) ''media: failed to parse mid value'' (\<lambda>mid t.
        check_that (mid \<noteq> []) ''media: mid value cannot be empty'' (Inr (m\<lparr>md_mid := Some mid\<rparr>)))
      else
        try_read (read_until_end s) ''media: failed to parse attribute value'' (\<lambda>value t.
          Inr (m\<lparr>md_attributes := emplace key value (md_attributes m)\<rparr>)))"

definition media_parse_attribute :: "string \<Rightarrow> string \<Rightarrow> media_description \<Rightarrow> media_description parsed" where
  "media_parse_attribute line tail m =
     try_skip (skip_string ''a='' line) (''attribute: expecting '' @ quoted ''a='') (\<lambda>s.
     try_read (split_char (CHR '':'') False s) ''attribute: expecting key'' (\<lambda>key s. media_attribute key s tail m))"

fun parse_format_numbers :: "string list \<Rightarrow> sdp_format list parsed" where
  "parse_format_numbers [] = Inr []"
| "parse_format_numbers (x # xs) =
     (case string_to_unsigned False x of
        None \<Rightarrow> Inl ''media: format integer parsing failed''
      | Some n \<Rightarrow>
          (case parse_format_numbers xs of
             Inl e \<Rightarrow> Inl e
           | Inr fs \<Rightarrow> Inr (\<lparr>fm_payload_type = n, fm_encoding_name = [], fm_clock_rate = 0, fm_num_channels = 0\<rparr> # fs)))"

definition parse_media_description :: "string \<Rightarrow> media_description parsed" where
  "parse_media_description line =
     try_skip (skip_string ''m='' line) (''media: expecting '' @ quoted ''m='') (\<lambda>s.
     try_read (split_char (CHR '' '') False s) ''media: failed to parse media type'' (\<lambda>media_type s.
     try_read (read_unsigned s) ''media: failed to parse port as integer'' (\<lambda>port s.
     let rest = (\<lambda>number_of_ports s.
       let s = snd (skip_char (CHR '' '') s) in
       try_read (split_char (CHR '' '') False s) ''media: failed to parse protocol'' (\<lambda>protocol s.
       case parse_format_numbers (split_all (CHR '' '') s) of
         Inl e \<Rightarrow> Inl e
       | Inr fs \<Rightarrow> Inr (media_init\<lparr>md_media_type := media_type, md_port := port, md_number_of_ports := number_of_ports,
           md_protocol := protocol, md_formats := fs\<rparr>)))
     in case skip_char (CHR ''/'') s of
          (True, s) \<Rightarrow> try_read (read_unsigned s) ''media: failed to parse number of ports as integer'' rest
        | (False, s) \<Rightarrow> rest 1 s)))"

definition validate_media_description :: "media_description \<Rightarrow> unit parsed" where
  "validate_media_description m =
     (if md_media_type m = [] then Inl ''media: media type is empty''
      else if md_port m = 0 then Inl ''media: port is 0''
      else if md_number_of_ports m = 0 then Inl ''media: number of ports is 0''
      else if md_protocol m = [] then Inl ''media: protocol is empty''
      else if md_formats m = [] then Inl ''media: no formats specified''
      else Inr ())"

section \<open>Printing\<close>

definition lines_of :: "'a option \<Rightarrow> ('a \<Rightarrow> string) \<Rightarrow> string list" where
  "lines_of v f = (case v of Some x \<Rightarrow> [f x] | None \<Rightarrow> [])"

definition media_line :: "media_description \<Rightarrow> string" where
  "media_line m =
     ''m='' @ md_media_type m @ '' '' @ show_unsigned (md_port m) @
     (if md_number_of_ports m > 1 then ''/'' @ show_unsigned (md_number_of_ports m) else []) @ '' '' @ md_protocol m @
     concat (map (\<lambda>f. '' '' @ show_unsigned (fm_payload_type f)) (md_formats m))"

text \<open>The assertion that \<open>mid\<close> is not empty only logs.\<close>

definition media_lines :: "media_description \<Rightarrow> string list option" where
  "media_lines m = do {
     reference_lines \<leftarrow> (case md_reference_clock m of None \<Rightarrow> Some [] | Some c \<Rightarrow> map_option (\<lambda>l. [l]) (show_reference_clock c));
     Some (
       [media_line m] @
       map show_connection_info (md_connection_infos m) @
       lines_of (md_session_information m) (\<lambda>s. ''s='' @ s) @
       map (\<lambda>f. ''a=rtpmap:'' @ show_format f) (md_formats m) @
       lines_of (md_ptime m) (\<lambda>v. ''a=ptime:'' @ show_3g v) @
       lines_of (md_max_ptime m) (\<lambda>v. ''a=maxptime:'' @ show_3g v) @
       lines_of (md_mid m) (\<lambda>s. ''a=mid:'' @ s) @
       lines_of (md_media_direction m) (\<lambda>d. ''a='' @ show_media_direction d) @
       reference_lines @
       lines_of (md_media_clock m) show_media_clock_source @
       lines_of (md_clock_domain m) show_ravenna_clock_domain @
       lines_of (md_sync_time m) (\<lambda>n. ''a=sync-time:'' @ show_unsigned n) @
       lines_of (md_clock_deviation m)
         (\<lambda>r. ''a=clock-deviation:'' @ show_unsigned (numerator r) @ ''/'' @ show_unsigned (denominator r)) @
       map show_source_filter (md_source_filters m) @
       lines_of (md_framecount m) (\<lambda>n. ''a=framecount:'' @ show_unsigned n)) }"

definition text_of_lines :: "string \<Rightarrow> string list \<Rightarrow> string" where
  "text_of_lines nl ls = concat (map (\<lambda>l. l @ nl) ls)"

definition show_media_description :: "string \<Rightarrow> media_description \<Rightarrow> string option" where
  "show_media_description nl m = map_option (text_of_lines nl) (media_lines m)"

end
