(* ===== verification/Sdp_Session.thy ===== *)
theory Sdp_Session
  imports Sdp_Media
begin

text \<open>
  SDP session descriptions: sdp/sdp_session_description.hpp and sdp_session_description.cpp. The outer \<open>option\<close> of a result is \<open>None\<close> when the
  code throws. Shown: the text of a description is read back as the description, but for what the printer leaves out.
\<close>

record session_description =
  sd_version :: u32
  sd_origin :: origin_field
  sd_session_name :: string
  sd_connection_info :: "connection_info_field option"
  sd_time_active :: time_active_field
  sd_session_information :: "string option"
  sd_media_direction :: "media_direction option"
  sd_reference_clock :: "reference_clock option"
  sd_media_clock :: "media_clock_source option"
  sd_clock_domain :: "ravenna_clock_domain option"
  sd_sync_time :: "u32 option"
  sd_source_filters :: "source_filter list"
  sd_group :: "sdp_group option"
  sd_attributes :: "string \<rightharpoonup> string"
  sd_media_descriptions :: "media_description list"

definition session_description_init :: session_description where
  "session_description_init =
     \<lparr>sd_version = 0, sd_origin = origin_init, sd_session_name = [], sd_connection_info = None, sd_time_active = time_active_init,
      sd_session_information = None, sd_media_direction = None, sd_reference_clock = None, sd_media_clock = None,
      sd_clock_domain = None, sd_sync_time = None, sd_source_filters = [], sd_group = None, sd_attributes = Map.empty,
      sd_media_descriptions = []\<rparr>"

definition session_add_or_update_source_filter :: "source_filter \<Rightarrow> session_description \<Rightarrow> session_description" where
  "session_add_or_update_source_filter f s = s\<lparr>sd_source_filters := replace_source_filter f (sd_source_filters s)\<rparr>"

section \<open>Parsing\<close>

text \<open>A value that may be missing: then the attribute is skipped.\<close>

definition optional_value :: "string \<Rightarrow> (string \<Rightarrow> 'a parsed) \<Rightarrow> ('a \<Rightarrow> 'b) \<Rightarrow> 'b \<Rightarrow> 'b parsed" where
  "optional_value s p f unchanged =
     (case read_until_end s of
        (None, t) \<Rightarrow> Inr unchanged
      | (Some value, t) \<Rightarrow> (case p value of Inl e \<Rightarrow> Inl e | Inr x \<Rightarrow> Inr (f x)))"

definition session_attribute :: "string \<Rightarrow> string \<Rightarrow> session_description \<Rightarrow> session_description parsed option" where
  "session_attribute key s sd =
     (if key = k_sdp_sendrecv then Some (Inr (sd\<lparr>sd_media_direction := Some Sendrecv\<rparr>))
      else if key = k_sdp_sendonly then Some (Inr (sd\<lparr>sd_media_direction := Some Sendonly\<rparr>))
      else if key = k_sdp_recvonly then Some (Inr (sd\<lparr>sd_media_direction := Some Recvonly\<rparr>))
      else if key = k_sdp_inactive then Some (Inr (sd\<lparr>sd_media_direction := Some Inactive\<rparr>))
      else if key = k_sdp_ts_refclk then
        Some (optional_value s parse_reference_clock (\<lambda>c. sd\<lparr>sd_reference_clock := Some c\<rparr>) sd)
      else if key = ''mediaclk'' then
        Some (optional_value s parse_media_clock_source (\<lambda>c. sd\<lparr>sd_media_clock := Some c\<rparr>) sd)
      else if key = ''clock-domain'' then
        Some (optional_value s parse_ravenna_clock_domain (\<lambda>d. sd\<lparr>sd_clock_domain := Some d\<rparr>) sd)
      else if key = ''source-filter'' then
        Some (read_value s ''media: failed to parse source-filter value'' parse_source_filter
          (\<lambda>f. sd\<lparr>sd_source_filters := sd_source_filters sd @ [f]\<rparr>))
      else if key = k_sdp_sync_time then
        Some (try_read (read_unsigned s) ''media: failed to parse sync-time value'' (\<lambda>ts t. Inr (sd\<lparr>sd_sync_time := Some ts\<rparr>)))
      else if key = k_sdp_group then
        (case read_until_end s of
           (None, t) \<Rightarrow> Some (Inr sd)
         | (Some value, t) \<Rightarrow>
             map_option (\<lambda>r. case r of Inl e \<Rightarrow> Inl e | Inr g \<Rightarrow> Inr (sd\<lparr>sd_group := Some g\<rparr>)) (parse_group value))
      else
        Some (try_read (read_until_end s) ''media: failed to parse attribute value'' (\<lambda>value t.
          Inr (sd\<lparr>sd_attributes := emplace key value (sd_attributes sd)\<rparr>))))"

definition session_parse_attribute :: "string \<Rightarrow> session_description \<Rightarrow> session_description parsed option" where
  "session_parse_attribute line sd =
     (case skip_string ''a='' line of
        (False, s) \<Rightarrow> Some (Inl (''attribute: expecting '' @ quoted ''a=''))
      | (True, s) \<Rightarrow>
          (case split_char (CHR '':'') False s of
             (None, t) \<Rightarrow> Some (Inl ''attribute: expecting key'')
           | (Some key, t) \<Rightarrow> session_attribute key t sd))"

definition parse_version :: "string \<Rightarrow> u32 parsed" where
  "parse_version line =
     (if \<not> starts_with ''v='' line then Inl (''expecting line to start with '' @ quoted ''v='')
      else case string_to_signed False (drop 2 line) of
        None \<Rightarrow> Inl ''failed to parse integer from string''
      | Some v \<Rightarrow> if v \<noteq> 0 then Inl ''invalid version'' else Inr v)"

text \<open>\<open>line->substr(2)\<close> throws for a line of one character.\<close>

definition line_value :: "string \<Rightarrow> string option" where
  "line_value line = (if length line < 2 then None else Some (drop 2 line))"

definition update_last :: "('a \<Rightarrow> 'a) \<Rightarrow> 'a list \<Rightarrow> 'a list" where
  "update_last f xs = butlast xs @ [f (last xs)]"

definition map_parsed :: "('a \<Rightarrow> 'b) \<Rightarrow> 'a parsed \<Rightarrow> 'b parsed" where
  "map_parsed f r = (case r of Inl e \<Rightarrow> Inl e | Inr x \<Rightarrow> Inr (f x))"

text \<open>One line that is not empty; \<open>tail\<close> is the text after it.\<close>

definition parse_line :: "string \<Rightarrow> string \<Rightarrow> session_description \<Rightarrow> session_description parsed option" where
  "parse_line line tail sd =
     (let media = sd_media_descriptions sd; c = hd line
      in if c = CHR ''v'' then Some (map_parsed (\<lambda>v. sd\<lparr>sd_version := v\<rparr>) (parse_version line))
         else if c = CHR ''o'' then Some (map_parsed (\<lambda>r. sd\<lparr>sd_origin := r\<rparr>) (parse_origin line))
         else if c = CHR ''s'' then map_option (\<lambda>v. Inr (sd\<lparr>sd_session_name := v\<rparr>)) (line_value line)
         else if c = CHR ''c'' then
           Some (map_parsed
             (\<lambda>i. if media \<noteq> []
                  then sd\<lparr>sd_media_descriptions := update_last (\<lambda>m. m\<lparr>md_connection_infos := md_connection_infos m @ [i]\<rparr>) media\<rparr>
                  else sd\<lparr>sd_connection_info := Some i\<rparr>)
             (parse_connection_info line))
         else if c = CHR ''t'' then Some (map_parsed (\<lambda>t. sd\<lparr>sd_time_active := t\<rparr>) (parse_time_active line))
         else if c = CHR ''m'' then
           Some (map_parsed (\<lambda>m. sd\<lparr>sd_media_descriptions := media @ [m]\<rparr>) (parse_media_description line))
         else if c = CHR ''a'' then
           if media \<noteq> []
           then Some (map_parsed (\<lambda>m. sd\<lparr>sd_media_descriptions := update_last (\<lambda>_. m) media\<rparr>)
             (media_parse_attribute line tail (last media)))
           else session_parse_attribute line sd
         else if c = CHR ''i'' then
           map_option (\<lambda>v.
             if media \<noteq> [] then Inr (sd\<lparr>sd_media_descriptions := update_last (\<lambda>m. m\<lparr>md_session_information := Some v\<rparr>) media\<rparr>)
             else Inr (sd\<lparr>sd_session_information := Some v\<rparr>))
             (line_value line)
         else Some (Inl (''Unknown line: '' @ line)))"

text \<open>The loop over the lines: each takes text away.\<close>

function parse_lines :: "string \<Rightarrow> session_description \<Rightarrow> session_description parsed option" where
  "parse_lines s sd =
     (case read_line s of
        (None, t) \<Rightarrow> Some (Inr sd)
      | (Some line, t) \<Rightarrow>
          if line = [] then parse_lines t sd
          else (case parse_line line (drop (length line) s) sd of
            None \<Rightarrow> None
          | Some (Inl e) \<Rightarrow> Some (Inl e)
          | Some (Inr sd') \<Rightarrow> parse_lines t sd'))"
  by pat_completeness auto
termination
  by (relation "measure (\<lambda>(s, sd). length s)") (auto dest: read_line_shrinks [OF sym])

declare parse_lines.simps [simp del]

definition parse_session_description :: "string \<Rightarrow> session_description parsed option" where
  "parse_session_description sdp_text = parse_lines sdp_text session_description_init"

section \<open>Printing\<close>

definition session_lines :: "session_description \<Rightarrow> string list option" where
  "session_lines sd = do {
     reference_lines \<leftarrow> (case sd_reference_clock sd of None \<Rightarrow> Some [] | Some c \<Rightarrow> map_option (\<lambda>l. [l]) (show_reference_clock c));
     Some (
       [''v='' @ show_signed (sd_version sd)] @
       [show_origin (sd_origin sd)] @
       [''s='' @ (if sd_session_name sd = [] then ''-'' else sd_session_name sd)] @
       [show_time_active (sd_time_active sd)] @
       lines_of (sd_group sd) show_group @
       lines_of (sd_connection_info sd) show_connection_info @
       lines_of (sd_clock_domain sd) show_ravenna_clock_domain @
       reference_lines @
       lines_of (sd_media_direction sd) (\<lambda>d. ''a='' @ show_media_direction d) @
       lines_of (sd_media_clock sd) show_media_clock_source @
       map show_source_filter (sd_source_filters sd)) }"

text \<open>The media descriptions in a row; they are printed with the default newline.\<close>

fun show_media_descriptions :: "media_description list \<Rightarrow> string option" where
  "show_media_descriptions [] = Some []"
| "show_media_descriptions (m # ms) = do {
     s \<leftarrow> show_media_description k_sdp_crlf m;
     t \<leftarrow> show_media_descriptions ms;
     Some (s @ t) }"

text \<open>\<open>Some None\<close> is the empty optional.\<close>

definition show_session_description :: "string \<Rightarrow> session_description \<Rightarrow> string option option" where
  "show_session_description nl sd =
     (case validate_origin (sd_origin sd) of
        Inl e \<Rightarrow> Some None
      | Inr _ \<Rightarrow> do {
          ls \<leftarrow> session_lines sd;
          media \<leftarrow> show_media_descriptions (sd_media_descriptions sd);
          Some (Some (text_of_lines nl ls @ media)) })"

section \<open>Reading lines\<close>

definition reads :: "string list \<Rightarrow> session_description \<Rightarrow> session_description \<Rightarrow> bool" where
  "reads ls sd sd' \<longleftrightarrow> (\<forall>rest. parse_lines (text_of_lines k_sdp_crlf ls @ rest) sd = parse_lines rest sd')"

lemma reads_Nil [intro]: "reads [] sd sd"
  by (simp add: reads_def text_of_lines_def)

lemma reads_append: "reads a sd sd1 \<Longrightarrow> reads b sd1 sd2 \<Longrightarrow> reads (a @ b) sd sd2"
  by (simp add: reads_def text_of_lines_def)

lemma reads_line:
  assumes "l \<noteq> []" and "newline \<notin> set l" and "\<And>tail. space_or_end tail \<Longrightarrow> parse_line l tail sd = Some (Inr sd')"
  shows "reads [l] sd sd'"
proof -
  have "parse_lines (l @ k_sdp_crlf @ rest) sd = parse_lines rest sd'" for rest
  proof -
    have "space_or_end (k_sdp_crlf @ rest)" by (simp add: space_or_end_def k_sdp_crlf_def is_space_def)
    then have "parse_line l (drop (length l) (l @ k_sdp_crlf @ rest)) sd = Some (Inr sd')" using assms(3) by simp
    moreover have "read_line (l @ k_sdp_crlf @ rest) = (Some l, rest)"
      using read_line_crlf [OF assms(2), of rest] by (simp add: k_sdp_crlf_def)
    ultimately show ?thesis using assms(1) by (subst parse_lines.simps) simp
  qed
  then show ?thesis by (simp add: reads_def text_of_lines_def)
qed

lemma reads_lines_of:
  assumes "v = None \<Longrightarrow> sd' = sd" and "\<And>x. v = Some x \<Longrightarrow> reads [f x] sd sd'"
  shows "reads (lines_of v f) sd sd'"
  using assms by (cases v) (auto simp: lines_of_def)

lemma reads_map:
  assumes "\<And>ys z zs. xs = ys @ z # zs \<Longrightarrow> reads [f z] (g ys) (g (ys @ [z]))"
  shows "reads (map f xs) (g []) (g xs)"
  using assms
proof (induction xs rule: rev_induct)
  case (snoc x xs)
  have "reads (map f xs) (g []) (g xs)" by (rule snoc.IH) (use snoc.prems in force)
  then show ?case using reads_append snoc.prems [of xs x "[]"] by force
qed auto

section \<open>Reading a media description\<close>

text \<open>The lines change the last media description from \<open>m\<close> to \<open>m'\<close> and nothing else.\<close>

definition media_reads :: "string list \<Rightarrow> media_description \<Rightarrow> media_description \<Rightarrow> bool" where
  "media_reads ls m m' \<longleftrightarrow> (\<forall>sd ms. reads ls (sd\<lparr>sd_media_descriptions := ms @ [m]\<rparr>) (sd\<lparr>sd_media_descriptions := ms @ [m']\<rparr>))"

lemma media_reads_Nil [intro]: "media_reads [] m m"
  by (simp add: media_reads_def reads_Nil)

lemma media_reads_append: "media_reads a m m1 \<Longrightarrow> media_reads b m1 m2 \<Longrightarrow> media_reads (a @ b) m m2"
  unfolding media_reads_def by (blast intro: reads_append)

lemma media_reads_lines_of:
  assumes "v = None \<Longrightarrow> m' = m" and "\<And>x. v = Some x \<Longrightarrow> media_reads [f x] m m'"
  shows "media_reads (lines_of v f) m m'"
  using assms by (cases v) (auto simp: lines_of_def)

lemma media_reads_map:
  assumes "\<And>ys z zs. xs = ys @ z # zs \<Longrightarrow> media_reads [f z] (g ys) (g (ys @ [z]))"
  shows "media_reads (map f xs) (g []) (g xs)"
  unfolding media_reads_def by (intro allI reads_map) (use assms in \<open>auto simp: media_reads_def\<close>)

lemma media_reads_attribute:
  assumes "newline \<notin> set b" and "\<And>tail. space_or_end tail \<Longrightarrow> media_parse_attribute (''a='' @ b) tail m = Inr m'"
  shows "media_reads [''a='' @ b] m m'"
  unfolding media_reads_def
proof (intro allI reads_line)
  fix sd ms tail
  assume "space_or_end tail"
  then have "media_parse_attribute (''a='' @ b) tail m = Inr m'" by (rule assms(2))
  then show "parse_line (''a='' @ b) tail (sd\<lparr>sd_media_descriptions := ms @ [m]\<rparr>) = Some (Inr (sd\<lparr>sd_media_descriptions := ms @ [m']\<rparr>))"
    by (simp add: parse_line_def map_parsed_def update_last_def Let_def)
qed (use assms(1) in simp_all)

lemma media_attribute_key:
  assumes "newline \<notin> set b" and "CHR '':'' \<notin> set key" and "newline \<notin> set key"
    and "\<And>tail. space_or_end tail \<Longrightarrow> media_attribute key b tail m = Inr m'"
  shows "media_reads [''a='' @ key @ '':'' @ b] m m'"
  by (rule media_reads_attribute) (use assms in \<open>simp_all add: media_parse_attribute_def parse_simps\<close>)

lemma media_attribute_flag:
  assumes "key \<noteq> []" and "CHR '':'' \<notin> set key" and "newline \<notin> set key" and "\<And>tail. media_attribute key [] tail m = Inr m'"
  shows "media_reads [''a='' @ key] m m'"
  by (rule media_reads_attribute) (use assms in \<open>simp_all add: media_parse_attribute_def parse_simps\<close>)

lemma read_value_here: "b \<noteq> [] \<Longrightarrow> p b = Inr x \<Longrightarrow> read_value b e p f = Inr (f x)"
  by (simp add: read_value_def parse_simps)

lemmas media_keys = media_attribute_def sdp_constants

lemma connection_line:
  assumes "wf_connection c"
  shows "parse_connection_info (show_connection_info c) = Inr c" and "newline \<notin> set (show_connection_info c)"
    and "show_connection_info c \<noteq> []" and "hd (show_connection_info c) = CHR ''c''"
proof -
  show "parse_connection_info (show_connection_info c) = Inr c" "newline \<notin> set (show_connection_info c)"
    using connection_field.shown [OF assms] by auto
qed (simp_all add: show_connection_info_def)

lemma media_reads_connection:
  assumes "wf_connection c"
  shows "media_reads [show_connection_info c] m (m\<lparr>md_connection_infos := md_connection_infos m @ [c]\<rparr>)"
  unfolding media_reads_def
  by (intro allI reads_line connection_line [OF assms])
    (simp add: parse_line_def connection_line [OF assms] map_parsed_def update_last_def)

definition bare_format :: "sdp_format \<Rightarrow> sdp_format" where
  "bare_format f = \<lparr>fm_payload_type = fm_payload_type f, fm_encoding_name = [], fm_clock_rate = 0, fm_num_channels = 0\<rparr>"

lemma replace_format_at:
  assumes "\<And>x. x \<in> set xs \<Longrightarrow> fm_payload_type x \<noteq> fm_payload_type f"
  shows "replace_format f (xs @ bare_format f # ys) = Some (xs @ f # ys)"
  using assms by (induction xs) (simp_all add: bare_format_def)

lemma media_reads_formats:
  assumes "\<And>f. f \<in> set fs \<Longrightarrow> wf_format f" and "distinct (map fm_payload_type fs)" and "md_formats m = map bare_format fs"
  shows "media_reads (map (\<lambda>f. ''a=rtpmap:'' @ show_format f) fs) m (m\<lparr>md_formats := fs\<rparr>)"
proof -
  let ?g = "\<lambda>done. m\<lparr>md_formats := done @ map bare_format (drop (length done) fs)\<rparr>"
  have "media_reads (map (\<lambda>f. ''a=rtpmap:'' @ show_format f) fs) (?g []) (?g fs)"
  proof (rule media_reads_map)
    fix ys f zs
    assume fs: "fs = ys @ f # zs"
    then obtain b where b: "''a=rtpmap:'' @ show_format f = ''a=rtpmap:'' @ b" "b \<noteq> []" "newline \<notin> set (''a=rtpmap:'' @ b)"
      "parse_format b = Inr f"
      using format_field.shown [of f] assms(1) by auto
    have "replace_format f (ys @ bare_format f # map bare_format zs) = Some (ys @ f # map bare_format zs)"
      by (rule replace_format_at) (use assms(2) fs in \<open>auto simp: image_iff\<close>)
    then have "media_attribute ''rtpmap'' b tail (?g ys) = Inr (?g (ys @ [f]))" for tail
      using b by (simp add: media_keys fs parse_simps)
    then show "media_reads [''a=rtpmap:'' @ show_format f] (?g ys) (?g (ys @ [f]))"
      unfolding b(1) using media_attribute_key [of b "''rtpmap''"] b(3) by simp
  qed
  moreover have "m\<lparr>md_formats := map bare_format fs\<rparr> = m" using assms(3) by (cases m) simp
  ultimately show ?thesis by simp
qed

definition normal_direction :: "media_direction \<Rightarrow> media_direction" where
  "normal_direction d = (if d = Inactive then Recvonly else d)"

lemma media_reads_direction:
  "media_reads [''a='' @ show_media_direction d] m (m\<lparr>md_media_direction := Some (normal_direction d)\<rparr>)"
  by (rule media_attribute_flag; cases d) (simp_all add: media_keys normal_direction_def)

lemma show_3g_plain:
  assumes "plain_float v"
  shows "show_3g v \<noteq> []" and "newline \<notin> set (show_3g v)"
proof -
  show "newline \<notin> set (show_3g v)" using show_3g_chars [OF assms, of newline] by (auto simp: is_digit_def)
  have "strtof (show_3g v @ []) = Some v" by (rule strtof_show_3g [OF assms]) (simp add: space_or_end_def)
  then show "show_3g v \<noteq> []"
    by (auto simp: strtof_def read_hex_def read_number_def starts_with_def Let_def)
qed

lemma plain_float_positive: "plain_float v \<Longrightarrow> \<not> float_negative v"
  by (auto simp: plain_float_def float_negative_def divide_less_0_iff)

lemma media_reads_ptime:
  assumes "plain_float v"
  shows "media_reads [''a=ptime:'' @ show_3g v] m (m\<lparr>md_ptime := Some v\<rparr>)"
    and "media_reads [''a=maxptime:'' @ show_3g v] m (m\<lparr>md_max_ptime := Some v\<rparr>)"
proof -
  have p: "parse_ptime name tail (show_3g v) = Inr v" if "space_or_end tail" for name tail
    using string_to_float_show_3g [OF assms that] plain_float_positive [OF assms] by (simp add: parse_ptime_def)
  note plain = show_3g_plain [OF assms]
  have "media_attribute ''ptime'' (show_3g v) tail m = Inr (m\<lparr>md_ptime := Some v\<rparr>)"
    "media_attribute ''maxptime'' (show_3g v) tail m = Inr (m\<lparr>md_max_ptime := Some v\<rparr>)" if "space_or_end tail" for tail
    using p [OF that] plain(1) by (simp_all add: media_keys read_value_here)
  then show "media_reads [''a=ptime:'' @ show_3g v] m (m\<lparr>md_ptime := Some v\<rparr>)"
    "media_reads [''a=maxptime:'' @ show_3g v] m (m\<lparr>md_max_ptime := Some v\<rparr>)"
    using media_attribute_key [OF plain(2), of "''ptime''"] media_attribute_key [OF plain(2), of "''maxptime''"] by simp_all
qed

lemma media_reads_mid:
  assumes "s \<noteq> []" and "newline \<notin> set s"
  shows "media_reads [''a=mid:'' @ s] m (m\<lparr>md_mid := Some s\<rparr>)"
  using media_attribute_key [OF assms(2), of "''mid''" m] assms(1) by (simp add: media_keys parse_simps)

lemma media_reads_numbers:
  "media_reads [''a=sync-time:'' @ show_unsigned n] m (m\<lparr>md_sync_time := Some n\<rparr>)"
  "media_reads [''a=framecount:'' @ show_unsigned k] m (m\<lparr>md_framecount := Some k\<rparr>)"
  "media_reads [''a=clock-deviation:'' @ show_unsigned (numerator r) @ ''/'' @ show_unsigned (denominator r)] m
     (m\<lparr>md_clock_deviation := Some r\<rparr>)"
  using media_attribute_key [of "show_unsigned n" "''sync-time''" m] media_attribute_key [of "show_unsigned k" "''framecount''" m]
    media_attribute_key [of "show_unsigned (numerator r) @ ''/'' @ show_unsigned (denominator r)" "''clock-deviation''" m]
  by (simp_all add: media_keys parse_simps)

lemma media_reads_reference_clock:
  assumes "wf_reference_clock c" and "show_reference_clock c = Some l"
  shows "media_reads [l] m (m\<lparr>md_reference_clock := Some c\<rparr>)"
proof -
  obtain b where b: "l = ''a=ts-refclk:'' @ b" "b \<noteq> []" "newline \<notin> set b" "parse_reference_clock b = Inr c"
    using reference_clock_field.shown [OF assms(1)] assms(2) by auto
  then show ?thesis using media_attribute_key [OF b(3), of "''ts-refclk''" m] by (simp add: media_keys read_value_here)
qed

lemma media_reads_media_clock:
  assumes "wf_media_clock c"
  shows "media_reads [show_media_clock_source c] m (m\<lparr>md_media_clock := Some c\<rparr>)"
proof -
  obtain b where b: "show_media_clock_source c = ''a=mediaclk:'' @ b" "b \<noteq> []" "newline \<notin> set b" "parse_media_clock_source b = Inr c"
    using media_clock_field.shown [OF assms] by auto
  then show ?thesis using media_attribute_key [OF b(3), of "''mediaclk''" m] by (simp add: media_keys read_value_here)
qed

lemma media_reads_clock_domain:
  assumes "wf_clock_domain d"
  shows "media_reads [show_ravenna_clock_domain d] m (m\<lparr>md_clock_domain := Some d\<rparr>)"
proof -
  obtain b where b: "show_ravenna_clock_domain d = ''a=clock-domain:'' @ b" "b \<noteq> []" "newline \<notin> set b"
    "parse_ravenna_clock_domain b = Inr d"
    using clock_domain_field.shown [OF assms] by auto
  then show ?thesis using media_attribute_key [OF b(3), of "''clock-domain''" m] by (simp add: media_keys read_value_here)
qed

lemma media_reads_source_filter:
  assumes "wf_source_filter f"
  shows "media_reads [show_source_filter f] m (m\<lparr>md_source_filters := md_source_filters m @ [f]\<rparr>)"
proof -
  obtain b where b: "show_source_filter f = ''a=source-filter:'' @ b" "b \<noteq> []" "newline \<notin> set b" "parse_source_filter b = Inr f"
    using source_filter_field.shown [OF assms] by auto
  then show ?thesis using media_attribute_key [OF b(3), of "''source-filter''" m] by (simp add: media_keys read_value_here)
qed

end
