(* ===== verification/Sdp_Roundtrip.thy ===== *)
theory Sdp_Roundtrip
  imports Sdp_Session
begin

text \<open>
  The text of a session description is read back as the description, up to a normal form that says what the printer drops
  or changes; and the descriptions and texts on which printing and parsing disagree.
\<close>

section \<open>Media descriptions\<close>

definition wf_media :: "media_description \<Rightarrow> bool" where
  "wf_media m \<longleftrightarrow>
     no_char (CHR '' '') (md_media_type m) \<and> md_number_of_ports m \<noteq> 0 \<and>
     md_protocol m \<noteq> [] \<and> no_char (CHR '' '') (md_protocol m) \<and>
     list_all wf_format (md_formats m) \<and> distinct (map fm_payload_type (md_formats m)) \<and>
     list_all wf_connection (md_connection_infos m) \<and> md_session_information m = None \<and>
     pred_option plain_float (md_ptime m) \<and> pred_option plain_float (md_max_ptime m) \<and>
     pred_option (\<lambda>s. s \<noteq> [] \<and> newline \<notin> set s) (md_mid m) \<and> pred_option wf_reference_clock (md_reference_clock m) \<and>
     pred_option wf_media_clock (md_media_clock m) \<and> pred_option wf_clock_domain (md_clock_domain m) \<and>
     list_all wf_source_filter (md_source_filters m)"

text \<open>Inactive is written as receiving only, other attributes are not written.\<close>

definition normal_media :: "media_description \<Rightarrow> media_description" where
  "normal_media m = m\<lparr>md_media_direction := map_option normal_direction (md_media_direction m), md_attributes := Map.empty\<rparr>"

definition media_start :: "media_description \<Rightarrow> media_description" where
  "media_start m = media_init\<lparr>md_media_type := md_media_type m, md_port := md_port m, md_number_of_ports := md_number_of_ports m,
     md_protocol := md_protocol m, md_formats := map bare_format (md_formats m)\<rparr>"

lemma split_words:
  assumes "w \<noteq> []" and "CHR '' '' \<notin> set w"
  shows "split_char (CHR '' '') False (w @ concat (map (\<lambda>x. '' '' @ f x) xs)) = (Some w, join '' '' (map f xs))"
proof (cases "xs = []")
  case False
  then have "concat (map (\<lambda>x. '' '' @ f x) xs) = '' '' @ join '' '' (map f xs)"
    using concat_space_join [of "map f xs"] by (simp add: comp_def)
  then show ?thesis using assms by (simp add: parse_simps)
qed (use assms in \<open>simp add: parse_simps\<close>)

lemma parse_format_numbers_shown:
  "parse_format_numbers (map (\<lambda>f. show_unsigned (fm_payload_type f)) fs) = Inr (map bare_format fs)"
  by (induction fs) (simp_all add: parse_simps bare_format_def)

lemma one_of_not_more: "(w :: 'a::len word) \<noteq> 0 \<Longrightarrow> \<not> 1 < w \<Longrightarrow> w = 1"
  by (metis linorder_neqE word_less_1)

lemma parse_media_line:
  assumes "wf_media m"
  shows "parse_media_description (media_line m) = Inr (media_start m)"
proof -
  let ?fs = "concat (map (\<lambda>f. '' '' @ show_unsigned (fm_payload_type f)) (md_formats m))"
  have t: "CHR '' '' \<notin> set (md_media_type m)" and n: "md_number_of_ports m \<noteq> 0"
    and p: "md_protocol m \<noteq> []" "CHR '' '' \<notin> set (md_protocol m)"
    using assms by (simp_all add: wf_media_def no_char_def)
  note w = split_words [OF p, of "\<lambda>f. show_unsigned (fm_payload_type f)" "md_formats m"]
  have a: "split_all (CHR '' '') (join '' '' (map (\<lambda>f. show_unsigned (fm_payload_type f)) (md_formats m))) =
      map (\<lambda>f. show_unsigned (fm_payload_type f)) (md_formats m)"
    by (rule split_all_join) auto
  obtain fs where fs: "fs = ?fs" by blast
  show ?thesis
  proof (cases "1 < md_number_of_ports m")
    case True
    then show ?thesis using t w a unfolding media_line_def fs [symmetric]
      by (simp add: parse_media_description_def parse_simps parse_format_numbers_shown media_start_def Let_def)
  next
    case False
    then show ?thesis using t w a one_of_not_more [OF n False] unfolding media_line_def fs [symmetric]
      by (simp add: parse_media_description_def parse_simps parse_format_numbers_shown media_start_def Let_def)
  qed
qed

lemma media_line_plain:
  assumes "wf_media m"
  shows "newline \<notin> set (media_line m)" and "media_line m \<noteq> []" and "hd (media_line m) = CHR ''m''"
proof -
  show "newline \<notin> set (media_line m)" using assms by (auto simp: media_line_def wf_media_def no_char_def)
qed (simp_all add: media_line_def)

text \<open>One optional line, then the lists.\<close>

lemma media_reads_option:
  assumes "get m = None" and "upd None m = m" and "\<And>x. v = Some x \<Longrightarrow> media_reads [f x] m (upd (Some x) m)"
  shows "media_reads (lines_of v f) m (upd v m)"
  using assms by (cases v) (auto simp: lines_of_def)

lemma media_unchanged:
  "md_ptime m = None \<Longrightarrow> m\<lparr>md_ptime := None\<rparr> = m" "md_max_ptime m = None \<Longrightarrow> m\<lparr>md_max_ptime := None\<rparr> = m"
  "md_mid m = None \<Longrightarrow> m\<lparr>md_mid := None\<rparr> = m" "md_media_direction m = None \<Longrightarrow> m\<lparr>md_media_direction := None\<rparr> = m"
  "md_reference_clock m = None \<Longrightarrow> m\<lparr>md_reference_clock := None\<rparr> = m" "md_media_clock m = None \<Longrightarrow> m\<lparr>md_media_clock := None\<rparr> = m"
  "md_clock_domain m = None \<Longrightarrow> m\<lparr>md_clock_domain := None\<rparr> = m" "md_sync_time m = None \<Longrightarrow> m\<lparr>md_sync_time := None\<rparr> = m"
  "md_clock_deviation m = None \<Longrightarrow> m\<lparr>md_clock_deviation := None\<rparr> = m" "md_framecount m = None \<Longrightarrow> m\<lparr>md_framecount := None\<rparr> = m"
  "md_connection_infos m = [] \<Longrightarrow> m\<lparr>md_connection_infos := []\<rparr> = m" "md_source_filters m = [] \<Longrightarrow> m\<lparr>md_source_filters := []\<rparr> = m"
  by (cases m; simp)+

lemma media_steps:
  "md_ptime m = None \<Longrightarrow> pred_option plain_float p \<Longrightarrow> media_reads (lines_of p (\<lambda>v. ''a=ptime:'' @ show_3g v)) m (m\<lparr>md_ptime := p\<rparr>)"
  "md_max_ptime m = None \<Longrightarrow> pred_option plain_float p \<Longrightarrow>
     media_reads (lines_of p (\<lambda>v. ''a=maxptime:'' @ show_3g v)) m (m\<lparr>md_max_ptime := p\<rparr>)"
  "md_mid m = None \<Longrightarrow> pred_option (\<lambda>s. s \<noteq> [] \<and> newline \<notin> set s) i \<Longrightarrow>
     media_reads (lines_of i (\<lambda>s. ''a=mid:'' @ s)) m (m\<lparr>md_mid := i\<rparr>)"
  "md_media_direction m = None \<Longrightarrow>
     media_reads (lines_of d (\<lambda>d. ''a='' @ show_media_direction d)) m (m\<lparr>md_media_direction := map_option normal_direction d\<rparr>)"
  "md_media_clock m = None \<Longrightarrow> pred_option wf_media_clock c \<Longrightarrow>
     media_reads (lines_of c show_media_clock_source) m (m\<lparr>md_media_clock := c\<rparr>)"
  "md_clock_domain m = None \<Longrightarrow> pred_option wf_clock_domain k \<Longrightarrow>
     media_reads (lines_of k show_ravenna_clock_domain) m (m\<lparr>md_clock_domain := k\<rparr>)"
  "md_sync_time m = None \<Longrightarrow> media_reads (lines_of n (\<lambda>n. ''a=sync-time:'' @ show_unsigned n)) m (m\<lparr>md_sync_time := n\<rparr>)"
  "md_clock_deviation m = None \<Longrightarrow>
     media_reads (lines_of r (\<lambda>r. ''a=clock-deviation:'' @ show_unsigned (numerator r) @ ''/'' @ show_unsigned (denominator r))) m
       (m\<lparr>md_clock_deviation := r\<rparr>)"
  "md_framecount m = None \<Longrightarrow> media_reads (lines_of f (\<lambda>n. ''a=framecount:'' @ show_unsigned n)) m (m\<lparr>md_framecount := f\<rparr>)"
  by (rule media_reads_lines_of;
    simp add: media_unchanged media_reads_ptime media_reads_mid media_reads_direction media_reads_media_clock media_reads_clock_domain
      media_reads_numbers del: append.simps)+

lemma media_step_reference:
  assumes "md_reference_clock m = None" and "pred_option wf_reference_clock c"
    and "(case c of None \<Rightarrow> Some [] | Some c \<Rightarrow> map_option (\<lambda>l. [l]) (show_reference_clock c)) = Some ls"
  shows "media_reads ls m (m\<lparr>md_reference_clock := c\<rparr>)"
  using assms by (cases c) (auto simp: media_unchanged intro: media_reads_reference_clock)

lemma media_step_connections:
  assumes "md_connection_infos m = []" and "list_all wf_connection cs"
  shows "media_reads (map show_connection_info cs) m (m\<lparr>md_connection_infos := cs\<rparr>)"
proof -
  have "media_reads (map show_connection_info cs) (m\<lparr>md_connection_infos := []\<rparr>) (m\<lparr>md_connection_infos := cs\<rparr>)"
  proof (rule media_reads_map)
    fix ys z zs
    assume "cs = ys @ z # zs"
    then show "media_reads [show_connection_info z] (m\<lparr>md_connection_infos := ys\<rparr>) (m\<lparr>md_connection_infos := ys @ [z]\<rparr>)"
      using media_reads_connection [of z "m\<lparr>md_connection_infos := ys\<rparr>"] assms(2) by simp
  qed
  then show ?thesis using assms(1) by (simp add: media_unchanged)
qed

lemma media_step_filters:
  assumes "md_source_filters m = []" and "list_all wf_source_filter fs"
  shows "media_reads (map show_source_filter fs) m (m\<lparr>md_source_filters := fs\<rparr>)"
proof -
  have "media_reads (map show_source_filter fs) (m\<lparr>md_source_filters := []\<rparr>) (m\<lparr>md_source_filters := fs\<rparr>)"
  proof (rule media_reads_map)
    fix ys z zs
    assume "fs = ys @ z # zs"
    then show "media_reads [show_source_filter z] (m\<lparr>md_source_filters := ys\<rparr>) (m\<lparr>md_source_filters := ys @ [z]\<rparr>)"
      using media_reads_source_filter [of z "m\<lparr>md_source_filters := ys\<rparr>"] assms(2) by simp
  qed
  then show ?thesis using assms(1) by (simp add: media_unchanged)
qed

lemma lines_of_None: "lines_of None f = []"
  by (simp add: lines_of_def)

lemma media_lines_read:
  assumes wf: "wf_media m" and ls: "media_lines m = Some ls"
  obtains body where "ls = media_line m # body" and "media_reads body (media_start m) (normal_media m)"
proof -
  obtain rs where rs: "(case md_reference_clock m of None \<Rightarrow> Some [] | Some c \<Rightarrow> map_option (\<lambda>l. [l]) (show_reference_clock c)) = Some rs"
    using ls by (auto simp: media_lines_def bind_Some_iff)
  have w: "list_all wf_connection (md_connection_infos m)" "\<And>f. f \<in> set (md_formats m) \<Longrightarrow> wf_format f"
    "distinct (map fm_payload_type (md_formats m))" "pred_option plain_float (md_ptime m)" "pred_option plain_float (md_max_ptime m)"
    "pred_option (\<lambda>s. s \<noteq> [] \<and> newline \<notin> set s) (md_mid m)" "pred_option wf_reference_clock (md_reference_clock m)"
    "pred_option wf_media_clock (md_media_clock m)" "pred_option wf_clock_domain (md_clock_domain m)"
    "list_all wf_source_filter (md_source_filters m)" and none: "md_session_information m = None"
    using wf by (auto simp: wf_media_def list_all_iff)
  have init: "md_connection_infos (media_start m) = []" "md_formats (media_start m) = map bare_format (md_formats m)"
    "md_ptime (media_start m) = None" "md_max_ptime (media_start m) = None" "md_mid (media_start m) = None"
    "md_media_direction (media_start m) = None" "md_reference_clock (media_start m) = None" "md_media_clock (media_start m) = None"
    "md_clock_domain (media_start m) = None" "md_sync_time (media_start m) = None" "md_clock_deviation (media_start m) = None"
    "md_source_filters (media_start m) = []" "md_framecount (media_start m) = None"
    by (simp_all add: media_start_def media_init_def)
  note c = media_step_connections [OF init(1) w(1)]
  note f = media_reads_formats [OF w(2,3), of "(media_start m)\<lparr>md_connection_infos := md_connection_infos m\<rparr>"]
  let ?m = "(media_start m)\<lparr>md_connection_infos := md_connection_infos m, md_formats := md_formats m, md_ptime := md_ptime m,
      md_max_ptime := md_max_ptime m, md_mid := md_mid m, md_media_direction := map_option normal_direction (md_media_direction m),
      md_reference_clock := md_reference_clock m, md_media_clock := md_media_clock m, md_clock_domain := md_clock_domain m,
      md_sync_time := md_sync_time m, md_clock_deviation := md_clock_deviation m, md_source_filters := md_source_filters m,
      md_framecount := md_framecount m\<rparr>"
  let ?body = "map show_connection_info (md_connection_infos m) @
       map (\<lambda>f. ''a=rtpmap:'' @ show_format f) (md_formats m) @
       lines_of (md_ptime m) (\<lambda>v. ''a=ptime:'' @ show_3g v) @
       lines_of (md_max_ptime m) (\<lambda>v. ''a=maxptime:'' @ show_3g v) @
       lines_of (md_mid m) (\<lambda>s. ''a=mid:'' @ s) @
       lines_of (md_media_direction m) (\<lambda>d. ''a='' @ show_media_direction d) @
       rs @
       lines_of (md_media_clock m) show_media_clock_source @
       lines_of (md_clock_domain m) show_ravenna_clock_domain @
       lines_of (md_sync_time m) (\<lambda>n. ''a=sync-time:'' @ show_unsigned n) @
       lines_of (md_clock_deviation m)
         (\<lambda>r. ''a=clock-deviation:'' @ show_unsigned (numerator r) @ ''/'' @ show_unsigned (denominator r)) @
       map show_source_filter (md_source_filters m) @
       lines_of (md_framecount m) (\<lambda>n. ''a=framecount:'' @ show_unsigned n)"
  have r: "media_reads ?body (media_start m) ?m"
    apply (rule media_reads_append [OF c])
    apply (rule media_reads_append [OF f], assumption, simp add: init)
    apply (rule media_reads_append, rule media_steps(1), simp add: init, rule w)
    apply (rule media_reads_append, rule media_steps(2), simp add: init, rule w)
    apply (rule media_reads_append, rule media_steps(3), simp add: init, rule w)
    apply (rule media_reads_append, rule media_steps(4), simp add: init)
    apply (rule media_reads_append, rule media_step_reference [OF _ w(7) rs], simp add: init)
    apply (rule media_reads_append, rule media_steps(5), simp add: init, rule w)
    apply (rule media_reads_append, rule media_steps(6), simp add: init, rule w)
    apply (rule media_reads_append, rule media_steps(7), simp add: init)
    apply (rule media_reads_append, rule media_steps(8), simp add: init)
    apply (rule media_reads_append, rule media_step_filters, simp add: init, rule w)
    apply (rule media_steps(9), simp add: init)
    done
  have e: "?m = normal_media m" using none by (cases m) (simp add: media_start_def media_init_def normal_media_def)
  have "Some ls = Some ([media_line m] @ ?body)"
    unfolding ls [symmetric] media_lines_def rs none by (simp only: lines_of_None Option.bind.simps append_Nil)
  then have l: "ls = media_line m # ?body" by (simp only: option.inject append_Cons append_Nil)
  show ?thesis by (rule that [OF l r [unfolded e]])
qed

section \<open>Session descriptions\<close>

lemma reads_media_description:
  assumes "wf_media m" and "show_media_description k_sdp_crlf m = Some t"
  obtains ls where "t = text_of_lines k_sdp_crlf ls"
    and "reads ls sd (sd\<lparr>sd_media_descriptions := sd_media_descriptions sd @ [normal_media m]\<rparr>)"
proof -
  obtain ls where ls: "media_lines m = Some ls" "t = text_of_lines k_sdp_crlf ls"
    using assms(2) by (auto simp: show_media_description_def)
  obtain body where body: "ls = media_line m # body" "media_reads body (media_start m) (normal_media m)"
    using media_lines_read [OF assms(1) ls(1)] .
  have "reads [media_line m] sd (sd\<lparr>sd_media_descriptions := sd_media_descriptions sd @ [media_start m]\<rparr>)"
    by (rule reads_line)
      (simp_all add: media_line_plain [OF assms(1)] parse_media_line [OF assms(1)] parse_line_def map_parsed_def)
  from reads_append [OF this body(2) [unfolded media_reads_def, rule_format, of "sd_media_descriptions sd" sd]]
  have "reads ls sd (sd\<lparr>sd_media_descriptions := sd_media_descriptions sd @ [normal_media m]\<rparr>)" by (simp add: body(1))
  with ls(2) show ?thesis by (rule that)
qed

lemma reads_media_descriptions:
  assumes "list_all wf_media ms" and "show_media_descriptions ms = Some t"
  shows "\<exists>ls. t = text_of_lines k_sdp_crlf ls \<and>
    reads ls sd (sd\<lparr>sd_media_descriptions := sd_media_descriptions sd @ map normal_media ms\<rparr>)"
  using assms
proof (induction ms arbitrary: t sd)
  case Nil
  then show ?case by (intro exI [of _ "[]"]) (auto simp: text_of_lines_def)
next
  case (Cons m ms)
  then obtain u v where t: "t = u @ v" and u: "show_media_description k_sdp_crlf m = Some u" and v: "show_media_descriptions ms = Some v"
    by (auto simp: bind_Some_iff)
  obtain ls where ls: "u = text_of_lines k_sdp_crlf ls"
    "reads ls sd (sd\<lparr>sd_media_descriptions := sd_media_descriptions sd @ [normal_media m]\<rparr>)"
    by (rule reads_media_description [OF _ u, where sd = sd]) (use Cons.prems in simp_all)
  obtain ls' where ls': "v = text_of_lines k_sdp_crlf ls'"
    "reads ls' (sd\<lparr>sd_media_descriptions := sd_media_descriptions sd @ [normal_media m]\<rparr>)
       (sd\<lparr>sd_media_descriptions := sd_media_descriptions sd @ normal_media m # map normal_media ms\<rparr>)"
    using Cons.IH [OF _ v, of "sd\<lparr>sd_media_descriptions := sd_media_descriptions sd @ [normal_media m]\<rparr>"] Cons.prems by auto
  then show ?case using ls reads_append [OF ls(2) ls'(2)] t
    by (intro exI [of _ "ls @ ls'"]) (simp add: text_of_lines_def)
qed

lemma session_attribute_key:
  assumes "newline \<notin> set b" and "CHR '':'' \<notin> set key" and "newline \<notin> set key" and "sd_media_descriptions sd = []"
    and "session_attribute key b sd = Some (Inr sd')"
  shows "reads [''a='' @ key @ '':'' @ b] sd sd'"
  by (rule reads_line) (use assms in \<open>simp_all add: parse_line_def session_parse_attribute_def parse_simps\<close>)

lemma reads_session_direction:
  assumes "sd_media_descriptions sd = []"
  shows "reads [''a='' @ show_media_direction d] sd (sd\<lparr>sd_media_direction := Some (normal_direction d)\<rparr>)"
  by (rule reads_line; cases d)
    (simp_all add: assms parse_line_def session_parse_attribute_def session_attribute_def normal_direction_def sdp_constants
      skip_string_eval split_char_def)

lemma optional_value_here: "b \<noteq> [] \<Longrightarrow> p b = Inr x \<Longrightarrow> optional_value b p f u = Inr (f x)"
  by (simp add: optional_value_def parse_simps)

lemmas session_keys = session_attribute_def sdp_constants

lemma reads_session_reference_clock:
  assumes "wf_reference_clock c" and "show_reference_clock c = Some l" and "sd_media_descriptions sd = []"
  shows "reads [l] sd (sd\<lparr>sd_reference_clock := Some c\<rparr>)"
proof -
  obtain b where b: "l = ''a=ts-refclk:'' @ b" "b \<noteq> []" "newline \<notin> set b" "parse_reference_clock b = Inr c"
    using reference_clock_field.shown [OF assms(1)] assms(2) by auto
  then show ?thesis using session_attribute_key [OF b(3), of "''ts-refclk''" sd] assms(3)
    by (simp add: session_keys optional_value_here)
qed

lemma reads_session_media_clock:
  assumes "wf_media_clock c" and "sd_media_descriptions sd = []"
  shows "reads [show_media_clock_source c] sd (sd\<lparr>sd_media_clock := Some c\<rparr>)"
proof -
  obtain b where b: "show_media_clock_source c = ''a=mediaclk:'' @ b" "b \<noteq> []" "newline \<notin> set b" "parse_media_clock_source b = Inr c"
    using media_clock_field.shown [OF assms(1)] by auto
  then show ?thesis using session_attribute_key [OF b(3), of "''mediaclk''" sd] assms(2) by (simp add: session_keys optional_value_here)
qed

lemma reads_session_clock_domain:
  assumes "wf_clock_domain d" and "sd_media_descriptions sd = []"
  shows "reads [show_ravenna_clock_domain d] sd (sd\<lparr>sd_clock_domain := Some d\<rparr>)"
proof -
  obtain b where b: "show_ravenna_clock_domain d = ''a=clock-domain:'' @ b" "b \<noteq> []" "newline \<notin> set b"
    "parse_ravenna_clock_domain b = Inr d"
    using clock_domain_field.shown [OF assms(1)] by auto
  then show ?thesis using session_attribute_key [OF b(3), of "''clock-domain''" sd] assms(2)
    by (simp add: session_keys optional_value_here)
qed

lemma reads_session_group:
  assumes "wf_group g" and "sd_media_descriptions sd = []"
  shows "reads [show_group g] sd (sd\<lparr>sd_group := Some g\<rparr>)"
proof -
  obtain b where b: "show_group g = ''a=group:'' @ b" "b \<noteq> []" "newline \<notin> set b" "parse_group b = Some (Inr g)"
    using group_field.shown [OF assms(1)] by auto
  then show ?thesis using session_attribute_key [OF b(3), of "''group''" sd] assms(2) by (simp add: session_keys parse_simps)
qed

lemma reads_session_source_filter:
  assumes "wf_source_filter f" and "sd_media_descriptions sd = []"
  shows "reads [show_source_filter f] sd (sd\<lparr>sd_source_filters := sd_source_filters sd @ [f]\<rparr>)"
proof -
  obtain b where b: "show_source_filter f = ''a=source-filter:'' @ b" "b \<noteq> []" "newline \<notin> set b" "parse_source_filter b = Inr f"
    using source_filter_field.shown [OF assms(1)] by auto
  then show ?thesis using session_attribute_key [OF b(3), of "''source-filter''" sd] assms(2)
    by (simp add: session_keys read_value_here)
qed

lemma origin_line:
  assumes "wf_origin x"
  shows "parse_origin (show_origin x) = Inr (normal_origin x)" and "newline \<notin> set (show_origin x)" and "show_origin x \<noteq> []"
    and "hd (show_origin x) = CHR ''o''"
proof -
  show "parse_origin (show_origin x) = Inr (normal_origin x)" "newline \<notin> set (show_origin x)"
    using origin_field.shown [OF assms] by auto
qed (simp_all add: show_origin_def)

lemma time_line:
  "parse_time_active (show_time_active x) = Inr x" "newline \<notin> set (show_time_active x)" "show_time_active x \<noteq> []"
  "hd (show_time_active x) = CHR ''t''"
proof -
  show "parse_time_active (show_time_active x) = Inr x" "newline \<notin> set (show_time_active x)"
    using time_field.shown [of x] by auto
qed (simp_all add: show_time_active_def)

lemma reads_session_lines:
  assumes "sd_media_descriptions sd = []"
  shows "reads [''v='' @ show_signed (0 :: u32)] sd (sd\<lparr>sd_version := 0\<rparr>)"
    and "wf_origin o' \<Longrightarrow> reads [show_origin o'] sd (sd\<lparr>sd_origin := normal_origin o'\<rparr>)"
    and "newline \<notin> set n \<Longrightarrow> reads [''s='' @ n] sd (sd\<lparr>sd_session_name := n\<rparr>)"
    and "reads [show_time_active t] sd (sd\<lparr>sd_time_active := t\<rparr>)"
    and "wf_connection c \<Longrightarrow> reads [show_connection_info c] sd (sd\<lparr>sd_connection_info := Some c\<rparr>)"
proof -
  show "reads [''v='' @ show_signed (0 :: u32)] sd (sd\<lparr>sd_version := 0\<rparr>)"
    by (rule reads_line) (simp_all add: parse_line_def parse_version_def map_parsed_def starts_with_def parse_simps)
  show "reads [show_origin o'] sd (sd\<lparr>sd_origin := normal_origin o'\<rparr>)" if "wf_origin o'"
    by (intro reads_line) (simp_all add: parse_line_def origin_line [OF that] map_parsed_def)
  show "reads [''s='' @ n] sd (sd\<lparr>sd_session_name := n\<rparr>)" if "newline \<notin> set n"
    using that by (intro reads_line) (simp_all add: parse_line_def line_value_def)
  show "reads [show_time_active t] sd (sd\<lparr>sd_time_active := t\<rparr>)"
    by (intro reads_line) (simp_all add: parse_line_def time_line map_parsed_def)
  show "reads [show_connection_info c] sd (sd\<lparr>sd_connection_info := Some c\<rparr>)" if "wf_connection c"
    by (intro reads_line) (simp_all add: parse_line_def connection_line [OF that] map_parsed_def assms)
qed

definition wf_session :: "session_description \<Rightarrow> bool" where
  "wf_session sd \<longleftrightarrow>
     sd_version sd = 0 \<and> wf_origin (sd_origin sd) \<and> or_session_id (sd_origin sd) \<noteq> [] \<and> newline \<notin> set (sd_session_name sd) \<and>
     pred_option wf_connection (sd_connection_info sd) \<and> pred_option wf_reference_clock (sd_reference_clock sd) \<and>
     pred_option wf_media_clock (sd_media_clock sd) \<and> pred_option wf_clock_domain (sd_clock_domain sd) \<and>
     pred_option wf_group (sd_group sd) \<and> list_all wf_source_filter (sd_source_filters sd) \<and>
     list_all wf_media (sd_media_descriptions sd)"

text \<open>
  What is read back: an empty user or session name as \<open>-\<close>, inactive as receiving only; the session information, the sync time and
  unknown attributes are not written.
\<close>

definition normal_session :: "session_description \<Rightarrow> session_description" where
  "normal_session sd = sd\<lparr>sd_origin := normal_origin (sd_origin sd),
     sd_session_name := if sd_session_name sd = [] then ''-'' else sd_session_name sd, sd_session_information := None,
     sd_media_direction := map_option normal_direction (sd_media_direction sd), sd_sync_time := None, sd_attributes := Map.empty,
     sd_media_descriptions := map normal_media (sd_media_descriptions sd)\<rparr>"

lemma session_unchanged:
  "sd_group s = None \<Longrightarrow> s\<lparr>sd_group := None\<rparr> = s" "sd_connection_info s = None \<Longrightarrow> s\<lparr>sd_connection_info := None\<rparr> = s"
  "sd_clock_domain s = None \<Longrightarrow> s\<lparr>sd_clock_domain := None\<rparr> = s" "sd_reference_clock s = None \<Longrightarrow> s\<lparr>sd_reference_clock := None\<rparr> = s"
  "sd_media_direction s = None \<Longrightarrow> s\<lparr>sd_media_direction := None\<rparr> = s" "sd_media_clock s = None \<Longrightarrow> s\<lparr>sd_media_clock := None\<rparr> = s"
  "sd_source_filters s = [] \<Longrightarrow> s\<lparr>sd_source_filters := []\<rparr> = s"
  by (cases s; simp)+

lemma session_steps:
  assumes "sd_media_descriptions s = []"
  shows "sd_group s = None \<Longrightarrow> pred_option wf_group g \<Longrightarrow> reads (lines_of g show_group) s (s\<lparr>sd_group := g\<rparr>)"
    and "sd_connection_info s = None \<Longrightarrow> pred_option wf_connection c \<Longrightarrow>
      reads (lines_of c show_connection_info) s (s\<lparr>sd_connection_info := c\<rparr>)"
    and "sd_clock_domain s = None \<Longrightarrow> pred_option wf_clock_domain k \<Longrightarrow>
      reads (lines_of k show_ravenna_clock_domain) s (s\<lparr>sd_clock_domain := k\<rparr>)"
    and "sd_media_direction s = None \<Longrightarrow>
      reads (lines_of d (\<lambda>d. ''a='' @ show_media_direction d)) s (s\<lparr>sd_media_direction := map_option normal_direction d\<rparr>)"
    and "sd_media_clock s = None \<Longrightarrow> pred_option wf_media_clock m \<Longrightarrow>
      reads (lines_of m show_media_clock_source) s (s\<lparr>sd_media_clock := m\<rparr>)"
  by (rule reads_lines_of; simp add: session_unchanged assms reads_session_group reads_session_lines reads_session_clock_domain
      reads_session_direction reads_session_media_clock del: append.simps)+

lemma session_step_reference:
  assumes "sd_media_descriptions s = []" and "sd_reference_clock s = None" and "pred_option wf_reference_clock c"
    and "(case c of None \<Rightarrow> Some [] | Some c \<Rightarrow> map_option (\<lambda>l. [l]) (show_reference_clock c)) = Some ls"
  shows "reads ls s (s\<lparr>sd_reference_clock := c\<rparr>)"
  using assms by (cases c) (auto simp: session_unchanged intro: reads_session_reference_clock)

lemma session_step_filters:
  assumes "sd_media_descriptions s = []" and "sd_source_filters s = []" and "list_all wf_source_filter fs"
  shows "reads (map show_source_filter fs) s (s\<lparr>sd_source_filters := fs\<rparr>)"
proof -
  have "reads (map show_source_filter fs) (s\<lparr>sd_source_filters := []\<rparr>) (s\<lparr>sd_source_filters := fs\<rparr>)"
  proof (rule reads_map)
    fix ys z zs
    assume "fs = ys @ z # zs"
    then show "reads [show_source_filter z] (s\<lparr>sd_source_filters := ys\<rparr>) (s\<lparr>sd_source_filters := ys @ [z]\<rparr>)"
      using reads_session_source_filter [of z "s\<lparr>sd_source_filters := ys\<rparr>"] assms by simp
  qed
  then show ?thesis using assms(2) by (simp add: session_unchanged)
qed

lemma session_lines_read:
  assumes wf: "wf_session sd" and ls: "session_lines sd = Some ls"
  shows "reads ls session_description_init ((normal_session sd)\<lparr>sd_media_descriptions := []\<rparr>)"
proof -
  obtain rs where rs: "(case sd_reference_clock sd of None \<Rightarrow> Some [] | Some c \<Rightarrow> map_option (\<lambda>l. [l]) (show_reference_clock c)) = Some rs"
    using ls by (auto simp: session_lines_def bind_Some_iff)
  have w: "wf_origin (sd_origin sd)" "pred_option wf_connection (sd_connection_info sd)"
    "pred_option wf_reference_clock (sd_reference_clock sd)" "pred_option wf_media_clock (sd_media_clock sd)"
    "pred_option wf_clock_domain (sd_clock_domain sd)" "pred_option wf_group (sd_group sd)"
    "list_all wf_source_filter (sd_source_filters sd)" and v: "sd_version sd = 0"
    and n: "newline \<notin> set (if sd_session_name sd = [] then ''-'' else sd_session_name sd)"
    using wf by (simp_all add: wf_session_def)
  let ?init = session_description_init
  have init: "sd_media_descriptions ?init = []" "sd_group ?init = None" "sd_connection_info ?init = None" "sd_clock_domain ?init = None"
    "sd_reference_clock ?init = None" "sd_media_direction ?init = None" "sd_media_clock ?init = None" "sd_source_filters ?init = []"
    by (simp_all add: session_description_init_def)
  let ?name = "if sd_session_name sd = [] then ''-'' else sd_session_name sd"
  let ?s = "?init\<lparr>sd_version := 0, sd_origin := normal_origin (sd_origin sd), sd_session_name := ?name,
      sd_time_active := sd_time_active sd, sd_group := sd_group sd, sd_connection_info := sd_connection_info sd,
      sd_clock_domain := sd_clock_domain sd, sd_reference_clock := sd_reference_clock sd,
      sd_media_direction := map_option normal_direction (sd_media_direction sd), sd_media_clock := sd_media_clock sd,
      sd_source_filters := sd_source_filters sd\<rparr>"
  have "Some ls = Some ([''v='' @ show_signed (sd_version sd)] @ [show_origin (sd_origin sd)] @ [''s='' @ ?name] @
       [show_time_active (sd_time_active sd)] @ lines_of (sd_group sd) show_group @
       lines_of (sd_connection_info sd) show_connection_info @ lines_of (sd_clock_domain sd) show_ravenna_clock_domain @ rs @
       lines_of (sd_media_direction sd) (\<lambda>d. ''a='' @ show_media_direction d) @ lines_of (sd_media_clock sd) show_media_clock_source @
       map show_source_filter (sd_source_filters sd))"
    unfolding ls [symmetric] session_lines_def rs by (simp only: Option.bind.simps)
  then have l: "ls = [''v='' @ show_signed (0 :: u32)] @ [show_origin (sd_origin sd)] @ [''s='' @ ?name] @
       [show_time_active (sd_time_active sd)] @ lines_of (sd_group sd) show_group @
       lines_of (sd_connection_info sd) show_connection_info @ lines_of (sd_clock_domain sd) show_ravenna_clock_domain @ rs @
       lines_of (sd_media_direction sd) (\<lambda>d. ''a='' @ show_media_direction d) @ lines_of (sd_media_clock sd) show_media_clock_source @
       map show_source_filter (sd_source_filters sd)"
    unfolding v by (simp only: option.inject)
  have "reads ls ?init ?s"
    unfolding l
    apply (rule reads_append, rule reads_session_lines(1), simp add: init)
    apply (rule reads_append, rule reads_session_lines(2), simp add: init, rule w)
    apply (rule reads_append, rule reads_session_lines(3), simp add: init, rule n)
    apply (rule reads_append, rule reads_session_lines(4), simp add: init)
    apply (rule reads_append, rule session_steps(1), simp add: init, simp add: init, rule w)
    apply (rule reads_append, rule session_steps(2), simp add: init, simp add: init, rule w)
    apply (rule reads_append, rule session_steps(3), simp add: init, simp add: init, rule w)
    apply (rule reads_append, rule session_step_reference [OF _ _ w(3) rs], simp add: init, simp add: init)
    apply (rule reads_append, rule session_steps(4), simp add: init, simp add: init)
    apply (rule reads_append, rule session_steps(5), simp add: init, simp add: init, rule w)
    apply (rule session_step_filters, simp add: init, simp add: init, rule w)
    done
  moreover have "?s = (normal_session sd)\<lparr>sd_media_descriptions := []\<rparr>"
    using v by (cases sd) (simp add: session_description_init_def normal_session_def)
  ultimately show ?thesis by simp
qed

lemma reference_lines_defined:
  "pred_option wf_reference_clock c \<Longrightarrow>
     \<exists>ls. (case c of None \<Rightarrow> Some [] | Some c \<Rightarrow> map_option (\<lambda>l. [l]) (show_reference_clock c)) = Some ls"
  using reference_clock_field.shown_defined by (cases c) auto

lemma media_shown:
  assumes "wf_media m"
  shows "\<exists>t. show_media_description nl m = Some t"
proof -
  have "pred_option wf_reference_clock (md_reference_clock m)" using assms by (simp add: wf_media_def)
  from reference_lines_defined [OF this] show ?thesis by (auto simp: show_media_description_def media_lines_def)
qed

lemma medias_shown: "list_all wf_media ms \<Longrightarrow> \<exists>t. show_media_descriptions ms = Some t"
proof (induction ms)
  case (Cons m ms)
  then show ?case using media_shown [of m k_sdp_crlf] by auto
qed simp

lemma session_shown:
  assumes "wf_session sd"
  shows "\<exists>ls t. session_lines sd = Some ls \<and> show_media_descriptions (sd_media_descriptions sd) = Some t \<and>
    show_session_description nl sd = Some (Some (text_of_lines nl ls @ t))"
proof -
  have "pred_option wf_reference_clock (sd_reference_clock sd)" "list_all wf_media (sd_media_descriptions sd)"
    using assms by (simp_all add: wf_session_def)
  then obtain rs t where "(case sd_reference_clock sd of None \<Rightarrow> Some [] | Some c \<Rightarrow> map_option (\<lambda>l. [l]) (show_reference_clock c)) = Some rs"
    and "show_media_descriptions (sd_media_descriptions sd) = Some t"
    using reference_lines_defined medias_shown by meson
  moreover have "validate_origin (sd_origin sd) = Inr ()"
    using assms by (auto simp: wf_session_def wf_origin_def validate_origin_def)
  ultimately show ?thesis by (simp add: show_session_description_def session_lines_def)
qed

text \<open>The normal form prints as the description does.\<close>

lemma show_normal_direction [simp]: "show_media_direction (normal_direction d) = show_media_direction d"
  by (cases d) (simp_all add: normal_direction_def sdp_constants)

lemma lines_of_map [simp]: "lines_of (map_option f v) g = lines_of v (\<lambda>x. g (f x))"
  by (cases v) (simp_all add: lines_of_def)

lemma show_normal_origin [simp]: "show_origin (normal_origin f) = show_origin f" "validate_origin (normal_origin f) = validate_origin f"
  by (simp_all add: show_origin_def normal_origin_def validate_origin_def)

lemma show_normal_media: "show_media_description nl (normal_media m) = show_media_description nl m"
proof -
  have "media_lines (normal_media m) = media_lines m"
    unfolding media_lines_def media_line_def normal_media_def by (simp del: append.simps)
  then show ?thesis by (simp add: show_media_description_def)
qed

lemma show_normal_medias: "show_media_descriptions (map normal_media ms) = show_media_descriptions ms"
  by (induction ms) (simp_all add: show_normal_media)

lemma show_normal_session: "show_session_description nl (normal_session sd) = show_session_description nl sd"
proof -
  have "session_lines (normal_session sd) = session_lines sd"
    unfolding session_lines_def normal_session_def by (simp del: append.simps)
  moreover have "sd_origin (normal_session sd) = normal_origin (sd_origin sd)"
    "sd_media_descriptions (normal_session sd) = map normal_media (sd_media_descriptions sd)" by (simp_all add: normal_session_def)
  ultimately show ?thesis by (simp only: show_session_description_def show_normal_medias show_normal_origin)
qed

lemma session_read_back:
  assumes "wf_session sd"
  shows "\<exists>text. show_session_description k_sdp_crlf sd = Some (Some text) \<and>
    parse_session_description text = Some (Inr (normal_session sd)) \<and>
    show_session_description k_sdp_crlf (normal_session sd) = Some (Some text)"
proof -
  obtain ls t where ls: "session_lines sd = Some ls" and t: "show_media_descriptions (sd_media_descriptions sd) = Some t"
    and shown: "show_session_description k_sdp_crlf sd = Some (Some (text_of_lines k_sdp_crlf ls @ t))"
    using session_shown [OF assms] by blast
  let ?s = "(normal_session sd)\<lparr>sd_media_descriptions := []\<rparr>"
  have "list_all wf_media (sd_media_descriptions sd)" using assms by (simp add: wf_session_def)
  then obtain ms where ms: "t = text_of_lines k_sdp_crlf ms"
    "reads ms ?s (?s\<lparr>sd_media_descriptions := map normal_media (sd_media_descriptions sd)\<rparr>)"
    using reads_media_descriptions [OF _ t, of ?s] by auto
  have "?s\<lparr>sd_media_descriptions := map normal_media (sd_media_descriptions sd)\<rparr> = normal_session sd"
    by (simp add: normal_session_def)
  then have "reads (ls @ ms) session_description_init (normal_session sd)"
    using reads_append [OF session_lines_read [OF assms ls] ms(2)] by simp
  then have "parse_lines (text_of_lines k_sdp_crlf ls @ t) session_description_init = parse_lines [] (normal_session sd)"
    unfolding reads_def ms(1) by (metis append.right_neutral concat_append map_append text_of_lines_def)
  then have "parse_session_description (text_of_lines k_sdp_crlf ls @ t) = Some (Inr (normal_session sd))"
    unfolding parse_session_description_def by (simp add: parse_lines.simps [of "[]"] read_line_empty)
  with shown show ?thesis by (simp add: show_normal_session)
qed

text \<open>A stream of two channels with the fields the library writes for its own sessions.\<close>

definition demo_media :: media_description where
  "demo_media = media_init\<lparr>md_media_type := ''audio'', md_port := 5004, md_number_of_ports := 1, md_protocol := ''RTP/AVP'',
     md_formats := [\<lparr>fm_payload_type = 98, fm_encoding_name = ''L24'', fm_clock_rate = 48000, fm_num_channels = 2\<rparr>],
     md_connection_infos := [\<lparr>ci_network_type = Netw_internet, ci_address_type = Addr_ipv4, ci_address = ''239.1.16.51'',
       ci_ttl = Some 15, ci_number_of_addresses = None\<rparr>],
     md_ptime := Some (Finite (of_nat 100 / 10 ^ 2)), md_media_direction := Some Recvonly,
     md_reference_clock := Some \<lparr>rc_source = Source_ptp, rc_ptp_version = Some IEEE_1588_2008, rc_gmid = Some ''00-1D-C1-FF-FE-51-9E-F7'',
       rc_domain = Some 0\<rparr>,
     md_media_clock := Some \<lparr>mc_mode = Mode_direct, mc_offset = Some 0, mc_rate = None\<rparr>, md_sync_time := Some 0,
     md_framecount := Some 48\<rparr>"

definition demo_session :: session_description where
  "demo_session = session_description_init\<lparr>
     sd_origin := \<lparr>or_username = [], or_session_id = ''13'', or_session_version = 1, or_network_type = Netw_internet,
       or_address_type = Addr_ipv4, or_unicast_address = ''192.168.15.52''\<rparr>,
     sd_session_name := ''Anubis'', sd_media_descriptions := [demo_media],
     sd_source_filters := [\<lparr>sf_mode = Filter_include, sf_net_type = Netw_internet, sf_addr_type = Addr_ipv4,
       sf_dest_address = ''239.1.16.51'', sf_src_list = [''192.168.15.52'']\<rparr>]\<rparr>"

lemma demo_wf: "wf_session demo_session"
proof -
  have "plain_float (Finite (of_nat 100 / 10 ^ 2))" unfolding plain_float_def by (intro disjI2 exI [of _ 100] exI [of _ 2]) simp
  then have "wf_media demo_media"
    by (simp add: demo_media_def media_init_def wf_media_def no_char_def wf_format_def wf_connection_def wf_reference_clock_def
        wf_media_clock_def)
  then show ?thesis
    by (simp add: demo_session_def session_description_init_def wf_session_def wf_origin_def no_char_def wf_source_filter_def
        source_loop_upper_bound_def)
qed

text \<open>
  C5: the text of a well-formed session description is read back as the description in its normal form, and that
  normal form prints as the same text. The normal form is the description itself but for an empty user or session name (\<open>-\<close>), the
  direction inactive (receiving only) and three fields that are not written: the session information, the sync time and unknown attributes.
\<close>

theorem sdp_roundtrip:
  assumes "wf_session sd"
  shows "\<exists>text. show_session_description k_sdp_crlf sd = Some (Some text) \<and>
    parse_session_description text = Some (Inr (normal_session sd)) \<and>
    show_session_description k_sdp_crlf (normal_session sd) = Some (Some text)"
  by (rule session_read_back [OF assms])

theorem sdp_roundtrip_witness:
  "\<exists>text. show_session_description k_sdp_crlf demo_session = Some (Some text) \<and>
    parse_session_description text = Some (Inr (normal_session demo_session)) \<and>
    show_session_description k_sdp_crlf (normal_session demo_session) = Some (Some text)"
  by (rule sdp_roundtrip [OF demo_wf])

end
