(* ===== verification/Sdp_Errors.thy ===== *)
theory Sdp_Errors
  imports Sdp_Roundtrip
begin

text \<open>
  What the SDP parser accepts, rejects and throws on: the values of accepted descriptions, texts of other programs that it refuses, and
  where a number is read from the next line.
\<close>

section \<open>Texts that are refused\<close>

lemma parse_lines_crlf:
  assumes "l \<noteq> []" and "newline \<notin> set l"
  shows "parse_lines (l @ k_sdp_crlf @ rest) sd =
    (case parse_line l (k_sdp_crlf @ rest) sd of None \<Rightarrow> None | Some (Inl e) \<Rightarrow> Some (Inl e) | Some (Inr sd') \<Rightarrow> parse_lines rest sd')"
proof -
  have "read_line (l @ k_sdp_crlf @ rest) = (Some l, rest)"
    using read_line_crlf [OF assms(2), of rest] by (simp add: k_sdp_crlf_def)
  then show ?thesis using assms(1) by (subst parse_lines.simps) simp
qed

text \<open>
  The attribute \<open>a=inactive\<close> makes the parser refuse the whole text, whatever else it contains: the constant
  for it is the word for receiving only, and an attribute that is not known needs a value.
\<close>

theorem sdp_inactive_rejected:
  "parse_session_description (''a=inactive'' @ k_sdp_crlf @ rest) = Some (Inl ''media: failed to parse attribute value'') \<and>
   parse_line ''a=inactive'' tail sd = Some (Inl ''media: failed to parse attribute value'') \<and>
   show_media_direction Inactive = show_media_direction Recvonly"
proof -
  have f: "find_char (CHR '':'') ''inactive'' = None" by (simp add: find_char_None)
  have l: "parse_line ''a=inactive'' tail sd = Some (Inl ''media: failed to parse attribute value'')" for tail sd
    using f by (simp add: parse_line_def media_parse_attribute_def session_parse_attribute_def skip_string_eval split_char_def
        media_attribute_def session_attribute_def sdp_constants parse_simps map_parsed_def Let_def)
  moreover have "parse_session_description (''a=inactive'' @ k_sdp_crlf @ rest) = Some (Inl ''media: failed to parse attribute value'')"
    unfolding parse_session_description_def by (subst parse_lines_crlf) (use l in \<open>simp_all del: append.simps\<close>)
  ultimately show ?thesis by (simp add: sdp_constants)
qed

text \<open>
  The parser throws instead of returning an error for a line that is only the letter \<open>s\<close> or \<open>i\<close>, and for a group whose
  type is not \<open>DUP\<close>, as lip synchronisation.
\<close>

theorem sdp_parser_throws:
  "parse_session_description (''s'' @ k_sdp_crlf @ rest) = None \<and>
   parse_session_description (''i'' @ k_sdp_crlf @ rest) = None \<and>
   parse_session_description (''a=group:LS 1 2'' @ k_sdp_crlf @ rest) = None"
proof -
  have "parse_line ''s'' tail sd = None" "parse_line ''i'' tail sd = None" for tail sd
    by (simp_all add: parse_line_def line_value_def)
  moreover have "parse_line ''a=group:LS 1 2'' tail session_description_init = None" for tail
  proof -
    have "split_char (CHR '':'') False ''group:LS 1 2'' = (Some ''group'', ''LS 1 2'')"
      using split_char_here [of "CHR '':''" "''group''" "''LS 1 2''"] by simp
    moreover have "read_until_char (CHR '' '') False ''LS 1 2'' = (Some ''LS'', ''1 2'')"
      using read_until_char_here [of "CHR '' ''" "''LS''" "''1 2''"] by simp
    ultimately show ?thesis
      by (simp add: parse_line_def session_description_init_def session_parse_attribute_def session_attribute_def skip_string_eval
          sdp_constants parse_simps parse_group_def)
  qed
  ultimately show ?thesis
    unfolding parse_session_description_def by (intro conjI; subst parse_lines_crlf) simp_all
qed

text \<open>
  The value of \<open>ptime\<close> is read up to the end of the text, not of its line: with only spaces after the colon the number is taken from the next
  line.
\<close>

lemma ptime_reads_next_line:
  assumes "plain_float v" and "space_or_end t"
  shows "media_parse_attribute ''a=ptime: '' (k_sdp_crlf @ show_3g v @ t) m = Inr (m\<lparr>md_ptime := Some v\<rparr>)"
proof -
  have "strtof ('' '' @ k_sdp_crlf @ show_3g v @ u) = strtof (show_3g v @ u)" for u
    by (simp add: strtof_def k_sdp_crlf_def is_space_def)
  then have "string_to_float ('' '' @ k_sdp_crlf @ show_3g v @ t) = string_to_float (show_3g v @ t)"
    using takeWhile_append2 [of "[CHR '' '', carriage_return, newline]" "\<lambda>c. c \<noteq> CHR 0x00"]
      show_3g_chars [OF assms(1)]
    by (simp add: string_to_float_def k_sdp_crlf_def strtof_def is_space_def)
  then have "parse_ptime ''ptime'' (k_sdp_crlf @ show_3g v @ t) '' '' = Inr v"
    using string_to_float_show_3g [OF assms] plain_float_positive [OF assms(1)] by (simp add: parse_ptime_def)
  moreover have "split_char (CHR '':'') False ''ptime: '' = (Some ''ptime'', '' '')"
    using split_char_here [of "CHR '':''" "''ptime''" "'' ''"] by simp
  ultimately show ?thesis
    by (simp add: media_parse_attribute_def media_attribute_def sdp_constants skip_string_eval read_value_here)
qed

text \<open>A packet time that is no number or infinite is accepted.\<close>

lemma ptime_not_a_number: "parse_ptime name [] ''nan'' = Inr Not_a_number" "parse_ptime name [] ''inf'' = Inr (Infinite False)"
  by (simp_all add: parse_ptime_def string_to_float_def strtof_def starts_with_def to_lower_def is_space_def float_negative_def)

text \<open>A media description with a title writes it as a line \<open>s=\<close>, which is read as the name of the session.\<close>

lemma media_title_renames_session:
  assumes "md_session_information m = Some title" and "media_lines m = Some ls" and "newline \<notin> set title"
  shows "''s='' @ title \<in> set ls" and "reads [''s='' @ title] sd (sd\<lparr>sd_session_name := title\<rparr>)"
proof -
  show "''s='' @ title \<in> set ls" using assms(1,2) by (auto simp: media_lines_def bind_Some_iff lines_of_def [of "Some title"])
  show "reads [''s='' @ title] sd (sd\<lparr>sd_session_name := title\<rparr>)"
    using assms(3) by (intro reads_line) (simp_all add: parse_line_def line_value_def)
qed

text \<open>The formats the library can write and read back.\<close>

lemma audio_format_in_sdp:
  assumes "format_of_audio_format f = Some s"
  shows "audio_format_of_format s =
    (if af_encoding f = Pcm_u8 then None else Some (f\<lparr>af_byte_order := Order_be, af_ordering := Interleaved\<rparr>))"
  using assms by (cases f) (auto simp: format_of_audio_format_def audio_format_of_format_def split: audio_encoding.splits)

section \<open>Texts that are accepted\<close>

text \<open>What holds of every field that a parser returns.\<close>

definition typed_connection :: "connection_info_field \<Rightarrow> bool" where
  "typed_connection f \<longleftrightarrow> ci_network_type f = Netw_internet \<and>
     (ci_address_type f = Addr_ipv4 \<and> (ci_ttl f = None \<longrightarrow> ci_number_of_addresses f = None) \<or>
      ci_address_type f = Addr_ipv6 \<and> ci_ttl f = None)"

definition typed_reference_clock :: "reference_clock \<Rightarrow> bool" where
  "typed_reference_clock c \<longleftrightarrow> rc_source c = Source_ptp \<and> rc_ptp_version c \<noteq> None \<and> (rc_domain c \<noteq> None \<longrightarrow> rc_gmid c \<noteq> None)"

definition typed_source_filter :: "source_filter \<Rightarrow> bool" where
  "typed_source_filter f \<longleftrightarrow> sf_mode f \<noteq> Filter_undefined \<and> sf_net_type f = Netw_internet \<and> sf_addr_type f \<noteq> Addr_undefined \<and>
     sf_dest_address f \<noteq> [] \<and> [] \<notin> set (sf_src_list f)"

definition typed_media :: "media_description \<Rightarrow> bool" where
  "typed_media m \<longleftrightarrow> list_all typed_connection (md_connection_infos m) \<and> list_all typed_source_filter (md_source_filters m) \<and>
     pred_option typed_reference_clock (md_reference_clock m) \<and> pred_option (\<lambda>d. cd_source d = Sync_ptp_v2) (md_clock_domain m) \<and>
     pred_option (\<lambda>v. \<not> float_negative v) (md_ptime m) \<and> pred_option (\<lambda>v. \<not> float_negative v) (md_max_ptime m) \<and>
     pred_option (\<lambda>s. s \<noteq> []) (md_mid m) \<and> md_media_direction m \<noteq> Some Inactive"

definition typed_session :: "session_description \<Rightarrow> bool" where
  "typed_session sd \<longleftrightarrow> sd_version sd = 0 \<and> (sd_origin sd = origin_init \<or> or_network_type (sd_origin sd) = Netw_internet) \<and>
     pred_option typed_connection (sd_connection_info sd) \<and> list_all typed_source_filter (sd_source_filters sd) \<and>
     pred_option typed_reference_clock (sd_reference_clock sd) \<and> pred_option (\<lambda>d. cd_source d = Sync_ptp_v2) (sd_clock_domain sd) \<and>
     pred_option (\<lambda>g. grp_type g = Group_dup) (sd_group sd) \<and> sd_media_direction sd \<noteq> Some Inactive \<and>
     list_all typed_media (sd_media_descriptions sd)"

lemma try_read_Inr: "try_read r e f = Inr x \<longleftrightarrow> (\<exists>v s. r = (Some v, s) \<and> f v s = Inr x)"
  by (cases r; cases "fst r") auto

lemma try_skip_Inr: "try_skip r e f = Inr x \<longleftrightarrow> (\<exists>s. r = (True, s) \<and> f s = Inr x)"
  by (cases r; cases "fst r") auto

lemma check_that_Inr: "check_that c e f = Inr x \<longleftrightarrow> c \<and> f = Inr x"
  by (simp add: check_that_def)

lemma read_value_Inr: "read_value s e p f = Inr y \<longleftrightarrow> (\<exists>x. s \<noteq> [] \<and> p s = Inr x \<and> y = f x)"
  by (auto simp: read_value_def try_read_Inr read_until_end_def split: sum.splits)

lemma optional_value_Inr: "optional_value s p f u = Inr y \<longleftrightarrow> (if s = [] then y = u else \<exists>x. p s = Inr x \<and> y = f x)"
  by (auto simp: optional_value_def read_until_end_def split: sum.splits)

lemma case_skip_Inr:
  "(case p of (True, s) \<Rightarrow> f s | (False, s) \<Rightarrow> g s) = Inr x \<longleftrightarrow>
     (\<exists>s. p = (True, s) \<and> f s = Inr x) \<or> (\<exists>s. p = (False, s) \<and> g s = Inr x)"
  by (cases p; cases "fst p") auto

lemma case_parsed_Inr: "(case r of Inl e \<Rightarrow> Inl e | Inr y \<Rightarrow> f y) = Inr x \<longleftrightarrow> (\<exists>y. r = Inr y \<and> f y = Inr x)"
  by (cases r) auto

lemmas parsed_Inr = case_skip_Inr case_parsed_Inr try_read_Inr try_skip_Inr check_that_Inr read_value_Inr optional_value_Inr

lemma parse_address_numbers_typed:
  assumes "parse_address_numbers info s = Inr c" and "typed_connection info" and "ci_ttl info = None" and "ci_number_of_addresses info = None"
  shows "typed_connection c"
  using assms by (auto simp: parse_address_numbers_def parsed_Inr typed_connection_def Let_def)

lemma parse_connection_typed:
  assumes "parse_connection_info l = Inr c"
  shows "typed_connection c"
proof -
  obtain t s where t: "t = k_sdp_ipv4 \<or> t = k_sdp_ipv6" and
    s: "(let (address, s) = split_char (CHR ''/'') False s;
           info = \<lparr>ci_network_type = Netw_internet, ci_address_type = (if t = k_sdp_ipv4 then Addr_ipv4 else Addr_ipv6),
             ci_address = (case address of Some a \<Rightarrow> a | None \<Rightarrow> []), ci_ttl = None, ci_number_of_addresses = None\<rparr>
       in if s = [] then Inr info else parse_address_numbers info s) = Inr c"
    using assms unfolding parse_connection_info_def parsed_Inr by blast
  obtain a r where "split_char (CHR ''/'') False s = (a, r)" by fastforce
  moreover define info where "info = \<lparr>ci_network_type = Netw_internet, ci_address_type = (if t = k_sdp_ipv4 then Addr_ipv4 else Addr_ipv6),
      ci_address = (case a of Some x \<Rightarrow> x | None \<Rightarrow> []), ci_ttl = None, ci_number_of_addresses = None\<rparr>"
  ultimately have "(if r = [] then Inr info else parse_address_numbers info r) = Inr c" unfolding info_def using s by (simp add: Let_def split del: if_split)
  moreover have "typed_connection info" "ci_ttl info = None" "ci_number_of_addresses info = None"
    by (auto simp: info_def typed_connection_def)
  ultimately show ?thesis by (auto intro: parse_address_numbers_typed split: if_splits)
qed

lemma split_string_nonempty: "split_string d i s = (r, t) \<Longrightarrow> t \<noteq> [] \<Longrightarrow> r \<noteq> None"
  by (auto simp: split_string_def split: if_splits option.splits)

lemma parse_gmid_typed: "parse_gmid v s = Inr c \<Longrightarrow> typed_reference_clock c"
  by (cases "split_string '':'' False s")
    (auto simp: parse_gmid_def parsed_Inr typed_reference_clock_def Let_def split: if_splits dest: split_string_nonempty)

lemma parse_reference_clock_typed:
  assumes "parse_reference_clock l = Inr c"
  shows "typed_reference_clock c"
proof -
  obtain s where s: "(case split_string '':'' False s of (None, s) \<Rightarrow> parse_gmid Version_undefined s
     | (Some name, s) \<Rightarrow> (case ptp_version_from_string name of None \<Rightarrow> Inl ''reference_clock: unknown ptp version''
       | Some version \<Rightarrow> parse_gmid version s)) = Inr c"
    using assms by (auto simp: parse_reference_clock_def parsed_Inr)
  obtain r t where "split_string '':'' False s = (r, t)" by fastforce
  then show ?thesis using s by (cases r) (auto intro: parse_gmid_typed split: option.splits)
qed

lemma parse_sources_nonempty: "parse_sources n s = Inr ss \<Longrightarrow> [] \<notin> set ss"
  by (induction n s arbitrary: ss rule: parse_sources.induct) (auto split: prod.splits option.splits if_splits sum.splits)

lemma parse_source_filter_typed: "parse_source_filter l = Inr f \<Longrightarrow> typed_source_filter f"
  by (auto simp: parse_source_filter_def parsed_Inr typed_source_filter_def split: sum.splits dest: parse_sources_nonempty)

lemma parse_clock_domain_typed: "parse_ravenna_clock_domain l = Inr d \<Longrightarrow> cd_source d = Sync_ptp_v2"
  by (auto simp: parse_ravenna_clock_domain_def parsed_Inr split: if_splits)

lemma parse_group_typed: "parse_group l = Some (Inr g) \<Longrightarrow> grp_type g = Group_dup"
  by (auto simp: parse_group_def split: prod.splits option.splits if_splits)

lemma parse_ptime_typed: "parse_ptime n t v = Inr x \<Longrightarrow> \<not> float_negative x"
  by (auto simp: parse_ptime_def split: option.splits if_splits)

lemma parse_origin_typed: "parse_origin l = Inr x \<Longrightarrow> or_network_type x = Netw_internet"
  by (auto simp: parse_origin_def parsed_Inr Let_def)

lemma parse_version_typed: "parse_version l = Inr v \<Longrightarrow> v = 0"
  by (auto simp: parse_version_def split: if_splits option.splits)

lemmas fields_typed = parse_connection_typed parse_reference_clock_typed parse_source_filter_typed parse_clock_domain_typed
  parse_group_typed parse_ptime_typed parse_origin_typed parse_version_typed

lemma parse_media_description_typed: "parse_media_description l = Inr m \<Longrightarrow> typed_media m"
  by (auto simp: parse_media_description_def parsed_Inr Let_def typed_media_def media_init_def)

lemma inactive_is_recvonly: "k_sdp_inactive = k_sdp_recvonly"
  by (simp add: sdp_constants)

lemma media_attribute_typed:
  assumes "media_attribute key s tail m = Inr m'" and "typed_media m"
  shows "typed_media m'"
  using assms unfolding media_attribute_def inactive_is_recvonly typed_media_def
  by (auto simp: parsed_Inr split: if_splits sum.splits option.splits dest: fields_typed)

lemma media_parse_attribute_typed: "media_parse_attribute l tail m = Inr m' \<Longrightarrow> typed_media m \<Longrightarrow> typed_media m'"
  by (auto simp: media_parse_attribute_def parsed_Inr intro: media_attribute_typed)

lemma session_attribute_typed:
  assumes "session_attribute key s sd = Some (Inr sd')" and "typed_session sd"
  shows "typed_session sd'"
  using assms unfolding session_attribute_def inactive_is_recvonly typed_session_def
  by (auto simp: parsed_Inr split: if_splits sum.splits option.splits prod.splits dest: fields_typed)

lemma session_parse_attribute_typed:
  assumes "session_parse_attribute l sd = Some (Inr sd')" and "typed_session sd"
  shows "typed_session sd'"
  using assms by (auto simp: session_parse_attribute_def split: prod.splits bool.splits option.splits intro: session_attribute_typed)

lemma map_parsed_Inr: "map_parsed f r = Inr y \<longleftrightarrow> (\<exists>x. r = Inr x \<and> y = f x)"
  by (cases r) (auto simp: map_parsed_def)

lemma typed_update_last:
  "list_all P xs \<Longrightarrow> P (f (last xs)) \<Longrightarrow> list_all P (update_last f xs)"
  by (auto simp: update_last_def list_all_iff dest: in_set_butlastD)

lemma typed_last: "list_all P xs \<Longrightarrow> xs \<noteq> [] \<Longrightarrow> P (last xs)"
  by (auto simp: list_all_iff)

lemma parse_line_typed:
  assumes p: "parse_line l tail sd = Some (Inr sd')" and t: "typed_session sd"
  shows "typed_session sd'"
proof -
  have media: "list_all typed_media (sd_media_descriptions sd)" using t by (simp add: typed_session_def)
  have ms: "typed_session (sd\<lparr>sd_media_descriptions := ms\<rparr>)" if "list_all typed_media ms" for ms
    using t that by (simp add: typed_session_def)
  note last = typed_last [OF media]
  have conn: "typed_media (m\<lparr>md_connection_infos := md_connection_infos m @ [i]\<rparr>)" if "typed_media m" "typed_connection i" for m i
    using that by (simp add: typed_media_def)
  have info: "typed_media (m\<lparr>md_session_information := Some v\<rparr>)" if "typed_media m" for m v
    using that by (simp add: typed_media_def)
  have other: "typed_session (sd\<lparr>sd_version := 0\<rparr>)" "typed_session (sd\<lparr>sd_session_name := n\<rparr>)"
    "typed_session (sd\<lparr>sd_time_active := a\<rparr>)" "typed_session (sd\<lparr>sd_session_information := i\<rparr>)"
    "or_network_type r = Netw_internet \<Longrightarrow> typed_session (sd\<lparr>sd_origin := r\<rparr>)"
    "typed_connection c \<Longrightarrow> typed_session (sd\<lparr>sd_connection_info := Some c\<rparr>)" for n a i r c
    using t by (simp_all add: typed_session_def)
  show ?thesis
  proof (cases "sd_media_descriptions sd = []")
    case True
    then show ?thesis using p t unfolding parse_line_def Let_def
      by (auto simp: map_parsed_Inr split: if_splits intro!: ms intro: other parse_connection_typed parse_origin_typed
          parse_media_description_typed session_parse_attribute_typed dest!: parse_version_typed)
  next
    case False
    then show ?thesis using p t media unfolding parse_line_def Let_def
      by (auto simp: map_parsed_Inr split: if_splits intro!: ms other typed_update_last conn info last media
          intro: parse_connection_typed parse_origin_typed media_parse_attribute_typed parse_media_description_typed
          dest!: parse_version_typed)
  qed
qed

lemma parse_lines_typed: "parse_lines s sd = Some (Inr sd') \<Longrightarrow> typed_session sd \<Longrightarrow> typed_session sd'"
proof (induction s sd rule: parse_lines.induct)
  case (1 s sd)
  obtain r t where r: "read_line s = (r, t)" by fastforce
  show ?case
  proof (cases r)
    case None
    then show ?thesis using 1(3,4) r by (simp add: parse_lines.simps [of s sd])
  next
    case (Some line)
    then have "(if line = [] then parse_lines t sd else (case parse_line line (drop (length line) s) sd of None \<Rightarrow> None
        | Some (Inl e) \<Rightarrow> Some (Inl e) | Some (Inr sd2) \<Rightarrow> parse_lines t sd2)) = Some (Inr sd')"
      using 1(3) r by (simp add: parse_lines.simps [of s sd])
    then show ?thesis using 1(1,2,4) r Some
      by (auto split: if_splits option.splits sum.splits dest: parse_line_typed)
  qed
qed

lemma typed_init: "typed_session session_description_init"
  by (simp add: typed_session_def session_description_init_def)



text \<open>No field is required: the empty text is accepted.\<close>

lemma empty_text_accepted: "parse_session_description [] = Some (Inr session_description_init)"
  by (simp add: parse_session_description_def parse_lines.simps [of "[]"] read_line_empty)

end
