(* ===== verification/String_Buffer.thy ===== *)
theory String_Buffer
  imports String_Parser
begin

text \<open>
  \<open>StringBuffer\<close> (core/containers/string_buffer.hpp): a string with a read and a write position, which a socket fills
  and a parser empties. Its contract is the locale \<open>text_buffer\<close>: what it holds is a text, writing appends to it, and
  reading takes from its front what the functions of \<open>String_Parser\<close> take.
\<close>

record StringBuffer =
  buffer_data :: string
  read_position :: nat
  write_position :: nat

definition empty_buffer :: StringBuffer where
  "empty_buffer = \<lparr>buffer_data = [], read_position = 0, write_position = 0\<rparr>"

section \<open>Operations\<close>

text \<open>\<open>std::string::resize\<close> fills with zero characters.\<close>

definition resize_string :: "nat \<Rightarrow> string \<Rightarrow> string" where
  "resize_string n s = take n s @ replicate (n - length s) (CHR 0x00)"

definition prepare :: "nat \<Rightarrow> StringBuffer \<Rightarrow> StringBuffer" where
  "prepare n b = b\<lparr>buffer_data := resize_string (write_position b + n) (buffer_data b)\<rparr>"

text \<open>What the owner of the prepared view writes into it, from its start.\<close>

definition fill_prepared :: "string \<Rightarrow> StringBuffer \<Rightarrow> StringBuffer" where
  "fill_prepared s b =
     b\<lparr>buffer_data := take (write_position b) (buffer_data b) @ s @ drop (write_position b + length s) (buffer_data b)\<rparr>"

definition commit :: "nat \<Rightarrow> StringBuffer \<Rightarrow> StringBuffer" where
  "commit n b = b\<lparr>write_position := write_position b + n\<rparr>"

definition remaining :: "StringBuffer \<Rightarrow> nat" where
  "remaining b = write_position b - read_position b"

definition exhausted :: "StringBuffer \<Rightarrow> bool" where
  "exhausted b \<longleftrightarrow> read_position b \<ge> length (buffer_data b) \<or> read_position b = write_position b"

definition buffer_view :: "StringBuffer \<Rightarrow> string" where
  "buffer_view b = take (write_position b - read_position b) (drop (read_position b) (buffer_data b))"

definition consume :: "nat \<Rightarrow> StringBuffer \<Rightarrow> StringBuffer" where
  "consume n b =
     (let r = read_position b + n
      in if r = write_position b then b\<lparr>read_position := 0, write_position := 0\<rparr> else b\<lparr>read_position := r\<rparr>)"

definition buffer_read :: "nat \<Rightarrow> StringBuffer \<Rightarrow> string \<times> StringBuffer" where
  "buffer_read max_size b =
     (let n = min (write_position b - read_position b) max_size
      in (take n (drop (read_position b) (buffer_data b)), consume n b))"

definition buffer_read_until_newline :: "StringBuffer \<Rightarrow> string option \<times> StringBuffer" where
  "buffer_read_until_newline b =
     (if exhausted b then (None, b)
      else case find_char newline (buffer_view b) of
        None \<Rightarrow> (None, b)
      | Some pos \<Rightarrow> (Some (remove_cr (take pos (buffer_view b))), consume (pos + 1) b))"

definition buffer_starts_with :: "string \<Rightarrow> StringBuffer \<Rightarrow> bool" where
  "buffer_starts_with prefix b \<longleftrightarrow>
     length prefix \<le> remaining b \<and> take (length prefix) (drop (read_position b) (buffer_data b)) = prefix"

definition buffer_write :: "string \<Rightarrow> StringBuffer \<Rightarrow> StringBuffer" where
  "buffer_write s b = commit (length s) (fill_prepared s (prepare (length s) b))"

definition buffer_clear :: "StringBuffer \<Rightarrow> StringBuffer" where
  "buffer_clear b = b\<lparr>buffer_data := [], read_position := 0, write_position := 0\<rparr>"

section \<open>The invariant\<close>

definition buffer_ok :: "StringBuffer \<Rightarrow> bool" where
  "buffer_ok b \<longleftrightarrow> read_position b \<le> write_position b \<and> write_position b \<le> length (buffer_data b)"

lemma length_view: "buffer_ok b \<Longrightarrow> length (buffer_view b) = remaining b"
  by (auto simp: buffer_ok_def buffer_view_def remaining_def)

lemma exhausted_view: "buffer_ok b \<Longrightarrow> exhausted b \<longleftrightarrow> buffer_view b = []"
  by (auto simp: buffer_ok_def exhausted_def buffer_view_def)

lemma empty_buffer_ok: "buffer_ok empty_buffer" "buffer_view empty_buffer = []"
  by (simp_all add: buffer_ok_def empty_buffer_def buffer_view_def)

lemma consume_ok: "buffer_ok b \<Longrightarrow> n \<le> remaining b \<Longrightarrow> buffer_ok (consume n b)"
  by (auto simp: buffer_ok_def consume_def remaining_def Let_def)

lemma view_consume: "buffer_ok b \<Longrightarrow> n \<le> remaining b \<Longrightarrow> buffer_view (consume n b) = drop n (buffer_view b)"
  by (auto simp: buffer_ok_def consume_def remaining_def Let_def buffer_view_def drop_take add.commute)

lemma read_ok: "buffer_ok b \<Longrightarrow> buffer_read n b = (s, b') \<Longrightarrow> buffer_ok b'"
  by (auto simp: buffer_read_def Let_def remaining_def intro: consume_ok)

lemma view_read: "buffer_ok b \<Longrightarrow> buffer_read n b = (s, b') \<Longrightarrow> s = take n (buffer_view b) \<and> buffer_view b' = drop n (buffer_view b)"
proof -
  assume b: "buffer_ok b" and r: "buffer_read n b = (s, b')"
  define m where "m = min (write_position b - read_position b) n"
  have s: "s = take m (drop (read_position b) (buffer_data b))" and b': "b' = consume m b"
    using r by (auto simp: buffer_read_def Let_def m_def)
  have "buffer_view b' = drop m (buffer_view b)" using b b' by (simp add: view_consume remaining_def m_def)
  moreover have "drop m (buffer_view b) = drop n (buffer_view b)" "take m (drop (read_position b) (buffer_data b)) = take n (buffer_view b)"
    using length_view [OF b] by (auto simp: m_def remaining_def min_def buffer_view_def)
  ultimately show ?thesis using s by simp
qed

lemma read_until_newline_shrinks: "read_until_newline s = (Some l, t) \<Longrightarrow> length t < length s"
  by (cases s) (auto simp: read_until_newline_def simp del: find_char.simps split: if_splits option.splits)

lemma read_until_newline_ok:
  assumes b: "buffer_ok b" and r: "buffer_read_until_newline b = (l, b')"
  shows "buffer_ok b' \<and> read_until_newline (buffer_view b) = (l, buffer_view b')"
proof (cases "find_char newline (buffer_view b)")
  case None
  then show ?thesis using b r
    by (auto simp: buffer_read_until_newline_def read_until_newline_def split: if_splits)
next
  case (Some pos)
  then have p: "pos < remaining b" using find_char_less [OF Some] length_view [OF b] by simp
  then have "buffer_view b \<noteq> []" using length_view [OF b] by auto
  then have "l = Some (remove_cr (take pos (buffer_view b)))" and b': "b' = consume (pos + 1) b"
    using Some r b by (auto simp: buffer_read_until_newline_def exhausted_view)
  moreover have "buffer_ok b'" "buffer_view b' = drop (pos + 1) (buffer_view b)"
    unfolding b' using p by (intro consume_ok [OF b] view_consume [OF b]; simp)+
  ultimately show ?thesis using Some \<open>buffer_view b \<noteq> []\<close> by (simp add: read_until_newline_def)
qed

lemma fill_prepare:
  assumes "buffer_ok b" and "length s \<le> m" and "n \<le> length s"
  shows "buffer_ok (commit n (fill_prepared s (prepare m b)))"
    and "buffer_view (commit n (fill_prepared s (prepare m b))) = buffer_view b @ take n s"
proof -
  have rw: "read_position b \<le> write_position b" "write_position b \<le> length (buffer_data b)"
    using assms by (auto simp: buffer_ok_def)
  show "buffer_view (commit n (fill_prepared s (prepare m b))) = buffer_view b @ take n s"
    using rw assms(2,3) by (simp add: buffer_view_def commit_def fill_prepared_def prepare_def resize_string_def drop_take)
  show "buffer_ok (commit n (fill_prepared s (prepare m b)))"
    using rw assms(2,3) by (simp add: buffer_ok_def commit_def fill_prepared_def prepare_def resize_string_def)
qed

lemma write_ok: "buffer_ok b \<Longrightarrow> buffer_ok (buffer_write s b)"
  using fill_prepare [of b s "length s" "length s"] by (simp add: buffer_write_def)

lemma view_write: "buffer_ok b \<Longrightarrow> buffer_view (buffer_write s b) = buffer_view b @ s"
  using fill_prepare [of b s "length s" "length s"] by (simp add: buffer_write_def)

lemma starts_with_view: "buffer_ok b \<Longrightarrow> buffer_starts_with p b \<longleftrightarrow> starts_with p (buffer_view b)"
proof -
  assume b: "buffer_ok b"
  show ?thesis
  proof (cases "length p \<le> remaining b")
    case True
    then show ?thesis by (simp add: buffer_starts_with_def starts_with_def buffer_view_def remaining_def min_def)
  next
    case False
    then have "take (length p) (buffer_view b) \<noteq> p" using length_view [OF b] by (metis length_take min.cobounded1)
    then show ?thesis using False by (simp add: buffer_starts_with_def starts_with_def)
  qed
qed

lemma clear_ok: "buffer_ok (buffer_clear b) \<and> buffer_view (buffer_clear b) = []"
  by (simp add: buffer_ok_def buffer_clear_def buffer_view_def)

section \<open>The contract\<close>

text \<open>What a reader of a stream of text relies on.\<close>

locale text_buffer =
  fixes ok :: "'b \<Rightarrow> bool" and text_of :: "'b \<Rightarrow> string" and used_up :: "'b \<Rightarrow> bool" and left :: "'b \<Rightarrow> nat"
    and put :: "string \<Rightarrow> 'b \<Rightarrow> 'b" and take_line :: "'b \<Rightarrow> string option \<times> 'b" and take_some :: "nat \<Rightarrow> 'b \<Rightarrow> string \<times> 'b"
  assumes used_up_iff: "ok b \<Longrightarrow> used_up b \<longleftrightarrow> text_of b = []"
    and left_eq: "ok b \<Longrightarrow> left b = length (text_of b)"
    and put_ok: "ok b \<Longrightarrow> ok (put s b) \<and> text_of (put s b) = text_of b @ s"
    and take_line_ok: "ok b \<Longrightarrow> take_line b = (l, b') \<Longrightarrow> ok b' \<and> read_until_newline (text_of b) = (l, text_of b')"
    and take_some_ok: "ok b \<Longrightarrow> take_some n b = (s, b') \<Longrightarrow> ok b' \<and> s = take n (text_of b) \<and> text_of b' = drop n (text_of b)"
begin

lemma put_put: "ok b \<Longrightarrow> text_of (put t (put s b)) = text_of (put (s @ t) b)"
  using put_ok [of b s] put_ok [of "put s b" t] put_ok [of b "s @ t"] by simp

lemma take_some_left: "ok b \<Longrightarrow> take_some n b = (s, b') \<Longrightarrow> left b' = left b - n"
  using take_some_ok [of b n s b'] by (simp add: left_eq)

lemma take_line_left: "ok b \<Longrightarrow> take_line b = (Some l, b') \<Longrightarrow> left b' < left b"
  using take_line_ok [of b "Some l" b'] by (auto simp: left_eq dest: read_until_newline_shrinks)

lemma take_line_none: "ok b \<Longrightarrow> take_line b = (None, b') \<Longrightarrow> text_of b' = text_of b"
  using take_line_ok [of b None b'] by (auto simp: read_until_newline_def split: if_splits option.splits)

text \<open>A line that was put into a used-up buffer comes back.\<close>

lemma put_then_take_line:
  assumes "ok b" "used_up b" "newline \<notin> set l" "take_line (put (l @ carriage_return # newline # t) b) = (x, b')"
  shows "x = Some l \<and> text_of b' = t"
proof -
  have t: "text_of b = []" using assms by (simp add: used_up_iff)
  have "read_until_newline (l @ carriage_return # newline # t) = (Some l, t)"
    using find_char_append [of newline "l @ [carriage_return]" t] assms(3)
    by (simp add: read_until_newline_def remove_cr_def)
  then show ?thesis using take_line_ok [OF conjunct1 [OF put_ok [OF assms(1)]] assms(4)] put_ok [OF assms(1)] t by simp
qed

end

interpretation sb: text_buffer buffer_ok buffer_view exhausted remaining buffer_write buffer_read_until_newline buffer_read
  by unfold_locales
    (auto simp: exhausted_view length_view write_ok view_write dest: read_until_newline_ok intro: read_ok dest: view_read)

end
