(* ===== verification/Rtsp_Message.thy ===== *)
theory Rtsp_Message
  imports Float_Text
begin

text \<open>
  RTSP headers, requests and responses (rtsp/detail/rtsp_headers.hpp, rtsp_request.hpp and .cpp, rtsp_response.hpp and
  .cpp). Headers are kept in order; their names compare case-insensitively. Shown: after a header is set, it is the one
  that is found, the others are what they were, and no name occurs twice unless an unnamed header was added.
\<close>

section \<open>Case-insensitive names\<close>

text \<open>With \<open>std::tolower\<close> in the \<open>C\<close> locale; a negative \<open>char\<close> is kept, as the common libraries do.\<close>

definition string_compare_case_insensitive :: "string \<Rightarrow> string \<Rightarrow> bool" where
  "string_compare_case_insensitive lhs rhs \<longleftrightarrow>
     length lhs = length rhs \<and> list_all (\<lambda>i. to_lower (lhs ! i) = to_lower (rhs ! i)) [0..<length lhs]"

lemma compare_case_insensitive_iff: "string_compare_case_insensitive a b \<longleftrightarrow> map to_lower a = map to_lower b"
  unfolding string_compare_case_insensitive_def list_eq_iff_nth_eq [of "map to_lower a"] by (auto simp: list_all_iff)

lemma compare_refl [simp]: "string_compare_case_insensitive a a"
  by (simp add: compare_case_insensitive_iff)

section \<open>Headers\<close>

record Header =
  header_name :: string
  header_value :: string

type_synonym Headers = "Header list"

fun headers_get :: "Headers \<Rightarrow> string \<Rightarrow> Header option" where
  "headers_get [] name = None"
| "headers_get (h # hs) name = (if string_compare_case_insensitive (header_name h) name then Some h else headers_get hs name)"

fun headers_get_or_default :: "Headers \<Rightarrow> string \<Rightarrow> string" where
  "headers_get_or_default [] name = []"
| "headers_get_or_default (h # hs) name =
     (if string_compare_case_insensitive (header_name h) name then header_value h else headers_get_or_default hs name)"

definition get_content_length :: "Headers \<Rightarrow> u64 option" where
  "get_content_length hs =
     (case headers_get hs ''content-length'' of Some h \<Rightarrow> string_to_unsigned False (header_value h) | None \<Rightarrow> None)"

text \<open>
  \<open>set\<close> of a name and a value, \<open>set\<close> of a header, \<open>push_back\<close> and \<open>emplace_back\<close> of a header all do the same: the
  value of the first header with that name is replaced, its name stays as it was written; else the header goes last.
\<close>

fun headers_set :: "string \<Rightarrow> string \<Rightarrow> Headers \<Rightarrow> Headers" where
  "headers_set name val [] = [\<lparr>header_name = name, header_value = val\<rparr>]"
| "headers_set name val (h # hs) =
     (if string_compare_case_insensitive (header_name h) name then h\<lparr>header_value := val\<rparr> # hs
      else h # headers_set name val hs)"

fun headers_set_header :: "Header \<Rightarrow> Headers \<Rightarrow> Headers" where
  "headers_set_header n [] = [\<lparr>header_name = header_name n, header_value = header_value n\<rparr>]"
| "headers_set_header n (h # hs) =
     (if string_compare_case_insensitive (header_name h) (header_name n) then h\<lparr>header_value := header_value n\<rparr> # hs
      else h # headers_set_header n hs)"

fun headers_push_back :: "Header \<Rightarrow> Headers \<Rightarrow> Headers" where
  "headers_push_back n [] = [n]"
| "headers_push_back n (h # hs) =
     (if string_compare_case_insensitive (header_name h) (header_name n) then h\<lparr>header_value := header_value n\<rparr> # hs
      else h # headers_push_back n hs)"

fun headers_emplace_back :: "Header \<Rightarrow> Headers \<Rightarrow> Headers" where
  "headers_emplace_back n [] = [n]"
| "headers_emplace_back n (h # hs) =
     (if string_compare_case_insensitive (header_name h) (header_name n) then h\<lparr>header_value := header_value n\<rparr> # hs
      else h # headers_emplace_back n hs)"

text \<open>\<open>emplace_back()\<close> without an argument adds an empty header in any case.\<close>

definition headers_emplace_empty :: "Headers \<Rightarrow> Headers" where
  "headers_emplace_empty hs = hs @ [\<lparr>header_name = [], header_value = []\<rparr>]"

abbreviation crlf :: string where "crlf \<equiv> [carriage_return, newline]"

definition encode_header :: "Header \<Rightarrow> string" where
  "encode_header h = header_name h @ '': '' @ header_value h @ crlf"

fun headers_encode_append :: "bool \<Rightarrow> Headers \<Rightarrow> string \<Rightarrow> string" where
  "headers_encode_append skip_content_length [] out = out"
| "headers_encode_append skip_content_length (h # hs) out =
     (if skip_content_length \<and> string_compare_case_insensitive (header_name h) ''content-length''
      then headers_encode_append skip_content_length hs out
      else headers_encode_append skip_content_length hs (out @ encode_header h))"

definition headers_to_debug_string :: "Headers \<Rightarrow> string" where
  "headers_to_debug_string hs = foldl (\<lambda>out h. out @ '', '' @ header_name h @ '': '' @ header_value h) [] hs"

section \<open>Requests and responses\<close>

record Request =
  request_method :: string
  request_uri :: string
  request_version_major :: "32 word"
  request_version_minor :: "32 word"
  request_headers :: Headers
  request_data :: string

record Response =
  response_status_code :: "32 word"
  response_reason_phrase :: string
  response_version_major :: "32 word"
  response_version_minor :: "32 word"
  response_headers :: Headers
  response_data :: string

definition make_request :: "string \<Rightarrow> string \<Rightarrow> string \<Rightarrow> Request" where
  "make_request meth uri dat =
     \<lparr>request_method = meth, request_uri = uri, request_version_major = 1, request_version_minor = 0,
      request_headers = [], request_data = dat\<rparr>"

definition make_response :: "32 word \<Rightarrow> string \<Rightarrow> string \<Rightarrow> Response" where
  "make_response status reason dat =
     \<lparr>response_status_code = status, response_reason_phrase = reason, response_version_major = 1,
      response_version_minor = 0, response_headers = [], response_data = dat\<rparr>"

definition request_clear :: "Request \<Rightarrow> Request" where
  "request_clear r =
     r\<lparr>request_method := [], request_uri := [], request_version_major := 0, request_version_minor := 0,
       request_headers := [], request_data := []\<rparr>"

definition response_clear :: "Response \<Rightarrow> Response" where
  "response_clear r =
     r\<lparr>response_status_code := 0, response_reason_phrase := [], response_version_major := 0,
       response_version_minor := 0, response_headers := [], response_data := []\<rparr>"

definition request_encode_append :: "string \<Rightarrow> Request \<Rightarrow> string \<Rightarrow> string" where
  "request_encode_append nl r out =
     (let out = out @ request_method r @ '' '' @ request_uri r @ '' RTSP/'' @ show_signed (request_version_major r) @ ''.''
            @ show_signed (request_version_minor r) @ nl;
          out = headers_encode_append True (request_headers r) out;
          out = (if request_data r \<noteq> [] then out @ ''content-length: '' @ show_nat (length (request_data r)) @ nl else out)
      in out @ nl @ request_data r)"

definition request_encode :: "string \<Rightarrow> Request \<Rightarrow> string" where
  "request_encode nl r = request_encode_append nl r []"

definition response_encode_append :: "string \<Rightarrow> Response \<Rightarrow> string \<Rightarrow> string" where
  "response_encode_append nl r out =
     (let out = out @ ''RTSP/'' @ show_signed (response_version_major r) @ ''.'' @ show_signed (response_version_minor r)
            @ '' '' @ show_signed (response_status_code r) @ '' '' @ response_reason_phrase r @ nl;
          out = headers_encode_append True (response_headers r) out;
          out = (if response_data r \<noteq> [] then out @ ''content-length: '' @ show_nat (length (response_data r)) @ nl else out)
      in out @ nl @ response_data r)"

definition response_encode :: "string \<Rightarrow> Response \<Rightarrow> string" where
  "response_encode nl r = response_encode_append nl r []"

section \<open>Lemmas\<close>

lemma push_back_is_emplace_back: "headers_push_back n hs = headers_emplace_back n hs"
  by (induction hs) auto

lemma set_header_is_set: "headers_set_header n hs = headers_set (header_name n) (header_value n) hs"
  by (induction hs) auto

lemma emplace_back_is_set: "headers_emplace_back n hs = headers_set (header_name n) (header_value n) hs"
  by (induction hs) auto

lemma get_or_default_is_get: "headers_get_or_default hs n = (case headers_get hs n of Some h \<Rightarrow> header_value h | None \<Rightarrow> [])"
  by (induction hs) auto

lemma get_set_same: "map_option header_value (headers_get (headers_set n v hs) n) = Some v"
  by (induction hs) auto

lemma get_set_other: "\<not> string_compare_case_insensitive n m \<Longrightarrow> headers_get (headers_set n v hs) m = headers_get hs m"
  by (induction hs) (auto simp: compare_case_insensitive_iff)

lemma get_None_iff: "headers_get hs n = None \<longleftrightarrow> map to_lower n \<notin> (\<lambda>h. map to_lower (header_name h)) ` set hs"
  by (induction hs) (auto simp: compare_case_insensitive_iff)

text \<open>No two headers have the same name.\<close>

definition names_distinct :: "Headers \<Rightarrow> bool" where
  "names_distinct hs \<longleftrightarrow> distinct (map (\<lambda>h. map to_lower (header_name h)) hs)"

lemma set_names:
  "map (\<lambda>h. map to_lower (header_name h)) (headers_set n v hs) =
   (if headers_get hs n = None then map (\<lambda>h. map to_lower (header_name h)) hs @ [map to_lower n]
    else map (\<lambda>h. map to_lower (header_name h)) hs)"
  by (induction hs) (auto simp: compare_case_insensitive_iff)

lemma set_names_distinct [inv_intros]: "names_distinct hs \<Longrightarrow> names_distinct (headers_set n v hs)"
  by (simp add: names_distinct_def set_names get_None_iff)

lemma set_fresh: "headers_get hs n = None \<Longrightarrow> headers_set n v hs = hs @ [\<lparr>header_name = n, header_value = v\<rparr>]"
  by (induction hs) (auto split: if_splits)

lemma names_distinct_snoc: "names_distinct (hs @ [h]) \<longleftrightarrow> names_distinct hs \<and> headers_get hs (header_name h) = None"
  by (auto simp: names_distinct_def get_None_iff)

lemma get_append: "headers_get (hs @ gs) n = (case headers_get hs n of Some h \<Rightarrow> Some h | None \<Rightarrow> headers_get gs n)"
  by (induction hs) auto

text \<open>What encoding writes.\<close>

definition not_content_length :: "Header \<Rightarrow> bool" where
  "not_content_length h \<longleftrightarrow> \<not> string_compare_case_insensitive (header_name h) ''content-length''"

lemma encode_append_eq:
  "headers_encode_append True hs out = out @ concat (map encode_header (filter not_content_length hs))"
  by (induction hs arbitrary: out) (auto simp: not_content_length_def)

text \<open>The headers a reader of the encoded message gets: the content length is the one of the data.\<close>

definition sent_headers :: "Headers \<Rightarrow> string \<Rightarrow> Headers" where
  "sent_headers hs dat = filter not_content_length hs @
     (if dat = [] then [] else [\<lparr>header_name = ''content-length'', header_value = show_nat (length dat)\<rparr>])"

definition encode_headers :: "Headers \<Rightarrow> string" where
  "encode_headers hs = concat (map encode_header hs) @ crlf"

lemma request_encode_eq:
  "request_encode crlf r =
   (request_method r @ '' '' @ request_uri r @ '' RTSP/'' @ show_signed (request_version_major r) @ ''.''
      @ show_signed (request_version_minor r)) @ crlf
   @ encode_headers (sent_headers (request_headers r) (request_data r)) @ request_data r"
  by (simp add: request_encode_def request_encode_append_def encode_append_eq sent_headers_def encode_headers_def
      encode_header_def Let_def)

lemma response_encode_eq:
  "response_encode crlf r =
   (''RTSP/'' @ show_signed (response_version_major r) @ ''.'' @ show_signed (response_version_minor r)
      @ '' '' @ show_signed (response_status_code r) @ '' '' @ response_reason_phrase r) @ crlf
   @ encode_headers (sent_headers (response_headers r) (response_data r)) @ response_data r"
  by (simp add: response_encode_def response_encode_append_def encode_append_eq sent_headers_def encode_headers_def
      encode_header_def Let_def)

lemma sent_names_distinct: "names_distinct hs \<Longrightarrow> names_distinct (sent_headers hs dat)"
  by (auto simp: sent_headers_def names_distinct_def distinct_map_filter not_content_length_def compare_case_insensitive_iff)

lemma sent_content_length:
  assumes "length dat < 2 ^ 64"
  shows "get_content_length (sent_headers hs dat) = (if dat = [] then None else Some (of_nat (length dat)))"
proof -
  have none: "headers_get (filter not_content_length hs) ''content-length'' = None"
    by (induction hs) (auto simp: not_content_length_def)
  have "show_nat (length dat) = show_unsigned (of_nat (length dat) :: u64)"
    using assms by (simp add: show_unsigned_def unat_of_nat_small)
  then show ?thesis
    using none string_to_unsigned_show [of False "of_nat (length dat) :: u64"]
    by (simp add: sent_headers_def get_content_length_def get_append)
qed

end
