(* ===== verification/Rtsp_Parser.thy ===== *)
theory Rtsp_Parser
  imports String_Buffer Rtsp_Message
begin

text \<open>
  \<open>rtsp::Parser\<close> (rtsp/detail/rtsp_parser.hpp and .cpp): a resumable parser that empties a \<open>StringBuffer\<close> and emits the
  messages it completes. The reference is a small-step relation \<open>rtsp_step\<close> on the text that is left, run until it waits
  for more text or fails; \<open>parse_refines\<close> shows that the code's loop does what the steps do, and \<open>run_append\<close> that text
  which arrives later does not change what was read before.
\<close>

datatype rtsp_result = Good | Indeterminate | Bad_method | Bad_uri | Bad_protocol | Bad_version | Bad_header
  | Bad_end_of_headers | Bad_status_code | Bad_reason_phrase | Unexpected_blank_line

datatype parser_phase = At_start | At_headers | At_data | At_complete

datatype rtsp_message = Got_request Request | Got_response Response

text \<open>\<open>emitted\<close> logs the calls of \<open>on_request\<close> and \<open>on_response\<close>.\<close>

record Parser =
  phase :: parser_phase
  start_line :: string
  parser_headers :: Headers
  parser_data :: string
  parsed_request :: Request
  parsed_response :: Response
  emitted :: "rtsp_message list"

definition initial_parser :: Parser where
  "initial_parser =
     \<lparr>phase = At_start, start_line = [], parser_headers = [], parser_data = [],
      parsed_request = make_request [] [] [], parsed_response = make_response 0 [] [], emitted = []\<rparr>"

definition parser_reset :: "Parser \<Rightarrow> Parser" where
  "parser_reset p =
     p\<lparr>phase := At_start, start_line := [], parser_headers := [], parser_data := [],
       parsed_request := request_clear (parsed_request p), parsed_response := response_clear (parsed_response p)\<rparr>"

section \<open>The messages\<close>

definition handle_response :: "Parser \<Rightarrow> rtsp_result + Parser" where
  "handle_response p =
     (let s = snd (skip_string ''RTSP/'' (start_line p)) in
      try_read (read_signed s) Bad_version (\<lambda>major s.
      try_skip (skip_char (CHR ''.'') s) Bad_version (\<lambda>s.
      try_read (read_signed s) Bad_version (\<lambda>minor s.
      try_skip (skip_char (CHR '' '') s) Bad_status_code (\<lambda>s.
      try_read (read_signed s) Bad_status_code (\<lambda>status s.
      try_skip (skip_char (CHR '' '') s) Bad_reason_phrase (\<lambda>s.
      try_read (read_until_end s) Bad_reason_phrase (\<lambda>reason s.
        let r = (response_clear (parsed_response p))
              \<lparr>response_version_major := major, response_version_minor := minor, response_status_code := status,
               response_reason_phrase := reason\<rparr>;
            p' = p\<lparr>parser_headers := response_headers r, parser_data := response_data r\<rparr>;
            r' = r\<lparr>response_headers := parser_headers p, response_data := parser_data p\<rparr>
        in Inr (p'\<lparr>parsed_response := r', emitted := emitted p @ [Got_response r']\<rparr>)))))))))"

definition handle_request :: "Parser \<Rightarrow> rtsp_result + Parser" where
  "handle_request p =
     try_read (split_char (CHR '' '') False (start_line p)) Bad_method (\<lambda>meth s.
     try_read (split_char (CHR '' '') False s) Bad_uri (\<lambda>uri s.
     try_skip (skip_string ''RTSP/'' s) Bad_protocol (\<lambda>s.
     try_read (read_signed s) Bad_version (\<lambda>major s.
     try_skip (skip_char (CHR ''.'') s) Bad_version (\<lambda>s.
     try_read (read_signed s) Bad_version (\<lambda>minor s.
       let r = (request_clear (parsed_request p))
             \<lparr>request_method := meth, request_uri := uri, request_version_major := major, request_version_minor := minor\<rparr>;
           p' = p\<lparr>parser_headers := request_headers r, parser_data := request_data r\<rparr>;
           r' = r\<lparr>request_headers := parser_headers p, request_data := parser_data p\<rparr>
       in Inr (p'\<lparr>parsed_request := r', emitted := emitted p @ [Got_request r']\<rparr>)))))))"

text \<open>The branch of the complete phase.\<close>

definition handle_message :: "Parser \<Rightarrow> rtsp_result + Parser" where
  "handle_message p = (if starts_with ''RTSP/'' (start_line p) then handle_response p else handle_request p)"

section \<open>The loop\<close>

definition parse_header_line :: "string \<Rightarrow> Headers \<Rightarrow> rtsp_result + Headers" where
  "parse_header_line line hs =
     (if starts_with '' '' line \<or> starts_with [CHR 0x09] line
      then if hs = [] then Inl Bad_header
           else if header_name (last hs) = [] then Inl Bad_header
           else Inr (butlast hs @ [last hs\<lparr>header_value := header_value (last hs) @ drop 1 line\<rparr>])
      else try_read (split_char (CHR '':'') False line) Bad_header (\<lambda>name s.
           try_skip (skip_char (CHR '' '') s) Bad_header (\<lambda>s.
           try_read (read_until_end s) Bad_header (\<lambda>v s.
             Inr (headers_emplace_back \<lparr>header_name = name, header_value = v\<rparr> hs)))))"

text \<open>
  A block of the loop's body: \<open>Some r\<close> when it returns \<open>r\<close>, \<open>None\<close> when control goes on behind it.
\<close>

type_synonym parsed = "rtsp_result option \<times> Parser \<times> StringBuffer"

fun and_then :: "parsed \<Rightarrow> (Parser \<Rightarrow> StringBuffer \<Rightarrow> parsed) \<Rightarrow> parsed" where
  "and_then (None, p, b) f = f p b"
| "and_then (Some r, p, b) f = (Some r, p, b)"

definition parser_loop_upper_bound :: nat where "parser_loop_upper_bound = 100000"

definition parse_start :: "Parser \<Rightarrow> StringBuffer \<Rightarrow> parsed" where
  "parse_start p b =
     (if phase p = At_start
      then case buffer_read_until_newline b of
        (None, b') \<Rightarrow> (Some Indeterminate, p, b')
      | (Some line, b') \<Rightarrow>
          if line = [] then (Some Unexpected_blank_line, p, b')
          else (None, p\<lparr>start_line := line, phase := At_headers\<rparr>, b')
      else (None, p, b))"

fun parse_header_lines :: "nat \<Rightarrow> Parser \<Rightarrow> StringBuffer \<Rightarrow> parsed" where
  "parse_header_lines 0 p b = (None, p, b)"
| "parse_header_lines (Suc n) p b =
     (case buffer_read_until_newline b of
        (None, b') \<Rightarrow> (Some Indeterminate, p, b')
      | (Some line, b') \<Rightarrow>
          if line = [] then (None, p\<lparr>phase := At_data\<rparr>, b')
          else case parse_header_line line (parser_headers p) of
            Inl r \<Rightarrow> (Some r, p, b')
          | Inr hs \<Rightarrow> parse_header_lines n (p\<lparr>parser_headers := hs\<rparr>) b')"

definition parse_headers :: "Parser \<Rightarrow> StringBuffer \<Rightarrow> parsed" where
  "parse_headers p b = (if phase p = At_headers then parse_header_lines parser_loop_upper_bound p b else (None, p, b))"

definition parse_data :: "Parser \<Rightarrow> StringBuffer \<Rightarrow> parsed" where
  "parse_data p b =
     (if phase p = At_data
      then case get_content_length (parser_headers p) of
        Some n \<Rightarrow>
          if 0 < n
          then if remaining b < unat n then (Some Indeterminate, p, b)
               else let (s, b') = buffer_read (unat n) b in (None, p\<lparr>parser_data := s, phase := At_complete\<rparr>, b')
          else (None, p\<lparr>phase := At_complete\<rparr>, b)
      | None \<Rightarrow> (None, p\<lparr>phase := At_complete\<rparr>, b)
      else (None, p, b))"

definition parse_complete :: "Parser \<Rightarrow> StringBuffer \<Rightarrow> parsed" where
  "parse_complete p b =
     (if phase p = At_complete
      then case handle_message p of
        Inl r \<Rightarrow> (Some r, p, b)
      | Inr p' \<Rightarrow> (None, p'\<lparr>phase := At_start\<rparr>, b)
      else (None, p, b))"

definition parse_iteration :: "Parser \<Rightarrow> StringBuffer \<Rightarrow> parsed" where
  "parse_iteration p b =
     and_then (and_then (and_then (parse_start p b) parse_headers) parse_data) parse_complete"

text \<open>Every iteration that does not return reads a line or finishes a message.\<close>

lemma newline_remaining: "buffer_read_until_newline b = (Some l, b') \<Longrightarrow> remaining b' < remaining b"
proof -
  assume "buffer_read_until_newline b = (Some l, b')"
  then obtain pos where "find_char newline (buffer_view b) = Some pos" "b' = consume (pos + 1) b"
    by (auto simp: buffer_read_until_newline_def split: if_splits option.splits)
  then show ?thesis using find_char_less [of newline "buffer_view b" pos]
    by (auto simp: buffer_view_def consume_def remaining_def Let_def)
qed

lemma newline_none_same: "buffer_read_until_newline b = (None, b') \<Longrightarrow> b' = b"
  by (auto simp: buffer_read_until_newline_def split: if_splits option.splits)

lemma read_remaining: "buffer_read n b = (s, b') \<Longrightarrow> remaining b' \<le> remaining b"
  by (auto simp: buffer_read_def consume_def remaining_def Let_def)

lemma header_lines_progress:
  "parse_header_lines n p b = (None, p', b') \<Longrightarrow> phase p = At_headers \<Longrightarrow>
   remaining b' \<le> remaining b \<and> (0 < n \<longrightarrow> remaining b' < remaining b) \<and> phase p' \<in> {At_headers, At_data}"
proof (induction n p b rule: parse_header_lines.induct)
  case (2 n p b)
  then show ?case
    by (auto split: prod.splits option.splits if_splits sum.splits dest!: newline_remaining) (fastforce)+
qed simp

definition parse_measure :: "Parser \<times> StringBuffer \<Rightarrow> nat" where
  "parse_measure = (\<lambda>(p, b). 2 * remaining b + (if phase p \<in> {At_data, At_complete} then 1 else 0))"

lemma and_then_None:
  "and_then x f = (None, p', b') \<longleftrightarrow> (\<exists>p b. x = (None, p, b) \<and> f p b = (None, p', b'))"
  by (cases "(x, f)" rule: and_then.cases) auto

lemma start_progress:
  "parse_start p b = (None, p', b') \<Longrightarrow>
   if phase p = At_start then phase p' = At_headers \<and> remaining b' < remaining b else p' = p \<and> b' = b"
  by (auto simp: parse_start_def split: prod.splits option.splits if_splits dest!: newline_remaining)

lemma headers_progress:
  "parse_headers p b = (None, p', b') \<Longrightarrow>
   if phase p = At_headers then phase p' \<in> {At_headers, At_data} \<and> remaining b' < remaining b else p' = p \<and> b' = b"
  using header_lines_progress [of parser_loop_upper_bound p b p' b']
  by (auto simp: parse_headers_def parser_loop_upper_bound_def split: if_splits)

lemma data_progress:
  "parse_data p b = (None, p', b') \<Longrightarrow>
   if phase p = At_data then phase p' = At_complete \<and> remaining b' \<le> remaining b else p' = p \<and> b' = b"
  by (auto simp: parse_data_def Let_def split: prod.splits option.splits if_splits dest!: read_remaining)

lemma complete_progress:
  "parse_complete p b = (None, p', b') \<Longrightarrow>
   if phase p = At_complete then phase p' = At_start \<and> b' = b else p' = p \<and> b' = b"
  by (auto simp: parse_complete_def split: sum.splits if_splits)

lemma parse_iteration_progress:
  assumes "parse_iteration p b = (None, p', b')"
  shows "parse_measure (p', b') < parse_measure (p, b)"
proof -
  obtain p1 b1 p2 b2 p3 b3 where *: "parse_start p b = (None, p1, b1)" "parse_headers p1 b1 = (None, p2, b2)"
    "parse_data p2 b2 = (None, p3, b3)" "parse_complete p3 b3 = (None, p', b')"
    using assms by (auto simp: parse_iteration_def and_then_None)
  show ?thesis
    using start_progress [OF *(1)] headers_progress [OF *(2)] data_progress [OF *(3)] complete_progress [OF *(4)]
    by (cases "phase p") (auto simp: parse_measure_def split: if_splits)
qed

function parse :: "Parser \<Rightarrow> StringBuffer \<Rightarrow> rtsp_result \<times> Parser \<times> StringBuffer" where
  "parse p b =
     (if exhausted b then (Good, p, b)
      else case parse_iteration p b of
        (Some r, p', b') \<Rightarrow> (r, p', b')
      | (None, p', b') \<Rightarrow> parse p' b')"
  by pat_completeness auto
termination by (relation "measure parse_measure") (auto intro: parse_iteration_progress [OF sym])

declare parse.simps [simp del]

section \<open>The reference: steps on the text that is left\<close>

datatype rtsp_outcome = Wait | Fail rtsp_result Parser string | Next Parser string

definition rtsp_step :: "Parser \<Rightarrow> string \<Rightarrow> rtsp_outcome" where
  "rtsp_step p s =
     (case phase p of
        At_start \<Rightarrow>
          (case read_until_newline s of
             (None, s') \<Rightarrow> Wait
           | (Some line, s') \<Rightarrow>
               if line = [] then Fail Unexpected_blank_line p s'
               else Next (p\<lparr>start_line := line, phase := At_headers\<rparr>) s')
      | At_headers \<Rightarrow>
          (case read_until_newline s of
             (None, s') \<Rightarrow> Wait
           | (Some line, s') \<Rightarrow>
               if line = [] then Next (p\<lparr>phase := At_data\<rparr>) s'
               else (case parse_header_line line (parser_headers p) of
                       Inl r \<Rightarrow> Fail r p s'
                     | Inr hs \<Rightarrow> Next (p\<lparr>parser_headers := hs\<rparr>) s'))
      | At_data \<Rightarrow>
          (case get_content_length (parser_headers p) of
             Some n \<Rightarrow>
               if 0 < n then if length s < unat n then Wait
                 else Next (p\<lparr>parser_data := take (unat n) s, phase := At_complete\<rparr>) (drop (unat n) s)
               else Next (p\<lparr>phase := At_complete\<rparr>) s
           | None \<Rightarrow> Next (p\<lparr>phase := At_complete\<rparr>) s)
      | At_complete \<Rightarrow>
          (case handle_message p of Inl r \<Rightarrow> Fail r p s | Inr p' \<Rightarrow> Next (p'\<lparr>phase := At_start\<rparr>) s))"

definition step_measure :: "Parser \<times> string \<Rightarrow> nat" where
  "step_measure = (\<lambda>(p, s). 3 * length s + (case phase p of At_data \<Rightarrow> 2 | At_complete \<Rightarrow> 1 | _ \<Rightarrow> 0))"

lemma rtsp_step_progress: "rtsp_step p s = Next p' s' \<Longrightarrow> step_measure (p', s') < step_measure (p, s)"
  by (auto simp: rtsp_step_def step_measure_def
      split: parser_phase.splits prod.splits option.splits if_splits sum.splits dest!: read_until_newline_shrinks)

function rtsp_run :: "Parser \<Rightarrow> string \<Rightarrow> rtsp_result option \<times> Parser \<times> string" where
  "rtsp_run p s =
     (case rtsp_step p s of
        Wait \<Rightarrow> (None, p, s)
      | Fail r p' s' \<Rightarrow> (Some r, p', s')
      | Next p' s' \<Rightarrow> rtsp_run p' s')"
  by pat_completeness auto
termination by (relation "measure step_measure") (auto intro: rtsp_step_progress)

declare rtsp_run.simps [simp del]

lemma run_Wait: "rtsp_step p s = Wait \<Longrightarrow> rtsp_run p s = (None, p, s)"
  by (subst rtsp_run.simps) simp

lemma run_Fail: "rtsp_step p s = Fail r p' s' \<Longrightarrow> rtsp_run p s = (Some r, p', s')"
  by (subst rtsp_run.simps) simp

lemma run_Next: "rtsp_step p s = Next p' s' \<Longrightarrow> rtsp_run p s = rtsp_run p' s'"
  by (subst rtsp_run.simps) simp

section \<open>Text that arrives later\<close>

lemma find_char_append_right: "find_char c s = Some n \<Longrightarrow> find_char c (s @ t) = Some n"
  by (induction s arbitrary: n) (auto split: if_splits)

lemma read_until_newline_append:
  assumes "read_until_newline s = (Some l, s')"
  shows "read_until_newline (s @ t) = (Some l, s' @ t)"
proof -
  from assms obtain pos where "s \<noteq> []" and f: "find_char newline s = Some pos" and
    "l = remove_cr (take pos s)" "s' = drop (pos + 1) s"
    by (auto simp: read_until_newline_def split: if_splits option.splits)
  then show ?thesis using find_char_less [OF f] find_char_append_right [OF f, of t]
    by (simp add: read_until_newline_def)
qed

text \<open>A step that is not waiting is the same when there is more text behind.\<close>

lemma step_append:
  assumes "rtsp_step p s \<noteq> Wait"
  shows "rtsp_step p (s @ t) =
    (case rtsp_step p s of Wait \<Rightarrow> Wait | Fail r p' s' \<Rightarrow> Fail r p' (s' @ t) | Next p' s' \<Rightarrow> Next p' (s' @ t))"
proof -
  obtain l s1 where r: "read_until_newline s = (l, s1)" by fastforce
  show ?thesis
  proof (cases l)
    case None
    then show ?thesis using assms r
      by (auto simp: rtsp_step_def split: parser_phase.splits option.splits sum.splits)
  next
    case (Some line)
    then show ?thesis using assms r read_until_newline_append [OF r [unfolded Some], of t]
      by (auto simp: rtsp_step_def split: parser_phase.splits option.splits sum.splits)
  qed
qed

lemma run_append:
  "rtsp_run p (s @ t) =
   (case rtsp_run p s of
      (None, p', s') \<Rightarrow> rtsp_run p' (s' @ t)
    | (Some r, p', s') \<Rightarrow> (Some r, p', s' @ t))"
proof (induction p s rule: rtsp_run.induct)
  case (1 p s)
  show ?case
  proof (cases "rtsp_step p s")
    case Wait then show ?thesis by (simp add: run_Wait)
  next
    case (Fail r p' s') then show ?thesis using step_append [of p s t] by (simp add: run_Fail)
  next
    case (Next p' s')
    then show ?thesis using 1 [OF Next] step_append [of p s t] by (simp add: run_Next)
  qed
qed

section \<open>The code's loop refines the steps\<close>

text \<open>A parser between two calls of \<open>parse\<close>.\<close>

definition settled :: "Parser \<Rightarrow> bool" where
  "settled p \<longleftrightarrow>
     (case phase p of At_start \<Rightarrow> True | At_headers \<Rightarrow> True
      | At_data \<Rightarrow> (case get_content_length (parser_headers p) of Some n \<Rightarrow> 0 < n | None \<Rightarrow> False)
      | At_complete \<Rightarrow> False)"

lemma settled_waits: "settled p \<Longrightarrow> rtsp_step p [] = Wait"
  by (auto simp: settled_def rtsp_step_def read_until_newline_def word_gt_0 unat_gt_0 split: parser_phase.splits option.splits)

definition failure :: "rtsp_result \<Rightarrow> rtsp_result option" where
  "failure r = (if r = Good \<or> r = Indeterminate then None else Some r)"

text \<open>What a block of the loop owes the reference.\<close>

definition simulates :: "parsed \<Rightarrow> Parser \<Rightarrow> string \<Rightarrow> bool" where
  "simulates x p s \<longleftrightarrow>
     (case x of
        (None, p', b') \<Rightarrow> buffer_ok b' \<and> rtsp_run p s = rtsp_run p' (buffer_view b')
      | (Some r, p', b') \<Rightarrow> buffer_ok b' \<and> r \<noteq> Good \<and> rtsp_run p s = (failure r, p', buffer_view b') \<and> (r = Indeterminate \<longrightarrow> settled p'))"

lemma simulates_run:
  assumes eq: "rtsp_run p s = rtsp_run q t"
  shows "simulates x p s = simulates x q t"
  unfolding simulates_def eq by (rule refl)

lemma simulates_and_then:
  assumes "simulates x p s" and "\<And>p' b'. buffer_ok b' \<Longrightarrow> simulates (f p' b') p' (buffer_view b')"
  shows "simulates (and_then x f) p s"
proof (cases "(x, f)" rule: and_then.cases)
  case (1 p' b' g)
  then have "buffer_ok b'" "rtsp_run p s = rtsp_run p' (buffer_view b')" using assms(1) by (auto simp: simulates_def)
  then show ?thesis using assms(2) [of b' p'] 1 by (auto simp: simulates_def split: option.splits)
qed (use assms in auto)

lemma newline_cases:
  assumes "buffer_ok b" "buffer_read_until_newline b = (l, b')"
  shows "buffer_ok b'" "read_until_newline (buffer_view b) = (l, buffer_view b')" "l = None \<Longrightarrow> b' = b"
  using sb.take_line_ok [OF assms] assms(2) newline_none_same by auto

text \<open>No block returns \<open>good\<close>, and only waiting is \<open>indeterminate\<close>.\<close>

lemma try_read_Inl: "try_read x e f = Inl r \<longleftrightarrow> (case x of (None, s) \<Rightarrow> r = e | (Some v, s) \<Rightarrow> f v s = Inl r)"
  by (cases "(x, e, f)" rule: try_read.cases) auto

lemma try_skip_Inl: "try_skip x e f = Inl r \<longleftrightarrow> (case x of (False, s) \<Rightarrow> r = e | (True, s) \<Rightarrow> f s = Inl r)"
  by (cases "(x, e, f)" rule: try_skip.cases) auto

lemma header_line_error: "parse_header_line line hs = Inl e \<Longrightarrow> e = Bad_header"
  by (auto simp: parse_header_line_def try_read_Inl try_skip_Inl split: if_splits prod.splits option.splits bool.splits)

lemma handle_message_error: "handle_message p = Inl e \<Longrightarrow> e \<noteq> Good \<and> e \<noteq> Indeterminate"
  by (auto simp: handle_message_def handle_request_def handle_response_def try_read_Inl try_skip_Inl Let_def
      split: if_splits prod.splits option.splits bool.splits)

lemma parse_start_simulates: "buffer_ok b \<Longrightarrow> simulates (parse_start p b) p (buffer_view b)"
proof -
  assume b: "buffer_ok b"
  obtain l b' where r: "buffer_read_until_newline b = (l, b')" by fastforce
  note n = newline_cases [OF b r]
  show ?thesis
  proof (cases "phase p = At_start")
    case True
    have *: "rtsp_step p (buffer_view b) = (case l of None \<Rightarrow> Wait | Some line \<Rightarrow>
        if line = [] then Fail Unexpected_blank_line p (buffer_view b')
        else Next (p\<lparr>start_line := line, phase := At_headers\<rparr>) (buffer_view b'))"
      using True n(2) by (simp add: rtsp_step_def split: option.splits)
    show ?thesis using True r n *
      by (cases l) (auto simp: parse_start_def simulates_def run_Wait run_Fail run_Next failure_def settled_def)
  qed (simp add: parse_start_def simulates_def b)
qed

lemma parse_header_lines_simulates:
  "buffer_ok b \<Longrightarrow> phase p = At_headers \<Longrightarrow> simulates (parse_header_lines n p b) p (buffer_view b)"
proof (induction n p b rule: parse_header_lines.induct)
  case (1 p b)
  then show ?case by (simp add: simulates_def)
next
  case (2 k p b)
  obtain l b' where r: "buffer_read_until_newline b = (l, b')" by fastforce
  note n = newline_cases [OF 2(2) r]
  have *: "rtsp_step p (buffer_view b) = (case l of None \<Rightarrow> Wait | Some line \<Rightarrow>
      if line = [] then Next (p\<lparr>phase := At_data\<rparr>) (buffer_view b')
      else (case parse_header_line line (parser_headers p) of
              Inl r \<Rightarrow> Fail r p (buffer_view b') | Inr hs \<Rightarrow> Next (p\<lparr>parser_headers := hs\<rparr>) (buffer_view b')))"
    using 2(3) n(2) by (simp add: rtsp_step_def split: option.splits)
  show ?case
  proof (cases l)
    case None
    then show ?thesis using r n * 2(3) by (simp add: simulates_def run_Wait failure_def settled_def)
  next
    case (Some line)
    show ?thesis
    proof (cases "line = []")
      case True
      then show ?thesis using Some r n * 2(3) by (simp add: simulates_def run_Next)
    next
      case False
      show ?thesis
      proof (cases "parse_header_line line (parser_headers p)")
        case (Inl e)
        then show ?thesis using Some r n * False by (simp add: simulates_def run_Fail failure_def header_line_error [OF Inl])
      next
        case (Inr hs)
        then have IH: "simulates (parse_header_lines k (p\<lparr>parser_headers := hs\<rparr>) b') (p\<lparr>parser_headers := hs\<rparr>) (buffer_view b')"
          using 2(1) [OF r [symmetric] Some False Inr n(1)] 2(3) by simp
        have run: "rtsp_run p (buffer_view b) = rtsp_run (p\<lparr>parser_headers := hs\<rparr>) (buffer_view b')"
          using Inr Some * False by (simp add: run_Next)
        have go_on: "parse_header_lines (Suc k) p b = parse_header_lines k (p\<lparr>parser_headers := hs\<rparr>) b'"
          using Inr Some r False by simp
        show ?thesis unfolding go_on simulates_run [OF run] by (rule IH)
      qed
    qed
  qed
qed

lemma parse_headers_simulates: "buffer_ok b \<Longrightarrow> simulates (parse_headers p b) p (buffer_view b)"
  using parse_header_lines_simulates [of b p parser_loop_upper_bound] by (simp add: parse_headers_def simulates_def)

lemma parse_data_simulates: "buffer_ok b \<Longrightarrow> simulates (parse_data p b) p (buffer_view b)"
proof -
  assume b: "buffer_ok b"
  show ?thesis
  proof (cases "phase p = At_data")
    case True
    show ?thesis
    proof (cases "get_content_length (parser_headers p)")
      case None
      then show ?thesis using True b by (simp add: parse_data_def simulates_def rtsp_step_def run_Next)
    next
      case (Some n)
      obtain s b' where r: "buffer_read (unat n) b = (s, b')" by fastforce
      have rd: "buffer_ok b'" "s = take (unat n) (buffer_view b)" "buffer_view b' = drop (unat n) (buffer_view b)"
        using sb.take_some_ok [OF b r] by auto
      show ?thesis using True Some r rd b
        by (auto simp: parse_data_def simulates_def rtsp_step_def sb.left_eq run_Next run_Wait failure_def settled_def)
    qed
  qed (simp add: parse_data_def simulates_def b)
qed

lemma parse_complete_simulates: "buffer_ok b \<Longrightarrow> simulates (parse_complete p b) p (buffer_view b)"
  by (auto simp: parse_complete_def simulates_def rtsp_step_def run_Next run_Fail failure_def
      split: sum.splits dest: handle_message_error)

lemma parse_iteration_simulates: "buffer_ok b \<Longrightarrow> simulates (parse_iteration p b) p (buffer_view b)"
  unfolding parse_iteration_def
  by (intro simulates_and_then parse_start_simulates parse_headers_simulates parse_data_simulates parse_complete_simulates)

lemma parse_iteration_settled: "parse_iteration p b = (None, p', b') \<Longrightarrow> settled p'"
proof -
  assume "parse_iteration p b = (None, p', b')"
  then obtain p1 b1 p2 b2 p3 b3 where *: "parse_start p b = (None, p1, b1)" "parse_headers p1 b1 = (None, p2, b2)"
    "parse_data p2 b2 = (None, p3, b3)" "parse_complete p3 b3 = (None, p', b')"
    by (auto simp: parse_iteration_def and_then_None)
  show ?thesis
    using start_progress [OF *(1)] headers_progress [OF *(2)] data_progress [OF *(3)] complete_progress [OF *(4)]
    by (cases "phase p") (auto simp: settled_def split: if_splits)
qed

text \<open>A call of \<open>parse\<close> does what the steps do, whatever state the calls before left.\<close>

lemma parse_refines:
  assumes "buffer_ok b" "settled p" "parse p b = (r, p', b')"
  shows "buffer_ok b' \<and> rtsp_run p (buffer_view b) = (failure r, p', buffer_view b') \<and> (failure r = None \<longrightarrow> settled p')"
  using assms
proof (induction p b rule: parse.induct)
  case (1 p b)
  show ?case
  proof (cases "exhausted b")
    case True
    then have "buffer_view b = []" using 1(2) by (simp add: sb.used_up_iff)
    then show ?thesis using 1(2-4) True settled_waits [OF 1(3)]
      by (subst (asm) parse.simps) (auto simp: run_Wait failure_def)
  next
    case False
    obtain x p1 b1 where it: "parse_iteration p b = (x, p1, b1)" by (metis prod_cases3)
    note sim = parse_iteration_simulates [OF 1(2), of p, unfolded it]
    show ?thesis
    proof (cases x)
      case None
      have "parse p1 b1 = (r, p', b')" using 1(4) False it None by (subst (asm) parse.simps) simp
      then show ?thesis using 1(1) [OF False it [symmetric] None refl] it None sim
          parse_iteration_settled [of p b p1 b1] by (simp add: simulates_def)
    next
      case (Some e)
      then have "r = e" "p' = p1" "b' = b1" using 1(4) False it parse.simps [of p b] by simp_all
      then show ?thesis using sim Some by (auto simp: simulates_def failure_def)
    qed
  qed
qed

end
