(* ===== verification/Rtsp_Stream.thy ===== *)
theory Rtsp_Stream
  imports Rtsp_Parser
begin

text \<open>
  What the parser makes of a stream of encoded messages: it emits exactly those messages, in order, with the headers that
  were sent, and is back at its start.
\<close>

section \<open>Messages that can be sent\<close>

definition sendable_header :: "Header \<Rightarrow> bool" where
  "sendable_header h \<longleftrightarrow>
     CHR '':'' \<notin> set (header_name h) \<and> newline \<notin> set (header_name h)
     \<and> \<not> starts_with '' '' (header_name h) \<and> \<not> starts_with [CHR 0x09] (header_name h)
     \<and> header_value h \<noteq> [] \<and> newline \<notin> set (header_value h)"

definition sendable_parts :: "Headers \<Rightarrow> string \<Rightarrow> bool" where
  "sendable_parts hs dat \<longleftrightarrow> list_all sendable_header hs \<and> names_distinct hs \<and> length dat < 2 ^ 64"

fun sendable :: "rtsp_message \<Rightarrow> bool" where
  "sendable (Got_request r) \<longleftrightarrow>
     CHR '' '' \<notin> set (request_method r) \<and> newline \<notin> set (request_method r) \<and> \<not> starts_with ''RTSP/'' (request_method r)
     \<and> CHR '' '' \<notin> set (request_uri r) \<and> newline \<notin> set (request_uri r)
     \<and> sendable_parts (request_headers r) (request_data r)"
| "sendable (Got_response r) \<longleftrightarrow>
     response_reason_phrase r \<noteq> [] \<and> newline \<notin> set (response_reason_phrase r)
     \<and> sendable_parts (response_headers r) (response_data r)"

fun encode_message :: "rtsp_message \<Rightarrow> string" where
  "encode_message (Got_request r) = request_encode crlf r"
| "encode_message (Got_response r) = response_encode crlf r"

text \<open>The message as it is read: with the content length that was sent.\<close>

fun as_received :: "rtsp_message \<Rightarrow> rtsp_message" where
  "as_received (Got_request r) = Got_request (r\<lparr>request_headers := sent_headers (request_headers r) (request_data r)\<rparr>)"
| "as_received (Got_response r) = Got_response (r\<lparr>response_headers := sent_headers (response_headers r) (response_data r)\<rparr>)"

section \<open>Reading one message\<close>

lemma read_newline_crlf: "newline \<notin> set s \<Longrightarrow> read_until_newline (s @ carriage_return # newline # t) = (Some s, t)"
  using find_char_append [of newline "s @ [carriage_return]" t] by (simp add: read_until_newline_def remove_cr_def)

lemma show_nat_no_newline: "newline \<notin> set (show_nat n)"
  using show_nat_digits [of newline n] by (auto simp: is_digit_def)

lemma show_signed_no_newline: "newline \<notin> set (show_signed w)"
  using show_nat_no_newline by (simp add: show_signed_def show_int_def)

lemma starts_with_char: "starts_with [c] s \<longleftrightarrow> s \<noteq> [] \<and> hd s = c"
  by (cases s) (simp_all add: starts_with_def)

lemma parse_sent_header:
  assumes "sendable_header h" "headers_get hs (header_name h) = None"
  shows "parse_header_line (header_name h @ '': '' @ header_value h) hs = Inr (hs @ [h])"
proof -
  have "\<not> starts_with '' '' (header_name h @ '': '' @ header_value h)"
    "\<not> starts_with [CHR 0x09] (header_name h @ '': '' @ header_value h)"
    using assms(1) by (cases "header_name h"; simp add: sendable_header_def starts_with_char)+
  then show ?thesis using assms
    by (simp add: parse_header_line_def sendable_header_def parse_simps emplace_back_is_set set_fresh)
qed

lemma run_headers:
  assumes "list_all sendable_header hs" "names_distinct (gs @ hs)" "phase p = At_headers" "parser_headers p = gs"
  shows "rtsp_run p (encode_headers hs @ t) = rtsp_run (p\<lparr>parser_headers := gs @ hs, phase := At_data\<rparr>) t"
  using assms
proof (induction hs arbitrary: p gs)
  case Nil
  have "rtsp_step p (crlf @ t) = Next (p\<lparr>phase := At_data\<rparr>) t"
    using read_newline_crlf [of "[]" t] Nil(3) by (simp add: rtsp_step_def)
  moreover have "p\<lparr>parser_headers := gs, phase := At_data\<rparr> = p\<lparr>phase := At_data\<rparr>" using Nil(4) by simp
  ultimately show ?case by (simp add: encode_headers_def run_Next)
next
  case (Cons h hs)
  let ?line = "header_name h @ '': '' @ header_value h" and ?p = "p\<lparr>parser_headers := gs @ [h]\<rparr>"
  have h: "sendable_header h" and new: "headers_get gs (header_name h) = None"
    using Cons(2,3) names_distinct_snoc [of gs h] by (auto simp: names_distinct_def get_None_iff image_iff)
  have "newline \<notin> set ?line" using h by (auto simp: sendable_header_def)
  then have "read_until_newline (encode_headers (h # hs) @ t) = (Some ?line, encode_headers hs @ t)"
    using read_newline_crlf [of ?line "encode_headers hs @ t"] by (simp add: encode_headers_def encode_header_def)
  moreover have "?line \<noteq> []" by simp
  ultimately have "rtsp_step p (encode_headers (h # hs) @ t) = Next ?p (encode_headers hs @ t)"
    using parse_sent_header [OF h new] Cons(4,5) by (simp add: rtsp_step_def)
  moreover have "rtsp_run ?p (encode_headers hs @ t) = rtsp_run (?p\<lparr>parser_headers := (gs @ [h]) @ hs, phase := At_data\<rparr>) t"
    using Cons(2-5) by (intro Cons.IH) auto
  ultimately show ?case by (simp add: run_Next)
qed

lemma run_data:
  assumes "phase p = At_data" "parser_data p = []" "parser_headers p = sent_headers hs dat" "length dat < 2 ^ 64"
  shows "rtsp_run p (dat @ t) = rtsp_run (p\<lparr>parser_data := dat, phase := At_complete\<rparr>) t"
proof (cases "dat = []")
  case True
  then have "p\<lparr>parser_data := dat, phase := At_complete\<rparr> = p\<lparr>phase := At_complete\<rparr>" using assms(2) by simp
  then show ?thesis using True assms(1,3) sent_content_length [OF assms(4), of hs]
    by (simp add: run_Next rtsp_step_def)
next
  case False
  have n: "unat (of_nat (length dat) :: u64) = length dat" using assms(4) by (simp add: unat_of_nat_small)
  then have "(0 :: u64) < of_nat (length dat)" using False by (simp add: word_gt_0_no word_less_nat_alt)
  then show ?thesis using False assms(1,3) sent_content_length [OF assms(4), of hs] n
    by (simp add: run_Next rtsp_step_def)
qed

text \<open>A parser with nothing in it, whatever its scratch messages hold.\<close>

definition ready :: "Parser \<Rightarrow> bool" where
  "ready p \<longleftrightarrow> phase p = At_start \<and> parser_headers p = [] \<and> parser_data p = []"

lemma sendable_sent: "sendable_parts hs dat \<Longrightarrow> list_all sendable_header (sent_headers hs dat) \<and> names_distinct (sent_headers hs dat)"
proof -
  assume s: "sendable_parts hs dat"
  have "sendable_header \<lparr>header_name = ''content-length'', header_value = show_nat (length dat)\<rparr>"
    by (simp add: sendable_header_def starts_with_def show_nat_not_empty show_nat_no_newline)
  then show ?thesis using s sent_names_distinct [of hs dat] by (auto simp: sendable_parts_def sent_headers_def list_all_iff)
qed

lemma run_parts:
  assumes "ready p" "newline \<notin> set line" "line \<noteq> []" "sendable_parts hs dat"
  shows "rtsp_run p (line @ crlf @ encode_headers (sent_headers hs dat) @ dat @ t) =
    rtsp_run (p\<lparr>start_line := line, parser_headers := sent_headers hs dat, parser_data := dat, phase := At_complete\<rparr>) t"
proof -
  let ?hs = "sent_headers hs dat" and ?p = "p\<lparr>start_line := line, phase := At_headers\<rparr>"
  have "rtsp_step p (line @ crlf @ encode_headers ?hs @ dat @ t) = Next ?p (encode_headers ?hs @ dat @ t)"
    using assms(1,3) read_newline_crlf [OF assms(2)] by (simp add: rtsp_step_def ready_def)
  moreover have "rtsp_run ?p (encode_headers ?hs @ dat @ t) = rtsp_run (?p\<lparr>parser_headers := [] @ ?hs, phase := At_data\<rparr>) (dat @ t)"
    using assms(1) sendable_sent [OF assms(4)] by (intro run_headers) (simp_all add: ready_def)
  moreover have "rtsp_run (?p\<lparr>parser_headers := [] @ ?hs, phase := At_data\<rparr>) (dat @ t)
      = rtsp_run (?p\<lparr>parser_headers := [] @ ?hs, phase := At_data\<rparr>\<lparr>parser_data := dat, phase := At_complete\<rparr>) t"
    using assms(1,4) by (intro run_data) (auto simp: ready_def sendable_parts_def)
  ultimately show ?thesis by (simp add: run_Next)
qed

lemma no_digit_here: "no_digit (CHR ''.'' # s)" "no_digit (CHR '' '' # s)" "no_digit []"
  by (simp_all add: no_digit_def is_digit_def)

lemma space_not_in_rtsp: "CHR '' '' \<notin> set ''RTSP/''"
  by simp

lemma not_a_response:
  assumes "\<not> starts_with ''RTSP/'' m" "CHR '' '' \<notin> set m"
  shows "\<not> starts_with ''RTSP/'' (m @ CHR '' '' # s)"
proof
  assume a: "starts_with ''RTSP/'' (m @ CHR '' '' # s)"
  show False
  proof (cases "length m < 5")
    case True
    then have "CHR '' '' \<in> set (take 5 (m @ CHR '' '' # s))" by (auto simp: take_Cons')
    moreover have "take 5 (m @ CHR '' '' # s) = ''RTSP/''" using a by (simp add: starts_with_def eval_nat_numeral)
    ultimately show False by (metis (no_types) space_not_in_rtsp)
  next
    case False
    then show False using a assms(1) by (simp add: starts_with_def)
  qed
qed

lemma handle_sent_request:
  assumes "start_line p = request_method r @ '' '' @ request_uri r @ '' RTSP/'' @ show_signed (request_version_major r) @ ''.''
      @ show_signed (request_version_minor r)"
    and "parser_headers p = hs" "parser_data p = request_data r"
    and "sendable (Got_request r)"
  shows "\<exists>p'. handle_message p = Inr p' \<and> parser_headers p' = [] \<and> parser_data p' = []
    \<and> emitted p' = emitted p @ [Got_request (r\<lparr>request_headers := hs\<rparr>)]"
proof -
  have "\<not> starts_with ''RTSP/'' (start_line p)"
    using assms(1,4) not_a_response [of "request_method r" "request_uri r @ '' RTSP/'' @ show_signed (request_version_major r) @ ''.''
      @ show_signed (request_version_minor r)"] by simp
  moreover have minor: "read_signed (show_signed (request_version_minor r)) = (Some (request_version_minor r), [])"
    using read_signed_show [of "[]" "request_version_minor r"] by (simp add: no_digit_here)
  moreover have "skip_string ''RTSP/'' (CHR ''R'' # CHR ''T'' # CHR ''S'' # CHR ''P'' # CHR ''/'' # s) = (True, s)" for s
    using skip_string_here [of "''RTSP/''" s] by simp
  ultimately show ?thesis using assms
    by (simp add: handle_message_def handle_request_def parse_simps is_digit_def Let_def request_clear_def)
qed

lemma handle_sent_response:
  assumes "start_line p = ''RTSP/'' @ show_signed (response_version_major r) @ ''.'' @ show_signed (response_version_minor r)
      @ '' '' @ show_signed (response_status_code r) @ '' '' @ response_reason_phrase r"
    and "parser_headers p = hs" "parser_data p = response_data r"
    and "sendable (Got_response r)"
  shows "\<exists>p'. handle_message p = Inr p' \<and> parser_headers p' = [] \<and> parser_data p' = []
    \<and> emitted p' = emitted p @ [Got_response (r\<lparr>response_headers := hs\<rparr>)]"
proof -
  have "skip_string ''RTSP/'' (start_line p) = (True, drop 5 (start_line p))" "starts_with ''RTSP/'' (start_line p)"
    using assms(1) by (simp_all add: skip_string_def starts_with_def)
  then show ?thesis using assms
    by (simp add: handle_message_def handle_response_def parse_simps is_digit_def Let_def response_clear_def)
qed

lemma run_complete:
  assumes "phase p = At_complete" "handle_message p = Inr p'" "parser_headers p' = []" "parser_data p' = []"
  shows "rtsp_run p t = rtsp_run (p'\<lparr>phase := At_start\<rparr>) t \<and> ready (p'\<lparr>phase := At_start\<rparr>) \<and> emitted (p'\<lparr>phase := At_start\<rparr>) = emitted p'"
  using assms by (simp add: rtsp_step_def run_Next ready_def)

lemma run_message:
  assumes "ready p" "sendable m"
  shows "\<exists>p'. rtsp_run p (encode_message m @ t) = rtsp_run p' t \<and> ready p' \<and> emitted p' = emitted p @ [as_received m]"
proof (cases m)
  case (Got_request r)
  let ?line = "request_method r @ '' '' @ request_uri r @ '' RTSP/'' @ show_signed (request_version_major r) @ ''.''
      @ show_signed (request_version_minor r)"
  let ?hs = "sent_headers (request_headers r) (request_data r)"
  let ?p = "p\<lparr>start_line := ?line, parser_headers := ?hs, parser_data := request_data r, phase := At_complete\<rparr>"
  have "newline \<notin> set ?line" using assms(2) Got_request by (simp add: show_signed_no_newline)
  then have "rtsp_run p (encode_message m @ t) = rtsp_run ?p t"
    using run_parts [OF assms(1), of ?line "request_headers r" "request_data r" t] assms(2) Got_request
    by (simp add: request_encode_eq)
  moreover obtain p' where "handle_message ?p = Inr p'" "parser_headers p' = []" "parser_data p' = []"
    "emitted p' = emitted p @ [as_received m]"
    using handle_sent_request [of ?p r ?hs] assms(2) Got_request by auto
  ultimately show ?thesis using run_complete [of ?p p' t] by auto
next
  case (Got_response r)
  let ?line = "''RTSP/'' @ show_signed (response_version_major r) @ ''.'' @ show_signed (response_version_minor r)
      @ '' '' @ show_signed (response_status_code r) @ '' '' @ response_reason_phrase r"
  let ?hs = "sent_headers (response_headers r) (response_data r)"
  let ?p = "p\<lparr>start_line := ?line, parser_headers := ?hs, parser_data := response_data r, phase := At_complete\<rparr>"
  have "newline \<notin> set ?line" using assms(2) Got_response by (simp add: show_signed_no_newline)
  then have "rtsp_run p (encode_message m @ t) = rtsp_run ?p t"
    using run_parts [OF assms(1), of ?line "response_headers r" "response_data r" t] assms(2) Got_response
    by (simp add: response_encode_eq)
  moreover obtain p' where "handle_message ?p = Inr p'" "parser_headers p' = []" "parser_data p' = []"
    "emitted p' = emitted p @ [as_received m]"
    using handle_sent_response [of ?p r ?hs] assms(2) Got_response by auto
  ultimately show ?thesis using run_complete [of ?p p' t] by auto
qed

section \<open>Reading a stream\<close>

lemma run_ready_empty: "ready p \<Longrightarrow> rtsp_run p [] = (None, p, [])"
  using settled_waits [of p] by (simp add: ready_def settled_def run_Wait)

lemma run_messages:
  "ready p \<Longrightarrow> list_all sendable ms \<Longrightarrow>
   \<exists>p'. rtsp_run p (concat (map encode_message ms)) = (None, p', []) \<and> ready p' \<and> emitted p' = emitted p @ map as_received ms"
proof (induction ms arbitrary: p)
  case Nil
  then show ?case by (auto simp: run_ready_empty)
next
  case (Cons m ms)
  obtain q where q: "rtsp_run p (encode_message m @ concat (map encode_message ms)) = rtsp_run q (concat (map encode_message ms))"
    "ready q" "emitted q = emitted p @ [as_received m]"
    using run_message [of p m "concat (map encode_message ms)"] Cons.prems by auto
  then show ?case using Cons.IH [of q] Cons.prems by auto
qed

text \<open>What was emitted stays emitted.\<close>

lemma read_then_Inr: "try_read x e f = Inr r \<longleftrightarrow> (case x of (None, s) \<Rightarrow> False | (Some v, s) \<Rightarrow> f v s = Inr r)"
  by (cases "(x, e, f)" rule: try_read.cases) auto

lemma skip_then_Inr: "try_skip x e f = Inr r \<longleftrightarrow> (case x of (False, s) \<Rightarrow> False | (True, s) \<Rightarrow> f s = Inr r)"
  by (cases "(x, e, f)" rule: try_skip.cases) auto

lemma handle_message_emits: "handle_message p = Inr p' \<Longrightarrow> \<exists>m. emitted p' = emitted p @ [m]"
  by (auto simp: handle_message_def handle_request_def handle_response_def Let_def read_then_Inr skip_then_Inr
      split: if_splits prod.splits option.splits bool.splits)

lemma step_emits: "rtsp_step p s = Next p' s' \<Longrightarrow> \<exists>ms. emitted p' = emitted p @ ms"
  by (auto simp: rtsp_step_def split: parser_phase.splits prod.splits option.splits if_splits sum.splits
      dest: handle_message_emits)

lemma step_Fail_emits: "rtsp_step p s = Fail r p' s' \<Longrightarrow> emitted p' = emitted p"
  by (auto simp: rtsp_step_def split: parser_phase.splits prod.splits option.splits if_splits sum.splits)

lemma run_emits: "rtsp_run p s = (r, p', s') \<Longrightarrow> \<exists>ms. emitted p' = emitted p @ ms"
proof (induction p s rule: rtsp_run.induct)
  case (1 p s)
  show ?case
  proof (cases "rtsp_step p s")
    case Wait then show ?thesis using 1(2) by (simp add: run_Wait)
  next
    case (Fail e q t) then show ?thesis using 1(2) step_Fail_emits [OF Fail] by (simp add: run_Fail)
  next
    case (Next q t)
    then show ?thesis using 1(1) [OF Next] 1(2) step_emits [OF Next] by (force simp: run_Next)
  qed
qed

end
