(* ===== verification/Rtsp_Connection.thy ===== *)
theory Rtsp_Connection
  imports Rtsp_Stream "HOL-Library.Sublist"
begin

text \<open>
  \<open>rtsp::Connection\<close> (rtsp/detail/rtsp_connection.hpp and .cpp): the operations of the owner and the completions of the
  socket as steps. The socket is what the steps say of it: it reads at most what was prepared and writes what the pending
  \<open>async_write\<close> was given. Shown: the messages a connection hands on are those of the bytes it read, however they were
  cut up; what it wrote is what it was told to send, in order; so messages sent on one end arrive on the other.
\<close>

text \<open>
  \<open>writes_pending\<close> holds what each unfinished \<open>async_write\<close> was given; \<open>heard\<close>, \<open>told\<close> and \<open>wire\<close> record what was
  read, what was passed to \<open>async_send_data\<close> and what was written; \<open>on_connects\<close> and \<open>on_disconnects\<close> count the calls of
  the subscriber.
\<close>

record Connection =
  socket_open :: bool
  connecting :: bool
  input_buffer :: StringBuffer
  output_buffer :: StringBuffer
  connection_parser :: Parser
  has_subscriber :: bool
  read_pending :: bool
  writes_pending :: "string list"
  parse_failure :: "rtsp_result option"
  on_connects :: nat
  on_disconnects :: nat
  heard :: string
  told :: string
  wire :: string

definition create_connection :: "bool \<Rightarrow> Connection" where
  "create_connection is_open =
     \<lparr>socket_open = is_open, connecting = False, input_buffer = empty_buffer, output_buffer = empty_buffer,
      connection_parser = initial_parser, has_subscriber = False, read_pending = False, writes_pending = [],
      parse_failure = None, on_connects = 0, on_disconnects = 0, heard = [], told = [], wire = []\<rparr>"

section \<open>Operations\<close>

definition set_subscriber :: "bool \<Rightarrow> Connection \<Rightarrow> Connection" where
  "set_subscriber given c = c\<lparr>has_subscriber := given\<rparr>"

definition async_write :: "Connection \<Rightarrow> Connection" where
  "async_write c =
     (if exhausted (output_buffer c) then c
      else c\<lparr>writes_pending := writes_pending c @ [buffer_view (output_buffer c)]\<rparr>)"

definition async_read_some :: "Connection \<Rightarrow> Connection" where
  "async_read_some c = c\<lparr>input_buffer := prepare 512 (input_buffer c), read_pending := True\<rparr>"

definition start_connection :: "Connection \<Rightarrow> Connection" where
  "start_connection c = async_read_some c"

definition stop_connection :: "Connection \<Rightarrow> Connection" where
  "stop_connection c = c\<lparr>socket_open := False\<rparr>"

definition async_send_data :: "string \<Rightarrow> Connection \<Rightarrow> Connection" where
  "async_send_data d c =
     (let should_trigger_async_write = exhausted (output_buffer c) \<and> socket_open c;
          c = c\<lparr>output_buffer := buffer_write d (output_buffer c), told := told c @ d\<rparr>
      in if should_trigger_async_write then async_write c else c)"

definition async_send_response :: "Response \<Rightarrow> Connection \<Rightarrow> Connection" where
  "async_send_response r c = async_send_data (response_encode crlf r) c"

definition async_send_request :: "Request \<Rightarrow> Connection \<Rightarrow> Connection" where
  "async_send_request r c = async_send_data (request_encode crlf r) c"

text \<open>\<open>boost::asio::async_connect\<close> opens the socket for the endpoint it tries.\<close>

definition connection_async_connect :: "Connection \<Rightarrow> Connection" where
  "connection_async_connect c = c\<lparr>connecting := True, socket_open := True\<rparr>"

definition on_connected :: "Connection \<Rightarrow> Connection" where
  "on_connected c =
     (let c = async_read_some (async_write (c\<lparr>connecting := False\<rparr>))
      in if has_subscriber c then c\<lparr>on_connects := on_connects c + 1\<rparr> else c)"

text \<open>The completion of the oldest pending write, with and without an error.\<close>

definition on_written :: "Connection \<Rightarrow> Connection" where
  "on_written c =
     (case writes_pending c of
        [] \<Rightarrow> c
      | w # ws \<Rightarrow>
          let c = c\<lparr>writes_pending := ws, wire := wire c @ w, output_buffer := consume (length w) (output_buffer c)\<rparr>
          in if \<not> exhausted (output_buffer c) then async_write c else c)"

definition on_write_error :: "nat \<Rightarrow> Connection \<Rightarrow> Connection" where
  "on_write_error n c =
     (case writes_pending c of [] \<Rightarrow> c | w # ws \<Rightarrow> c\<lparr>writes_pending := ws, wire := wire c @ take n w\<rparr>)"

definition on_read :: "string \<Rightarrow> Connection \<Rightarrow> Connection" where
  "on_read s c =
     (let c = c\<lparr>read_pending := False, input_buffer := commit (length s) (fill_prepared s (input_buffer c)), heard := heard c @ s\<rparr>;
          (r, p, b) = parse (connection_parser c) (input_buffer c);
          c = c\<lparr>connection_parser := p, input_buffer := b\<rparr>
      in if \<not> (r = Good \<or> r = Indeterminate) then c\<lparr>parse_failure := Some r\<rparr> else async_read_some c)"

text \<open>The subscriber is used without a check.\<close>

definition on_read_error :: "Connection \<Rightarrow> Connection option" where
  "on_read_error c =
     (if has_subscriber c then Some (c\<lparr>read_pending := False, on_disconnects := on_disconnects c + 1\<rparr>) else None)"

section \<open>Steps\<close>

datatype connection_event = Connect_done | Read_done string | Read_failed | Write_done | Write_failed nat
  | Send string | Stop | Subscribe bool

text \<open>A completion only comes for an operation that is pending; nothing else happens then.\<close>

fun connection_step :: "connection_event \<Rightarrow> Connection \<Rightarrow> Connection option" where
  "connection_step Connect_done c = Some (if connecting c then on_connected c else c)"
| "connection_step (Read_done s) c = Some (if read_pending c \<and> length s \<le> 512 then on_read s c else c)"
| "connection_step Read_failed c = (if read_pending c then on_read_error c else Some c)"
| "connection_step Write_done c = Some (on_written c)"
| "connection_step (Write_failed n) c = Some (on_write_error n c)"
| "connection_step (Send d) c = Some (async_send_data d c)"
| "connection_step Stop c = Some (stop_connection c)"
| "connection_step (Subscribe given) c = Some (set_subscriber given c)"

fun connection_run :: "connection_event list \<Rightarrow> Connection \<Rightarrow> Connection option" where
  "connection_run [] c = Some c"
| "connection_run (e # es) c = Option.bind (connection_step e c) (connection_run es)"

text \<open>What the server makes of an accepted socket, and the client of its own: \<open>ds\<close> is sent before the socket is opened.\<close>

definition accepted_connection :: Connection where
  "accepted_connection = start_connection (set_subscriber True (create_connection True))"

definition connected_client :: "string list \<Rightarrow> Connection" where
  "connected_client ds =
     on_connected (connection_async_connect (foldl (\<lambda>c d. async_send_data d c) (set_subscriber True (create_connection False)) ds))"

section \<open>What is read\<close>

definition reading_inv :: "Connection \<Rightarrow> bool" where
  "reading_inv c \<longleftrightarrow>
     rtsp_run initial_parser (heard c) = (parse_failure c, connection_parser c, buffer_view (input_buffer c))
     \<and> buffer_ok (input_buffer c)
     \<and> (read_pending c \<longrightarrow> parse_failure c = None \<and> write_position (input_buffer c) + 512 \<le> length (buffer_data (input_buffer c)))
     \<and> (parse_failure c = None \<longrightarrow> settled (connection_parser c))"

lemma prepare_ok:
  assumes "buffer_ok b"
  shows "buffer_ok (prepare n b)" "buffer_view (prepare n b) = buffer_view b"
    "write_position (prepare n b) + n \<le> length (buffer_data (prepare n b))"
  using assms by (auto simp: buffer_ok_def prepare_def resize_string_def buffer_view_def min_def drop_take)

lemma fill_ok:
  assumes "buffer_ok b" "write_position b + length s \<le> length (buffer_data b)"
  shows "buffer_ok (commit (length s) (fill_prepared s b))" "buffer_view (commit (length s) (fill_prepared s b)) = buffer_view b @ s"
  using assms by (auto simp: buffer_ok_def commit_def fill_prepared_def buffer_view_def drop_take)

lemma initial_run: "rtsp_run initial_parser [] = (None, initial_parser, [])"
  by (rule run_ready_empty) (simp add: ready_def initial_parser_def)

lemma initial_settled: "settled initial_parser"
  by (simp add: settled_def initial_parser_def)

lemma read_some_inv:
  assumes "reading_inv c" "parse_failure c = None"
  shows "reading_inv (async_read_some c)"
  using assms prepare_ok [of "input_buffer c" 512] by (simp add: reading_inv_def async_read_some_def)

lemma reading_inv_read:
  assumes inv: "reading_inv c" and pending: "read_pending c" and s: "length s \<le> 512"
  shows "reading_inv (on_read s c)"
proof -
  let ?b = "commit (length s) (fill_prepared s (input_buffer c))"
  have b: "buffer_ok ?b" "buffer_view ?b = buffer_view (input_buffer c) @ s"
    using fill_ok [of "input_buffer c" s] inv pending s by (simp_all add: reading_inv_def)
  obtain r p b' where pr: "parse (connection_parser c) ?b = (r, p, b')" by (metis prod_cases3)
  have settled: "settled (connection_parser c)" and run0: "rtsp_run initial_parser (heard c) = (None, connection_parser c, buffer_view (input_buffer c))"
    using inv pending by (auto simp: reading_inv_def)
  note ref = parse_refines [OF b(1) settled pr]
  let ?c = "c\<lparr>read_pending := False, heard := heard c @ s, connection_parser := p, input_buffer := b'\<rparr>"
  have run: "rtsp_run initial_parser (heard c @ s) = (failure r, p, buffer_view b')"
    using run0 b(2) ref by (simp add: run_append)
  have read: "on_read s c = (if failure r = None then async_read_some ?c else ?c\<lparr>parse_failure := Some r\<rparr>)"
    using pr by (simp add: on_read_def failure_def Let_def)
  show ?thesis
  proof (cases "failure r")
    case None
    then have "reading_inv ?c" using run ref inv pending by (simp add: reading_inv_def)
    moreover have "parse_failure ?c = None" using inv pending by (simp add: reading_inv_def)
    ultimately show ?thesis using read_some_inv [of ?c] unfolding read None by simp
  next
    case (Some e)
    then have "e = r" by (simp add: failure_def split: if_splits)
    then show ?thesis using run ref Some read by (simp add: reading_inv_def)
  qed
qed

text \<open>Writing has no part in it.\<close>

definition reading_part where
  "reading_part c = (heard c, parse_failure c, connection_parser c, input_buffer c, read_pending c, connecting c)"

lemma reading_part_cong: "reading_part c = reading_part d \<Longrightarrow> reading_inv c = reading_inv d \<and> connecting c = connecting d"
  by (simp add: reading_part_def reading_inv_def)

lemma reading_part_write:
  "reading_part (async_write c) = reading_part c"
  "reading_part (async_send_data d c) = reading_part c"
  "reading_part (on_written c) = reading_part c"
  "reading_part (on_write_error n c) = reading_part c"
  "reading_part (stop_connection c) = reading_part c"
  "reading_part (set_subscriber g c) = reading_part c"
  by (simp_all add: reading_part_def async_write_def async_send_data_def on_written_def on_write_error_def
      stop_connection_def set_subscriber_def Let_def split: list.splits)

lemma connecting_read: "connecting (on_read s c) = connecting c"
  by (simp add: on_read_def async_read_some_def Let_def split: prod.splits)

lemma reading_inv_step:
  assumes "reading_inv c" "\<not> connecting c" "connection_step e c = Some c'"
  shows "reading_inv c' \<and> \<not> connecting c'"
proof (cases e)
  case (Read_done s)
  then show ?thesis using assms reading_inv_read [of c s] connecting_read [of s c] by (auto split: if_splits)
next
  case Read_failed
  then show ?thesis using assms by (auto simp: reading_inv_def on_read_error_def split: if_splits)
next
  case Connect_done
  then show ?thesis using assms by simp
qed (use assms reading_part_cong [OF reading_part_write(2) [of _ c]] reading_part_cong [OF reading_part_write(3) [of c]]
    reading_part_cong [OF reading_part_write(4) [of _ c]] reading_part_cong [OF reading_part_write(5) [of c]]
    reading_part_cong [OF reading_part_write(6) [of _ c]] in auto)

lemma reading_inv_run:
  "connection_run es c = Some c' \<Longrightarrow> reading_inv c \<Longrightarrow> \<not> connecting c \<Longrightarrow> reading_inv c'"
proof (induction es arbitrary: c)
  case (Cons e es)
  then obtain d where "connection_step e c = Some d" "connection_run es d = Some c'" by (auto simp: bind_Some_iff)
  then show ?case using Cons reading_inv_step [of c e d] by blast
qed simp

section \<open>What is written\<close>

text \<open>
  At most one write is pending, it was given what is still at the front of the output, and what was written and what is
  left is what was told. After a failed write nothing more is written.
\<close>

definition writing_inv :: "Connection \<Rightarrow> bool" where
  "writing_inv c \<longleftrightarrow>
     buffer_ok (output_buffer c)
     \<and> (case writes_pending c of
          [] \<Rightarrow> prefix (wire c) (told c)
        | [w] \<Rightarrow> prefix w (buffer_view (output_buffer c)) \<and> w \<noteq> [] \<and> wire c @ buffer_view (output_buffer c) = told c
        | _ \<Rightarrow> False)
     \<and> (buffer_view (output_buffer c) = [] \<longrightarrow> wire c = told c)"

text \<open>Reading has no part in it.\<close>

definition writing_part where
  "writing_part c = (output_buffer c, writes_pending c, wire c, told c)"

lemma writing_part_cong: "writing_part c = writing_part d \<Longrightarrow> writing_inv c = writing_inv d"
  by (simp add: writing_part_def writing_inv_def split: list.splits)

lemma writing_part_read:
  "writing_part (async_read_some c) = writing_part c"
  "writing_part (on_read s c) = writing_part c"
  "writing_part (stop_connection c) = writing_part c"
  "writing_part (set_subscriber g c) = writing_part c"
  "on_read_error c = Some c' \<Longrightarrow> writing_part c' = writing_part c"
  by (auto simp: writing_part_def async_read_some_def on_read_def on_read_error_def stop_connection_def set_subscriber_def
      Let_def split: prod.splits if_splits)

lemma writing_inv_send: "writing_inv c \<Longrightarrow> writing_inv (async_send_data d c)"
proof -
  assume inv: "writing_inv c"
  then have ok: "buffer_ok (output_buffer c)" by (simp add: writing_inv_def)
  let ?b = "buffer_write d (output_buffer c)"
  have b: "buffer_ok ?b" "buffer_view ?b = buffer_view (output_buffer c) @ d" using sb.put_ok [OF ok] by auto
  show ?thesis
  proof (cases "buffer_view (output_buffer c) = []")
    case True
    then have "writes_pending c = []" "wire c = told c"
      using inv by (auto simp: writing_inv_def split: list.splits)
    then show ?thesis using True b ok
      by (auto simp: writing_inv_def async_send_data_def async_write_def sb.used_up_iff Let_def)
  next
    case False
    then show ?thesis using inv b ok
      by (auto simp: writing_inv_def async_send_data_def sb.used_up_iff Let_def split: list.splits intro: prefix_prefix)
  qed
qed

lemma writing_inv_written: "writing_inv c \<Longrightarrow> writing_inv (on_written c)"
proof (cases "writes_pending c")
  case (Cons w ws)
  assume inv: "writing_inv c"
  then have ws: "ws = []" and ok: "buffer_ok (output_buffer c)" and w: "prefix w (buffer_view (output_buffer c))"
    and all: "wire c @ buffer_view (output_buffer c) = told c"
    using Cons by (auto simp: writing_inv_def split: list.splits)
  let ?b = "consume (length w) (output_buffer c)"
  have "length w \<le> remaining (output_buffer c)" using w ok prefix_length_le [OF w] by (simp add: sb.left_eq)
  then have b: "buffer_ok ?b" "buffer_view ?b = drop (length w) (buffer_view (output_buffer c))"
    using consume_ok [OF ok] view_consume [OF ok] by auto
  have "w @ drop (length w) (buffer_view (output_buffer c)) = buffer_view (output_buffer c)" using w by (auto simp: prefix_def)
  then have told: "(wire c @ w) @ buffer_view ?b = told c" using all b(2) by simp
  show ?thesis
  proof (cases "exhausted ?b")
    case True
    then show ?thesis using Cons ws b told by (auto simp: on_written_def writing_inv_def sb.used_up_iff)
  next
    case False
    then show ?thesis using Cons ws b(1) told
      by (auto simp: on_written_def writing_inv_def sb.used_up_iff async_write_def)
  qed
qed (simp add: on_written_def)

lemma writing_inv_error: "writing_inv c \<Longrightarrow> writing_inv (on_write_error n c)"
proof (cases "writes_pending c")
  case (Cons w ws)
  assume inv: "writing_inv c"
  then have ws: "ws = []" and w: "prefix w (buffer_view (output_buffer c))" "w \<noteq> []" and told: "wire c @ buffer_view (output_buffer c) = told c"
    using Cons by (auto simp: writing_inv_def split: list.splits)
  have "prefix (take n w) (buffer_view (output_buffer c))" using w(1) take_is_prefix prefix_order.order_trans by blast
  then have "prefix (wire c @ take n w) (told c)" using told by (metis same_prefix_prefix)
  then show ?thesis using inv Cons ws w by (auto simp: writing_inv_def on_write_error_def)
qed (simp add: on_write_error_def)

lemma writing_inv_step:
  assumes "writing_inv c" "\<not> connecting c" "connection_step e c = Some c'"
  shows "writing_inv c'"
  using assms
proof (cases e)
  case (Read_done s)
  then show ?thesis using assms writing_part_cong [OF writing_part_read(2) [of s c]] by auto
next
  case Read_failed
  then show ?thesis using assms writing_part_cong [OF writing_part_read(5) [of c c']] by (auto split: if_splits)
qed (use assms writing_part_cong [OF writing_part_read(3) [of c]] writing_part_cong [OF writing_part_read(4) [of _ c]]
    writing_inv_send writing_inv_written writing_inv_error in auto)

lemma connection_run_inv:
  "connection_run es c = Some c' \<Longrightarrow> writing_inv c \<Longrightarrow> reading_inv c \<Longrightarrow> \<not> connecting c \<Longrightarrow>
   writing_inv c' \<and> reading_inv c'"
proof (induction es arbitrary: c)
  case (Cons e es)
  then obtain d where "connection_step e c = Some d" "connection_run es d = Some c'" by (auto simp: bind_Some_iff)
  then show ?case using Cons reading_inv_step [of c e d] writing_inv_step [of c e d] by blast
qed simp

section \<open>The connections there are\<close>

lemma initial_connection_inv:
  "reading_inv (create_connection x)" "writing_inv (create_connection x)" "\<not> connecting (create_connection x)"
  by (simp_all add: reading_inv_def writing_inv_def create_connection_def empty_buffer_ok initial_run initial_settled)

lemma accepted_inv:
  "reading_inv accepted_connection" "writing_inv accepted_connection" "\<not> connecting accepted_connection"
proof -
  let ?c = "set_subscriber True (create_connection True)"
  have c: "reading_inv ?c" "writing_inv ?c" "\<not> connecting ?c"
    using initial_connection_inv [of True] reading_part_cong [OF reading_part_write(6)] writing_part_cong [OF writing_part_read(4)]
    by blast+
  have "parse_failure ?c = None" by (simp add: set_subscriber_def create_connection_def)
  then show "reading_inv accepted_connection" "\<not> connecting accepted_connection"
    using read_some_inv [OF c(1)] c(3) by (auto simp: accepted_connection_def start_connection_def async_read_some_def)
  show "writing_inv accepted_connection"
    using c writing_part_cong [OF writing_part_read(1)] by (simp add: accepted_connection_def start_connection_def)
qed

lemma unopened_send:
  assumes "\<not> socket_open c"
  shows "\<not> socket_open (async_send_data d c)" "writes_pending (async_send_data d c) = writes_pending c"
    "wire (async_send_data d c) = wire c" "told (async_send_data d c) = told c @ d"
    "output_buffer (async_send_data d c) = buffer_write d (output_buffer c)"
    "has_subscriber (async_send_data d c) = has_subscriber c"
  using assms by (simp_all add: async_send_data_def Let_def)

text \<open>A connection whose socket was never opened: what it was told is in its buffer.\<close>

definition unopened :: "Connection \<Rightarrow> string \<Rightarrow> Connection \<Rightarrow> bool" where
  "unopened c0 s c \<longleftrightarrow>
     \<not> socket_open c \<and> buffer_ok (output_buffer c) \<and> writes_pending c = [] \<and> wire c = []
     \<and> buffer_view (output_buffer c) = s \<and> told c = s \<and> reading_part c = reading_part c0"

lemma unopened_step: "unopened c0 s c \<Longrightarrow> unopened c0 (s @ d) (async_send_data d c)"
  using sb.put_ok [of "output_buffer c" d] by (simp add: unopened_def unopened_send reading_part_write)

lemma unopened_sends: "unopened c0 s c \<Longrightarrow> unopened c0 (s @ concat ds) (foldl (\<lambda>c d. async_send_data d c) c ds)"
proof (induction ds arbitrary: s c)
  case (Cons d ds)
  then show ?case using Cons.IH [OF unopened_step [OF Cons.prems, of d]] by simp
qed simp

lemma client_inv:
  "reading_inv (connected_client ds)" "writing_inv (connected_client ds)" "\<not> connecting (connected_client ds)"
  "told (connected_client ds) = concat ds"
proof -
  let ?c0 = "set_subscriber True (create_connection False)"
  define c where "c = foldl (\<lambda>c d. async_send_data d c) ?c0 ds"
  have "unopened ?c0 [] ?c0" by (simp add: unopened_def set_subscriber_def create_connection_def empty_buffer_ok)
  then have c: "buffer_ok (output_buffer c)" "writes_pending c = []" "wire c = []" "told c = buffer_view (output_buffer c)"
    "told c = concat ds" "reading_part c = reading_part ?c0"
    using unopened_sends [of ?c0 "[]" ?c0 ds] by (simp_all add: c_def unopened_def)
  let ?d = "async_write (c\<lparr>socket_open := True, connecting := False\<rparr>)"
  have eq: "connected_client ds = (let e = async_read_some ?d in if has_subscriber e then e\<lparr>on_connects := on_connects e + 1\<rparr> else e)"
    by (simp add: connected_client_def on_connected_def connection_async_connect_def c_def)
  have rp: "reading_part ?d = reading_part ?c0"
    using c(6) by (simp add: reading_part_def async_write_def set_subscriber_def create_connection_def)
  have c0: "reading_inv ?c0" "\<not> connecting ?c0"
    using initial_connection_inv(1,3) [of False] reading_part_cong [OF reading_part_write(6)] by blast+
  have "parse_failure ?c0 = None" by (simp add: set_subscriber_def create_connection_def)
  then have d: "reading_inv ?d" "\<not> connecting ?d" "parse_failure ?d = None"
    using reading_part_cong [OF rp] c0 rp by (simp_all only: reading_part_def prod.inject simp_thms)
  then have "reading_inv (async_read_some ?d)" by (simp add: read_some_inv)
  moreover have "reading_part (connected_client ds) = reading_part (async_read_some ?d)"
    unfolding eq by (simp add: Let_def reading_part_def)
  ultimately show "reading_inv (connected_client ds)" using reading_part_cong [of "connected_client ds"] by metis
  show "\<not> connecting (connected_client ds)" using d(2) unfolding eq by (simp add: Let_def async_read_some_def)
  have w: "writing_part (connected_client ds) = writing_part ?d"
    unfolding eq by (simp add: Let_def writing_part_def async_read_some_def)
  have "writing_inv ?d" using c(1-4)
    by (cases "exhausted (output_buffer c)") (auto simp: writing_inv_def async_write_def sb.used_up_iff)
  then show "writing_inv (connected_client ds)" using writing_part_cong [OF w] by simp
  show "told (connected_client ds) = concat ds" using w c(5) by (simp add: writing_part_def async_write_def split: if_splits)
qed

lemma written_is_told: "writing_inv c \<Longrightarrow> prefix (wire c) (told c) \<and> (buffer_view (output_buffer c) = [] \<longrightarrow> wire c = told c)"
  by (auto simp: writing_inv_def prefix_def split: list.splits) (metis append.assoc)+

lemma read_is_run: "reading_inv c \<Longrightarrow> rtsp_run initial_parser (heard c) = (parse_failure c, connection_parser c, buffer_view (input_buffer c))"
  by (simp add: reading_inv_def)

lemma messages_read:
  assumes "reading_inv c" "prefix (heard c) (concat (map encode_message ms))" "list_all sendable ms"
  shows "parse_failure c = None \<and> prefix (emitted (connection_parser c)) (map as_received ms)"
    and "heard c = concat (map encode_message ms) \<Longrightarrow>
      emitted (connection_parser c) = map as_received ms \<and> buffer_view (input_buffer c) = []"
proof -
  obtain t where t: "concat (map encode_message ms) = heard c @ t" using assms(2) by (auto simp: prefix_def)
  have "ready initial_parser" "emitted initial_parser = []" by (simp_all add: ready_def initial_parser_def)
  then obtain p where p: "rtsp_run initial_parser (heard c @ t) = (None, p, [])" "emitted p = map as_received ms"
    using run_messages [of initial_parser ms] assms(3) t by auto
  note r = read_is_run [OF assms(1)] run_append [of initial_parser "heard c" t]
  have ok: "parse_failure c = None" using p(1) r by (cases "parse_failure c") auto
  then have "rtsp_run (connection_parser c) (buffer_view (input_buffer c) @ t) = (None, p, [])" using p(1) r by simp
  then obtain ns where "emitted p = emitted (connection_parser c) @ ns" using run_emits by blast
  then show "parse_failure c = None \<and> prefix (emitted (connection_parser c)) (map as_received ms)"
    using ok p(2) by (metis prefixI)
  assume "heard c = concat (map encode_message ms)"
  then have "t = []" using t by simp
  then show "emitted (connection_parser c) = map as_received ms \<and> buffer_view (input_buffer c) = []" using p r by simp
qed

section \<open>Properties\<close>

text \<open>The two ways a connection comes to be: accepted by a server, or dialled by a client that had sent \<open>ds\<close> before.\<close>

datatype connection_end = Accepted | Dialled "string list"

fun open_endpoint :: "connection_end \<Rightarrow> Connection" where
  "open_endpoint Accepted = accepted_connection"
| "open_endpoint (Dialled ds) = connected_client ds"

lemma endpoint_inv: "reading_inv (open_endpoint e)" "writing_inv (open_endpoint e)" "\<not> connecting (open_endpoint e)"
  by (cases e; simp add: accepted_inv client_inv)+

lemma endpoint_run_inv: "connection_run es (open_endpoint e) = Some c \<Longrightarrow> writing_inv c \<and> reading_inv c"
  using connection_run_inv endpoint_inv by blast

text \<open>
  C15: what a connection hands to its subscriber depends on the bytes that arrived and not on how they were
  cut into reads, on what was sent meanwhile or on when: two connections that read the same bytes emitted the same
  messages, failed or not with the same error and hold the same rest.
\<close>

theorem rtsp_chunking:
  assumes "connection_run es (open_endpoint e) = Some c" and "connection_run fs (open_endpoint f) = Some d"
    and "heard c = heard d"
  shows "emitted (connection_parser c) = emitted (connection_parser d) \<and> parse_failure c = parse_failure d
    \<and> buffer_view (input_buffer c) = buffer_view (input_buffer d)"
  using endpoint_run_inv [OF assms(1)] endpoint_run_inv [OF assms(2)] assms(3) by (auto dest!: read_is_run)


text \<open>
  When data is sent after \<open>async_connect\<close> opened the socket but before it is connected, the write
  that is started there and the one \<open>async_connect\<close> starts when it is done both write it: the peer gets it twice.
\<close>

theorem early_send_repeated:
  "map_option wire (connection_run [Send (x # s), Connect_done, Write_done, Write_done]
     (connection_async_connect (set_subscriber True (create_connection False)))) = Some ((x # s) @ x # s)"
proof -
  let ?c = "connection_async_connect (set_subscriber True (create_connection False))"
  let ?b = "buffer_write (x # s) empty_buffer"
  have b: "buffer_ok ?b" "buffer_view ?b = x # s" using sb.put_ok [OF empty_buffer_ok(1)] empty_buffer_ok(2) by auto
  then have b': "\<not> exhausted ?b" by (simp add: sb.used_up_iff)
  have w: "writes_pending (async_send_data (x # s) ?c) = [x # s]" "output_buffer (async_send_data (x # s) ?c) = ?b"
    "wire (async_send_data (x # s) ?c) = []" "connecting (async_send_data (x # s) ?c)"
    using b b' empty_buffer_ok by (simp_all add: async_send_data_def connection_async_connect_def set_subscriber_def
        create_connection_def async_write_def sb.used_up_iff)
  let ?d = "on_connected (async_send_data (x # s) ?c)"
  have d: "writes_pending ?d = [x # s, x # s]" "output_buffer ?d = ?b" "wire ?d = []"
    using w b b' by (simp_all add: on_connected_def Let_def async_read_some_def async_write_def)
  have e: "exhausted (consume (length (x # s)) ?b)"
    using view_consume [OF b(1), of "length (x # s)"] consume_ok [OF b(1), of "length (x # s)"] b
    by (simp add: sb.used_up_iff sb.left_eq del: list.size)
  then have d1: "writes_pending (on_written ?d) = [x # s]" "wire (on_written ?d) = x # s"
    using d by (simp_all add: on_written_def del: list.size)
  then have "wire (on_written (on_written ?d)) = (x # s) @ x # s"
    by (simp add: on_written_def Let_def async_write_def)
  then show ?thesis using w(4) by simp
qed

text \<open>Clearing the subscriber, as stopping the server does, makes the end of the pending read undefined behaviour.\<close>

lemma read_after_unsubscribe: "connection_run [Subscribe False, Read_failed] accepted_connection = None"
  by (simp add: accepted_connection_def start_connection_def async_read_some_def set_subscriber_def on_read_error_def)

text \<open>A failed write leaves the output as it was, and what is sent later is only kept.\<close>

lemma write_error_stalls:
  assumes "writes_pending c = [w]" "\<not> exhausted (output_buffer c)" "buffer_ok (output_buffer c)"
  shows "writes_pending (async_send_data d (on_write_error n c)) = [] \<and> on_written (on_write_error n c) = on_write_error n c"
  using assms by (simp add: on_write_error_def async_send_data_def on_written_def Let_def)

section \<open>Witnesses\<close>

definition example_message :: rtsp_message where
  "example_message = Got_request (make_request ''DESCRIBE'' ''rtsp://host/by-name/a'' ''x'')"

lemma example_sendable: "sendable example_message"
  by (simp add: example_message_def make_request_def sendable_parts_def names_distinct_def starts_with_def)

lemma example_length: "length (encode_message example_message) \<le> 512"
  by (simp add: example_message_def make_request_def request_encode_eq show_signed_def show_int_def show_nat.simps
      encode_headers_def sent_headers_def encode_header_def)

lemma example_heard:
  "length s \<le> 512 \<Longrightarrow> connection_run [Read_done s] accepted_connection = Some (on_read s accepted_connection)"
  "heard (on_read s accepted_connection) = s"
  by (simp_all add: accepted_connection_def start_connection_def async_read_some_def set_subscriber_def create_connection_def
      on_read_def Let_def split: prod.splits)

lemma example_wire:
  assumes "d \<noteq> []"
  shows "connection_run [Write_done] (connected_client [d]) = Some (on_written (connected_client [d]))"
    "told (on_written (connected_client [d])) = d" "wire (on_written (connected_client [d])) = d"
proof -
  let ?b = "buffer_write d empty_buffer"
  have b: "buffer_ok ?b" "buffer_view ?b = d" using sb.put_ok [OF empty_buffer_ok(1)] empty_buffer_ok(2) by auto
  then have "writes_pending (connected_client [d]) = [d]" "wire (connected_client [d]) = []"
    using assms by (simp_all add: connected_client_def connection_async_connect_def on_connected_def Let_def set_subscriber_def
        create_connection_def async_send_data_def async_write_def async_read_some_def sb.used_up_iff)
  then show "told (on_written (connected_client [d])) = d" "wire (on_written (connected_client [d])) = d"
    using client_inv(4) [of "[d]"] by (simp_all add: on_written_def Let_def async_write_def)
qed simp


lemma read_goes_on:
  assumes "reading_inv c" "read_pending c" "length s \<le> 512" "fst (rtsp_run initial_parser (heard c @ s)) = None"
  shows "read_pending (on_read s c)" "heard (on_read s c) = heard c @ s"
proof -
  show h: "heard (on_read s c) = heard c @ s"
    by (simp add: on_read_def async_read_some_def Let_def split: prod.splits)
  then have "parse_failure (on_read s c) = None"
    using read_is_run [OF reading_inv_read [OF assms(1-3)]] assms(4) by simp
  then show "read_pending (on_read s c)"
    by (simp add: on_read_def async_read_some_def Let_def split: prod.splits if_splits)
qed

theorem rtsp_chunking_witness:
  "buffer_view (input_buffer (on_read ''PL'' accepted_connection)) =
   buffer_view (input_buffer (on_read ''L'' (on_read ''P'' accepted_connection)))"
proof -
  have "rtsp_step initial_parser ''P'' = Wait"
    by (simp add: rtsp_step_def initial_parser_def read_until_newline_def)
  then have "fst (rtsp_run initial_parser ''P'') = None" by (simp add: run_Wait)
  moreover have a: "read_pending accepted_connection" "heard accepted_connection = []"
    by (simp_all add: accepted_connection_def start_connection_def async_read_some_def set_subscriber_def create_connection_def)
  ultimately have p: "read_pending (on_read ''P'' accepted_connection)" "heard (on_read ''P'' accepted_connection) = ''P''"
    using read_goes_on [OF accepted_inv(1), of "''P''"] by simp_all
  have "heard (on_read ''L'' (on_read ''P'' accepted_connection)) = ''PL''"
    using p(2) by (simp add: on_read_def async_read_some_def Let_def split: prod.splits)
  then show ?thesis
    using rtsp_chunking [of "[Read_done ''PL'']" Accepted "on_read ''PL'' accepted_connection"
        "[Read_done ''P'', Read_done ''L'']" Accepted "on_read ''L'' (on_read ''P'' accepted_connection)"] a p
      example_heard(2) [of "''PL''"] by simp
qed

end
