(* ===== verification/Uri.thy ===== *)
theory Uri
  imports Float_Text
begin

text \<open>
  \<open>Uri\<close> (core/util/uri.hpp, src/ravennakit/core/uri.cpp): parsing, percent coding and printing of URIs. An exception is
  \<open>None\<close>. Shown: decoding undoes encoding, and a URI that is printed is read back field by field.
\<close>

section \<open>Percent coding\<close>

definition byte_of :: "char \<Rightarrow> nat" where "byte_of c = of_char c"

definition is_alnum :: "char \<Rightarrow> bool" where
  "is_alnum c \<longleftrightarrow> (48 \<le> byte_of c \<and> byte_of c \<le> 57) \<or> (65 \<le> byte_of c \<and> byte_of c \<le> 90) \<or> (97 \<le> byte_of c \<and> byte_of c \<le> 122)"

definition hex_digits :: string where "hex_digits = ''0123456789ABCDEF''"

definition uri_plain :: "bool \<Rightarrow> char \<Rightarrow> bool" where
  "uri_plain encode_slash c \<longleftrightarrow>
     is_alnum c \<or> c = CHR ''-'' \<or> c = CHR ''_'' \<or> c = CHR ''.'' \<or> c = CHR ''~'' \<or> (\<not> encode_slash \<and> c = CHR ''/'')"

definition uri_encode_char :: "bool \<Rightarrow> bool \<Rightarrow> char \<Rightarrow> string" where
  "uri_encode_char encode_plus encode_slash c =
     (if uri_plain encode_slash c then [c]
      else if encode_plus \<and> c = CHR '' '' then [CHR ''+'']
      else [CHR ''%'', hex_digits ! (byte_of c div 16), hex_digits ! (byte_of c mod 16)])"

definition uri_encode :: "bool \<Rightarrow> bool \<Rightarrow> string \<Rightarrow> string" where
  "uri_encode encode_plus encode_slash s = concat (map (uri_encode_char encode_plus encode_slash) s)"

abbreviation encode_part :: "string \<Rightarrow> string" where "encode_part \<equiv> uri_encode False False"

definition uri_encode_path :: "string \<Rightarrow> string \<Rightarrow> string \<Rightarrow> string" where
  "uri_encode_path scheme host path = encode_part scheme @ ''://'' @ host @ encode_part path"

text \<open>\<open>std::stoi\<close> in base 16 as \<open>strtol\<close> does it: white space, a sign, a prefix; \<open>None\<close> when there is no digit.\<close>

definition stoi_hex :: "string \<Rightarrow> int option" where
  "stoi_hex s =
     (let s = dropWhile is_space s;
          neg = s \<noteq> [] \<and> hd s = CHR ''-'';
          s = (if s \<noteq> [] \<and> (hd s = CHR ''-'' \<or> hd s = CHR ''+'') then tl s else s);
          s = (if (starts_with ''0x'' s \<or> starts_with ''0X'' s) \<and> 2 < length s \<and> is_hex_digit (s ! 2) then drop 2 s else s);
          ds = takeWhile is_hex_digit s;
          v = int (foldl (\<lambda>n d. n * 16 + hex_digit_value d) 0 ds)
      in if ds = [] then None else Some (if neg then - v else v))"

fun uri_decode :: "bool \<Rightarrow> string \<Rightarrow> string option" where
  "uri_decode decode_plus [] = Some []"
| "uri_decode decode_plus (c # s) =
     (if c = CHR ''%'' \<and> 2 \<le> length s
      then Option.bind (stoi_hex (take 2 s)) (\<lambda>v.
           map_option (Cons (char_of (nat (v mod 256)))) (uri_decode decode_plus (drop 2 s)))
      else if decode_plus \<and> c = CHR ''+'' then map_option (Cons (CHR '' '')) (uri_decode decode_plus s)
      else map_option (Cons c) (uri_decode decode_plus s))"

section \<open>The query\<close>

text \<open>A \<open>std::map\<close> from strings to strings: an association list in the order of the keys.\<close>

type_synonym query = "(string \<times> string) list"

fun string_less :: "string \<Rightarrow> string \<Rightarrow> bool" where
  "string_less _ [] = False"
| "string_less [] (_ # _) = True"
| "string_less (a # s) (b # t) = (byte_of a < byte_of b \<or> (a = b \<and> string_less s t))"

fun query_set :: "string \<Rightarrow> string \<Rightarrow> query \<Rightarrow> query" where
  "query_set k v [] = [(k, v)]"
| "query_set k v ((k', v') # q) =
     (if k = k' then (k, v) # q else if string_less k k' then (k, v) # (k', v') # q else (k', v') # query_set k v q)"

definition query_get :: "string \<Rightarrow> query \<Rightarrow> string option" where
  "query_get k q = map_of q k"

text \<open>\<open>query[key]\<close>, and the assignment when a value follows.\<close>

lemma find_string_less: "find_string d s = Some n \<Longrightarrow> n + length d \<le> length s"
proof (induction s arbitrary: n)
  case (Cons x s)
  show ?case
  proof (cases "starts_with d (x # s)")
    case True
    then have "n = 0" "take (length d) (x # s) = d" using Cons.prems by (simp_all add: starts_with_def)
    then show ?thesis by (metis add_0 length_take min.cobounded1)
  next
    case False
    then show ?thesis using Cons by auto
  qed
qed (auto split: if_splits)

lemma read_until_string_shrinks: "read_until_string d i s = (Some k, t) \<Longrightarrow> d \<noteq> [] \<Longrightarrow> length t < length s"
  by (cases "find_string d s") (auto simp: read_until_string_def split: if_splits dest: find_string_less)

lemma split_string_shrinks: "split_string d i s = (v, t) \<Longrightarrow> length t \<le> length s"
  by (auto simp: split_string_def split: option.splits if_splits)

function parse_query_loop :: "string \<Rightarrow> query \<Rightarrow> query option" where
  "parse_query_loop s q =
     (if s = [] then Some q
      else case read_until_string ''='' False s of
        (None, _) \<Rightarrow> None
      | (Some key, s1) \<Rightarrow>
          Option.bind (uri_decode True key) (\<lambda>k.
            let q = (case query_get k q of None \<Rightarrow> query_set k [] q | Some _ \<Rightarrow> q)
            in case split_string ''&'' False s1 of
              (None, s2) \<Rightarrow> parse_query_loop s2 q
            | (Some v, s2) \<Rightarrow> Option.bind (uri_decode True v) (\<lambda>v. parse_query_loop s2 (query_set k v q))))"
  by pat_completeness auto
termination
  by (relation "measure (\<lambda>(s, q). length s)")
    (auto dest!: read_until_string_shrinks [OF sym] split_string_shrinks [OF sym])

declare parse_query_loop.simps [simp del]

definition parse_query :: "string \<Rightarrow> query option" where
  "parse_query s = parse_query_loop (snd (skip_char (CHR ''?'') s)) []"

section \<open>URIs\<close>

record Uri =
  uri_scheme :: string
  uri_user :: string
  uri_password :: string
  uri_host :: string
  uri_port :: "u16 option"
  uri_path :: string
  uri_query :: query
  uri_fragment :: string

definition empty_uri :: Uri where
  "empty_uri = \<lparr>uri_scheme = [], uri_user = [], uri_password = [], uri_host = [], uri_port = None, uri_path = [],
     uri_query = [], uri_fragment = []\<rparr>"

text \<open>\<open>if (const auto v = ...) { field = decode(*v); }\<close>\<close>

definition decode_field :: "string option \<Rightarrow> string \<Rightarrow> string option" where
  "decode_field v old = (case v of None \<Rightarrow> Some old | Some s \<Rightarrow> uri_decode False s)"

definition parse_user_info :: "string option \<Rightarrow> Uri \<Rightarrow> Uri option" where
  "parse_user_info user_info u =
     (case user_info of
        None \<Rightarrow> Some u
      | Some s \<Rightarrow>
          (let (user, s) = split_string '':'' False s; (password, s) = read_until_end s in
           Option.bind (decode_field user (uri_user u)) (\<lambda>user.
           Option.bind (decode_field password (uri_password u)) (\<lambda>password.
             Some (u\<lparr>uri_user := user, uri_password := password\<rparr>)))))"

definition parse_authority :: "string option \<Rightarrow> Uri \<Rightarrow> Uri option" where
  "parse_authority authority u =
     (case authority of
        None \<Rightarrow> Some u
      | Some s \<Rightarrow>
          (let (user_info, s) = read_until_string ''@'' False s in
           Option.bind (parse_user_info user_info u) (\<lambda>u.
           let (host, s) = split_string '':'' False s in
           Option.bind (decode_field host (uri_host u)) (\<lambda>host.
           let (port, s) = read_unsigned s
           in Some (u\<lparr>uri_host := host, uri_port := (case port of Some p \<Rightarrow> Some p | None \<Rightarrow> uri_port u)\<rparr>)))))"

definition parse_fragment :: "string \<Rightarrow> Uri \<Rightarrow> Uri option" where
  "parse_fragment s u =
     Option.bind (decode_field (fst (read_until_end s)) (uri_fragment u)) (\<lambda>f. Some (u\<lparr>uri_fragment := f\<rparr>))"

definition parse_path :: "string \<Rightarrow> Uri \<Rightarrow> Uri option" where
  "parse_path s u =
     (case read_until_string ''?'' False s of
        (Some path1, s) \<Rightarrow>
          Option.bind (uri_decode False (CHR ''/'' # path1)) (\<lambda>path.
          let u = u\<lparr>uri_path := path\<rparr>; (q, s) = split_string ''#'' False s in
          Option.bind (case q of None \<Rightarrow> Some (uri_query u) | Some q \<Rightarrow> parse_query q) (\<lambda>query.
          parse_fragment s (u\<lparr>uri_query := query\<rparr>)))
      | (None, s) \<Rightarrow>
          (case read_until_string ''#'' False s of
             (Some path2, s) \<Rightarrow>
               Option.bind (uri_decode False (CHR ''/'' # path2)) (\<lambda>path. parse_fragment s (u\<lparr>uri_path := path\<rparr>))
           | (None, s) \<Rightarrow>
               (case read_until_end s of
                  (Some path3, s) \<Rightarrow> map_option (\<lambda>path. u\<lparr>uri_path := path\<rparr>) (uri_decode False (CHR ''/'' # path3))
                | (None, s) \<Rightarrow> Some u)))"

definition uri_parse :: "string \<Rightarrow> Uri option" where
  "uri_parse s =
     (case read_until_string ''://'' False s of
        (None, s) \<Rightarrow> None
      | (Some scheme, s) \<Rightarrow>
          Option.bind (uri_decode False scheme) (\<lambda>scheme.
          let u = empty_uri\<lparr>uri_scheme := scheme\<rparr>; (authority, s) = split_string ''/'' False s in
          Option.bind (parse_authority authority u) (parse_path s)))"

definition query_to_string :: "query \<Rightarrow> string" where
  "query_to_string q =
     butlast (foldl (\<lambda>out (k, v). out @ uri_encode True True k @ ''='' @ uri_encode True True v @ ''&'') ''?'' q)"

definition uri_to_string :: "Uri \<Rightarrow> string" where
  "uri_to_string u =
     (let out = encode_part (uri_scheme u) @ ''://'';
          out = (if uri_user u \<noteq> [] then out @ encode_part (uri_user u) else out);
          out = (if uri_password u \<noteq> [] then out @ '':'' @ encode_part (uri_password u) else out);
          out = (if uri_user u \<noteq> [] \<or> uri_password u \<noteq> [] then out @ ''@'' else out);
          out = out @ encode_part (uri_host u);
          out = (case uri_port u of Some p \<Rightarrow> out @ '':'' @ show_unsigned p | None \<Rightarrow> out);
          out = (if uri_path u = [] then out @ ''/'' else out @ encode_part (uri_path u));
          out = (if uri_query u \<noteq> [] then out @ query_to_string (uri_query u) else out)
      in if uri_fragment u \<noteq> [] then out @ ''#'' @ encode_part (uri_fragment u) else out)"

section \<open>Decoding undoes encoding\<close>

lemma hex_char:
  assumes "n < 16"
  shows "is_hex_digit (hex_digits ! n)" "hex_digit_value (hex_digits ! n) = n" "\<not> is_space (hex_digits ! n)"
    "hex_digits ! n \<noteq> CHR ''-''" "hex_digits ! n \<noteq> CHR ''+''" "hex_digits ! n \<noteq> CHR ''x''" "hex_digits ! n \<noteq> CHR ''X''"
proof -
  have all: "list_all (\<lambda>n. is_hex_digit (hex_digits ! n) \<and> hex_digit_value (hex_digits ! n) = n \<and> \<not> is_space (hex_digits ! n)
      \<and> hex_digits ! n \<noteq> CHR ''-'' \<and> hex_digits ! n \<noteq> CHR ''+'' \<and> hex_digits ! n \<noteq> CHR ''x'' \<and> hex_digits ! n \<noteq> CHR ''X'') [0..<16]"
    by code_simp
  then show "is_hex_digit (hex_digits ! n)" "hex_digit_value (hex_digits ! n) = n" "\<not> is_space (hex_digits ! n)"
    "hex_digits ! n \<noteq> CHR ''-''" "hex_digits ! n \<noteq> CHR ''+''" "hex_digits ! n \<noteq> CHR ''x''" "hex_digits ! n \<noteq> CHR ''X''"
    using assms by (simp_all add: list_all_iff)
qed

lemma stoi_hex_pair:
  assumes "m < 16" "n < 16"
  shows "stoi_hex [hex_digits ! m, hex_digits ! n] = Some (int (16 * m + n))"
  using hex_char [OF assms(1)] hex_char [OF assms(2)] by (simp add: stoi_hex_def starts_with_def Let_def)

lemma plain_not_special: "uri_plain b c \<Longrightarrow> c \<noteq> CHR ''%'' \<and> c \<noteq> CHR ''+''"
  by (auto simp: uri_plain_def is_alnum_def byte_of_def)

lemma byte_of_less: "byte_of c < 256"
  unfolding byte_of_def by (rule nat_of_char_less_256)

lemma decode_encode_char: "uri_decode p (uri_encode_char p b c @ s) = map_option (Cons c) (uri_decode p s)"
proof (cases "uri_plain b c")
  case True
  then show ?thesis using plain_not_special [OF True] by (simp add: uri_encode_char_def)
next
  case False
  have d: "byte_of c div 16 < 16" "byte_of c mod 16 < 16" using byte_of_less [of c] by auto
  have "stoi_hex [hex_digits ! (byte_of c div 16), hex_digits ! (byte_of c mod 16)] = Some (int (byte_of c))"
    using stoi_hex_pair [OF d] by simp
  moreover have "char_of (nat (int (byte_of c) mod 256)) = c"
    using byte_of_less [of c] by (simp add: byte_of_def)
  ultimately show ?thesis using False by (simp add: uri_encode_char_def)
qed

lemma decode_encode: "uri_decode p (uri_encode p b s) = Some s"
  by (induction s) (simp_all add: uri_encode_def decode_encode_char)

lemma encode_chars:
  "c \<in> set (uri_encode p b s) \<Longrightarrow> uri_plain b c \<or> c = CHR ''+'' \<and> p \<or> c = CHR ''%''"
proof -
  have h: "n < 16 \<Longrightarrow> uri_plain b (hex_digits ! n)" for n
  proof -
    assume "n < 16"
    moreover have "list_all (\<lambda>n. is_alnum (hex_digits ! n)) [0..<16]" by code_simp
    ultimately show ?thesis by (simp add: list_all_iff uri_plain_def)
  qed
  have "byte_of x div 16 < 16" "byte_of x mod 16 < 16" for x using byte_of_less [of x] by auto
  then have "c \<in> set (uri_encode_char p b x) \<Longrightarrow> uri_plain b c \<or> c = CHR ''+'' \<and> p \<or> c = CHR ''%''" for x
    using h by (auto simp: uri_encode_char_def split: if_splits)
  then show "c \<in> set (uri_encode p b s) \<Longrightarrow> ?thesis" by (auto simp: uri_encode_def)
qed

lemma encode_free:
  assumes "\<not> uri_plain b c" "c \<noteq> CHR ''+''" "c \<noteq> CHR ''%''"
  shows "c \<notin> set (uri_encode p b s)"
  using encode_chars [of c p b s] assms by auto

lemma not_plain: "\<not> uri_plain b (CHR '':'')" "\<not> uri_plain b (CHR ''@'')" "\<not> uri_plain b (CHR ''?'')" "\<not> uri_plain b (CHR ''#'')"
  "\<not> uri_plain b (CHR ''='')" "\<not> uri_plain b (CHR ''&'')" "\<not> uri_plain b (CHR '' '')" "\<not> uri_plain b newline" "\<not> uri_plain True (CHR ''/'')"
  by (simp_all add: uri_plain_def is_alnum_def byte_of_def)

lemma encode_empty_iff: "uri_encode p b s = [] \<longleftrightarrow> s = []"
  by (cases s) (auto simp: uri_encode_def uri_encode_char_def)

lemma encode_append: "uri_encode p b (s @ t) = uri_encode p b s @ uri_encode p b t"
  by (simp add: uri_encode_def)

section \<open>Printing a query and reading it back\<close>

lemma read_until_string_here:
  assumes "c \<notin> set s"
  shows "read_until_string (c # d) False (s @ c # d @ t) = (Some s, t)"
proof -
  have "find_string (c # d) (s @ c # d @ t) = Some (length s)"
    using assms by (induction s) (auto simp: starts_with_def)
  then show ?thesis by (simp add: read_until_string_def)
qed

lemma read_until_string_char: "read_until_string [c] = read_until_char c"
  by (intro ext) (auto simp: read_until_string_def read_until_char_def find_string_char split: option.splits)

lemma read_until_none: "c \<notin> set s \<Longrightarrow> read_until_char c i s = (None, s)"
  using find_char_None [of c s] by (simp add: read_until_char_def)

lemma string_less_irrefl: "string_less s t \<Longrightarrow> s \<noteq> t \<and> \<not> string_less t s"
  by (induction s t rule: string_less.induct) auto

definition query_item :: "string \<times> string \<Rightarrow> string" where
  "query_item = (\<lambda>(k, v). uri_encode True True k @ ''='' @ uri_encode True True v)"

fun join_query :: "query \<Rightarrow> string" where
  "join_query [] = []"
| "join_query [x] = query_item x"
| "join_query (x # y # q) = query_item x @ CHR ''&'' # join_query (y # q)"

lemma query_to_string_eq: "q \<noteq> [] \<Longrightarrow> query_to_string q = CHR ''?'' # join_query q"
proof -
  assume q: "q \<noteq> []"
  have "foldl (\<lambda>out (k, v). out @ uri_encode True True k @ ''='' @ uri_encode True True v @ ''&'') a q
      = a @ concat (map (\<lambda>x. query_item x @ ''&'') q)" for a q
    by (induction q arbitrary: a) (auto simp: query_item_def)
  moreover have "q \<noteq> [] \<Longrightarrow> butlast (concat (map (\<lambda>x. query_item x @ ''&'') q)) = join_query q"
    by (induction q rule: join_query.induct) (auto simp: butlast_append)
  moreover have "concat (map (\<lambda>x. query_item x @ ''&'') q) \<noteq> []" using q by (cases q) auto
  ultimately show ?thesis using q by (simp add: query_to_string_def)
qed

text \<open>The order of a \<open>std::map\<close>.\<close>

definition sorted_query :: "query \<Rightarrow> bool" where
  "sorted_query q \<longleftrightarrow> sorted_wrt (\<lambda>a b. string_less (fst a) (fst b)) q"

lemma query_set_last:
  assumes "list_all (\<lambda>a. string_less (fst a) k) q"
  shows "query_get k q = None" "query_set k v q = q @ [(k, v)]" "query_set k v (q @ [(k, w)]) = q @ [(k, v)]"
  using assms by (induction q) (auto simp: query_get_def dest: string_less_irrefl)

lemma parse_query_item:
  assumes "t = [] \<or> (\<exists>r. t = CHR ''&'' # r)" and "list_all (\<lambda>a. string_less (fst a) k) q"
  shows "parse_query_loop (query_item (k, v) @ t) q = parse_query_loop (drop 1 t) (q @ [(k, v)])"
proof -
  let ?k = "uri_encode True True k" and ?v = "uri_encode True True v"
  have free: "CHR ''='' \<notin> set ?k" "CHR ''&'' \<notin> set ?v" by (simp_all add: encode_free not_plain)
  have key: "read_until_string ''='' False (query_item (k, v) @ t) = (Some ?k, ?v @ t)"
    using read_until_string_here [OF free(1), of "[]" "?v @ t"] by (simp add: query_item_def)
  have val: "split_string ''&'' False (?v @ t) = (if v = [] \<and> t = [] then None else Some ?v, drop 1 t)"
    using assms(1) split_char_here [OF free(2)] split_char_last [OF free(2)]
    by (auto simp: split_string_char split_char_empty encode_empty_iff uri_encode_def [of _ _ "[]"])
  have "query_item (k, v) @ t \<noteq> []" by (simp add: query_item_def)
  then show ?thesis using key val query_set_last [OF assms(2)]
    by (subst parse_query_loop.simps) (auto simp: decode_encode Let_def)
qed

lemma parse_query_join:
  "sorted_query q \<Longrightarrow> (\<And>a b. a \<in> set acc \<Longrightarrow> b \<in> set q \<Longrightarrow> string_less (fst a) (fst b)) \<Longrightarrow>
   parse_query_loop (join_query q) acc = Some (acc @ q)"
proof (induction q arbitrary: acc rule: join_query.induct)
  case 1
  then show ?case by (subst parse_query_loop.simps) simp
next
  case (2 x)
  have "list_all (\<lambda>a. string_less (fst a) (fst x)) acc" using 2(2) by (auto simp: list_all_iff)
  then have "parse_query_loop (query_item (fst x, snd x) @ []) acc = parse_query_loop (drop 1 []) (acc @ [(fst x, snd x)])"
    by (intro parse_query_item) simp_all
  then show ?case by (subst (asm) (2) parse_query_loop.simps) simp
next
  case (3 x y q)
  have "list_all (\<lambda>a. string_less (fst a) (fst x)) acc" using 3(3) by (auto simp: list_all_iff)
  then have "parse_query_loop (query_item (fst x, snd x) @ CHR ''&'' # join_query (y # q)) acc
      = parse_query_loop (join_query (y # q)) (acc @ [(fst x, snd x)])"
    using parse_query_item [of "CHR ''&'' # join_query (y # q)" "fst x" acc "snd x"] by simp
  moreover have "parse_query_loop (join_query (y # q)) (acc @ [x]) = Some ((acc @ [x]) @ y # q)"
    using 3(2,3) by (intro 3(1)) (auto simp: sorted_query_def)
  ultimately show ?case by simp
qed

lemma join_query_chars: "c \<in> set (join_query q) \<Longrightarrow> uri_plain True c \<or> c \<in> set ''+%=&''"
  by (induction q rule: join_query.induct) (auto simp: query_item_def dest: encode_chars)

lemma join_query_free: "CHR ''#'' \<notin> set (join_query q)" "CHR ''?'' \<notin> set (join_query q)"
  using join_query_chars [of "CHR ''#''" q] join_query_chars [of "CHR ''?''" q] not_plain by auto

lemma join_query_nonempty: "q \<noteq> [] \<Longrightarrow> join_query q \<noteq> []"
  by (cases q rule: join_query.cases) (auto simp: query_item_def)

lemma parse_query_printed: "sorted_query q \<Longrightarrow> parse_query (join_query q) = Some q"
proof -
  assume q: "sorted_query q"
  have "snd (skip_char (CHR ''?'') (join_query q)) = join_query q"
    using join_query_free(2) [of q] by (cases "join_query q") (auto simp: skip_char_def)
  then show ?thesis using parse_query_join [OF q, of "[]"] by (simp add: parse_query_def)
qed

section \<open>Printing a URI and reading it back\<close>

definition uri_ok :: "Uri \<Rightarrow> bool" where
  "uri_ok u \<longleftrightarrow>
     CHR ''/'' \<notin> set (uri_user u) \<and> CHR ''/'' \<notin> set (uri_password u) \<and> CHR ''/'' \<notin> set (uri_host u)
     \<and> starts_with ''/'' (uri_path u) \<and> (1 < length (uri_path u) \<or> uri_query u \<noteq> [] \<or> uri_fragment u \<noteq> [])
     \<and> sorted_query (uri_query u)"

lemma hex_not_slash: "n < 16 \<Longrightarrow> CHR ''/'' \<noteq> hex_digits ! n"
proof -
  assume "n < 16"
  moreover have "list_all (\<lambda>n. CHR ''/'' \<noteq> hex_digits ! n) [0..<16]" by code_simp
  ultimately show ?thesis by (simp add: list_all_iff)
qed

lemma encode_char_no_slash: "CHR ''/'' \<noteq> x \<Longrightarrow> CHR ''/'' \<notin> set (uri_encode_char False False x)"
proof (cases "uri_plain False x")
  case False
  have "byte_of x div 16 < 16" "byte_of x mod 16 < 16" using byte_of_less [of x] by auto
  note h = this [THEN hex_not_slash]
  show ?thesis unfolding uri_encode_char_def using False h by simp
qed (simp add: uri_encode_char_def)

lemma encode_no_slash: "CHR ''/'' \<notin> set s \<Longrightarrow> CHR ''/'' \<notin> set (encode_part s)"
proof (induction s)
  case (Cons x s)
  then show ?case using encode_char_no_slash [of x] by (simp add: uri_encode_def)
qed (simp add: uri_encode_def)

definition printed_user_info :: "Uri \<Rightarrow> string" where
  "printed_user_info u =
     encode_part (uri_user u) @ (if uri_password u \<noteq> [] then CHR '':'' # encode_part (uri_password u) else [])"

definition printed_authority :: "Uri \<Rightarrow> string" where
  "printed_authority u =
     (if uri_user u \<noteq> [] \<or> uri_password u \<noteq> [] then printed_user_info u @ ''@'' else [])
     @ encode_part (uri_host u) @ (case uri_port u of Some p \<Rightarrow> CHR '':'' # show_unsigned p | None \<Rightarrow> [])"

definition printed_rest :: "Uri \<Rightarrow> string" where
  "printed_rest u =
     (if uri_query u \<noteq> [] then CHR ''?'' # join_query (uri_query u) else [])
     @ (if uri_fragment u \<noteq> [] then CHR ''#'' # encode_part (uri_fragment u) else [])"

lemma uri_to_string_eq:
  "uri_path u \<noteq> [] \<Longrightarrow>
   uri_to_string u = encode_part (uri_scheme u) @ ''://'' @ printed_authority u @ encode_part (uri_path u) @ printed_rest u"
  by (auto simp: uri_to_string_def printed_authority_def printed_user_info_def printed_rest_def query_to_string_eq Let_def
      encode_empty_iff split: option.splits)

lemma part_free: "CHR '':'' \<notin> set (encode_part s)" "CHR ''@'' \<notin> set (encode_part s)" "CHR ''?'' \<notin> set (encode_part s)" "CHR ''#'' \<notin> set (encode_part s)"
  by (simp_all add: encode_free not_plain)

lemma show_unsigned_chars: "c \<in> set (show_unsigned w) \<Longrightarrow> is_digit c"
  using show_nat_digits by (simp add: show_unsigned_def)

lemma authority_no_slash: "uri_ok u \<Longrightarrow> CHR ''/'' \<notin> set (printed_authority u)"
  using show_unsigned_chars [of "CHR ''/''"]
  by (auto simp: uri_ok_def printed_authority_def printed_user_info_def encode_no_slash is_digit_def split: option.splits)

lemma parse_user_info_printed:
  assumes "uri_user u \<noteq> [] \<or> uri_password u \<noteq> []"
  shows "parse_user_info (Some (printed_user_info u)) (empty_uri\<lparr>uri_scheme := sch\<rparr>) =
    Some (empty_uri\<lparr>uri_scheme := sch, uri_user := uri_user u, uri_password := uri_password u\<rparr>)"
proof (cases "uri_password u = []")
  case True
  then show ?thesis using assms part_free(1) [of "uri_user u"]
    by (simp add: parse_user_info_def printed_user_info_def split_string_char split_char_last encode_empty_iff
        read_until_end_def decode_field_def decode_encode empty_uri_def)
next
  case False
  then show ?thesis using split_char_here [OF part_free(1) [of "uri_user u"], of "encode_part (uri_password u)"]
    by (simp add: parse_user_info_def printed_user_info_def split_string_char encode_empty_iff
        read_until_end_def decode_field_def decode_encode empty_uri_def)
qed

lemma parse_host_port:
  "(case split_string '':'' False (encode_part h @ (case p of Some p \<Rightarrow> CHR '':'' # show_unsigned p | None \<Rightarrow> [])) of
      (host, s) \<Rightarrow> Option.bind (decode_field host []) (\<lambda>host. Some (host, fst (read_unsigned s :: u16 option \<times> string)))) = Some (h, p)"
proof (cases p)
  case None
  have "(read_unsigned [] :: u16 option \<times> string) = (None, [])" by (simp add: read_unsigned_def read_int_def skip_n_def from_chars_def)
  then show ?thesis using None part_free(1) [of h]
    by (cases "h = []") (simp_all add: split_string_char split_char_last encode_empty_iff decode_field_def decode_encode
        split_char_empty uri_encode_def [of _ _ "[]"])
next
  case (Some q)
  have "read_unsigned (show_unsigned q) = (Some q, [])" using read_unsigned_show [of "[]" q] by (simp add: no_digit_def)
  then show ?thesis using Some split_char_here [OF part_free(1) [of h], of "show_unsigned q"]
    by (simp add: split_string_char decode_field_def decode_encode)
qed

lemma parse_authority_printed:
  "parse_authority (Some (printed_authority u)) (empty_uri\<lparr>uri_scheme := sch\<rparr>) =
    Some (empty_uri\<lparr>uri_scheme := sch, uri_user := uri_user u, uri_password := uri_password u, uri_host := uri_host u,
      uri_port := uri_port u\<rparr>)"
proof -
  let ?hp = "encode_part (uri_host u) @ (case uri_port u of Some p \<Rightarrow> CHR '':'' # show_unsigned p | None \<Rightarrow> [])"
  have at: "CHR ''@'' \<notin> set ?hp" "CHR ''@'' \<notin> set (printed_user_info u)"
    using show_unsigned_chars [of "CHR ''@''"] part_free(2)
    by (auto simp: printed_user_info_def is_digit_def split: option.splits)
  obtain host s where hs: "split_string '':'' False ?hp = (host, s)" by fastforce
  then obtain v where v: "decode_field host [] = Some v" "v = uri_host u" "fst (read_unsigned s :: u16 option \<times> string) = uri_port u"
    using parse_host_port [of "uri_host u" "uri_port u"] by (auto simp: bind_Some_iff)
  show ?thesis
  proof (cases "uri_user u \<noteq> [] \<or> uri_password u \<noteq> []")
    case True
    have "read_until_string ''@'' False (printed_authority u) = (Some (printed_user_info u), ?hp)"
      using True read_until_string_here [OF at(2), of "[]" ?hp] by (simp add: printed_authority_def)
    then show ?thesis using parse_user_info_printed [OF True] hs v
      by (auto simp: parse_authority_def Let_def empty_uri_def split: prod.splits option.splits)
  next
    case False
    then have "read_until_string ''@'' False (printed_authority u) = (None, ?hp)"
      using read_until_none [OF at(1)] by (simp add: printed_authority_def read_until_string_char)
    then show ?thesis using False hs v
      by (auto simp: parse_authority_def parse_user_info_def Let_def empty_uri_def split: prod.splits option.splits)
  qed
qed

lemma parse_fragment_printed:
  "uri_fragment v = [] \<Longrightarrow> parse_fragment (encode_part f) v = Some (v\<lparr>uri_fragment := f\<rparr>)"
  by (cases "f = []") (simp_all add: parse_fragment_def read_until_end_def decode_field_def decode_encode encode_empty_iff
      uri_encode_def [of _ _ "[]"])

lemma decode_path: "uri_decode False (CHR ''/'' # encode_part p) = Some (CHR ''/'' # p)"
  by (simp add: decode_encode)

lemma parse_path_printed:
  assumes "uri_path u = CHR ''/'' # p" "p \<noteq> [] \<or> uri_query u \<noteq> [] \<or> uri_fragment u \<noteq> []" "sorted_query (uri_query u)"
    and "uri_query v = []" "uri_fragment v = []"
  shows "parse_path (encode_part p @ printed_rest u) v =
    Some (v\<lparr>uri_path := uri_path u, uri_query := uri_query u, uri_fragment := uri_fragment u\<rparr>)"
proof (cases "uri_query u = []")
  case False
  let ?q = "join_query (uri_query u)" and ?f = "if uri_fragment u \<noteq> [] then CHR ''#'' # encode_part (uri_fragment u) else []"
  have "read_until_string ''?'' False (encode_part p @ printed_rest u) = (Some (encode_part p), ?q @ ?f)"
    using False read_until_string_here [OF part_free(3) [of p], of "[]" "?q @ ?f"] by (simp add: printed_rest_def)
  moreover have "split_string ''#'' False (?q @ ?f) = (Some ?q, encode_part (uri_fragment u))"
    using split_char_here [OF join_query_free(1)] split_char_last [OF join_query_free(1)] join_query_nonempty [OF False]
    by (simp add: split_string_char uri_encode_def [of _ _ "[]"])
  ultimately show ?thesis
    using assms parse_query_printed [OF assms(3)] parse_fragment_printed
    by (simp add: parse_path_def decode_path del: uri_decode.simps)
next
  case True
  have no_q: "CHR ''?'' \<notin> set (encode_part p @ printed_rest u)"
    using True part_free(3) by (auto simp: printed_rest_def)
  show ?thesis
  proof (cases "uri_fragment u = []")
    case False
    have "read_until_string ''#'' False (encode_part p @ printed_rest u) = (Some (encode_part p), encode_part (uri_fragment u))"
      using True False read_until_string_here [OF part_free(4) [of p], of "[]" "encode_part (uri_fragment u)"]
      by (simp add: printed_rest_def)
    then show ?thesis using assms True read_until_none [OF no_q] parse_fragment_printed
      by (simp add: parse_path_def decode_path read_until_string_char del: uri_decode.simps)
  next
    case nf: True
    then have "p \<noteq> []" using assms(2) True by simp
    then show ?thesis using assms True nf read_until_none [OF no_q] read_until_none [OF part_free(4) [of p]]
      by (simp add: parse_path_def decode_path read_until_string_char printed_rest_def read_until_end_def encode_empty_iff
          del: uri_decode.simps)
  qed
qed

lemma encode_slash_head: "encode_part (CHR ''/'' # p) = CHR ''/'' # encode_part p"
  by (simp add: uri_encode_def uri_encode_char_def uri_plain_def)

lemma printed_is_parsed:
  assumes ok: "uri_ok u"
  shows "uri_parse (uri_to_string u) = Some u"
proof -
  obtain p where p: "uri_path u = CHR ''/'' # p" using ok by (cases "uri_path u") (auto simp: uri_ok_def starts_with_def)
  let ?rest = "encode_part p @ printed_rest u"
  have "read_until_string ''://'' False (uri_to_string u) = (Some (encode_part (uri_scheme u)), printed_authority u @ CHR ''/'' # ?rest)"
    using read_until_string_here [OF part_free(1) [of "uri_scheme u"], of "''//''" "printed_authority u @ CHR ''/'' # ?rest"] p
    by (simp add: uri_to_string_eq encode_slash_head)
  moreover have "split_string ''/'' False (printed_authority u @ CHR ''/'' # ?rest) = (Some (printed_authority u), ?rest)"
    using split_char_here [OF authority_no_slash [OF ok]] by (simp add: split_string_char)
  moreover have "parse_path ?rest (empty_uri\<lparr>uri_scheme := uri_scheme u, uri_user := uri_user u, uri_password := uri_password u,
      uri_host := uri_host u, uri_port := uri_port u\<rparr>) = Some u"
    using ok p parse_path_printed [OF p] by (auto simp: uri_ok_def empty_uri_def)
  ultimately show ?thesis using parse_authority_printed [of u "uri_scheme u"]
    by (simp add: uri_parse_def decode_encode Let_def)
qed



end
