(* ===== verification/Rtsp_Server.thy ===== *)
theory Rtsp_Server
  imports Rtsp_Connection Uri "HOL-Library.AList"
begin

text \<open>
  \<open>rtsp::Server\<close> (rtsp/rtsp_server.hpp and .cpp): the paths with their handler and the connections that asked for them.
  The handlers are a parameter \<open>serve\<close>: what a handler answers to a request. Shown: the connections of a path are those
  that asked for it and did not disconnect, without repetition, and a pushed request goes to exactly those.
\<close>

record PathContext =
  path_handler :: "nat option"
  path_connections :: "nat list"

text \<open>
  \<open>paths\<close> is the \<open>unordered_map\<close>, in some order; a connection is known by the number of its socket; \<open>connection_of\<close> is
  its state. \<open>attached\<close> are the connections whose subscriber is the server.
\<close>

record Server =
  paths :: "(string \<times> PathContext) list"
  connection_of :: "nat \<Rightarrow> Connection"
  accepted :: nat
  attached :: "nat list"
  acceptor_open :: bool

definition k_special_path_all :: string where "k_special_path_all = ''/all''"

definition new_context :: PathContext where
  "new_context = \<lparr>path_handler = None, path_connections = []\<rparr>"

definition initial_server :: Server where
  "initial_server = \<lparr>paths = [], connection_of = (\<lambda>_. create_connection True), accepted = 0, attached = [], acceptor_open = True\<rparr>"

section \<open>Operations\<close>

definition path_context :: "Server \<Rightarrow> string \<Rightarrow> PathContext" where
  "path_context s path = (case map_of (paths s) path of Some pc \<Rightarrow> pc | None \<Rightarrow> new_context)"

definition set_path :: "string \<Rightarrow> PathContext \<Rightarrow> Server \<Rightarrow> Server" where
  "set_path path pc s = s\<lparr>paths := AList.update path pc (paths s)\<rparr>"

definition erase_path :: "string \<Rightarrow> Server \<Rightarrow> Server" where
  "erase_path path s = s\<lparr>paths := AList.delete path (paths s)\<rparr>"

definition register_handler :: "string \<Rightarrow> nat option \<Rightarrow> Server \<Rightarrow> Server" where
  "register_handler path handler s =
     (case handler of
        None \<Rightarrow>
          (case map_of (paths s) path of
             None \<Rightarrow> s
           | Some pc \<Rightarrow>
               if path_connections pc = [] then erase_path path s else set_path path (pc\<lparr>path_handler := None\<rparr>) s)
      | Some h \<Rightarrow> set_path path ((path_context s path)\<lparr>path_handler := Some h\<rparr>) s)"

definition unregister_handler :: "nat \<Rightarrow> Server \<Rightarrow> Server" where
  "unregister_handler h s =
     s\<lparr>paths := concat (map (\<lambda>(path, pc).
         if path_handler pc = Some h
         then if path_connections pc = [] then [] else [(path, pc\<lparr>path_handler := None\<rparr>)]
         else [(path, pc)]) (paths s))\<rparr>"

definition update_connection :: "nat \<Rightarrow> (Connection \<Rightarrow> Connection) \<Rightarrow> Server \<Rightarrow> Server" where
  "update_connection c f s = s\<lparr>connection_of := (connection_of s)(c := f (connection_of s c))\<rparr>"

definition server_send_request :: "string \<Rightarrow> Request \<Rightarrow> Server \<Rightarrow> nat \<times> Server" where
  "server_send_request path r s =
     (case map_of (paths s) path of
        None \<Rightarrow> (0, s)
      | Some pc \<Rightarrow>
          foldl (\<lambda>(n, s) c. (Suc n, update_connection c (async_send_request r) s)) (0, s) (path_connections pc))"

definition add_connection_if_not_exists :: "nat \<Rightarrow> PathContext \<Rightarrow> PathContext" where
  "add_connection_if_not_exists c pc =
     (if c \<in> set (path_connections pc) then pc else pc\<lparr>path_connections := path_connections pc @ [c]\<rparr>)"

definition not_found :: Response where
  "not_found = make_response 404 ''Not Found'' ''No handler registered for URI''"

text \<open>An exception from the parser of URIs leaves the callback.\<close>

definition server_on_request :: "(nat \<Rightarrow> Request \<Rightarrow> Response list) \<Rightarrow> nat \<Rightarrow> Request \<Rightarrow> Server \<Rightarrow> Server option" where
  "server_on_request serve c r s =
     Option.bind (uri_parse (request_uri r)) (\<lambda>uri.
       let pc = add_connection_if_not_exists c (path_context s (uri_path uri));
           s = set_path (uri_path uri) pc s
       in Some (case path_handler pc of
            Some h \<Rightarrow> update_connection c (\<lambda>con. foldl (\<lambda>con a. async_send_response a con) con (serve h r)) s
          | None \<Rightarrow> update_connection c (async_send_response not_found) s))"

definition server_on_disconnect :: "nat \<Rightarrow> Server \<Rightarrow> Server" where
  "server_on_disconnect c s =
     s\<lparr>paths := map (\<lambda>(path, pc). (path, pc\<lparr>path_connections := filter (\<lambda>d. d \<noteq> c) (path_connections pc)\<rparr>)) (paths s)\<rparr>"

text \<open>A connection is accepted: it is put on the special path and starts to read.\<close>

definition server_accept :: "Server \<Rightarrow> Server" where
  "server_accept s =
     (if acceptor_open s
      then let pc = path_context s k_special_path_all; c = accepted s;
               s = set_path k_special_path_all (pc\<lparr>path_connections := path_connections pc @ [c]\<rparr>) s
           in update_connection c (\<lambda>_. start_connection (set_subscriber True (create_connection True)))
                (s\<lparr>accepted := c + 1, attached := attached s @ [c]\<rparr>)
      else s)"

definition server_stop :: "Server \<Rightarrow> Server" where
  "server_stop s =
     (let cs = concat (map (\<lambda>(path, pc). path_connections pc) (paths s))
      in s\<lparr>acceptor_open := False, attached := filter (\<lambda>c. c \<notin> set cs) (attached s),
           connection_of := (\<lambda>c. if c \<in> set cs then set_subscriber False (connection_of s c) else connection_of s c)\<rparr>)"

definition server_reset :: "Server \<Rightarrow> Server" where
  "server_reset s = s\<lparr>paths := map (\<lambda>(path, pc). (path, pc\<lparr>path_handler := None\<rparr>)) (paths s)\<rparr>"

section \<open>Steps\<close>

text \<open>What can happen: a request or the end of a connection only while the server is its subscriber.\<close>

datatype server_event = Accept | Request_from nat Request | Closed nat | Register string "nat option" | Unregister nat
  | Push string Request | Stop_server | Reset_server

fun server_step :: "(nat \<Rightarrow> Request \<Rightarrow> Response list) \<Rightarrow> server_event \<Rightarrow> Server \<Rightarrow> Server option" where
  "server_step serve Accept s = Some (server_accept s)"
| "server_step serve (Request_from c r) s = (if c \<in> set (attached s) then server_on_request serve c r s else Some s)"
| "server_step serve (Closed c) s =
     Some (if c \<in> set (attached s) then (server_on_disconnect c s)\<lparr>attached := removeAll c (attached s)\<rparr> else s)"
| "server_step serve (Register path h) s = Some (register_handler path h s)"
| "server_step serve (Unregister h) s = Some (unregister_handler h s)"
| "server_step serve (Push path r) s = Some (snd (server_send_request path r s))"
| "server_step serve Stop_server s = Some (server_stop s)"
| "server_step serve Reset_server s = Some (server_reset s)"

fun server_run :: "(nat \<Rightarrow> Request \<Rightarrow> Response list) \<Rightarrow> server_event list \<Rightarrow> Server \<Rightarrow> Server option" where
  "server_run serve [] s = Some s"
| "server_run serve (e # es) s = Option.bind (server_step serve e s) (server_run serve es)"

section \<open>The abstract server: who watches which path\<close>

text \<open>What the server is for: which connections are open, and which of them asked for which path, the oldest first.\<close>

record Watchers =
  watching :: "string \<Rightarrow> nat list"
  open_connections :: "nat list"
  next_connection :: nat
  listening :: bool

definition initial_watchers :: Watchers where
  "initial_watchers = \<lparr>watching = (\<lambda>_. []), open_connections = [], next_connection = 0, listening = True\<rparr>"

definition watch :: "string \<Rightarrow> nat \<Rightarrow> Watchers \<Rightarrow> Watchers" where
  "watch path c w =
     (if c \<in> set (watching w path) then w else w\<lparr>watching := (watching w)(path := watching w path @ [c])\<rparr>)"

fun watch_step :: "server_event \<Rightarrow> Watchers \<Rightarrow> Watchers" where
  "watch_step Accept w =
     (if listening w
      then (watch k_special_path_all (next_connection w) w)
        \<lparr>open_connections := open_connections w @ [next_connection w], next_connection := next_connection w + 1\<rparr>
      else w)"
| "watch_step (Request_from c r) w =
     (if c \<in> set (open_connections w)
      then case uri_parse (request_uri r) of Some u \<Rightarrow> watch (uri_path u) c w | None \<Rightarrow> w
      else w)"
| "watch_step (Closed c) w =
     (if c \<in> set (open_connections w)
      then w\<lparr>watching := (\<lambda>p. filter (\<lambda>d. d \<noteq> c) (watching w p)), open_connections := removeAll c (open_connections w)\<rparr>
      else w)"
| "watch_step Stop_server w = w\<lparr>listening := False, open_connections := []\<rparr>"
| "watch_step _ w = w"

text \<open>The server without its handlers and the state of its connections.\<close>

definition server_watchers :: "Server \<Rightarrow> Watchers" where
  "server_watchers s =
     \<lparr>watching = (\<lambda>p. path_connections (path_context s p)), open_connections = attached s, next_connection = accepted s,
      listening = acceptor_open s\<rparr>"

definition watchers_ok :: "Watchers \<Rightarrow> bool" where
  "watchers_ok w \<longleftrightarrow>
     (\<forall>p. distinct (watching w p) \<and> set (watching w p) \<subseteq> {..<next_connection w})
     \<and> set (open_connections w) \<subseteq> set (watching w k_special_path_all)"

definition server_ok :: "Server \<Rightarrow> bool" where
  "server_ok s \<longleftrightarrow> distinct (map fst (paths s)) \<and> watchers_ok (server_watchers s)"

section \<open>Looking up paths\<close>

lemma path_context_set [simp]: "path_context (set_path p pc s) q = (if q = p then pc else path_context s q)"
  by (simp add: path_context_def set_path_def update_conv)

lemma path_context_erase [simp]: "path_context (erase_path p s) q = (if q = p then new_context else path_context s q)"
  by (simp add: path_context_def erase_path_def delete_conv)

lemma path_context_connection [simp]: "path_context (update_connection c f s) q = path_context s q"
  by (simp add: path_context_def update_connection_def)

lemma frame_set_path [simp]:
  "attached (set_path p pc s) = attached s" "accepted (set_path p pc s) = accepted s"
  "acceptor_open (set_path p pc s) = acceptor_open s" "connection_of (set_path p pc s) = connection_of s"
  "paths (set_path p pc s) = AList.update p pc (paths s)"
  by (simp_all add: set_path_def)

lemma frame_connection [simp]:
  "attached (update_connection c f s) = attached s" "accepted (update_connection c f s) = accepted s"
  "acceptor_open (update_connection c f s) = acceptor_open s" "paths (update_connection c f s) = paths s"
  by (simp_all add: update_connection_def)

lemma frame_erase [simp]:
  "attached (erase_path p s) = attached s" "accepted (erase_path p s) = accepted s"
  "acceptor_open (erase_path p s) = acceptor_open s" "paths (erase_path p s) = AList.delete p (paths s)"
  by (simp_all add: erase_path_def)

lemma watchers_connection [simp]: "server_watchers (update_connection c f s) = server_watchers s"
  by (simp add: server_watchers_def)

lemma distinct_keys_update: "distinct (map fst al) \<Longrightarrow> distinct (map fst (AList.update k v al))"
  by (rule AList.distinct_update)

lemma distinct_delete: "distinct (map fst al) \<Longrightarrow> distinct (map fst (AList.delete k al))"
  by (rule distinct_delete)

lemma map_of_map_values: "map_of (map (\<lambda>(k, v). (k, f v)) al) k = map_option f (map_of al k)"
  by (induction al) auto

lemma map_of_unregister:
  assumes "distinct (map fst al)"
  shows "path_connections (case map_of (concat (map (\<lambda>(path, pc). if path_handler pc = Some h
        then if path_connections pc = [] then [] else [(path, pc\<lparr>path_handler := None\<rparr>)] else [(path, pc)]) al)) p of
      Some pc \<Rightarrow> pc | None \<Rightarrow> new_context) =
    path_connections (case map_of al p of Some pc \<Rightarrow> pc | None \<Rightarrow> new_context)"
  using assms
proof (induction al)
  case (Cons x al)
  have "p \<notin> fst ` set al \<Longrightarrow> map_of (concat (map (\<lambda>(path, pc). if path_handler pc = Some h
        then if path_connections pc = [] then [] else [(path, pc\<lparr>path_handler := None\<rparr>)] else [(path, pc)]) al)) p = None"
    by (auto simp: map_of_eq_None_iff split: if_splits) force+
  then show ?case using Cons by (cases x) (auto simp: new_context_def)
qed simp

lemma keys_unregister:
  "distinct (map fst al) \<Longrightarrow> distinct (map fst (concat (map (\<lambda>(path, pc). if path_handler pc = Some h
        then if path_connections pc = [] then [] else [(path, pc\<lparr>path_handler := None\<rparr>)] else [(path, pc)]) al)))"
proof (induction al)
  case (Cons x al)
  then show ?case by (cases x) (auto split: if_splits, force+)
qed simp

section \<open>The server refines it\<close>

lemma watchers_register: "server_watchers (register_handler p h s) = server_watchers s"
  by (auto simp: register_handler_def server_watchers_def path_context_def new_context_def erase_path_def set_path_def
      update_conv delete_conv fun_eq_iff split: option.splits)

lemma watchers_unregister: "distinct (map fst (paths s)) \<Longrightarrow> server_watchers (unregister_handler h s) = server_watchers s"
  using map_of_unregister [of "paths s" h] by (simp add: server_watchers_def unregister_handler_def path_context_def)

lemma watchers_disconnect:
  "server_watchers (server_on_disconnect c s) =
   (server_watchers s)\<lparr>watching := (\<lambda>p. filter (\<lambda>d. d \<noteq> c) (watching (server_watchers s) p))\<rparr>"
  by (auto simp: server_watchers_def server_on_disconnect_def path_context_def map_of_map_values new_context_def
      fun_eq_iff split: option.splits)

lemma watchers_reset: "server_watchers (server_reset s) = server_watchers s"
  by (auto simp: server_watchers_def server_reset_def path_context_def map_of_map_values new_context_def
      fun_eq_iff split: option.splits)

lemma watchers_add:
  "server_watchers (set_path p (add_connection_if_not_exists c (path_context s p)) s) = watch p c (server_watchers s)"
  by (auto simp: server_watchers_def add_connection_if_not_exists_def watch_def)

lemma push_frame:
  "server_watchers (snd (foldl (\<lambda>(n, s) c. (Suc n, update_connection c f s)) (n, s) cs)) = server_watchers s
   \<and> paths (snd (foldl (\<lambda>(n, s) c. (Suc n, update_connection c f s)) (n, s) cs)) = paths s"
  by (induction cs arbitrary: n s) auto

lemma watchers_push: "server_watchers (snd (server_send_request p r s)) = server_watchers s \<and> paths (snd (server_send_request p r s)) = paths s"
proof (cases "map_of (paths s) p")
  case (Some pc)
  then show ?thesis using push_frame [of "async_send_request r" 0 s "path_connections pc"] by (simp add: server_send_request_def)
qed (simp add: server_send_request_def)

lemma watchers_stop:
  assumes "server_ok s"
  shows "server_watchers (server_stop s) = watch_step Stop_server (server_watchers s)"
proof -
  have "set (attached s) \<subseteq> set (path_connections (path_context s k_special_path_all))"
    using assms by (simp add: server_ok_def watchers_ok_def server_watchers_def)
  also have "\<dots> \<subseteq> set (concat (map (\<lambda>(path, pc). path_connections pc) (paths s)))"
    by (auto simp: path_context_def new_context_def split: option.splits dest!: map_of_SomeD)
  finally have "filter (\<lambda>c. c \<notin> set (concat (map (\<lambda>(path, pc). path_connections pc) (paths s)))) (attached s) = []"
    unfolding filter_empty_conv by blast
  then show ?thesis by (simp add: server_watchers_def server_stop_def path_context_def Let_def)
qed

lemma watchers_accept:
  assumes "server_ok s"
  shows "server_watchers (server_accept s) = watch_step Accept (server_watchers s)"
proof -
  have "accepted s \<notin> set (path_connections (path_context s k_special_path_all))"
    using assms by (auto simp: server_ok_def watchers_ok_def server_watchers_def)
  then show ?thesis by (auto simp: server_watchers_def server_accept_def watch_def Let_def)
      (auto simp: path_context_def update_connection_def set_path_def update_conv fun_eq_iff)
qed

text \<open>A step of the server is a step of the abstract one, and fails exactly for a request whose URI cannot be parsed.\<close>

lemma server_step_watchers:
  assumes "server_ok s" "server_step serve e s = Some s'"
  shows "server_watchers s' = watch_step e (server_watchers s)"
proof (cases e)
  case (Request_from c r)
  then show ?thesis using assms
    by (auto simp: server_on_request_def bind_Some_iff Let_def watchers_add split: if_splits option.splits)
      (auto simp: server_watchers_def)
next
  case (Closed c)
  then show ?thesis using assms
    by (auto simp: watchers_disconnect split: if_splits)
      (auto simp: server_watchers_def server_on_disconnect_def path_context_def map_of_map_values fun_eq_iff new_context_def
        split: option.splits)
qed (use assms watchers_accept watchers_stop watchers_unregister in
    \<open>auto simp: watchers_register watchers_push watchers_reset server_ok_def\<close>)

section \<open>The invariant\<close>

lemma watch_ok [inv_intros]: "watchers_ok w \<Longrightarrow> c < next_connection w \<Longrightarrow> watchers_ok (watch p c w)"
  by (auto simp: watchers_ok_def watch_def)

lemma watch_step_ok [inv_intros]: "watchers_ok w \<Longrightarrow> watchers_ok (watch_step e w)"
proof (induction e w rule: watch_step.induct)
  case (1 w)
  then show ?case by (auto simp: watchers_ok_def watch_def less_Suc_eq subset_iff)
next
  case (2 c r w)
  have "c \<in> set (open_connections w) \<Longrightarrow> c < next_connection w" using 2 by (auto simp: watchers_ok_def)
  then show ?case using 2 by (auto split: option.splits intro: watch_ok)
next
  case (3 c w)
  then show ?case by (auto simp: watchers_ok_def)
next
  case (4 w)
  then show ?case by (simp add: watchers_ok_def)
qed simp_all

lemma server_step_keys:
  assumes "distinct (map fst (paths s))" "server_step serve e s = Some s'"
  shows "distinct (map fst (paths s'))"
proof -
  show ?thesis using assms
  proof (cases e)
    case (Register p h)
    then show ?thesis using assms by (auto simp: register_handler_def distinct_keys_update distinct_delete split: option.splits if_splits)
  next
    case (Request_from c r)
    then show ?thesis using assms
      by (auto simp: server_on_request_def bind_Some_iff Let_def distinct_keys_update split: if_splits option.splits)
  next
    case (Unregister h)
    then show ?thesis using assms keys_unregister by (auto simp: unregister_handler_def)
  next
    case (Closed c)
    then show ?thesis using assms by (auto simp: server_on_disconnect_def o_def case_prod_unfold split: if_splits)
  qed (auto simp: server_accept_def server_stop_def server_reset_def Let_def distinct_keys_update watchers_push o_def case_prod_unfold)
qed

lemma server_step_ok [inv_intros]: "server_ok s \<Longrightarrow> server_step serve e s = Some s' \<Longrightarrow> server_ok s'"
  using server_step_watchers [of s serve e s'] server_step_keys [of s serve e s']
  by (simp add: server_ok_def watch_step_ok)

lemma initial_server_ok: "server_ok initial_server" "server_watchers initial_server = initial_watchers"
  by (simp_all add: server_ok_def watchers_ok_def server_watchers_def initial_server_def initial_watchers_def
      path_context_def new_context_def)

lemma server_run_refines:
  "server_run serve es s = Some s' \<Longrightarrow> server_ok s \<Longrightarrow>
   server_ok s' \<and> server_watchers s' = foldl (\<lambda>w e. watch_step e w) (server_watchers s) es"
proof (induction es arbitrary: s)
  case (Cons e es)
  then obtain t where t: "server_step serve e s = Some t" "server_run serve es t = Some s'" by (auto simp: bind_Some_iff)
  then show ?case using Cons server_step_ok [OF _ t(1)] server_step_watchers [OF _ t(1)] by simp
qed simp

section \<open>Pushing a request\<close>

lemma push_loop:
  assumes "distinct cs"
  shows "fst (foldl (\<lambda>(n, s) c. (Suc n, update_connection c f s)) (n, s) cs) = n + length cs
    \<and> connection_of (snd (foldl (\<lambda>(n, s) c. (Suc n, update_connection c f s)) (n, s) cs)) d =
      (if d \<in> set cs then f (connection_of s d) else connection_of s d)"
  using assms by (induction cs arbitrary: n s) (auto simp: update_connection_def)

lemma told_send: "told (async_send_data d c) = told c @ d"
  by (simp add: async_send_data_def async_write_def Let_def)

lemma push_told:
  assumes "server_ok s"
  shows "fst (server_send_request p r s) = length (watching (server_watchers s) p)
    \<and> told (connection_of (snd (server_send_request p r s)) c) =
      told (connection_of s c) @ (if c \<in> set (watching (server_watchers s) p) then request_encode crlf r else [])"
proof (cases "map_of (paths s) p")
  case None
  then show ?thesis by (simp add: server_send_request_def server_watchers_def path_context_def new_context_def)
next
  case (Some pc)
  then have pc: "watching (server_watchers s) p = path_connections pc" by (simp add: server_watchers_def path_context_def)
  have d: "distinct (path_connections pc)" using assms pc [symmetric] by (simp add: server_ok_def watchers_ok_def)
  show ?thesis using Some pc push_loop [OF d, of "async_send_request r" 0 s c]
    by (simp add: server_send_request_def async_send_request_def told_send)
qed

section \<open>Properties\<close>

text \<open>
  C12: after any sequence of accepted connections, requests, closed connections, registrations and
  pushes, the connections the server keeps for every path are those of the abstract server, which only remembers who asked
  for what since it was accepted and is not closed; none is kept twice.
\<close>

theorem server_refines_watchers:
  assumes "server_run serve es initial_server = Some s"
  shows "server_watchers s = foldl (\<lambda>w e. watch_step e w) initial_watchers es
    \<and> distinct (path_connections (path_context s p))"
proof -
  note r = server_run_refines [OF assms initial_server_ok(1)]
  then have "distinct (watching (server_watchers s) p)" unfolding server_ok_def watchers_ok_def by blast
  then show ?thesis using r initial_server_ok(2) by (simp add: server_watchers_def)
qed

text \<open>
  C13: a request pushed to a path is sent once to each connection that watches the path and to no
  other, and the number returned is theirs.
\<close>

theorem push_reaches_watchers:
  assumes "server_run serve es initial_server = Some s"
  shows "fst (server_send_request p r s) = length (watching (foldl (\<lambda>w e. watch_step e w) initial_watchers es) p)
    \<and> told (connection_of (snd (server_send_request p r s)) c) = told (connection_of s c) @
        (if c \<in> set (watching (foldl (\<lambda>w e. watch_step e w) initial_watchers es) p) then request_encode crlf r else [])"
  using server_run_refines [OF assms initial_server_ok(1)] push_told [of s p r c] initial_server_ok(2) by simp

text \<open>
  A request for the URI \<open>*\<close>, as \<open>OPTIONS\<close> may have, whoever sends it, makes the callback of the
  server throw.
\<close>

lemma no_scheme: "uri_parse ''*'' = None"
  by (simp add: uri_parse_def read_until_string_def starts_with_def)

theorem asterisk_uri_escapes: "server_on_request serve c (r\<lparr>request_uri := ''*''\<rparr>) s = None"
  by (simp add: server_on_request_def no_scheme)

text \<open>A path without a handler stays after its last connection is gone: every requested path is kept for good.\<close>

lemma requested_path_is_kept:
  assumes "server_step serve e s = Some s'" "map_of (paths s) p \<noteq> None" "\<And>h. e \<noteq> Register p h" "\<And>h. e \<noteq> Unregister h"
  shows "map_of (paths s') p \<noteq> None"
proof (cases e)
  case (Register q h)
  then have "q \<noteq> p" using assms(3) [of h] by blast
  then show ?thesis using Register assms(1,2)
    by (auto simp: register_handler_def update_conv delete_conv split: option.splits if_splits)
next
  case (Request_from c r)
  then show ?thesis using assms(1,2)
    by (auto simp: server_on_request_def bind_Some_iff Let_def update_conv split: if_splits option.splits)
next
  case (Closed c)
  then show ?thesis using assms(1,2) by (auto simp: server_on_disconnect_def map_of_map_values split: if_splits)
next
  case Reset_server
  then show ?thesis using assms(1,2) by (auto simp: server_reset_def map_of_map_values)
qed (use assms in \<open>auto simp: server_accept_def server_stop_def Let_def update_conv watchers_push split: if_splits\<close>)

section \<open>Witnesses\<close>

definition example_request :: Request where
  "example_request = make_request ''DESCRIBE'' ''rtsp://a/b'' []"

lemma example_uri: "uri_parse ''rtsp://a/b'' = Some (empty_uri\<lparr>uri_scheme := ''rtsp'', uri_host := ''a'', uri_path := ''/b''\<rparr>)"
  using printed_is_parsed [of "empty_uri\<lparr>uri_scheme := ''rtsp'', uri_host := ''a'', uri_path := ''/b''\<rparr>"]
  by (simp add: uri_ok_def empty_uri_def starts_with_def sorted_query_def uri_to_string_def uri_encode_def uri_encode_char_def
      uri_plain_def is_alnum_def byte_of_def Let_def)

definition example_server :: Server where
  "example_server = the (server_run (\<lambda>_ _. []) [Accept, Accept, Request_from 0 example_request] initial_server)"

lemma example_server_run:
  "server_run (\<lambda>_ _. []) [Accept, Accept, Request_from 0 example_request] initial_server = Some example_server"
proof -
  have "attached (server_accept (server_accept initial_server)) = [0, 1]"
    by (simp add: server_accept_def initial_server_def Let_def)
  then show ?thesis
    by (simp add: example_server_def server_on_request_def example_request_def make_request_def example_uri Let_def)
qed

lemma example_watching:
  "watching (foldl (\<lambda>w e. watch_step e w) initial_watchers [Accept, Accept, Request_from 0 example_request]) ''/b'' = [0]"
  by (simp add: initial_watchers_def watch_def example_request_def make_request_def example_uri k_special_path_all_def)

theorem server_refines_watchers_witness: "path_connections (path_context example_server ''/b'') = [0]"
  using server_refines_watchers [OF example_server_run, of "''/b''"] example_watching
  by (simp only: server_watchers_def Watchers.simps conj_commute) (metis Watchers.select_convs(1))

theorem push_reaches_watchers_witness: "fst (server_send_request ''/b'' example_request example_server) = 1"
  using push_reaches_watchers [OF example_server_run, of "''/b''" example_request 0] example_watching by simp

end
