(* ===== verification/Path_Matcher.thy ===== *)
theory Path_Matcher
  imports String_Utils
begin

text \<open>
  \<open>PathMatcher\<close> (core/util/path_matcher.hpp), which routes the requests of the HTTP server. The parameters are a
  \<open>std::map\<close> of strings; a null pointer to them is \<open>None\<close>. Shown: matching agrees with a specification on
  lists of sections, and a text after a parameter that is one longer than what is left is found although it is not there.
\<close>

datatype path_error = Invalid_recursive_wildcard | Invalid_argument

type_synonym path_result = "path_error + bool"

definition path_loop_upper_bound :: nat where "path_loop_upper_bound = 100000"

text \<open>\<open>Parameters::get_as\<close> at the range of the integer type.\<close>

definition parameter_as :: "int \<Rightarrow> int \<Rightarrow> string \<Rightarrow> query \<Rightarrow> int option" where
  "parameter_as lo hi name ps = Option.bind (query_get name ps) (\<lambda>v. map_option fst (from_chars lo hi v))"

text \<open>The section of a pattern with a parameter: the name and what it stands for, or \<open>None\<close> where the section does not match.\<close>

definition match_parameter :: "string \<Rightarrow> string \<Rightarrow> (string \<times> string) option" where
  "match_parameter path_section pattern_section =
     (let (leading, s1) = read_until_char (CHR ''{'') False pattern_section;
          (name, s2) = read_until_char (CHR ''}'') False s1;
          (trailing, s3) = read_until_end s2
      in case leading of
           None \<Rightarrow> None
         | Some l \<Rightarrow>
             (case name of
                None \<Rightarrow> None
              | Some n \<Rightarrow>
                  if n = [] then None
                  else let (v, found) = string_remove_prefix path_section l
                       in if \<not> found then None
                          else case trailing of
                            None \<Rightarrow> Some (n, v)
                          | Some t \<Rightarrow> let (v, found) = string_remove_suffix v t in if found then Some (n, v) else None))"

text \<open>The loop: sections and what is left of both texts. The fuel is the code's bound; beyond it an assertion logs.\<close>

fun match_sections ::
    "nat \<Rightarrow> string option \<times> string \<Rightarrow> string option \<times> string \<Rightarrow> query option \<Rightarrow> path_result \<times> query option" where
  "match_sections 0 _ _ ps = (Inr False, ps)"
| "match_sections (Suc n) (path_section, path) (pattern_section, pattern) ps =
     (if path_section = None \<and> pattern_section = None then (Inr True, ps)
      else if pattern_section = Some ''**''
      then (if pattern \<noteq> [] then Inl Invalid_recursive_wildcard else Inr True, ps)
      else case (path_section, pattern_section) of
        (Some v, Some p) \<Rightarrow>
          if v = p \<or> p = ''*''
          then match_sections n (split_char (CHR ''/'') False path) (split_char (CHR ''/'') False pattern) ps
          else (case match_parameter v p of
            None \<Rightarrow> (Inr False, ps)
          | Some (name, x) \<Rightarrow>
              (case ps of
                 None \<Rightarrow> (Inl Invalid_argument, None)
               | Some q \<Rightarrow>
                   match_sections n (split_char (CHR ''/'') False path) (split_char (CHR ''/'') False pattern)
                     (Some (query_set name x q))))
      | _ \<Rightarrow> (Inr False, ps))"

definition path_match :: "string \<Rightarrow> string \<Rightarrow> query option \<Rightarrow> path_result \<times> query option" where
  "path_match path pattern ps =
     (if path = [] \<or> pattern = [] then (Inr False, ps)
      else match_sections path_loop_upper_bound
        (split_char (CHR ''/'') False (snd (skip_char (CHR ''/'') path)))
        (split_char (CHR ''/'') False (snd (skip_char (CHR ''/'') pattern))) ps)"

section \<open>Sections\<close>

datatype segment = Exact string | Any | Named string string | Rest

fun show_segment :: "segment \<Rightarrow> string" where
  "show_segment (Exact s) = s"
| "show_segment Any = ''*''"
| "show_segment (Named l n) = l @ ''{'' @ n @ ''}''"
| "show_segment Rest = ''**''"

fun segment_ok :: "segment \<Rightarrow> bool" where
  "segment_ok (Exact s) \<longleftrightarrow> s \<noteq> [] \<and> set s \<inter> set ''/{'' = {} \<and> s \<noteq> ''*'' \<and> s \<noteq> ''**''"
| "segment_ok (Named l n) \<longleftrightarrow> n \<noteq> [] \<and> set l \<inter> set ''/{'' = {} \<and> set n \<inter> set ''/}'' = {}"
| "segment_ok _ \<longleftrightarrow> True"

fun path_text :: "string list \<Rightarrow> string" where
  "path_text [] = []"
| "path_text (v # vs) = CHR ''/'' # v @ path_text vs"

text \<open>What a pattern means: a parameter stands for what follows its leading text, except in a section that repeats the pattern itself.\<close>

fun segments_match :: "segment list \<Rightarrow> string list \<Rightarrow> query \<Rightarrow> path_result \<times> query" where
  "segments_match [] vs ps = (Inr (vs = []), ps)"
| "segments_match (Rest # ss) vs ps = (if ss = [] then Inr True else Inl Invalid_recursive_wildcard, ps)"
| "segments_match (s # ss) [] ps = (Inr False, ps)"
| "segments_match (Exact e # ss) (v # vs) ps = (if v = e then segments_match ss vs ps else (Inr False, ps))"
| "segments_match (Any # ss) (v # vs) ps = segments_match ss vs ps"
| "segments_match (Named l n # ss) (v # vs) ps =
     (if v = l @ ''{'' @ n @ ''}'' then segments_match ss vs ps
      else if starts_with l v then segments_match ss vs (query_set n (drop (length l) v) ps)
      else (Inr False, ps))"

lemma segment_text: "segment_ok s \<Longrightarrow> show_segment s \<noteq> [] \<and> CHR ''/'' \<notin> set (show_segment s)"
  by (cases s) auto

text \<open>What \<open>split\<close> gives at the sections \<open>vs\<close>: the first, and the text of the others.\<close>

fun section_head :: "string list \<Rightarrow> string option \<times> string" where
  "section_head [] = (None, [])"
| "section_head (v # vs) = (Some v, tl (path_text vs))"

definition sections_ok :: "string list \<Rightarrow> bool" where
  "sections_ok vs \<longleftrightarrow> list_all (\<lambda>v. v \<noteq> [] \<and> CHR ''/'' \<notin> set v) vs"

lemma sections_ok_simps [simp]: "sections_ok []" "sections_ok (v # vs) \<longleftrightarrow> v \<noteq> [] \<and> CHR ''/'' \<notin> set v \<and> sections_ok vs"
  by (auto simp: sections_ok_def)

lemma split_path_text: "sections_ok vs \<Longrightarrow> split_char (CHR ''/'') False (tl (path_text vs)) = section_head vs"
proof (induction vs rule: section_head.induct)
  case (2 v vs)
  then show ?case by (cases vs) (simp_all add: split_char_last split_char_here)
qed (simp add: split_char_empty)

lemma segments_sections: "list_all segment_ok ss \<Longrightarrow> sections_ok (map show_segment ss)"
  using segment_text by (auto simp: sections_ok_def list_all_iff)

lemma path_text_tail: "sections_ok vs \<Longrightarrow> tl (path_text vs) = [] \<longleftrightarrow> vs = []"
  by (cases vs) auto

lemma match_exact: "set s \<inter> set ''/{'' = {} \<Longrightarrow> match_parameter v s = None"
proof -
  assume "set s \<inter> set ''/{'' = {}"
  then have "read_until_char (CHR ''{'') False s = (None, s)" by (intro read_until_none) auto
  then show ?thesis by (simp add: match_parameter_def split: prod.splits)
qed

lemma match_named:
  assumes "segment_ok (Named l n)"
  shows "match_parameter v (show_segment (Named l n)) = (if starts_with l v then Some (n, drop (length l) v) else None)"
proof -
  have "read_until_char (CHR ''{'') False (l @ CHR ''{'' # n @ ''}'') = (Some l, n @ ''}'')"
    using assms by (intro read_until_char_here) auto
  moreover have "read_until_char (CHR ''}'') False (n @ [CHR ''}'']) = (Some n, [])"
    using assms by (intro read_until_char_here) auto
  ultimately show ?thesis using assms by (simp add: match_parameter_def remove_prefix read_until_end_def)
qed

lemma named_not_wildcard: "show_segment (Named l n) \<noteq> ''*''" "show_segment (Named l n) \<noteq> ''**''"
proof -
  have "CHR ''{'' \<in> set (show_segment (Named l n))" by simp
  moreover have "CHR ''{'' \<notin> set ''*''" "CHR ''{'' \<notin> set ''**''" by simp_all
  ultimately show "show_segment (Named l n) \<noteq> ''*''" "show_segment (Named l n) \<noteq> ''**''" by metis+
qed

lemmas segments_match_induct = segments_match.induct [case_names End Deep Exact_end Wild_end Named_end Exact_here Wild_here Named_here]

lemma match_sections_segments:
  assumes "sections_ok vs" "list_all segment_ok ss" "length ss < fuel"
  shows "match_sections fuel (section_head vs) (section_head (map show_segment ss)) (Some ps) =
    map_prod id Some (segments_match ss vs ps)"
  using assms
proof (induction ss vs ps arbitrary: fuel rule: segments_match_induct)
  case (End vs ps)
  then show ?case by (cases fuel; cases vs) simp_all
next
  case (Deep ss vs ps)
  have "tl (path_text (map show_segment ss)) = [] \<longleftrightarrow> ss = []"
    using Deep path_text_tail [OF segments_sections [of ss]] by simp
  moreover obtain f where "fuel = Suc f" using Deep by (cases fuel) auto
  ultimately show ?case by (cases vs) simp_all
next
  case (Exact_end e ss ps)
  then have "e \<noteq> ''**''" by simp
  then show ?case using Exact_end by (cases fuel) simp_all
next
  case (Wild_end ss ps)
  then show ?case by (cases fuel) simp_all
next
  case (Named_end l n ss ps)
  then show ?case using named_not_wildcard [of l n] by (cases fuel) simp_all
next
  case (Exact_here e ss v vs ps)
  then obtain f where f: "fuel = Suc f" by (cases fuel) auto
  have e: "e \<noteq> ''*''" "e \<noteq> ''**''" "match_parameter v e = None" using Exact_here match_exact by simp_all
  have t: "split_char (CHR ''/'') False (tl (path_text vs)) = section_head vs"
    "split_char (CHR ''/'') False (tl (path_text (map show_segment ss))) = section_head (map show_segment ss)"
    using Exact_here by (simp_all add: split_path_text segments_sections)
  show ?case
  proof (cases "v = e")
    case True
    then show ?thesis using Exact_here.IH [OF True, of f] Exact_here.prems f e t by simp
  next
    case False
    then show ?thesis using f e by simp
  qed
next
  case (Wild_here ss v vs ps)
  then show ?case by (cases fuel) (simp_all add: split_path_text segments_sections)
next
  case (Named_here l n ss v vs ps)
  then obtain f where f: "fuel = Suc f" by (cases fuel) auto
  have m: "match_parameter v (l @ CHR ''{'' # n @ ''}'') = (if starts_with l v then Some (n, drop (length l) v) else None)"
    using match_named [of l n v] Named_here.prems by simp
  show ?case using Named_here f m named_not_wildcard [of l n] by (simp add: split_path_text segments_sections)
qed

text \<open>C17: a path of non-empty sections is matched against a pattern of fixed sections, wildcards and parameters section by
  section, as \<open>segments_match\<close> says, with the values of the parameters, for patterns of fewer than 100000 sections.\<close>

theorem path_match_exact:
  assumes "sections_ok vs" "vs \<noteq> []" "list_all segment_ok ss" "ss \<noteq> []" "length ss < path_loop_upper_bound"
  shows "path_match (path_text vs) (path_text (map show_segment ss)) (Some ps) = map_prod id Some (segments_match ss vs ps)"
proof -
  have skip: "snd (skip_char (CHR ''/'') (path_text us)) = tl (path_text us)" "path_text us \<noteq> []" if "us \<noteq> []" for us
    using that by (cases us; simp add: skip_char_def)+
  show ?thesis using match_sections_segments [OF assms(1,3,5)] assms skip [of vs] skip [of "map show_segment ss"]
    by (simp add: path_match_def split_path_text segments_sections)
qed

lemma path_match_exact_witness:
  "path_match ''/x-nmos/node/v1.3/self'' ''/x-nmos/*/v{version}/self'' (Some []) = (Inr True, Some [(''version'', ''1.3'')])"
  using path_match_exact [of "[''x-nmos'', ''node'', ''v1.3'', ''self'']"
      "[Exact ''x-nmos'', Any, Named ''v'' ''version'', Exact ''self'']" "[]"]
  by (simp add: path_loop_upper_bound_def starts_with_def)

text \<open>The text after a parameter is looked for with \<open>rfind\<close>, whose \<open>npos\<close> equals the wrapped difference of the sizes when
  the text is one longer than the rest of the section: then the section matches although the text is not there.\<close>

theorem path_suffix_wraps:
  "path_match ''/a'' ''/{id}bc'' (Some []) = (Inr True, Some [(''id'', ''a'')]) \<and>
   path_match ''/aa'' ''/{id}bc'' (Some []) = (Inr False, Some [])"
proof -
  have r: "read_until_char (CHR ''{'') False ''{id}bc'' = (Some [], ''id}bc'')" "read_until_char (CHR ''}'') False ''id}bc'' = (Some ''id'', ''bc'')"
    using read_until_char_here [of "CHR ''{''" "[]" "''id}bc''"] read_until_char_here [of "CHR ''}''" "''id''" "''bc''"] by simp_all
  have e: "read_until_end ''bc'' = (Some ''bc'', [])" by (simp add: read_until_end_def)
  have p: "string_remove_prefix v [] = (v, True)" for v by (simp add: remove_prefix starts_with_def)
  have s: "string_remove_suffix ''a'' ''bc'' = (''a'', True)" "string_remove_suffix ''aa'' ''bc'' = (''aa'', False)"
    by (simp_all add: remove_suffix string_ends_with_def)
  have m: "match_parameter ''a'' ''{id}bc'' = Some (''id'', ''a'')" "match_parameter ''aa'' ''{id}bc'' = None"
    by (simp_all add: match_parameter_def r e p s)
  have "match_sections (Suc (Suc n)) (Some ''a'', []) (Some ''{id}bc'', []) (Some []) = (Inr True, Some [(''id'', ''a'')])"
    "match_sections (Suc (Suc n)) (Some ''aa'', []) (Some ''{id}bc'', []) (Some []) = (Inr False, Some [])" for n
    by (simp_all add: m split_char_empty)
  from this [of 99998] show ?thesis
    by (simp add: path_match_def path_loop_upper_bound_def skip_char_def split_char_last)
qed

end
