(* ===== verification/Packet_Time.thy ===== *)
theory Packet_Time
  imports Float_Text
begin

text \<open>
  \<open>aes67::PacketTime\<close> (aes67/aes67_packet_time.hpp) with the \<open>float\<close> arithmetic it uses: a value is rounded to 24 binary
  digits, half to even, after every operation. The sign of a zero is not kept, no value here is negative. Shown: for the
  packet times and sample rates of AES67 the number of frames is the exact one, for the sender and for a receiver that
  reads the packet time from the three digits an SDP text has.
\<close>

section \<open>Single precision\<close>

text \<open>The binary exponent of a positive number; the fuel covers the range of \<open>float\<close>.\<close>

fun binary_exponent :: "nat \<Rightarrow> rat \<Rightarrow> int" where
  "binary_exponent 0 x = 0"
| "binary_exponent (Suc n) x =
     (if 2 \<le> x then binary_exponent n (x / 2) + 1 else if x < 1 then binary_exponent n (x * 2) - 1 else 0)"

definition round_positive :: "rat \<Rightarrow> rat" where
  "round_positive x =
     (let ulp = rat_power 2 (max (binary_exponent 280 x - 23) (-149)) in of_nat (round_half_even (x / ulp)) * ulp)"

definition to_float :: "rat \<Rightarrow> float_value" where
  "to_float x =
     (if x = 0 then Finite 0
      else let r = round_positive \<bar>x\<bar>
           in if 2 ^ 128 \<le> r then Infinite (x < 0) else Finite (if x < 0 then - r else r))"

fun float_mult :: "float_value \<Rightarrow> float_value \<Rightarrow> float_value" where
  "float_mult (Finite x) (Finite y) = to_float (x * y)"
| "float_mult (Infinite a) (Infinite b) = Infinite (a \<noteq> b)"
| "float_mult (Infinite a) (Finite y) = (if y = 0 then Not_a_number else Infinite (a \<noteq> (y < 0)))"
| "float_mult (Finite x) (Infinite b) = (if x = 0 then Not_a_number else Infinite ((x < 0) \<noteq> b))"
| "float_mult _ _ = Not_a_number"

fun float_div :: "float_value \<Rightarrow> float_value \<Rightarrow> float_value" where
  "float_div (Finite x) (Finite y) =
     (if y = 0 then if x = 0 then Not_a_number else Infinite (x < 0) else to_float (x / y))"
| "float_div (Infinite a) (Finite y) = Infinite (a \<noteq> (y < 0))"
| "float_div (Finite x) (Infinite b) = Finite 0"
| "float_div _ _ = Not_a_number"

text \<open>\<open>std::round\<close>, and the conversion to \<open>uint16_t\<close>, undefined out of its range.\<close>

fun float_round :: "float_value \<Rightarrow> int option" where
  "float_round (Finite x) = Some (if x < 0 then - \<lfloor>- x + 1 / 2\<rfloor> else \<lfloor>x + 1 / 2\<rfloor>)"
| "float_round _ = None"

definition to_u16 :: "int option \<Rightarrow> u16 option" where
  "to_u16 i = (case i of Some n \<Rightarrow> if 0 \<le> n \<and> n < 2 ^ 16 then Some (of_int n) else None | None \<Rightarrow> None)"

section \<open>Packet times\<close>

record packet_time =
  pt_numerator :: byte
  pt_denominator :: byte

definition packet_time_valid :: "packet_time \<Rightarrow> bool" where
  "packet_time_valid p \<longleftrightarrow> \<not> (pt_denominator p = 0) \<and> \<not> (pt_numerator p = 0)"

definition signaled_ptime :: "packet_time \<Rightarrow> u32 \<Rightarrow> float_value" where
  "signaled_ptime p sample_rate =
     (let f = (\<lambda>n. to_float (of_nat n)) in
      if 0 < sample_rate mod 48000
      then float_div
             (float_div
               (float_mult (float_mult (f (unat (pt_numerator p))) (f (unat (sample_rate div 48000 + 1)))) (f 48000))
               (f (unat sample_rate)))
             (f (unat (pt_denominator p)))
      else float_div (f (unat (pt_numerator p))) (f (unat (pt_denominator p))))"

definition ptime_framecount :: "float_value \<Rightarrow> u32 \<Rightarrow> u16 option" where
  "ptime_framecount signaled sample_rate =
     to_u16 (float_round (float_div (float_mult signaled (to_float (of_nat (unat sample_rate)))) (to_float 1000)))"

definition packet_framecount :: "packet_time \<Rightarrow> u32 \<Rightarrow> u32 option" where
  "packet_framecount p sample_rate = map_option ucast (ptime_framecount (signaled_ptime p sample_rate) sample_rate)"

definition us_125 :: packet_time where "us_125 = \<lparr>pt_numerator = 1, pt_denominator = 8\<rparr>"
definition us_250 :: packet_time where "us_250 = \<lparr>pt_numerator = 1, pt_denominator = 4\<rparr>"
definition us_333 :: packet_time where "us_333 = \<lparr>pt_numerator = 1, pt_denominator = 3\<rparr>"
definition ms_1 :: packet_time where "ms_1 = \<lparr>pt_numerator = 1, pt_denominator = 1\<rparr>"
definition ms_4 :: packet_time where "ms_4 = \<lparr>pt_numerator = 4, pt_denominator = 1\<rparr>"

lemmas packet_times = us_125_def us_250_def us_333_def ms_1_def ms_4_def

section \<open>Rounding is relatively exact\<close>

lemma rat_power_powi: "rat_power 2 e = 2 powi e"
  by (simp add: rat_power_def power_int_def inverse_eq_divide power_one_over)

lemma rat_power_2: "0 < rat_power 2 e" "rat_power 2 (a + b) = rat_power 2 a * rat_power 2 b" "rat_power 2 (-1) = 1 / 2" "rat_power 2 1 = 2"
  by (simp_all add: rat_power_powi power_int_add power_int_minus)

lemma rat_power_2_succ: "rat_power 2 (e + 1) = 2 * rat_power 2 e" "rat_power 2 (e - 1) = rat_power 2 e / 2"
  using rat_power_2(2) [of e 1] rat_power_2(2) [of e "-1"] rat_power_2(3,4) by simp_all

lemma binary_exponent_bounds:
  "1 / 2 ^ n \<le> x \<Longrightarrow> x < 2 ^ Suc n \<Longrightarrow>
   rat_power 2 (binary_exponent n x) \<le> x \<and> x < rat_power 2 (binary_exponent n x + 1)"
proof (induction n arbitrary: x)
  case 0
  then show ?case by (simp add: rat_power_def)
next
  case (Suc n)
  consider "2 \<le> x" | "x < 1" | "1 \<le> x" "x < 2" by linarith
  then show ?case
  proof cases
    case 1
    have "(1 :: rat) / 2 ^ n \<le> 1" by simp
    then have "1 / 2 ^ n \<le> x / 2" using 1 by linarith
    then show ?thesis using Suc.IH [of "x / 2"] Suc.prems 1 rat_power_2_succ [of "binary_exponent n (x / 2)"]
        rat_power_2_succ(1) [of "binary_exponent n (x / 2) + 1"] by simp
  next
    case 2
    have "1 / 2 ^ n \<le> x * 2" using Suc.prems(1) by (simp add: field_simps)
    moreover have "x * 2 < 2 ^ Suc n" using 2 order_less_le_trans [OF 2 one_le_power [of "2 :: rat" n]] by simp
    ultimately show ?thesis using Suc.IH [of "x * 2"] 2 rat_power_2_succ [of "binary_exponent n (x * 2)"]
        rat_power_2_succ(1) [of "binary_exponent n (x * 2) - 1"] by simp
  next
    case 3
    then show ?thesis by (simp add: rat_power_def)
  qed
qed

lemma round_half_even_error: "0 \<le> x \<Longrightarrow> \<bar>of_nat (round_half_even x) - x\<bar> \<le> 1 / 2"
proof -
  assume x: "0 \<le> x"
  have "of_nat (nat \<lfloor>x\<rfloor>) \<le> x" "x < of_nat (nat \<lfloor>x\<rfloor>) + 1" using x floor_correct [of x] by (simp_all add: of_nat_nat)
  then show ?thesis by (auto simp: round_half_even_def Let_def abs_le_iff)
qed

definition float_unit :: rat where "float_unit = 1 + 1 / 2 ^ 23"

text \<open>\<open>y\<close> is \<open>x\<close> after \<open>k\<close> roundings.\<close>

definition near :: "nat \<Rightarrow> rat \<Rightarrow> float_value \<Rightarrow> bool" where
  "near k x v \<longleftrightarrow> (\<exists>y. v = Finite y \<and> x / float_unit ^ k \<le> y \<and> y \<le> x * float_unit ^ k)"

lemma float_unit: "1 < float_unit" "1 - 1 / 2 ^ 24 \<ge> 1 / float_unit" "1 + 1 / 2 ^ 24 \<le> float_unit"
  by (simp_all add: float_unit_def)

lemma to_float_near:
  assumes "1 / 2 ^ 100 \<le> x" "x < 2 ^ 100"
  shows "near 1 x (to_float x)"
proof -
  have x: "0 < x" using assms(1) by (rule order_less_le_trans [rotated]) simp
  let ?e = "binary_exponent 280 x"
  have "(1 :: rat) / 2 ^ 280 \<le> 1 / 2 ^ 100" "(2 :: rat) ^ 100 \<le> 2 ^ Suc 280" by (simp_all add: divide_le_cancel)
  then have e: "rat_power 2 ?e \<le> x" "x < rat_power 2 (?e + 1)"
    using binary_exponent_bounds [of 280 x] assms by auto
  have "rat_power 2 (-100) < rat_power 2 (?e + 1)"
    using e(2) assms(1) by (simp add: rat_power_def)
  then have "\<not> ?e + 1 \<le> -100" using power_int_increasing [of "?e + 1" "-100" "2 :: rat"] unfolding rat_power_powi by force
  then have m: "max (?e - 23) (-149) = ?e - 23" by simp
  let ?u = "rat_power 2 (?e - 23)"
  have u: "0 < ?u" "?u = rat_power 2 ?e / 2 ^ 23"
    using rat_power_2(1) [of "?e - 23"] rat_power_2(2) [of ?e "-23"] by (simp_all add: rat_power_def [of 2 "-23"])
  define r where "r = of_nat (round_half_even (x / ?u)) * ?u"
  have "\<bar>of_nat (round_half_even (x / ?u)) - x / ?u\<bar> \<le> 1 / 2" using x u(1) by (intro round_half_even_error) simp
  then have "\<bar>of_nat (round_half_even (x / ?u)) - x / ?u\<bar> * ?u \<le> 1 / 2 * ?u" using u(1) by (intro mult_right_mono) simp_all
  moreover have "\<bar>of_nat (round_half_even (x / ?u)) - x / ?u\<bar> * ?u = \<bar>r - x\<bar>"
    using u(1) by (simp add: r_def abs_mult_pos left_diff_distrib)
  ultimately have "\<bar>r - x\<bar> \<le> ?u / 2" by simp
  also have "\<dots> \<le> x / 2 ^ 24" using e(1) u(2) by (simp add: field_simps)
  finally have r: "\<bar>r - x\<bar> \<le> x / 2 ^ 24" .
  have "x / float_unit \<le> x * (1 - 1 / 2 ^ 24)" "x * (1 + 1 / 2 ^ 24) \<le> x * float_unit"
    using mult_left_mono [OF float_unit(2), of x] mult_left_mono [OF float_unit(3), of x] x by simp_all
  moreover have "x * (1 - 1 / 2 ^ 24) \<le> r" "r \<le> x * (1 + 1 / 2 ^ 24)"
    using abs_le_D1 [OF r] abs_le_D2 [OF r] by (simp_all add: field_simps)
  ultimately have n: "x / float_unit \<le> r" "r \<le> x * float_unit" by (blast intro: order_trans)+
  have "r \<le> 2 * x" using abs_le_D1 [OF r] x by (simp add: field_simps)
  then have "r < 2 * 2 ^ 100" using assms(2) by linarith
  then have "r < 2 ^ 128" by (rule order_less_trans) simp
  moreover have "round_positive \<bar>x\<bar> = r" using x m by (simp add: round_positive_def r_def Let_def)
  ultimately have "to_float x = Finite r" using x by (simp add: to_float_def Let_def)
  then show ?thesis using n by (simp add: near_def)
qed

lemma near_step:
  assumes "near 1 y (to_float y)" "x / float_unit ^ k \<le> y" "y \<le> x * float_unit ^ k"
  shows "near (k + 1) x (to_float y)"
proof -
  obtain z where z: "to_float y = Finite z" "y / float_unit \<le> z" "z \<le> y * float_unit" using assms(1) by (auto simp: near_def)
  have c: "0 < float_unit" using float_unit(1) by simp
  have "x / float_unit ^ (k + 1) \<le> y / float_unit" using assms(2) c by (simp add: field_simps)
  moreover have "y * float_unit \<le> x * float_unit ^ (k + 1)" using assms(3) c by (simp add: field_simps)
  ultimately have "x / float_unit ^ (k + 1) \<le> z" "z \<le> x * float_unit ^ (k + 1)" using z by linarith+
  then show ?thesis using z(1) by (auto simp: near_def)
qed

text \<open>Products and quotients, as long as the range is not left.\<close>

definition moderate :: "rat \<Rightarrow> bool" where
  "moderate x \<longleftrightarrow> 1 / 2 ^ 80 \<le> x \<and> x \<le> 2 ^ 80"

lemma float_unit_power: "k \<le> 20 \<Longrightarrow> 1 \<le> float_unit ^ k \<and> float_unit ^ k \<le> 2"
proof -
  assume "k \<le> 20"
  then have "float_unit ^ k \<le> float_unit ^ 20" by (rule power_increasing) (simp add: float_unit_def)
  also have "float_unit ^ 20 \<le> 2" by (simp add: float_unit_def power_divide)
  finally show ?thesis by (simp add: one_le_power float_unit_def)
qed

lemma near_round:
  assumes "x / float_unit ^ k \<le> y" "y \<le> x * float_unit ^ k" "moderate x" "k \<le> 20"
  shows "near (k + 1) x (to_float y)"
proof (rule near_step [OF to_float_near assms(1,2)])
  have "1 / 2 ^ 80 \<le> x" using assms(3) by (simp add: moderate_def)
  then have x: "0 < x" by (rule order_less_le_trans [rotated]) simp
  have p: "1 \<le> float_unit ^ k" "float_unit ^ k \<le> 2" "0 < float_unit ^ k" using float_unit_power [OF assms(4)] by auto
  have "x / 2 \<le> x / float_unit ^ k" using p x by (intro divide_left_mono) simp_all
  moreover have "1 / 2 ^ 100 \<le> x / 2" using assms(3) by (simp add: moderate_def)
  ultimately show "1 / 2 ^ 100 \<le> y" using assms(1) by (blast intro: order_trans)
  have "x * float_unit ^ k \<le> x * 2" using p x by (intro mult_left_mono) simp_all
  then have "y \<le> x * 2" using assms(2) by (rule order_trans [rotated])
  moreover have "x * 2 < 2 ^ 100" using assms(3) by (simp add: moderate_def)
  ultimately show "y < 2 ^ 100" by simp
qed

lemma near_of: "moderate x \<Longrightarrow> near 1 x (to_float x)"
  using near_round [of x 0 x] by simp

lemma near_mult:
  assumes "near j a u" "near k b v" "0 \<le> a" "0 \<le> b" "moderate (a * b)" "j + k \<le> 20" "m = j + k + 1"
  shows "near m (a * b) (float_mult u v)"
proof -
  obtain x y where u: "u = Finite x" "a / float_unit ^ j \<le> x" "x \<le> a * float_unit ^ j"
    and v: "v = Finite y" "b / float_unit ^ k \<le> y" "y \<le> b * float_unit ^ k" using assms(1,2) by (auto simp: near_def)
  have p: "0 < float_unit ^ j" "0 < float_unit ^ k" by (simp_all add: float_unit_def)
  have n: "0 \<le> a / float_unit ^ j" "0 \<le> b / float_unit ^ k" using assms(3,4) p by simp_all
  have xy: "0 \<le> x" "0 \<le> y" using order_trans [OF n(1) u(2)] order_trans [OF n(2) v(2)] by auto
  have "a / float_unit ^ j * (b / float_unit ^ k) \<le> x * y" using u v n xy by (intro mult_mono) simp_all
  moreover have "x * y \<le> a * float_unit ^ j * (b * float_unit ^ k)" using u v n xy assms(3,4) p by (intro mult_mono) simp_all
  ultimately have "a * b / float_unit ^ (j + k) \<le> x * y" "x * y \<le> a * b * float_unit ^ (j + k)"
    by (simp_all add: power_add mult_ac)
  from near_round [OF this assms(5,6)] show ?thesis using u v assms(7) by simp
qed

lemma near_div:
  assumes "near j a u" "near k b v" "0 \<le> a" "0 < b" "moderate (a / b)" "j + k \<le> 20" "m = j + k + 1"
  shows "near m (a / b) (float_div u v)"
proof -
  obtain x y where u: "u = Finite x" "a / float_unit ^ j \<le> x" "x \<le> a * float_unit ^ j"
    and v: "v = Finite y" "b / float_unit ^ k \<le> y" "y \<le> b * float_unit ^ k" using assms(1,2) by (auto simp: near_def)
  have p: "0 < float_unit ^ j" "0 < float_unit ^ k" by (simp_all add: float_unit_def)
  have "0 < b / float_unit ^ k" using assms(4) p by simp
  then have y: "0 < y" using v(2) by linarith
  have n: "0 \<le> a / float_unit ^ j" using assms(3) p by simp
  have x: "0 \<le> x" using order_trans [OF n u(2)] .
  have "a / float_unit ^ j / (b * float_unit ^ k) \<le> x / y" using u v n x y by (intro frac_le) simp_all
  moreover have "x / y \<le> a * float_unit ^ j / (b / float_unit ^ k)"
    using u v n x y assms(3,4) p by (intro frac_le) simp_all
  ultimately have "a / b / float_unit ^ (j + k) \<le> x / y" "x / y \<le> a / b * float_unit ^ (j + k)"
    by (simp_all add: power_add mult_ac)
  from near_round [OF this assms(5,6)] show ?thesis using u v y assms(7) by simp
qed

text \<open>An integer of 16 bits is found again after some roundings.\<close>

lemma near_integer:
  assumes "near k (of_nat n) v" "k \<le> 16" "n < 2 ^ 16"
  shows "to_u16 (float_round v) = Some (of_nat n)"
proof -
  obtain y where y: "v = Finite y" "of_nat n / float_unit ^ k \<le> y" "y \<le> of_nat n * float_unit ^ k"
    using assms(1) by (auto simp: near_def)
  have c: "float_unit ^ k \<le> float_unit ^ 16" "1 \<le> float_unit ^ k"
    using assms(2) by (intro power_increasing, simp, simp add: float_unit_def) (simp add: one_le_power float_unit_def)
  have d: "float_unit ^ 16 \<le> 1 + 1 / 2 ^ 18" by (simp add: float_unit_def power_divide)
  have "(of_nat n :: rat) \<le> of_nat (2 ^ 16)" using assms(3) by (simp only: of_nat_le_iff)
  then have n: "(of_nat n :: rat) \<le> 2 ^ 16" by simp
  have up: "of_nat n * float_unit ^ k \<le> of_nat n * (1 + 1 / 2 ^ 18)" using c d by (intro mult_left_mono) simp_all
  have "(of_nat n :: rat) * (1 - 1 / 2 ^ 18) * float_unit ^ k \<le> of_nat n * (1 - 1 / 2 ^ 18) * (1 + 1 / 2 ^ 18)"
    using c d by (intro mult_left_mono) simp_all
  also have "\<dots> \<le> of_nat n * 1" by (subst mult.assoc) (intro mult_left_mono; simp)
  finally have lo: "of_nat n * (1 - 1 / 2 ^ 18) \<le> (of_nat n :: rat) / float_unit ^ k" using c by (simp add: field_simps)
  have "of_nat n - 1 / 2 < y" "y < of_nat n + 1 / 2"
    using order_trans [OF lo y(2)] order_trans [OF y(3) up] n by (simp_all add: field_simps)
  moreover from this have "0 \<le> y" using y(2) c by (metis divide_nonneg_nonneg of_nat_0_le_iff order_trans zero_le_one)
  ultimately have "float_round v = Some (int n)" using y(1) by (simp add: floor_eq_iff)
  then show ?thesis using assms(3) by (simp add: to_u16_def)
qed

section \<open>The frames of a packet\<close>

text \<open>The multiple of 48 kHz the sample rate is counted as.\<close>

definition rate_multiple :: "u32 \<Rightarrow> nat" where
  "rate_multiple rate = (if rate mod 48000 = 0 then unat rate div 48000 else unat rate div 48000 + 1)"

lemma moderate_of_nat: "0 < n \<Longrightarrow> n \<le> 2 ^ 80 \<Longrightarrow> moderate (of_nat n)"
proof -
  assume "0 < n" "n \<le> 2 ^ 80"
  then have "(of_nat 1 :: rat) \<le> of_nat n" "(of_nat n :: rat) \<le> of_nat (2 ^ 80)" by (simp_all only: of_nat_le_iff)
  then have "(1 :: rat) \<le> of_nat n" "(of_nat n :: rat) \<le> 2 ^ 80" by simp_all
  moreover have "(1 :: rat) / 2 ^ 80 \<le> 1" by simp
  ultimately show ?thesis unfolding moderate_def by linarith
qed

lemma moderate_fraction:
  assumes "0 < a" "a \<le> 2 ^ 60" "0 < b" "b \<le> 2 ^ 60"
  shows "moderate (of_nat a / of_nat b)"
proof -
  have "(of_nat 1 :: rat) \<le> of_nat a" "(of_nat a :: rat) \<le> of_nat (2 ^ 60)"
    "(of_nat 1 :: rat) \<le> of_nat b" "(of_nat b :: rat) \<le> of_nat (2 ^ 60)" using assms by (simp_all only: of_nat_le_iff)
  then have n: "1 \<le> rat_of_nat a" "rat_of_nat a \<le> 2 ^ 60" "1 \<le> rat_of_nat b" "rat_of_nat b \<le> 2 ^ 60" by simp_all
  have "1 / 2 ^ 60 \<le> rat_of_nat a / of_nat b" "rat_of_nat a / of_nat b \<le> 2 ^ 60 / 1" using n by (intro frac_le; simp)+
  moreover have "(1 :: rat) / 2 ^ 80 \<le> 1 / 2 ^ 60" "(2 :: rat) ^ 60 / 1 \<le> 2 ^ 80" by simp_all
  ultimately show ?thesis unfolding moderate_def by (blast intro: order_trans)
qed

lemma near_weaken: "near j x v \<Longrightarrow> 0 \<le> x \<Longrightarrow> j \<le> k \<Longrightarrow> near k x v"
proof -
  assume v: "near j x v" and x: "0 \<le> x" and k: "j \<le> k"
  have p: "float_unit ^ j \<le> float_unit ^ k" "0 < float_unit ^ j" using k by (auto intro: power_increasing simp: float_unit_def)
  have "x / float_unit ^ k \<le> x / float_unit ^ j" "x * float_unit ^ j \<le> x * float_unit ^ k"
    using p x by (intro divide_left_mono mult_left_mono; simp)+
  then show ?thesis using v by (auto simp: near_def intro: order_trans)
qed

lemma rate_multiple_word:
  assumes "0 < rate mod 48000"
  shows "unat (rate div 48000 + 1 :: u32) = rate_multiple rate"
proof -
  have r: "unat (rate div 48000) = unat rate div 48000" by (simp add: unat_div)
  have "unat rate div 48000 < 2 ^ 32 div 48000 + 1" using unat_bound [of rate] by (simp add: less_Suc_eq_le div_le_mono)
  then have "unat (rate div 48000 + 1) = unat rate div 48000 + 1" using r by (simp add: unat_word_ariths)
  then show ?thesis using assms by (simp add: rate_multiple_def)
qed

lemma rate_mod_nat: "rate mod 48000 = 0 \<Longrightarrow> unat (rate :: u32) mod 48000 = 0"
proof -
  assume "rate mod 48000 = 0"
  then have "unat (rate mod 48000) = 0" by simp
  then show ?thesis by (simp add: unat_mod)
qed

lemma rate_multiple_bound: "rate_multiple rate \<le> 2 ^ 20" "rate \<noteq> 0 \<Longrightarrow> 0 < rate_multiple rate"
proof -
  have b: "unat rate < 2 ^ 32" using unat_bound [of rate] by simp
  then have "unat rate div 48000 \<le> 2 ^ 32 div 48000" by (intro div_le_mono) simp
  then show "rate_multiple rate \<le> 2 ^ 20" by (simp add: rate_multiple_def)
  assume "rate \<noteq> 0"
  then have "0 < unat rate" by (simp add: unat_gt_0)
  show "0 < rate_multiple rate"
  proof (cases "rate mod 48000 = 0")
    case True
    then have "unat rate mod 48000 = 0" by (rule rate_mod_nat)
    then have "0 < unat rate div 48000" using \<open>0 < unat rate\<close> by (metis div_mult_mod_eq add_0_right mult_0 not_gr_zero)
    then show ?thesis using True by (simp add: rate_multiple_def)
  qed (simp add: rate_multiple_def)
qed

text \<open>The arithmetic of \<open>signaled_ptime\<close> on natural numbers.\<close>

lemma signal_near:
  fixes n K r d :: nat
  assumes nd: "0 < n" "n < 2 ^ 8" "0 < d" "d < 2 ^ 8" "0 < r" "r < 2 ^ 32" "0 < K" "K \<le> 2 ^ 20"
  shows "near 9 (of_nat (n * K * 48000) / of_nat (r * d))
      (float_div (float_div (float_mult (float_mult (to_float (of_nat n)) (to_float (of_nat K))) (to_float (of_nat 48000)))
        (to_float (of_nat r))) (to_float (of_nat d)))"
    and "near 3 (of_nat n / of_nat d) (float_div (to_float (of_nat n)) (to_float (of_nat d)))"
proof -
  let ?f = "\<lambda>n. to_float (of_nat n)"
  have "n * K \<le> 2 ^ 8 * 2 ^ 20" "r * d \<le> 2 ^ 32 * 2 ^ 8" using nd by (intro mult_le_mono; simp)+
  then have nK: "0 < n * K" "n * K \<le> 2 ^ 28" and rd: "0 < r * d" "r * d \<le> 2 ^ 40" using nd by simp_all
  have F: "near 1 (of_nat m) (?f m)" if "0 < m" "m \<le> 2 ^ 60" for m
    using near_of moderate_of_nat [of m] that by simp
  have "n * K * 48000 \<le> 2 ^ 28 * 48000" using nK(2) by (rule mult_le_mono1)
  also have "(2 :: nat) ^ 28 * 48000 \<le> 2 ^ 60" by simp
  finally have P: "n * K * 48000 \<le> 2 ^ 60" .
  have P0: "0 < n * K * 48000" using nK(1) by simp
  have rd': "r * d \<le> 2 ^ 60" "r \<le> 2 ^ 60" using order_trans [OF rd(2), of "2 ^ 60"] nd by simp_all
  note mf = moderate_fraction [OF P0 P nd(5) rd'(2)] moderate_fraction [OF P0 P rd(1) rd'(1)]
  have "n * K * 48000 \<le> 2 ^ 80" using order_trans [OF P, of "2 ^ 80"] by simp
  then have m48: "moderate (of_nat (n * K * 48000))" using P0 by (intro moderate_of_nat)
  have a: "near 3 (of_nat n * of_nat K) (float_mult (?f n) (?f K))"
    using nd nK moderate_of_nat [of "n * K"] by (intro near_mult [OF F F]) simp_all
  have b: "near 5 (of_nat n * of_nat K * of_nat 48000) (float_mult (float_mult (?f n) (?f K)) (?f 48000))"
    using m48 by (intro near_mult [OF a F]) simp_all
  have c: "near 7 (of_nat n * of_nat K * of_nat 48000 / of_nat r) (float_div (float_mult (float_mult (?f n) (?f K)) (?f 48000)) (?f r))"
    using nd mf by (intro near_div [OF b F]) simp_all
  have "near 9 (of_nat n * of_nat K * of_nat 48000 / of_nat r / of_nat d)
      (float_div (float_div (float_mult (float_mult (?f n) (?f K)) (?f 48000)) (?f r)) (?f d))"
    using nd mf by (intro near_div [OF c F]) simp_all
  then show "near 9 (of_nat (n * K * 48000) / of_nat (r * d))
      (float_div (float_div (float_mult (float_mult (?f n) (?f K)) (?f 48000)) (?f r)) (?f d))" by simp
  show "near 3 (of_nat n / of_nat d) (float_div (?f n) (?f d))"
    using nd moderate_fraction [of n d] by (intro near_div [OF F F]) simp_all
qed

lemma signaled_near:
  assumes "packet_time_valid p" "rate \<noteq> 0"
  shows "near 9 (of_nat (unat (pt_numerator p) * rate_multiple rate * 48000) / of_nat (unat rate * unat (pt_denominator p)))
    (signaled_ptime p rate)"
proof -
  define n d r where "n = unat (pt_numerator p)" and "d = unat (pt_denominator p)" and "r = unat rate"
  define K where "K = rate_multiple rate"
  note defs = n_def [symmetric] d_def [symmetric] r_def [symmetric] K_def [symmetric]
  have nd: "0 < n" "n < 2 ^ 8" "0 < d" "d < 2 ^ 8" "0 < r" "r < 2 ^ 32"
    using assms unat_bound [of "pt_numerator p"] unat_bound [of "pt_denominator p"] unat_bound [of rate]
    by (simp_all add: packet_time_valid_def unat_gt_0 n_def d_def r_def)
  have K: "0 < K" "K \<le> 2 ^ 20" using rate_multiple_bound assms(2) by (auto simp: K_def)
  note near = signal_near [OF nd K]
  show ?thesis
  proof (cases "0 < rate mod 48000")
    case True
    then show ?thesis using near(1) rate_multiple_word [OF True] unfolding signaled_ptime_def Let_def defs by simp
  next
    case False
    then have z: "rate mod 48000 = 0" by (simp add: word_gt_0)
    then have "r = 48000 * K" using rate_mod_nat [OF z] by (auto simp: rate_multiple_def K_def r_def)
    then have "(of_nat (n * K * 48000) :: rat) / of_nat (r * d) = of_nat n / of_nat d" using K by simp
    moreover have "near 9 (of_nat n / of_nat d) (float_div (to_float (of_nat n)) (to_float (of_nat d)))"
      by (rule near_weaken [OF near(2)]) simp_all
    ultimately show ?thesis using False unfolding signaled_ptime_def Let_def defs by simp
  qed
qed

lemma framecount_near:
  assumes "near k x v" "k \<le> 12" "0 < rate" "x * of_nat (unat rate) = of_nat n * 1000" "0 < n" "n < 2 ^ 16"
  shows "ptime_framecount v rate = Some (of_nat n)"
proof -
  define r where "r = unat rate"
  have r: "0 < r" "r < 2 ^ 32" using assms(3) unat_bound [of rate] by (simp_all add: word_gt_0 unat_gt_0 r_def)
  have x: "x * of_nat r = of_nat (n * 1000)" using assms(4) by (simp add: r_def)
  have "x = of_nat (n * 1000) / of_nat r" using x r(1) by (simp add: field_simps)
  then have x0: "0 \<le> x" by simp
  have R: "near 1 (of_nat r) (to_float (of_nat r))" using near_of moderate_of_nat [of r] r by simp
  have T: "near 1 1000 (to_float 1000)" using near_of [of 1000] moderate_of_nat [of 1000] by simp
  have a: "near (k + 2) (x * of_nat r) (float_mult v (to_float (of_nat r)))"
    using assms(2,5,6) moderate_of_nat [of "n * 1000"] x x0 by (intro near_mult [OF assms(1) R]) simp_all
  have "near (k + 4) (x * of_nat r / 1000) (float_div (float_mult v (to_float (of_nat r))) (to_float 1000))"
    using assms(2,5,6) x x0 moderate_of_nat [of n] by (intro near_div [OF a T]) simp_all
  then have "near (k + 4) (of_nat n) (float_div (float_mult v (to_float (of_nat r))) (to_float 1000))" using x by simp
  then show ?thesis unfolding ptime_framecount_def r_def [symmetric] by (rule near_integer) (use assms(2,6) in simp_all)
qed

lemma frames_of_packet:
  assumes "packet_time_valid p" "rate \<noteq> 0"
    and "m * unat (pt_denominator p) = unat (pt_numerator p) * rate_multiple rate * 48" "m < 2 ^ 16"
  shows "ptime_framecount (signaled_ptime p rate) rate = Some (of_nat m)"
proof (rule framecount_near [OF signaled_near [OF assms(1,2)] _ _ _ _ assms(4)])
  show "9 \<le> (12 :: nat)" by simp
  define n d r where "n = unat (pt_numerator p)" and "d = unat (pt_denominator p)" and "r = unat rate"
  define K where "K = rate_multiple rate"
  note defs = n_def [symmetric] d_def [symmetric] r_def [symmetric] K_def [symmetric]
  have nd: "0 < n" "0 < d" "0 < r" "0 < K"
    using assms(1,2) rate_multiple_bound(2) by (simp_all add: packet_time_valid_def unat_gt_0 n_def d_def r_def K_def)
  show "0 < rate" using assms(2) by (simp add: word_gt_0)
  have e: "m * d = n * K * 48" using assms(3) by (simp add: n_def d_def K_def)
  have "0 < m * d" unfolding e using nd by simp
  then show "0 < m" by simp
  have q: "(of_nat m :: rat) * of_nat d = of_nat n * of_nat K * 48" by (metis e of_nat_mult of_nat_numeral)
  have "of_nat (n * K * 48000) / of_nat (r * d) * of_nat r = (of_nat n * of_nat K * 48 :: rat) / of_nat d * 1000"
    using nd by simp
  also have "\<dots> = of_nat m * 1000" using nd by (simp flip: q)
  finally show "of_nat (unat (pt_numerator p) * rate_multiple rate * 48000) / of_nat (unat rate * unat (pt_denominator p)) *
      of_nat (unat rate) = (of_nat m :: rat) * 1000" unfolding defs .
qed

section \<open>What reaches the receiver\<close>

text \<open>C18: in spite of the roundings of \<open>signaled_ptime\<close> and \<open>framecount\<close>, the number of frames of a packet is exact for
  every packet time and sample rate for which it is a whole number below 65536: the packet time in milliseconds, times 48, times the
  number of 48 kHz units the sample rate begins.\<close>

theorem packet_frames_exact:
  assumes "packet_time_valid p" and "rate \<noteq> 0"
    and "m * unat (pt_denominator p) = unat (pt_numerator p) * rate_multiple rate * 48" and "m < 2 ^ 16"
  shows "packet_framecount p rate = Some (of_nat m)"
proof -
  have "ucast (of_nat m :: u16) = (of_nat m :: u32)"
    using assms(4) by (intro word_unat_eq_iff [THEN iffD2]) (simp add: unsigned_ucast_eq unat_of_nat take_bit_nat_eq_self)
  then show ?thesis using frames_of_packet [OF assms] by (simp add: packet_framecount_def)
qed

lemma packet_frames_exact_witness:
  "packet_framecount us_125 96000 = Some 12 \<and> packet_framecount us_333 44100 = Some 16 \<and> packet_framecount ms_4 48000 = Some 192"
  using packet_frames_exact [of us_125 96000 12] packet_frames_exact [of us_333 44100 16] packet_frames_exact [of ms_4 48000 192]
  by (simp_all add: packet_times packet_time_valid_def rate_multiple_def)

lemma show_around_109:
  assumes "108 / 100 < y" "y < 109 / 100" "108 / 100 + 1 / 200 < y"
  shows "show_3g (Finite y) = ''1.09''"
proof -
  have "find (\<lambda>e. rat_power 10 e \<le> y) (rev [-45..38]) = Some 0"
  proof (rule find_upto)
    show "rat_power 10 0 \<le> y" using assms(1) by (simp add: rat_power_def)
    show "\<not> rat_power 10 e \<le> y" if "0 < e" for e
      using rat_power_mono [of 1 e] that assms(2) by (simp add: rat_power_def)
  qed simp_all
  then have e: "decimal_exponent y = 0" by (simp add: decimal_exponent_def)
  have p: "rat_power 10 (0 - 2) = 1 / 100" by (simp add: rat_power_def)
  have "\<lfloor>y * 100\<rfloor> = 108" using assms by (simp add: floor_eq_iff)
  then have r: "round_half_even (y / (1 / 100)) = 109" using assms by (simp add: round_half_even_def Let_def)
  have "show_positive y = with_fraction (show_nat 1) (strip_zeros (pad_digits 2 9))"
    unfolding show_positive_def e Let_def p r by simp
  also have "\<dots> = ''1.09''" by code_simp
  finally show ?thesis using assms by (simp add: show_3g_def)
qed

lemma parsed_109: "string_to_float ''1.09'' = Some (Finite (109 / 100))"
proof -
  have "plain_float (Finite (109 / 100))" unfolding plain_float_def by (intro disjI2 exI [of _ 109] exI [of _ 2]) simp
  moreover have "show_3g (Finite (109 / 100)) = ''1.09''"
    using show_positive_plain [of 109 2] by (simp add: show_3g_def) code_simp
  ultimately show ?thesis using string_to_float_show_3g [of "Finite (109 / 100)" "[]"] by (simp add: space_or_end_def)
qed

text \<open>C40: a session description shows the packet time with three significant digits (\<open>{:.3g}\<close>), which is
  not always enough: at 352.8 kHz and 1 ms a packet has 384 frames, the description says \<open>1.09\<close>, and from that text the receiver computes 385.\<close>

theorem ptime_text_loses_frame:
  "packet_framecount ms_1 352800 = Some 384 \<and> show_3g (signaled_ptime ms_1 352800) = ''1.09'' \<and>
   Option.bind (string_to_float (show_3g (signaled_ptime ms_1 352800)))
     (\<lambda>v. case v of Finite x \<Rightarrow> ptime_framecount (to_float x) 352800 | _ \<Rightarrow> None) = Some 385"
proof (intro conjI)
  have v: "packet_time_valid ms_1" by (simp add: packet_times packet_time_valid_def)
  have k: "rate_multiple 352800 = 8" by (simp add: rate_multiple_def)
  show "packet_framecount ms_1 352800 = Some 384"
    using frames_of_packet [OF v, of 352800 384] k by (simp add: packet_framecount_def packet_times)
  have "near 9 (384000 / 352800) (signaled_ptime ms_1 352800)"
    using signaled_near [OF v, of 352800] k by (simp add: packet_times)
  then obtain y where y: "signaled_ptime ms_1 352800 = Finite y" "384000 / 352800 / float_unit ^ 9 \<le> y" "y \<le> 384000 / 352800 * float_unit ^ 9"
    unfolding near_def by blast
  have "108 / 100 + 1 / 200 < (384000 / 352800 / float_unit ^ 9 :: rat)" "384000 / 352800 * float_unit ^ 9 < (109 / 100 :: rat)"
    by (simp_all add: float_unit_def power_divide)
  then have "108 / 100 + 1 / 200 < y" "y < 109 / 100" using y by (blast intro: order_less_le_trans order_le_less_trans)+
  then show s: "show_3g (signaled_ptime ms_1 352800) = ''1.09''" unfolding y(1) by (intro show_around_109) simp_all
  let ?r = "float_div (float_mult (to_float (109 / 100)) (to_float 352800)) (to_float 1000)"
  have "near 5 (109 / 100 * 352800 / 1000) ?r"
    by (rule near_div [OF near_mult [OF near_of near_of] near_of]) (simp_all add: moderate_def)
  then obtain z where z: "?r = Finite z" "384552 / 1000 / float_unit ^ 5 \<le> z" "z \<le> 384552 / 1000 * float_unit ^ 5"
    by (auto simp: near_def)
  have "385 - 1 / 2 < (384552 / 1000 / float_unit ^ 5 :: rat)" "384552 / 1000 * float_unit ^ 5 < (385 + 1 / 2 :: rat)"
    by (simp_all add: float_unit_def power_divide)
  then have "385 - 1 / 2 < z" "z < 385 + 1 / 2" using z by (blast intro: order_less_le_trans order_le_less_trans)+
  then have "float_round ?r = Some 385" using z(1) by (simp add: floor_eq_iff)
  then have "ptime_framecount (to_float (109 / 100)) 352800 = Some 385" by (simp add: ptime_framecount_def to_u16_def)
  then show "Option.bind (string_to_float (show_3g (signaled_ptime ms_1 352800)))
     (\<lambda>v. case v of Finite x \<Rightarrow> ptime_framecount (to_float x) 352800 | _ \<Rightarrow> None) = Some 385"
    by (simp add: s parsed_109)
qed

end
