(* ===== verification/Network_Config.thy ===== *)
theory Network_Config
  imports String_Parser
begin

text \<open>
  \<open>NetworkInterfaceConfig\<close> (core/net/interfaces/network_interface_config.hpp): interfaces by rank, and the names of ranks
  (core/util/rank.hpp). The interfaces of the system are a parameter: the first IPv4 address of an identifier, 0 (unspecified)
  when there is no such interface or it has none.
\<close>

type_synonym network_interface_config = "string list"

definition rank_primary :: byte where "rank_primary = 0"
definition rank_secondary :: byte where "rank_secondary = 1"

definition rank_to_ordinal :: "byte \<Rightarrow> string" where
  "rank_to_ordinal r =
     (if r < 10 then [''1st'', ''2nd'', ''3rd'', ''4th'', ''5th'', ''6th'', ''7th'', ''8th'', ''9th'', ''10th''] ! unat r else [])"

definition rank_to_ordinal_latin :: "byte \<Rightarrow> bool \<Rightarrow> string" where
  "rank_to_ordinal_latin r short_form =
     (if r = 0 then if short_form then ''pri'' else ''primary''
      else if r = 1 then if short_form then ''sec'' else ''secondary''
      else if r < 10
      then [''tertiary'', ''fourth'', ''fifth'', ''sixth'', ''seventh'', ''eighth'', ''ninth'', ''tenth''] ! (unat r - 2)
      else [])"

definition config_set_interface :: "nat \<Rightarrow> string \<Rightarrow> network_interface_config \<Rightarrow> network_interface_config" where
  "config_set_interface r identifier c =
     (let c' = (if length c < r + 1 then c @ replicate (r + 1 - length c) [] else c) in c'[r := identifier])"

definition get_interface_for_rank :: "network_interface_config \<Rightarrow> nat \<Rightarrow> string option" where
  "get_interface_for_rank c r = (if length c < r + 1 then None else Some (c ! r))"

definition get_interface_ipv4_address :: "(string \<Rightarrow> u32) \<Rightarrow> network_interface_config \<Rightarrow> nat \<Rightarrow> u32" where
  "get_interface_ipv4_address address_of c r =
     (case get_interface_for_rank c r of None \<Rightarrow> 0 | Some identifier \<Rightarrow> address_of identifier)"

definition get_interface_ipv4_addresses :: "(string \<Rightarrow> u32) \<Rightarrow> network_interface_config \<Rightarrow> u32 list" where
  "get_interface_ipv4_addresses address_of c = map address_of c"

definition get_array_of_interface_addresses :: "nat \<Rightarrow> (string \<Rightarrow> u32) \<Rightarrow> network_interface_config \<Rightarrow> u32 list" where
  "get_array_of_interface_addresses n address_of c =
     (let v = get_interface_ipv4_addresses address_of c
      in map (\<lambda>i. if i < min n (length v) then v ! i else 0) [0..<n])"

text \<open>A list of interfaces; \<open>find_by_string\<close> of the system gives an identifier. The loop is bounded, beyond it an assertion logs.\<close>

fun parse_interfaces :: "(string \<Rightarrow> string option) \<Rightarrow> char \<Rightarrow> nat \<Rightarrow> string \<Rightarrow> network_interface_config \<Rightarrow> nat \<Rightarrow>
    network_interface_config option" where
  "parse_interfaces find_by_string delimiter 0 s c r = Some c"
| "parse_interfaces find_by_string delimiter (Suc n) s c r =
     (case split_char delimiter False s of
        (None, t) \<Rightarrow> Some c
      | (Some piece, t) \<Rightarrow>
          (case find_by_string piece of
             None \<Rightarrow> None
           | Some identifier \<Rightarrow> parse_interfaces find_by_string delimiter n t (config_set_interface r identifier c) (r + 1)))"

definition parse_network_interface_config_from_string ::
    "(string \<Rightarrow> string option) \<Rightarrow> string \<Rightarrow> char \<Rightarrow> network_interface_config option" where
  "parse_network_interface_config_from_string find_by_string input delimiter = parse_interfaces find_by_string delimiter 10 input [] 0"

lemma interface_set_get:
  "get_interface_for_rank (config_set_interface r identifier c) q =
     (if q = r then Some identifier
      else if q < length c then Some (c ! q) else if q < r then Some [] else None)"
  by (auto simp: get_interface_for_rank_def config_set_interface_def Let_def nth_append)

text \<open>The array has the address of every rank it has room for.\<close>

lemma interface_array:
  "length (get_array_of_interface_addresses n address_of c) = n"
  "i < n \<Longrightarrow> get_array_of_interface_addresses n address_of c ! i = get_interface_ipv4_address address_of c i"
  by (simp_all add: get_array_of_interface_addresses_def get_interface_ipv4_addresses_def get_interface_ipv4_address_def
      get_interface_for_rank_def Let_def)

lemma of_nat_unat_back: "of_nat (unat w) = (w :: 'a::len word)"
  by simp

lemma rank_names_distinct: "a < 10 \<Longrightarrow> rank_to_ordinal_latin a b = rank_to_ordinal_latin a' b \<Longrightarrow> a' < 10 \<Longrightarrow> a = a'"
proof -
  have all: "a \<in> set [0, 1, 2, 3, 4, 5, 6, 7, 8, 9]" if "a < 10" for a :: byte
  proof -
    have "unat a < 10" using that by (simp add: word_less_nat_alt)
    then have "unat a \<in> {0, 1, 2, 3, 4, 5, 6, 7, 8, 9}" by auto
    then have "a \<in> (of_nat :: nat \<Rightarrow> byte) ` {0, 1, 2, 3, 4, 5, 6, 7, 8, 9}" by (metis image_eqI of_nat_unat_back)
    then show ?thesis by simp
  qed
  have "list_all (\<lambda>b. distinct (map (\<lambda>r. rank_to_ordinal_latin r b) [0, 1, 2, 3, 4, 5, 6, 7, 8, 9])) [True, False]" by code_simp
  then have d: "inj_on (\<lambda>r. rank_to_ordinal_latin r b) (set [0, 1, 2, 3, 4, 5, 6, 7, 8, 9])"
    by (cases b) (auto simp: distinct_map simp del: list.map set_simps)
  assume "a < 10" "rank_to_ordinal_latin a b = rank_to_ordinal_latin a' b" "a' < 10"
  then show ?thesis using inj_onD [OF d] all by blast
qed

end
