(* ===== verification/Ravenna_Sender.thy ===== *)
theory Ravenna_Sender
  imports Sdp_Roundtrip Rtp_Sender Packet_Time Rtsp_Server Network_Config Ptp_Messages
begin

text \<open>
  \<open>RavennaSender\<close> (ravenna/ravenna_sender.hpp and .cpp): its configuration, the checks on it, and what a change asks of the
  other components. The calls it makes on the audio sender, the RTSP server, the DNS-SD advertiser and its subscribers are
  recorded in order in \<open>rs_calls\<close>. Addresses are IPv4. The NMOS node is left out but for the calls that update it; the text of an IPv4
  address is a parameter, and so are the interfaces of the system.
  Shown: after any operations the writer of the audio sender, the registered paths and the advertisement are those of the configuration,
  and what is announced is the current description as long as the interfaces do not change.
\<close>

section \<open>Configuration\<close>

record destination =
  dest_rank :: byte
  dest_endpoint :: endpoint
  dest_enabled :: bool

record sender_configuration =
  sc_session_name :: string
  sc_destinations :: "destination list"
  sc_ttl :: byte
  sc_payload_type :: byte
  sc_audio_format :: audio_format
  sc_packet_time :: packet_time
  sc_enabled :: bool

text \<open>The calls on other components; \<open>update_nmos\<close> stands for what it does with the NMOS node.\<close>

datatype sender_call =
    Remove_writer
  | Add_writer writer_parameters "u32 list"
  | Set_writer_ttl byte
  | Register_path string
  | Unregister_paths
  | Advertise nat string
  | Withdraw nat
  | Send_to_path string Request
  | Update_nmos
  | Configuration_updated sender_configuration

record RavennaSender =
  rs_id :: u64
  rs_session_id :: u32
  rs_configuration :: sender_configuration
  rtsp_path_by_name :: string
  rtsp_path_by_id :: string
  rs_advertiser :: "nat option"
  rs_advertisement :: bool
  rs_clock_domain :: u32
  rs_grandmaster :: clock_identity
  rs_interfaces :: network_interface_config
  rs_calls :: "sender_call list"

definition log_call :: "sender_call \<Rightarrow> RavennaSender \<Rightarrow> RavennaSender" where
  "log_call c s = s\<lparr>rs_calls := rs_calls s @ [c]\<rparr>"

text \<open>The address of an interface, the text of an address, the port of the RTSP server.\<close>

record environment =
  env_address_of :: "string \<Rightarrow> u32"
  env_show_address :: "u32 \<Rightarrow> string"
  env_rtsp_port :: u16

definition interface_address :: "environment \<Rightarrow> RavennaSender \<Rightarrow> byte \<Rightarrow> u32" where
  "interface_address e s r = get_interface_ipv4_address (env_address_of e) (rs_interfaces s) (unat r)"

section \<open>Checks\<close>

text \<open>The loop over the destinations, with the number of the enabled ones.\<close>

fun validate_destinations :: "destination list \<Rightarrow> nat \<Rightarrow> string + nat" where
  "validate_destinations [] n = Inr n"
| "validate_destinations (d # ds) n =
     (if \<not> dest_enabled d then validate_destinations ds n
      else let a = V4 (fst (dest_endpoint d)); r = rank_to_ordinal_latin (dest_rank d) False
           in if \<not> address_unspecified a \<and> \<not> address_multicast a then Inl (r @ '' address must be multicast'')
              else if address_unspecified a then Inl (r @ '' destination address is unspecified'')
              else if snd (dest_endpoint d) = 0 then Inl (r @ '' destination port is 0'')
              else validate_destinations ds (n + 1))"

definition validate_configuration :: "sender_configuration \<Rightarrow> string + unit" where
  "validate_configuration c =
     (if sc_session_name c = [] then Inl ''Session name cannot be empty''
      else if sc_destinations c = [] then Inl ''no destinations set''
      else if \<not> sc_enabled c then Inr ()
      else case validate_destinations (sc_destinations c) 0 of
        Inl e \<Rightarrow> Inl e
      | Inr n \<Rightarrow>
          if n = 0 then Inl ''no enabled destinations''
          else if \<not> format_valid (sc_audio_format c) then Inl ''Invalid audio format''
          else if af_ordering (sc_audio_format c) \<noteq> Interleaved then Inl ''Only interleaved audio formats are supported''
          else if af_byte_order (sc_audio_format c) \<noteq> Order_be then Inl ''Only big endian audio formats are supported''
          else if \<not> packet_time_valid (sc_packet_time c) then Inl ''Invalid packet time''
          else Inr ())"

section \<open>Addresses\<close>

text \<open>A multicast address made of the interface address and the identifier.\<close>

definition auto_address :: "u32 \<Rightarrow> u64 \<Rightarrow> u32" where
  "auto_address interface i = 239 * 2 ^ 24 + (interface AND 0xFFFF) * 2 ^ 8 + ucast (i mod 255)"

definition generate_auto_address :: "environment \<Rightarrow> RavennaSender \<Rightarrow> destination \<Rightarrow> destination \<times> bool" where
  "generate_auto_address e s d =
     (if fst (dest_endpoint d) = 0 \<and> get_interface_for_rank (rs_interfaces s) (unat (dest_rank d)) \<noteq> None
      then let a = interface_address e s (dest_rank d)
           in if a = 0 then (d, False)
              else (d\<lparr>dest_endpoint := (auto_address a (rs_id s), snd (dest_endpoint d))\<rparr>, True)
      else (d, False))"

text \<open>The destinations, and whether one has changed.\<close>

definition generate_auto_addresses :: "environment \<Rightarrow> RavennaSender \<Rightarrow> destination list \<Rightarrow> destination list \<times> bool" where
  "generate_auto_addresses e s ds =
     (let r = map (generate_auto_address e s) ds in (map fst r, list_ex snd r))"

definition set_destinations :: "destination list \<Rightarrow> RavennaSender \<Rightarrow> RavennaSender" where
  "set_destinations ds s = s\<lparr>rs_configuration := (rs_configuration s)\<lparr>sc_destinations := ds\<rparr>\<rparr>"

definition generate_auto_addresses_if_needed :: "environment \<Rightarrow> bool \<Rightarrow> RavennaSender \<Rightarrow> RavennaSender" where
  "generate_auto_addresses_if_needed e notify_subscribers s =
     (case generate_auto_addresses e s (sc_destinations (rs_configuration s)) of
        (ds, changed) \<Rightarrow>
          let s' = set_destinations ds s
          in if changed \<and> notify_subscribers then log_call (Configuration_updated (rs_configuration s')) s' else s')"

section \<open>The session description\<close>

definition show_hex_byte :: "byte \<Rightarrow> string" where
  "show_hex_byte b = [''0123456789abcdef'' ! (unat b div 16), ''0123456789abcdef'' ! (unat b mod 16)]"

fun show_clock_identity :: "clock_identity \<Rightarrow> string" where
  "show_clock_identity [] = []"
| "show_clock_identity [b] = show_hex_byte b"
| "show_clock_identity (b # bs) = show_hex_byte b @ ''-'' @ show_clock_identity bs"

definition get_signaled_ptime :: "RavennaSender \<Rightarrow> float_value" where
  "get_signaled_ptime s =
     signaled_ptime (sc_packet_time (rs_configuration s)) (af_sample_rate (sc_audio_format (rs_configuration s)))"

definition get_framecount :: "RavennaSender \<Rightarrow> u32 option" where
  "get_framecount s =
     packet_framecount (sc_packet_time (rs_configuration s)) (af_sample_rate (sc_audio_format (rs_configuration s)))"

definition sender_reference_clock :: "RavennaSender \<Rightarrow> reference_clock" where
  "sender_reference_clock s = \<lparr>rc_source = Source_ptp, rc_ptp_version = Some IEEE_1588_2008,
     rc_gmid = Some (show_clock_identity (rs_grandmaster s)), rc_domain = Some (rs_clock_domain s)\<rparr>"

text \<open>One media description for each enabled destination; with more than one they are grouped by the names of the ranks.\<close>

definition media_of_destination ::
    "environment \<Rightarrow> RavennaSender \<Rightarrow> sdp_format \<Rightarrow> u32 \<Rightarrow> bool \<Rightarrow> destination \<Rightarrow> media_description" where
  "media_of_destination e s fmt frames redundant d =
     (let dst_address = env_show_address e (fst (dest_endpoint d));
          info = \<lparr>ci_network_type = Netw_internet, ci_address_type = Addr_ipv4, ci_address = dst_address, ci_ttl = Some 15,
            ci_number_of_addresses = None\<rparr>;
          addr = interface_address e s (dest_rank d);
          filter = \<lparr>sf_mode = Filter_include, sf_net_type = Netw_internet, sf_addr_type = Addr_ipv4,
            sf_dest_address = dst_address, sf_src_list = [env_show_address e addr]\<rparr>;
          media = (add_or_update_format fmt (media_init\<lparr>md_connection_infos := [info], md_media_type := ''audio'', md_port := 5004,
            md_protocol := ''RTP/AVP''\<rparr>));
          media = (media_add_or_update_source_filter filter media)
            \<lparr>md_clock_domain := Some \<lparr>cd_source = Sync_ptp_v2, cd_domain = rs_clock_domain s\<rparr>,
             md_sync_time := Some 0,
             md_reference_clock := Some (sender_reference_clock s),
             md_media_direction := Some Recvonly,
             md_ptime := Some (get_signaled_ptime s),
             md_framecount := Some (ucast frames)\<rparr>
      in if redundant then media\<lparr>md_mid := Some (rank_to_ordinal_latin (dest_rank d) False)\<rparr> else media)"

definition generate_sdp :: "environment \<Rightarrow> RavennaSender \<Rightarrow> (string + session_description) option" where
  "generate_sdp e s =
     (let c = rs_configuration s in
      if sc_session_name c = [] then Some (Inl ''Session name not set'')
      else if sc_destinations c = [] then Some (Inl ''No destinations set'')
      else case format_of_audio_format (sc_audio_format c) of
        None \<Rightarrow> Some (Inl ''Invalid audio format'')
      | Some fmt \<Rightarrow>
          let active = filter dest_enabled (sc_destinations c);
              redundant = 1 < length active;
              tags = (if redundant then map (\<lambda>d. rank_to_ordinal_latin (dest_rank d) False) active else []);
              sdp = session_description_init
                \<lparr>sd_origin := \<lparr>or_username = ''-'', or_session_id = show_unsigned (rs_session_id s), or_session_version = 0,
                   or_network_type = Netw_internet, or_address_type = Addr_ipv4,
                   or_unicast_address = env_show_address e (interface_address e s rank_primary)\<rparr>,
                 sd_session_name := sc_session_name c,
                 sd_clock_domain := Some \<lparr>cd_source = Sync_ptp_v2, cd_domain = rs_clock_domain s\<rparr>,
                 sd_reference_clock := Some (sender_reference_clock s),
                 sd_media_clock := Some \<lparr>mc_mode = Mode_direct, mc_offset = Some 0, mc_rate = None\<rparr>\<rparr>
          in do {
            medias \<leftarrow> (if active = [] then Some []
              else map_option (\<lambda>frames. map (media_of_destination e s fmt frames redundant) active) (get_framecount s));
            Some (Inr (sdp\<lparr>sd_media_descriptions := medias,
              sd_group := (if tags \<noteq> [] then Some \<lparr>grp_type = Group_undefined, grp_tags = tags\<rparr> else None)\<rparr>)) })"

text \<open>\<open>sdp::to_string(sdp).value_or("n/a")\<close>.\<close>

definition sdp_text :: "session_description \<Rightarrow> string option" where
  "sdp_text sd = map_option (\<lambda>t. case t of Some text \<Rightarrow> text | None \<Rightarrow> ''n/a'') (show_session_description k_sdp_crlf sd)"

section \<open>Telling the other components\<close>

definition writer_parameters_of :: "sender_configuration \<Rightarrow> u32 \<Rightarrow> writer_parameters" where
  "writer_parameters_of c frames =
     \<lparr>wp_audio_format = sc_audio_format c,
      wp_destinations = foldl (\<lambda>ds d. if dest_enabled d \<and> unat (dest_rank d) < length ds
          then ds[unat (dest_rank d) := dest_endpoint d] else ds)
        (replicate k_max_num_redundant_sessions (0, 0)) (sc_destinations c),
      wp_packet_time_frames = frames, wp_ttl = sc_ttl c, wp_payload_type = sc_payload_type c\<rparr>"

definition restart_streaming :: "environment \<Rightarrow> RavennaSender \<Rightarrow> RavennaSender option" where
  "restart_streaming e s =
     (let s = log_call Remove_writer s in
      if \<not> sc_enabled (rs_configuration s) then Some s
      else map_option (\<lambda>frames. log_call (Add_writer (writer_parameters_of (rs_configuration s) frames)
             (get_array_of_interface_addresses k_max_num_redundant_sessions (env_address_of e) (rs_interfaces s))) s)
           (get_framecount s))"

definition by_name :: "string \<Rightarrow> string" where "by_name n = ''/by-name/'' @ n"
definition by_id :: "u64 \<Rightarrow> string" where "by_id i = ''/by-id/'' @ show_unsigned i"

definition update_advertisement :: "RavennaSender \<Rightarrow> RavennaSender" where
  "update_advertisement s =
     (let s1 = (if rtsp_path_by_id s \<noteq> []
          then (log_call Unregister_paths s)\<lparr>rtsp_path_by_name := [], rtsp_path_by_id := []\<rparr> else s);
          s2 = (if rs_advertisement s1
          then (case rs_advertiser s1 of Some a \<Rightarrow> log_call (Withdraw a) s1 | None \<Rightarrow> s1)\<lparr>rs_advertisement := False\<rparr> else s1)
      in if \<not> sc_enabled (rs_configuration s2) then s2
         else let name = sc_session_name (rs_configuration s2);
                  s3 = (if rtsp_path_by_id s2 = []
                    then log_call (Register_path (by_id (rs_id s2))) (log_call (Register_path (by_name name))
                      (s2\<lparr>rtsp_path_by_name := by_name name, rtsp_path_by_id := by_id (rs_id s2)\<rparr>)) else s2)
              in case rs_advertiser s3 of
                   None \<Rightarrow> s3
                 | Some a \<Rightarrow> (log_call (Advertise a name) s3)\<lparr>rs_advertisement := True\<rparr>)"

text \<open>Both requests have the same data and differ in the URI.\<close>

definition announce_request :: "environment \<Rightarrow> RavennaSender \<Rightarrow> string \<Rightarrow> string \<Rightarrow> Request" where
  "announce_request e s dat path =
     \<lparr>request_method = ''ANNOUNCE'',
      request_uri = uri_encode_path ''rtsp''
        (env_show_address e (interface_address e s rank_primary) @ '':'' @ show_unsigned (env_rtsp_port e)) path,
      request_version_major = 1, request_version_minor = 0,
      request_headers = headers_set ''content-type'' ''application/sdp'' [], request_data = dat\<rparr>"

definition send_announce :: "environment \<Rightarrow> RavennaSender \<Rightarrow> RavennaSender option" where
  "send_announce e s =
     (if rtsp_path_by_name s = [] \<or> rtsp_path_by_id s = [] then Some s
      else if rs_interfaces s = [] then Some s
      else do {
        r \<leftarrow> generate_sdp e s;
        case r of
          Inl _ \<Rightarrow> Some s
        | Inr sdp \<Rightarrow> do {
            dat \<leftarrow> sdp_text sdp;
            Some (log_call (Send_to_path (rtsp_path_by_id s) (announce_request e s dat (rtsp_path_by_id s)))
              (log_call (Send_to_path (rtsp_path_by_name s) (announce_request e s dat (rtsp_path_by_name s))) s)) } })"

section \<open>Operations\<close>

definition no_configuration :: sender_configuration where
  "no_configuration = \<lparr>sc_session_name = [], sc_destinations = [], sc_ttl = 0, sc_payload_type = 0, sc_audio_format = audio_format_init,
     sc_packet_time = \<lparr>pt_numerator = 0, pt_denominator = 0\<rparr>, sc_enabled = False\<rparr>"

definition create_sender :: "environment \<Rightarrow> nat option \<Rightarrow> u64 \<Rightarrow> u32 \<Rightarrow> network_interface_config \<Rightarrow> RavennaSender" where
  "create_sender e advertiser i session interfaces =
     generate_auto_addresses_if_needed e False
       \<lparr>rs_id = i, rs_session_id = session,
        rs_configuration = no_configuration\<lparr>sc_destinations :=
          [\<lparr>dest_rank = rank_primary, dest_endpoint = (0, 5004), dest_enabled = True\<rparr>,
           \<lparr>dest_rank = rank_secondary, dest_endpoint = (0, 5004), dest_enabled = True\<rparr>]\<rparr>,
        rtsp_path_by_name = [], rtsp_path_by_id = [], rs_advertiser = advertiser, rs_advertisement = False,
        rs_clock_domain = 0, rs_grandmaster = replicate 8 0, rs_interfaces = interfaces, rs_calls = []\<rparr>"

text \<open>What a change of the configuration asks for.\<close>

record sender_changes =
  do_update_advertisement :: bool
  do_announce :: bool
  do_update_nmos :: bool
  do_restart_streaming :: bool
  do_update_ttl :: bool

definition determine_changes :: "sender_configuration \<Rightarrow> sender_configuration \<Rightarrow> bool \<Rightarrow> sender_changes" where
  "determine_changes old new no_interfaces =
     (let enabled = sc_enabled new \<noteq> sc_enabled old; name = sc_session_name new \<noteq> sc_session_name old;
          dests = sc_destinations new \<noteq> sc_destinations old; ttl = sc_ttl new \<noteq> sc_ttl old;
          payload = sc_payload_type new \<noteq> sc_payload_type old; fmt = sc_audio_format new \<noteq> sc_audio_format old;
          time = sc_packet_time new \<noteq> sc_packet_time old
      in \<lparr>do_update_advertisement = enabled \<or> name,
          do_announce = (enabled \<or> name \<or> dests \<or> ttl \<or> payload \<or> fmt \<or> time) \<and> \<not> no_interfaces,
          do_update_nmos = enabled \<or> name \<or> dests \<or> fmt,
          do_restart_streaming = enabled \<or> dests \<or> payload \<or> fmt \<or> time,
          do_update_ttl = ttl\<rparr>)"

definition apply_configuration :: "environment \<Rightarrow> sender_configuration \<Rightarrow> RavennaSender \<Rightarrow> RavennaSender" where
  "apply_configuration e c s =
     (let s1 = s\<lparr>rs_configuration := c\<rparr> in set_destinations (fst (generate_auto_addresses e s1 (sc_destinations c))) s1)"

definition sender_set_configuration ::
    "environment \<Rightarrow> sender_configuration \<Rightarrow> RavennaSender \<Rightarrow> ((string + unit) \<times> RavennaSender) option" where
  "sender_set_configuration e c s =
     (case validate_configuration c of
        Inl err \<Rightarrow> Some (Inl err, s)
      | Inr _ \<Rightarrow>
          let ch = determine_changes (rs_configuration s) c (rs_interfaces s = []);
              s1 = apply_configuration e c s
          in do {
            s2 \<leftarrow> (if do_restart_streaming ch then restart_streaming e s1
              else Some (if do_update_ttl ch then log_call (Set_writer_ttl (sc_ttl (rs_configuration s1))) s1 else s1));
            let s3 = (if do_update_advertisement ch then update_advertisement s2 else s2);
            let s4 = (if do_update_nmos ch then log_call Update_nmos s3 else s3);
            s5 \<leftarrow> (if do_announce ch \<and> sc_enabled (rs_configuration s4) then send_announce e s4 else Some s4);
            Some (Inr (), log_call (Configuration_updated (rs_configuration s5)) s5) })"

definition set_network_interface_config :: "environment \<Rightarrow> network_interface_config \<Rightarrow> RavennaSender \<Rightarrow> RavennaSender option" where
  "set_network_interface_config e c s =
     (if rs_interfaces s = c then Some s
      else map_option (log_call Update_nmos)
        (restart_streaming e (generate_auto_addresses_if_needed e True (s\<lparr>rs_interfaces := c\<rparr>))))"

definition set_advertiser :: "nat option \<Rightarrow> RavennaSender \<Rightarrow> RavennaSender" where
  "set_advertiser a s =
     (if rs_advertiser s = a then s
      else let s1 = (case rs_advertiser s of
                 Some old \<Rightarrow> (log_call (Withdraw old) s)\<lparr>rs_advertisement := False, rs_advertiser := None\<rparr>
               | None \<Rightarrow> s);
               s2 = s1\<lparr>rs_advertiser := a\<rparr>
           in if a \<noteq> None then update_advertisement s2 else s2)"

definition ptp_parent_changed :: "environment \<Rightarrow> clock_identity \<Rightarrow> RavennaSender \<Rightarrow> RavennaSender option" where
  "ptp_parent_changed e grandmaster s =
     (if rs_grandmaster s = grandmaster then Some s
      else let s1 = log_call Update_nmos (s\<lparr>rs_grandmaster := grandmaster\<rparr>)
           in if rtsp_path_by_name s1 \<noteq> [] then send_announce e s1 else Some s1)"

text \<open>The response to a request for one of its paths, whatever its method.\<close>

definition sender_on_request :: "environment \<Rightarrow> RavennaSender \<Rightarrow> Request \<Rightarrow> Response option" where
  "sender_on_request e s r =
     (let with_cseq = (\<lambda>resp. case headers_get (request_headers r) ''cseq'' of
            Some h \<Rightarrow> resp\<lparr>response_headers := headers_set_header h (response_headers resp)\<rparr>
          | None \<Rightarrow> resp)
      in Option.bind (generate_sdp e s) (\<lambda>sdp. case sdp of
           Inl _ \<Rightarrow> Some (with_cseq (make_response 204 ''No Content'' []))
         | Inr sd \<Rightarrow> map_option (\<lambda>t. let resp = with_cseq (make_response 200 ''OK'' t)
             in resp\<lparr>response_headers := headers_set ''content-type'' ''application/sdp'' (response_headers resp)\<rparr>) (sdp_text sd)))"

definition destroy_sender :: "RavennaSender \<Rightarrow> RavennaSender" where
  "destroy_sender s =
     (let s1 = log_call Remove_writer s;
          s2 = (if rs_advertisement s1
            then (case rs_advertiser s1 of Some a \<Rightarrow> log_call (Withdraw a) s1 | None \<Rightarrow> s1)\<lparr>rs_advertisement := False\<rparr> else s1)
      in log_call Unregister_paths s2)"

datatype sender_op =
    Configure sender_configuration
  | Set_interfaces network_interface_config
  | Set_advertiser "nat option"
  | Parent_changed clock_identity

text \<open>One operation; \<open>None\<close> where the conversion of the packet time is undefined or the printing of the description throws.\<close>

fun sender_op_step :: "environment \<Rightarrow> sender_op \<Rightarrow> RavennaSender \<Rightarrow> RavennaSender option" where
  "sender_op_step e (Configure c) s = map_option snd (sender_set_configuration e c s)"
| "sender_op_step e (Set_interfaces c) s = set_network_interface_config e c s"
| "sender_op_step e (Set_advertiser a) s = Some (set_advertiser a s)"
| "sender_op_step e (Parent_changed g) s = ptp_parent_changed e g s"

fun sender_op_run :: "environment \<Rightarrow> sender_op list \<Rightarrow> RavennaSender \<Rightarrow> RavennaSender option" where
  "sender_op_run e [] s = Some s"
| "sender_op_run e (x # xs) s = Option.bind (sender_op_step e x s) (sender_op_run e xs)"

section \<open>What the calls amount to\<close>

text \<open>The writer the audio sender has: it refuses a second one with the same identifier.\<close>

fun writer_call :: "sender_call \<Rightarrow> (writer_parameters \<times> u32 list) option \<Rightarrow> (writer_parameters \<times> u32 list) option" where
  "writer_call Remove_writer w = None"
| "writer_call (Add_writer p i) w = (case w of None \<Rightarrow> Some (p, i) | Some _ \<Rightarrow> w)"
| "writer_call (Set_writer_ttl t) w = map_option (\<lambda>(p, i). (p\<lparr>wp_ttl := t\<rparr>, i)) w"
| "writer_call _ w = w"

fun path_call :: "sender_call \<Rightarrow> string list \<Rightarrow> string list" where
  "path_call (Register_path p) ps = ps @ [p]"
| "path_call Unregister_paths ps = []"
| "path_call _ ps = ps"

fun advertise_call :: "sender_call \<Rightarrow> (nat \<times> string) option \<Rightarrow> (nat \<times> string) option" where
  "advertise_call (Advertise a n) v = Some (a, n)"
| "advertise_call (Withdraw a) v = None"
| "advertise_call _ v = v"

text \<open>The data of the last announcement.\<close>

fun announce_call :: "sender_call \<Rightarrow> string option \<Rightarrow> string option" where
  "announce_call (Send_to_path p r) d = Some (request_data r)"
| "announce_call _ d = d"

definition writer_after :: "sender_call list \<Rightarrow> (writer_parameters \<times> u32 list) option" where
  "writer_after cs = fold writer_call cs None"

definition paths_after :: "sender_call list \<Rightarrow> string list" where
  "paths_after cs = fold path_call cs []"

definition advertised_after :: "sender_call list \<Rightarrow> (nat \<times> string) option" where
  "advertised_after cs = fold advertise_call cs None"

definition announced_after :: "sender_call list \<Rightarrow> string option" where
  "announced_after cs = fold announce_call cs None"

lemma after_append [simp]:
  "writer_after (cs @ xs) = fold writer_call xs (writer_after cs)"
  "paths_after (cs @ xs) = fold path_call xs (paths_after cs)"
  "advertised_after (cs @ xs) = fold advertise_call xs (advertised_after cs)"
  "announced_after (cs @ xs) = fold announce_call xs (announced_after cs)"
  by (simp_all add: writer_after_def paths_after_def advertised_after_def announced_after_def)

lemma after_none [simp]: "writer_after [] = None" "paths_after [] = []" "advertised_after [] = None" "announced_after [] = None"
  by (simp_all add: writer_after_def paths_after_def advertised_after_def announced_after_def)

lemma log_call_fields [simp]:
  "rs_calls (log_call c s) = rs_calls s @ [c]" "rs_configuration (log_call c s) = rs_configuration s"
  "rs_interfaces (log_call c s) = rs_interfaces s" "rs_id (log_call c s) = rs_id s" "rs_session_id (log_call c s) = rs_session_id s"
  "rtsp_path_by_name (log_call c s) = rtsp_path_by_name s" "rtsp_path_by_id (log_call c s) = rtsp_path_by_id s"
  "rs_advertiser (log_call c s) = rs_advertiser s" "rs_advertisement (log_call c s) = rs_advertisement s"
  "rs_clock_domain (log_call c s) = rs_clock_domain s" "rs_grandmaster (log_call c s) = rs_grandmaster s"
  by (simp_all add: log_call_def)

lemma set_destinations_fields [simp]:
  "rs_calls (set_destinations ds s) = rs_calls s"
  "rs_configuration (set_destinations ds s) = (rs_configuration s)\<lparr>sc_destinations := ds\<rparr>"
  "rs_interfaces (set_destinations ds s) = rs_interfaces s" "rs_id (set_destinations ds s) = rs_id s"
  "rs_session_id (set_destinations ds s) = rs_session_id s"
  "rtsp_path_by_name (set_destinations ds s) = rtsp_path_by_name s" "rtsp_path_by_id (set_destinations ds s) = rtsp_path_by_id s"
  "rs_advertiser (set_destinations ds s) = rs_advertiser s" "rs_advertisement (set_destinations ds s) = rs_advertisement s"
  "rs_clock_domain (set_destinations ds s) = rs_clock_domain s" "rs_grandmaster (set_destinations ds s) = rs_grandmaster s"
  by (simp_all add: set_destinations_def)

section \<open>Active destinations\<close>

abbreviation active :: "sender_configuration \<Rightarrow> destination list" where
  "active c \<equiv> filter dest_enabled (sc_destinations c)"

definition addressed :: "sender_configuration \<Rightarrow> bool" where
  "addressed c \<longleftrightarrow> list_all (\<lambda>d. fst (dest_endpoint d) \<noteq> 0) (active c)"

lemma validate_destinations_active:
  "validate_destinations ds n = Inr m \<Longrightarrow> list_all (\<lambda>d. fst (dest_endpoint d) \<noteq> 0) (filter dest_enabled ds)"
  by (induction ds arbitrary: n) (auto simp: address_unspecified_def Let_def split: if_splits)

lemma validated: "validate_configuration c = Inr () \<Longrightarrow>
    sc_session_name c \<noteq> [] \<and> sc_destinations c \<noteq> [] \<and> (sc_enabled c \<longrightarrow> addressed c)"
  using validate_destinations_active [of "sc_destinations c" 0]
  by (auto simp: validate_configuration_def addressed_def split: if_splits sum.splits)

lemma generated_active:
  "list_all (\<lambda>d. fst (dest_endpoint d) \<noteq> 0) (filter dest_enabled ds) \<Longrightarrow>
   filter dest_enabled (fst (generate_auto_addresses e s ds)) = filter dest_enabled ds"
  by (induction ds) (auto simp: generate_auto_addresses_def generate_auto_address_def Let_def split: if_splits)

lemma generated_empty [simp]: "fst (generate_auto_addresses e s ds) = [] \<longleftrightarrow> ds = []"
  by (simp add: generate_auto_addresses_def)

lemma writer_destinations_active:
  "foldl (\<lambda>ds d. if dest_enabled d \<and> unat (dest_rank d) < length ds
       then ds[unat (dest_rank d) := dest_endpoint d] else ds) z ds =
   foldl (\<lambda>ds d. if dest_enabled d \<and> unat (dest_rank d) < length ds
       then ds[unat (dest_rank d) := dest_endpoint d] else ds) z (filter dest_enabled ds)"
  by (induction ds arbitrary: z) auto

lemma writer_parameters_active:
  "active c = active c' \<Longrightarrow> sc_audio_format c = sc_audio_format c' \<Longrightarrow> sc_payload_type c = sc_payload_type c' \<Longrightarrow>
   writer_parameters_of c frames = (writer_parameters_of c' frames)\<lparr>wp_ttl := sc_ttl c\<rparr>"
  using writer_destinations_active [of _ "sc_destinations c"] writer_destinations_active [of _ "sc_destinations c'"]
  by (simp add: writer_parameters_of_def)

section \<open>The other components follow the configuration\<close>

definition expected_writer :: "environment \<Rightarrow> RavennaSender \<Rightarrow> (writer_parameters \<times> u32 list) option" where
  "expected_writer e s =
     (if sc_enabled (rs_configuration s)
      then map_option (\<lambda>frames. (writer_parameters_of (rs_configuration s) frames,
             get_array_of_interface_addresses k_max_num_redundant_sessions (env_address_of e) (rs_interfaces s))) (get_framecount s)
      else None)"

definition expected_paths :: "RavennaSender \<Rightarrow> string list" where
  "expected_paths s =
     (if sc_enabled (rs_configuration s) then [by_name (sc_session_name (rs_configuration s)), by_id (rs_id s)] else [])"

definition expected_advertisement :: "RavennaSender \<Rightarrow> (nat \<times> string) option" where
  "expected_advertisement s =
     (if sc_enabled (rs_configuration s) then map_option (\<lambda>a. (a, sc_session_name (rs_configuration s))) (rs_advertiser s) else None)"

text \<open>The paths and the advertisement, with what the sender remembers of them.\<close>

definition sender_published :: "RavennaSender \<Rightarrow> bool" where
  "sender_published s \<longleftrightarrow>
     paths_after (rs_calls s) = expected_paths s \<and> advertised_after (rs_calls s) = expected_advertisement s \<and>
     rtsp_path_by_name s = (if sc_enabled (rs_configuration s) then by_name (sc_session_name (rs_configuration s)) else []) \<and>
     rtsp_path_by_id s = (if sc_enabled (rs_configuration s) then by_id (rs_id s) else []) \<and>
     (rs_advertisement s \<longleftrightarrow> sc_enabled (rs_configuration s) \<and> rs_advertiser s \<noteq> None)"

definition consistent :: "environment \<Rightarrow> RavennaSender \<Rightarrow> bool" where
  "consistent e s \<longleftrightarrow>
     writer_after (rs_calls s) = expected_writer e s \<and> sender_published s \<and>
     (sc_enabled (rs_configuration s) \<longrightarrow> addressed (rs_configuration s) \<and> sc_session_name (rs_configuration s) \<noteq> [] \<and>
       sc_destinations (rs_configuration s) \<noteq> [])"

lemma path_not_empty [simp]: "by_name n \<noteq> []" "by_id i \<noteq> []"
  by (simp_all add: by_name_def by_id_def)

lemma framecount_calls [simp]: "get_framecount (s\<lparr>rs_calls := cs\<rparr>) = get_framecount s" "get_framecount (log_call c s) = get_framecount s"
  by (simp_all add: get_framecount_def)

lemma expected_calls [simp]:
  "expected_writer e (s\<lparr>rs_calls := cs\<rparr>) = expected_writer e s" "expected_paths (s\<lparr>rs_calls := cs\<rparr>) = expected_paths s"
  "expected_advertisement (s\<lparr>rs_calls := cs\<rparr>) = expected_advertisement s"
  "expected_writer e (log_call c s) = expected_writer e s" "expected_paths (log_call c s) = expected_paths s"
  "expected_advertisement (log_call c s) = expected_advertisement s"
  by (simp_all add: expected_writer_def expected_paths_def expected_advertisement_def)

lemma log_call_calls: "log_call c s = s\<lparr>rs_calls := rs_calls s @ [c]\<rparr>"
  by (simp add: log_call_def)

lemma restart_streaming_calls:
  assumes "restart_streaming e s = Some s'"
  shows "s' = s\<lparr>rs_calls := rs_calls s'\<rparr>" "writer_after (rs_calls s') = expected_writer e s"
    "paths_after (rs_calls s') = paths_after (rs_calls s)" "advertised_after (rs_calls s') = advertised_after (rs_calls s)"
    "announced_after (rs_calls s') = announced_after (rs_calls s)"
  using assms by (auto simp: restart_streaming_def expected_writer_def Let_def log_call_calls split: if_splits)

lemma send_announce_cases:
  assumes "send_announce e s = Some s'"
  obtains "s' = s" "rtsp_path_by_name s = [] \<or> rtsp_path_by_id s = [] \<or> rs_interfaces s = [] \<or> (\<exists>x. generate_sdp e s = Some (Inl x))"
  | sd t where "generate_sdp e s = Some (Inr sd)" "sdp_text sd = Some t"
    "s' = s\<lparr>rs_calls := rs_calls s @ [Send_to_path (rtsp_path_by_name s) (announce_request e s t (rtsp_path_by_name s)),
       Send_to_path (rtsp_path_by_id s) (announce_request e s t (rtsp_path_by_id s))]\<rparr>"
proof (cases "rtsp_path_by_name s = [] \<or> rtsp_path_by_id s = [] \<or> rs_interfaces s = []")
  case True
  then have "send_announce e s = Some s" by (auto simp: send_announce_def)
  then have "s' = s" using assms by simp
  then show ?thesis using True by (intro that(1)) blast+
next
  case False
  then obtain r where r: "generate_sdp e s = Some r" using assms by (auto simp: send_announce_def bind_eq_Some_conv)
  show ?thesis
  proof (cases r)
    case (Inl x)
    then show ?thesis using assms r False that(1) by (simp add: send_announce_def)
  next
    case (Inr sd)
    then show ?thesis using assms r False that(2) by (auto simp: send_announce_def log_call_calls bind_eq_Some_conv)
  qed
qed

lemma send_announce_calls:
  assumes "send_announce e s = Some s'"
  shows "s' = s\<lparr>rs_calls := rs_calls s'\<rparr>" "writer_after (rs_calls s') = writer_after (rs_calls s)"
    "paths_after (rs_calls s') = paths_after (rs_calls s)" "advertised_after (rs_calls s') = advertised_after (rs_calls s)"
  by (rule send_announce_cases [OF assms]; simp)+

text \<open>What \<open>update_advertisement\<close> starts from.\<close>

definition sender_remembered :: "RavennaSender \<Rightarrow> bool" where
  "sender_remembered s \<longleftrightarrow>
     (paths_after (rs_calls s) = [] \<and> rtsp_path_by_name s = [] \<or> rtsp_path_by_id s \<noteq> []) \<and>
     (advertised_after (rs_calls s) = None \<and> \<not> rs_advertisement s \<or> rs_advertisement s \<and> rs_advertiser s \<noteq> None)"

lemma update_advertisement_published:
  assumes "sender_remembered s"
  shows "sender_published (update_advertisement s)"
  using assms
  by (auto simp: update_advertisement_def sender_remembered_def sender_published_def expected_paths_def expected_advertisement_def Let_def log_call_calls
      split: option.splits)

lemma update_advertisement_frame:
  assumes "s' = update_advertisement s"
  shows "s' = s\<lparr>rtsp_path_by_name := rtsp_path_by_name s', rtsp_path_by_id := rtsp_path_by_id s', rs_advertisement := rs_advertisement s',
      rs_calls := rs_calls s'\<rparr>"
    "writer_after (rs_calls s') = writer_after (rs_calls s)" "announced_after (rs_calls s') = announced_after (rs_calls s)"
  unfolding assms by (auto simp: update_advertisement_def Let_def log_call_calls split: option.splits)

text \<open>Calls that change none of the three.\<close>

definition same_views :: "RavennaSender \<Rightarrow> RavennaSender \<Rightarrow> bool" where
  "same_views s s' \<longleftrightarrow> s' = s\<lparr>rs_calls := rs_calls s'\<rparr> \<and> writer_after (rs_calls s') = writer_after (rs_calls s) \<and>
     paths_after (rs_calls s') = paths_after (rs_calls s) \<and> advertised_after (rs_calls s') = advertised_after (rs_calls s)"

lemma same_viewsE:
  assumes "same_views s s'"
  obtains cs where "s' = s\<lparr>rs_calls := cs\<rparr>" "writer_after cs = writer_after (rs_calls s)" "paths_after cs = paths_after (rs_calls s)"
    "advertised_after cs = advertised_after (rs_calls s)"
  using assms unfolding same_views_def by blast

lemma same_views_published: "same_views s s' \<Longrightarrow> sender_published s' = sender_published s"
  by (erule same_viewsE) (simp add: sender_published_def)

lemma same_views_consistent: "same_views s s' \<Longrightarrow> consistent e s' = consistent e s"
proof -
  assume v: "same_views s s'"
  note p = same_views_published [OF v]
  show ?thesis using v p by (elim same_viewsE) (simp add: consistent_def)
qed

lemma same_views_refl [simp]: "same_views s s"
  by (simp add: same_views_def)

lemma same_views_trans: "same_views a b \<Longrightarrow> same_views b c \<Longrightarrow> same_views a c"
  unfolding same_views_def by (metis RavennaSender.surjective RavennaSender.update_convs(11))

lemma same_views_log: "same_views s (log_call Update_nmos s)" "same_views s (log_call (Configuration_updated c) s)"
  by (simp_all add: same_views_def log_call_calls)

lemma same_views_announce: "send_announce e s = Some s' \<Longrightarrow> same_views s s'"
  using send_announce_calls by (simp add: same_views_def)

lemma published_remembered: "sender_published s \<Longrightarrow> sender_remembered s"
  by (auto simp: sender_published_def sender_remembered_def expected_paths_def expected_advertisement_def)

section \<open>Changing the configuration\<close>

lemma apply_configuration_fields:
  assumes "s1 = apply_configuration e c s"
  shows "rs_configuration s1 = c\<lparr>sc_destinations := sc_destinations (rs_configuration s1)\<rparr>"
    "s1 = s\<lparr>rs_configuration := rs_configuration s1\<rparr>"
    "addressed c \<Longrightarrow> active (rs_configuration s1) = active c"
    "sc_destinations (rs_configuration s1) = [] \<longleftrightarrow> sc_destinations c = []"
  unfolding assms by (simp_all add: apply_configuration_def set_destinations_def Let_def addressed_def generated_active)

text \<open>Without a restart the running writer is that of the new configuration once the time to live is set.\<close>

lemma writer_unchanged:
  assumes "consistent e s" "s1 = apply_configuration e c s" "sc_enabled c \<longrightarrow> addressed c"
    and "\<not> do_restart_streaming (determine_changes (rs_configuration s) c n)"
  shows "map_option (\<lambda>(p, i). (p\<lparr>wp_ttl := sc_ttl c\<rparr>, i)) (writer_after (rs_calls s)) = expected_writer e s1"
proof -
  note f = apply_configuration_fields [OF assms(2)]
  let ?o = "rs_configuration s" and ?c = "rs_configuration s1"
  have same: "sc_enabled c = sc_enabled ?o" "sc_destinations c = sc_destinations ?o" "sc_payload_type c = sc_payload_type ?o"
    "sc_audio_format c = sc_audio_format ?o" "sc_packet_time c = sc_packet_time ?o"
    using assms(4) by (simp_all add: determine_changes_def Let_def)
  have c: "sc_enabled ?c = sc_enabled c" "sc_ttl ?c = sc_ttl c" "sc_payload_type ?c = sc_payload_type c"
    "sc_audio_format ?c = sc_audio_format c" "sc_packet_time ?c = sc_packet_time c" by (subst f(1), simp)+
  show ?thesis
  proof (cases "sc_enabled c")
    case True
    have a: "active ?c = active ?o" using f(3) assms(3) True same(2) by simp
    have "writer_parameters_of ?c fr = (writer_parameters_of ?o fr)\<lparr>wp_ttl := sc_ttl ?c\<rparr>" for fr
      using a c same by (intro writer_parameters_active) simp_all
    moreover have "get_framecount s1 = get_framecount s" using c same by (simp add: get_framecount_def)
    moreover have "rs_interfaces s1 = rs_interfaces s" by (subst f(2)) simp
    ultimately show ?thesis using assms(1) True same c
      by (simp add: consistent_def expected_writer_def option.map_comp o_def)
  next
    case False
    then show ?thesis using assms(1) same c by (simp add: consistent_def expected_writer_def)
  qed
qed

lemma configurationE:
  assumes "sender_set_configuration e c s = Some (r, s')"
  obtains "s' = s" "validate_configuration c \<noteq> Inr ()"
  | ch s1 s2 s3 s5 where "validate_configuration c = Inr ()" "ch = determine_changes (rs_configuration s) c (rs_interfaces s = [])"
    "s1 = apply_configuration e c s"
    "if do_restart_streaming ch then restart_streaming e s1 = Some s2
     else s2 = (if do_update_ttl ch then log_call (Set_writer_ttl (sc_ttl (rs_configuration s1))) s1 else s1)"
    "s3 = (if do_update_advertisement ch then update_advertisement s2 else s2)"
    "if do_announce ch \<and> sc_enabled (rs_configuration s3)
     then send_announce e (if do_update_nmos ch then log_call Update_nmos s3 else s3) = Some s5
     else s5 = (if do_update_nmos ch then log_call Update_nmos s3 else s3)"
    "s' = log_call (Configuration_updated (rs_configuration s5)) s5"
proof (cases "validate_configuration c")
  case (Inl x)
  then show ?thesis using assms by (intro that(1)) (auto simp: sender_set_configuration_def)
next
  case (Inr u)
  then have v: "validate_configuration c = Inr ()" by simp
  define ch where "ch = determine_changes (rs_configuration s) c (rs_interfaces s = [])"
  define s1 where "s1 = apply_configuration e c s"
  obtain s2 where s2: "(if do_restart_streaming ch then restart_streaming e s1
      else Some (if do_update_ttl ch then log_call (Set_writer_ttl (sc_ttl (rs_configuration s1))) s1 else s1)) = Some s2"
    using assms v unfolding sender_set_configuration_def Let_def ch_def [symmetric] s1_def [symmetric] v sum.case bind_eq_Some_conv by blast
  define s3 where "s3 = (if do_update_advertisement ch then update_advertisement s2 else s2)"
  define s4 where "s4 = (if do_update_nmos ch then log_call Update_nmos s3 else s3)"
  have c4: "rs_configuration s4 = rs_configuration s3" by (simp add: s4_def)
  have "Option.bind (if do_announce ch \<and> sc_enabled (rs_configuration s4) then send_announce e s4 else Some s4)
      (\<lambda>s5. Some (Inr (), log_call (Configuration_updated (rs_configuration s5)) s5)) = Some (r, s')"
    using assms v unfolding sender_set_configuration_def Let_def ch_def [symmetric] s1_def [symmetric] v sum.case s2
      bind.bind_lunit s3_def [symmetric] s4_def [symmetric] by blast
  then obtain s5 where s5: "(if do_announce ch \<and> sc_enabled (rs_configuration s3) then send_announce e s4 else Some s4) = Some s5"
    and s': "s' = log_call (Configuration_updated (rs_configuration s5)) s5"
    unfolding bind_eq_Some_conv c4 by blast
  show ?thesis
  proof (rule that(2) [OF v ch_def s1_def _ s3_def _ s'])
    show "if do_restart_streaming ch then restart_streaming e s1 = Some s2
      else s2 = (if do_update_ttl ch then log_call (Set_writer_ttl (sc_ttl (rs_configuration s1))) s1 else s1)"
      using s2 by (simp split: if_splits)
    show "if do_announce ch \<and> sc_enabled (rs_configuration s3)
      then send_announce e (if do_update_nmos ch then log_call Update_nmos s3 else s3) = Some s5
      else s5 = (if do_update_nmos ch then log_call Update_nmos s3 else s3)"
      using s5 unfolding s4_def [symmetric] by (metis option.inject)
  qed
qed

lemma writer_step:
  assumes "consistent e s" "validate_configuration c = Inr ()" "ch = determine_changes (rs_configuration s) c n"
    and "s1 = apply_configuration e c s"
    and "if do_restart_streaming ch then restart_streaming e s1 = Some s2
     else s2 = (if do_update_ttl ch then log_call (Set_writer_ttl (sc_ttl (rs_configuration s1))) s1 else s1)"
  shows "s2 = s1\<lparr>rs_calls := rs_calls s2\<rparr>" "writer_after (rs_calls s2) = expected_writer e s2"
    "paths_after (rs_calls s2) = paths_after (rs_calls s)" "advertised_after (rs_calls s2) = advertised_after (rs_calls s)"
    "announced_after (rs_calls s2) = announced_after (rs_calls s)"
proof -
  note f = apply_configuration_fields [OF assms(4)]
  have calls: "rs_calls s1 = rs_calls s" by (subst f(2)) simp
  have "s2 = s1\<lparr>rs_calls := rs_calls s2\<rparr> \<and> writer_after (rs_calls s2) = expected_writer e s1 \<and>
    paths_after (rs_calls s2) = paths_after (rs_calls s) \<and> advertised_after (rs_calls s2) = advertised_after (rs_calls s) \<and>
    announced_after (rs_calls s2) = announced_after (rs_calls s)"
  proof (cases "do_restart_streaming ch")
    case True
    then show ?thesis using restart_streaming_calls [of e s1 s2] assms(5) calls by simp
  next
    case False
    have w: "map_option (\<lambda>(p, i). (p\<lparr>wp_ttl := sc_ttl c\<rparr>, i)) (writer_after (rs_calls s)) = expected_writer e s1"
      using validated [OF assms(2)] False assms(3) by (intro writer_unchanged [OF assms(1,4), of n]) simp_all
    have ttl: "sc_ttl (rs_configuration s1) = sc_ttl c" by (subst f(1)) simp
    show ?thesis
    proof (cases "do_update_ttl ch")
      case True
      then show ?thesis using False assms(5) w ttl calls by (simp add: log_call_calls)
    next
      case same: False
      then have "sc_ttl c = sc_ttl (rs_configuration s)" using assms(3) by (simp add: determine_changes_def Let_def)
      then have "map_option (\<lambda>(p, i). (p\<lparr>wp_ttl := sc_ttl c\<rparr>, i)) (writer_after (rs_calls s)) = writer_after (rs_calls s)"
        using assms(1) by (cases "get_framecount s") (simp_all add: consistent_def expected_writer_def writer_parameters_of_def)
      then show ?thesis using False same assms(5) w calls by simp
    qed
  qed
  moreover from this have "expected_writer e s2 = expected_writer e s1" by (metis expected_calls(1))
  ultimately show "s2 = s1\<lparr>rs_calls := rs_calls s2\<rparr>" "writer_after (rs_calls s2) = expected_writer e s2"
    "paths_after (rs_calls s2) = paths_after (rs_calls s)" "advertised_after (rs_calls s2) = advertised_after (rs_calls s)"
    "announced_after (rs_calls s2) = announced_after (rs_calls s)" by simp_all
qed

lemma set_configuration_consistent:
  assumes "consistent e s" "sender_set_configuration e c s = Some (r, s')"
  shows "consistent e s'"
  using assms(2)
proof (cases rule: configurationE)
  case 1
  then show ?thesis using assms(1) by simp
next
  case (2 ch s1 s2 s3 s5)
  note v = validated [OF 2(1)]
  note f = apply_configuration_fields [OF 2(3)]
  note w = writer_step [OF assms(1) 2(1-4)]
  have enabled: "sc_enabled (rs_configuration s1) = sc_enabled c" and name: "sc_session_name (rs_configuration s1) = sc_session_name c"
    by (subst f(1), simp)+
  have keep: "rtsp_path_by_name s1 = rtsp_path_by_name s" "rtsp_path_by_id s1 = rtsp_path_by_id s" "rs_id s1 = rs_id s"
    "rs_advertisement s1 = rs_advertisement s" "rs_advertiser s1 = rs_advertiser s" by (subst f(2), simp)+
  have s2: "rs_configuration s2 = rs_configuration s1" "rtsp_path_by_name s2 = rtsp_path_by_name s" "rtsp_path_by_id s2 = rtsp_path_by_id s"
    "rs_id s2 = rs_id s" "rs_advertisement s2 = rs_advertisement s" "rs_advertiser s2 = rs_advertiser s"
    by (subst w(1), simp add: keep)+
  have pub: "sender_published s" using assms(1) by (simp add: consistent_def)
  have s3: "sender_published s3 \<and> rs_configuration s3 = rs_configuration s1 \<and> writer_after (rs_calls s3) = expected_writer e s3"
  proof (cases "do_update_advertisement ch")
    case True
    have "sender_remembered s2" using published_remembered [OF pub] w(3,4) s2 by (simp add: sender_remembered_def)
    moreover note u = update_advertisement_frame [OF refl, of s2]
    moreover have "rs_configuration (update_advertisement s2) = rs_configuration s2" by (subst u(1)) simp
    moreover have "expected_writer e (update_advertisement s2) = expected_writer e s2"
      by (subst u(1)) (simp add: expected_writer_def get_framecount_def)
    ultimately show ?thesis using 2(5) True update_advertisement_published w(2) s2(1) by simp
  next
    case False
    then have "sc_enabled c = sc_enabled (rs_configuration s)" "sc_session_name c = sc_session_name (rs_configuration s)"
      using 2(2) by (simp_all add: determine_changes_def Let_def)
    then have "sender_published s2" using pub w(3,4) s2 enabled name
      by (simp add: sender_published_def expected_paths_def expected_advertisement_def)
    then show ?thesis using 2(5) False w(2) s2(1) by simp
  qed
  have "consistent e s3" using s3 v enabled name f(3,4) by (auto simp: consistent_def addressed_def)
  moreover have "same_views s3 s5"
  proof (rule same_views_trans)
    show "same_views s3 (if do_update_nmos ch then log_call Update_nmos s3 else s3)" by (simp add: same_views_log)
    show "same_views (if do_update_nmos ch then log_call Update_nmos s3 else s3) s5"
      using 2(6) same_views_announce by (cases "do_announce ch \<and> sc_enabled (rs_configuration s3)") simp_all
  qed
  ultimately show ?thesis using 2(7) same_views_consistent same_views_log(2) by blast
qed

lemma generated_frame:
  assumes "s' = generate_auto_addresses_if_needed e b s"
  shows "rs_configuration s' = (rs_configuration s)\<lparr>sc_destinations := sc_destinations (rs_configuration s')\<rparr>"
    "s' = s\<lparr>rs_configuration := rs_configuration s', rs_calls := rs_calls s'\<rparr>"
    "addressed (rs_configuration s) \<Longrightarrow> active (rs_configuration s') = active (rs_configuration s)"
    "sc_destinations (rs_configuration s') = [] \<longleftrightarrow> sc_destinations (rs_configuration s) = []"
    "paths_after (rs_calls s') = paths_after (rs_calls s)" "advertised_after (rs_calls s') = advertised_after (rs_calls s)"
    "announced_after (rs_calls s') = announced_after (rs_calls s)"
proof -
  have g: "s' = (if snd (generate_auto_addresses e s (sc_destinations (rs_configuration s))) \<and> b
      then log_call (Configuration_updated (rs_configuration (set_destinations (fst (generate_auto_addresses e s (sc_destinations
        (rs_configuration s)))) s))) (set_destinations (fst (generate_auto_addresses e s (sc_destinations (rs_configuration s)))) s)
      else set_destinations (fst (generate_auto_addresses e s (sc_destinations (rs_configuration s)))) s)"
    using assms by (simp add: generate_auto_addresses_if_needed_def Let_def split: prod.splits)
  show "rs_configuration s' = (rs_configuration s)\<lparr>sc_destinations := sc_destinations (rs_configuration s')\<rparr>"
    "s' = s\<lparr>rs_configuration := rs_configuration s', rs_calls := rs_calls s'\<rparr>"
    "sc_destinations (rs_configuration s') = [] \<longleftrightarrow> sc_destinations (rs_configuration s) = []"
    "paths_after (rs_calls s') = paths_after (rs_calls s)" "advertised_after (rs_calls s') = advertised_after (rs_calls s)"
    "announced_after (rs_calls s') = announced_after (rs_calls s)"
    unfolding g by (simp_all add: set_destinations_def log_call_def)
  show "addressed (rs_configuration s) \<Longrightarrow> active (rs_configuration s') = active (rs_configuration s)"
    unfolding g by (simp add: addressed_def generated_active)
qed

lemma set_interfaces_consistent:
  assumes "consistent e s" "set_network_interface_config e c s = Some s'"
  shows "consistent e s'"
proof (cases "rs_interfaces s = c")
  case False
  let ?s = "s\<lparr>rs_interfaces := c\<rparr>"
  define g where "g = generate_auto_addresses_if_needed e True ?s"
  obtain s2 where s2: "restart_streaming e g = Some s2" "s' = log_call Update_nmos s2"
    using assms(2) False by (auto simp: set_network_interface_config_def g_def)
  note f = generated_frame [OF g_def]
  note r = restart_streaming_calls [OF s2(1)]
  have c: "sc_enabled (rs_configuration g) = sc_enabled (rs_configuration s)"
    "sc_session_name (rs_configuration g) = sc_session_name (rs_configuration s)" by (subst f(1), simp)+
  have keep: "rtsp_path_by_name g = rtsp_path_by_name s" "rtsp_path_by_id g = rtsp_path_by_id s" "rs_id g = rs_id s"
    "rs_advertisement g = rs_advertisement s" "rs_advertiser g = rs_advertiser s" by (subst f(2), simp)+
  have "sender_published g" using assms(1) f(5,6) c keep
    by (simp add: consistent_def sender_published_def expected_paths_def expected_advertisement_def)
  moreover have "sc_enabled (rs_configuration g) \<longrightarrow> addressed (rs_configuration g) \<and> sc_session_name (rs_configuration g) \<noteq> [] \<and>
      sc_destinations (rs_configuration g) \<noteq> []"
    using assms(1) f(3,4) c by (simp add: consistent_def addressed_def)
  ultimately have "consistent e (g\<lparr>rs_calls := rs_calls s2\<rparr>)"
    using r(2-4) by (simp add: consistent_def sender_published_def)
  then have "consistent e s2" using r(1) by simp
  then show ?thesis using s2(2) same_views_consistent same_views_log(1) by blast
qed (use assms in \<open>simp add: set_network_interface_config_def\<close>)

lemma set_advertiser_consistent:
  assumes "consistent e s"
  shows "consistent e (set_advertiser a s)"
proof (cases "rs_advertiser s = a")
  case False
  define s1 where "s1 = (case rs_advertiser s of
      Some old \<Rightarrow> (log_call (Withdraw old) s)\<lparr>rs_advertisement := False, rs_advertiser := None\<rparr> | None \<Rightarrow> s)"
  define s2 where "s2 = s1\<lparr>rs_advertiser := a\<rparr>"
  have r: "set_advertiser a s = (if a \<noteq> None then update_advertisement s2 else s2)"
    using False by (simp add: set_advertiser_def s1_def s2_def Let_def)
  have pub: "sender_published s" using assms by (simp add: consistent_def)
  have s2: "s2 = s\<lparr>rs_advertisement := False, rs_advertiser := a, rs_calls := rs_calls s2\<rparr>"
    "writer_after (rs_calls s2) = writer_after (rs_calls s)" "paths_after (rs_calls s2) = paths_after (rs_calls s)"
    "advertised_after (rs_calls s2) = None"
    using pub by (auto simp: s2_def s1_def sender_published_def expected_advertisement_def log_call_calls split: option.splits)
  have c: "rs_configuration s2 = rs_configuration s" "rs_id s2 = rs_id s" "rs_advertisement s2 = False" "rs_advertiser s2 = a"
    "rtsp_path_by_name s2 = rtsp_path_by_name s" "rtsp_path_by_id s2 = rtsp_path_by_id s" by (subst s2(1), simp)+
  have w: "expected_writer e s2 = expected_writer e s" by (subst s2(1)) (simp add: expected_writer_def get_framecount_def)
  show ?thesis
  proof (cases a)
    case None
    have "sender_published s2" using pub s2 c None by (simp add: sender_published_def expected_paths_def expected_advertisement_def)
    then show ?thesis using r None assms s2 c w by (simp add: consistent_def)
  next
    case (Some b)
    have "sender_remembered s2" using published_remembered [OF pub] s2 c by (auto simp: sender_remembered_def)
    then have p: "sender_published (update_advertisement s2)" by (rule update_advertisement_published)
    note u = update_advertisement_frame [OF refl, of s2]
    have "rs_configuration (update_advertisement s2) = rs_configuration s" by (subst u(1)) (simp add: c)
    moreover have "expected_writer e (update_advertisement s2) = expected_writer e s2"
      by (subst u(1)) (simp add: expected_writer_def get_framecount_def)
    then have "expected_writer e (update_advertisement s2) = expected_writer e s" using w by simp
    ultimately show ?thesis using r Some assms p u(2) s2(2) by (simp add: consistent_def)
  qed
qed (use assms in \<open>simp add: set_advertiser_def\<close>)

lemma parent_changed_consistent:
  assumes "consistent e s" "ptp_parent_changed e g s = Some s'"
  shows "consistent e s'"
proof (cases "rs_grandmaster s = g")
  case False
  let ?s = "log_call Update_nmos (s\<lparr>rs_grandmaster := g\<rparr>)"
  have "consistent e (s\<lparr>rs_grandmaster := g\<rparr>)" using assms(1)
    by (simp add: consistent_def sender_published_def expected_writer_def expected_paths_def expected_advertisement_def get_framecount_def)
  then have c: "consistent e ?s" using same_views_consistent [OF same_views_log(1)] by blast
  have "same_views ?s s'" using assms(2) False same_views_announce [of e ?s s']
    by (cases "rtsp_path_by_name s = []") (simp_all add: ptp_parent_changed_def)
  then show ?thesis using c same_views_consistent by blast
qed (use assms in \<open>simp add: ptp_parent_changed_def\<close>)

lemma sender_op_consistent [inv_intros]: "consistent e s \<Longrightarrow> sender_op_step e x s = Some s' \<Longrightarrow> consistent e s'"
  by (cases x) (auto intro: set_configuration_consistent set_interfaces_consistent set_advertiser_consistent parent_changed_consistent)

lemma create_sender_consistent: "consistent e (create_sender e a i n c)"
  by (simp add: create_sender_def generate_auto_addresses_if_needed_def consistent_def sender_published_def expected_writer_def expected_paths_def
      expected_advertisement_def no_configuration_def split: prod.splits)

lemma sender_run_consistent: "consistent e s \<Longrightarrow> sender_op_run e xs s = Some s' \<Longrightarrow> consistent e s'"
  by (induction xs arbitrary: s) (auto simp: bind_eq_Some_conv intro: sender_op_consistent)

section \<open>What is announced\<close>

definition announced_current :: "environment \<Rightarrow> RavennaSender \<Rightarrow> bool" where
  "announced_current e s \<longleftrightarrow>
     (sc_enabled (rs_configuration s) \<and> rs_interfaces s \<noteq> [] \<longrightarrow>
       (\<forall>sd. generate_sdp e s = Some (Inr sd) \<longrightarrow> (\<exists>text. sdp_text sd = Some text \<and> announced_after (rs_calls s) = Some text)))"

text \<open>What the description depends on.\<close>

lemma generate_sdp_cong:
  assumes "active (rs_configuration s) = active (rs_configuration s')"
    "sc_destinations (rs_configuration s) = [] \<longleftrightarrow> sc_destinations (rs_configuration s') = []"
    "sc_session_name (rs_configuration s) = sc_session_name (rs_configuration s')"
    "sc_audio_format (rs_configuration s) = sc_audio_format (rs_configuration s')"
    "sc_packet_time (rs_configuration s) = sc_packet_time (rs_configuration s')"
    "rs_session_id s = rs_session_id s'" "rs_interfaces s = rs_interfaces s'" "rs_clock_domain s = rs_clock_domain s'"
    "rs_grandmaster s = rs_grandmaster s'"
  shows "generate_sdp e s = generate_sdp e s'"
proof -
  have eqs: "interface_address e s = interface_address e s'" "sender_reference_clock s = sender_reference_clock s'"
    "get_signaled_ptime s = get_signaled_ptime s'" "get_framecount s = get_framecount s'"
    using assms by (auto simp: interface_address_def sender_reference_clock_def get_signaled_ptime_def get_framecount_def)
  have media: "media_of_destination e s = media_of_destination e s'"
    using assms eqs by (intro ext) (simp add: media_of_destination_def)
  show ?thesis unfolding generate_sdp_def Let_def assms eqs media by (rule refl)
qed

lemma generate_sdp_calls [simp]: "generate_sdp e (s\<lparr>rs_calls := cs\<rparr>) = generate_sdp e s"
  by (rule generate_sdp_cong) simp_all

lemma announce_makes_current:
  assumes "send_announce e s = Some s'" "rtsp_path_by_name s \<noteq> []" "rtsp_path_by_id s \<noteq> []"
  shows "announced_current e s'"
  using assms by (auto elim!: send_announce_cases simp: announced_current_def announce_request_def)

lemma announced_log [simp]: "announced_current e (log_call Update_nmos s) = announced_current e s"
  "announced_current e (log_call (Configuration_updated c) s) = announced_current e s"
  by (simp_all add: announced_current_def log_call_calls)

lemma announced_frame:
  assumes "announced_current e s" "sc_enabled (rs_configuration s') \<longrightarrow> sc_enabled (rs_configuration s)" "rs_interfaces s' = rs_interfaces s"
    and "sc_enabled (rs_configuration s') \<longrightarrow> generate_sdp e s' = generate_sdp e s"
    and "announced_after (rs_calls s') = announced_after (rs_calls s)"
  shows "announced_current e s'"
  using assms unfolding announced_current_def by metis

lemma set_configuration_announced:
  assumes "consistent e s" "announced_current e s" "sender_set_configuration e c s = Some (r, s')"
  shows "announced_current e s'"
  using assms(3)
proof (cases rule: configurationE)
  case 1
  then show ?thesis using assms(2) by simp
next
  case (2 ch s1 s2 s3 s5)
  note v = validated [OF 2(1)]
  note f = apply_configuration_fields [OF 2(3)]
  note w = writer_step [OF assms(1) 2(1-4)]
  have c1: "sc_enabled (rs_configuration s1) = sc_enabled c" "sc_session_name (rs_configuration s1) = sc_session_name c"
    "sc_audio_format (rs_configuration s1) = sc_audio_format c" "sc_packet_time (rs_configuration s1) = sc_packet_time c"
    by (subst f(1), simp)+
  have k1: "rs_interfaces s1 = rs_interfaces s" "rs_session_id s1 = rs_session_id s" "rs_clock_domain s1 = rs_clock_domain s"
    "rs_grandmaster s1 = rs_grandmaster s" "rs_id s1 = rs_id s" by (subst f(2), simp)+
  have k2: "rs_configuration s2 = rs_configuration s1" "rs_interfaces s2 = rs_interfaces s" "rs_session_id s2 = rs_session_id s"
    "rs_clock_domain s2 = rs_clock_domain s" "rs_grandmaster s2 = rs_grandmaster s" by (subst w(1), simp add: k1)+
  note u = update_advertisement_frame [OF refl, of s2]
  have ku: "rs_configuration (update_advertisement s2) = rs_configuration s2" "rs_interfaces (update_advertisement s2) = rs_interfaces s2"
    "rs_session_id (update_advertisement s2) = rs_session_id s2" "rs_clock_domain (update_advertisement s2) = rs_clock_domain s2"
    "rs_grandmaster (update_advertisement s2) = rs_grandmaster s2" by (subst u(1), simp)+
  have k3: "rs_configuration s3 = rs_configuration s1" "rs_interfaces s3 = rs_interfaces s" "rs_session_id s3 = rs_session_id s"
    "rs_clock_domain s3 = rs_clock_domain s" "rs_grandmaster s3 = rs_grandmaster s"
    "announced_after (rs_calls s3) = announced_after (rs_calls s)"
    using 2(5) k2 ku u(3) w(5) by simp_all
  define s4 where "s4 = (if do_update_nmos ch then log_call Update_nmos s3 else s3)"
  have s4: "announced_current e s4 = announced_current e s3" "rtsp_path_by_name s4 = rtsp_path_by_name s3"
    "rtsp_path_by_id s4 = rtsp_path_by_id s3" by (simp_all add: s4_def)
  have "announced_current e s5"
  proof (cases "do_announce ch \<and> sc_enabled (rs_configuration s3)")
    case True
    have a: "send_announce e s4 = Some s5" using 2(6) True unfolding s4_def by simp
    have "consistent e s'" by (rule set_configuration_consistent [OF assms(1,3)])
    then have "sender_published s5" using 2(7) same_views_published [OF same_views_log(2)] by (simp add: consistent_def)
    moreover have "rs_configuration s5 = rs_configuration s4" "rtsp_path_by_name s5 = rtsp_path_by_name s4" "rtsp_path_by_id s5 = rtsp_path_by_id s4"
      by (subst send_announce_calls(1) [OF a], simp)+
    ultimately have "rtsp_path_by_name s4 \<noteq> []" "rtsp_path_by_id s4 \<noteq> []" using True by (simp_all add: sender_published_def s4_def)
    then show ?thesis by (rule announce_makes_current [OF a])
  next
    case False
    have s5: "s5 = s4" using 2(6) False unfolding s4_def by auto
    show ?thesis
    proof (cases "sc_enabled (rs_configuration s3) \<and> rs_interfaces s3 \<noteq> []")
      case True
      then have "\<not> do_announce ch" "rs_interfaces s \<noteq> []" using False k3(2) by auto
      then have same: "sc_enabled c = sc_enabled (rs_configuration s)" "sc_session_name c = sc_session_name (rs_configuration s)"
        "sc_destinations c = sc_destinations (rs_configuration s)" "sc_audio_format c = sc_audio_format (rs_configuration s)"
        "sc_packet_time c = sc_packet_time (rs_configuration s)"
        using 2(2) by (simp_all add: determine_changes_def Let_def)
      have "addressed c" using v True k3(1) c1(1) by simp
      then have "generate_sdp e s3 = generate_sdp e s" using f(3,4) same k3 c1 by (intro generate_sdp_cong) simp_all
      then have "announced_current e s3" using True assms(2) k3 c1 same by (intro announced_frame [OF assms(2)]) simp_all
      then show ?thesis using s5 s4(1) by simp
    next
      case False
      then have "announced_current e s3" by (auto simp: announced_current_def)
      then show ?thesis using s5 s4(1) by simp
    qed
  qed
  then show ?thesis using 2(7) by simp
qed

lemma set_advertiser_frame:
  assumes "s' = set_advertiser a s"
  shows "rs_configuration s' = rs_configuration s" "rs_interfaces s' = rs_interfaces s" "rs_session_id s' = rs_session_id s"
    "rs_clock_domain s' = rs_clock_domain s" "rs_grandmaster s' = rs_grandmaster s"
    "announced_after (rs_calls s') = announced_after (rs_calls s)"
  unfolding assms by (auto simp: set_advertiser_def update_advertisement_def Let_def log_call_calls split: option.splits)

lemma sender_op_announced [inv_intros]:
  assumes "consistent e s" "announced_current e s" "sender_op_step e x s = Some s'" "\<And>c. x \<noteq> Set_interfaces c"
  shows "announced_current e s'"
proof (cases x)
  case (Configure c)
  then show ?thesis using assms set_configuration_announced by auto
next
  case (Set_interfaces c)
  then show ?thesis using assms(4) by simp
next
  case (Set_advertiser a)
  then have s': "s' = set_advertiser a s" using assms(3) by simp
  note f = set_advertiser_frame [OF s']
  have "generate_sdp e s' = generate_sdp e s" using f by (intro generate_sdp_cong) simp_all
  then show ?thesis using f by (intro announced_frame [OF assms(2)]) simp_all
next
  case (Parent_changed g)
  let ?s = "log_call Update_nmos (s\<lparr>rs_grandmaster := g\<rparr>)"
  show ?thesis
  proof (cases "rs_grandmaster s = g \<or> \<not> sc_enabled (rs_configuration s)")
    case True
    then consider "s' = s" | "s' = ?s" "\<not> sc_enabled (rs_configuration s)"
      using Parent_changed assms(1,3) by (auto simp: ptp_parent_changed_def consistent_def sender_published_def split: if_splits)
    then show ?thesis using assms(2) by cases (auto simp: announced_current_def)
  next
    case False
    then have "rtsp_path_by_name s \<noteq> []" "rtsp_path_by_id s \<noteq> []" using assms(1) by (simp_all add: consistent_def sender_published_def)
    moreover have "send_announce e ?s = Some s'" using Parent_changed assms(3) False calculation by (simp add: ptp_parent_changed_def)
    ultimately show ?thesis using announce_makes_current [of e ?s s'] by simp
  qed
qed

lemma sender_run_announced:
  "consistent e s \<Longrightarrow> announced_current e s \<Longrightarrow> sender_op_run e xs s = Some s' \<Longrightarrow>
   list_all (\<lambda>x. \<forall>c. x \<noteq> Set_interfaces c) xs \<Longrightarrow> announced_current e s'"
  by (induction xs arbitrary: s) (auto simp: bind_eq_Some_conv intro: sender_op_announced sender_op_consistent)

lemma create_sender_announced: "announced_current e (create_sender e a i n c)"
  by (simp add: create_sender_def generate_auto_addresses_if_needed_def announced_current_def no_configuration_def split: prod.splits)

text \<open>A change of the interfaces is not announced, although addresses in the description come from them.\<close>

lemma interfaces_not_announced:
  assumes "set_network_interface_config e c s = Some s'"
  shows "announced_after (rs_calls s') = announced_after (rs_calls s)"
proof (cases "rs_interfaces s = c")
  case False
  then obtain s2 where s2: "restart_streaming e (generate_auto_addresses_if_needed e True (s\<lparr>rs_interfaces := c\<rparr>)) = Some s2"
    "s' = log_call Update_nmos s2" using assms by (auto simp: set_network_interface_config_def)
  then show ?thesis using restart_streaming_calls(5) [OF s2(1)] generated_frame(7) [OF refl, of e True "s\<lparr>rs_interfaces := c\<rparr>"] by simp
qed (use assms in \<open>simp add: set_network_interface_config_def\<close>)

end
