(* ===== verification/Ravenna_Receiver.thy ===== *)
theory Ravenna_Receiver
  imports Sdp_Session Rtp_Receiver Packet_Time Network_Config
begin

text \<open>
  \<open>RavennaReceiver\<close> (ravenna/ravenna_receiver.hpp and .cpp): which streams a session description asks for, and what a
  configuration asks of the audio receiver, the RTSP client and the subscribers; these calls are recorded in order in \<open>rr_calls\<close>.
  The parser of addresses is Boost's, a parameter; a failure of the RTSP client or of the NMOS node is an argument. Undefined
  behaviour (a packet time whose frames do not fit) is \<open>None\<close>, an exception an error value.
  Shown: the audio receiver has the reader of the current parameters, and the description of a single stream with a media
  identification but without a group is refused.
\<close>

section \<open>Streams\<close>

datatype stream_error = Format_not_found | No_connection_info | No_framecount | Bad_address | Stream_throws

definition is_connection_info_valid :: "connection_info_field \<Rightarrow> bool" where
  "is_connection_info_valid c \<longleftrightarrow>
     ci_network_type c = Netw_internet \<and> (ci_address_type c = Addr_ipv4 \<or> ci_address_type c = Addr_ipv6) \<and>
     (case ci_number_of_addresses c of None \<Rightarrow> True | Some n \<Rightarrow> \<not> 1 < n)"

text \<open>The last valid one of the media, else that of the session.\<close>

definition select_connection_info :: "media_description \<Rightarrow> session_description \<Rightarrow> connection_info_field option" where
  "select_connection_info m sd =
     (case find is_connection_info_valid (rev (md_connection_infos m)) of
        Some c \<Rightarrow> Some c
      | None \<Rightarrow> (case sd_connection_info sd of
          Some c \<Rightarrow> if is_connection_info_valid c then Some c else None
        | None \<Rightarrow> None))"

text \<open>The value of a text as a \<open>float\<close>.\<close>

fun float_of_text :: "float_value \<Rightarrow> float_value" where
  "float_of_text (Finite x) = to_float x"
| "float_of_text v = v"

definition stream_frames :: "media_description \<Rightarrow> u32 \<Rightarrow> (stream_error + u16) option" where
  "stream_frames m rate = do {
     frames \<leftarrow> (case md_ptime m of None \<Rightarrow> Some 0 | Some v \<Rightarrow> ptime_framecount (float_of_text v) rate);
     Some (if frames \<noteq> 0 then Inr frames
       else case md_framecount m of None \<Rightarrow> Inl No_framecount | Some n \<Rightarrow> Inr n) }"

text \<open>\<open>make_address\<close> with an error code for the connection address, without one (so that it throws) for the source filters.\<close>

definition create_stream_from_media_description ::
    "(string \<Rightarrow> address option) \<Rightarrow> media_description \<Rightarrow> session_description \<Rightarrow> audio_format \<Rightarrow> (stream_error + stream_info) option" where
  "create_stream_from_media_description make_address m sd fmt =
     (if \<not> list_ex (\<lambda>f. audio_format_of_format f = Some fmt) (md_formats m) then Some (Inl Format_not_found)
      else case select_connection_info m sd of
        None \<Rightarrow> Some (Inl No_connection_info)
      | Some c \<Rightarrow> do {
          frames \<leftarrow> stream_frames m (af_sample_rate fmt);
          Some (case frames of
            Inl e \<Rightarrow> Inl e
          | Inr n \<Rightarrow>
              (case make_address (ci_address c) of
                 None \<Rightarrow> Inl Bad_address
               | Some a \<Rightarrow>
                   let flt = \<lparr>rf_connection_address = a, rf_filters = []\<rparr>;
                       sources = (if md_source_filters m \<noteq> [] then md_source_filters m else sd_source_filters sd)
                   in case add_source_filters make_address sources flt of
                        None \<Rightarrow> Inl Stream_throws
                      | Some (k, flt') \<Rightarrow>
                          Inr \<lparr>si_session = \<lparr>connection_address = a, rtp_port = md_port m, rtcp_port = md_port m + 1\<rparr>,
                               si_filter = flt', si_packet_time_frames = n\<rparr>)) })"

definition find_media_description_by_mid :: "session_description \<Rightarrow> string \<Rightarrow> media_description option" where
  "find_media_description_by_mid sd mid = find (\<lambda>m. md_mid m = Some mid) (sd_media_descriptions sd)"

definition stream_info_init :: stream_info where
  "stream_info_init = \<lparr>si_session = session_init, si_filter = rtp_filter_init, si_packet_time_frames = 0\<rparr>"

definition reader_parameters_init :: reader_parameters where
  "reader_parameters_init =
     \<lparr>rp_audio_format = audio_format_init, rp_streams = replicate k_max_num_redundant_sessions stream_info_init\<rparr>"

section \<open>Parameters of a description\<close>

datatype parameter_error = No_suitable_media | Parameters_throw

definition select_audio_format :: "media_description \<Rightarrow> audio_format option" where
  "select_audio_format m = Option.bind (find (\<lambda>f. audio_format_of_format f \<noteq> None) (md_formats m)) audio_format_of_format"

text \<open>The streams of the other tags of the group, from the index on.\<close>

fun add_duplicates ::
    "(string \<Rightarrow> address option) \<Rightarrow> session_description \<Rightarrow> audio_format \<Rightarrow> string list \<Rightarrow> nat \<Rightarrow> stream_info list \<Rightarrow>
     (parameter_error + stream_info list) option" where
  "add_duplicates make_address sd fmt [] i streams = Some (Inr streams)"
| "add_duplicates make_address sd fmt (tag # tags) i streams =
     (case find_media_description_by_mid sd tag of
        None \<Rightarrow> add_duplicates make_address sd fmt tags i streams
      | Some m \<Rightarrow> Option.bind (create_stream_from_media_description make_address m sd fmt) (\<lambda>r. case r of
          Inl e \<Rightarrow> if e = Stream_throws then Some (Inl Parameters_throw) else add_duplicates make_address sd fmt tags i streams
        | Inr d \<Rightarrow> if i = length streams then Some (Inr streams)
            else add_duplicates make_address sd fmt tags (i + 1) (streams[i := d])))"

text \<open>The loop over the media descriptions. The three \<open>break\<close>s in the branch of a media identification leave this loop.\<close>

fun create_parameters_loop ::
    "(string \<Rightarrow> address option) \<Rightarrow> session_description \<Rightarrow> media_description list \<Rightarrow> (parameter_error + reader_parameters) option" where
  "create_parameters_loop make_address sd [] = Some (Inl No_suitable_media)"
| "create_parameters_loop make_address sd (m # ms) =
     (if md_media_type m \<noteq> ''audio'' \<or> md_protocol m \<noteq> ''RTP/AVP'' then create_parameters_loop make_address sd ms
      else case select_audio_format m of
        None \<Rightarrow> create_parameters_loop make_address sd ms
      | Some fmt \<Rightarrow> Option.bind (create_stream_from_media_description make_address m sd fmt) (\<lambda>r. case r of
          Inl e \<Rightarrow> if e = Stream_throws then Some (Inl Parameters_throw) else create_parameters_loop make_address sd ms
        | Inr stream \<Rightarrow>
            let streams = (replicate k_max_num_redundant_sessions stream_info_init)[0 := stream]
            in case md_mid m of
                 None \<Rightarrow> Some (Inr \<lparr>rp_audio_format = fmt, rp_streams = streams\<rparr>)
               | Some mid \<Rightarrow>
                   (case sd_group sd of
                      None \<Rightarrow> Some (Inl No_suitable_media)
                    | Some g \<Rightarrow>
                        if grp_type g \<noteq> Group_dup then Some (Inl No_suitable_media)
                        else if mid \<notin> set (grp_tags g) then Some (Inl No_suitable_media)
                        else map_option (map_sum id (\<lambda>ss. \<lparr>rp_audio_format = fmt, rp_streams = ss\<rparr>))
                          (add_duplicates make_address sd fmt (filter (\<lambda>t. t \<noteq> mid) (grp_tags g)) 1 streams))))"

definition create_rtp_receiver_parameters ::
    "(string \<Rightarrow> address option) \<Rightarrow> session_description \<Rightarrow> (parameter_error + reader_parameters) option" where
  "create_rtp_receiver_parameters make_address sd = create_parameters_loop make_address sd (sd_media_descriptions sd)"

section \<open>The receiver\<close>

record receiver_configuration =
  cfg_sdp :: session_description
  cfg_session_name :: string
  cfg_delay_frames :: u32
  cfg_enabled :: bool
  cfg_auto_update_sdp :: bool

datatype receiver_call =
    Remove_reader
  | Add_reader reader_parameters "u32 list"
  | Unsubscribe_all
  | Subscribe_session string
  | Update_nmos_receiver
  | Parameters_updated reader_parameters
  | Receiver_updated receiver_configuration

record RavennaReceiver =
  rr_configuration :: receiver_configuration
  rr_parameters :: reader_parameters
  rr_interfaces :: network_interface_config
  rr_stream_states :: "stream_state list"
  rr_calls :: "receiver_call list"

text \<open>What the RTSP client knows already is announced while subscribing.\<close>

record receiver_environment =
  renv_make_address :: "string \<Rightarrow> address option"
  renv_address_of :: "string \<Rightarrow> u32"
  renv_known :: "string \<Rightarrow> session_description option"
  renv_subscribe_ok :: bool
  renv_nmos_ok :: bool

definition receiver_log :: "receiver_call \<Rightarrow> RavennaReceiver \<Rightarrow> RavennaReceiver" where
  "receiver_log c s = s\<lparr>rr_calls := rr_calls s @ [c]\<rparr>"

definition create_receiver :: "network_interface_config \<Rightarrow> RavennaReceiver" where
  "create_receiver interfaces =
     \<lparr>rr_configuration = \<lparr>cfg_sdp = session_description_init, cfg_session_name = [], cfg_delay_frames = 0, cfg_enabled = False,
        cfg_auto_update_sdp = True\<rparr>,
      rr_parameters = reader_parameters_init, rr_interfaces = interfaces,
      rr_stream_states = replicate k_max_num_redundant_sessions Inactive, rr_calls = []\<rparr>"

text \<open>
  \<open>set_configuration\<close> up to the RTSP subscription. The inner option is \<open>None\<close> when an exception escapes: then the new configuration
  is stored and nothing else has happened. Else it holds whether the NMOS node and the subscription have to be updated.
\<close>

definition apply_parameters ::
    "receiver_environment \<Rightarrow> receiver_configuration \<Rightarrow> bool \<Rightarrow> reader_parameters \<Rightarrow> RavennaReceiver \<Rightarrow> RavennaReceiver" where
  "apply_parameters e c enabled new s =
     (let changed = rr_parameters s \<noteq> new;
          s2 = s\<lparr>rr_parameters := new\<rparr>;
          s3 = (if changed then receiver_log (Parameters_updated new) s2 else s2);
          s4 = (if enabled \<or> changed
            then let s = receiver_log Remove_reader s3
                 in if reader_parameters_valid new \<and> cfg_enabled c
                    then receiver_log (Add_reader new
                      (get_array_of_interface_addresses k_max_num_redundant_sessions (renv_address_of e) (rr_interfaces s))) s
                    else s
            else s3);
          s5 = (if \<not> cfg_auto_update_sdp c
            then s4\<lparr>rr_configuration := c\<lparr>cfg_session_name := sd_session_name (cfg_sdp c)\<rparr>\<rparr> else s4)
      in receiver_log (Receiver_updated (rr_configuration s5)) s5)"

definition configure_streams ::
    "receiver_environment \<Rightarrow> receiver_configuration \<Rightarrow> RavennaReceiver \<Rightarrow> ((bool \<times> bool) option \<times> RavennaReceiver) option" where
  "configure_streams e c s =
     (let old = rr_configuration s;
          enabled = cfg_enabled c \<noteq> cfg_enabled old; name = cfg_session_name c \<noteq> cfg_session_name old;
          auto_update = cfg_auto_update_sdp c \<noteq> cfg_auto_update_sdp old;
          s1 = s\<lparr>rr_configuration := c\<rparr>
      in Option.bind (create_rtp_receiver_parameters (renv_make_address e) (cfg_sdp c)) (\<lambda>r.
        if r = Inl Parameters_throw then Some (None, s1)
        else let new = (case r of Inr p \<Rightarrow> p | Inl _ \<Rightarrow> reader_parameters_init)
             in Some (Some (enabled \<or> name \<or> rr_parameters s1 \<noteq> new, enabled \<or> name \<or> auto_update),
                  apply_parameters e c enabled new s1)))"

text \<open>\<open>handle_announced_sdp\<close>: the exception is caught, the results are ignored, and the subscription stays.\<close>

definition handle_announced_sdp :: "receiver_environment \<Rightarrow> session_description \<Rightarrow> RavennaReceiver \<Rightarrow> RavennaReceiver option" where
  "handle_announced_sdp e sd s =
     (if \<not> cfg_auto_update_sdp (rr_configuration s) \<or> cfg_session_name (rr_configuration s) = [] then Some s
      else map_option (\<lambda>(r, s'). case r of Some (nmos, _) \<Rightarrow> if nmos then receiver_log Update_nmos_receiver s' else s' | None \<Rightarrow> s')
        (configure_streams e ((rr_configuration s)\<lparr>cfg_sdp := sd\<rparr>) s))"

definition update_rtsp :: "receiver_environment \<Rightarrow> RavennaReceiver \<Rightarrow> (bool \<times> RavennaReceiver) option" where
  "update_rtsp e s =
     (let s1 = receiver_log Unsubscribe_all s; c = rr_configuration s1
      in if cfg_enabled c \<and> cfg_auto_update_sdp c
         then let s2 = receiver_log (Subscribe_session (cfg_session_name c)) s1
              in if \<not> renv_subscribe_ok e then Some (False, s2)
                 else case renv_known e (cfg_session_name c) of
                   None \<Rightarrow> Some (True, s2)
                 | Some sd \<Rightarrow> map_option (Pair True) (handle_announced_sdp e sd s2)
         else Some (True, s1))"

definition update_receiver_nmos :: "receiver_environment \<Rightarrow> RavennaReceiver \<Rightarrow> (string + unit) \<times> RavennaReceiver" where
  "update_receiver_nmos e s =
     (if renv_nmos_ok e then Inr () else Inl ''Failed to update NMOS receiver'', receiver_log Update_nmos_receiver s)"

text \<open>The result is \<open>None\<close> when an exception escapes.\<close>

definition receiver_set_configuration ::
    "receiver_environment \<Rightarrow> receiver_configuration \<Rightarrow> RavennaReceiver \<Rightarrow> ((string + unit) option \<times> RavennaReceiver) option" where
  "receiver_set_configuration e c s =
     (if cfg_auto_update_sdp c \<and> cfg_session_name c = []
      then Some (Some (Inl ''Session name must not be empty when auto_update_sdp is true''), s)
      else Option.bind (configure_streams e c s) (\<lambda>(r, s1). case r of
        None \<Rightarrow> Some (None, s1)
      | Some (nmos, rtsp) \<Rightarrow> do {
          (ok, s2) \<leftarrow> (if rtsp then update_rtsp e s1 else Some (True, s1));
          Some (if \<not> ok then (Some (Inl ''Failed to subscribe to session''), s2)
            else if nmos then map_prod Some id (update_receiver_nmos e s2) else (Some (Inr ()), s2)) }))"

definition receiver_set_interfaces :: "network_interface_config \<Rightarrow> RavennaReceiver \<Rightarrow> RavennaReceiver" where
  "receiver_set_interfaces c s =
     (if rr_interfaces s = c then s else receiver_log Update_nmos_receiver (s\<lparr>rr_interfaces := c\<rparr>))"

text \<open>What a new subscriber is told of the streams: it asks for the state of stream 0 each time.\<close>

definition receiver_subscribe :: "(nat \<Rightarrow> stream_state option) \<Rightarrow> RavennaReceiver \<Rightarrow> (stream_info \<times> stream_state) list" where
  "receiver_subscribe state_of_stream s =
     concat (map (\<lambda>stream. if \<not> stream_info_valid stream then []
       else case state_of_stream 0 of None \<Rightarrow> [] | Some st \<Rightarrow> [(stream, st)]) (rp_streams (rr_parameters s)))"

text \<open>The states that changed are told, in \<open>do_maintenance\<close>.\<close>

definition receiver_maintenance ::
    "(nat \<Rightarrow> stream_state option) \<Rightarrow> RavennaReceiver \<Rightarrow> (stream_info \<times> stream_state) list \<times> RavennaReceiver" where
  "receiver_maintenance state_of_stream s =
     (let states = rr_stream_states s;
          fresh = (\<lambda>i. case state_of_stream i of Some st \<Rightarrow> st | None \<Rightarrow> states ! i)
      in (map (\<lambda>i. (rp_streams (rr_parameters s) ! i, fresh i)) (filter (\<lambda>i. states ! i \<noteq> fresh i) [0..<length states]),
          s\<lparr>rr_stream_states := map fresh [0..<length states]\<rparr>))"

definition destroy_receiver :: "RavennaReceiver \<Rightarrow> RavennaReceiver" where
  "destroy_receiver s = receiver_log Unsubscribe_all (receiver_log Remove_reader s)"

datatype receiver_op =
    Configure_receiver receiver_configuration
  | Announced session_description
  | Change_interfaces network_interface_config

text \<open>One operation; the boolean says whether an exception came out of the description.\<close>

fun receiver_op_step :: "receiver_environment \<Rightarrow> receiver_op \<Rightarrow> RavennaReceiver \<Rightarrow> (bool \<times> RavennaReceiver) option" where
  "receiver_op_step e (Configure_receiver c) s = map_option (map_prod (\<lambda>r. r = None) id) (receiver_set_configuration e c s)"
| "receiver_op_step e (Announced sd) s = map_option
     (\<lambda>s'. (create_rtp_receiver_parameters (renv_make_address e) sd = Some (Inl Parameters_throw), s')) (handle_announced_sdp e sd s)"
| "receiver_op_step e (Change_interfaces c) s = Some (False, receiver_set_interfaces c s)"

fun receiver_op_run :: "receiver_environment \<Rightarrow> receiver_op list \<Rightarrow> RavennaReceiver \<Rightarrow> (bool \<times> RavennaReceiver) option" where
  "receiver_op_run e [] s = Some (False, s)"
| "receiver_op_run e (x # xs) s = Option.bind (receiver_op_step e x s) (\<lambda>(thrown, s').
     map_option (\<lambda>(later, s''). (thrown \<or> later, s'')) (receiver_op_run e xs s'))"

section \<open>The reader follows the configuration\<close>

text \<open>The audio receiver refuses a second reader with the same identifier.\<close>

fun reader_call :: "receiver_call \<Rightarrow> reader_parameters option \<Rightarrow> reader_parameters option" where
  "reader_call Remove_reader r = None"
| "reader_call (Add_reader p i) r = (case r of None \<Rightarrow> Some p | Some _ \<Rightarrow> r)"
| "reader_call _ r = r"

fun subscription_call :: "receiver_call \<Rightarrow> string option \<Rightarrow> string option" where
  "subscription_call Unsubscribe_all n = None"
| "subscription_call (Subscribe_session m) n = Some m"
| "subscription_call _ n = n"

definition reader_after :: "receiver_call list \<Rightarrow> reader_parameters option" where
  "reader_after cs = fold reader_call cs None"

definition subscribed_after :: "receiver_call list \<Rightarrow> string option" where
  "subscribed_after cs = fold subscription_call cs None"

lemma reader_after_append [simp]:
  "reader_after (cs @ xs) = fold reader_call xs (reader_after cs)"
  "subscribed_after (cs @ xs) = fold subscription_call xs (subscribed_after cs)"
  "reader_after [] = None" "subscribed_after [] = None"
  by (simp_all add: reader_after_def subscribed_after_def)

lemma receiver_log_fields [simp]:
  "rr_calls (receiver_log c s) = rr_calls s @ [c]" "rr_configuration (receiver_log c s) = rr_configuration s"
  "rr_parameters (receiver_log c s) = rr_parameters s" "rr_interfaces (receiver_log c s) = rr_interfaces s"
  by (simp_all add: receiver_log_def)

definition expected_reader :: "RavennaReceiver \<Rightarrow> reader_parameters option" where
  "expected_reader s =
     (if cfg_enabled (rr_configuration s) \<and> reader_parameters_valid (rr_parameters s) then Some (rr_parameters s) else None)"

definition expected_parameters :: "receiver_environment \<Rightarrow> session_description \<Rightarrow> reader_parameters option" where
  "expected_parameters e sd =
     (case create_rtp_receiver_parameters (renv_make_address e) sd of
        Some (Inr p) \<Rightarrow> Some p | Some (Inl No_suitable_media) \<Rightarrow> Some reader_parameters_init | _ \<Rightarrow> None)"

definition reader_consistent :: "receiver_environment \<Rightarrow> RavennaReceiver \<Rightarrow> bool" where
  "reader_consistent e s \<longleftrightarrow>
     reader_after (rr_calls s) = expected_reader s \<and>
     expected_parameters e (cfg_sdp (rr_configuration s)) = Some (rr_parameters s)"

lemma no_media_parameters: "expected_parameters e session_description_init = Some reader_parameters_init"
  by (simp add: expected_parameters_def create_rtp_receiver_parameters_def session_description_init_def)

lemma create_receiver_consistent: "reader_consistent e (create_receiver i)"
  by (simp add: reader_consistent_def create_receiver_def expected_reader_def no_media_parameters)

lemma apply_parameters_fields:
  assumes "s' = apply_parameters e c enabled new s" "rr_configuration s = c"
  shows "rr_parameters s' = new" "cfg_enabled (rr_configuration s') = cfg_enabled c" "cfg_sdp (rr_configuration s') = cfg_sdp c"
    "cfg_auto_update_sdp (rr_configuration s') = cfg_auto_update_sdp c"
    "cfg_session_name (rr_configuration s') =
       (if cfg_auto_update_sdp c then cfg_session_name c else sd_session_name (cfg_sdp c))"
    "reader_after (rr_calls s') =
       (if enabled \<or> rr_parameters s \<noteq> new then if reader_parameters_valid new \<and> cfg_enabled c then Some new else None
        else reader_after (rr_calls s))"
    "subscribed_after (rr_calls s') = subscribed_after (rr_calls s)"
  using assms by (simp_all add: apply_parameters_def Let_def receiver_log_def)

lemma configure_streamsE:
  assumes "configure_streams e c s = Some (r, s')"
  obtains "r = None" "s' = s\<lparr>rr_configuration := c\<rparr>" "create_rtp_receiver_parameters (renv_make_address e) (cfg_sdp c) = Some (Inl Parameters_throw)"
  | p where "expected_parameters e (cfg_sdp c) = Some p"
    "r = Some (cfg_enabled c \<noteq> cfg_enabled (rr_configuration s) \<or> cfg_session_name c \<noteq> cfg_session_name (rr_configuration s) \<or>
         rr_parameters s \<noteq> p,
       cfg_enabled c \<noteq> cfg_enabled (rr_configuration s) \<or> cfg_session_name c \<noteq> cfg_session_name (rr_configuration s) \<or>
         cfg_auto_update_sdp c \<noteq> cfg_auto_update_sdp (rr_configuration s))"
    "s' = apply_parameters e c (cfg_enabled c \<noteq> cfg_enabled (rr_configuration s)) p (s\<lparr>rr_configuration := c\<rparr>)"
proof -
  obtain x where x: "create_rtp_receiver_parameters (renv_make_address e) (cfg_sdp c) = Some x"
    using assms by (cases "create_rtp_receiver_parameters (renv_make_address e) (cfg_sdp c)") (simp_all add: configure_streams_def Let_def)
  show ?thesis
  proof (cases "x = Inl Parameters_throw")
    case True
    then show ?thesis using assms x that(1) by (simp add: configure_streams_def Let_def)
  next
    case False
    define p where "p = (case x of Inr p \<Rightarrow> p | Inl _ \<Rightarrow> reader_parameters_init)"
    have "expected_parameters e (cfg_sdp c) = Some p"
      using x False by (cases x) (auto simp: expected_parameters_def p_def split: parameter_error.splits)
    then show ?thesis using assms x False that(2) [of p] by (simp add: configure_streams_def Let_def p_def [symmetric])
  qed
qed

lemma configure_streams_consistent:
  assumes "reader_consistent e s" "configure_streams e c s = Some (Some f, s')"
  shows "reader_consistent e s'"
  using assms(2)
proof (cases rule: configure_streamsE)
  case (2 p)
  note a = apply_parameters_fields [OF 2(3)]
  show ?thesis using assms(1) 2(1) a by (auto simp: reader_consistent_def expected_reader_def)
qed simp

lemma receiver_log_consistent [simp]:
  "reader_consistent e (receiver_log Update_nmos_receiver s) = reader_consistent e s"
  "reader_consistent e (receiver_log Unsubscribe_all s) = reader_consistent e s"
  "reader_consistent e (receiver_log (Subscribe_session n) s) = reader_consistent e s"
  by (simp_all add: reader_consistent_def expected_reader_def)

lemma handle_announced_consistent:
  assumes "reader_consistent e s" "handle_announced_sdp e sd s = Some s'"
    and "create_rtp_receiver_parameters (renv_make_address e) sd \<noteq> Some (Inl Parameters_throw)"
  shows "reader_consistent e s'"
proof (cases "\<not> cfg_auto_update_sdp (rr_configuration s) \<or> cfg_session_name (rr_configuration s) = []")
  case False
  then obtain r s1 where c: "configure_streams e ((rr_configuration s)\<lparr>cfg_sdp := sd\<rparr>) s = Some (r, s1)"
    and s': "s' = (case r of Some (nmos, _) \<Rightarrow> if nmos then receiver_log Update_nmos_receiver s1 else s1 | None \<Rightarrow> s1)"
    using assms(2) by (auto simp: handle_announced_sdp_def)
  from c show ?thesis
  proof (cases rule: configure_streamsE)
    case 1
    then show ?thesis using assms(3) by simp
  next
    case (2 p)
    then show ?thesis using configure_streams_consistent [OF assms(1)] c s' by (auto split: if_splits)
  qed
qed (use assms in \<open>simp add: handle_announced_sdp_def\<close>)

section \<open>The subscription follows the configuration\<close>

definition expected_subscription :: "RavennaReceiver \<Rightarrow> string option" where
  "expected_subscription s =
     (if cfg_enabled (rr_configuration s) \<and> cfg_auto_update_sdp (rr_configuration s) then Some (cfg_session_name (rr_configuration s)) else None)"

definition subscription_consistent :: "RavennaReceiver \<Rightarrow> bool" where
  "subscription_consistent s \<longleftrightarrow> subscribed_after (rr_calls s) = expected_subscription s"

text \<open>What the RTSP client knows makes no exception.\<close>

definition known_parsable :: "receiver_environment \<Rightarrow> bool" where
  "known_parsable e \<longleftrightarrow>
     (\<forall>n sd. renv_known e n = Some sd \<longrightarrow> create_rtp_receiver_parameters (renv_make_address e) sd \<noteq> Some (Inl Parameters_throw))"

lemma nmos_subscription [simp]:
  "subscription_consistent (receiver_log Update_nmos_receiver s) = subscription_consistent s"
  "expected_subscription (receiver_log c s) = expected_subscription s"
  by (simp_all add: subscription_consistent_def expected_subscription_def)

lemma handle_announced_subscription:
  assumes "subscription_consistent s" "handle_announced_sdp e sd s = Some s'"
  shows "subscription_consistent s'"
proof (cases "\<not> cfg_auto_update_sdp (rr_configuration s) \<or> cfg_session_name (rr_configuration s) = []")
  case False
  then obtain r s1 where c: "configure_streams e ((rr_configuration s)\<lparr>cfg_sdp := sd\<rparr>) s = Some (r, s1)"
    and s': "s' = (case r of Some (nmos, _) \<Rightarrow> if nmos then receiver_log Update_nmos_receiver s1 else s1 | None \<Rightarrow> s1)"
    using assms(2) by (auto simp: handle_announced_sdp_def)
  from c have "subscription_consistent s1"
  proof (cases rule: configure_streamsE)
    case 1
    then show ?thesis using assms(1) by (simp add: subscription_consistent_def expected_subscription_def)
  next
    case (2 p)
    show ?thesis using assms(1) False apply_parameters_fields [OF 2(3)]
      by (simp add: subscription_consistent_def expected_subscription_def)
  qed
  then show ?thesis using s' by (cases r) auto
qed (use assms in \<open>simp add: handle_announced_sdp_def\<close>)

lemma update_rtsp_consistent:
  assumes "reader_consistent e s" "update_rtsp e s = Some (ok, s')" "known_parsable e"
  shows "reader_consistent e s' \<and> subscription_consistent s'"
proof -
  let ?s1 = "receiver_log Unsubscribe_all s" and ?c = "rr_configuration s"
  let ?s2 = "receiver_log (Subscribe_session (cfg_session_name ?c)) ?s1"
  consider "\<not> (cfg_enabled ?c \<and> cfg_auto_update_sdp ?c)" "s' = ?s1"
    | "cfg_enabled ?c" "cfg_auto_update_sdp ?c" "s' = ?s2"
    | sd where "cfg_enabled ?c" "cfg_auto_update_sdp ?c" "renv_known e (cfg_session_name ?c) = Some sd" "handle_announced_sdp e sd ?s2 = Some s'"
    using assms(2) by (auto simp: update_rtsp_def Let_def split: if_splits option.splits)
  then show ?thesis
  proof cases
    case 1
    then show ?thesis using assms(1) by (auto simp: subscription_consistent_def expected_subscription_def)
  next
    case 2
    then show ?thesis using assms(1) by (simp add: subscription_consistent_def expected_subscription_def)
  next
    case (3 sd)
    have c: "reader_consistent e ?s2" "subscription_consistent ?s2"
      using assms(1) 3 by (simp_all add: subscription_consistent_def expected_subscription_def)
    have t: "create_rtp_receiver_parameters (renv_make_address e) sd \<noteq> Some (Inl Parameters_throw)"
      using assms(3) 3(3) unfolding known_parsable_def by blast
    show ?thesis using handle_announced_consistent [OF c(1) 3(4) t] handle_announced_subscription [OF c(2) 3(4)] by simp
  qed
qed

lemma receiver_set_configuration_consistent:
  assumes "reader_consistent e s" "subscription_consistent s" "receiver_set_configuration e c s = Some (Some r, s')" "known_parsable e"
  shows "reader_consistent e s' \<and> subscription_consistent s'"
proof (cases "cfg_auto_update_sdp c \<and> cfg_session_name c = []")
  case False
  then obtain q s1 where q: "configure_streams e c s = Some (q, s1)"
    using assms(3) by (auto simp: receiver_set_configuration_def bind_eq_Some_conv)
  then obtain nmos rtsp where q': "q = Some (nmos, rtsp)"
    using False assms(3) by (cases q) (auto simp: receiver_set_configuration_def)
  have c1: "reader_consistent e s1" using configure_streams_consistent [OF assms(1)] q q' by simp
  obtain ok s2 where s2: "(if rtsp then update_rtsp e s1 else Some (True, s1)) = Some (ok, s2)"
    and s': "s' = s2 \<or> s' = receiver_log Update_nmos_receiver s2"
    using False assms(3) q q' by (auto simp: receiver_set_configuration_def update_receiver_nmos_def bind_eq_Some_conv split: if_splits)
  have "reader_consistent e s2 \<and> subscription_consistent s2"
  proof (cases rtsp)
    case True
    then show ?thesis using update_rtsp_consistent [OF c1 _ assms(4)] s2 by simp
  next
    case unchanged: False
    from q have "subscription_consistent s1"
    proof (cases rule: configure_streamsE)
      case (2 p)
      then have "cfg_enabled c = cfg_enabled (rr_configuration s)" "cfg_session_name c = cfg_session_name (rr_configuration s)"
        "cfg_auto_update_sdp c = cfg_auto_update_sdp (rr_configuration s)" using q' unchanged by auto
      then show ?thesis using assms(2) apply_parameters_fields [OF 2(3)]
        by (simp add: subscription_consistent_def expected_subscription_def)
    qed (use q' in simp)
    then show ?thesis using unchanged s2 c1 by simp
  qed
  then show ?thesis using s' by auto
qed (use assms in \<open>simp add: receiver_set_configuration_def\<close>)

lemma receiver_op_consistent [inv_intros]:
  assumes "reader_consistent e s" "subscription_consistent s" "receiver_op_step e x s = Some (False, s')" "known_parsable e"
  shows "reader_consistent e s' \<and> subscription_consistent s'"
proof (cases x)
  case (Configure_receiver c)
  then obtain r where "receiver_set_configuration e c s = Some (Some r, s')" using assms(3) by auto
  then show ?thesis using receiver_set_configuration_consistent assms by blast
next
  case (Announced sd)
  then show ?thesis using assms handle_announced_consistent [OF assms(1)] handle_announced_subscription [OF assms(2)] by auto
next
  case (Change_interfaces c)
  then have s': "s' = receiver_set_interfaces c s" using assms(3) by simp
  show ?thesis unfolding s' using assms(1,2)
    by (simp add: receiver_set_interfaces_def reader_consistent_def expected_reader_def subscription_consistent_def expected_subscription_def)
qed

lemma receiver_run_consistent:
  "reader_consistent e s \<Longrightarrow> subscription_consistent s \<Longrightarrow> receiver_op_run e xs s = Some (False, s') \<Longrightarrow> known_parsable e \<Longrightarrow>
   reader_consistent e s' \<and> subscription_consistent s'"
  by (induction xs arbitrary: s) (auto simp: bind_eq_Some_conv dest: receiver_op_consistent)


section \<open>Examples\<close>

definition example_address :: "string \<Rightarrow> address option" where
  "example_address s = (if s = ''239.1.2.3'' then Some (V4 0xEF010203) else None)"

definition example_stream :: media_description where
  "example_stream = media_init\<lparr>md_media_type := ''audio'', md_port := 5004, md_protocol := ''RTP/AVP'',
     md_formats := [\<lparr>fm_payload_type = 98, fm_encoding_name = ''L24'', fm_clock_rate = 48000, fm_num_channels = 2\<rparr>],
     md_connection_infos := [\<lparr>ci_network_type = Netw_internet, ci_address_type = Addr_ipv4, ci_address = ''239.1.2.3'',
       ci_ttl = Some 15, ci_number_of_addresses = None\<rparr>],
     md_framecount := Some 48\<rparr>"

definition example_description :: "media_description \<Rightarrow> session_description" where
  "example_description m = session_description_init\<lparr>sd_session_name := ''S'', sd_media_descriptions := [m]\<rparr>"

definition example_parameters :: reader_parameters where
  "example_parameters =
     \<lparr>rp_audio_format = \<lparr>af_byte_order = Order_be, af_encoding = Pcm_s24, af_ordering = Interleaved, af_sample_rate = 48000,
        af_num_channels = 2\<rparr>,
      rp_streams = [\<lparr>si_session = \<lparr>connection_address = V4 0xEF010203, rtp_port = 5004, rtcp_port = 5005\<rparr>,
        si_filter = \<lparr>rf_connection_address = V4 0xEF010203, rf_filters = []\<rparr>, si_packet_time_frames = 48\<rparr>, stream_info_init]\<rparr>"

lemma example_created: "create_rtp_receiver_parameters example_address (example_description example_stream) = Some (Inr example_parameters)"
  by (simp add: create_rtp_receiver_parameters_def example_description_def example_stream_def media_init_def session_description_init_def
      select_audio_format_def audio_format_of_format_def create_stream_from_media_description_def select_connection_info_def
      is_connection_info_valid_def stream_frames_def example_address_def Let_def example_parameters_def k_max_num_redundant_sessions_def
      numeral_2_eq_2)

lemma example_valid: "reader_parameters_valid example_parameters"
  by (simp add: example_parameters_def reader_parameters_valid_def format_valid_def stream_info_valid_def session_valid_def
      address_unspecified_def word_gt_0)

definition example_environment :: receiver_environment where
  "example_environment = \<lparr>renv_make_address = example_address, renv_address_of = (\<lambda>_. 0), renv_known = (\<lambda>_. None),
     renv_subscribe_ok = True, renv_nmos_ok = True\<rparr>"

definition example_configuration :: "bool \<Rightarrow> session_description \<Rightarrow> receiver_configuration" where
  "example_configuration on sd = \<lparr>cfg_sdp = sd, cfg_session_name = ''S'', cfg_delay_frames = 480, cfg_enabled = on,
     cfg_auto_update_sdp = False\<rparr>"

lemma example_expected:
  "expected_parameters example_environment (example_description example_stream) = Some example_parameters"
  by (simp add: expected_parameters_def example_environment_def example_created)

lemma not_init: "example_parameters \<noteq> reader_parameters_init"
  by (simp add: example_parameters_def reader_parameters_init_def audio_format_init_def)

lemma example_configured:
  "receiver_op_run example_environment [Configure_receiver (example_configuration on (example_description example_stream))] (create_receiver []) =
     Some (False, receiver_log Update_nmos_receiver (receiver_log Unsubscribe_all
       (apply_parameters example_environment (example_configuration on (example_description example_stream)) on example_parameters
         ((create_receiver [])\<lparr>rr_configuration := example_configuration on (example_description example_stream)\<rparr>))))"
proof -
  let ?c = "example_configuration on (example_description example_stream)"
  let ?s = "apply_parameters example_environment ?c on example_parameters ((create_receiver [])\<lparr>rr_configuration := ?c\<rparr>)"
  have c: "configure_streams example_environment ?c (create_receiver []) = Some (Some (True, True), ?s)"
    using example_created not_init
    by (simp add: configure_streams_def example_configuration_def create_receiver_def example_environment_def Let_def)
  have "\<not> cfg_auto_update_sdp (rr_configuration ?s)"
    using apply_parameters_fields(4) [OF refl, of "(create_receiver [])\<lparr>rr_configuration := ?c\<rparr>" ?c]
    by (simp add: example_configuration_def)
  then have "update_rtsp example_environment ?s = Some (True, receiver_log Unsubscribe_all ?s)"
    by (simp add: update_rtsp_def Let_def)
  then show ?thesis using c
    by (simp add: receiver_set_configuration_def update_receiver_nmos_def example_environment_def example_configuration_def)
qed


lemma create_stream_cong:
  assumes "md_formats m = md_formats m'" "md_connection_infos m = md_connection_infos m'" "md_ptime m = md_ptime m'"
    "md_framecount m = md_framecount m'" "md_source_filters m = md_source_filters m'" "md_port m = md_port m'"
    "sd_connection_info sd = sd_connection_info sd'" "sd_source_filters sd = sd_source_filters sd'"
  shows "create_stream_from_media_description a m sd fmt = create_stream_from_media_description a m' sd' fmt"
  unfolding create_stream_from_media_description_def select_connection_info_def stream_frames_def assms by (rule refl)

text \<open>C39: a description of one stream that is accepted as it is, is refused when the stream has a media identification and
  the session no group, although the code means to take it as the primary stream: the \<open>break\<close> leaves the loop over the media descriptions.\<close>

theorem lone_mid_rejected:
  assumes "create_rtp_receiver_parameters make_address (sd\<lparr>sd_media_descriptions := [m\<lparr>md_mid := None\<rparr>]\<rparr>) = Some (Inr p)"
    and "sd_group sd = None"
  shows "create_rtp_receiver_parameters make_address (sd\<lparr>sd_media_descriptions := [m\<lparr>md_mid := Some mid\<rparr>]\<rparr>) =
    Some (Inl No_suitable_media)"
proof -
  let ?n = "m\<lparr>md_mid := None\<rparr>" and ?m = "m\<lparr>md_mid := Some mid\<rparr>"
  have a: "select_audio_format ?m = select_audio_format ?n" by (simp add: select_audio_format_def)
  have c: "create_stream_from_media_description make_address ?m (sd\<lparr>sd_media_descriptions := [?m]\<rparr>) fmt =
      create_stream_from_media_description make_address ?n (sd\<lparr>sd_media_descriptions := [?n]\<rparr>) fmt" for fmt
    by (rule create_stream_cong) simp_all
  show ?thesis using assms a c
    by (auto simp: create_rtp_receiver_parameters_def Let_def bind_eq_Some_conv split: if_splits option.splits sum.splits)
qed

theorem lone_mid_rejected_witness:
  "create_rtp_receiver_parameters example_address
     ((example_description example_stream)\<lparr>sd_media_descriptions := [example_stream\<lparr>md_mid := Some ''primary''\<rparr>]\<rparr>) = Some (Inl No_suitable_media)"
proof (rule lone_mid_rejected)
  have "(example_description example_stream)\<lparr>sd_media_descriptions := [example_stream\<lparr>md_mid := None\<rparr>]\<rparr> = example_description example_stream"
    by (simp add: example_description_def example_stream_def media_init_def)
  then show "create_rtp_receiver_parameters example_address
      ((example_description example_stream)\<lparr>sd_media_descriptions := [example_stream\<lparr>md_mid := None\<rparr>]\<rparr>) = Some (Inr example_parameters)"
    by (simp only: example_created)
qed (simp add: example_description_def session_description_init_def)

end
