(* ===== verification/Ravenna_Description.thy ===== *)
theory Ravenna_Description
  imports Ravenna_Sender Ravenna_Receiver String_Utils
begin

text \<open>
  From a sender to a receiver by the text of the session description: what \<open>RavennaSender::generate_sdp\<close> describes is printed, parsed and
  turned into the streams of the receiver. Shown: the receiver gets the addresses, the source filters, the audio format and the number of
  frames of the sender, but port 5004 whatever the port of the destination.
\<close>

section \<open>The description of a sender is well formed\<close>

text \<open>What is used of the texts of addresses and of their parser.\<close>

definition address_text :: "environment \<Rightarrow> (string \<Rightarrow> address option) \<Rightarrow> bool" where
  "address_text e make_address \<longleftrightarrow>
     (\<forall>a. env_show_address e a \<noteq> [] \<and> no_char (CHR '' '') (env_show_address e a) \<and> CHR ''/'' \<notin> set (env_show_address e a) \<and>
       make_address (env_show_address e a) = Some (V4 a))"

definition describable :: "RavennaSender \<Rightarrow> bool" where
  "describable s \<longleftrightarrow>
     newline \<notin> set (sc_session_name (rs_configuration s)) \<and> plain_float (get_signaled_ptime s) \<and>
     list_all (\<lambda>d. dest_rank d < 10) (active (rs_configuration s))"

text \<open>The group has no type, and is printed as one of duplicates.\<close>

definition as_duplicates :: "session_description \<Rightarrow> session_description" where
  "as_duplicates sd = sd\<lparr>sd_group := map_option (\<lambda>g. g\<lparr>grp_type := Group_dup\<rparr>) (sd_group sd)\<rparr>"

lemma show_as_duplicates: "show_session_description nl (as_duplicates sd) = show_session_description nl sd"
proof -
  have "lines_of (map_option (\<lambda>g. g\<lparr>grp_type := Group_dup\<rparr>) x) show_group = lines_of x show_group" for x
    by (cases x) (simp_all add: lines_of_def show_group_def)
  then have "session_lines (as_duplicates sd) = session_lines sd"
    unfolding session_lines_def as_duplicates_def by (simp del: append.simps)
  moreover have "sd_origin (as_duplicates sd) = sd_origin sd" "sd_media_descriptions (as_duplicates sd) = sd_media_descriptions sd"
    by (simp_all add: as_duplicates_def)
  ultimately show ?thesis by (simp only: show_session_description_def)
qed

lemma rank_names: "r < 10 \<Longrightarrow> rank_to_ordinal_latin r False \<noteq> [] \<and> no_char (CHR '' '') (rank_to_ordinal_latin r False)"
proof -
  have all: "list_all (\<lambda>n. rank_to_ordinal_latin (of_nat n) False \<noteq> [] \<and> no_char (CHR '' '') (rank_to_ordinal_latin (of_nat n) False)) [0..<10]"
    by code_simp
  assume "r < 10"
  then have "unat r \<in> set [0..<10]" by (simp add: word_less_nat_alt)
  with all have "rank_to_ordinal_latin (of_nat (unat r)) False \<noteq> [] \<and> no_char (CHR '' '') (rank_to_ordinal_latin (of_nat (unat r)) False)"
    unfolding list_all_iff by blast
  then show ?thesis by simp
qed

definition hex_alphabet :: string where "hex_alphabet = ''0123456789abcdef''"

lemma hex_byte_chars: "c \<in> set (show_hex_byte b) \<Longrightarrow> c \<in> set hex_alphabet"
proof -
  have nth: "hex_alphabet ! i \<in> set hex_alphabet" if "i < 16" for i using that by (intro nth_mem) (simp add: hex_alphabet_def)
  have "unat b div 16 < 16" using unat_bound [of b] by (simp add: less_mult_imp_div_less)
  moreover have "unat b mod 16 < 16" by simp
  moreover assume "c \<in> set (show_hex_byte b)"
  ultimately show ?thesis using nth unfolding show_hex_byte_def hex_alphabet_def [symmetric] by auto
qed

lemma identity_chars: "set (show_clock_identity i) \<subseteq> insert (CHR ''-'') (set hex_alphabet)"
  by (induction i rule: show_clock_identity.induct) (auto dest!: hex_byte_chars)

lemma identity_plain: "no_char (CHR '':'') (show_clock_identity i)"
proof -
  have "CHR '':'' \<notin> insert (CHR ''-'') (set hex_alphabet)" "newline \<notin> insert (CHR ''-'') (set hex_alphabet)"
    by (simp_all add: hex_alphabet_def)
  then show ?thesis using identity_chars [of i] unfolding no_char_def by blast
qed

lemma show_unsigned_no_char: "\<not> is_digit c \<Longrightarrow> c \<notin> set (show_unsigned w)"
  using show_unsigned_chars by blast

text \<open>The parts of a generated description.\<close>

definition rank_tag :: "destination \<Rightarrow> string" where
  "rank_tag d = rank_to_ordinal_latin (dest_rank d) False"

definition redundant :: "RavennaSender \<Rightarrow> bool" where
  "redundant s \<longleftrightarrow> 1 < length (active (rs_configuration s))"

definition sender_description :: "environment \<Rightarrow> RavennaSender \<Rightarrow> sdp_format \<Rightarrow> u32 \<Rightarrow> session_description" where
  "sender_description e s fmt frames = session_description_init
       \<lparr>sd_origin := \<lparr>or_username = ''-'', or_session_id = show_unsigned (rs_session_id s), or_session_version = 0,
          or_network_type = Netw_internet, or_address_type = Addr_ipv4,
          or_unicast_address = env_show_address e (interface_address e s rank_primary)\<rparr>,
        sd_session_name := sc_session_name (rs_configuration s),
        sd_clock_domain := Some \<lparr>cd_source = Sync_ptp_v2, cd_domain = rs_clock_domain s\<rparr>,
        sd_reference_clock := Some (sender_reference_clock s),
        sd_media_clock := Some \<lparr>mc_mode = Mode_direct, mc_offset = Some 0, mc_rate = None\<rparr>,
        sd_media_descriptions := map (media_of_destination e s fmt frames (redundant s)) (active (rs_configuration s)),
        sd_group := (if redundant s then Some \<lparr>grp_type = Group_undefined, grp_tags = map rank_tag (active (rs_configuration s))\<rparr> else None)\<rparr>"

lemma described:
  assumes "sc_session_name (rs_configuration s) \<noteq> []" "active (rs_configuration s) \<noteq> []"
    and "format_of_audio_format (sc_audio_format (rs_configuration s)) = Some fmt" "get_framecount s = Some frames"
  shows "generate_sdp e s = Some (Inr (sender_description e s fmt frames))"
proof -
  have dests: "sc_destinations (rs_configuration s) \<noteq> []" using assms(2) by auto
  have r: "rank_tag = (\<lambda>d. rank_to_ordinal_latin (dest_rank d) False)" by (simp add: rank_tag_def fun_eq_iff)
  show ?thesis using assms dests
    by (cases "1 < length (active (rs_configuration s))") (simp_all add: generate_sdp_def sender_description_def Let_def redundant_def r)
qed

lemma generate_sdpE:
  assumes "generate_sdp e s = Some (Inr sd)" "active (rs_configuration s) \<noteq> []"
  obtains fmt frames where "format_of_audio_format (sc_audio_format (rs_configuration s)) = Some fmt" "get_framecount s = Some frames"
    "sc_session_name (rs_configuration s) \<noteq> []"
    "sd = sender_description e s fmt frames"
proof -
  obtain fmt where f: "format_of_audio_format (sc_audio_format (rs_configuration s)) = Some fmt"
    using assms(1) by (cases "format_of_audio_format (sc_audio_format (rs_configuration s))") (simp_all add: generate_sdp_def Let_def split: if_splits)
  obtain frames where n: "get_framecount s = Some frames"
    using assms f by (cases "get_framecount s") (simp_all add: generate_sdp_def Let_def split: if_splits)
  have name: "sc_session_name (rs_configuration s) \<noteq> []" using assms(1) by (auto simp: generate_sdp_def Let_def)
  show ?thesis using that [OF f n name] described [OF name assms(2) f n, of e] assms(1) by simp
qed

lemma media_fields:
  "media_of_destination e s fmt frames b d = media_init
     \<lparr>md_media_type := ''audio'', md_port := 5004, md_protocol := ''RTP/AVP'', md_formats := [fmt],
      md_connection_infos := [\<lparr>ci_network_type = Netw_internet, ci_address_type = Addr_ipv4,
        ci_address = env_show_address e (fst (dest_endpoint d)), ci_ttl = Some 15, ci_number_of_addresses = None\<rparr>],
      md_source_filters := [\<lparr>sf_mode = Filter_include, sf_net_type = Netw_internet, sf_addr_type = Addr_ipv4,
        sf_dest_address = env_show_address e (fst (dest_endpoint d)),
        sf_src_list = [env_show_address e (interface_address e s (dest_rank d))]\<rparr>],
      md_clock_domain := Some \<lparr>cd_source = Sync_ptp_v2, cd_domain = rs_clock_domain s\<rparr>, md_sync_time := Some 0,
      md_reference_clock := Some (sender_reference_clock s), md_media_direction := Some Recvonly,
      md_ptime := Some (get_signaled_ptime s), md_framecount := Some (ucast frames), md_mid := (if b then Some (rank_tag d) else None)\<rparr>"
  by (simp add: media_of_destination_def Let_def media_init_def add_or_update_format_def media_add_or_update_source_filter_def rank_tag_def)

lemma media_wf:
  assumes "address_text e make_address" "plain_float (get_signaled_ptime s)" "dest_rank d < 10"
    and "format_of_audio_format f = Some fmt"
  shows "wf_media (media_of_destination e s fmt frames b d)"
proof -
  have "wf_format fmt"
    using assms(4) by (auto simp: format_of_audio_format_def wf_format_def no_char_def Let_def split: audio_encoding.splits)
  moreover have "\<And>a. env_show_address e a \<noteq> [] \<and> no_char (CHR '' '') (env_show_address e a) \<and> CHR ''/'' \<notin> set (env_show_address e a)"
    using assms(1) by (simp add: address_text_def)
  moreover have "\<And>a. no_char (CHR ''/'') (env_show_address e a)" using calculation(2) by (simp add: no_char_def)
  moreover have "rank_tag d \<noteq> [] \<and> newline \<notin> set (rank_tag d)" using rank_names [OF assms(3)] by (simp add: rank_tag_def no_char_def)
  moreover have "wf_reference_clock (sender_reference_clock s)"
    using identity_plain by (simp add: sender_reference_clock_def wf_reference_clock_def)
  ultimately show ?thesis using assms(2)
    by (simp add: media_fields media_init_def wf_media_def wf_connection_def wf_source_filter_def wf_clock_domain_def
        source_loop_upper_bound_def) (simp add: no_char_def)
qed

lemma generated_wf:
  assumes "generate_sdp e s = Some (Inr sd)" "active (rs_configuration s) \<noteq> []" "address_text e make_address" "describable s"
  shows "wf_session (as_duplicates sd)"
proof -
  from assms(1,2) obtain fmt frames where g: "format_of_audio_format (sc_audio_format (rs_configuration s)) = Some fmt"
    and sd: "sd = sender_description e s fmt frames"
    by (rule generate_sdpE)
  have ranks: "dest_rank d < 10" if "d \<in> set (active (rs_configuration s))" for d
    using assms(4) that unfolding describable_def list_all_iff by blast
  have medias: "list_all wf_media (map (media_of_destination e s fmt frames (redundant s)) (active (rs_configuration s)))"
    unfolding list_all_iff set_map using media_wf [OF assms(3) _ ranks g] assms(4) unfolding describable_def by blast
  have tags: "\<forall>t \<in> set (map rank_tag (active (rs_configuration s))). t \<noteq> [] \<and> no_char (CHR '' '') t"
    using rank_names ranks by (auto simp: rank_tag_def)
  have id: "no_char (CHR '' '') (show_unsigned (rs_session_id s))" "show_unsigned (rs_session_id s) \<noteq> []"
    using show_unsigned_no_char [of "CHR '' ''" "rs_session_id s"] show_unsigned_no_char [of newline "rs_session_id s"] show_nat_not_empty
    by (auto simp: no_char_def is_digit_def show_unsigned_def)
  have addr: "env_show_address e a \<noteq> [] \<and> no_char (CHR '' '') (env_show_address e a)" for a using assms(3) by (simp add: address_text_def)
  have rc: "wf_reference_clock (sender_reference_clock s)"
    using identity_plain by (simp add: sender_reference_clock_def wf_reference_clock_def)
  have "newline \<notin> set (sc_session_name (rs_configuration s))" using assms(4) by (simp add: describable_def)
  then show ?thesis using medias tags id addr rc
    by (simp add: sd sender_description_def as_duplicates_def session_description_init_def wf_session_def wf_origin_def wf_media_clock_def wf_clock_domain_def
        wf_group_def no_char_def [of _ "''-''"])
qed

text \<open>So the text of the description can be read back.\<close>

lemma generated_text:
  assumes "generate_sdp e s = Some (Inr sd)" "active (rs_configuration s) \<noteq> []" "address_text e make_address" "describable s"
  shows "\<exists>text. sdp_text sd = Some text \<and> parse_session_description text = Some (Inr (normal_session (as_duplicates sd)))"
  using session_read_back [OF generated_wf [OF assms]] by (auto simp: show_as_duplicates sdp_text_def)

section \<open>The streams of the receiver\<close>

text \<open>The stream a receiver makes of a destination of the sender.\<close>

definition stream_of_destination :: "environment \<Rightarrow> RavennaSender \<Rightarrow> u16 \<Rightarrow> destination \<Rightarrow> stream_info" where
  "stream_of_destination e s n d =
     \<lparr>si_session = \<lparr>connection_address = V4 (fst (dest_endpoint d)), rtp_port = 5004, rtcp_port = 5005\<rparr>,
      si_filter = \<lparr>rf_connection_address = V4 (fst (dest_endpoint d)),
        rf_filters = [\<lparr>fe_mode = Filter_include, fe_address = V4 (interface_address e s (dest_rank d))\<rparr>]\<rparr>,
      si_packet_time_frames = n\<rparr>"

definition receivable :: "audio_format \<Rightarrow> bool" where
  "receivable f \<longleftrightarrow> (af_encoding f = Pcm_s16 \<or> af_encoding f = Pcm_s24) \<and> af_byte_order f = Order_be \<and> af_ordering f = Interleaved"

lemma receivable_format: "receivable f \<Longrightarrow> format_of_audio_format f = Some fmt \<Longrightarrow> audio_format_of_format fmt = Some f"
  by (auto simp: receivable_def format_of_audio_format_def audio_format_of_format_def Let_def)

text \<open>The number of frames is found again from the text of the packet time.\<close>

lemma frames_from_text:
  assumes "packet_time_valid p" "rate \<noteq> 0" "m * unat (pt_denominator p) = unat (pt_numerator p) * rate_multiple rate * 48" "m < 2 ^ 16"
  shows "ptime_framecount (float_of_text (signaled_ptime p rate)) rate = Some (of_nat m)"
proof -
  define n d r where "n = unat (pt_numerator p)" and "d = unat (pt_denominator p)" and "r = unat rate"
  define K where "K = rate_multiple rate"
  let ?x = "rat_of_nat (n * K * 48000) / of_nat (r * d)"
  have nd: "0 < n" "n < 2 ^ 8" "0 < d" "d < 2 ^ 8" "0 < r" "r < 2 ^ 32" "0 < K" "K \<le> 2 ^ 20"
    using assms(1,2) unat_bound [of "pt_numerator p"] unat_bound [of "pt_denominator p"] unat_bound [of rate] rate_multiple_bound
    by (auto simp: packet_time_valid_def unat_gt_0 n_def d_def r_def K_def)
  have "near 9 ?x (signaled_ptime p rate)" using signaled_near [OF assms(1,2)] by (simp add: n_def d_def r_def K_def)
  then obtain y where y: "signaled_ptime p rate = Finite y" "?x / float_unit ^ 9 \<le> y" "y \<le> ?x * float_unit ^ 9" unfolding near_def by blast
  have "n * K \<le> 2 ^ 8 * 2 ^ 20" "r * d \<le> 2 ^ 32 * 2 ^ 8" using nd by (intro mult_le_mono; simp)+
  then have le: "n * K * 48000 \<le> 2 ^ 8 * 2 ^ 20 * 48000" "r * d \<le> 2 ^ 60" using mult_le_mono1 by (blast, simp)
  have "(2 ^ 8 * 2 ^ 20 * 48000 :: nat) \<le> 2 ^ 60" by simp
  with le have b: "n * K * 48000 \<le> 2 ^ 60" "r * d \<le> 2 ^ 60" by (blast intro: le_trans)+
  have p: "0 < n * K * 48000" "0 < r * d" using nd by simp_all
  have "moderate ?x" using moderate_fraction [OF p(1) b(1) p(2) b(2)] by simp
  then have near: "near (9 + 1) ?x (float_of_text (signaled_ptime p rate))" using near_round [OF y(2,3)] y(1) by simp
  have e: "m * d = n * K * 48" using assms(3) by (simp add: n_def d_def K_def)
  then have "0 < m * d" using nd by simp
  then have m: "0 < m" by simp
  have q: "(of_nat m :: rat) * of_nat d = of_nat n * of_nat K * 48" by (metis e of_nat_mult of_nat_numeral)
  have "?x * of_nat r = (of_nat n * of_nat K * 48 :: rat) / of_nat d * 1000" using nd by simp
  also have "\<dots> = of_nat m * 1000" using nd by (simp flip: q)
  finally have "?x * of_nat (unat rate) = of_nat m * 1000" by (simp add: r_def)
  then show ?thesis using framecount_near [OF near _ _ _ m assms(4)] assms(2) by (simp add: word_gt_0)
qed

lemma media_streams:
  assumes "address_text e make_address" "receivable f" "format_of_audio_format f = Some fmt"
    and "ptime_framecount (float_of_text (get_signaled_ptime s)) (af_sample_rate f) = Some n" "n \<noteq> 0"
    and "m = normal_media (media_of_destination e s fmt frames b d)"
  shows "create_stream_from_media_description make_address m sd f = Some (Inr (stream_of_destination e s n d))"
    and "select_audio_format m = Some f" "md_media_type m = ''audio''" "md_protocol m = ''RTP/AVP''"
    "md_mid m = (if b then Some (rank_tag d) else None)"
proof -
  have a: "make_address (env_show_address e x) = Some (V4 x)" for x using assms(1) by (simp add: address_text_def)
  note f = receivable_format [OF assms(2,3)]
  show "select_audio_format m = Some f" "md_media_type m = ''audio''" "md_protocol m = ''RTP/AVP''"
    "md_mid m = (if b then Some (rank_tag d) else None)"
    using f by (simp_all add: assms(6) normal_media_def media_fields select_audio_format_def)
  have fields: "md_formats m = [fmt]" "md_connection_infos m = [\<lparr>ci_network_type = Netw_internet, ci_address_type = Addr_ipv4,
        ci_address = env_show_address e (fst (dest_endpoint d)), ci_ttl = Some 15, ci_number_of_addresses = None\<rparr>]"
    "md_ptime m = Some (get_signaled_ptime s)" "md_port m = 5004"
    "md_source_filters m = [\<lparr>sf_mode = Filter_include, sf_net_type = Netw_internet, sf_addr_type = Addr_ipv4,
        sf_dest_address = env_show_address e (fst (dest_endpoint d)),
        sf_src_list = [env_show_address e (interface_address e s (dest_rank d))]\<rparr>]"
    by (simp_all add: assms(6) normal_media_def media_fields)
  show "create_stream_from_media_description make_address m sd f = Some (Inr (stream_of_destination e s n d))"
    unfolding create_stream_from_media_description_def select_connection_info_def stream_frames_def fields
    using f a assms(4,5)
    by (simp add: is_connection_info_valid_def add_source_filter_def add_filter_def stream_of_destination_def)
qed

lemma exact_frames:
  assumes "packet_time_valid p" "rate \<noteq> 0"
    and "m * unat (pt_denominator p) = unat (pt_numerator p) * rate_multiple rate * 48" "m < 2 ^ 16"
  shows "packet_framecount p rate = Some (of_nat m)"
proof -
  have "ucast (of_nat m :: u16) = (of_nat m :: u32)"
    using assms(4) by (intro word_unat_eq_iff [THEN iffD2]) (simp add: unsigned_ucast_eq unat_of_nat take_bit_nat_eq_self)
  then show ?thesis using frames_of_packet [OF assms] by (simp add: packet_framecount_def)
qed

section \<open>The parameters of the receiver\<close>

text \<open>When every tag of the group has a stream, the streams are filled in order, as far as there is room.\<close>

lemma add_duplicates_all:
  assumes "list_all (\<lambda>t. \<exists>m. find_media_description_by_mid sd t = Some m \<and>
      create_stream_from_media_description make_address m sd fmt = Some (Inr (h t))) tags"
    and "i \<le> length streams"
  shows "add_duplicates make_address sd fmt tags i streams =
    Some (Inr (take i streams @ take (length streams - i) (map h tags) @ drop (i + length tags) streams))"
  using assms
proof (induction tags arbitrary: i streams)
  case (Cons t tags)
  then obtain m where m: "find_media_description_by_mid sd t = Some m"
    "create_stream_from_media_description make_address m sd fmt = Some (Inr (h t))" by auto
  show ?case
  proof (cases "i = length streams")
    case False
    then have less: "i < length streams" using Cons.prems(2) by simp
    then have "take (length streams - i) (map h (t # tags)) = h t # take (length streams - Suc i) (map h tags)"
      by (cases "length streams - i") (simp_all add: Suc_diff_Suc [symmetric])
    moreover have "take (Suc i) (streams[i := h t]) = take i streams @ [h t]" using less by (simp add: take_Suc_conv_app_nth)
    ultimately show ?thesis using Cons.IH [of "i + 1" "streams[i := h t]"] Cons.prems(1) m less by simp
  qed (simp add: m)
qed simp

lemma find_distinct: "distinct (map g xs) \<Longrightarrow> x \<in> set xs \<Longrightarrow> find (\<lambda>y. g y = g x) xs = Some x"
  by (induction xs) auto

lemma find_mapped: "find P (map f xs) = map_option f (find (\<lambda>x. P (f x)) xs)"
  by (induction xs) auto

lemma distinct_others: "distinct (x # xs) \<Longrightarrow> filter (\<lambda>t. t \<noteq> x) (x # xs) = xs"
  by (auto simp: filter_id_conv)

lemma distinct_tags:
  assumes "distinct (map dest_rank ds)" "list_all (\<lambda>d. dest_rank d < 10) ds"
  shows "distinct (map rank_tag ds)"
proof -
  have "inj_on rank_tag (set ds)"
  proof (rule inj_onI)
    fix a b assume ab: "a \<in> set ds" "b \<in> set ds" "rank_tag a = rank_tag b"
    then have "dest_rank a = dest_rank b" using rank_names_distinct assms(2) unfolding rank_tag_def list_all_iff by blast
    then show "a = b" using assms(1) ab by (simp add: distinct_map inj_on_def)
  qed
  then show ?thesis using assms(1) by (simp add: distinct_map)
qed

text \<open>What becomes of the first stream that can be made, by its media identification.\<close>

definition accepted_stream ::
    "(string \<Rightarrow> address option) \<Rightarrow> session_description \<Rightarrow> audio_format \<Rightarrow> stream_info \<Rightarrow> string option \<Rightarrow>
     (parameter_error + reader_parameters) option" where
  "accepted_stream make_address sd f stream mid_of =
     (let streams = (replicate k_max_num_redundant_sessions stream_info_init)[0 := stream]
      in case mid_of of None \<Rightarrow> Some (Inr \<lparr>rp_audio_format = f, rp_streams = streams\<rparr>)
       | Some mid \<Rightarrow> (case sd_group sd of None \<Rightarrow> Some (Inl No_suitable_media) | Some g \<Rightarrow>
           if grp_type g \<noteq> Group_dup then Some (Inl No_suitable_media)
           else if mid \<notin> set (grp_tags g) then Some (Inl No_suitable_media)
           else map_option (map_sum id (\<lambda>ss. \<lparr>rp_audio_format = f, rp_streams = ss\<rparr>))
             (add_duplicates make_address sd f (filter (\<lambda>t. t \<noteq> mid) (grp_tags g)) 1 streams)))"

lemma first_accepted:
  assumes "md_media_type m = ''audio''" "md_protocol m = ''RTP/AVP''" "select_audio_format m = Some f"
    and "create_stream_from_media_description make_address m sd f = Some (Inr stream)"
  shows "create_parameters_loop make_address sd (m # ms) = accepted_stream make_address sd f stream (md_mid m)"
  using assms by (simp add: accepted_stream_def Let_def)

lemma description_parameters:
  assumes "address_text e make_address" "describable s" "receivable f" "f = sc_audio_format (rs_configuration s)"
    and "format_of_audio_format f = Some fmt"
    and "ptime_framecount (float_of_text (get_signaled_ptime s)) (af_sample_rate f) = Some n" "n \<noteq> 0"
    and "distinct (map dest_rank (active (rs_configuration s)))" "active (rs_configuration s) = d # ds"
    and sd: "sd = normal_session (as_duplicates (sender_description e s fmt frames))"
  shows "create_rtp_receiver_parameters make_address sd = Some (Inr \<lparr>rp_audio_format = f,
      rp_streams = take k_max_num_redundant_sessions (map (stream_of_destination e s n) (d # ds)) @
        drop (length (d # ds)) (replicate k_max_num_redundant_sessions stream_info_init)\<rparr>)"
proof -
  let ?media = "\<lambda>d. normal_media (media_of_destination e s fmt frames (redundant s) d)"
  let ?streams = "(replicate k_max_num_redundant_sessions stream_info_init)[0 := stream_of_destination e s n d]"
  note st = media_streams [OF assms(1,3,5,6,7) refl]
  have medias: "sd_media_descriptions sd = map ?media (d # ds)"
    unfolding sd normal_session_def as_duplicates_def sender_description_def by (simp add: assms(9))
  have r: "redundant s \<longleftrightarrow> ds \<noteq> []" by (simp add: redundant_def assms(9))
  have group: "sd_group sd = (if ds = [] then None else Some \<lparr>grp_type = Group_dup, grp_tags = map rank_tag (d # ds)\<rparr>)"
    unfolding sd normal_session_def as_duplicates_def sender_description_def by (simp add: assms(9) redundant_def)
  have start: "create_rtp_receiver_parameters make_address sd =
      accepted_stream make_address sd f (stream_of_destination e s n d) (md_mid (?media d))"
    unfolding create_rtp_receiver_parameters_def medias list.map by (rule first_accepted [OF st(3,4,2,1)])
  show ?thesis
  proof (cases "ds = []")
    case True
    then show ?thesis unfolding start st(5) using r by (simp add: accepted_stream_def k_max_num_redundant_sessions_def numeral_2_eq_2)
  next
    case False
    have tags: "distinct (map rank_tag (d # ds))"
      using distinct_tags [OF assms(8)] assms(2) unfolding describable_def assms(9) by blast
    have others: "filter (\<lambda>t. t \<noteq> rank_tag d) (map rank_tag (d # ds)) = map rank_tag ds"
      using distinct_others [of "rank_tag d" "map rank_tag ds"] tags by (simp only: list.map)
    define h where "h = (\<lambda>t. stream_of_destination e s n (the (find (\<lambda>x. rank_tag x = t) (d # ds))))"
    have mid: "md_mid (?media x) = Some (rank_tag x)" for x unfolding st(5) using False r by simp
    have "find_media_description_by_mid sd (rank_tag x) = Some (?media x)" if "x \<in> set ds" for x
    proof -
      have "find (\<lambda>y. rank_tag y = rank_tag x) (d # ds) = Some x" using find_distinct [OF tags] that by simp
      then show ?thesis unfolding find_media_description_by_mid_def medias find_mapped mid option.inject by simp
    qed
    moreover have "h (rank_tag x) = stream_of_destination e s n x" if "x \<in> set ds" for x
      using find_distinct [OF tags, of x] that by (simp add: h_def)
    ultimately have all: "list_all (\<lambda>t. \<exists>m. find_media_description_by_mid sd t = Some m \<and>
        create_stream_from_media_description make_address m sd f = Some (Inr (h t))) (map rank_tag ds)"
      and hs: "map h (map rank_tag ds) = map (stream_of_destination e s n) ds"
      using st(1) by (auto simp: list_all_iff)
    show ?thesis unfolding start mid accepted_stream_def group using False others add_duplicates_all [OF all, of 1 ?streams, unfolded hs]
      by (simp add: k_max_num_redundant_sessions_def numeral_2_eq_2)
  qed
qed


section \<open>Configurations are applied\<close>

text \<open>A valid configuration whose description can be made and printed is applied to the end, whatever the state of the sender.\<close>

lemma announce_returns:
  assumes "generate_sdp e s = Some r" "\<And>sd. r = Inr sd \<Longrightarrow> sdp_text sd \<noteq> None"
  shows "\<exists>cs. send_announce e s = Some (s\<lparr>rs_calls := cs\<rparr>)"
proof -
  have "send_announce e s \<noteq> None" using assms by (cases r) (auto simp: send_announce_def)
  then obtain s' where s': "send_announce e s = Some s'" by blast
  show ?thesis using send_announce_calls(1) [OF s'] s' by metis
qed

lemma streaming_returns:
  assumes "get_framecount s \<noteq> None"
  shows "\<exists>cs. (if b then restart_streaming e s else Some (if t then log_call c s else s)) = Some (s\<lparr>rs_calls := cs\<rparr>)"
proof (cases b)
  case True
  obtain n where "get_framecount s = Some n" using assms by blast
  then obtain s' where s': "restart_streaming e s = Some s'" by (cases "sc_enabled (rs_configuration s)") (auto simp: restart_streaming_def)
  show ?thesis using restart_streaming_calls(1) [OF s'] s' True by metis
next
  case False
  show ?thesis
  proof (cases t)
    case True
    then show ?thesis using False by (auto simp: log_call_calls)
  next
    case False
    then have "(if t then log_call c s else s) = s\<lparr>rs_calls := rs_calls s\<rparr>" by simp
    then show ?thesis using \<open>\<not> b\<close> by metis
  qed
qed

lemma set_configuration_returns:
  assumes v: "validate_configuration c = Inr ()" and s1: "s1 = apply_configuration e c s"
    and "get_framecount s1 \<noteq> None" "generate_sdp e s1 = Some r" "\<And>sd. r = Inr sd \<Longrightarrow> sdp_text sd \<noteq> None"
  shows "\<exists>s'. sender_set_configuration e c s = Some (Inr (), s') \<and> rs_configuration s' = rs_configuration s1 \<and>
    rs_interfaces s' = rs_interfaces s \<and> generate_sdp e s' = Some r"
proof -
  define ch where "ch = determine_changes (rs_configuration s) c (rs_interfaces s = [])"
  obtain cs where s2: "(if do_restart_streaming ch then restart_streaming e s1
      else Some (if do_update_ttl ch then log_call (Set_writer_ttl (sc_ttl (rs_configuration s1))) s1 else s1)) = Some (s1\<lparr>rs_calls := cs\<rparr>)"
    using streaming_returns [OF assms(3)] by blast
  define s4 where "s4 = (let s3 = (if do_update_advertisement ch then update_advertisement (s1\<lparr>rs_calls := cs\<rparr>) else s1\<lparr>rs_calls := cs\<rparr>)
    in if do_update_nmos ch then log_call Update_nmos s3 else s3)"
  define frame where "frame = (\<lambda>x y :: RavennaSender. rs_configuration (x :: RavennaSender) = rs_configuration y \<and> rs_session_id x = rs_session_id y \<and>
    rs_interfaces x = rs_interfaces y \<and> rs_clock_domain x = rs_clock_domain y \<and> rs_grandmaster x = rs_grandmaster y)"
  have "frame (update_advertisement x) x" for x
  proof -
    let ?y = "update_advertisement x"
    obtain a b d cs' where "?y = x\<lparr>rtsp_path_by_name := a, rtsp_path_by_id := b, rs_advertisement := d, rs_calls := cs'\<rparr>"
      using update_advertisement_frame(1) [OF refl] by blast
    then show ?thesis by (simp add: frame_def)
  qed
  then have f: "frame s4 s1" by (simp add: s4_def Let_def frame_def)
  then have g: "generate_sdp e x = Some r" if "frame x s4" for x
    using that assms(4) by (subst generate_sdp_cong [of x s1]) (simp_all add: frame_def)
  then have "generate_sdp e s4 = Some r" by (simp add: frame_def)
  then obtain cs' where a: "send_announce e s4 = Some (s4\<lparr>rs_calls := cs'\<rparr>)" using announce_returns assms(5) by blast
  define s5 where "s5 = (if do_announce ch \<and> sc_enabled (rs_configuration s4) then s4\<lparr>rs_calls := cs'\<rparr> else s4)"
  have s5: "(if do_announce ch \<and> sc_enabled (rs_configuration s4) then send_announce e s4 else Some s4) = Some s5"
    using a by (simp add: s5_def)
  have f5: "frame s5 s4" "frame (log_call x s5) s4" for x by (simp_all add: s5_def frame_def)
  have "sender_set_configuration e c s = Some (Inr (), log_call (Configuration_updated (rs_configuration s5)) s5)"
    unfolding sender_set_configuration_def v sum.case Let_def ch_def [symmetric] s1 [symmetric] s2 bind.bind_lunit
      s4_def [unfolded Let_def, symmetric] s5 by (rule refl)
  moreover have "rs_interfaces s1 = rs_interfaces s" by (simp add: s1 apply_configuration_def Let_def)
  ultimately show ?thesis using f f5 g [OF f5(2)] by (auto simp: frame_def)
qed

section \<open>Examples\<close>

text \<open>Addresses in dotted decimal.\<close>

fun join_fields :: "char \<Rightarrow> string list \<Rightarrow> string" where
  "join_fields c [] = []"
| "join_fields c [f] = f"
| "join_fields c (f # fs) = f @ c # join_fields c fs"

lemma split_fields_here: "c \<notin> set f \<Longrightarrow> split_fields [c] (f @ c # t) = f # split_fields [c] t"
  by (induction f) auto

lemma split_fields_whole: "c \<notin> set f \<Longrightarrow> split_fields [c] f = [f]"
  by (induction f) auto

lemma split_joined: "fs \<noteq> [] \<Longrightarrow> \<forall>f \<in> set fs. c \<notin> set f \<Longrightarrow> split_fields [c] (join_fields c fs) = fs"
  by (induction c fs rule: join_fields.induct) (auto simp: split_fields_here split_fields_whole)

lemma set_joined: "set (join_fields c fs) \<subseteq> insert c (\<Union>f \<in> set fs. set f)"
  by (induction c fs rule: join_fields.induct) auto

definition dotted :: "u32 \<Rightarrow> string" where
  "dotted a = join_fields (CHR ''.'') (map show_unsigned (enc_be a))"

definition read_dotted :: "string \<Rightarrow> address option" where
  "read_dotted s =
     (let fs = split_fields ''.'' s; bs = (map (string_to_unsigned True) fs :: byte option list)
      in if length fs = 4 \<and> None \<notin> set bs then Some (V4 (dec_be (map the bs))) else None)"

lemma octets: "length (enc_be (a :: u32)) = 4"
  by (simp add: length_enc_be)

lemma octet_list: "enc_be (a :: u32) \<noteq> []"
  using octets [of a] by (metis list.size(3) zero_neq_numeral)

lemma read_dotted_dotted: "read_dotted (dotted a) = Some (V4 a)"
proof -
  have "(CHR ''.'') \<notin> set (show_unsigned (b :: byte))" for b using show_unsigned_chars [of "CHR ''.''" b] by (auto simp: is_digit_def)
  then have "split_fields ''.'' (dotted a) = map show_unsigned (enc_be a)"
    unfolding dotted_def using octet_list [of a] by (intro split_joined) simp_all
  moreover have "map (string_to_unsigned True) (map show_unsigned (enc_be a)) = map Some (enc_be a)"
    by (simp add: string_to_unsigned_show)
  moreover have "None \<notin> set (map Some (enc_be a))" "map the (map Some (enc_be a)) = enc_be a" by (auto simp: comp_def)
  ultimately show ?thesis by (simp add: read_dotted_def octets dec_enc_be del: map_map set_map)
qed

lemma dotted_address_text:
  assumes "env_show_address e = dotted"
  shows "address_text e read_dotted"
proof -
  have "dotted a \<noteq> []" for a
  proof
    assume "dotted a = []"
    then show False using read_dotted_dotted [of a] by (simp add: read_dotted_def)
  qed
  moreover have "is_digit c \<or> c = CHR ''.''" if "c \<in> set (dotted a)" for a c
    using that set_joined [of "CHR ''.''" "map show_unsigned (enc_be a)"] show_unsigned_chars by (auto simp: dotted_def)
  then have "c \<notin> set (dotted a)" if "\<not> is_digit c" "c \<noteq> CHR ''.''" for a c using that by blast
  then have "CHR '' '' \<notin> set (dotted a)" "newline \<notin> set (dotted a)" "CHR ''/'' \<notin> set (dotted a)" for a by (auto simp: is_digit_def)
  ultimately show ?thesis using assms read_dotted_dotted by (simp add: address_text_def no_char_def)
qed

definition dotted_environment :: environment where
  "dotted_environment = \<lparr>env_address_of = (\<lambda>_. 0xC0A80102), env_show_address = dotted, env_rtsp_port = 554\<rparr>"

definition example_destinations :: "destination list" where
  "example_destinations =
     [\<lparr>dest_rank = 0, dest_endpoint = (0xEF010203, 5004), dest_enabled = True\<rparr>,
      \<lparr>dest_rank = 1, dest_endpoint = (0xEF010204, 5006), dest_enabled = True\<rparr>]"

definition sender_format :: audio_format where
  "sender_format = \<lparr>af_byte_order = Order_be, af_encoding = Pcm_s24, af_ordering = Interleaved, af_sample_rate = 48000, af_num_channels = 2\<rparr>"

definition sender_example :: "destination list \<Rightarrow> sender_configuration" where
  "sender_example ds = \<lparr>sc_session_name = ''S'', sc_destinations = ds, sc_ttl = 15, sc_payload_type = 98,
     sc_audio_format = sender_format, sc_packet_time = ms_1, sc_enabled = True\<rparr>"

definition example_sender :: "network_interface_config \<Rightarrow> sender_configuration \<Rightarrow> RavennaSender" where
  "example_sender interfaces c = (create_sender dotted_environment None 1 7 interfaces)\<lparr>rs_configuration := c\<rparr>"

lemma signaled_ms_1: "signaled_ptime ms_1 48000 = Finite 1"
proof -
  have "binary_exponent 280 1 = 0" by (simp add: numeral_eq_Suc)
  then have "to_float 1 = Finite 1"
    by (simp add: to_float_def round_positive_def rat_power_def round_half_even_def Let_def)
  then show ?thesis by (simp add: signaled_ptime_def ms_1_def)
qed

lemma plain_1: "plain_float (Finite 1)"
  unfolding plain_float_def by (intro disjI2 exI [of _ 100] exI [of _ 2]) simp

lemma example_describable:
  "describable (example_sender i (sender_example example_destinations))"
  "active (sender_example example_destinations) = example_destinations" "receivable sender_format"
  "packet_time_valid ms_1" "48 * unat (pt_denominator ms_1) = unat (pt_numerator ms_1) * rate_multiple (af_sample_rate sender_format) * 48"
  using signaled_ms_1 plain_1
  by (simp_all add: describable_def example_sender_def sender_example_def example_destinations_def get_signaled_ptime_def sender_format_def
      receivable_def packet_time_valid_def ms_1_def rate_multiple_def)


section \<open>What the other components are told\<close>


lemma example_valid_configuration: "validate_configuration (sender_example example_destinations) = Inr ()"
  by (simp add: validate_configuration_def sender_example_def example_destinations_def address_unspecified_def address_multicast_def
      format_valid_def sender_format_def packet_time_valid_def ms_1_def word_gt_0)

lemma example_frames: "sc_audio_format (rs_configuration s) = sender_format \<Longrightarrow> sc_packet_time (rs_configuration s) = ms_1 \<Longrightarrow>
    get_framecount s = Some 48"
  using exact_frames [OF example_describable(4) _ example_describable(5)] by (simp add: get_framecount_def sender_format_def)

lemma example_applied:
  assumes "s1 = apply_configuration dotted_environment (sender_example example_destinations) s"
  shows "rs_configuration s1 = sender_example example_destinations" "describable s1"
    "\<exists>sd. generate_sdp dotted_environment s1 = Some (Inr sd)" "get_framecount s1 = Some 48"
proof -
  show c: "rs_configuration s1 = sender_example example_destinations"
    unfolding assms by (simp add: apply_configuration_def generate_auto_addresses_def generate_auto_address_def sender_example_def example_destinations_def)
  show "describable s1"
    using signaled_ms_1 plain_1 unfolding describable_def c get_signaled_ptime_def
    by (simp add: sender_example_def example_destinations_def sender_format_def)
  have f: "sc_audio_format (rs_configuration s1) = sender_format" "sc_packet_time (rs_configuration s1) = ms_1"
    "sc_session_name (rs_configuration s1) \<noteq> []" "active (rs_configuration s1) \<noteq> []"
    unfolding c by (simp_all add: sender_example_def example_destinations_def)
  show n: "get_framecount s1 = Some 48" by (rule example_frames [OF f(1,2)])
  have "format_of_audio_format sender_format \<noteq> None" by (simp add: format_of_audio_format_def sender_format_def Let_def)
  then obtain fmt where "format_of_audio_format (sc_audio_format (rs_configuration s1)) = Some fmt" unfolding f by blast
  then show "\<exists>sd. generate_sdp dotted_environment s1 = Some (Inr sd)" using described [OF f(3,4) _ n] by blast
qed

lemma example_run:
  "\<exists>s sd. sender_op_run dotted_environment [Configure (sender_example example_destinations)]
      (create_sender dotted_environment None 1 7 interfaces) = Some s \<and> rs_configuration s = sender_example example_destinations \<and>
    rs_interfaces s = rs_interfaces (create_sender dotted_environment None 1 7 interfaces) \<and>
    generate_sdp dotted_environment s = Some (Inr sd)"
proof -
  let ?s = "create_sender dotted_environment None 1 7 interfaces" and ?c = "sender_example example_destinations"
  define s1 where "s1 = apply_configuration dotted_environment ?c ?s"
  note a = example_applied [OF s1_def]
  obtain sd where sd: "generate_sdp dotted_environment s1 = Some (Inr sd)" using a(3) by blast
  have "active (rs_configuration s1) \<noteq> []" unfolding a(1) by (simp add: sender_example_def example_destinations_def)
  moreover have "env_show_address dotted_environment = dotted" by (simp add: dotted_environment_def)
  ultimately have "sdp_text sd \<noteq> None" using generated_text [OF sd _ dotted_address_text a(2)] by auto
  then have "\<exists>s'. sender_set_configuration dotted_environment ?c ?s = Some (Inr (), s') \<and> rs_configuration s' = rs_configuration s1 \<and>
      rs_interfaces s' = rs_interfaces ?s \<and> generate_sdp dotted_environment s' = Some (Inr sd)"
    using a(4) by (intro set_configuration_returns [OF example_valid_configuration s1_def _ sd]) auto
  then show ?thesis unfolding a(1) by auto
qed




end
